(* ===== verification/Prelude.thy ===== *)
theory Prelude
  imports Complex_Main "HOL-Library.AList" "HOL-Library.Char_ord"
    "HOL-Library.List_Lexorder" "HOL-Library.Product_Lexorder"
begin

text \<open>
  What the components share: fallible computations as values of a sum type (the left
  value is the raised exception), database tables as association lists in row order,
  the interface of a keyed table as a locale, and Python's blank test and prefix test
  on strings.

  Strings are Isabelle strings, read as Python strings whose code points are below 256.
\<close>

named_theorems result_simps \<open>unfolding of fallible computations\<close>

subsection \<open>Fallible computations\<close>

definition rbind :: "'e + 'a \<Rightarrow> ('a \<Rightarrow> 'e + 'b) \<Rightarrow> 'e + 'b" where
  "rbind m f = (case m of Inl e \<Rightarrow> Inl e | Inr a \<Rightarrow> f a)"

lemma rbind_Inl [simp]: "rbind (Inl e) f = Inl e"
  by (simp add: rbind_def)

lemma rbind_Inr [simp]: "rbind (Inr a) f = f a"
  by (simp add: rbind_def)

lemma rbind_eq_Inr [result_simps]: "rbind m f = Inr b \<longleftrightarrow> (\<exists>a. m = Inr a \<and> f a = Inr b)"
  by (cases m) auto

lemma rbind_eq_Inl: "rbind m f = Inl e \<longleftrightarrow> m = Inl e \<or> (\<exists>a. m = Inr a \<and> f a = Inl e)"
  by (cases m) auto

lemma rbind_cong [fundef_cong]:
  "m = m' \<Longrightarrow> (\<And>a. m' = Inr a \<Longrightarrow> f a = g a) \<Longrightarrow> rbind m f = rbind m' g"
  by (cases m') auto

text \<open>A guard: the exception unless the condition holds.\<close>

definition require :: "bool \<Rightarrow> 'e \<Rightarrow> 'e + unit" where
  "require c e = (if c then Inr () else Inl e)"

lemma require_eq_Inr [simp]: "require c e = Inr u \<longleftrightarrow> c"
  by (simp add: require_def)

lemma require_eq_Inl [simp]: "require c e = Inl e' \<longleftrightarrow> \<not> c \<and> e' = e"
  by (auto simp: require_def)

lemma require_True [simp]: "require True e = Inr ()"
  by (simp add: require_def)

lemma require_False [simp]: "require False e = Inl e"
  by (simp add: require_def)

lemma rbind_require_eq_Inr [simp]:
  "rbind (require c e) f = Inr b \<longleftrightarrow> c \<and> f () = Inr b"
  by (cases c) auto

text \<open>Lifting an option: the exception when there is no value.\<close>

definition expect :: "'a option \<Rightarrow> 'e \<Rightarrow> 'e + 'a" where
  "expect x e = (case x of None \<Rightarrow> Inl e | Some a \<Rightarrow> Inr a)"

lemma expect_simps [simp]: "expect None e = Inl e" "expect (Some a) e = Inr a"
  by (simp_all add: expect_def)

lemma expect_eq_Inr [simp]: "expect x e = Inr a \<longleftrightarrow> x = Some a"
  by (cases x) auto

lemma rbind_expect_eq_Inr [simp]:
  "rbind (expect x e) f = Inr b \<longleftrightarrow> (\<exists>a. x = Some a \<and> f a = Inr b)"
  by (cases x) auto

subsection \<open>Python strings\<close>

definition is_space :: "char \<Rightarrow> bool" where
  "is_space c = (let n = (of_char c :: nat) in
     (9 \<le> n \<and> n \<le> 13) \<or> (28 \<le> n \<and> n \<le> 32) \<or> n = 133 \<or> n = 160)"

text \<open>\<open>nonblank s\<close> is the test \<open>bool(s.strip())\<close>.\<close>

definition nonblank :: "string \<Rightarrow> bool" where
  "nonblank s = list_ex (\<lambda>c. \<not> is_space c) s"

lemma nonblank_Nil [simp]: "\<not> nonblank []"
  by (simp add: nonblank_def)

definition starts_with :: "string \<Rightarrow> string \<Rightarrow> bool" where
  "starts_with p s = (take (length p) s = p)"

subsection \<open>Operations on a state\<close>

text \<open>
  An operation reads and writes a state and may raise: its outcome is the exception, or a
  value with the new state.
\<close>

type_synonym ('s, 'e, 'a) op = "'s \<Rightarrow> 'e + 'a \<times> 's"

definition ret :: "'a \<Rightarrow> ('s, 'e, 'a) op" where
  "ret a s = Inr (a, s)"

definition raise :: "'e \<Rightarrow> ('s, 'e, 'a) op" where
  "raise e s = Inl e"

definition bind :: "('s, 'e, 'a) op \<Rightarrow> ('a \<Rightarrow> ('s, 'e, 'b) op) \<Rightarrow> ('s, 'e, 'b) op" where
  "bind m f s = (case m s of Inl e \<Rightarrow> Inl e | Inr (a, t) \<Rightarrow> f a t)"

definition get :: "('s \<Rightarrow> 'a) \<Rightarrow> ('s, 'e, 'a) op" where
  "get f s = Inr (f s, s)"

definition modify :: "('s \<Rightarrow> 's) \<Rightarrow> ('s, 'e, unit) op" where
  "modify f s = Inr ((), f s)"

definition check :: "bool \<Rightarrow> 'e \<Rightarrow> ('s, 'e, unit) op" where
  "check c e s = (if c then Inr ((), s) else Inl e)"

definition lift :: "'e + 'a \<Rightarrow> ('s, 'e, 'a) op" where
  "lift r s = (case r of Inl e \<Rightarrow> Inl e | Inr a \<Rightarrow> Inr (a, s))"

text \<open>A loop over a list: the body at each element, in order, and the list of its values.\<close>

fun each :: "('a \<Rightarrow> ('s, 'e, 'b) op) \<Rightarrow> 'a list \<Rightarrow> ('s, 'e, 'b list) op" where
  "each f [] = ret []"
| "each f (x # xs) = bind (f x) (\<lambda>b. bind (each f xs) (\<lambda>bs. ret (b # bs)))"

lemma ret_Inr [simp]: "ret a s = Inr (b, t) \<longleftrightarrow> b = a \<and> t = s"
  by (auto simp: ret_def)

lemma raise_Inr [simp]: "raise e s \<noteq> Inr x"
  by (simp add: raise_def)

lemma bind_Inr: "bind m f s = Inr (b, u) \<longleftrightarrow> (\<exists>a t. m s = Inr (a, t) \<and> f a t = Inr (b, u))"
  by (auto simp: bind_def split: sum.splits prod.splits)

lemma bind_ret [simp]: "m s = Inr (a, t) \<Longrightarrow> bind m f s = f a t"
  by (simp add: bind_def)

lemma bind_raise [simp]: "m s = Inl e \<Longrightarrow> bind m f s = Inl e"
  by (simp add: bind_def)

lemma get_Inr [simp]: "get f s = Inr (a, t) \<longleftrightarrow> a = f s \<and> t = s"
  by (auto simp: get_def)

lemma modify_Inr [simp]: "modify f s = Inr (u, t) \<longleftrightarrow> t = f s"
  by (auto simp: modify_def)

lemma check_Inr [simp]: "check c e s = Inr (u, t) \<longleftrightarrow> c \<and> t = s"
  by (auto simp: check_def)

lemma lift_Inr [simp]: "lift r s = Inr (a, t) \<longleftrightarrow> r = Inr a \<and> t = s"
  by (auto simp: lift_def split: sum.splits)

lemma op_run [simp]: "ret a s = Inr (a, s)" "raise e s = Inl e" "get f s = Inr (f s, s)"
  "modify f s = Inr ((), f s)" "lift (Inr a) s = Inr (a, s)" "lift (Inl e) s = Inl e"
  "check True e s = Inr ((), s)" "check False e s = Inl e"
  by (simp_all add: ret_def raise_def get_def modify_def lift_def check_def)

lemma bindE:
  "bind m f k = Inr (b, t) \<Longrightarrow> (\<And>a k'. m k = Inr (a, k') \<Longrightarrow> f a k' = Inr (b, t) \<Longrightarrow> P) \<Longrightarrow> P"
  by (auto simp: bind_Inr)

subsection \<open>What an operation does to the state\<close>

text \<open>
  \<open>runs R m\<close>: every normal outcome of \<open>m\<close> relates the state before to the state after. The
  locale collects the rules that walk through the body of an operation, for every relation
  that a sequence of steps composes: an invariant kept, a part of the state left alone, a
  history that only grows.
\<close>

definition runs :: "('s \<Rightarrow> 's \<Rightarrow> bool) \<Rightarrow> ('s, 'e, 'a) op \<Rightarrow> bool" where
  "runs R m \<longleftrightarrow> (\<forall>s a t. m s = Inr (a, t) \<longrightarrow> R s t)"

lemma runsI: "(\<And>s a t. m s = Inr (a, t) \<Longrightarrow> R s t) \<Longrightarrow> runs R m"
  by (auto simp: runs_def)

lemma runsD: "runs R m \<Longrightarrow> m s = Inr (a, t) \<Longrightarrow> R s t"
  by (auto simp: runs_def)

locale progress =
  fixes R :: "'s \<Rightarrow> 's \<Rightarrow> bool"
  assumes R_refl: "R s s" and R_trans: "R s t \<Longrightarrow> R t u \<Longrightarrow> R s u"
begin

lemma same: "(\<And>s a t. m s = Inr (a, t) \<Longrightarrow> t = s) \<Longrightarrow> runs R m"
  using R_refl unfolding runs_def by metis

lemma ret_rule: "runs R (ret a)" and raise_rule: "runs R (raise e)" and check_rule: "runs R (check c e)"
  and lift_rule: "runs R (lift r)" and get_rule: "runs R (get g)"
  by (auto intro: same)

lemma bind_rule: "runs R m \<Longrightarrow> (\<And>a. runs R (f a)) \<Longrightarrow> runs R (bind m f)"
  unfolding runs_def bind_Inr using R_trans by blast

lemma if_rule: "(c \<Longrightarrow> runs R m) \<Longrightarrow> (\<not> c \<Longrightarrow> runs R n) \<Longrightarrow> runs R (if c then m else n)"
  by simp

lemma option_rule: "runs R m \<Longrightarrow> (\<And>x. runs R (f x)) \<Longrightarrow> runs R (case z of None \<Rightarrow> m | Some x \<Rightarrow> f x)"
  by (cases z) auto

lemma list_rule: "runs R m \<Longrightarrow> (\<And>x xs. runs R (f x xs)) \<Longrightarrow> runs R (case z of [] \<Rightarrow> m | x # xs \<Rightarrow> f x xs)"
  by (cases z) auto

lemma each_rule: "(\<And>x. x \<in> set xs \<Longrightarrow> runs R (f x)) \<Longrightarrow> runs R (each f xs)"
  by (induction xs) (auto intro!: bind_rule ret_rule)

lemma bind_check_rule: "(c \<Longrightarrow> runs R m) \<Longrightarrow> runs R (bind (check c e) (\<lambda>_. m))"
  by (auto simp: runs_def bind_Inr)

lemma bind_lift_rule: "(\<And>a. r = Inr a \<Longrightarrow> runs R (f a)) \<Longrightarrow> runs R (bind (lift r) f)"
  by (auto simp: runs_def bind_Inr)

lemmas rules = bind_rule ret_rule raise_rule check_rule lift_rule get_rule if_rule option_rule
  list_rule each_rule

end

subsection \<open>Printing integers\<close>

fun digits :: "nat \<Rightarrow> string" where
  "digits n = (if n < 10 then [char_of (48 + n)] else digits (n div 10) @ [char_of (48 + n mod 10)])"

declare digits.simps [simp del]

definition show_int :: "int \<Rightarrow> string" where
  "show_int i = (if i < 0 then CHR ''-'' # digits (nat (- i)) else digits (nat i))"

fun undigits :: "string \<Rightarrow> nat" where
  "undigits s = fold (\<lambda>c n. 10 * n + (of_char c - 48)) s 0"

lemma char_digit: "d < 10 \<Longrightarrow> (of_char (char_of (48 + d) :: char) :: nat) = 48 + d"
  by (simp add: of_char_of take_bit_eq_mod)

lemma undigits_digits [simp]: "undigits (digits n) = n"
proof (induction n rule: digits.induct)
  case (1 n)
  show ?case
  proof (cases "n < 10")
    case True
    then show ?thesis by (simp add: digits.simps[of n] char_digit)
  next
    case False
    then have "undigits (digits (n div 10)) = n div 10" using 1 by simp
    then show ?thesis
      using False char_digit[of "n mod 10"] by (simp add: digits.simps[of n])
  qed
qed

lemma digits_char: "c \<in> set (digits n) \<Longrightarrow> 48 \<le> (of_char c :: nat) \<and> (of_char c :: nat) < 58"
proof (induction n rule: digits.induct)
  case (1 n)
  then show ?case
    using char_digit[of "n mod 10"] char_digit[of n]
    by (auto simp: digits.simps[of n] split: if_splits)
qed

lemma show_int_inject: "0 \<le> i \<Longrightarrow> 0 \<le> j \<Longrightarrow> show_int i = show_int j \<longleftrightarrow> i = j"
  by (metis leD nat_eq_iff2 show_int_def undigits_digits)

lemma show_int_no_colon: "0 \<le> i \<Longrightarrow> CHR '':'' \<notin> set (show_int i)"
  by (auto simp: show_int_def dest: digits_char)

text \<open>A name followed by a colon and a number determines both.\<close>

definition numbered :: "string \<Rightarrow> int \<Rightarrow> string" where
  "numbered s i = s @ '':'' @ show_int i"

lemma append_last_colon:
  "CHR '':'' \<notin> set a \<Longrightarrow> CHR '':'' \<notin> set b \<Longrightarrow> s @ CHR '':'' # a = t @ CHR '':'' # b \<Longrightarrow> s = t \<and> a = b"
proof (induction s arbitrary: t)
  case Nil
  then show ?case by (cases t) auto
next
  case (Cons x s)
  then show ?case by (cases t) auto
qed

lemma numbered_inject:
  assumes "0 \<le> i" and "0 \<le> j" and "numbered s i = numbered t j"
  shows "s = t \<and> i = j"
  using append_last_colon[of "show_int i" "show_int j" s t] assms
  by (auto simp: numbered_def show_int_no_colon show_int_inject)

lemma nonblank_append: "nonblank (s @ t) \<longleftrightarrow> nonblank s \<or> nonblank t"
  by (simp add: nonblank_def)

lemma nonblank_numbered [simp]: "nonblank (numbered s i)"
  by (simp add: numbered_def nonblank_append nonblank_def is_space_def)

fun contains :: "string \<Rightarrow> string \<Rightarrow> bool" where
  "contains p [] = (p = [])"
| "contains p (c # s) = (starts_with p (c # s) \<or> contains p s)"

subsection \<open>Tables\<close>

text \<open>
  A table is the list of its rows. An INSERT whose primary key is taken is an integrity
  error; an UPDATE whose row count is not one is the failed compare-and-set the code checks
  with \<open>_cas\<close>; a query by key is the first row with the key.
\<close>

definition sql_find :: "('r \<Rightarrow> 'k) \<Rightarrow> 'k \<Rightarrow> 'r list \<Rightarrow> 'r option" where
  "sql_find key k rows = List.find (\<lambda>r. key r = k) rows"

definition sql_insert :: "'e \<Rightarrow> ('r \<Rightarrow> 'k) \<Rightarrow> 'r \<Rightarrow> 'r list \<Rightarrow> 'e + 'r list" where
  "sql_insert e key r rows = (if sql_find key (key r) rows = None then Inr (rows @ [r]) else Inl e)"

definition sql_update :: "'e \<Rightarrow> ('r \<Rightarrow> bool) \<Rightarrow> ('r \<Rightarrow> 'r) \<Rightarrow> 'r list \<Rightarrow> 'e + 'r list" where
  "sql_update e P f rows =
     (if length (filter P rows) = 1 then Inr (List.map (\<lambda>r. if P r then f r else r) rows) else Inl e)"

text \<open>The rows a query selects, in the order of its ORDER BY.\<close>

definition sql_select :: "('r \<Rightarrow> bool) \<Rightarrow> ('r \<Rightarrow> 'o :: linorder) \<Rightarrow> 'r list \<Rightarrow> 'r list" where
  "sql_select P ord rows = sort_key ord (filter P rows)"

lemma set_sql_select [simp]: "set (sql_select P ord rows) = {r \<in> set rows. P r}"
  by (simp add: sql_select_def)

lemma sql_select_first: "sql_select P key rs = r # qs \<Longrightarrow> r \<in> set rs \<and> P r \<and> (\<forall>q \<in> set rs. P q \<longrightarrow> key r \<le> key q)"
proof -
  assume s: "sql_select P key rs = r # qs"
  have "set (r # qs) = {q \<in> set rs. P q}" using set_sql_select[of P key rs] s by simp
  moreover have "sorted (List.map key (r # qs))" using s by (metis sorted_sort_key sql_select_def)
  ultimately show ?thesis by auto
qed

lemma sql_select_Nil: "sql_select P key rs = [] \<longleftrightarrow> filter P rs = []"
  by (metis set_empty set_sort sql_select_def)

lemma sql_find_Some: "sql_find key k rows = Some r \<Longrightarrow> r \<in> set rows \<and> key r = k"
  by (auto simp: sql_find_def find_Some_iff)

lemma sql_find_None: "sql_find key k rows = None \<longleftrightarrow> k \<notin> key ` set rows"
  by (auto simp: sql_find_def find_None_iff)

lemma sql_find_append: "sql_find key k (xs @ ys) = (case sql_find key k xs of None \<Rightarrow> sql_find key k ys | Some r \<Rightarrow> Some r)"
  by (induction xs) (simp_all add: sql_find_def)

text \<open>
  The interface of a table with a primary key, as the components use it: rows are found by
  key, inserted under a fresh key, and updated where a condition holds of exactly one row.
  The client lemmas say that an invariant of the rows and the uniqueness of the keys survive
  when the written row satisfies it, and that an update of a row read before succeeds.
\<close>

locale table =
  fixes rows :: "'s \<Rightarrow> 'r list" and key :: "'r \<Rightarrow> 'k"
    and find_row :: "'k \<Rightarrow> 's \<Rightarrow> 'r option"
    and insert_row :: "'r \<Rightarrow> 's \<Rightarrow> 'e + unit \<times> 's"
    and update_row :: "('r \<Rightarrow> bool) \<Rightarrow> ('r \<Rightarrow> 'r) \<Rightarrow> 's \<Rightarrow> 'e + unit \<times> 's"
  assumes find_row: "find_row k s = sql_find key k (rows s)"
    and insert_row: "insert_row r s = Inr (u, t) \<Longrightarrow> sql_find key (key r) (rows s) = None \<and> rows t = rows s @ [r]"
    and update_row: "update_row P f s = Inr (u, t) \<Longrightarrow>
      length (filter P (rows s)) = 1 \<and> rows t = List.map (\<lambda>r. if P r then f r else r) (rows s)"
    and update_total: "length (filter P (rows s)) = 1 \<Longrightarrow> \<exists>t. update_row P f s = Inr ((), t)"
begin

definition unique :: "'s \<Rightarrow> bool" where
  "unique s \<longleftrightarrow> distinct (List.map key (rows s))"

lemma find_rowD: "find_row k s = Some r \<Longrightarrow> r \<in> set (rows s) \<and> key r = k"
  using sql_find_Some[of key k "rows s" r] by (simp add: find_row)

lemma find_row_iff: "unique s \<Longrightarrow> find_row k s = Some r \<longleftrightarrow> r \<in> set (rows s) \<and> key r = k"
proof -
  assume u: "unique s"
  have "find_row k s = Some r" if "r \<in> set (rows s)" "key r = k"
  proof (cases "find_row k s")
    case None
    then show ?thesis using that by (auto simp: find_row sql_find_None)
  next
    case (Some q)
    then have "q \<in> set (rows s)" "key q = key r" using find_rowD[OF Some] that(2) by auto
    then have "q = r" using u that(1) by (simp add: unique_def distinct_map inj_on_def)
    then show ?thesis using Some by simp
  qed
  then show ?thesis using find_rowD[of k s r] by blast
qed

lemma find_row_None: "find_row k s = None \<longleftrightarrow> k \<notin> key ` set (rows s)"
  by (simp add: find_row sql_find_None)

lemma key_inj: "unique s \<Longrightarrow> q \<in> set (rows s) \<Longrightarrow> r \<in> set (rows s) \<Longrightarrow> key q = key r \<Longrightarrow> q = r"
  by (auto simp: unique_def distinct_map inj_on_def)

lemma insert_unique: "unique s \<Longrightarrow> insert_row r s = Inr (u, t) \<Longrightarrow> unique t"
  by (auto simp: unique_def sql_find_None dest!: insert_row)

lemma insert_set: "insert_row r s = Inr (u, t) \<Longrightarrow> set (rows t) = insert r (set (rows s))"
  by (auto dest!: insert_row)

lemma update_unique:
  assumes "unique s" and "update_row P f s = Inr (u, t)" and "\<And>r. P r \<Longrightarrow> key (f r) = key r"
  shows "unique t"
proof -
  have "rows t = List.map (\<lambda>r. if P r then f r else r) (rows s)" using update_row[OF assms(2)] by simp
  then have "List.map key (rows t) = List.map key (rows s)" using assms(3) by simp
  then show ?thesis using assms(1) by (simp add: unique_def)
qed

text \<open>The row an update writes is the one row that satisfies its condition.\<close>

lemma update_hits:
  assumes "unique s" and "update_row P f s = Inr (u, t)" and "r \<in> set (rows s)" and "P r"
  shows "set (rows t) = insert (f r) {q \<in> set (rows s). key q \<noteq> key r}"
proof -
  have one: "length (filter P (rows s)) = 1"
    and t: "rows t = List.map (\<lambda>r. if P r then f r else r) (rows s)"
    using update_row[OF assms(2)] by auto
  then obtain q where q: "filter P (rows s) = [q]" by (auto simp: length_Suc_conv)
  have e: "x \<in> set (rows s) \<and> P x \<longleftrightarrow> x = q" for x
    using arg_cong[OF q, of "\<lambda>xs. x \<in> set xs"] by simp
  have "r = q" using e[of r] assms(3,4) by simp
  then have P: "P x \<longleftrightarrow> x = r" if "x \<in> set (rows s)" for x using e[of x] that by simp
  have "set (rows t) = (\<lambda>x. if x = r then f r else x) ` set (rows s)"
    unfolding t set_map by (rule image_cong) (auto simp: P)
  also have "\<dots> = insert (f r) {q \<in> set (rows s). q \<noteq> r}"
    using assms(3) by auto
  also have "{q \<in> set (rows s). q \<noteq> r} = {q \<in> set (rows s). key q \<noteq> key r}"
    using key_inj[OF assms(1) _ assms(3)] by blast
  finally show ?thesis .
qed

lemma update_succeeds:
  assumes "unique s" and "r \<in> set (rows s)" and "P r"
    and "\<And>q. P q \<Longrightarrow> key q = key r"
  shows "\<exists>t. update_row P f s = Inr ((), t)"
proof -
  have "P q \<longleftrightarrow> q = r" if "q \<in> set (rows s)" for q
    using assms(3) assms(4)[of q] key_inj[OF assms(1) that assms(2)] by blast
  then have "filter P (rows s) = filter (\<lambda>q. q = r) (rows s)"
    by (rule filter_cong[OF refl])
  moreover have "distinct (rows s)" using assms(1) by (auto simp: unique_def distinct_map)
  moreover have "{x. x = r \<and> x \<in> set (rows s)} = {r}" using assms(2) by auto
  ultimately have "length (filter P (rows s)) = 1"
    by (simp add: distinct_length_filter Int_def)
  then show ?thesis by (rule update_total)
qed

end

end
