(* ===== verification/Floats.thy ===== *)
theory Floats
  imports Prelude "HOL-Library.Log_Nat"
begin

text \<open>
  Python's finite floats as the rational numbers they denote: rounding to the nearest
  binary64 value, ties to even (the arithmetic of IEEE 754 that CPython uses), with
  overflow to infinity as \<open>None\<close>. Zero is not signed here. Every definition
  computes, so a concrete sum is evaluated by the simplifier.
\<close>

subsection \<open>The binary logarithm of a positive rational\<close>

definition flog2 :: "rat \<Rightarrow> int" where
  "flog2 x = (case quotient_of x of (n, d) \<Rightarrow>
     let k = bitlen n - bitlen d in if 2 powi k \<le> x then k else k - 1)"

lemma powi_mono: "a \<le> b \<Longrightarrow> (2::rat) powi a \<le> 2 powi b"
  by (rule power_int_increasing) auto

lemma powi_less: "a < b \<Longrightarrow> (2::rat) powi a < 2 powi b"
  by (rule power_int_strict_increasing) auto

lemma powi_pos [simp]: "0 < (2::rat) powi e"
  by (rule zero_less_power_int) simp

lemma powi_add: "(2::rat) powi (a + b) = 2 powi a * 2 powi b"
  by (rule power_int_add) simp

lemma powi_diff: "(2::rat) powi (a - b) = 2 powi a / 2 powi b"
  by (rule power_int_diff) simp

lemma powi_inj_le: "(2::rat) powi a < 2 powi b \<Longrightarrow> a < b"
  using powi_mono[of b a] by (cases "a < b") auto

lemma powi_of_int_nat: "0 \<le> e \<Longrightarrow> (2::rat) powi e = of_int (2 ^ nat e)"
  by (simp add: power_int_def)

lemma bitlen_powi:
  assumes "0 < n"
  shows "2 powi (bitlen n - 1) \<le> (of_int n :: rat)" and "(of_int n :: rat) < 2 powi bitlen n"
proof -
  have b: "2 ^ nat (bitlen n - 1) \<le> n \<and> n < 2 ^ nat (bitlen n)"
    using bitlen_bounds[OF assms] .
  have "0 < bitlen n" using assms bitlen_eq_zero_iff[of n] bitlen_nonneg[of n] by linarith
  then have "2 powi (bitlen n - 1) = (of_int (2 ^ nat (bitlen n - 1)) :: rat)"
    and "2 powi bitlen n = (of_int (2 ^ nat (bitlen n)) :: rat)"
    by (simp_all add: powi_of_int_nat del: of_int_power)
  then show "2 powi (bitlen n - 1) \<le> (of_int n :: rat)" and "(of_int n :: rat) < 2 powi bitlen n"
    using b by (simp_all only: of_int_le_iff of_int_less_iff)
qed

lemma flog2_bounds:
  assumes "0 < x"
  shows "2 powi flog2 x \<le> x" and "x < 2 powi (flog2 x + 1)"
proof -
  obtain n d where q: "quotient_of x = (n, d)" by (cases "quotient_of x")
  have d: "0 < d" using quotient_of_denom_pos[OF q] .
  have x: "x = of_int n / of_int d" using quotient_of_div[OF q] .
  have n: "0 < n" using assms x d by (simp add: zero_less_divide_iff)
  let ?k = "bitlen n - bitlen d"
  note bn = bitlen_powi[OF n] and bd = bitlen_powi[OF d]
  have "x < 2 powi bitlen n / 2 powi (bitlen d - 1)"
    unfolding x using bn bd d n by (intro frac_less) auto
  then have hi: "x < 2 powi (?k + 1)"
    by (simp add: powi_diff[symmetric] algebra_simps)
  have "2 powi (bitlen n - 1) / 2 powi bitlen d \<le> x"
    unfolding x using bn bd d n by (intro frac_le) auto
  then have lo: "2 powi (?k - 1) \<le> x"
    by (simp add: powi_diff[symmetric] algebra_simps)
  have f: "flog2 x = (if 2 powi ?k \<le> x then ?k else ?k - 1)"
    by (simp add: flog2_def q Let_def)
  show "2 powi flog2 x \<le> x" using lo by (simp add: f)
  show "x < 2 powi (flog2 x + 1)" using hi by (simp add: f)
qed

lemma flog2_unique:
  assumes "2 powi k \<le> x" and "x < 2 powi (k + 1)"
  shows "flog2 x = k"
proof -
  have "0 < x" using assms(1) powi_pos[of k] by linarith
  note b = flog2_bounds[OF this]
  have "k < flog2 x + 1" using assms(1) b(2) by (intro powi_inj_le) linarith
  moreover have "flog2 x < k + 1" using assms(2) b(1) by (intro powi_inj_le) linarith
  ultimately show ?thesis by linarith
qed

lemma flog2_mono: "0 < x \<Longrightarrow> x \<le> y \<Longrightarrow> flog2 x \<le> flog2 y"
  using flog2_bounds[of x] flog2_bounds[of y] powi_inj_le[of "flog2 x" "flog2 y + 1"] by linarith

subsection \<open>Rounding to an integer, ties to even\<close>

definition rne :: "rat \<Rightarrow> int" where
  "rne q = (let f = \<lfloor>q\<rfloor>; r = q - of_int f in
     if r < 1 / 2 then f else if 1 / 2 < r then f + 1 else if even f then f else f + 1)"

lemma rne_of_int [simp]: "rne (of_int n) = n"
  by (simp add: rne_def Let_def)

lemma rne_floor: "\<lfloor>q\<rfloor> \<le> rne q" "rne q \<le> \<lfloor>q\<rfloor> + 1"
  by (auto simp: rne_def Let_def)

lemma rne_mono:
  assumes "p \<le> q"
  shows "rne p \<le> rne q"
proof (cases "\<lfloor>p\<rfloor> = \<lfloor>q\<rfloor>")
  case True
  then show ?thesis using assms by (auto simp: rne_def Let_def)
next
  case False
  then have "\<lfloor>p\<rfloor> + 1 \<le> \<lfloor>q\<rfloor>" using assms floor_mono[of p q] by linarith
  then show ?thesis using rne_floor(2)[of p] rne_floor(1)[of q] by linarith
qed

lemma rne_close: "\<bar>of_int (rne q) - q\<bar> \<le> 1 / 2"
  using floor_correct[of q] by (auto simp: rne_def Let_def abs_le_iff)

subsection \<open>Rounding to a float\<close>

definition fexp :: "rat \<Rightarrow> int" where
  "fexp x = max (- 1074) (flog2 x - 52)"

definition fround_pos :: "rat \<Rightarrow> rat" where
  "fround_pos x = of_int (rne (x / 2 powi fexp x)) * 2 powi fexp x"

definition fround :: "rat \<Rightarrow> rat option" where
  "fround x =
     (let y = (if x = 0 then 0 else if x < 0 then - fround_pos (- x) else fround_pos x)
      in if \<bar>y\<bar> < 2 ^ 1024 then Some y else None)"

definition is_float :: "rat \<Rightarrow> bool" where
  "is_float x \<longleftrightarrow> fround x = Some x"

text \<open>The operations of the language on finite floats; \<open>None\<close> is an infinite result.\<close>

definition fadd :: "rat \<Rightarrow> rat \<Rightarrow> rat option" where
  "fadd a b = fround (a + b)"

definition fsub :: "rat \<Rightarrow> rat \<Rightarrow> rat option" where
  "fsub a b = fround (a - b)"

definition fmul :: "rat \<Rightarrow> rat \<Rightarrow> rat option" where
  "fmul a b = fround (a * b)"

text \<open>\<open>math.nextafter(x, math.inf)\<close> for \<open>0 \<le> x\<close>.\<close>

definition fnext :: "rat \<Rightarrow> rat option" where
  "fnext x = (let y = (if x = 0 then 2 powi (- 1074) else x + 2 powi fexp x)
     in if y < 2 ^ 1024 then Some y else None)"

lemma fexp_bound:
  assumes "0 < x"
  shows "x / 2 powi fexp x < 2 powi 53"
proof -
  have "x < 2 powi (flog2 x + 1)" using flog2_bounds(2)[OF assms] .
  also have "\<dots> \<le> 2 powi (53 + fexp x)" by (rule powi_mono) (simp add: fexp_def)
  also have "\<dots> = 2 powi 53 * 2 powi fexp x" by (rule powi_add)
  finally show ?thesis by (simp add: divide_less_eq)
qed

lemma fround_pos_nonneg:
  assumes "0 < x"
  shows "0 \<le> fround_pos x"
proof -
  have "0 \<le> \<lfloor>x / 2 powi fexp x\<rfloor>" using assms by (simp add: divide_nonneg_pos)
  then have "0 \<le> rne (x / 2 powi fexp x)" using rne_floor(1)[of "x / 2 powi fexp x"] by linarith
  then show ?thesis by (simp add: fround_pos_def)
qed

lemma powi_53: "(2::rat) powi 53 = of_int (2 ^ 53)" "(2::rat) powi 52 = of_int (2 ^ 52)"
  by (simp_all add: power_int_def)

lemma fround_pos_mono:
  assumes "0 < x" and "x \<le> y"
  shows "fround_pos x \<le> fround_pos y"
proof (cases "fexp x = fexp y")
  case True
  have "x / 2 powi fexp y \<le> y / 2 powi fexp y"
    using assms(2) by (simp add: divide_right_mono)
  then show ?thesis by (simp add: fround_pos_def True rne_mono)
next
  case False
  have "fexp x \<le> fexp y" using flog2_mono[OF assms] by (simp add: fexp_def)
  with False have lt: "fexp x + 1 \<le> fexp y" by simp
  then have ey: "fexp y = flog2 y - 52" by (auto simp: fexp_def max_def split: if_splits)
  have "rne (x / 2 powi fexp x) \<le> rne (of_int (2 ^ 53))"
    by (rule rne_mono) (metis fexp_bound[OF assms(1)] powi_53(1) less_imp_le)
  then have "fround_pos x \<le> of_int (2 ^ 53) * 2 powi fexp x"
    unfolding fround_pos_def rne_of_int by (intro mult_right_mono) (simp_all only: of_int_le_iff powi_pos less_imp_le)
  also have "\<dots> = 2 powi 52 * 2 powi (fexp x + 1)"
    by (simp only: powi_add powi_53[symmetric]) (simp add: power_int_def)
  also have "\<dots> \<le> 2 powi 52 * 2 powi fexp y" using lt by (simp add: powi_mono)
  also have "\<dots> \<le> fround_pos y"
  proof -
    have "2 powi 52 * 2 powi fexp y = (2::rat) powi flog2 y"
      by (simp only: powi_add[symmetric] ey) simp
    then have "2 powi 52 * 2 powi fexp y \<le> y"
      using flog2_bounds(1)[of y] assms by (simp only:)
    then have "of_int (2 ^ 52) \<le> y / 2 powi fexp y"
      by (simp only: pos_le_divide_eq[OF powi_pos] powi_53(2)[symmetric])
    then have "rne (of_int (2 ^ 52)) \<le> rne (y / 2 powi fexp y)" by (rule rne_mono)
    then have "(2::rat) powi 52 \<le> of_int (rne (y / 2 powi fexp y))"
      unfolding rne_of_int powi_53 by (simp only: of_int_le_iff)
    then show ?thesis unfolding fround_pos_def by (simp add: mult_right_mono)
  qed
  finally show ?thesis .
qed

subsection \<open>Rounding is monotone, and the identity on floats\<close>

definition fround_val :: "rat \<Rightarrow> rat" where
  "fround_val x = (if x = 0 then 0 else if x < 0 then - fround_pos (- x) else fround_pos x)"

lemma fround_alt: "fround x = (if \<bar>fround_val x\<bar> < 2 ^ 1024 then Some (fround_val x) else None)"
  by (simp only: fround_def fround_val_def Let_def)

lemma fround_val_mono:
  assumes "x \<le> y"
  shows "fround_val x \<le> fround_val y"
proof (cases "0 < x \<or> y < 0")
  case True
  then show ?thesis
    using assms fround_pos_mono[of x y] fround_pos_mono[of "- y" "- x"] by (auto simp: fround_val_def)
next
  case False
  then have "fround_val x \<le> 0" and "0 \<le> fround_val y"
    using fround_pos_nonneg[of "- x"] fround_pos_nonneg[of y] by (auto simp: fround_val_def)
  then show ?thesis by (rule order.trans)
qed

lemma fround_Some: "fround x = Some y \<longleftrightarrow> y = fround_val x \<and> \<bar>fround_val x\<bar> < 2 ^ 1024"
  unfolding fround_alt by (auto simp del: power_numeral)

lemma fround_mono: "fround x = Some a \<Longrightarrow> fround y = Some b \<Longrightarrow> x \<le> y \<Longrightarrow> a \<le> b"
  by (metis fround_Some fround_val_mono)

lemma fround_pos_grid:
  assumes "0 < m" and "m < 2 ^ 53" and "- 1074 \<le> e"
  shows "fround_pos (of_int m * 2 powi e) = of_int m * 2 powi e"
proof -
  let ?y = "of_int m * 2 powi e :: rat"
  have y0: "0 < ?y" using assms(1) by simp
  have "(of_int m :: rat) < of_int (2 ^ 53)" using assms(2) by (simp only: of_int_less_iff)
  then have "(of_int m :: rat) < 2 powi 53" by (simp only: powi_53(1))
  then have "?y < 2 powi 53 * 2 powi e" by (intro mult_strict_right_mono) simp_all
  then have "?y < 2 powi (53 + e)" by (simp only: powi_add)
  with flog2_bounds(1)[OF y0] have "2 powi flog2 ?y < (2::rat) powi (53 + e)" by linarith
  then have "flog2 ?y < 53 + e" by (rule powi_inj_le)
  with assms(3) have le: "fexp ?y \<le> e" by (simp add: fexp_def)
  have "(2::rat) powi e = 2 powi (e - fexp ?y) * 2 powi fexp ?y"
    by (simp only: powi_add[symmetric]) simp
  also have "\<dots> = of_int (2 ^ nat (e - fexp ?y)) * 2 powi fexp ?y"
    using le powi_of_int_nat[of "e - fexp ?y"] by (simp del: of_int_power)
  finally have y: "?y = of_int (m * 2 ^ nat (e - fexp ?y)) * 2 powi fexp ?y"
    by (simp only: of_int_mult mult.assoc)
  have p: "2 powi fexp ?y \<noteq> (0::rat)" using powi_pos[of "fexp ?y"] by linarith
  have "?y / 2 powi fexp ?y = of_int (m * 2 ^ nat (e - fexp ?y)) * 2 powi fexp ?y / 2 powi fexp ?y"
    using arg_cong[OF y, of "\<lambda>z. z / 2 powi fexp ?y"] .
  also have "\<dots> = of_int (m * 2 ^ nat (e - fexp ?y))"
    using p by (rule nonzero_mult_div_cancel_right)
  finally have "?y / 2 powi fexp ?y = of_int (m * 2 ^ nat (e - fexp ?y))" .
  then have "fround_pos ?y = of_int (m * 2 ^ nat (e - fexp ?y)) * 2 powi fexp ?y"
    unfolding fround_pos_def by (simp only: rne_of_int)
  then show ?thesis by (simp only: y[symmetric])
qed

lemma fround_pos_grid_le:
  assumes "0 \<le> m" and "m \<le> 2 ^ 53" and "- 1074 \<le> e" and "m \<noteq> 0"
  shows "fround_pos (of_int m * 2 powi e) = of_int m * 2 powi e"
proof (cases "m = 2 ^ 53")
  case True
  have "of_int m * 2 powi e = (of_int (2 ^ 52) * 2 powi (e + 1) :: rat)"
    unfolding True by (simp only: powi_53[symmetric] powi_add[symmetric]) simp
  then show ?thesis using fround_pos_grid[of "2 ^ 52" "e + 1"] assms(3) by simp
next
  case False
  then show ?thesis using fround_pos_grid[of m e] assms by linarith
qed

lemma fexp_ge: "- 1074 \<le> fexp x"
  by (simp add: fexp_def)

lemma fround_pos_idem:
  assumes "0 < x"
  shows "fround_pos x = 0 \<or> 0 < fround_pos x \<and> fround_pos (fround_pos x) = fround_pos x"
proof -
  let ?m = "rne (x / 2 powi fexp x)"
  have "0 \<le> \<lfloor>x / 2 powi fexp x\<rfloor>" using assms by (simp add: divide_nonneg_pos)
  then have "0 \<le> ?m" using rne_floor(1)[of "x / 2 powi fexp x"] by linarith
  moreover have "?m \<le> rne (of_int (2 ^ 53))"
    by (rule rne_mono) (metis fexp_bound[OF assms] powi_53(1) less_imp_le)
  ultimately have "?m \<noteq> 0 \<Longrightarrow> fround_pos (fround_pos x) = fround_pos x"
    using fround_pos_grid_le[of ?m "fexp x"] fexp_ge[of x] unfolding rne_of_int by (simp add: fround_pos_def)
  moreover have "?m = 0 \<Longrightarrow> fround_pos x = 0" by (simp add: fround_pos_def)
  moreover have "?m \<noteq> 0 \<Longrightarrow> fround_pos x \<noteq> 0"
    using powi_pos[of "fexp x"] by (simp add: fround_pos_def)
  ultimately show ?thesis using fround_pos_nonneg[OF assms] by linarith
qed

lemma fround_val_idem: "fround_val (fround_val x) = fround_val x"
  using fround_pos_idem[of x] fround_pos_idem[of "- x"] by (auto simp: fround_val_def)

lemma fround_is_float: "fround x = Some y \<Longrightarrow> is_float y"
  by (simp add: is_float_def fround_Some fround_val_idem)

lemma fround_val_of_int:
  assumes "\<bar>n\<bar> \<le> 2 ^ 53"
  shows "fround_val (of_int n) = of_int n"
  using fround_pos_grid_le[of n 0] fround_pos_grid_le[of "- n" 0] assms
  by (auto simp: fround_val_def)

lemma two_pow_1024: "(2::rat) ^ 53 < 2 ^ 1024"
  by (rule power_strict_increasing) simp_all

lemma fround_of_int:
  assumes "\<bar>n\<bar> \<le> 2 ^ 53"
  shows "fround (of_int n) = Some (of_int n)"
proof -
  have "(of_int \<bar>n\<bar> :: rat) \<le> of_int (2 ^ 53)" using assms by (simp only: of_int_le_iff)
  then have "\<bar>of_int n :: rat\<bar> \<le> 2 ^ 53" by (simp only: of_int_abs of_int_power of_int_numeral)
  then have "\<bar>of_int n :: rat\<bar> < 2 ^ 1024" using two_pow_1024 by (rule le_less_trans)
  then show ?thesis by (simp only: fround_Some fround_val_of_int[OF assms])
qed

lemma is_float_of_int: "\<bar>n\<bar> \<le> 2 ^ 53 \<Longrightarrow> is_float (of_int n)"
  by (simp add: is_float_def fround_of_int)

lemma is_float_0 [simp]: "is_float 0"
  using is_float_of_int[of 0] by simp

text \<open>Small integers are exact, which evaluates the arithmetic of concrete runs.\<close>

lemma fadd_of_int: "\<bar>m + n\<bar> \<le> 2 ^ 53 \<Longrightarrow> fadd (of_int m) (of_int n) = Some (of_int (m + n))"
  using fround_of_int[of "m + n"] by (simp add: fadd_def)

lemma fadd_numeral: "\<bar>numeral m + numeral n :: int\<bar> \<le> 2 ^ 53 \<Longrightarrow>
    fadd (numeral m) (numeral n) = Some (numeral m + numeral n)"
  using fadd_of_int[of "numeral m" "numeral n"] by simp

lemma fadd_ge:
  assumes "is_float a" and "0 \<le> b" and "fadd a b = Some c"
  shows "a \<le> c"
  using fround_mono[of a a "a + b" c] assms by (simp add: is_float_def fadd_def)

lemma fadd_mono: "fadd a b = Some c \<Longrightarrow> fadd a' b' = Some c' \<Longrightarrow> a \<le> a' \<Longrightarrow> b \<le> b' \<Longrightarrow> c \<le> c'"
  using fround_mono[of "a + b" c "a' + b'" c'] by (simp add: fadd_def add_mono)

lemma fadd_is_float: "fadd a b = Some c \<Longrightarrow> is_float c"
  by (auto simp: fadd_def intro: fround_is_float)

lemma fsub_nonneg: "fsub a b = Some c \<Longrightarrow> b \<le> a \<Longrightarrow> 0 \<le> c"
  using fround_mono[of 0 0 "a - b" c] is_float_0 by (simp add: fsub_def is_float_def)

lemma fnext_gt: "fnext x = Some y \<Longrightarrow> x < y"
  by (auto simp: fnext_def Let_def split: if_splits)

end
