(* ===== verification/PyVal.thy ===== *)
theory PyVal
  imports Floats
begin

text \<open>
  The dynamically typed values the code inspects with \<open>type(value)\<close>, the errors the
  execution kernel raises, and the field checks of \<open>execution_kernel/contracts.py\<close>
  (\<open>_json_value\<close>, \<open>_identifier\<close>, \<open>_integer\<close>, \<open>_finite\<close>, \<open>from_dict\<close>).

  A dictionary is an association list in insertion order whose keys are distinct. Recursion
  limits, the limit on the digits of a printed integer and the sign of a float zero are
  not modelled; within them \<open>json.loads(json.dumps(v))\<close> returns \<open>v\<close>, so that a JSON copy is
  the JSON check followed by the value itself.
\<close>

datatype pyfloat = Fin rat | PosInf | NegInf | NaN

datatype pyval =
    PNone
  | PBool bool
  | PInt int
  | PFloat pyfloat
  | PStr string
  | PList "pyval list"
  | PDict "(pyval \<times> pyval) list"
  | POther

text \<open>The exceptions, without their messages.\<close>

datatype kerr =
    ContractValidationError
  | ValueErr
  | TypeErr
  | OverflowErr
  | RuntimeErr
  | InvalidStateTransitionError
  | KeyErr
  | ExecutionNotFoundError
  | IdempotencyConflictError
  | ResultConflictError
  | CASConflictError
  | StorageIsolationError
  | StaleFenceError
  | EffectConflictError
  | EffectClaimConflictError
  | EffectIndeterminateError
  | EffectRecoveryRequiredError string
  | LifecycleReceiptExpiredError
  | BudgetClockUnknownError

subsection \<open>Strict JSON\<close>

fun is_PStr :: "pyval \<Rightarrow> bool" where
  "is_PStr (PStr s) = True"
| "is_PStr _ = False"

fun pystr :: "pyval \<Rightarrow> string" where
  "pystr (PStr s) = s"
| "pystr _ = []"

fun json_ok :: "pyval \<Rightarrow> bool" where
  "json_ok PNone = True"
| "json_ok (PBool b) = True"
| "json_ok (PInt i) = True"
| "json_ok (PStr s) = True"
| "json_ok (PFloat f) = (case f of Fin _ \<Rightarrow> True | _ \<Rightarrow> False)"
| "json_ok (PList xs) = list_all json_ok xs"
| "json_ok (PDict kvs) = list_all (\<lambda>kv. is_PStr (fst kv) \<and> json_ok (snd kv)) kvs"
| "json_ok POther = False"

definition json_copy :: "pyval \<Rightarrow> kerr + pyval" where
  "json_copy v = (if json_ok v then Inr v else Inl ContractValidationError)"

text \<open>
  \<open>encode_json\<close> prints with sorted keys: two values have the same text exactly when they
  have the same canonical form, the value with the keys of every object sorted.
\<close>

fun canon :: "pyval \<Rightarrow> pyval" where
  "canon (PList xs) = PList (List.map canon xs)"
| "canon (PDict kvs) =
     PDict (sort_key (\<lambda>kv. pystr (fst kv)) (List.map (\<lambda>kv. (fst kv, canon (snd kv))) kvs))"
| "canon v = v"

definition same_json :: "pyval \<Rightarrow> pyval \<Rightarrow> bool" where
  "same_json a b \<longleftrightarrow> canon a = canon b"

lemma same_json_refl [simp]: "same_json a a"
  by (simp add: same_json_def)

lemma same_json_sym: "same_json a b \<Longrightarrow> same_json b a"
  by (simp add: same_json_def)

lemma same_json_trans: "same_json a b \<Longrightarrow> same_json b c \<Longrightarrow> same_json a c"
  by (simp add: same_json_def)

lemma json_ok_canon [simp]: "json_ok (canon v) = json_ok v"
proof (induction v rule: canon.induct)
  case (2 kvs)
  then show ?case by (auto simp: list_all_iff)
qed (auto simp: list_all_iff)

lemma canon_idem [simp]: "canon (canon v) = canon v"
proof (induction v rule: canon.induct)
  case (2 kvs)
  let ?key = "\<lambda>kv. pystr (fst kv)" and ?f = "\<lambda>kv :: pyval \<times> pyval. (fst kv, canon (snd kv))"
  let ?s = "sort_key ?key (List.map ?f kvs)"
  have "List.map ?f ?s = ?s"
    by (rule map_idI) (use 2 in auto)
  then show ?case by (simp add: sort_key_id_if_sorted)
qed auto

subsection \<open>Checks of one field\<close>

fun as_identifier :: "pyval \<Rightarrow> kerr + string" where
  "as_identifier (PStr s) = (if nonblank s then Inr s else Inl ContractValidationError)"
| "as_identifier _ = Inl ContractValidationError"

definition as_optional_identifier :: "pyval \<Rightarrow> kerr + string option" where
  "as_optional_identifier v =
     (if v = PNone then Inr None else rbind (as_identifier v) (\<lambda>s. Inr (Some s)))"

definition as_integer :: "int \<Rightarrow> pyval \<Rightarrow> kerr + int" where
  "as_integer minimum v =
     (case v of PInt i \<Rightarrow> if i < minimum then Inl ContractValidationError else Inr i
      | _ \<Rightarrow> Inl ContractValidationError)"

fun as_bool :: "pyval \<Rightarrow> kerr + bool" where
  "as_bool (PBool b) = Inr b"
| "as_bool _ = Inl ContractValidationError"

fun as_str :: "pyval \<Rightarrow> kerr + string" where
  "as_str (PStr s) = Inr s"
| "as_str _ = Inl ContractValidationError"

text \<open>\<open>float(value)\<close> of an int or a float, when the outcome is finite.\<close>

fun finite_value :: "pyval \<Rightarrow> rat option" where
  "finite_value (PInt i) = fround (of_int i)"
| "finite_value (PFloat (Fin r)) = Some r"
| "finite_value _ = None"

definition as_finite :: "rat \<Rightarrow> pyval \<Rightarrow> kerr + rat" where
  "as_finite minimum v =
     (case finite_value v of
        None \<Rightarrow> Inl ContractValidationError
      | Some r \<Rightarrow> if r < minimum then Inl ContractValidationError else Inr r)"

definition as_optional_finite :: "pyval \<Rightarrow> kerr + rat option" where
  "as_optional_finite v =
     (if v = PNone then Inr None else rbind (as_finite 0 v) (\<lambda>r. Inr (Some r)))"

definition check_schema_version :: "int \<Rightarrow> pyval \<Rightarrow> kerr + unit" where
  "check_schema_version n v = require (v = PInt n) ContractValidationError"

text \<open>The same checks on values that have been converted.\<close>

definition optional_ok :: "('a \<Rightarrow> bool) \<Rightarrow> 'a option \<Rightarrow> bool" where
  "optional_ok P x = (case x of None \<Rightarrow> True | Some a \<Rightarrow> P a)"

lemma optional_ok_simps [simp]: "optional_ok P None" "optional_ok P (Some a) = P a"
  by (simp_all add: optional_ok_def)

fun py_optional :: "('a \<Rightarrow> pyval) \<Rightarrow> 'a option \<Rightarrow> pyval" where
  "py_optional f None = PNone"
| "py_optional f (Some a) = f a"

abbreviation PFin :: "rat \<Rightarrow> pyval" where
  "PFin r \<equiv> PFloat (Fin r)"

lemma as_identifier_PStr [simp]: "nonblank s \<Longrightarrow> as_identifier (PStr s) = Inr s"
  by simp

lemma as_identifier_Inr: "as_identifier v = Inr s \<longleftrightarrow> v = PStr s \<and> nonblank s"
  by (cases v rule: as_identifier.cases) auto

lemma as_optional_identifier_py [simp]:
  "optional_ok nonblank x \<Longrightarrow> as_optional_identifier (py_optional PStr x) = Inr x"
  by (cases x) (auto simp: as_optional_identifier_def)

lemma as_optional_identifier_Inr:
  "as_optional_identifier v = Inr x \<longleftrightarrow> v = py_optional PStr x \<and> optional_ok nonblank x"
  by (cases x) (auto simp: as_optional_identifier_def rbind_eq_Inr as_identifier_Inr)

lemma as_integer_PInt [simp]: "m \<le> i \<Longrightarrow> as_integer m (PInt i) = Inr i"
  by (simp add: as_integer_def)

lemma as_integer_Inr: "as_integer m v = Inr i \<longleftrightarrow> v = PInt i \<and> m \<le> i"
  by (auto simp: as_integer_def split: pyval.splits)

lemma as_bool_Inr: "as_bool v = Inr b \<longleftrightarrow> v = PBool b"
  by (cases v) auto

lemma as_str_Inr: "as_str v = Inr s \<longleftrightarrow> v = PStr s"
  by (cases v) auto

lemma as_finite_PFin [simp]: "m \<le> r \<Longrightarrow> as_finite m (PFin r) = Inr r"
  by (simp add: as_finite_def)

lemma as_finite_Inr: "as_finite m v = Inr r \<longleftrightarrow> finite_value v = Some r \<and> m \<le> r"
  by (auto simp: as_finite_def split: option.splits)

lemma as_optional_finite_py [simp]:
  "optional_ok (\<lambda>r. 0 \<le> r) x \<Longrightarrow> as_optional_finite (py_optional PFin x) = Inr x"
  by (cases x) (auto simp: as_optional_finite_def)

lemma as_optional_finite_ok:
  "as_optional_finite v = Inr x \<Longrightarrow> optional_ok (\<lambda>r. 0 \<le> r) x"
  by (auto simp: as_optional_finite_def rbind_eq_Inr as_finite_Inr split: if_splits)

lemma check_schema_version_PInt [simp]: "check_schema_version n (PInt n) = Inr ()"
  by (simp add: check_schema_version_def)

lemma json_copy_ok [simp]: "json_ok v \<Longrightarrow> json_copy v = Inr v"
  by (simp add: json_copy_def)

lemma json_copy_Inr: "json_copy v = Inr w \<longleftrightarrow> w = v \<and> json_ok v"
  by (auto simp: json_copy_def)

lemmas field_checks = as_identifier_Inr as_optional_identifier_Inr as_integer_Inr as_bool_Inr
  as_str_Inr as_finite_Inr json_copy_Inr rbind_eq_Inr

subsection \<open>The fields of a record payload\<close>

text \<open>
  \<open>from_dict\<close> up to the construction: the payload is an object whose keys are exactly the
  expected fields and whose schema version is the contract's.
\<close>

definition dict_get :: "(pyval \<times> pyval) list \<Rightarrow> string \<Rightarrow> pyval" where
  "dict_get kvs k = (case map_of kvs (PStr k) of None \<Rightarrow> PNone | Some v \<Rightarrow> v)"

definition exact_fields :: "int \<Rightarrow> string list \<Rightarrow> pyval \<Rightarrow> kerr + (string \<Rightarrow> pyval)" where
  "exact_fields version names v =
     (case v of
        PDict kvs \<Rightarrow>
          if \<not> list_all (\<lambda>kv. is_PStr (fst kv)) kvs then Inl ContractValidationError
          else if \<exists>k \<in> set (List.map (\<lambda>kv. pystr (fst kv)) kvs). k \<notin> set names then
            Inl ContractValidationError
          else if \<exists>k \<in> set names. k \<notin> set (List.map (\<lambda>kv. pystr (fst kv)) kvs) then
            Inl ContractValidationError
          else rbind (check_schema_version version (dict_get kvs ''schema_version'')) (\<lambda>_.
            Inr (dict_get kvs))
      | _ \<Rightarrow> Inl ContractValidationError)"

definition py_dict :: "(string \<times> pyval) list \<Rightarrow> pyval" where
  "py_dict kvs = PDict (List.map (\<lambda>kv. (PStr (fst kv), snd kv)) kvs)"

lemma map_of_PStr: "map_of (List.map (\<lambda>kv. (PStr (fst kv), snd kv)) kvs) (PStr k) = map_of kvs k"
  by (induction kvs) auto

lemma dict_get_py [simp]:
  "dict_get (List.map (\<lambda>kv. (PStr (fst kv), snd kv)) kvs) k =
     (case map_of kvs k of None \<Rightarrow> PNone | Some v \<Rightarrow> v)"
  by (simp add: dict_get_def map_of_PStr)

lemma exact_fields_py_dict:
  assumes "list_all (\<lambda>kv. fst kv \<in> set names) kvs"
    and "list_all (\<lambda>k. k \<in> set (List.map fst kvs)) names"
    and "map_of kvs ''schema_version'' = Some (PInt n)"
  shows "exact_fields n names (py_dict kvs) =
           Inr (\<lambda>k. case map_of kvs k of None \<Rightarrow> PNone | Some v \<Rightarrow> v)"
proof -
  have k: "list_all (\<lambda>kv. is_PStr (fst kv)) (List.map (\<lambda>kv. (PStr (fst kv), snd kv)) kvs)"
    by (simp add: list_all_iff)
  have s: "set (List.map (\<lambda>kv. pystr (fst kv)) (List.map (\<lambda>kv. (PStr (fst kv), snd kv)) kvs)) = set names"
    using assms(1,2) by (auto simp: image_image list_all_iff)
  show ?thesis
    using assms(3) k s by (simp add: exact_fields_def py_dict_def fun_eq_iff del: set_map list.map_comp)
qed

lemma json_ok_py_dict [simp]: "json_ok (py_dict kvs) = list_all (\<lambda>kv. json_ok (snd kv)) kvs"
  by (simp add: py_dict_def list_all_iff)

end
