(* ===== verification/Transitions.thy ===== *)
theory Transitions
  imports PyVal
begin

text \<open>
  The state machine of one execution, \<open>execution_kernel/transitions.py\<close>: the states and the
  transition matrix as data, the reducer on the names the code passes around
  (\<open>reduce_state\<close>), and the reducer on the typed states of the store's rows (\<open>reduce\<close>).
  The step relation \<open>xmove\<close> and the runs over it state what every history satisfies.
\<close>

datatype xstate =
    Queued | Leased | Running | Succeeded | Failed | Timed_Out | Cancelled | Dead
  | Recovery_Required

datatype xevent =
    Ev_lease | Ev_start | Ev_retry | Ev_lease_expired | Ev_succeed | Ev_fail | Ev_timeout
  | Ev_cancel | Ev_dead_letter | Ev_require_recovery | Ev_recovery_resolved

fun xname :: "xstate \<Rightarrow> string" where
  "xname Queued = ''queued''"
| "xname Leased = ''leased''"
| "xname Running = ''running''"
| "xname Succeeded = ''succeeded''"
| "xname Failed = ''failed''"
| "xname Timed_Out = ''timed_out''"
| "xname Cancelled = ''cancelled''"
| "xname Dead = ''dead''"
| "xname Recovery_Required = ''recovery_required''"

definition all_states :: "xstate list" where
  "all_states = [Queued, Leased, Running, Succeeded, Failed, Timed_Out, Cancelled, Dead,
     Recovery_Required]"

definition parse_state :: "string \<Rightarrow> xstate option" where
  "parse_state s = map_of (List.map (\<lambda>x. (xname x, x)) all_states) s"

definition EXECUTION_STATES :: "string list" where
  "EXECUTION_STATES = [''queued'', ''leased'', ''running'', ''succeeded'', ''failed'',
     ''timed_out'', ''cancelled'', ''dead'', ''recovery_required'']"

definition terminal :: "xstate \<Rightarrow> bool" where
  "terminal s \<longleftrightarrow> s \<in> set [Succeeded, Failed, Timed_Out, Cancelled, Dead]"

definition TRANSITION_MATRIX :: "(string \<times> string list) list" where
  "TRANSITION_MATRIX =
    [(''queued'', [''leased'', ''cancelled'', ''dead'', ''recovery_required'']),
     (''leased'', [''running'', ''queued'', ''cancelled'', ''dead'', ''recovery_required'']),
     (''running'', [''queued'', ''succeeded'', ''failed'', ''timed_out'', ''cancelled'', ''dead'',
        ''recovery_required'']),
     (''recovery_required'', [''queued'', ''cancelled'']),
     (''succeeded'', []), (''failed'', []), (''timed_out'', []), (''cancelled'', []), (''dead'', [])]"

definition EVENT_TARGETS :: "(string \<times> string) list" where
  "EVENT_TARGETS =
    [(''lease'', ''leased''), (''start'', ''running''), (''retry'', ''queued''),
     (''lease_expired'', ''queued''), (''succeed'', ''succeeded''), (''fail'', ''failed''),
     (''timeout'', ''timed_out''), (''cancel'', ''cancelled''), (''dead_letter'', ''dead''),
     (''require_recovery'', ''recovery_required''), (''recovery_resolved'', ''queued'')]"

definition can_transition :: "string \<Rightarrow> string \<Rightarrow> bool" where
  "can_transition current requested =
     (case map_of TRANSITION_MATRIX current of None \<Rightarrow> False | Some ts \<Rightarrow> requested \<in> set ts)"

definition reduce_state :: "string \<Rightarrow> string \<Rightarrow> kerr + string" where
  "reduce_state current event =
     (let requested = (case map_of EVENT_TARGETS event of None \<Rightarrow> event | Some t \<Rightarrow> t) in
      if current \<notin> set EXECUTION_STATES \<or> \<not> can_transition current requested
      then Inl InvalidStateTransitionError
      else Inr requested)"

fun ename :: "xevent \<Rightarrow> string" where
  "ename Ev_lease = ''lease''"
| "ename Ev_start = ''start''"
| "ename Ev_retry = ''retry''"
| "ename Ev_lease_expired = ''lease_expired''"
| "ename Ev_succeed = ''succeed''"
| "ename Ev_fail = ''fail''"
| "ename Ev_timeout = ''timeout''"
| "ename Ev_cancel = ''cancel''"
| "ename Ev_dead_letter = ''dead_letter''"
| "ename Ev_require_recovery = ''require_recovery''"
| "ename Ev_recovery_resolved = ''recovery_resolved''"

fun target :: "xevent \<Rightarrow> xstate" where
  "target Ev_lease = Leased"
| "target Ev_start = Running"
| "target Ev_retry = Queued"
| "target Ev_lease_expired = Queued"
| "target Ev_succeed = Succeeded"
| "target Ev_fail = Failed"
| "target Ev_timeout = Timed_Out"
| "target Ev_cancel = Cancelled"
| "target Ev_dead_letter = Dead"
| "target Ev_require_recovery = Recovery_Required"
| "target Ev_recovery_resolved = Queued"

fun moves :: "xstate \<Rightarrow> xstate list" where
  "moves Queued = [Leased, Cancelled, Dead, Recovery_Required]"
| "moves Leased = [Running, Queued, Cancelled, Dead, Recovery_Required]"
| "moves Running = [Queued, Succeeded, Failed, Timed_Out, Cancelled, Dead, Recovery_Required]"
| "moves Recovery_Required = [Queued, Cancelled]"
| "moves _ = []"

text \<open>The reducer on typed states, the form the store's operations use.\<close>

definition reduce :: "xstate \<Rightarrow> xevent \<Rightarrow> kerr + xstate" where
  "reduce s e = (if target e \<in> set (moves s) then Inr (target e) else Inl InvalidStateTransitionError)"

lemma xname_inject [simp]: "xname s = xname t \<longleftrightarrow> s = t"
  by (cases s; cases t) auto

lemma terminal_simps [simp]:
  "\<not> terminal Queued" "\<not> terminal Leased" "\<not> terminal Running" "\<not> terminal Recovery_Required"
  "terminal Succeeded" "terminal Failed" "terminal Timed_Out" "terminal Cancelled" "terminal Dead"
  by (simp_all add: terminal_def)

lemma terminal_iff: "terminal s \<longleftrightarrow> moves s = []"
  by (cases s) auto

lemma all_states: "s \<in> set all_states"
  by (cases s) (simp_all add: all_states_def)

lemma parse_xname [simp]: "parse_state (xname s) = Some s"
  by (cases s) (simp_all add: parse_state_def all_states_def)

lemma parse_stateD: "parse_state n = Some s \<Longrightarrow> n = xname s"
  by (auto simp: parse_state_def dest!: map_of_SomeD)

lemma parse_state_Some: "parse_state n = Some s \<longleftrightarrow> n = xname s"
  using parse_stateD by auto

lemma EXECUTION_STATES_names: "EXECUTION_STATES = List.map xname all_states"
  by (simp add: EXECUTION_STATES_def all_states_def)

lemma can_transition_xname: "can_transition (xname s) n \<longleftrightarrow> n \<in> xname ` set (moves s)"
  by (cases s) (auto simp: can_transition_def TRANSITION_MATRIX_def)

lemma event_target: "map_of EVENT_TARGETS (ename e) = Some (xname (target e))"
  by (cases e) (simp_all add: EVENT_TARGETS_def)

lemma reduce_eq_Inr [simp]: "reduce s e = Inr t \<longleftrightarrow> t = target e \<and> target e \<in> set (moves s)"
  by (auto simp: reduce_def)

lemma reduce_eq_Inl: "reduce s e = Inl x \<Longrightarrow> x = InvalidStateTransitionError"
  by (auto simp: reduce_def split: if_splits)


subsection \<open>Histories of one execution\<close>

inductive xrun :: "xstate list \<Rightarrow> bool" where
  xrun_new: "xrun [Queued]"
| xrun_step: "xrun (s # h) \<Longrightarrow> reduce s e = Inr t \<Longrightarrow> xrun (t # s # h)"

inductive_cases xrun_Cons: "xrun (s # h)"

lemma xrun_nonempty: "xrun h \<Longrightarrow> h \<noteq> []"
  by (induction rule: xrun.induct) auto

lemma xrun_after_lease:
  assumes "xrun h"
  shows "(Leased \<in> set h \<or> hd h \<in> {Queued, Cancelled, Dead, Recovery_Required})
       \<and> (Running \<in> set h \<or> hd h \<notin> {Succeeded, Failed, Timed_Out, Running})
       \<and> (Running \<in> set h \<longrightarrow> Leased \<in> set h)"
  using assms
proof (induction rule: xrun.induct)
  case (xrun_step s h e t)
  then show ?case by (cases s; cases e) auto
qed simp

lemma xrun_tail_live:
  assumes "xrun h"
  shows "\<forall>s \<in> set (tl h). \<not> terminal s"
  using assms
proof (induction rule: xrun.induct)
  case (xrun_step s h e t)
  then have "\<not> terminal s" by (auto simp: terminal_iff)
  with xrun_step show ?case by (cases h) auto
qed simp

text \<open>
  In every history of moves the reducer allows, a terminal state occurs only at the
  end, and an execution that finished by running (succeeded, failed or timed out) was
  leased and running before.
\<close>
theorem xrun_discipline:
  assumes "xrun (t # h)"
  shows "(\<forall>s \<in> set h. \<not> terminal s) \<and>
         (t \<in> {Succeeded, Failed, Timed_Out} \<longrightarrow> Running \<in> set h \<and> Leased \<in> set h)"
  using xrun_tail_live[OF assms] xrun_after_lease[OF assms] by auto

theorem xrun_discipline_witness:
  "xrun [Succeeded, Running, Leased, Queued] \<and>
   \<not> terminal Running \<and> Running \<in> set [Running, Leased, Queued] \<and> Leased \<in> set [Running, Leased, Queued]"
proof -
  have "xrun [Leased, Queued]" by (rule xrun_step[OF xrun_new, of Ev_lease]) simp
  then have "xrun [Running, Leased, Queued]" by (rule xrun_step[where e = Ev_start]) simp
  then have r: "xrun [Succeeded, Running, Leased, Queued]" by (rule xrun_step[where e = Ev_succeed]) simp
  then show ?thesis using xrun_discipline[OF r] by auto
qed

end
