(* ===== verification/Contracts.thy ===== *)
theory Contracts
  imports Transitions
begin

text \<open>
  The strict version-2 contracts of \<open>execution_kernel/contracts.py\<close> and \<open>event.py\<close>: one
  record per contract class, \<open>_ok\<close> for what its \<open>__post_init__\<close> requires of converted
  fields, \<open>mk_\<close> for the constructor on dynamically typed arguments, \<open>_to_dict\<close> and
  \<open>_from_dict\<close>. The constant field \<open>schema_version\<close> is checked and printed, not stored.
  Times and durations are the rational values of the floats (theory \<open>Floats\<close>).
\<close>

definition SCHEMA_VERSION :: int where "SCHEMA_VERSION = 2"

subsection \<open>RetryPolicy\<close>

record retry_policy =
  max_attempts :: int
  initial_backoff_seconds :: rat
  backoff_multiplier :: rat
  max_backoff_seconds :: rat
  retry_timeouts :: bool

definition retry_policy_ok :: "retry_policy \<Rightarrow> bool" where
  "retry_policy_ok p \<longleftrightarrow>
     1 \<le> max_attempts p \<and> 0 \<le> initial_backoff_seconds p \<and> 1 \<le> backoff_multiplier p \<and>
     0 \<le> max_backoff_seconds p \<and> initial_backoff_seconds p \<le> max_backoff_seconds p"

definition mk_retry_policy ::
  "pyval \<Rightarrow> pyval \<Rightarrow> pyval \<Rightarrow> pyval \<Rightarrow> pyval \<Rightarrow> pyval \<Rightarrow> kerr + retry_policy" where
  "mk_retry_policy attempts initial multiplier maximum timeouts schema =
     rbind (as_integer 1 attempts) (\<lambda>a.
     rbind (as_finite 0 initial) (\<lambda>i.
     rbind (as_finite 1 multiplier) (\<lambda>m.
     rbind (as_finite 0 maximum) (\<lambda>x.
     rbind (require (i \<le> x) ContractValidationError) (\<lambda>_.
     rbind (as_bool timeouts) (\<lambda>b.
     rbind (check_schema_version SCHEMA_VERSION schema) (\<lambda>_.
     Inr \<lparr>max_attempts = a, initial_backoff_seconds = i, backoff_multiplier = m,
          max_backoff_seconds = x, retry_timeouts = b\<rparr>)))))))"

text \<open>
  \<open>float ** int\<close> is C's \<open>pow\<close>, a parameter: \<open>None\<close> is OverflowError.
\<close>

definition delay_for_attempt :: "(rat \<Rightarrow> int \<Rightarrow> rat option) \<Rightarrow> retry_policy \<Rightarrow> int \<Rightarrow> kerr + rat" where
  "delay_for_attempt pow p attempt =
     rbind (require (1 \<le> attempt) ContractValidationError) (\<lambda>_.
     if initial_backoff_seconds p = 0 \<or> backoff_multiplier p = 1
     then Inr (min (max_backoff_seconds p) (initial_backoff_seconds p))
     else case pow (backoff_multiplier p) (attempt - 1) of
            None \<Rightarrow> Inr (max_backoff_seconds p)
          | Some m \<Rightarrow>
              (case fmul (initial_backoff_seconds p) m of
                 None \<Rightarrow> Inr (max_backoff_seconds p)
               | Some delay \<Rightarrow> Inr (min (max_backoff_seconds p) delay)))"

definition retry_policy_fields :: "string list" where
  "retry_policy_fields = [''max_attempts'', ''initial_backoff_seconds'', ''backoff_multiplier'',
     ''max_backoff_seconds'', ''retry_timeouts'', ''schema_version'']"

definition retry_policy_to_dict :: "retry_policy \<Rightarrow> pyval" where
  "retry_policy_to_dict p = py_dict
     [(''max_attempts'', PInt (max_attempts p)),
      (''initial_backoff_seconds'', PFin (initial_backoff_seconds p)),
      (''backoff_multiplier'', PFin (backoff_multiplier p)),
      (''max_backoff_seconds'', PFin (max_backoff_seconds p)),
      (''retry_timeouts'', PBool (retry_timeouts p)),
      (''schema_version'', PInt SCHEMA_VERSION)]"

definition retry_policy_from_dict :: "pyval \<Rightarrow> kerr + retry_policy" where
  "retry_policy_from_dict v =
     rbind (exact_fields SCHEMA_VERSION retry_policy_fields v) (\<lambda>f.
     mk_retry_policy (f ''max_attempts'') (f ''initial_backoff_seconds'') (f ''backoff_multiplier'')
       (f ''max_backoff_seconds'') (f ''retry_timeouts'') (f ''schema_version''))"

lemma mk_retry_policy_ok: "mk_retry_policy a i m x b s = Inr p \<Longrightarrow> retry_policy_ok p"
  by (auto simp: mk_retry_policy_def retry_policy_ok_def field_checks)

lemma retry_policy_roundtrip:
  "retry_policy_ok p \<Longrightarrow> retry_policy_from_dict (retry_policy_to_dict p) = Inr p"
  by (simp add: retry_policy_from_dict_def retry_policy_to_dict_def retry_policy_fields_def
      exact_fields_py_dict mk_retry_policy_def retry_policy_ok_def)

text \<open>
  The delay before a retry is never negative and never above the policy's maximum, and
  with a positive initial backoff it is at least the initial backoff, whatever \<open>pow\<close> does
  within its documented range (a power of a base of at least one is at least one).
\<close>
theorem delay_for_attempt_bounds:
  assumes "retry_policy_ok p" and "is_float (initial_backoff_seconds p)"
    and "\<And>b n y. 1 \<le> b \<Longrightarrow> 0 \<le> n \<Longrightarrow> pow b n = Some y \<Longrightarrow> 1 \<le> y"
    and "delay_for_attempt pow p attempt = Inr d"
  shows "initial_backoff_seconds p \<le> d \<and> d \<le> max_backoff_seconds p"
proof -
  have ge: "initial_backoff_seconds p \<le> y"
    if "pow (backoff_multiplier p) (attempt - 1) = Some m" "1 \<le> attempt"
      and "fmul (initial_backoff_seconds p) m = Some y" for m y
  proof -
    have "1 \<le> m"
      using assms(3)[OF _ _ that(1)] assms(1) that(2) by (simp add: retry_policy_ok_def)
    then have "initial_backoff_seconds p * 1 \<le> initial_backoff_seconds p * m"
      using assms(1) by (intro mult_left_mono) (auto simp: retry_policy_ok_def)
    then show ?thesis
      using fround_mono that(3) assms(2) by (auto simp: fmul_def is_float_def)
  qed
  show ?thesis
    using assms(1,4)
    by (auto simp: delay_for_attempt_def retry_policy_ok_def split: if_splits option.splits dest: ge)
qed

definition sample_policy :: retry_policy where
  "sample_policy = \<lparr>max_attempts = 3, initial_backoff_seconds = 2, backoff_multiplier = 3,
     max_backoff_seconds = 10, retry_timeouts = False\<rparr>"

definition exact_pow :: "rat \<Rightarrow> int \<Rightarrow> rat option" where
  "exact_pow b n = Some (b ^ nat n)"

lemma exact_pow_ge: "1 \<le> b \<Longrightarrow> 0 \<le> n \<Longrightarrow> exact_pow b n = Some y \<Longrightarrow> 1 \<le> y"
  by (auto simp: exact_pow_def intro: one_le_power)

lemma sample_delay: "delay_for_attempt exact_pow sample_policy 2 = Inr 6"
proof -
  have "fmul 2 3 = Some 6" using fround_of_int[of 6] by (simp add: fmul_def)
  then show ?thesis by (simp add: delay_for_attempt_def sample_policy_def exact_pow_def)
qed

theorem delay_for_attempt_bounds_witness:
  "initial_backoff_seconds sample_policy \<le> 6 \<and> 6 \<le> max_backoff_seconds sample_policy"
proof (rule delay_for_attempt_bounds[OF _ _ exact_pow_ge sample_delay])
  show "retry_policy_ok sample_policy" by (simp add: retry_policy_ok_def sample_policy_def)
  show "is_float (initial_backoff_seconds sample_policy)"
    using is_float_of_int[of 2] by (simp add: sample_policy_def)
qed

subsection \<open>ExecutionCommandV2\<close>

record command =
  c_execution_id :: string
  c_idempotency_key :: string
  c_registry_revision :: string
  c_correlation_id :: string
  c_causation_id :: "string option"
  c_handler_id :: string
  c_handler_contract_version :: int
  c_retry_policy :: retry_policy
  c_timeout_seconds :: rat
  c_payload :: pyval

text \<open>The least timeout is the float \<open>0.001\<close>.\<close>

definition least_timeout :: rat where
  "least_timeout = fround_pos (1 / 1000)"

definition command_ok :: "command \<Rightarrow> bool" where
  "command_ok c \<longleftrightarrow>
     nonblank (c_execution_id c) \<and> nonblank (c_idempotency_key c) \<and>
     nonblank (c_registry_revision c) \<and> nonblank (c_correlation_id c) \<and>
     optional_ok nonblank (c_causation_id c) \<and> nonblank (c_handler_id c) \<and>
     1 \<le> c_handler_contract_version c \<and> retry_policy_ok (c_retry_policy c) \<and>
     least_timeout \<le> c_timeout_seconds c \<and> json_ok (c_payload c)"

text \<open>A nested contract is a typed argument of the constructors below.\<close>

definition mk_command ::
  "pyval \<Rightarrow> pyval \<Rightarrow> pyval \<Rightarrow> pyval \<Rightarrow> pyval \<Rightarrow> pyval \<Rightarrow> pyval \<Rightarrow> retry_policy \<Rightarrow> pyval \<Rightarrow> pyval \<Rightarrow> pyval
     \<Rightarrow> kerr + command" where
  "mk_command execution_id key registry correlation causation handler handler_version policy
     timeout payload schema =
     rbind (as_identifier execution_id) (\<lambda>e.
     rbind (as_identifier key) (\<lambda>k.
     rbind (as_identifier registry) (\<lambda>r.
     rbind (as_identifier correlation) (\<lambda>c.
     rbind (as_optional_identifier causation) (\<lambda>ca.
     rbind (as_identifier handler) (\<lambda>h.
     rbind (as_integer 1 handler_version) (\<lambda>hv.
     rbind (as_finite least_timeout timeout) (\<lambda>t.
     rbind (json_copy payload) (\<lambda>p.
     rbind (check_schema_version SCHEMA_VERSION schema) (\<lambda>_.
     Inr \<lparr>c_execution_id = e, c_idempotency_key = k, c_registry_revision = r,
          c_correlation_id = c, c_causation_id = ca, c_handler_id = h,
          c_handler_contract_version = hv, c_retry_policy = policy,
          c_timeout_seconds = t, c_payload = p\<rparr>))))))))))"

definition command_fields :: "string list" where
  "command_fields = [''execution_id'', ''idempotency_key'', ''registry_revision'',
     ''correlation_id'', ''causation_id'', ''handler_id'', ''handler_contract_version'',
     ''retry_policy'', ''timeout_seconds'', ''payload'', ''schema_version'']"

definition command_to_dict :: "command \<Rightarrow> pyval" where
  "command_to_dict c = py_dict
     [(''execution_id'', PStr (c_execution_id c)),
      (''idempotency_key'', PStr (c_idempotency_key c)),
      (''registry_revision'', PStr (c_registry_revision c)),
      (''correlation_id'', PStr (c_correlation_id c)),
      (''causation_id'', py_optional PStr (c_causation_id c)),
      (''handler_id'', PStr (c_handler_id c)),
      (''handler_contract_version'', PInt (c_handler_contract_version c)),
      (''retry_policy'', retry_policy_to_dict (c_retry_policy c)),
      (''timeout_seconds'', PFin (c_timeout_seconds c)),
      (''payload'', c_payload c),
      (''schema_version'', PInt SCHEMA_VERSION)]"

definition command_from_dict :: "pyval \<Rightarrow> kerr + command" where
  "command_from_dict v =
     rbind (exact_fields SCHEMA_VERSION command_fields v) (\<lambda>f.
     rbind (retry_policy_from_dict (f ''retry_policy'')) (\<lambda>policy.
     mk_command (f ''execution_id'') (f ''idempotency_key'') (f ''registry_revision'')
       (f ''correlation_id'') (f ''causation_id'') (f ''handler_id'')
       (f ''handler_contract_version'') policy (f ''timeout_seconds'') (f ''payload'')
       (f ''schema_version'')))"

lemma mk_command_ok:
  "mk_command e k r c ca h hv p t pl s = Inr x \<Longrightarrow> retry_policy_ok p \<Longrightarrow> command_ok x"
  by (auto simp: mk_command_def command_ok_def field_checks)

lemma command_roundtrip: "command_ok c \<Longrightarrow> command_from_dict (command_to_dict c) = Inr c"
  by (simp add: command_from_dict_def command_to_dict_def command_fields_def
      exact_fields_py_dict retry_policy_roundtrip mk_command_def command_ok_def)

subsection \<open>ExecutionError\<close>

record exec_error =
  code :: string
  message :: string
  retryable :: bool
  details :: pyval

definition is_object :: "pyval \<Rightarrow> bool" where
  "is_object v = (case v of PDict _ \<Rightarrow> True | _ \<Rightarrow> False)"

definition error_ok :: "exec_error \<Rightarrow> bool" where
  "error_ok e \<longleftrightarrow> nonblank (code e) \<and> is_object (details e) \<and> json_ok (details e)"

definition mk_error :: "pyval \<Rightarrow> pyval \<Rightarrow> pyval \<Rightarrow> pyval \<Rightarrow> pyval \<Rightarrow> kerr + exec_error" where
  "mk_error cd msg retry det schema =
     rbind (as_identifier cd) (\<lambda>c.
     rbind (as_str msg) (\<lambda>m.
     rbind (as_bool retry) (\<lambda>r.
     rbind (require (is_object det) ContractValidationError) (\<lambda>_.
     rbind (json_copy det) (\<lambda>d.
     rbind (check_schema_version SCHEMA_VERSION schema) (\<lambda>_.
     Inr \<lparr>code = c, message = m, retryable = r, details = d\<rparr>))))))"

definition error_fields :: "string list" where
  "error_fields = [''code'', ''message'', ''retryable'', ''details'', ''schema_version'']"

definition error_to_dict :: "exec_error \<Rightarrow> pyval" where
  "error_to_dict e = py_dict
     [(''code'', PStr (code e)), (''message'', PStr (message e)),
      (''retryable'', PBool (retryable e)), (''details'', details e),
      (''schema_version'', PInt SCHEMA_VERSION)]"

definition error_from_dict :: "pyval \<Rightarrow> kerr + exec_error" where
  "error_from_dict v =
     rbind (exact_fields SCHEMA_VERSION error_fields v) (\<lambda>f.
     mk_error (f ''code'') (f ''message'') (f ''retryable'') (f ''details'') (f ''schema_version''))"

lemma mk_error_ok: "mk_error c m r d s = Inr e \<Longrightarrow> error_ok e"
  by (auto simp: mk_error_def error_ok_def field_checks)

lemma error_roundtrip: "error_ok e \<Longrightarrow> error_from_dict (error_to_dict e) = Inr e"
  by (simp add: error_from_dict_def error_to_dict_def error_fields_def exact_fields_py_dict
      mk_error_def error_ok_def)

subsection \<open>ExecutionLease\<close>

record lease =
  l_execution_id :: string
  l_lease_id :: string
  l_owner :: string
  l_fence :: int
  l_attempt :: int
  l_expires_at :: rat
  l_revision :: int

definition lease_ok :: "lease \<Rightarrow> bool" where
  "lease_ok l \<longleftrightarrow> nonblank (l_execution_id l) \<and> nonblank (l_lease_id l) \<and> nonblank (l_owner l) \<and>
     1 \<le> l_fence l \<and> 1 \<le> l_attempt l \<and> 0 \<le> l_expires_at l \<and> 1 \<le> l_revision l"

definition mk_lease ::
  "pyval \<Rightarrow> pyval \<Rightarrow> pyval \<Rightarrow> pyval \<Rightarrow> pyval \<Rightarrow> pyval \<Rightarrow> pyval \<Rightarrow> pyval \<Rightarrow> kerr + lease" where
  "mk_lease execution_id lease_id owner fnc att expires revn schema =
     rbind (as_identifier execution_id) (\<lambda>e.
     rbind (as_identifier lease_id) (\<lambda>i.
     rbind (as_identifier owner) (\<lambda>w.
     rbind (as_integer 1 fnc) (\<lambda>f.
     rbind (as_integer 1 att) (\<lambda>a.
     rbind (as_finite 0 expires) (\<lambda>x.
     rbind (as_integer 1 revn) (\<lambda>r.
     rbind (check_schema_version SCHEMA_VERSION schema) (\<lambda>_.
     Inr \<lparr>l_execution_id = e, l_lease_id = i, l_owner = w, l_fence = f, l_attempt = a,
          l_expires_at = x, l_revision = r\<rparr>))))))))"

definition lease_fields :: "string list" where
  "lease_fields = [''execution_id'', ''lease_id'', ''owner'', ''fence'', ''attempt'',
     ''expires_at'', ''revision'', ''schema_version'']"

definition lease_to_dict :: "lease \<Rightarrow> pyval" where
  "lease_to_dict l = py_dict
     [(''execution_id'', PStr (l_execution_id l)), (''lease_id'', PStr (l_lease_id l)),
      (''owner'', PStr (l_owner l)), (''fence'', PInt (l_fence l)),
      (''attempt'', PInt (l_attempt l)), (''expires_at'', PFin (l_expires_at l)),
      (''revision'', PInt (l_revision l)), (''schema_version'', PInt SCHEMA_VERSION)]"

definition lease_from_dict :: "pyval \<Rightarrow> kerr + lease" where
  "lease_from_dict v =
     rbind (exact_fields SCHEMA_VERSION lease_fields v) (\<lambda>f.
     mk_lease (f ''execution_id'') (f ''lease_id'') (f ''owner'') (f ''fence'') (f ''attempt'')
       (f ''expires_at'') (f ''revision'') (f ''schema_version''))"

lemma mk_lease_ok: "mk_lease e i w f a x r s = Inr l \<Longrightarrow> lease_ok l"
  by (auto simp: mk_lease_def lease_ok_def field_checks)

lemma lease_roundtrip: "lease_ok l \<Longrightarrow> lease_from_dict (lease_to_dict l) = Inr l"
  by (simp add: lease_from_dict_def lease_to_dict_def lease_fields_def exact_fields_py_dict
      mk_lease_def lease_ok_def)

end
