(* ===== verification/Snapshots.thy ===== *)
theory Snapshots
  imports Contracts
begin

text \<open>
  The contracts that show a row of the store: \<open>ExecutionResultV2\<close>, \<open>ExecutionSnapshot\<close> and
  \<open>EffectRecord\<close> of \<open>execution_kernel/contracts.py\<close> and \<open>Event\<close> of \<open>event.py\<close>, in the style
  of theory \<open>Contracts\<close>. A status or a state is the typed state it names.
\<close>

text \<open>
  Membership of a value in a set of names: an unhashable value raises TypeError, any other
  value that is no such name is a contract error. \<open>from_dict\<close> turns every such exception
  into a contract error.
\<close>

definition as_name :: "(string \<Rightarrow> 'a option) \<Rightarrow> pyval \<Rightarrow> kerr + 'a" where
  "as_name parse v =
     (case v of
        PStr s \<Rightarrow> expect (parse s) ContractValidationError
      | PList _ \<Rightarrow> Inl TypeErr
      | PDict _ \<Rightarrow> Inl TypeErr
      | _ \<Rightarrow> Inl ContractValidationError)"

definition parse_status :: "string \<Rightarrow> xstate option" where
  "parse_status s = (case parse_state s of Some t \<Rightarrow> if terminal t then Some t else None | None \<Rightarrow> None)"

definition malformed :: "kerr + 'a \<Rightarrow> kerr + 'a" where
  "malformed m = (case m of Inl _ \<Rightarrow> Inl ContractValidationError | Inr x \<Rightarrow> Inr x)"

lemma malformed_Inr [simp]: "malformed (Inr x) = Inr x"
  by (simp add: malformed_def)

lemma malformed_eq_Inr [simp]: "malformed m = Inr x \<longleftrightarrow> m = Inr x"
  by (cases m) (auto simp: malformed_def)

lemma as_name_PStr: "parse s = Some a \<Longrightarrow> as_name parse (PStr s) = Inr a"
  by (simp add: as_name_def)

lemma as_name_Inr: "as_name parse v = Inr a \<longleftrightarrow> (\<exists>s. v = PStr s \<and> parse s = Some a)"
  by (cases v) (auto simp: as_name_def)

lemma parse_status_Some: "parse_status s = Some t \<longleftrightarrow> s = xname t \<and> terminal t"
  by (auto simp: parse_status_def parse_state_Some split: option.splits if_splits)

fun as_identifiers :: "pyval list \<Rightarrow> kerr + string list" where
  "as_identifiers [] = Inr []"
| "as_identifiers (v # vs) =
     rbind (as_identifier v) (\<lambda>s. rbind (as_identifiers vs) (\<lambda>ss. Inr (s # ss)))"

lemma as_identifiers_PStr [simp]:
  "list_all nonblank ss \<Longrightarrow> as_identifiers (List.map PStr ss) = Inr ss"
  by (induction ss) auto

lemma as_identifiers_ok: "as_identifiers vs = Inr ss \<Longrightarrow> list_all nonblank ss"
  by (induction vs arbitrary: ss) (auto simp: field_checks)

subsection \<open>ExecutionResultV2\<close>

record exec_result =
  r_result_id :: string
  r_execution_id :: string
  r_status :: xstate
  r_attempt :: int
  r_fence :: int
  r_effect_ids :: "string list"
  r_started_at :: rat
  r_completed_at :: rat
  r_correlation_id :: string
  r_causation_id :: "string option"
  r_value :: pyval
  r_error :: "exec_error option"

definition result_cross_ok :: "exec_result \<Rightarrow> bool" where
  "result_cross_ok r \<longleftrightarrow>
     (r_attempt r = 0 \<longleftrightarrow> r_fence r = 0) \<and>
     (r_status r \<noteq> Cancelled \<longrightarrow> r_attempt r \<noteq> 0 \<and> r_fence r \<noteq> 0) \<and>
     distinct (r_effect_ids r) \<and> r_started_at r \<le> r_completed_at r \<and>
     (r_status r = Succeeded \<longrightarrow> r_error r = None) \<and>
     (r_status r \<noteq> Succeeded \<longrightarrow> r_error r \<noteq> None) \<and>
     (r_status r \<noteq> Succeeded \<longrightarrow> r_value r = PNone) \<and>
     (r_status r \<in> {Dead, Cancelled} \<longrightarrow> optional_ok (\<lambda>e. \<not> retryable e) (r_error r))"

definition result_ok :: "exec_result \<Rightarrow> bool" where
  "result_ok r \<longleftrightarrow>
     nonblank (r_result_id r) \<and> nonblank (r_execution_id r) \<and> terminal (r_status r) \<and>
     0 \<le> r_attempt r \<and> 0 \<le> r_fence r \<and> list_all nonblank (r_effect_ids r) \<and>
     0 \<le> r_started_at r \<and> 0 \<le> r_completed_at r \<and> nonblank (r_correlation_id r) \<and>
     optional_ok nonblank (r_causation_id r) \<and> json_ok (r_value r) \<and>
     optional_ok error_ok (r_error r) \<and> result_cross_ok r"

definition mk_result ::
  "pyval \<Rightarrow> pyval \<Rightarrow> pyval \<Rightarrow> pyval \<Rightarrow> pyval \<Rightarrow> pyval \<Rightarrow> pyval \<Rightarrow> pyval \<Rightarrow> pyval \<Rightarrow> pyval \<Rightarrow> pyval
     \<Rightarrow> exec_error option \<Rightarrow> pyval \<Rightarrow> kerr + exec_result" where
  "mk_result result_id execution_id status att fnc effect_ids started completed correlation
     causation val err schema =
     rbind (as_identifier result_id) (\<lambda>i.
     rbind (as_identifier execution_id) (\<lambda>e.
     rbind (as_name parse_status status) (\<lambda>st.
     rbind (as_integer 0 att) (\<lambda>a.
     rbind (as_integer 0 fnc) (\<lambda>f.
     rbind (case effect_ids of PList vs \<Rightarrow> as_identifiers vs | _ \<Rightarrow> Inl ContractValidationError) (\<lambda>ids.
     rbind (as_finite 0 started) (\<lambda>s.
     rbind (as_finite 0 completed) (\<lambda>c.
     rbind (as_identifier correlation) (\<lambda>co.
     rbind (as_optional_identifier causation) (\<lambda>ca.
     rbind (json_copy val) (\<lambda>v.
     rbind (check_schema_version SCHEMA_VERSION schema) (\<lambda>_.
     let r = \<lparr>r_result_id = i, r_execution_id = e, r_status = st, r_attempt = a, r_fence = f,
              r_effect_ids = ids, r_started_at = s, r_completed_at = c, r_correlation_id = co,
              r_causation_id = ca, r_value = v, r_error = err\<rparr> in
     rbind (require (result_cross_ok r) ContractValidationError) (\<lambda>_. Inr r)))))))))))))"

definition result_fields :: "string list" where
  "result_fields = [''result_id'', ''execution_id'', ''status'', ''attempt'', ''fence'',
     ''effect_ids'', ''started_at'', ''completed_at'', ''correlation_id'', ''causation_id'',
     ''value'', ''error'', ''schema_version'']"

definition result_to_dict :: "exec_result \<Rightarrow> pyval" where
  "result_to_dict r = py_dict
     [(''result_id'', PStr (r_result_id r)), (''execution_id'', PStr (r_execution_id r)),
      (''status'', PStr (xname (r_status r))), (''attempt'', PInt (r_attempt r)),
      (''fence'', PInt (r_fence r)), (''effect_ids'', PList (List.map PStr (r_effect_ids r))),
      (''started_at'', PFin (r_started_at r)), (''completed_at'', PFin (r_completed_at r)),
      (''correlation_id'', PStr (r_correlation_id r)),
      (''causation_id'', py_optional PStr (r_causation_id r)),
      (''value'', r_value r), (''error'', py_optional error_to_dict (r_error r)),
      (''schema_version'', PInt SCHEMA_VERSION)]"

definition optional_from :: "(pyval \<Rightarrow> kerr + 'a) \<Rightarrow> pyval \<Rightarrow> kerr + 'a option" where
  "optional_from f v = (if v = PNone then Inr None else rbind (f v) (\<lambda>a. Inr (Some a)))"

definition result_from_dict :: "pyval \<Rightarrow> kerr + exec_result" where
  "result_from_dict v =
     rbind (exact_fields SCHEMA_VERSION result_fields v) (\<lambda>f.
     malformed (
     rbind (optional_from error_from_dict (f ''error'')) (\<lambda>err.
     mk_result (f ''result_id'') (f ''execution_id'') (f ''status'') (f ''attempt'') (f ''fence'')
       (f ''effect_ids'') (f ''started_at'') (f ''completed_at'') (f ''correlation_id'')
       (f ''causation_id'') (f ''value'') err (f ''schema_version''))))"

lemma error_to_dict_not_None [simp]: "error_to_dict e \<noteq> PNone"
  by (simp add: error_to_dict_def py_dict_def)

lemma optional_from_py:
  "(\<And>a. x = Some a \<Longrightarrow> f (g a) = Inr a \<and> g a \<noteq> PNone) \<Longrightarrow> optional_from f (py_optional g x) = Inr x"
  by (cases x) (auto simp: optional_from_def)

lemma as_name_status [simp]: "terminal t \<Longrightarrow> as_name parse_status (PStr (xname t)) = Inr t"
  by (simp add: as_name_PStr parse_status_Some)

lemma optional_error [simp]:
  "optional_ok error_ok x \<Longrightarrow> optional_from error_from_dict (py_optional error_to_dict x) = Inr x"
  by (rule optional_from_py) (auto simp: error_roundtrip)

lemma mk_result_ok:
  assumes "mk_result i e st a f ids s c co ca v err sv = Inr r" and "optional_ok error_ok err"
  shows "result_ok r"
  using assms
  by (auto simp: mk_result_def result_ok_def field_checks Let_def as_name_Inr parse_status_Some
      dest: as_identifiers_ok split: pyval.splits)

lemma result_eta: "\<lparr>r_result_id = r_result_id r, r_execution_id = r_execution_id r,
    r_status = r_status r, r_attempt = r_attempt r, r_fence = r_fence r,
    r_effect_ids = r_effect_ids r, r_started_at = r_started_at r,
    r_completed_at = r_completed_at r, r_correlation_id = r_correlation_id r,
    r_causation_id = r_causation_id r, r_value = r_value r, r_error = r_error r\<rparr> = r"
  by simp

lemma result_roundtrip: "result_ok r \<Longrightarrow> result_from_dict (result_to_dict r) = Inr r"
  by (simp add: result_from_dict_def result_to_dict_def result_fields_def exact_fields_py_dict
      mk_result_def result_ok_def Let_def result_eta)

subsection \<open>ExecutionSnapshot\<close>

record snapshot =
  s_execution_id :: string
  s_state :: xstate
  s_revision :: int
  s_attempt :: int
  s_fence :: int
  s_redelivery_count :: int
  s_command :: command
  s_lease :: "lease option"
  s_result :: "exec_result option"
  s_recovery_effect_id :: "string option"
  s_next_attempt_at :: rat
  s_started_at :: "rat option"
  s_created_at :: rat
  s_updated_at :: rat
  s_recovery_target_state :: "string option"
  s_recovery_reason :: "string option"

definition snapshot_fields_ok :: "snapshot \<Rightarrow> bool" where
  "snapshot_fields_ok s \<longleftrightarrow>
     nonblank (s_execution_id s) \<and> 1 \<le> s_revision s \<and> 0 \<le> s_attempt s \<and> 0 \<le> s_fence s \<and>
     0 \<le> s_redelivery_count s \<and> optional_ok nonblank (s_recovery_effect_id s) \<and>
     optional_ok nonblank (s_recovery_target_state s) \<and> optional_ok nonblank (s_recovery_reason s) \<and>
     0 \<le> s_next_attempt_at s \<and> optional_ok (\<lambda>r. 0 \<le> r) (s_started_at s) \<and>
     0 \<le> s_created_at s \<and> 0 \<le> s_updated_at s"

definition snapshot_recovery_ok :: "snapshot \<Rightarrow> bool" where
  "snapshot_recovery_ok s \<longleftrightarrow>
     (s_state s = Recovery_Required \<longleftrightarrow> s_recovery_effect_id s \<noteq> None) \<and>
     (if s_state s = Recovery_Required
      then s_recovery_target_state s \<in> {Some ''queued'', Some ''cancelled''} \<and>
           (s_recovery_target_state s = Some ''cancelled'' \<longleftrightarrow> s_recovery_reason s \<noteq> None)
      else s_recovery_target_state s = None \<and> s_recovery_reason s = None)"

definition snapshot_lease_ok :: "snapshot \<Rightarrow> bool" where
  "snapshot_lease_ok s \<longleftrightarrow>
     (s_state s \<in> {Leased, Running} \<longleftrightarrow> s_lease s \<noteq> None) \<and>
     optional_ok (\<lambda>l. l_execution_id l = s_execution_id s \<and> l_attempt l = s_attempt s \<and>
       l_fence l = s_fence s \<and> l_revision l = s_revision s) (s_lease s)"

definition snapshot_result_ok :: "snapshot \<Rightarrow> bool" where
  "snapshot_result_ok s \<longleftrightarrow>
     (terminal (s_state s) \<longleftrightarrow> s_result s \<noteq> None) \<and>
     optional_ok (\<lambda>r. r_execution_id r = s_execution_id s \<and> r_attempt r = s_attempt s \<and>
       r_fence r = s_fence s \<and> r_status r = s_state s \<and>
       r_correlation_id r = c_correlation_id (s_command s) \<and>
       r_causation_id r = c_causation_id (s_command s)) (s_result s)"

definition snapshot_times_ok :: "snapshot \<Rightarrow> bool" where
  "snapshot_times_ok s \<longleftrightarrow>
     (s_state s \<in> {Running, Recovery_Required} \<longrightarrow> s_started_at s \<noteq> None) \<and>
     (s_state s \<in> {Queued, Leased} \<longrightarrow> s_started_at s = None) \<and>
     s_created_at s \<le> s_updated_at s \<and>
     (terminal (s_state s) \<longrightarrow>
        s_started_at s \<noteq> None \<and> map_option r_started_at (s_result s) = s_started_at s)"

definition snapshot_cross_ok :: "snapshot \<Rightarrow> bool" where
  "snapshot_cross_ok s \<longleftrightarrow>
     (s_attempt s = 0 \<longleftrightarrow> s_fence s = 0) \<and> c_execution_id (s_command s) = s_execution_id s \<and>
     snapshot_lease_ok s \<and> snapshot_result_ok s \<and> snapshot_recovery_ok s \<and> snapshot_times_ok s"

definition snapshot_ok :: "snapshot \<Rightarrow> bool" where
  "snapshot_ok s \<longleftrightarrow> snapshot_fields_ok s \<and> snapshot_cross_ok s"

definition snapshot_wf :: "snapshot \<Rightarrow> bool" where
  "snapshot_wf s \<longleftrightarrow> snapshot_ok s \<and> command_ok (s_command s) \<and>
     optional_ok lease_ok (s_lease s) \<and> optional_ok result_ok (s_result s)"

text \<open>The constructor: the identity fields, then the recovery metadata and the times.\<close>

definition mk_snapshot ::
  "pyval \<Rightarrow> pyval \<Rightarrow> pyval \<Rightarrow> pyval \<Rightarrow> pyval \<Rightarrow> pyval \<Rightarrow> command \<Rightarrow> lease option \<Rightarrow>
   exec_result option \<Rightarrow> pyval \<Rightarrow> pyval \<Rightarrow> pyval \<Rightarrow> pyval \<Rightarrow> pyval \<Rightarrow> pyval \<Rightarrow> pyval \<Rightarrow> pyval \<Rightarrow>
   kerr + snapshot" where
  "mk_snapshot execution_id st revn att fnc redel cmd lse res recovery next_at started created
     updated recovery_target reason schema =
     rbind (as_identifier execution_id) (\<lambda>e.
     rbind (as_name parse_state st) (\<lambda>x.
     rbind (as_integer 1 revn) (\<lambda>r.
     rbind (as_integer 0 att) (\<lambda>a.
     rbind (as_integer 0 fnc) (\<lambda>f.
     rbind (as_integer 0 redel) (\<lambda>d.
     rbind (as_optional_identifier recovery) (\<lambda>re.
     rbind (as_optional_identifier recovery_target) (\<lambda>rt.
     rbind (as_optional_identifier reason) (\<lambda>rr.
     rbind (as_finite 0 next_at) (\<lambda>n.
     rbind (as_optional_finite started) (\<lambda>s.
     rbind (as_finite 0 created) (\<lambda>c.
     rbind (as_finite 0 updated) (\<lambda>u.
     rbind (check_schema_version SCHEMA_VERSION schema) (\<lambda>_.
     let snap = \<lparr>s_execution_id = e, s_state = x, s_revision = r, s_attempt = a, s_fence = f,
                 s_redelivery_count = d, s_command = cmd, s_lease = lse, s_result = res,
                 s_recovery_effect_id = re, s_next_attempt_at = n, s_started_at = s,
                 s_created_at = c, s_updated_at = u, s_recovery_target_state = rt,
                 s_recovery_reason = rr\<rparr> in
     rbind (require (snapshot_cross_ok snap) ContractValidationError) (\<lambda>_.
     Inr snap)))))))))))))))"

definition snapshot_fields :: "string list" where
  "snapshot_fields = [''execution_id'', ''state'', ''revision'', ''attempt'', ''fence'',
     ''redelivery_count'', ''command'', ''lease'', ''result'', ''recovery_effect_id'',
     ''next_attempt_at'', ''started_at'', ''created_at'', ''updated_at'',
     ''recovery_target_state'', ''recovery_reason'', ''schema_version'']"

definition snapshot_to_dict :: "snapshot \<Rightarrow> pyval" where
  "snapshot_to_dict s = py_dict
     [(''execution_id'', PStr (s_execution_id s)), (''state'', PStr (xname (s_state s))),
      (''revision'', PInt (s_revision s)), (''attempt'', PInt (s_attempt s)),
      (''fence'', PInt (s_fence s)), (''redelivery_count'', PInt (s_redelivery_count s)),
      (''command'', command_to_dict (s_command s)),
      (''lease'', py_optional lease_to_dict (s_lease s)),
      (''result'', py_optional result_to_dict (s_result s)),
      (''recovery_effect_id'', py_optional PStr (s_recovery_effect_id s)),
      (''recovery_target_state'', py_optional PStr (s_recovery_target_state s)),
      (''recovery_reason'', py_optional PStr (s_recovery_reason s)),
      (''next_attempt_at'', PFin (s_next_attempt_at s)),
      (''started_at'', py_optional PFin (s_started_at s)),
      (''created_at'', PFin (s_created_at s)), (''updated_at'', PFin (s_updated_at s)),
      (''schema_version'', PInt SCHEMA_VERSION)]"

definition snapshot_from_dict :: "pyval \<Rightarrow> kerr + snapshot" where
  "snapshot_from_dict v =
     rbind (exact_fields SCHEMA_VERSION snapshot_fields v) (\<lambda>f.
     malformed (
     rbind (command_from_dict (f ''command'')) (\<lambda>cmd.
     rbind (optional_from lease_from_dict (f ''lease'')) (\<lambda>lse.
     rbind (optional_from result_from_dict (f ''result'')) (\<lambda>res.
     mk_snapshot (f ''execution_id'') (f ''state'') (f ''revision'') (f ''attempt'') (f ''fence'')
       (f ''redelivery_count'') cmd lse res (f ''recovery_effect_id'') (f ''next_attempt_at'')
       (f ''started_at'') (f ''created_at'') (f ''updated_at'') (f ''recovery_target_state'')
       (f ''recovery_reason'') (f ''schema_version''))))))"

lemma as_name_state [simp]: "as_name parse_state (PStr (xname t)) = Inr t"
  by (simp add: as_name_PStr)

lemma optional_lease [simp]:
  "optional_ok lease_ok x \<Longrightarrow> optional_from lease_from_dict (py_optional lease_to_dict x) = Inr x"
  by (rule optional_from_py) (auto simp: lease_roundtrip, simp add: lease_to_dict_def py_dict_def)

lemma optional_result [simp]:
  "optional_ok result_ok x \<Longrightarrow> optional_from result_from_dict (py_optional result_to_dict x) = Inr x"
  by (rule optional_from_py) (auto simp: result_roundtrip, simp add: result_to_dict_def py_dict_def)

lemma mk_snapshot_ok:
  "mk_snapshot e st r a f d cmd lse res re n s c u rt rr sv = Inr snap \<Longrightarrow> snapshot_ok snap"
  by (auto simp: mk_snapshot_def snapshot_ok_def snapshot_fields_ok_def field_checks Let_def
      dest: as_optional_finite_ok)

lemma snapshot_eta: "\<lparr>s_execution_id = s_execution_id s, s_state = s_state s,
    s_revision = s_revision s, s_attempt = s_attempt s, s_fence = s_fence s,
    s_redelivery_count = s_redelivery_count s, s_command = s_command s, s_lease = s_lease s,
    s_result = s_result s, s_recovery_effect_id = s_recovery_effect_id s,
    s_next_attempt_at = s_next_attempt_at s, s_started_at = s_started_at s,
    s_created_at = s_created_at s, s_updated_at = s_updated_at s,
    s_recovery_target_state = s_recovery_target_state s,
    s_recovery_reason = s_recovery_reason s\<rparr> = s"
  by simp

text \<open>
  C2. A snapshot that satisfies the contract, with its command, lease and result, survives
  \<open>from_dict(to_dict())\<close> unchanged.
\<close>
theorem snapshot_roundtrip:
  assumes "snapshot_wf s"
  shows "snapshot_from_dict (snapshot_to_dict s) = Inr s"
proof -
  have f: "snapshot_fields_ok s" and c: "snapshot_cross_ok s" and cmd: "command_ok (s_command s)"
    and l: "optional_ok lease_ok (s_lease s)" and r: "optional_ok result_ok (s_result s)"
    using assms by (auto simp: snapshot_wf_def snapshot_ok_def)
  show ?thesis
    using f c cmd l r
    by (simp add: snapshot_from_dict_def snapshot_to_dict_def snapshot_fields_def
        exact_fields_py_dict mk_snapshot_def snapshot_fields_ok_def Let_def command_roundtrip snapshot_eta)
qed

definition sample_command :: command where
  "sample_command =
     \<lparr>c_execution_id = ''e1'', c_idempotency_key = ''k1'', c_registry_revision = ''r1'',
      c_correlation_id = ''run'', c_causation_id = None, c_handler_id = ''h'',
      c_handler_contract_version = 1, c_retry_policy = sample_policy, c_timeout_seconds = 30,
      c_payload = py_dict [(''x'', PInt 1)]\<rparr>"

definition sample_lease :: lease where
  "sample_lease = \<lparr>l_execution_id = ''e1'', l_lease_id = ''lease'', l_owner = ''w'', l_fence = 1,
     l_attempt = 1, l_expires_at = 40, l_revision = 3\<rparr>"

definition sample_snapshot :: snapshot where
  "sample_snapshot =
     \<lparr>s_execution_id = ''e1'', s_state = Running, s_revision = 3, s_attempt = 1, s_fence = 1,
      s_redelivery_count = 0, s_command = sample_command, s_lease = Some sample_lease,
      s_result = None, s_recovery_effect_id = None, s_next_attempt_at = 10,
      s_started_at = Some 10, s_created_at = 10, s_updated_at = 10,
      s_recovery_target_state = None, s_recovery_reason = None\<rparr>"

lemma least_timeout_le: "least_timeout \<le> 1"
proof -
  have "fround_pos (1 / 1000) \<le> fround_pos (of_int 1 * 2 powi 0)"
    by (rule fround_pos_mono) simp_all
  also have "\<dots> = 1" by (subst fround_pos_grid) simp_all
  finally show ?thesis by (simp add: least_timeout_def)
qed

lemma sample_command_ok: "command_ok sample_command"
  using least_timeout_le
  by (simp add: command_ok_def sample_command_def nonblank_def is_space_def retry_policy_ok_def
      sample_policy_def)

lemma sample_lease_ok: "lease_ok sample_lease"
  by (simp add: lease_ok_def sample_lease_def nonblank_def is_space_def)

theorem snapshot_roundtrip_witness:
  "snapshot_from_dict (snapshot_to_dict sample_snapshot) = Inr sample_snapshot"
proof (rule snapshot_roundtrip)
  have "snapshot_ok sample_snapshot"
    by (simp add: snapshot_ok_def snapshot_fields_ok_def snapshot_cross_ok_def snapshot_lease_ok_def
        snapshot_result_ok_def snapshot_recovery_ok_def snapshot_times_ok_def sample_snapshot_def
        sample_lease_def sample_command_def nonblank_def is_space_def)
  then show "snapshot_wf sample_snapshot"
    using sample_command_ok sample_lease_ok by (simp add: snapshot_wf_def) (simp add: sample_snapshot_def)
qed

subsection \<open>EffectRecord\<close>

datatype effect_state = Prepared | Performing | Committed | Indeterminate | Not_Applied

datatype decision = Decided_Applied | Decided_Not_Applied

fun effect_name :: "effect_state \<Rightarrow> string" where
  "effect_name Prepared = ''prepared''"
| "effect_name Performing = ''performing''"
| "effect_name Committed = ''committed''"
| "effect_name Indeterminate = ''indeterminate''"
| "effect_name Not_Applied = ''not_applied''"

definition parse_effect_state :: "string \<Rightarrow> effect_state option" where
  "parse_effect_state s = map_of (List.map (\<lambda>x. (effect_name x, x))
     [Prepared, Performing, Committed, Indeterminate, Not_Applied]) s"

fun decision_name :: "decision \<Rightarrow> string" where
  "decision_name Decided_Applied = ''applied''"
| "decision_name Decided_Not_Applied = ''not_applied''"

definition parse_decision :: "string \<Rightarrow> decision option" where
  "parse_decision s = map_of (List.map (\<lambda>x. (decision_name x, x))
     [Decided_Applied, Decided_Not_Applied]) s"

record effect_record =
  e_effect_id :: string
  e_execution_id :: string
  e_name :: string
  e_request :: pyval
  e_state :: effect_state
  e_lease_id :: string
  e_claim_id :: "string option"
  e_attempt :: int
  e_fence :: int
  e_prepared_at :: rat
  e_response :: pyval
  e_committed_at :: "rat option"
  e_indeterminate_at :: "rat option"
  e_recovery_id :: "string option"
  e_recovery_decision :: "decision option"
  e_resolved_at :: "rat option"
  e_revision :: int

definition effect_fields_ok :: "effect_record \<Rightarrow> bool" where
  "effect_fields_ok e \<longleftrightarrow>
     nonblank (e_effect_id e) \<and> nonblank (e_execution_id e) \<and> nonblank (e_name e) \<and>
     json_ok (e_request e) \<and> nonblank (e_lease_id e) \<and> optional_ok nonblank (e_claim_id e) \<and>
     1 \<le> e_attempt e \<and> 1 \<le> e_fence e \<and> 0 \<le> e_prepared_at e \<and> json_ok (e_response e) \<and>
     optional_ok (\<lambda>r. 0 \<le> r) (e_committed_at e) \<and> optional_ok (\<lambda>r. 0 \<le> r) (e_indeterminate_at e) \<and>
     optional_ok nonblank (e_recovery_id e) \<and> optional_ok (\<lambda>r. 0 \<le> r) (e_resolved_at e) \<and>
     1 \<le> e_revision e"

definition effect_state_ok :: "effect_record \<Rightarrow> bool" where
  "effect_state_ok e \<longleftrightarrow>
     (e_state e = Prepared \<longrightarrow> e_response e = PNone \<and> e_committed_at e = None) \<and>
     (e_state e = Performing \<longrightarrow>
        e_claim_id e \<noteq> None \<and> e_response e = PNone \<and> e_committed_at e = None) \<and>
     (e_state e \<in> {Prepared, Not_Applied} \<longrightarrow> e_claim_id e = None) \<and>
     (e_state e = Committed \<longrightarrow> e_committed_at e \<noteq> None) \<and>
     (e_state e = Committed \<and> e_indeterminate_at e \<noteq> None \<longrightarrow> e_recovery_id e \<noteq> None) \<and>
     (e_state e = Indeterminate \<longrightarrow> e_indeterminate_at e \<noteq> None \<and> e_committed_at e = None) \<and>
     (e_state e = Indeterminate \<longrightarrow> e_recovery_id e = None) \<and>
     (e_state e = Not_Applied \<longrightarrow>
        e_indeterminate_at e \<noteq> None \<and> e_committed_at e = None \<and> e_response e = PNone \<and>
        e_recovery_decision e = Some Decided_Not_Applied)"

definition opt_le :: "rat option \<Rightarrow> rat option \<Rightarrow> bool" where
  "opt_le a b = (case (a, b) of (Some x, Some y) \<Rightarrow> x \<le> y | _ \<Rightarrow> True)"

definition effect_recovery_ok :: "effect_record \<Rightarrow> bool" where
  "effect_recovery_ok e \<longleftrightarrow>
     (e_recovery_id e = None \<longleftrightarrow> e_recovery_decision e = None) \<and>
     (e_recovery_id e = None \<longleftrightarrow> e_resolved_at e = None) \<and>
     (e_recovery_decision e = Some Decided_Applied \<longrightarrow> e_state e = Committed) \<and>
     (e_recovery_id e \<noteq> None \<longrightarrow> e_indeterminate_at e \<noteq> None) \<and>
     opt_le (Some (e_prepared_at e)) (e_committed_at e) \<and>
     opt_le (Some (e_prepared_at e)) (e_indeterminate_at e) \<and>
     (e_resolved_at e \<noteq> None \<longrightarrow>
        e_indeterminate_at e \<noteq> None \<and> opt_le (e_indeterminate_at e) (e_resolved_at e)) \<and>
     opt_le (e_resolved_at e) (e_committed_at e)"

definition effect_ok :: "effect_record \<Rightarrow> bool" where
  "effect_ok e \<longleftrightarrow> effect_fields_ok e \<and> effect_state_ok e \<and> effect_recovery_ok e"

text \<open>The constructor on typed fields, as the store calls it.\<close>

definition mk_effect :: "effect_record \<Rightarrow> kerr + effect_record" where
  "mk_effect e = (if effect_ok e then Inr e else Inl ContractValidationError)"

lemma mk_effect_ok [simp]: "effect_ok e \<Longrightarrow> mk_effect e = Inr e"
  by (simp add: mk_effect_def)

lemma mk_effect_Inr: "mk_effect e = Inr x \<longleftrightarrow> x = e \<and> effect_ok e"
  by (auto simp: mk_effect_def)

lemma opt_le_simps [simp]:
  "opt_le None b" "opt_le a None" "opt_le (Some x) (Some y) \<longleftrightarrow> x \<le> y"
  by (auto simp: opt_le_def split: option.splits)

definition mk_effect_from ::
  "(string \<Rightarrow> pyval) \<Rightarrow> kerr + effect_record" where
  "mk_effect_from f =
     rbind (as_identifier (f ''effect_id'')) (\<lambda>i.
     rbind (as_identifier (f ''execution_id'')) (\<lambda>x.
     rbind (as_identifier (f ''name'')) (\<lambda>n.
     rbind (json_copy (f ''request'')) (\<lambda>q.
     rbind (as_name parse_effect_state (f ''state'')) (\<lambda>st.
     rbind (as_identifier (f ''lease_id'')) (\<lambda>l.
     rbind (as_optional_identifier (f ''claim_id'')) (\<lambda>cl.
     rbind (as_integer 1 (f ''attempt'')) (\<lambda>a.
     rbind (as_integer 1 (f ''fence'')) (\<lambda>fn.
     rbind (as_finite 0 (f ''prepared_at'')) (\<lambda>p.
     rbind (json_copy (f ''response'')) (\<lambda>rs.
     rbind (as_optional_finite (f ''committed_at'')) (\<lambda>co.
     rbind (as_optional_finite (f ''indeterminate_at'')) (\<lambda>ind.
     rbind (as_optional_identifier (f ''recovery_id'')) (\<lambda>ri.
     rbind (optional_from (as_name parse_decision) (f ''recovery_decision'')) (\<lambda>d.
     rbind (as_optional_finite (f ''resolved_at'')) (\<lambda>re.
     rbind (as_integer 1 (f ''revision'')) (\<lambda>v.
     rbind (check_schema_version SCHEMA_VERSION (f ''schema_version'')) (\<lambda>_.
     let e = \<lparr>e_effect_id = i, e_execution_id = x, e_name = n, e_request = q, e_state = st,
              e_lease_id = l, e_claim_id = cl, e_attempt = a, e_fence = fn, e_prepared_at = p,
              e_response = rs, e_committed_at = co, e_indeterminate_at = ind,
              e_recovery_id = ri, e_recovery_decision = d, e_resolved_at = re,
              e_revision = v\<rparr> in
     rbind (require (effect_state_ok e \<and> effect_recovery_ok e) ContractValidationError) (\<lambda>_.
     Inr e)))))))))))))))))))"

definition effect_field_names :: "string list" where
  "effect_field_names = [''effect_id'', ''execution_id'', ''name'', ''request'', ''state'',
     ''lease_id'', ''claim_id'', ''attempt'', ''fence'', ''prepared_at'', ''response'',
     ''committed_at'', ''indeterminate_at'', ''recovery_id'', ''recovery_decision'',
     ''resolved_at'', ''revision'', ''schema_version'']"

definition effect_to_dict :: "effect_record \<Rightarrow> pyval" where
  "effect_to_dict e = py_dict
     [(''effect_id'', PStr (e_effect_id e)), (''execution_id'', PStr (e_execution_id e)),
      (''name'', PStr (e_name e)), (''request'', e_request e),
      (''state'', PStr (effect_name (e_state e))), (''lease_id'', PStr (e_lease_id e)),
      (''claim_id'', py_optional PStr (e_claim_id e)), (''attempt'', PInt (e_attempt e)),
      (''fence'', PInt (e_fence e)), (''prepared_at'', PFin (e_prepared_at e)),
      (''response'', e_response e), (''committed_at'', py_optional PFin (e_committed_at e)),
      (''indeterminate_at'', py_optional PFin (e_indeterminate_at e)),
      (''recovery_id'', py_optional PStr (e_recovery_id e)),
      (''recovery_decision'', py_optional (\<lambda>d. PStr (decision_name d)) (e_recovery_decision e)),
      (''resolved_at'', py_optional PFin (e_resolved_at e)),
      (''revision'', PInt (e_revision e)), (''schema_version'', PInt SCHEMA_VERSION)]"

definition effect_from_dict :: "pyval \<Rightarrow> kerr + effect_record" where
  "effect_from_dict v =
     rbind (exact_fields SCHEMA_VERSION effect_field_names v) (\<lambda>f. malformed (mk_effect_from f))"

lemma parse_effect_name [simp]: "parse_effect_state (effect_name s) = Some s"
  by (cases s) (simp_all add: parse_effect_state_def)

lemma parse_decision_name [simp]: "parse_decision (decision_name d) = Some d"
  by (cases d) (simp_all add: parse_decision_def)

lemma as_effect_state [simp]: "as_name parse_effect_state (PStr (effect_name s)) = Inr s"
  by (simp add: as_name_PStr)

lemma optional_decision [simp]:
  "optional_from (as_name parse_decision) (py_optional (\<lambda>d. PStr (decision_name d)) x) = Inr x"
  by (rule optional_from_py) (simp add: as_name_PStr)

lemma effect_eta: "\<lparr>e_effect_id = e_effect_id e, e_execution_id = e_execution_id e,
    e_name = e_name e, e_request = e_request e, e_state = e_state e, e_lease_id = e_lease_id e,
    e_claim_id = e_claim_id e, e_attempt = e_attempt e, e_fence = e_fence e,
    e_prepared_at = e_prepared_at e, e_response = e_response e,
    e_committed_at = e_committed_at e, e_indeterminate_at = e_indeterminate_at e,
    e_recovery_id = e_recovery_id e, e_recovery_decision = e_recovery_decision e,
    e_resolved_at = e_resolved_at e, e_revision = e_revision e\<rparr> = e"
  by simp

lemma effect_roundtrip: "effect_ok e \<Longrightarrow> effect_from_dict (effect_to_dict e) = Inr e"
  by (simp add: effect_ok_def effect_fields_ok_def effect_from_dict_def effect_to_dict_def
      effect_field_names_def exact_fields_py_dict mk_effect_from_def Let_def effect_eta)

lemma mk_effect_from_ok: "mk_effect_from f = Inr e \<Longrightarrow> effect_ok e"
  by (auto simp: mk_effect_from_def effect_ok_def effect_fields_ok_def field_checks Let_def
      dest: as_optional_finite_ok)

subsection \<open>Event\<close>

record event =
  ev_sequence :: int
  ev_event_id :: string
  ev_execution_id :: string
  ev_revision :: int
  ev_type :: string
  ev_from_state :: "string option"
  ev_to_state :: string
  ev_data :: pyval
  ev_created_at :: rat

definition event_ok :: "event \<Rightarrow> bool" where
  "event_ok v \<longleftrightarrow>
     1 \<le> ev_sequence v \<and> nonblank (ev_event_id v) \<and> nonblank (ev_execution_id v) \<and>
     1 \<le> ev_revision v \<and> nonblank (ev_type v) \<and> optional_ok nonblank (ev_from_state v) \<and>
     nonblank (ev_to_state v) \<and> json_ok (ev_data v) \<and> 0 \<le> ev_created_at v"

definition mk_event :: "event \<Rightarrow> kerr + event" where
  "mk_event v = (if event_ok v then Inr v else Inl ContractValidationError)"

definition event_fields :: "string list" where
  "event_fields = [''sequence'', ''event_id'', ''execution_id'', ''revision'', ''event_type'',
     ''from_state'', ''to_state'', ''data'', ''created_at'', ''schema_version'']"

definition event_to_dict :: "event \<Rightarrow> pyval" where
  "event_to_dict v = py_dict
     [(''sequence'', PInt (ev_sequence v)), (''event_id'', PStr (ev_event_id v)),
      (''execution_id'', PStr (ev_execution_id v)), (''revision'', PInt (ev_revision v)),
      (''event_type'', PStr (ev_type v)), (''from_state'', py_optional PStr (ev_from_state v)),
      (''to_state'', PStr (ev_to_state v)), (''data'', ev_data v),
      (''created_at'', PFin (ev_created_at v)), (''schema_version'', PInt SCHEMA_VERSION)]"

definition event_from_dict :: "pyval \<Rightarrow> kerr + event" where
  "event_from_dict p =
     rbind (exact_fields SCHEMA_VERSION event_fields p) (\<lambda>f.
     rbind (as_integer 1 (f ''sequence'')) (\<lambda>s.
     rbind (as_identifier (f ''event_id'')) (\<lambda>i.
     rbind (as_identifier (f ''execution_id'')) (\<lambda>x.
     rbind (as_integer 1 (f ''revision'')) (\<lambda>r.
     rbind (as_identifier (f ''event_type'')) (\<lambda>t.
     rbind (as_optional_identifier (f ''from_state'')) (\<lambda>fr.
     rbind (as_identifier (f ''to_state'')) (\<lambda>to.
     rbind (json_copy (f ''data'')) (\<lambda>d.
     rbind (as_finite 0 (f ''created_at'')) (\<lambda>c.
     rbind (check_schema_version SCHEMA_VERSION (f ''schema_version'')) (\<lambda>_.
     Inr \<lparr>ev_sequence = s, ev_event_id = i, ev_execution_id = x, ev_revision = r, ev_type = t,
          ev_from_state = fr, ev_to_state = to, ev_data = d, ev_created_at = c\<rparr>)))))))))))"

lemma event_roundtrip: "event_ok v \<Longrightarrow> event_from_dict (event_to_dict v) = Inr v"
  by (simp add: event_ok_def event_from_dict_def event_to_dict_def event_fields_def
      exact_fields_py_dict)

end
