(* ===== verification/Store.thy ===== *)
theory Store
  imports Snapshots
begin

text \<open>
  The kernel's database as a record of tables, its logical clock and transactions, the
  event log and the lease checks: \<open>execution_kernel/_sqlite_base.py\<close> on the tables of
  \<open>_sqlite_schema.py\<close>.

  The modelled store has no host-protected runs, child executions, budget samples or pause
  receipts: those tables are empty, and on empty tables the checks the code makes of them
  return. A JSON column holds the canonical form of the value it encodes, or the typed
  contract it encodes with its free JSON fields canonical; two texts are equal when these
  values are. A NULL response of an effect is the value null, which \<open>_effect\<close> reads alike.
\<close>

definition MAX_SQLITE_INTEGER :: int where
  "MAX_SQLITE_INTEGER = 9223372036854775807"

subsection \<open>Rows\<close>

record exec_row =
  x_id :: string
  x_key :: string
  x_registry :: string
  x_command :: command
  x_state :: xstate
  x_attempt :: int
  x_redeliveries :: int
  x_next_at :: rat
  x_lease_id :: "string option"
  x_lease_owner :: "string option"
  x_fence :: int
  x_lease_expires :: "rat option"
  x_started :: "rat option"
  x_result :: "exec_result option"
  x_rec_effect :: "string option"
  x_rec_target :: "string option"
  x_rec_reason :: "string option"
  x_revision :: int
  x_created :: rat
  x_updated :: rat

record effect_event =
  ee_event_id :: string
  ee_effect_id :: string
  ee_execution_id :: string
  ee_revision :: int
  ee_type :: string
  ee_from_state :: "string option"
  ee_to_state :: string
  ee_data :: pyval
  ee_created_at :: rat

datatype outbox_state = Pending | Delivering | Delivered | Undeliverable

record outbox_row =
  o_result_id :: string
  o_execution_id :: string
  o_result :: exec_result
  o_state :: outbox_state
  o_lease_id :: "string option"
  o_lease_owner :: "string option"
  o_fence :: int
  o_attempts :: int
  o_max_attempts :: int
  o_lease_expires :: "rat option"
  o_next_at :: rat
  o_last_error :: "exec_error option"
  o_revision :: int
  o_created :: rat
  o_updated :: rat

record obligation =
  so_execution_id :: string
  so_attempt :: int
  so_fence :: int
  so_registered_at :: rat
  so_resolution :: "pyval option"

datatype control_state = Control_Active | Control_Pausing | Control_Paused

record run_control =
  rc_run_id :: string
  rc_epoch :: int
  rc_generation :: int
  rc_state :: control_state
  rc_max_claims :: int
  rc_claims_used :: int
  rc_deadline :: rat

record managed_row =
  m_execution_id :: string
  m_run_id :: string
  m_generation :: int
  m_drain :: bool

record producer_row =
  lp_token :: string
  lp_execution_id :: string
  lp_attempt :: int
  lp_fence :: int
  lp_slots :: int
  lp_open :: bool

record lifecycle_row =
  lo_sequence :: int
  lo_token :: string
  lo_event_id :: string
  lo_phase :: string
  lo_payload :: "pyval option"
  lo_delivered :: bool

record kernel =
  watermark :: rat
  event_sequence :: int
  execs :: "exec_row list"
  events :: "event list"
  effects :: "effect_record list"
  effect_events :: "effect_event list"
  outbox :: "outbox_row list"
  obligations :: "obligation list"
  run_controls :: "run_control list"
  managed :: "managed_row list"
  producers :: "producer_row list"
  lifecycle :: "lifecycle_row list"
  uuids :: nat

text \<open>
  What the kernel is configured with: the default lease, the attempts of a result
  delivery, the identifiers \<open>uuid4().hex\<close> draws, and C's \<open>pow\<close>.
\<close>

record config =
  default_lease_seconds :: rat
  outbox_max_attempts :: int
  hex :: "nat \<Rightarrow> string"
  pow :: "rat \<Rightarrow> int \<Rightarrow> rat option"

definition config_ok :: "config \<Rightarrow> bool" where
  "config_ok c \<longleftrightarrow> 0 < default_lease_seconds c \<and> is_float (default_lease_seconds c) \<and> 1 \<le> outbox_max_attempts c"

definition empty_kernel :: kernel where
  "empty_kernel = \<lparr>watermark = 0, event_sequence = 0, execs = [], events = [], effects = [],
     effect_events = [], outbox = [], obligations = [], run_controls = [], managed = [],
     producers = [], lifecycle = [], uuids = 0\<rparr>"

type_synonym 'a kop = "(kernel, kerr, 'a) op"

definition uuid4 :: "config \<Rightarrow> string kop" where
  "uuid4 cfg = bind (get uuids) (\<lambda>n. bind (modify (\<lambda>k. k\<lparr>uuids := n + 1\<rparr>)) (\<lambda>_. ret (hex cfg n)))"

text \<open>The typed contents of the JSON columns: contracts whose free JSON fields are canonical.\<close>

definition canon_command :: "command \<Rightarrow> command" where
  "canon_command c = c\<lparr>c_payload := canon (c_payload c)\<rparr>"

definition canon_error :: "exec_error \<Rightarrow> exec_error" where
  "canon_error e = e\<lparr>details := canon (details e)\<rparr>"

definition canon_result :: "exec_result \<Rightarrow> exec_result" where
  "canon_result r = r\<lparr>r_value := canon (r_value r), r_error := map_option canon_error (r_error r)\<rparr>"

lemma is_object_canon [simp]: "is_object (canon v) = is_object v"
  by (cases v) (auto simp: is_object_def)

lemma command_ok_canon [simp]: "command_ok (canon_command c) = command_ok c"
  by (simp add: command_ok_def canon_command_def)

lemma error_ok_canon [simp]: "error_ok (canon_error e) = error_ok e"
  by (simp add: error_ok_def canon_error_def)

lemma canon_PNone [simp]: "canon v = PNone \<longleftrightarrow> v = PNone"
  by (cases v) auto

lemma result_ok_canon [simp]: "result_ok (canon_result r) = result_ok r"
  by (cases "r_error r") (auto simp: result_ok_def result_cross_ok_def canon_result_def canon_error_def
      error_ok_def)

lemma canon_idems [simp]: "canon_command (canon_command c) = canon_command c"
  "canon_error (canon_error e) = canon_error e"
  by (simp_all add: canon_command_def canon_error_def)

lemma canon_result_idem [simp]: "canon_result (canon_result r) = canon_result r"
  by (cases "r_error r") (simp_all add: canon_result_def)

subsection \<open>Numbers and the logical clock\<close>

definition check_number :: "pyval \<Rightarrow> rat \<Rightarrow> kerr + rat" where
  "check_number v minimum =
     (case finite_value v of
        None \<Rightarrow> Inl ValueErr
      | Some r \<Rightarrow> if r < minimum then Inl ValueErr else Inr r)"

definition positive_duration :: "pyval \<Rightarrow> kerr + rat" where
  "positive_duration v = rbind (check_number v 0) (\<lambda>r. if r \<le> 0 then Inl ValueErr else Inr r)"

definition nonnegative_duration :: "pyval \<Rightarrow> kerr + rat" where
  "nonnegative_duration v = check_number v 0"

definition checked_add :: "rat \<Rightarrow> rat \<Rightarrow> kerr + rat" where
  "checked_add left right =
     rbind (check_number (PFin left) 0) (\<lambda>l.
     rbind (check_number (PFin right) 0) (\<lambda>r.
     case fadd l r of
       None \<Rightarrow> Inl ValueErr
     | Some s \<Rightarrow> if 0 < r \<and> s \<le> l then Inl ValueErr else Inr s))"

text \<open>\<open>lease_seconds\<close> of an operation, or the default.\<close>

definition lease_duration :: "config \<Rightarrow> pyval option \<Rightarrow> kerr + rat" where
  "lease_duration cfg seconds =
     (case seconds of None \<Rightarrow> Inr (default_lease_seconds cfg) | Some v \<Rightarrow> positive_duration v)"

definition advance_clock :: "rat \<Rightarrow> rat kop" where
  "advance_clock wall =
     bind (get watermark) (\<lambda>old.
     bind (lift (check_number (PFin wall) 0)) (\<lambda>w.
     let t = max old w in
     bind (modify (\<lambda>k. k\<lparr>watermark := t\<rparr>)) (\<lambda>_. ret t)))"

definition current_time :: "rat \<Rightarrow> rat kop" where
  "current_time wall =
     bind (lift (check_number (PFin wall) 0)) (\<lambda>w. bind (get watermark) (\<lambda>old. ret (max w old)))"

text \<open>
  A transaction observes the clock, runs its body and commits; an exception of the body
  rolls back to the savepoint taken after the clock was observed, so that the watermark
  survives. The outcome is the state after the transaction in either case.
\<close>

definition transaction :: "rat \<Rightarrow> (rat \<Rightarrow> 'a kop) \<Rightarrow> kernel \<Rightarrow> (kerr + 'a) \<times> kernel" where
  "transaction wall body k =
     (case advance_clock wall k of
        Inl e \<Rightarrow> (Inl e, k)
      | Inr (timestamp, k1) \<Rightarrow>
          (case body timestamp k1 of
             Inl e \<Rightarrow> (Inl e, k1)
           | Inr (a, k2) \<Rightarrow> (Inr a, k2)))"

subsection \<open>Access to the tables\<close>

definition find_exec :: "string \<Rightarrow> kernel \<Rightarrow> exec_row option" where
  "find_exec i k = sql_find x_id i (execs k)"

definition insert_exec :: "exec_row \<Rightarrow> unit kop" where
  "insert_exec r k =
     rbind (sql_insert RuntimeErr x_key r (execs k)) (\<lambda>_.
     rbind (sql_insert RuntimeErr x_id r (execs k)) (\<lambda>rs. Inr ((), k\<lparr>execs := rs\<rparr>)))"

definition update_exec :: "(exec_row \<Rightarrow> bool) \<Rightarrow> (exec_row \<Rightarrow> exec_row) \<Rightarrow> unit kop" where
  "update_exec P f k = rbind (sql_update CASConflictError P f (execs k)) (\<lambda>rs. Inr ((), k\<lparr>execs := rs\<rparr>))"

definition find_effect :: "string \<Rightarrow> kernel \<Rightarrow> effect_record option" where
  "find_effect i k = sql_find e_effect_id i (effects k)"

definition insert_effect :: "effect_record \<Rightarrow> unit kop" where
  "insert_effect r k =
     rbind (sql_insert RuntimeErr e_effect_id r (effects k)) (\<lambda>rs. Inr ((), k\<lparr>effects := rs\<rparr>))"

definition update_effect :: "(effect_record \<Rightarrow> bool) \<Rightarrow> (effect_record \<Rightarrow> effect_record) \<Rightarrow> unit kop" where
  "update_effect P f k =
     rbind (sql_update CASConflictError P f (effects k)) (\<lambda>rs. Inr ((), k\<lparr>effects := rs\<rparr>))"

definition find_outbox :: "string \<Rightarrow> kernel \<Rightarrow> outbox_row option" where
  "find_outbox i k = sql_find o_result_id i (outbox k)"

definition insert_outbox :: "outbox_row \<Rightarrow> unit kop" where
  "insert_outbox r k =
     rbind (sql_insert RuntimeErr o_execution_id r (outbox k)) (\<lambda>_.
     rbind (sql_insert RuntimeErr o_result_id r (outbox k)) (\<lambda>rs. Inr ((), k\<lparr>outbox := rs\<rparr>)))"

definition update_outbox :: "(outbox_row \<Rightarrow> bool) \<Rightarrow> (outbox_row \<Rightarrow> outbox_row) \<Rightarrow> unit kop" where
  "update_outbox P f k =
     rbind (sql_update CASConflictError P f (outbox k)) (\<lambda>rs. Inr ((), k\<lparr>outbox := rs\<rparr>))"

lemma insert_exec_Inr: "insert_exec r k = Inr (u, t) \<longleftrightarrow>
    sql_find x_key (x_key r) (execs k) = None \<and> sql_find x_id (x_id r) (execs k) = None \<and>
    t = k\<lparr>execs := execs k @ [r]\<rparr>"
  by (auto simp: insert_exec_def sql_insert_def)

lemma update_exec_Inr: "update_exec P f k = Inr (u, t) \<longleftrightarrow>
    length (filter P (execs k)) = 1 \<and>
    t = k\<lparr>execs := List.map (\<lambda>r. if P r then f r else r) (execs k)\<rparr>"
  by (auto simp: update_exec_def sql_update_def)

lemma insert_effect_Inr: "insert_effect r k = Inr (u, t) \<longleftrightarrow>
    sql_find e_effect_id (e_effect_id r) (effects k) = None \<and> t = k\<lparr>effects := effects k @ [r]\<rparr>"
  by (auto simp: insert_effect_def sql_insert_def)

lemma update_effect_Inr: "update_effect P f k = Inr (u, t) \<longleftrightarrow>
    length (filter P (effects k)) = 1 \<and>
    t = k\<lparr>effects := List.map (\<lambda>r. if P r then f r else r) (effects k)\<rparr>"
  by (auto simp: update_effect_def sql_update_def)

lemma insert_outbox_Inr: "insert_outbox r k = Inr (u, t) \<longleftrightarrow>
    sql_find o_execution_id (o_execution_id r) (outbox k) = None \<and>
    sql_find o_result_id (o_result_id r) (outbox k) = None \<and>
    t = k\<lparr>outbox := outbox k @ [r]\<rparr>"
  by (auto simp: insert_outbox_def sql_insert_def)

lemma update_outbox_Inr: "update_outbox P f k = Inr (u, t) \<longleftrightarrow>
    length (filter P (outbox k)) = 1 \<and>
    t = k\<lparr>outbox := List.map (\<lambda>r. if P r then f r else r) (outbox k)\<rparr>"
  by (auto simp: update_outbox_def sql_update_def)

interpretation exec_table: table execs x_id find_exec insert_exec update_exec
  by unfold_locales (auto simp: find_exec_def insert_exec_Inr update_exec_Inr)

interpretation effect_table: table effects e_effect_id find_effect insert_effect update_effect
  by unfold_locales (auto simp: find_effect_def insert_effect_Inr update_effect_Inr)

interpretation outbox_table: table outbox o_result_id find_outbox insert_outbox update_outbox
  by unfold_locales (auto simp: find_outbox_def insert_outbox_Inr update_outbox_Inr)

subsection \<open>Reading rows\<close>

definition row_lease :: "exec_row \<Rightarrow> kerr + lease option" where
  "row_lease r =
     (case x_lease_id r of
        None \<Rightarrow> Inr None
      | Some i \<Rightarrow>
          (case (x_lease_owner r, x_lease_expires r) of
             (Some w, Some e) \<Rightarrow>
               let l = \<lparr>l_execution_id = x_id r, l_lease_id = i, l_owner = w, l_fence = x_fence r,
                        l_attempt = x_attempt r, l_expires_at = e, l_revision = x_revision r\<rparr>
               in if lease_ok l then Inr (Some l) else Inl ContractValidationError
           | _ \<Rightarrow> Inl ContractValidationError))"

definition row_snapshot :: "exec_row \<Rightarrow> lease option \<Rightarrow> snapshot" where
  "row_snapshot r l =
     \<lparr>s_execution_id = x_id r, s_state = x_state r, s_revision = x_revision r,
      s_attempt = x_attempt r, s_fence = x_fence r, s_redelivery_count = x_redeliveries r,
      s_command = x_command r, s_lease = l, s_result = x_result r,
      s_recovery_effect_id = x_rec_effect r, s_next_attempt_at = x_next_at r,
      s_started_at = x_started r, s_created_at = x_created r, s_updated_at = x_updated r,
      s_recovery_target_state = x_rec_target r, s_recovery_reason = x_rec_reason r\<rparr>"

definition snapshot :: "exec_row \<Rightarrow> kerr + snapshot" where
  "snapshot r =
     rbind (row_lease r) (\<lambda>l.
     if snapshot_ok (row_snapshot r l) then Inr (row_snapshot r l) else Inl ContractValidationError)"

definition get_row :: "string \<Rightarrow> exec_row kop" where
  "get_row i = bind (get (find_exec i)) (\<lambda>r. lift (expect r ExecutionNotFoundError))"

definition get_snapshot :: "string \<Rightarrow> snapshot kop" where
  "get_snapshot i = bind (get_row i) (\<lambda>r. lift (snapshot r))"

fun map_result :: "('a \<Rightarrow> 'e + 'b) \<Rightarrow> 'a list \<Rightarrow> 'e + 'b list" where
  "map_result f [] = Inr []"
| "map_result f (x # xs) = rbind (f x) (\<lambda>y. rbind (map_result f xs) (\<lambda>ys. Inr (y # ys)))"

definition pending_recoveries :: "int \<Rightarrow> snapshot list kop" where
  "pending_recoveries limit =
     bind (check (1 \<le> limit) ValueErr) (\<lambda>_.
     bind (get execs) (\<lambda>rs.
     lift (map_result snapshot
       (take (nat limit) (sql_select (\<lambda>r. x_state r = Recovery_Required)
          (\<lambda>r. (x_updated r, x_id r)) rs)))))"

subsection \<open>The lease check\<close>

text \<open>
  \<open>states\<close> is the set the operation accepts; \<open>settlement\<close> waives the expiry.
\<close>

definition assert_lease_row :: "exec_row \<Rightarrow> lease \<Rightarrow> rat \<Rightarrow> xstate list \<Rightarrow> bool \<Rightarrow> kerr + exec_row" where
  "assert_lease_row r l timestamp states settlement =
     (if terminal (x_state r) then Inl StaleFenceError
      else if x_state r \<notin> set states then Inl StaleFenceError
      else if x_lease_id r \<noteq> Some (l_lease_id l) \<or> x_lease_owner r \<noteq> Some (l_owner l) \<or>
        x_revision r \<noteq> l_revision l \<or> x_attempt r \<noteq> l_attempt l \<or> x_fence r \<noteq> l_fence l \<or>
        x_lease_expires r \<noteq> Some (l_expires_at l) then Inl StaleFenceError
      else case x_lease_expires r of
             None \<Rightarrow> Inl StaleFenceError
           | Some e \<Rightarrow> if \<not> settlement \<and> e \<le> timestamp then Inl StaleFenceError else Inr r)"

definition assert_lease :: "lease \<Rightarrow> rat \<Rightarrow> xstate list \<Rightarrow> bool \<Rightarrow> exec_row kop" where
  "assert_lease l timestamp states settlement =
     bind (get_row (l_execution_id l)) (\<lambda>r. lift (assert_lease_row r l timestamp states settlement))"

text \<open>
  What a successful check says of the row. Every identifying field agrees and the state is
  one of the accepted states.
\<close>

definition lease_matches :: "exec_row \<Rightarrow> lease \<Rightarrow> bool" where
  "lease_matches r l \<longleftrightarrow>
     x_id r = l_execution_id l \<and> x_lease_id r = Some (l_lease_id l) \<and>
     x_lease_owner r = Some (l_owner l) \<and> x_revision r = l_revision l \<and>
     x_attempt r = l_attempt l \<and> x_fence r = l_fence l \<and>
     x_lease_expires r = Some (l_expires_at l)"

lemma assert_lease_row_Inr: "assert_lease_row r l ts sts st = Inr q \<longleftrightarrow>
    q = r \<and> \<not> terminal (x_state r) \<and> x_state r \<in> set sts \<and> x_lease_id r = Some (l_lease_id l) \<and>
    x_lease_owner r = Some (l_owner l) \<and> x_revision r = l_revision l \<and>
    x_attempt r = l_attempt l \<and> x_fence r = l_fence l \<and>
    x_lease_expires r = Some (l_expires_at l) \<and> (st \<or> ts < l_expires_at l)"
  by (auto simp: assert_lease_row_def split: option.splits if_splits)

lemma get_row_Inr: "get_row i k = Inr (r, t) \<longleftrightarrow> t = k \<and> find_exec i k = Some r"
  by (auto simp: get_row_def bind_Inr)

lemma assert_lease_Inr: "assert_lease l ts sts st k = Inr (r, t) \<longleftrightarrow>
    t = k \<and> find_exec (l_execution_id l) k = Some r \<and> lease_matches r l \<and>
    x_state r \<in> set sts \<and> \<not> terminal (x_state r) \<and> (st \<or> ts < l_expires_at l)"
  by (auto simp: assert_lease_def bind_Inr get_row_Inr assert_lease_row_Inr lease_matches_def
      dest: exec_table.find_rowD)

subsection \<open>The event log\<close>

definition insert_event :: "event \<Rightarrow> unit kop" where
  "insert_event v k =
     (if ev_sequence v \<in> ev_sequence ` set (events k) \<or> ev_event_id v \<in> ev_event_id ` set (events k) \<or>
         (ev_execution_id v, ev_revision v) \<in> (\<lambda>e. (ev_execution_id e, ev_revision e)) ` set (events k)
      then Inl RuntimeErr else Inr ((), k\<lparr>events := events k @ [v]\<rparr>))"

text \<open>\<open>_event\<close>: the next global sequence number, the contract check, the append.\<close>

definition append_event ::
  "string \<Rightarrow> int \<Rightarrow> string \<Rightarrow> xstate option \<Rightarrow> xstate \<Rightarrow> pyval \<Rightarrow> rat \<Rightarrow> event kop" where
  "append_event execution_id revision event_type from_state to_state dat timestamp =
     bind (get event_sequence) (\<lambda>n.
     bind (check (n < MAX_SQLITE_INTEGER) OverflowErr) (\<lambda>_.
     bind (modify (\<lambda>k. k\<lparr>event_sequence := n + 1\<rparr>)) (\<lambda>_.
     let v = \<lparr>ev_sequence = n + 1, ev_event_id = numbered execution_id revision,
              ev_execution_id = execution_id, ev_revision = revision, ev_type = event_type,
              ev_from_state = map_option xname from_state, ev_to_state = xname to_state,
              ev_data = dat, ev_created_at = timestamp\<rparr> in
     bind (lift (mk_event v)) (\<lambda>_.
     bind (insert_event (v\<lparr>ev_data := canon dat\<rparr>)) (\<lambda>_.
     ret v)))))"

definition events_since :: "int \<Rightarrow> int \<Rightarrow> event list kop" where
  "events_since after_sequence limit =
     bind (check (0 \<le> after_sequence) ValueErr) (\<lambda>_.
     bind (check (1 \<le> limit) ValueErr) (\<lambda>_.
     bind (get events) (\<lambda>vs.
     lift (map_result mk_event
       (take (nat limit) (sql_select (\<lambda>v. after_sequence < ev_sequence v) ev_sequence vs))))))"

definition events_of :: "string \<Rightarrow> pyval list kop" where
  "events_of execution_id =
     bind (get events) (\<lambda>vs.
     bind (lift (map_result mk_event
       (sql_select (\<lambda>v. ev_execution_id v = execution_id) ev_revision vs))) (\<lambda>es.
     ret (List.map event_to_dict es)))"

text \<open>
  The trail of an execution: its events, in the order of the log, are numbered by the
  revisions 1, 2, ..., start with a submission into \<open>queued\<close>, and each goes from the state
  the previous one reached to a state the reducer allows. Renewing a lease and correcting a
  recovery pointer are events from a state to itself.
\<close>

definition step_allowed :: "xstate \<Rightarrow> xstate \<Rightarrow> bool" where
  "step_allowed s t \<longleftrightarrow> t \<in> set (moves s) \<or> s = t \<and> s \<in> {Leased, Running, Recovery_Required}"

inductive trail :: "event list \<Rightarrow> int \<Rightarrow> xstate \<Rightarrow> bool" where
  trail_first: "ev_revision v = 1 \<Longrightarrow> ev_from_state v = None \<Longrightarrow> ev_to_state v = xname Queued \<Longrightarrow>
    trail [v] 1 Queued"
| trail_next: "trail vs n s \<Longrightarrow> step_allowed s t \<Longrightarrow> ev_revision v = n + 1 \<Longrightarrow>
    ev_from_state v = Some (xname s) \<Longrightarrow> ev_to_state v = xname t \<Longrightarrow> trail (vs @ [v]) (n + 1) t"

lemma trail_revisions: "trail vs n s \<Longrightarrow> 1 \<le> n \<and> List.map ev_revision vs = [1..n]"
proof (induction rule: trail.induct)
  case (trail_next vs n s t v)
  then show ?case using upto_rec2[of 1 "n + 1"] by simp
qed simp

lemma trail_bound: "trail vs n s \<Longrightarrow> v \<in> set vs \<Longrightarrow> 1 \<le> ev_revision v \<and> ev_revision v \<le> n"
proof -
  assume "trail vs n s" "v \<in> set vs"
  then have "ev_revision v \<in> set [1..n]" using trail_revisions by (metis image_eqI set_map)
  then show ?thesis by simp
qed

end
