(* ===== verification/RunControl.thy ===== *)
theory RunControl
  imports Store
begin

text \<open>
  Run control, the part of \<open>_sqlite_execution.py\<close> that lets a managed run's executions be
  claimed and worked on: registration (\<open>register_run_control\<close>), the control compare-and-set
  with its drain set (\<open>set_run_control\<close>), the recheck before managed work
  (\<open>_authorize_managed_operation\<close>) and the claim budget (\<open>_charge_managed_claim\<close>).
\<close>

definition MANAGED_EXECUTION_PREFIX :: string where
  "MANAGED_EXECUTION_PREFIX = ''sdk-managed:''"

definition find_control :: "string \<Rightarrow> kernel \<Rightarrow> run_control option" where
  "find_control i k = sql_find rc_run_id i (run_controls k)"

definition insert_control :: "run_control \<Rightarrow> unit kop" where
  "insert_control r k =
     rbind (sql_insert RuntimeErr rc_run_id r (run_controls k)) (\<lambda>rs. Inr ((), k\<lparr>run_controls := rs\<rparr>))"

definition update_control :: "(run_control \<Rightarrow> bool) \<Rightarrow> (run_control \<Rightarrow> run_control) \<Rightarrow> unit kop" where
  "update_control P f k =
     rbind (sql_update CASConflictError P f (run_controls k)) (\<lambda>rs. Inr ((), k\<lparr>run_controls := rs\<rparr>))"

definition find_managed :: "string \<Rightarrow> kernel \<Rightarrow> managed_row option" where
  "find_managed i k = sql_find m_execution_id i (managed k)"

definition insert_managed :: "managed_row \<Rightarrow> unit kop" where
  "insert_managed r k =
     rbind (sql_insert RuntimeErr m_execution_id r (managed k)) (\<lambda>rs. Inr ((), k\<lparr>managed := rs\<rparr>))"

definition update_managed :: "(managed_row \<Rightarrow> bool) \<Rightarrow> (managed_row \<Rightarrow> managed_row) \<Rightarrow> unit kop" where
  "update_managed P f k =
     rbind (sql_update CASConflictError P f (managed k)) (\<lambda>rs. Inr ((), k\<lparr>managed := rs\<rparr>))"

lemma insert_control_Inr: "insert_control r k = Inr (u, t) \<longleftrightarrow>
    sql_find rc_run_id (rc_run_id r) (run_controls k) = None \<and>
    t = k\<lparr>run_controls := run_controls k @ [r]\<rparr>"
  by (auto simp: insert_control_def sql_insert_def)

lemma update_control_Inr: "update_control P f k = Inr (u, t) \<longleftrightarrow>
    length (filter P (run_controls k)) = 1 \<and>
    t = k\<lparr>run_controls := List.map (\<lambda>r. if P r then f r else r) (run_controls k)\<rparr>"
  by (auto simp: update_control_def sql_update_def)

lemma insert_managed_Inr: "insert_managed r k = Inr (u, t) \<longleftrightarrow>
    sql_find m_execution_id (m_execution_id r) (managed k) = None \<and>
    t = k\<lparr>managed := managed k @ [r]\<rparr>"
  by (auto simp: insert_managed_def sql_insert_def)

lemma update_managed_Inr: "update_managed P f k = Inr (u, t) \<longleftrightarrow>
    length (filter P (managed k)) = 1 \<and>
    t = k\<lparr>managed := List.map (\<lambda>r. if P r then f r else r) (managed k)\<rparr>"
  by (auto simp: update_managed_def sql_update_def)

interpretation control_table: table run_controls rc_run_id find_control insert_control update_control
  by unfold_locales (auto simp: find_control_def insert_control_Inr update_control_Inr)

interpretation managed_table: table managed m_execution_id find_managed insert_managed update_managed
  by unfold_locales (auto simp: find_managed_def insert_managed_Inr update_managed_Inr)

subsection \<open>Registration and the control epoch\<close>

record control_value =
  cv_control :: run_control
  cv_drain_ids :: "string list"

text \<open>\<open>_run_control_snapshot\<close>: the control with its drain set in sorted order.\<close>

definition run_control_snapshot :: "string \<Rightarrow> control_value option kop" where
  "run_control_snapshot run_id =
     bind (get (find_control run_id)) (\<lambda>c.
     bind (get managed) (\<lambda>ms.
     ret (map_option (\<lambda>c. \<lparr>cv_control = c,
            cv_drain_ids = List.map m_execution_id
              (sql_select (\<lambda>m. m_run_id m = run_id \<and> m_drain m) m_execution_id ms)\<rparr>) c)))"

definition managed_run_id :: "string \<Rightarrow> kerr + string" where
  "managed_run_id v = (if nonblank v then Inr v else Inl ValueErr)"

definition managed_generation :: "int \<Rightarrow> kerr + int" where
  "managed_generation v = (if v < 0 \<or> MAX_SQLITE_INTEGER < v then Inl ValueErr else Inr v)"

definition normalize_drain_ids :: "string list \<Rightarrow> kerr + string list" where
  "normalize_drain_ids ids =
     (if \<not> list_all nonblank ids then Inl ValueErr
      else if \<not> distinct ids then Inl ValueErr
      else Inr (sort ids))"

definition register_run_control_in_transaction :: "string \<Rightarrow> int \<Rightarrow> rat \<Rightarrow> control_value kop" where
  "register_run_control_in_transaction run_id max_claims deadline_at =
     bind (lift (managed_run_id run_id)) (\<lambda>run_id.
     bind (check (0 \<le> max_claims \<and> max_claims \<le> MAX_SQLITE_INTEGER) ValueErr) (\<lambda>_.
     bind (lift (check_number (PFin deadline_at) 0)) (\<lambda>deadline.
     bind (run_control_snapshot run_id) (\<lambda>current.
     case current of
       Some cv \<Rightarrow>
         if rc_max_claims (cv_control cv) \<noteq> max_claims \<or> rc_deadline (cv_control cv) \<noteq> deadline
         then raise IdempotencyConflictError
         else ret cv
     | None \<Rightarrow>
         bind (insert_control \<lparr>rc_run_id = run_id, rc_epoch = 0, rc_generation = 0,
           rc_state = Control_Paused, rc_max_claims = max_claims, rc_claims_used = 0,
           rc_deadline = deadline\<rparr>) (\<lambda>_.
         bind (run_control_snapshot run_id) (\<lambda>cv. lift (expect cv RuntimeErr)))))))"

definition register_run_control ::
  "rat \<Rightarrow> string \<Rightarrow> int \<Rightarrow> rat \<Rightarrow> kernel \<Rightarrow> (kerr + control_value) \<times> kernel" where
  "register_run_control wall run_id max_claims deadline_at =
     transaction wall (\<lambda>_. register_run_control_in_transaction run_id max_claims deadline_at)"

definition set_run_control_in_transaction ::
  "string \<Rightarrow> int \<Rightarrow> control_state \<Rightarrow> int \<Rightarrow> string list \<Rightarrow> control_value kop" where
  "set_run_control_in_transaction run_id expected_epoch st generation drain_execution_ids =
     bind (lift (managed_run_id run_id)) (\<lambda>run_id.
     bind (check (0 \<le> expected_epoch) ValueErr) (\<lambda>_.
     bind (check (expected_epoch < MAX_SQLITE_INTEGER) ValueErr) (\<lambda>_.
     bind (lift (managed_generation generation)) (\<lambda>generation.
     bind (lift (normalize_drain_ids drain_execution_ids)) (\<lambda>drain_ids.
     bind (check (st = Control_Pausing \<or> drain_ids = []) ValueErr) (\<lambda>_.
     bind (run_control_snapshot run_id) (\<lambda>current.
     bind (lift (expect current ExecutionNotFoundError)) (\<lambda>cv.
     let target_epoch = expected_epoch + 1; c = cv_control cv in
     if rc_epoch c = target_epoch then
       (if rc_state c = st \<and> rc_generation c = generation \<and> cv_drain_ids cv = drain_ids
        then ret cv else raise CASConflictError)
     else
     bind (check (rc_epoch c = expected_epoch) CASConflictError) (\<lambda>_.
     bind (check (rc_generation c \<le> generation) ValueErr) (\<lambda>_.
     bind (get managed) (\<lambda>ms.
     bind (check (\<forall>i \<in> set drain_ids. \<exists>m \<in> set ms.
             m_run_id m = run_id \<and> m_generation m = generation \<and> m_execution_id m = i) ValueErr) (\<lambda>_.
     bind (update_control (\<lambda>r. rc_run_id r = run_id \<and> rc_epoch r = expected_epoch)
             (\<lambda>r. r\<lparr>rc_epoch := target_epoch, rc_generation := generation, rc_state := st\<rparr>)) (\<lambda>_.
     bind (modify (\<lambda>k. k\<lparr>managed :=
             List.map (\<lambda>m. if m_run_id m = run_id then m\<lparr>m_drain := False\<rparr> else m) (managed k)\<rparr>)) (\<lambda>_.
     bind (each (\<lambda>i. update_managed
             (\<lambda>m. m_run_id m = run_id \<and> m_generation m = generation \<and> m_execution_id m = i)
             (\<lambda>m. m\<lparr>m_drain := True\<rparr>)) drain_ids) (\<lambda>_.
     bind (run_control_snapshot run_id) (\<lambda>cv. lift (expect cv RuntimeErr)))))))))))))))))"

definition set_run_control ::
  "rat \<Rightarrow> string \<Rightarrow> int \<Rightarrow> control_state \<Rightarrow> int \<Rightarrow> string list \<Rightarrow> kernel \<Rightarrow> (kerr + control_value) \<times> kernel" where
  "set_run_control wall run_id expected_epoch st generation drain_ids k =
     (case managed_run_id run_id of
        Inl e \<Rightarrow> (Inl e, k)
      | Inr run_id \<Rightarrow>
          transaction wall
            (\<lambda>_. set_run_control_in_transaction run_id expected_epoch st generation drain_ids) k)"

subsection \<open>Authority over managed executions\<close>

text \<open>
  The recheck before managed work. \<open>settlement\<close> is the recording of an outcome that was
  authorised before.
\<close>

definition authorize_managed_operation :: "string \<Rightarrow> rat \<Rightarrow> string \<Rightarrow> bool \<Rightarrow> unit kop" where
  "authorize_managed_operation execution_id timestamp operation settlement =
     bind (get (find_managed execution_id)) (\<lambda>membership.
     bind (get (\<lambda>k. case membership of None \<Rightarrow> None | Some m \<Rightarrow> find_control (m_run_id m) k)) (\<lambda>control.
     if membership = None \<and> \<not> starts_with MANAGED_EXECUTION_PREFIX execution_id then ret ()
     else case (membership, control) of
       (Some m, Some c) \<Rightarrow>
         if settlement then ret ()
         else if rc_state c = Control_Pausing \<and>
           (contains ''child'' operation \<or> contains ''supervisor'' operation \<or> contains ''effect'' operation)
         then raise CASConflictError
         else if rc_deadline c \<le> timestamp then raise CASConflictError
         else if rc_state c = Control_Active \<and> m_generation m = rc_generation c then ret ()
         else if rc_state c = Control_Pausing \<and> m_drain m \<and>
           operation \<notin> {''effect preparation'', ''external effect claim''} then ret ()
         else raise CASConflictError
     | _ \<Rightarrow> raise StorageIsolationError))"

text \<open>Whether a managed execution may be claimed under its control.\<close>

definition claim_open :: "managed_row \<Rightarrow> run_control \<Rightarrow> rat \<Rightarrow> bool" where
  "claim_open m c timestamp \<longleftrightarrow>
     rc_claims_used c < rc_max_claims c \<and> timestamp < rc_deadline c \<and>
     (rc_state c = Control_Active \<and> m_generation m = rc_generation c \<or>
      rc_state c = Control_Pausing \<and> m_drain m)"

definition charge_managed_claim :: "string \<Rightarrow> rat \<Rightarrow> unit kop" where
  "charge_managed_claim execution_id timestamp =
     bind (get (find_managed execution_id)) (\<lambda>membership.
     case membership of
       None \<Rightarrow>
         if starts_with MANAGED_EXECUTION_PREFIX execution_id then raise CASConflictError else ret ()
     | Some m \<Rightarrow>
         update_control (\<lambda>c. rc_run_id c = m_run_id m \<and> claim_open m c timestamp)
           (\<lambda>c. c\<lparr>rc_claims_used := rc_claims_used c + 1\<rparr>))"

end
