(* ===== verification/Effects.thy ===== *)
theory Effects
  imports RunControl
begin

text \<open>
  The effect store of \<open>_sqlite_effects.py\<close>: prepare, claim, commit and mark effects under a
  live lease, and park an execution whose effects are unfinished. An operation that must
  report after its transaction committed (\<open>prepare_effect\<close>) returns \<open>None\<close> from its body.
\<close>

definition unfinished :: "effect_state \<Rightarrow> bool" where
  "unfinished s \<longleftrightarrow> s \<in> set [Prepared, Performing, Indeterminate]"

lemma unfinished_simps [simp]:
  "unfinished Prepared" "unfinished Performing" "unfinished Indeterminate"
  "\<not> unfinished Committed" "\<not> unfinished Not_Applied"
  by (simp_all add: unfinished_def)

text \<open>The JSON text of a value, or the exception of encoding it.\<close>

definition encode_json :: "pyval \<Rightarrow> kerr + pyval" where
  "encode_json v = (if json_ok v then Inr (canon v) else Inl TypeErr)"

subsection \<open>The effect log\<close>

definition effect_event ::
  "effect_record \<Rightarrow> string \<Rightarrow> string option \<Rightarrow> pyval \<Rightarrow> rat \<Rightarrow> unit kop" where
  "effect_event e event_type from_state dat timestamp k =
     rbind (encode_json dat) (\<lambda>d.
     let v = \<lparr>ee_event_id = numbered (e_effect_id e) (e_revision e), ee_effect_id = e_effect_id e,
              ee_execution_id = e_execution_id e, ee_revision = e_revision e, ee_type = event_type,
              ee_from_state = from_state, ee_to_state = effect_name (e_state e),
              ee_data = d, ee_created_at = timestamp\<rparr> in
     rbind (sql_insert RuntimeErr ee_event_id v (effect_events k)) (\<lambda>vs.
     Inr ((), k\<lparr>effect_events := vs\<rparr>)))"

definition get_effect :: "string \<Rightarrow> effect_record kop" where
  "get_effect i =
     bind (get (find_effect i)) (\<lambda>e. bind (lift (expect e KeyErr)) (\<lambda>e. lift (mk_effect e)))"

definition effect_ids_for_attempt :: "string \<Rightarrow> int \<Rightarrow> int \<Rightarrow> effect_state list \<Rightarrow> string list kop" where
  "effect_ids_for_attempt execution_id att fnc states =
     bind (check (nonblank execution_id) ValueErr) (\<lambda>_.
     bind (check (1 \<le> att) ValueErr) (\<lambda>_.
     bind (check (1 \<le> fnc) ValueErr) (\<lambda>_.
     bind (check (states \<noteq> []) ValueErr) (\<lambda>_.
     bind (get effects) (\<lambda>es.
     ret (List.map e_effect_id (filter (\<lambda>e. e_state e \<in> set states)
       (sql_select (\<lambda>e. e_execution_id e = execution_id \<and> e_attempt e = att \<and> e_fence e = fnc)
          e_effect_id es))))))))"

definition unfinished_effect_rows :: "string \<Rightarrow> effect_record list kop" where
  "unfinished_effect_rows execution_id =
     bind (get effects) (\<lambda>es.
     ret (sql_select (\<lambda>e. e_execution_id e = execution_id \<and> unfinished (e_state e)) e_effect_id es))"

subsection \<open>Parking an execution\<close>

definition uncertain_detail :: "string \<Rightarrow> effect_record \<Rightarrow> exec_error" where
  "uncertain_detail trigger e =
     \<lparr>code = ''effect_outcome_uncertain'',
      message = ''execution authority ended before the effect outcome was settled'',
      retryable = False,
      details = py_dict [(''trigger'', PStr trigger), (''prior_state'', PStr (effect_name (e_state e))),
        (''attempt'', PInt (e_attempt e)), (''fence'', PInt (e_fence e))]\<rparr>"

text \<open>The body of the loop over the unfinished effects: one becomes indeterminate.\<close>

definition park_effect :: "rat \<Rightarrow> string \<Rightarrow> effect_record \<Rightarrow> string kop" where
  "park_effect timestamp trigger row =
     bind (lift (mk_effect row)) (\<lambda>e.
     if e_state e \<in> {Prepared, Performing} then
       bind (update_effect
               (\<lambda>x. e_effect_id x = e_effect_id e \<and> e_state x = e_state e \<and> e_revision x = e_revision e)
               (\<lambda>x. x\<lparr>e_state := Indeterminate,
                      e_response := canon (error_to_dict (uncertain_detail trigger e)),
                      e_indeterminate_at := Some timestamp, e_recovery_id := None,
                      e_recovery_decision := None, e_resolved_at := None,
                      e_revision := e_revision e + 1\<rparr>)) (\<lambda>_.
       bind (get_effect (e_effect_id e)) (\<lambda>converted.
       bind (effect_event converted
               (if trigger = ''lease_expired'' then ''lease_expired_indeterminate''
                else ''recovery_required_indeterminate'')
               (Some (effect_name (e_state e))) (py_dict [(''trigger'', PStr trigger)]) timestamp) (\<lambda>_.
       ret (e_effect_id e))))
     else ret (e_effect_id e))"

definition park_event_data ::
  "string \<Rightarrow> int \<Rightarrow> string list \<Rightarrow> string \<Rightarrow> string \<Rightarrow> string option \<Rightarrow> pyval" where
  "park_event_data pointer pointer_revision recovery_ids trigger tgt reason = py_dict
     [(''effect_id'', PStr pointer), (''effect_revision'', PInt pointer_revision),
      (''effect_ids'', PList (List.map PStr recovery_ids)), (''trigger'', PStr trigger),
      (''recovery_target_state'', PStr tgt), (''recovery_reason'', py_optional PStr reason)]"

text \<open>An execution that is parked already: the disposition may only be raised to cancelled.\<close>

definition repark ::
  "exec_row \<Rightarrow> rat \<Rightarrow> string \<Rightarrow> string option \<Rightarrow> string \<Rightarrow> string list \<Rightarrow> string \<Rightarrow> int \<Rightarrow> snapshot kop" where
  "repark execution timestamp trigger cancel_reason requested_target recovery_ids pointer
     pointer_revision =
     (let current_target = x_rec_target execution;
          current_reason = x_rec_reason execution;
          tgt = (if current_target = Some ''cancelled'' \<or> requested_target = ''cancelled''
                 then ''cancelled'' else ''queued'');
          reason = (if current_target = Some ''cancelled'' then current_reason
                    else if tgt = ''cancelled'' then cancel_reason else None);
          upgraded = (current_target \<noteq> Some ''cancelled'' \<and> tgt = ''cancelled'');
          revision = x_revision execution + 1
      in if x_rec_effect execution = Some pointer \<and> current_target = Some tgt \<and> current_reason = reason
         then lift (snapshot execution)
         else
           bind (update_exec
                   (\<lambda>x. x_id x = x_id execution \<and> x_state x = Recovery_Required \<and>
                        x_revision x = x_revision execution)
                   (\<lambda>x. x\<lparr>x_rec_effect := Some pointer, x_rec_target := Some tgt,
                          x_rec_reason := reason, x_revision := revision,
                          x_updated := timestamp\<rparr>)) (\<lambda>_.
           bind (append_event (x_id execution) revision
                   (if upgraded then ''effect_recovery_cancellation_requested''
                    else ''effect_recovery_pointer_corrected'')
                   (Some Recovery_Required) Recovery_Required
                   (park_event_data pointer pointer_revision recovery_ids trigger tgt reason)
                   timestamp) (\<lambda>_.
           get_snapshot (x_id execution))))"

definition park_now ::
  "exec_row \<Rightarrow> rat \<Rightarrow> string \<Rightarrow> string option \<Rightarrow> string \<Rightarrow> string list \<Rightarrow> string \<Rightarrow> int \<Rightarrow> snapshot kop" where
  "park_now execution timestamp trigger cancel_reason requested_target recovery_ids pointer
     pointer_revision =
     bind (lift (reduce (x_state execution) Ev_require_recovery)) (\<lambda>_.
     let revision = x_revision execution + 1;
         recovery_reason = (if requested_target = ''cancelled'' then cancel_reason else None) in
     bind (update_exec
             (\<lambda>x. x_id x = x_id execution \<and> x_state x = x_state execution \<and>
                  x_revision x = x_revision execution)
             (\<lambda>x. x\<lparr>x_state := Recovery_Required, x_lease_id := None, x_lease_owner := None,
                    x_lease_expires := None,
                    x_started := (case x_started x of None \<Rightarrow> Some timestamp | s \<Rightarrow> s),
                    x_rec_effect := Some pointer, x_rec_target := Some requested_target,
                    x_rec_reason := recovery_reason, x_revision := revision,
                    x_updated := timestamp\<rparr>)) (\<lambda>_.
     bind (append_event (x_id execution) revision
             (if trigger = ''lease_expired'' then ''lease_expired_effect_recovery_required''
              else ''effect_recovery_required'')
             (Some (x_state execution)) Recovery_Required
             (park_event_data pointer pointer_revision recovery_ids trigger requested_target
                recovery_reason) timestamp) (\<lambda>_.
     get_snapshot (x_id execution))))"

definition park_pointer :: "exec_row \<Rightarrow> string list \<Rightarrow> string" where
  "park_pointer execution recovery_ids =
     (case x_rec_effect execution of
        Some p \<Rightarrow> if p \<in> set recovery_ids then p else hd recovery_ids
      | None \<Rightarrow> hd recovery_ids)"

definition park_execution ::
  "exec_row \<Rightarrow> rat \<Rightarrow> string \<Rightarrow> string option \<Rightarrow> string \<Rightarrow> string list \<Rightarrow> snapshot kop" where
  "park_execution execution timestamp trigger cancel_reason requested_target recovery_ids =
     (let pointer = park_pointer execution recovery_ids in
      bind (get (find_effect pointer)) (\<lambda>pointer_row.
      bind (lift (expect pointer_row KeyErr)) (\<lambda>pointer_row.
      if x_state execution = Recovery_Required
      then repark execution timestamp trigger cancel_reason requested_target recovery_ids pointer
             (e_revision pointer_row)
      else park_now execution timestamp trigger cancel_reason requested_target recovery_ids pointer
             (e_revision pointer_row))))"

definition park_unfinished_effects ::
  "exec_row \<Rightarrow> rat \<Rightarrow> string \<Rightarrow> string option \<Rightarrow> snapshot option kop" where
  "park_unfinished_effects execution timestamp trigger cancel_reason =
     bind (if trigger = ''cancel''
           then check (optional_ok nonblank cancel_reason \<and> cancel_reason \<noteq> None) ValueErr
           else check (cancel_reason = None) ValueErr) (\<lambda>_.
     let requested_target = (if trigger = ''cancel'' then ''cancelled'' else ''queued'') in
     bind (unfinished_effect_rows (x_id execution)) (\<lambda>rows.
     if rows = [] then ret None
     else
       bind (each (park_effect timestamp trigger) rows) (\<lambda>recovery_ids.
       bind (park_execution execution timestamp trigger cancel_reason requested_target recovery_ids) (\<lambda>s.
       ret (Some s)))))"

subsection \<open>Preparing an effect\<close>

definition attempt_data :: "lease \<Rightarrow> (string \<times> pyval) list" where
  "attempt_data l = [(''attempt'', PInt (l_attempt l)), (''fence'', PInt (l_fence l))]"

definition candidate_effect :: "lease \<Rightarrow> string \<Rightarrow> string \<Rightarrow> pyval \<Rightarrow> rat \<Rightarrow> effect_record" where
  "candidate_effect l effect_id name request timestamp =
     \<lparr>e_effect_id = effect_id, e_execution_id = l_execution_id l, e_name = name,
      e_request = request, e_state = Prepared, e_lease_id = l_lease_id l, e_claim_id = None,
      e_attempt = l_attempt l, e_fence = l_fence l, e_prepared_at = timestamp,
      e_response = PNone, e_committed_at = None, e_indeterminate_at = None,
      e_recovery_id = None, e_recovery_decision = None, e_resolved_at = None, e_revision = 1\<rparr>"

definition reprepare :: "lease \<Rightarrow> effect_record \<Rightarrow> rat \<Rightarrow> effect_record kop" where
  "reprepare l existing timestamp =
     bind (authorize_managed_operation (l_execution_id l) timestamp ''effect preparation'' False) (\<lambda>_.
     bind (update_effect
             (\<lambda>x. e_effect_id x = e_effect_id existing \<and> e_state x = Not_Applied \<and>
                  e_revision x = e_revision existing)
             (\<lambda>x. x\<lparr>e_state := Prepared, e_response := PNone, e_lease_id := l_lease_id l,
                    e_claim_id := None, e_attempt := l_attempt l, e_fence := l_fence l,
                    e_prepared_at := timestamp, e_committed_at := None,
                    e_indeterminate_at := None, e_recovery_id := None,
                    e_recovery_decision := None, e_resolved_at := None,
                    e_revision := e_revision existing + 1\<rparr>)) (\<lambda>_.
     bind (get_effect (e_effect_id existing)) (\<lambda>result.
     bind (effect_event result ''reprepared_after_not_applied'' (Some ''not_applied'')
             (py_dict (attempt_data l @
                [(''prior_recovery_id'', py_optional PStr (e_recovery_id existing)),
                 (''prior_recovery_revision'', PInt (e_revision existing))])) timestamp) (\<lambda>_.
     ret result))))"

definition prepare_new :: "lease \<Rightarrow> effect_record \<Rightarrow> rat \<Rightarrow> effect_record kop" where
  "prepare_new l candidate timestamp =
     bind (authorize_managed_operation (l_execution_id l) timestamp ''effect preparation'' False) (\<lambda>_.
     bind (insert_effect (candidate\<lparr>e_request := canon (e_request candidate)\<rparr>)) (\<lambda>_.
     bind (effect_event candidate ''prepared'' None (py_dict (attempt_data l)) timestamp) (\<lambda>_.
     ret candidate)))"

definition prepare_effect_body ::
  "lease \<Rightarrow> string \<Rightarrow> string \<Rightarrow> pyval \<Rightarrow> rat \<Rightarrow> effect_record option kop" where
  "prepare_effect_body l effect_id name request timestamp =
     bind (assert_lease l timestamp [Running] False) (\<lambda>execution.
     bind (lift (mk_effect (candidate_effect l effect_id name request timestamp))) (\<lambda>candidate.
     bind (get (find_effect effect_id)) (\<lambda>row.
     case row of
       None \<Rightarrow> bind (prepare_new l candidate timestamp) (\<lambda>e. ret (Some e))
     | Some row \<Rightarrow>
         bind (lift (mk_effect row)) (\<lambda>existing.
         if e_execution_id existing \<noteq> l_execution_id l \<or> e_name existing \<noteq> e_name candidate \<or>
           e_request existing \<noteq> canon (e_request candidate) then raise EffectConflictError
         else if e_state existing = Committed then ret (Some existing)
         else if e_state existing = Not_Applied then
           bind (reprepare l existing timestamp) (\<lambda>e. ret (Some e))
         else if e_lease_id existing = l_lease_id l \<and> e_attempt existing = l_attempt l \<and>
           e_fence existing = l_fence l \<and> e_state existing \<in> {Prepared, Performing}
         then ret (Some existing)
         else if unfinished (e_state existing) \<and> e_fence existing < l_fence l then
           bind (park_unfinished_effects execution timestamp ''newer_fence_observed'' None) (\<lambda>_. ret None)
         else if e_state existing = Indeterminate then
           bind (park_unfinished_effects execution timestamp ''indeterminate_reuse'' None) (\<lambda>_. ret None)
         else raise StaleFenceError))))"

definition prepare_effect ::
  "rat \<Rightarrow> lease \<Rightarrow> string \<Rightarrow> string \<Rightarrow> pyval \<Rightarrow> kernel \<Rightarrow> (kerr + effect_record) \<times> kernel" where
  "prepare_effect wall l effect_id name request k =
     (case transaction wall (prepare_effect_body l effect_id name request) k of
        (Inl e, k') \<Rightarrow> (Inl e, k')
      | (Inr None, k') \<Rightarrow> (Inl (EffectRecoveryRequiredError effect_id), k')
      | (Inr (Some e), k') \<Rightarrow> (Inr e, k'))"

subsection \<open>Claiming, committing and marking an effect\<close>

definition effect_matches_lease :: "effect_record \<Rightarrow> lease \<Rightarrow> kerr + unit" where
  "effect_matches_lease e l =
     require (e_execution_id e = l_execution_id l \<and> e_lease_id e = l_lease_id l \<and>
       e_attempt e = l_attempt l \<and> e_fence e = l_fence l) StaleFenceError"

definition claim_matches :: "effect_record \<Rightarrow> string \<Rightarrow> kerr + unit" where
  "claim_matches e claim_id =
     rbind (require (nonblank claim_id) ValueErr) (\<lambda>_.
     require (e_claim_id e = Some claim_id) EffectClaimConflictError)"

definition claim_effect_body :: "config \<Rightarrow> lease \<Rightarrow> string \<Rightarrow> rat \<Rightarrow> effect_record kop" where
  "claim_effect_body cfg l effect_id timestamp =
     bind (assert_lease l timestamp [Running] False) (\<lambda>_.
     bind (get_effect effect_id) (\<lambda>e.
     bind (lift (effect_matches_lease e l)) (\<lambda>_.
     bind (check (e_state e \<noteq> Performing) EffectClaimConflictError) (\<lambda>_.
     bind (check (e_state e \<noteq> Indeterminate) EffectIndeterminateError) (\<lambda>_.
     bind (check (e_state e = Prepared) EffectConflictError) (\<lambda>_.
     bind (authorize_managed_operation (l_execution_id l) timestamp ''external effect claim'' False) (\<lambda>_.
     bind (uuid4 cfg) (\<lambda>claim_id.
     bind (update_effect
             (\<lambda>x. e_effect_id x = effect_id \<and> e_state x = Prepared \<and> e_claim_id x = None \<and>
                  e_revision x = e_revision e)
             (\<lambda>x. x\<lparr>e_state := Performing, e_claim_id := Some claim_id,
                    e_revision := e_revision e + 1\<rparr>)) (\<lambda>_.
     bind (get_effect effect_id) (\<lambda>claimed.
     bind (effect_event claimed ''perform_claimed'' (Some ''prepared'')
             (py_dict ((''claim_id'', PStr claim_id) # attempt_data l)) timestamp) (\<lambda>_.
     ret claimed)))))))))))"

definition claim_effect ::
  "config \<Rightarrow> rat \<Rightarrow> lease \<Rightarrow> string \<Rightarrow> kernel \<Rightarrow> (kerr + effect_record) \<times> kernel" where
  "claim_effect cfg wall l effect_id k =
     (if nonblank effect_id then transaction wall (claim_effect_body cfg l effect_id) k
      else (Inl ValueErr, k))"

definition commit_effect_body :: "string \<Rightarrow> pyval \<Rightarrow> lease \<Rightarrow> string \<Rightarrow> rat \<Rightarrow> effect_record kop" where
  "commit_effect_body effect_id response l claim_id timestamp =
     bind (assert_lease l timestamp [Running] False) (\<lambda>_.
     bind (get_effect effect_id) (\<lambda>e.
     bind (lift (effect_matches_lease e l)) (\<lambda>_.
     bind (lift (claim_matches e claim_id)) (\<lambda>_.
     if e_state e = Committed then
       bind (lift (encode_json response)) (\<lambda>encoded.
       if e_response e \<noteq> encoded then raise EffectConflictError else ret e)
     else
     bind (check (e_state e \<noteq> Indeterminate) EffectIndeterminateError) (\<lambda>_.
     bind (check (e_state e = Performing) EffectConflictError) (\<lambda>_.
     bind (authorize_managed_operation (l_execution_id l) timestamp ''effect commit'' True) (\<lambda>_.
     bind (lift (mk_effect (e\<lparr>e_state := Committed, e_claim_id := Some claim_id,
             e_response := response, e_committed_at := Some timestamp,
             e_revision := e_revision e + 1\<rparr>))) (\<lambda>validated.
     bind (update_effect
             (\<lambda>x. e_effect_id x = effect_id \<and> e_state x = Performing \<and>
                  e_claim_id x = Some claim_id \<and> e_revision x = e_revision e)
             (\<lambda>x. x\<lparr>e_state := Committed, e_response := canon (e_response validated),
                    e_committed_at := Some timestamp, e_revision := e_revision validated\<rparr>)) (\<lambda>_.
     bind (get_effect effect_id) (\<lambda>committed.
     bind (effect_event committed ''committed'' (Some ''performing'')
             (py_dict [(''claim_id'', PStr claim_id)]) timestamp) (\<lambda>_.
     ret committed)))))))))))"

definition commit_effect ::
  "rat \<Rightarrow> string \<Rightarrow> pyval \<Rightarrow> lease \<Rightarrow> string \<Rightarrow> kernel \<Rightarrow> (kerr + effect_record) \<times> kernel" where
  "commit_effect wall effect_id response l claim_id =
     transaction wall (commit_effect_body effect_id response l claim_id)"

definition mark_effect_indeterminate_body ::
  "string \<Rightarrow> pyval \<Rightarrow> lease \<Rightarrow> string \<Rightarrow> rat \<Rightarrow> effect_record kop" where
  "mark_effect_indeterminate_body effect_id dets l claim_id timestamp =
     bind (assert_lease l timestamp [Running] False) (\<lambda>_.
     bind (get_effect effect_id) (\<lambda>e.
     bind (lift (effect_matches_lease e l)) (\<lambda>_.
     bind (lift (claim_matches e claim_id)) (\<lambda>_.
     if e_state e = Indeterminate then
       bind (lift (encode_json dets)) (\<lambda>encoded.
       if e_response e \<noteq> encoded then raise EffectConflictError else ret e)
     else
     bind (check (e_state e \<noteq> Committed) EffectConflictError) (\<lambda>_.
     bind (check (e_state e = Performing) EffectConflictError) (\<lambda>_.
     bind (authorize_managed_operation (l_execution_id l) timestamp
             ''effect uncertainty recording'' True) (\<lambda>_.
     bind (lift (mk_effect (e\<lparr>e_state := Indeterminate, e_claim_id := Some claim_id,
             e_response := dets, e_committed_at := None, e_indeterminate_at := Some timestamp,
             e_recovery_id := None, e_recovery_decision := None, e_resolved_at := None,
             e_revision := e_revision e + 1\<rparr>))) (\<lambda>validated.
     bind (update_effect
             (\<lambda>x. e_effect_id x = effect_id \<and> e_state x = Performing \<and>
                  e_claim_id x = Some claim_id \<and> e_revision x = e_revision e)
             (\<lambda>x. x\<lparr>e_state := Indeterminate, e_response := canon (e_response validated),
                    e_indeterminate_at := Some timestamp, e_recovery_id := None,
                    e_recovery_decision := None, e_resolved_at := None,
                    e_revision := e_revision validated\<rparr>)) (\<lambda>_.
     bind (get_effect effect_id) (\<lambda>uncertain.
     bind (effect_event uncertain ''marked_indeterminate'' (Some ''performing'')
             (py_dict [(''claim_id'', PStr claim_id), (''details'', dets)]) timestamp) (\<lambda>_.
     ret uncertain)))))))))))"

definition mark_effect_indeterminate ::
  "rat \<Rightarrow> string \<Rightarrow> pyval \<Rightarrow> lease \<Rightarrow> string \<Rightarrow> kernel \<Rightarrow> (kerr + effect_record) \<times> kernel" where
  "mark_effect_indeterminate wall effect_id dets l claim_id =
     transaction wall (mark_effect_indeterminate_body effect_id dets l claim_id)"

end
