(* ===== verification/Outbox.thy ===== *)
theory Outbox
  imports Effects
begin

text \<open>
  The delivery of terminal results, \<open>_sqlite_outbox.py\<close>: a fenced state machine pending,
  delivering, delivered, dead (\<open>Undeliverable\<close> here) with leases, a bounded number of
  attempts, expiry, and the explicit reopening of a dead delivery.
\<close>

definition insert_result_outbox :: "config \<Rightarrow> exec_result \<Rightarrow> rat \<Rightarrow> unit kop" where
  "insert_result_outbox cfg result timestamp =
     bind (get (\<lambda>k. List.find (\<lambda>o'. o_result_id o' = r_result_id result \<or>
              o_execution_id o' = r_execution_id result) (outbox k))) (\<lambda>existing.
     case existing of
       Some o' \<Rightarrow>
         if o_result_id o' = r_result_id result \<and> o_execution_id o' = r_execution_id result \<and>
           o_result o' = canon_result result then ret ()
         else raise ResultConflictError
     | None \<Rightarrow>
         insert_outbox \<lparr>o_result_id = r_result_id result, o_execution_id = r_execution_id result,
           o_result = canon_result result, o_state = Pending, o_lease_id = None, o_lease_owner = None,
           o_fence = 0, o_attempts = 0, o_max_attempts = outbox_max_attempts cfg,
           o_lease_expires = None, o_next_at = timestamp, o_last_error = None, o_revision = 1,
           o_created = timestamp, o_updated = timestamp\<rparr>)"

text \<open>\<open>_outbox_record\<close> reads every column; the result and the error are parsed contracts.\<close>

definition outbox_record :: "outbox_row \<Rightarrow> kerr + outbox_row" where
  "outbox_record o' =
     (if result_ok (o_result o') \<and> optional_ok error_ok (o_last_error o') then Inr o'
      else Inl ContractValidationError)"

definition load_outbox_row :: "string \<Rightarrow> outbox_row kop" where
  "load_outbox_row result_id =
     bind (get (find_outbox result_id)) (\<lambda>o'. bind (lift (expect o' KeyErr)) ret)"

definition outbox_order :: "outbox_row \<Rightarrow> rat \<times> string" where
  "outbox_order o' = (o_created o', o_result_id o')"

definition result_outbox :: "outbox_state list option \<Rightarrow> int \<Rightarrow> outbox_row list kop" where
  "result_outbox states limit =
     bind (check (1 \<le> limit) ValueErr) (\<lambda>_.
     let selected = (case states of None \<Rightarrow> [Pending, Delivering, Delivered, Undeliverable] | Some ss \<Rightarrow> ss) in
     bind (check (selected \<noteq> []) ValueErr) (\<lambda>_.
     bind (get outbox) (\<lambda>os.
     lift (map_result outbox_record
       (take (nat limit) (sql_select (\<lambda>o'. o_state o' \<in> set selected) outbox_order os))))))"

definition load_result_outbox :: "string \<Rightarrow> outbox_row kop" where
  "load_result_outbox result_id =
     bind (check (nonblank result_id) ValueErr) (\<lambda>_.
     bind (load_outbox_row result_id) (\<lambda>o'. lift (outbox_record o')))"

record outbox_status =
  os_pending :: nat
  os_delivering :: nat
  os_dead :: nat
  os_oldest_pending_at :: "rat option"

definition result_outbox_status :: "string list option \<Rightarrow> outbox_status kop" where
  "result_outbox_status execution_ids =
     bind (case execution_ids of
             None \<Rightarrow> ret ()
           | Some ids \<Rightarrow> check (list_all nonblank ids \<and> distinct ids) ValueErr) (\<lambda>_.
     bind (get outbox) (\<lambda>os.
     let visible = filter (\<lambda>o'. o_state o' \<noteq> Delivered \<and>
           (case execution_ids of None \<Rightarrow> True | Some ids \<Rightarrow> o_execution_id o' \<in> set ids)) os;
         pending = filter (\<lambda>o'. o_state o' = Pending) visible in
     ret \<lparr>os_pending = length pending,
          os_delivering = length (filter (\<lambda>o'. o_state o' = Delivering) visible),
          os_dead = length (filter (\<lambda>o'. o_state o' = Undeliverable) visible),
          os_oldest_pending_at =
            (case pending of [] \<Rightarrow> None | p # ps \<Rightarrow> Some (fold (\<lambda>q. min (o_created q)) ps (o_created p)))\<rparr>))"

subsection \<open>Reopening, expiry and claiming\<close>

definition at_revision :: "string \<Rightarrow> outbox_state \<Rightarrow> int \<Rightarrow> outbox_row \<Rightarrow> bool" where
  "at_revision result_id st revision o' \<longleftrightarrow>
     o_result_id o' = result_id \<and> o_state o' = st \<and> o_revision o' = revision"

definition retry_result_outbox_body :: "string \<Rightarrow> int \<Rightarrow> rat \<Rightarrow> outbox_row kop" where
  "retry_result_outbox_body result_id expected_revision timestamp =
     bind (load_outbox_row result_id) (\<lambda>row.
     if o_state row = Pending \<and> o_revision row = expected_revision + 1 \<and> o_attempts row = 0 \<and>
       o_last_error row = None then lift (outbox_record row)
     else
     bind (check (o_revision row = expected_revision) StaleFenceError) (\<lambda>_.
     bind (check (o_state row = Undeliverable) ValueErr) (\<lambda>_.
     bind (update_outbox (at_revision result_id Undeliverable expected_revision)
             (\<lambda>x. x\<lparr>o_state := Pending, o_lease_id := None, o_lease_owner := None,
                    o_lease_expires := None, o_attempts := 0, o_next_at := timestamp,
                    o_last_error := None, o_revision := expected_revision + 1,
                    o_updated := timestamp\<rparr>)) (\<lambda>_.
     bind (load_outbox_row result_id) (\<lambda>row. lift (outbox_record row))))))"

definition retry_result_outbox :: "rat \<Rightarrow> string \<Rightarrow> int \<Rightarrow> kernel \<Rightarrow> (kerr + outbox_row) \<times> kernel" where
  "retry_result_outbox wall result_id expected_revision k =
     (if \<not> nonblank result_id \<or> expected_revision < 1 then (Inl ValueErr, k)
      else transaction wall (retry_result_outbox_body result_id expected_revision) k)"

definition expired_error :: "bool \<Rightarrow> int \<Rightarrow> exec_error" where
  "expired_error retry attempts =
     \<lparr>code = ''outbox_lease_expired'', message = ''result delivery lease expired'',
      retryable = retry, details = py_dict [(''attempts'', PInt attempts)]\<rparr>"

definition reap_outbox_row :: "rat \<Rightarrow> outbox_row \<Rightarrow> string kop" where
  "reap_outbox_row timestamp row =
     (let st = (if o_max_attempts row \<le> o_attempts row then Undeliverable else Pending) in
      bind (update_outbox (at_revision (o_result_id row) Delivering (o_revision row))
              (\<lambda>x. x\<lparr>o_state := st, o_lease_expires := None, o_next_at := timestamp,
                     o_last_error := Some (expired_error (st = Pending) (o_attempts row)),
                     o_revision := o_revision row + 1, o_updated := timestamp\<rparr>)) (\<lambda>_.
      ret (o_result_id row)))"

definition delivery_expired :: "rat \<Rightarrow> outbox_row \<Rightarrow> bool" where
  "delivery_expired timestamp o' \<longleftrightarrow>
     o_state o' = Delivering \<and> (case o_lease_expires o' of None \<Rightarrow> False | Some e \<Rightarrow> e \<le> timestamp)"

definition reap_outbox_in_transaction :: "rat \<Rightarrow> string list kop" where
  "reap_outbox_in_transaction timestamp =
     bind (get outbox) (\<lambda>os.
     each (reap_outbox_row timestamp) (sql_select (delivery_expired timestamp) outbox_order os))"

definition reap_outbox :: "rat \<Rightarrow> kernel \<Rightarrow> (kerr + outbox_row list) \<times> kernel" where
  "reap_outbox wall =
     transaction wall (\<lambda>timestamp.
       bind (reap_outbox_in_transaction timestamp) (\<lambda>ids.
       each (\<lambda>i. bind (load_outbox_row i) (\<lambda>row. lift (outbox_record row))) ids))"

definition exhaust_outbox_row :: "rat \<Rightarrow> outbox_row \<Rightarrow> unit kop" where
  "exhaust_outbox_row timestamp row =
     update_outbox (at_revision (o_result_id row) Pending (o_revision row))
       (\<lambda>x. x\<lparr>o_state := Undeliverable, o_revision := o_revision row + 1, o_updated := timestamp\<rparr>)"

definition claim_outbox_row :: "config \<Rightarrow> string \<Rightarrow> rat \<Rightarrow> outbox_row \<Rightarrow> rat \<Rightarrow> outbox_row kop" where
  "claim_outbox_row cfg owner duration row timestamp =
     bind (uuid4 cfg) (\<lambda>lease_id.
     bind (lift (checked_add timestamp duration)) (\<lambda>expires_at.
     bind (update_outbox (at_revision (o_result_id row) Pending (o_revision row))
             (\<lambda>x. x\<lparr>o_state := Delivering, o_lease_id := Some lease_id,
                    o_lease_owner := Some owner, o_fence := o_fence row + 1,
                    o_attempts := o_attempts row + 1, o_lease_expires := Some expires_at,
                    o_revision := o_revision row + 1, o_updated := timestamp\<rparr>)) (\<lambda>_.
     bind (load_outbox_row (o_result_id row)) (\<lambda>claimed. lift (outbox_record claimed)))))"

definition claim_outbox_body :: "config \<Rightarrow> string \<Rightarrow> rat \<Rightarrow> rat \<Rightarrow> outbox_row option kop" where
  "claim_outbox_body cfg owner duration timestamp =
     bind (reap_outbox_in_transaction timestamp) (\<lambda>_.
     bind (get outbox) (\<lambda>os.
     bind (each (exhaust_outbox_row timestamp)
             (sql_select (\<lambda>o'. o_state o' = Pending \<and> o_max_attempts o' \<le> o_attempts o')
                outbox_order os)) (\<lambda>_.
     bind (get outbox) (\<lambda>os.
     case sql_select (\<lambda>o'. o_state o' = Pending \<and> o_attempts o' < o_max_attempts o' \<and>
            o_next_at o' \<le> timestamp) outbox_order os of
       [] \<Rightarrow> ret None
     | row # _ \<Rightarrow>
         bind (claim_outbox_row cfg owner duration row timestamp) (\<lambda>claimed. ret (Some claimed))))))"

definition claim_outbox ::
  "config \<Rightarrow> rat \<Rightarrow> string \<Rightarrow> pyval option \<Rightarrow> kernel \<Rightarrow> (kerr + outbox_row option) \<times> kernel" where
  "claim_outbox cfg wall owner lease_seconds k =
     (if \<not> nonblank owner then (Inl ValueErr, k)
      else case lease_duration cfg lease_seconds of
             Inl e \<Rightarrow> (Inl e, k)
           | Inr duration \<Rightarrow>
               if \<not> list_ex (\<lambda>o'. o_state o' \<in> {Pending, Delivering}) (outbox k) then (Inr None, k)
               else transaction wall (claim_outbox_body cfg owner duration) k)"

subsection \<open>Acknowledging, renewing and releasing a delivery\<close>

definition delivery_identity :: "string \<Rightarrow> string \<Rightarrow> int \<Rightarrow> kerr + unit" where
  "delivery_identity result_id lease_id fnc =
     rbind (require (result_id \<noteq> []) ValueErr) (\<lambda>_.
     rbind (require (lease_id \<noteq> []) ValueErr) (\<lambda>_.
     require (1 \<le> fnc) ValueErr))"

definition held_by :: "outbox_row \<Rightarrow> string \<Rightarrow> int \<Rightarrow> bool" where
  "held_by o' lease_id fnc \<longleftrightarrow> o_lease_id o' = Some lease_id \<and> o_fence o' = fnc"

text \<open>The delivery is live and held under this lease and fence.\<close>

definition live_delivery :: "outbox_row \<Rightarrow> string \<Rightarrow> int \<Rightarrow> rat \<Rightarrow> bool" where
  "live_delivery o' lease_id fnc timestamp \<longleftrightarrow>
     o_state o' = Delivering \<and> held_by o' lease_id fnc \<and>
     (case o_lease_expires o' of None \<Rightarrow> False | Some e \<Rightarrow> timestamp < e)"

definition ack_outbox_body :: "string \<Rightarrow> string \<Rightarrow> int \<Rightarrow> rat \<Rightarrow> outbox_row kop" where
  "ack_outbox_body result_id lease_id fnc timestamp =
     bind (load_outbox_row result_id) (\<lambda>row.
     if o_state row = Delivered \<and> held_by row lease_id fnc then lift (outbox_record row)
     else
     bind (check (live_delivery row lease_id fnc timestamp) StaleFenceError) (\<lambda>_.
     bind (update_outbox (at_revision result_id Delivering (o_revision row))
             (\<lambda>x. x\<lparr>o_state := Delivered, o_lease_expires := None,
                    o_revision := o_revision row + 1, o_updated := timestamp\<rparr>)) (\<lambda>_.
     bind (load_outbox_row result_id) (\<lambda>row. lift (outbox_record row)))))"

definition ack_outbox ::
  "rat \<Rightarrow> string \<Rightarrow> string \<Rightarrow> int \<Rightarrow> kernel \<Rightarrow> (kerr + outbox_row) \<times> kernel" where
  "ack_outbox wall result_id lease_id fnc k =
     (case delivery_identity result_id lease_id fnc of
        Inl e \<Rightarrow> (Inl e, k)
      | Inr _ \<Rightarrow> transaction wall (ack_outbox_body result_id lease_id fnc) k)"

definition renew_outbox_body :: "string \<Rightarrow> string \<Rightarrow> int \<Rightarrow> rat \<Rightarrow> rat \<Rightarrow> outbox_row kop" where
  "renew_outbox_body result_id lease_id fnc duration timestamp =
     bind (load_outbox_row result_id) (\<lambda>row.
     bind (check (live_delivery row lease_id fnc timestamp) StaleFenceError) (\<lambda>_.
     bind (lift (checked_add timestamp duration)) (\<lambda>expires_at.
     bind (update_outbox (at_revision result_id Delivering (o_revision row))
             (\<lambda>x. x\<lparr>o_lease_expires := Some expires_at, o_revision := o_revision row + 1,
                    o_updated := timestamp\<rparr>)) (\<lambda>_.
     bind (load_outbox_row result_id) (\<lambda>row. lift (outbox_record row))))))"

definition renew_outbox ::
  "config \<Rightarrow> rat \<Rightarrow> string \<Rightarrow> string \<Rightarrow> int \<Rightarrow> pyval option \<Rightarrow> kernel \<Rightarrow> (kerr + outbox_row) \<times> kernel" where
  "renew_outbox cfg wall result_id lease_id fnc lease_seconds k =
     (case delivery_identity result_id lease_id fnc of
        Inl e \<Rightarrow> (Inl e, k)
      | Inr _ \<Rightarrow>
          (case lease_duration cfg lease_seconds of
             Inl e \<Rightarrow> (Inl e, k)
           | Inr duration \<Rightarrow> transaction wall (renew_outbox_body result_id lease_id fnc duration) k))"

definition release_outbox_body ::
  "string \<Rightarrow> string \<Rightarrow> int \<Rightarrow> exec_error \<Rightarrow> rat \<Rightarrow> rat \<Rightarrow> outbox_row kop" where
  "release_outbox_body result_id lease_id fnc err delay timestamp =
     bind (load_outbox_row result_id) (\<lambda>row.
     if o_state row \<in> {Pending, Undeliverable} \<and> held_by row lease_id fnc then
       (if o_last_error row = Some (canon_error err) then lift (outbox_record row)
        else raise StaleFenceError)
     else
     bind (check (live_delivery row lease_id fnc timestamp) StaleFenceError) (\<lambda>_.
     let st = (if retryable err \<and> o_attempts row < o_max_attempts row then Pending else Undeliverable) in
     bind (lift (checked_add timestamp delay)) (\<lambda>next_at.
     bind (update_outbox (at_revision result_id Delivering (o_revision row))
             (\<lambda>x. x\<lparr>o_state := st, o_lease_expires := None, o_next_at := next_at,
                    o_last_error := Some (canon_error err), o_revision := o_revision row + 1,
                    o_updated := timestamp\<rparr>)) (\<lambda>_.
     bind (load_outbox_row result_id) (\<lambda>row. lift (outbox_record row))))))"

definition release_outbox ::
  "rat \<Rightarrow> string \<Rightarrow> exec_error \<Rightarrow> string \<Rightarrow> int \<Rightarrow> pyval \<Rightarrow> kernel \<Rightarrow> (kerr + outbox_row) \<times> kernel" where
  "release_outbox wall result_id err lease_id fnc delay_seconds k =
     (case nonnegative_duration delay_seconds of
        Inl e \<Rightarrow> (Inl e, k)
      | Inr delay \<Rightarrow>
          (case delivery_identity result_id lease_id fnc of
             Inl e \<Rightarrow> (Inl e, k)
           | Inr _ \<Rightarrow> transaction wall (release_outbox_body result_id lease_id fnc err delay) k))"

end
