(* ===== verification/Completion.thy ===== *)
theory Completion
  imports Outbox
begin

text \<open>
  The ways an execution ends, \<open>_sqlite_completion.py\<close>: the terminal write with its event
  and its outbox row (\<open>_terminal\<close>), completion under a lease with retry scheduling
  (\<open>_complete_result\<close> without a budget envelope and without a host reconciliation), the
  handler's recovery signal, the dead letter and the cancellation.
\<close>

text \<open>A status name is not an event name, so \<open>reduce_state\<close> takes it as the requested state.\<close>

definition reduce_status :: "xstate \<Rightarrow> xstate \<Rightarrow> kerr + xstate" where
  "reduce_status s t = (if t \<in> set (moves s) then Inr t else Inl InvalidStateTransitionError)"

lemma reduce_status_names:
  assumes "terminal t"
  shows "reduce_state (xname s) (xname t) =
     (case reduce_status s t of Inl x \<Rightarrow> Inl x | Inr u \<Rightarrow> Inr (xname u))"
proof -
  have e: "map_of EVENT_TARGETS (xname t) = None" using assms by (cases t) (simp_all add: EVENT_TARGETS_def)
  have s: "xname s \<in> set EXECUTION_STATES" using all_states by (simp add: EXECUTION_STATES_names)
  show ?thesis
    by (auto simp: reduce_state_def reduce_status_def e s can_transition_xname image_iff Let_def)
qed

definition write_terminal :: "config \<Rightarrow> exec_row \<Rightarrow> exec_result \<Rightarrow> string \<Rightarrow> rat \<Rightarrow> snapshot kop" where
  "write_terminal cfg row result event_type timestamp =
     bind (lift (reduce_status (x_state row) (r_status result))) (\<lambda>tgt.
     let revision = x_revision row + 1 in
     bind (update_exec
             (\<lambda>x. x_id x = x_id row \<and> x_state x = x_state row \<and> x_revision x = x_revision row)
             (\<lambda>x. x\<lparr>x_state := tgt, x_result := Some (canon_result result), x_lease_id := None,
                    x_lease_owner := None, x_lease_expires := None,
                    x_started := Some (r_started_at result), x_rec_effect := None,
                    x_rec_target := None, x_rec_reason := None, x_revision := revision,
                    x_updated := timestamp\<rparr>)) (\<lambda>_.
     bind (append_event (x_id row) revision event_type (Some (x_state row)) tgt
             (py_dict [(''result'', result_to_dict result)]) timestamp) (\<lambda>_.
     bind (insert_result_outbox cfg result timestamp) (\<lambda>_.
     get_snapshot (x_id row)))))"

definition make_terminal :: "config \<Rightarrow> exec_row \<Rightarrow> exec_result \<Rightarrow> string \<Rightarrow> rat \<Rightarrow> snapshot kop" where
  "make_terminal cfg row result event_type timestamp =
     bind (park_unfinished_effects row timestamp (''before_terminal:'' @ event_type) None) (\<lambda>parked.
     case parked of
       Some s \<Rightarrow> ret s
     | None \<Rightarrow> write_terminal cfg row result event_type timestamp)"

definition mk_result_typed :: "exec_result \<Rightarrow> kerr + exec_result" where
  "mk_result_typed r = (if result_ok r then Inr r else Inl ContractValidationError)"

definition mk_error_typed :: "exec_error \<Rightarrow> kerr + exec_error" where
  "mk_error_typed e = (if error_ok e then Inr e else Inl ContractValidationError)"

definition started_or :: "exec_row \<Rightarrow> rat \<Rightarrow> rat" where
  "started_or row timestamp = (case x_started row of None \<Rightarrow> timestamp | Some s \<Rightarrow> s)"

text \<open>\<open>result_id or uuid4().hex\<close>: an absent or an empty identifier draws a fresh one.\<close>

definition dead_result ::
  "config \<Rightarrow> exec_row \<Rightarrow> command \<Rightarrow> rat \<Rightarrow> string \<Rightarrow> string \<Rightarrow> pyval \<Rightarrow> string option \<Rightarrow> string list \<Rightarrow>
   exec_result kop" where
  "dead_result cfg row cmd timestamp cd msg dets result_id effect_ids =
     bind (case result_id of
             Some i \<Rightarrow> if i \<noteq> [] then ret i else uuid4 cfg
           | None \<Rightarrow> uuid4 cfg) (\<lambda>i.
     bind (lift (mk_error_typed \<lparr>code = cd, message = msg, retryable = False, details = dets\<rparr>)) (\<lambda>err.
     lift (mk_result_typed
       \<lparr>r_result_id = i, r_execution_id = x_id row, r_status = Dead, r_attempt = x_attempt row,
        r_fence = x_fence row, r_effect_ids = effect_ids, r_started_at = started_or row timestamp,
        r_completed_at = timestamp, r_correlation_id = c_correlation_id cmd,
        r_causation_id = c_causation_id cmd, r_value = PNone, r_error = Some err\<rparr>)))"

definition cancelled_result ::
  "config \<Rightarrow> exec_row \<Rightarrow> command \<Rightarrow> rat \<Rightarrow> string \<Rightarrow> string list \<Rightarrow> exec_result kop" where
  "cancelled_result cfg row cmd timestamp reason effect_ids =
     bind (uuid4 cfg) (\<lambda>i.
     bind (lift (mk_error_typed \<lparr>code = ''cancelled'', message = reason, retryable = False,
             details = py_dict []\<rparr>)) (\<lambda>err.
     lift (mk_result_typed
       \<lparr>r_result_id = i, r_execution_id = x_id row, r_status = Cancelled,
        r_attempt = x_attempt row, r_fence = x_fence row, r_effect_ids = effect_ids,
        r_started_at = started_or row timestamp, r_completed_at = timestamp,
        r_correlation_id = c_correlation_id cmd, r_causation_id = c_causation_id cmd,
        r_value = PNone, r_error = Some err\<rparr>)))"

definition execution_effect_ids :: "string \<Rightarrow> string list kop" where
  "execution_effect_ids execution_id =
     bind (get effects) (\<lambda>es.
     ret (List.map e_effect_id (filter (\<lambda>e. e_state e = Committed)
       (sql_select (\<lambda>e. e_execution_id e = execution_id) e_effect_id es))))"

definition validate_result :: "exec_row \<Rightarrow> lease \<Rightarrow> exec_result \<Rightarrow> rat \<Rightarrow> command kop" where
  "validate_result row l result timestamp =
     (let cmd = x_command row in
     bind (check (r_execution_id result = l_execution_id l \<and> r_attempt result = x_attempt row \<and>
             r_attempt result = l_attempt l \<and> r_fence result = x_fence row \<and>
             r_fence result = l_fence l \<and> r_correlation_id result = c_correlation_id cmd \<and>
             r_causation_id result = c_causation_id cmd \<and>
             x_started row = Some (r_started_at result)) StaleFenceError) (\<lambda>_.
     bind (check (r_completed_at result \<le> timestamp \<and> r_completed_at result \<le> l_expires_at l)
             StaleFenceError) (\<lambda>_.
     bind (get effects) (\<lambda>es.
     bind (check (\<forall>i \<in> set (r_effect_ids result). \<exists>e \<in> set es. e_effect_id e = i \<and>
             e_execution_id e = l_execution_id l \<and>
             e_state e \<in> {Committed, Prepared, Performing, Indeterminate}) StaleFenceError) (\<lambda>_.
     ret cmd)))))"

definition is_retryable :: "exec_result \<Rightarrow> command \<Rightarrow> bool" where
  "is_retryable result cmd =
     (let flag = (case r_error result of None \<Rightarrow> False | Some e \<Rightarrow> retryable e) in
      if r_status result = Failed then flag
      else if r_status result = Timed_Out then flag \<and> retry_timeouts (c_retry_policy cmd)
      else False)"

text \<open>A retryable result either schedules the next attempt or exhausts the policy.\<close>

definition retry_delay :: "config \<Rightarrow> command \<Rightarrow> int \<Rightarrow> rat \<Rightarrow> kerr + rat" where
  "retry_delay cfg cmd att timestamp =
     rbind (delay_for_attempt (pow cfg) (c_retry_policy cmd) att) (\<lambda>delay. checked_add timestamp delay)"

definition schedule_retry :: "config \<Rightarrow> exec_row \<Rightarrow> command \<Rightarrow> exec_result \<Rightarrow> rat \<Rightarrow> snapshot kop" where
  "schedule_retry cfg row cmd result timestamp =
     bind (lift (reduce (x_state row) Ev_retry)) (\<lambda>_.
     let revision = x_revision row + 1; redeliveries = x_redeliveries row + 1 in
     bind (lift (retry_delay cfg cmd (x_attempt row) timestamp)) (\<lambda>next_at.
     bind (update_exec
             (\<lambda>x. x_id x = x_id row \<and> x_state x = Running \<and> x_revision x = x_revision row)
             (\<lambda>x. x\<lparr>x_state := Queued, x_redeliveries := redeliveries, x_next_at := next_at,
                    x_lease_id := None, x_lease_owner := None, x_lease_expires := None,
                    x_started := None, x_rec_effect := None, x_revision := revision,
                    x_updated := timestamp\<rparr>)) (\<lambda>_.
     bind (append_event (x_id row) revision ''retry_scheduled'' (Some Running) Queued
             (py_dict [(''result'', result_to_dict result), (''next_attempt_at'', PFin next_at)])
             timestamp) (\<lambda>_.
     get_snapshot (x_id row)))))"

definition exhaust_retries :: "config \<Rightarrow> exec_row \<Rightarrow> command \<Rightarrow> exec_result \<Rightarrow> rat \<Rightarrow> snapshot kop" where
  "exhaust_retries cfg row cmd result timestamp =
     bind (execution_effect_ids (x_id row)) (\<lambda>ids.
     bind (dead_result cfg row cmd timestamp ''retry_exhausted''
             ''retryable result exhausted the attempt budget''
             (py_dict [(''max_attempts'', PInt (max_attempts (c_retry_policy cmd))),
                       (''last_result'', result_to_dict result)])
             (Some (r_result_id result)) ids) (\<lambda>dead.
     make_terminal cfg row dead ''retry_exhausted_dead'' timestamp))"

text \<open>
  What the SDK knows of the supervisor process when it settles a result: nothing, a
  confirmed cleanup, or that it was not invoked (with a registration that may be missing).
\<close>

datatype supervisor = Supervisor_Unknown | Cleanup_Confirmed | Not_Invoked bool

definition resolution_record :: "supervisor \<Rightarrow> exec_result \<Rightarrow> pyval" where
  "resolution_record superv result = canon (py_dict
     [(''source'', PStr (case superv of Not_Invoked _ \<Rightarrow> ''sdk_supervisor_not_invoked''
                         | _ \<Rightarrow> ''sdk_confirmed_supervisor_cleanup'')),
      (''result_id'', PStr (r_result_id result)), (''status'', PStr (xname (r_status result)))])"

definition obligation_key :: "obligation \<Rightarrow> string \<times> int \<times> int" where
  "obligation_key so = (so_execution_id so, so_attempt so, so_fence so)"

definition resolve_supervisor :: "supervisor \<Rightarrow> lease \<Rightarrow> exec_result \<Rightarrow> unit kop" where
  "resolve_supervisor superv l result =
     (let key = (l_execution_id l, l_attempt l, l_fence l); resolution = resolution_record superv result in
      bind (get (\<lambda>k. sql_find obligation_key key (obligations k))) (\<lambda>so.
      case so of
        None \<Rightarrow> if superv = Not_Invoked True then ret () else raise CASConflictError
      | Some so \<Rightarrow>
          if so_resolution so \<noteq> None \<and> so_resolution so \<noteq> Some resolution then raise CASConflictError
          else modify (\<lambda>k. k\<lparr>obligations :=
            List.map (\<lambda>x. if obligation_key x = key \<and> so_resolution x = None
                     then x\<lparr>so_resolution := Some resolution\<rparr> else x) (obligations k)\<rparr>)))"

definition managed_deadline_elapsed :: "string \<Rightarrow> rat \<Rightarrow> kernel \<Rightarrow> bool" where
  "managed_deadline_elapsed execution_id timestamp k =
     (case find_managed execution_id k of
        None \<Rightarrow> False
      | Some m \<Rightarrow> (case find_control (m_run_id m) k of
                     None \<Rightarrow> False
                   | Some c \<Rightarrow> rc_deadline c \<le> timestamp))"

text \<open>A result for an execution that has ended already: only the same result is accepted.\<close>

definition complete_terminal :: "exec_row \<Rightarrow> lease \<Rightarrow> exec_result \<Rightarrow> supervisor \<Rightarrow> snapshot kop" where
  "complete_terminal row l result superv =
     (if x_result row = Some (canon_result result) then
        bind (if superv = Supervisor_Unknown then ret ()
              else bind (check (x_attempt row = l_attempt l \<and> x_fence row = l_fence l) CASConflictError)
                     (\<lambda>_. resolve_supervisor superv l result)) (\<lambda>_.
        lift (snapshot row))
      else if map_option r_result_id (x_result row) = Some (r_result_id result)
      then raise ResultConflictError
      else raise InvalidStateTransitionError)"

definition complete_live ::
  "config \<Rightarrow> lease \<Rightarrow> exec_result \<Rightarrow> bool \<Rightarrow> supervisor \<Rightarrow> rat \<Rightarrow> snapshot kop" where
  "complete_live cfg l result settlement superv timestamp =
     bind (assert_lease l timestamp [Running] settlement) (\<lambda>row.
     bind (authorize_managed_operation (l_execution_id l) timestamp ''execution completion'' True) (\<lambda>_.
     bind (validate_result row l result timestamp) (\<lambda>cmd.
     bind (park_unfinished_effects row timestamp (''complete:'' @ xname (r_status result)) None) (\<lambda>parked.
     case parked of
       Some s \<Rightarrow> ret s
     | None \<Rightarrow>
         bind (if superv = Supervisor_Unknown then ret () else resolve_supervisor superv l result) (\<lambda>_.
         bind (get (managed_deadline_elapsed (l_execution_id l) timestamp)) (\<lambda>elapsed.
         if is_retryable result cmd \<and> \<not> elapsed then
           (if max_attempts (c_retry_policy cmd) \<le> x_attempt row
            then exhaust_retries cfg row cmd result timestamp
            else schedule_retry cfg row cmd result timestamp)
         else make_terminal cfg row result (xname (r_status result)) timestamp))))))"

definition complete_body ::
  "config \<Rightarrow> lease \<Rightarrow> exec_result \<Rightarrow> bool \<Rightarrow> supervisor \<Rightarrow> rat \<Rightarrow> snapshot kop" where
  "complete_body cfg l result settlement superv timestamp =
     bind (get_row (l_execution_id l)) (\<lambda>row.
     if terminal (x_state row) then complete_terminal row l result superv
     else complete_live cfg l result settlement superv timestamp)"

definition complete_result ::
  "config \<Rightarrow> rat \<Rightarrow> lease \<Rightarrow> exec_result \<Rightarrow> bool \<Rightarrow> supervisor \<Rightarrow> kernel \<Rightarrow> (kerr + snapshot) \<times> kernel" where
  "complete_result cfg wall l result settlement superv =
     transaction wall (complete_body cfg l result settlement superv)"

definition complete :: "config \<Rightarrow> rat \<Rightarrow> lease \<Rightarrow> exec_result \<Rightarrow> kernel \<Rightarrow> (kerr + snapshot) \<times> kernel" where
  "complete cfg wall l result = complete_result cfg wall l result False Supervisor_Unknown"

definition restore_completion ::
  "config \<Rightarrow> rat \<Rightarrow> lease \<Rightarrow> exec_result \<Rightarrow> kernel \<Rightarrow> (kerr + snapshot) \<times> kernel" where
  "restore_completion cfg wall l result = complete_result cfg wall l result True Supervisor_Unknown"

subsection \<open>The recovery signal and the dead letter\<close>

definition require_effect_recovery_body :: "lease \<Rightarrow> string \<Rightarrow> bool \<Rightarrow> rat \<Rightarrow> snapshot kop" where
  "require_effect_recovery_body l effect_id settlement timestamp =
     bind (assert_lease l timestamp [Running] settlement) (\<lambda>row.
     bind (get (find_effect effect_id)) (\<lambda>e.
     bind (check (case e of None \<Rightarrow> False
                  | Some e \<Rightarrow> e_execution_id e = l_execution_id l \<and> unfinished (e_state e)) StaleFenceError) (\<lambda>_.
     bind (park_unfinished_effects row timestamp ''handler_recovery_signal'' None) (\<lambda>parked.
     lift (expect parked RuntimeErr)))))"

definition require_effect_recovery ::
  "rat \<Rightarrow> lease \<Rightarrow> string \<Rightarrow> bool \<Rightarrow> kernel \<Rightarrow> (kerr + snapshot) \<times> kernel" where
  "require_effect_recovery wall l effect_id settlement k =
     (if nonblank effect_id
      then transaction wall (require_effect_recovery_body l effect_id settlement) k
      else (Inl ValueErr, k))"

definition dead_letter_body :: "config \<Rightarrow> lease \<Rightarrow> exec_error \<Rightarrow> rat \<Rightarrow> snapshot kop" where
  "dead_letter_body cfg l err timestamp =
     bind (assert_lease l timestamp [Leased, Running] False) (\<lambda>row.
     bind (authorize_managed_operation (l_execution_id l) timestamp ''dead-letter transition'' True) (\<lambda>_.
     bind (park_unfinished_effects row timestamp ''dead_letter'' None) (\<lambda>parked.
     case parked of
       Some s \<Rightarrow> ret s
     | None \<Rightarrow>
         bind (execution_effect_ids (x_id row)) (\<lambda>ids.
         bind (dead_result cfg row (x_command row) timestamp (code err) (message err) (details err)
                 None ids) (\<lambda>result.
         make_terminal cfg row result ''permanent_dead'' timestamp)))))"

definition dead_letter :: "config \<Rightarrow> rat \<Rightarrow> lease \<Rightarrow> exec_error \<Rightarrow> kernel \<Rightarrow> (kerr + snapshot) \<times> kernel" where
  "dead_letter cfg wall l err k =
     (if retryable err then (Inl ValueErr, k) else transaction wall (dead_letter_body cfg l err) k)"

subsection \<open>Cancellation\<close>

text \<open>
  The body of \<open>cancel\<close> yields the snapshot of a cancelled execution, or the effect whose
  recovery the caller must be told of after the transaction committed.
\<close>

definition cancel_guard_managed :: "string \<Rightarrow> unit kop" where
  "cancel_guard_managed execution_id =
     bind (get (find_managed execution_id)) (\<lambda>membership.
     bind (get (\<lambda>k. case membership of None \<Rightarrow> None | Some m \<Rightarrow> find_control (m_run_id m) k)) (\<lambda>control.
     if membership \<noteq> None \<or> starts_with MANAGED_EXECUTION_PREFIX execution_id then
       (case control of
          None \<Rightarrow> raise StorageIsolationError
        | Some c \<Rightarrow> check (rc_state c \<in> {Control_Pausing, Control_Paused}) CASConflictError)
     else ret ()))"

definition cancel_authority :: "exec_row \<Rightarrow> lease option \<Rightarrow> int option \<Rightarrow> rat \<Rightarrow> exec_row kop" where
  "cancel_authority row lse expected_revision timestamp =
     (if x_state row \<in> {Leased, Running} then
        (case lse of
           None \<Rightarrow>
             (case expected_revision of
                None \<Rightarrow> raise StaleFenceError
              | Some n \<Rightarrow> bind (check (x_revision row = n) CASConflictError) (\<lambda>_. ret row))
         | Some l \<Rightarrow> assert_lease l timestamp [Leased, Running] False)
      else
        bind (check (expected_revision = None \<or> expected_revision = Some (x_revision row))
                CASConflictError) (\<lambda>_. ret row))"

definition cancel_recovery :: "exec_row \<Rightarrow> lease option \<Rightarrow> string \<Rightarrow> int option \<Rightarrow> rat \<Rightarrow> string option kop" where
  "cancel_recovery row lse reason expected_revision timestamp =
     (case (lse, expected_revision) of
        (None, Some n) \<Rightarrow>
          bind (check (x_revision row = n) CASConflictError) (\<lambda>_.
          bind (park_unfinished_effects row timestamp ''cancel'' (Some reason)) (\<lambda>parked.
          bind (lift (expect parked RuntimeErr)) (\<lambda>s. ret (s_recovery_effect_id s))))
      | _ \<Rightarrow> ret (x_rec_effect row))"

definition cancel_active ::
  "config \<Rightarrow> string \<Rightarrow> exec_row \<Rightarrow> lease option \<Rightarrow> string \<Rightarrow> int option \<Rightarrow> rat \<Rightarrow> (string + snapshot) kop" where
  "cancel_active cfg execution_id row lse reason expected_revision timestamp =
     bind (cancel_authority row lse expected_revision timestamp) (\<lambda>row.
     bind (park_unfinished_effects row timestamp ''cancel'' (Some reason)) (\<lambda>parked.
     case parked of
       Some s \<Rightarrow> bind (lift (expect (s_recovery_effect_id s) RuntimeErr)) (\<lambda>e. ret (Inl e))
     | None \<Rightarrow>
         bind (execution_effect_ids execution_id) (\<lambda>ids.
         bind (cancelled_result cfg row (x_command row) timestamp reason ids) (\<lambda>result.
         bind (make_terminal cfg row result ''cancelled'' timestamp) (\<lambda>s. ret (Inr s))))))"

definition cancel_body ::
  "config \<Rightarrow> string \<Rightarrow> lease option \<Rightarrow> string \<Rightarrow> int option \<Rightarrow> rat \<Rightarrow> (string + snapshot) kop" where
  "cancel_body cfg execution_id lse reason expected_revision timestamp =
     bind (get_row execution_id) (\<lambda>row.
     if terminal (x_state row) then
       (if x_state row = Cancelled then bind (lift (snapshot row)) (\<lambda>s. ret (Inr s))
        else raise InvalidStateTransitionError)
     else
     bind (cancel_guard_managed execution_id) (\<lambda>_.
     if x_state row = Recovery_Required then
       bind (cancel_recovery row lse reason expected_revision timestamp) (\<lambda>e.
       bind (lift (expect e RuntimeErr)) (\<lambda>e. ret (Inl e)))
     else cancel_active cfg execution_id row lse reason expected_revision timestamp))"

definition cancel ::
  "config \<Rightarrow> rat \<Rightarrow> string \<Rightarrow> lease option \<Rightarrow> string \<Rightarrow> int option \<Rightarrow> kernel \<Rightarrow> (kerr + snapshot) \<times> kernel" where
  "cancel cfg wall execution_id lse reason expected_revision k =
     (if \<not> nonblank execution_id \<or> \<not> nonblank reason then (Inl ValueErr, k)
      else if (case expected_revision of None \<Rightarrow> False | Some n \<Rightarrow> n < 0) then (Inl ValueErr, k)
      else if lse \<noteq> None \<and> expected_revision \<noteq> None then (Inl ValueErr, k)
      else case transaction wall (cancel_body cfg execution_id lse reason expected_revision) k of
             (Inl e, k') \<Rightarrow> (Inl e, k')
           | (Inr (Inl effect_id), k') \<Rightarrow> (Inl (EffectRecoveryRequiredError effect_id), k')
           | (Inr (Inr s), k') \<Rightarrow> (Inr s, k'))"

end
