(* ===== verification/Recovery.thy ===== *)
theory Recovery
  imports Completion
begin

text \<open>
  The explicit resolution of an indeterminate effect, \<open>_sqlite_recovery.py\<close>: the decision is
  recorded once, then the execution goes to the next uncertain effect, ends as cancelled
  when a cancellation was recorded, or returns to the queue. \<open>resolve_effect\<close> is the
  composition of the parts below in the order of the source.
\<close>

definition decided_effect ::
  "effect_record \<Rightarrow> decision \<Rightarrow> pyval \<Rightarrow> string \<Rightarrow> rat \<Rightarrow> effect_record" where
  "decided_effect e d response recovery_id timestamp =
     e\<lparr>e_state := (if d = Decided_Applied then Committed else Not_Applied),
       e_claim_id := (if d = Decided_Applied then e_claim_id e else None),
       e_response := response,
       e_committed_at := (if d = Decided_Applied then Some timestamp else None),
       e_recovery_id := Some recovery_id, e_recovery_decision := Some d,
       e_resolved_at := Some timestamp, e_revision := e_revision e + 1\<rparr>"

text \<open>The checks before the decision is recorded; \<open>Some\<close> answers a repeated resolution.\<close>

definition resolve_guard ::
  "effect_record \<Rightarrow> decision \<Rightarrow> pyval \<Rightarrow> int \<Rightarrow> string \<Rightarrow> kerr + effect_record option" where
  "resolve_guard e d response expected_revision recovery_id =
     (if e_recovery_id e = Some recovery_id then
        rbind (if d = Decided_Not_Applied then Inr True
               else rbind (encode_json response) (\<lambda>r. Inr (e_response e = r))) (\<lambda>same_response.
        if e_recovery_decision e = Some d \<and> same_response then Inr (Some e)
        else Inl EffectConflictError)
      else if e_recovery_id e \<noteq> None then Inl EffectConflictError
      else if e_revision e \<noteq> expected_revision then Inl StaleFenceError
      else if e_state e \<noteq> Indeterminate then Inl EffectConflictError
      else Inr None)"

definition record_decision ::
  "effect_record \<Rightarrow> decision \<Rightarrow> pyval \<Rightarrow> string \<Rightarrow> rat \<Rightarrow> effect_record kop" where
  "record_decision e d response recovery_id timestamp =
     bind (lift (mk_effect (decided_effect e d response recovery_id timestamp))) (\<lambda>v.
     bind (update_effect
             (\<lambda>x. e_effect_id x = e_effect_id e \<and> e_revision x = e_revision e \<and>
                  e_state x = Indeterminate)
             (\<lambda>x. x\<lparr>e_state := e_state v, e_response := canon (e_response v),
                    e_claim_id := e_claim_id v, e_committed_at := e_committed_at v,
                    e_recovery_id := Some recovery_id, e_recovery_decision := Some d,
                    e_resolved_at := Some timestamp, e_revision := e_revision v\<rparr>)) (\<lambda>_.
     bind (get_effect (e_effect_id e)) (\<lambda>resolved.
     bind (effect_event resolved (''recovery_'' @ decision_name d) (Some ''indeterminate'')
             (py_dict [(''recovery_id'', PStr recovery_id), (''response'', response)]) timestamp) (\<lambda>_.
     ret resolved))))"

definition point_to_next :: "exec_row \<Rightarrow> string \<Rightarrow> effect_record \<Rightarrow> rat \<Rightarrow> unit kop" where
  "point_to_next execution effect_id remaining timestamp =
     (let revision = x_revision execution + 1 in
      bind (update_exec
              (\<lambda>x. x_id x = x_id execution \<and> x_state x = Recovery_Required \<and>
                   x_rec_effect x = Some effect_id \<and> x_revision x = x_revision execution)
              (\<lambda>x. x\<lparr>x_rec_effect := Some (e_effect_id remaining), x_revision := revision,
                     x_updated := timestamp\<rparr>)) (\<lambda>_.
      bind (append_event (x_id execution) revision ''effect_recovery_next_required''
              (Some Recovery_Required) Recovery_Required
              (py_dict [(''resolved_effect_id'', PStr effect_id),
                (''next_effect_id'', PStr (e_effect_id remaining)),
                (''effect_revision'', PInt (e_revision remaining)),
                (''recovery_target_state'', py_optional PStr (x_rec_target execution)),
                (''recovery_reason'', py_optional PStr (x_rec_reason execution))])
              timestamp) (\<lambda>_. ret ())))"

definition finish_cancelled :: "config \<Rightarrow> exec_row \<Rightarrow> rat \<Rightarrow> unit kop" where
  "finish_cancelled cfg execution timestamp =
     bind (lift (expect (x_rec_reason execution) EffectConflictError)) (\<lambda>reason.
     bind (check (nonblank reason) EffectConflictError) (\<lambda>_.
     bind (execution_effect_ids (x_id execution)) (\<lambda>ids.
     bind (cancelled_result cfg execution (x_command execution) timestamp reason ids) (\<lambda>result.
     bind (make_terminal cfg execution result ''cancelled_after_effect_recovery'' timestamp) (\<lambda>s.
     check (s_state s = Cancelled) EffectConflictError)))))"

definition resume_queued :: "exec_row \<Rightarrow> string \<Rightarrow> decision \<Rightarrow> string \<Rightarrow> rat \<Rightarrow> unit kop" where
  "resume_queued execution effect_id d recovery_id timestamp =
     bind (lift (reduce Recovery_Required Ev_recovery_resolved)) (\<lambda>_.
     let revision = x_revision execution + 1 in
     bind (update_exec
             (\<lambda>x. x_id x = x_id execution \<and> x_state x = Recovery_Required \<and>
                  x_rec_effect x = Some effect_id \<and> x_revision x = x_revision execution)
             (\<lambda>x. x\<lparr>x_state := Queued, x_next_at := timestamp, x_lease_id := None,
                    x_lease_owner := None, x_lease_expires := None, x_started := None,
                    x_rec_effect := None, x_rec_target := None, x_rec_reason := None,
                    x_revision := revision, x_updated := timestamp\<rparr>)) (\<lambda>_.
     bind (append_event (x_id execution) revision ''effect_recovery_resolved''
             (Some Recovery_Required) Queued
             (py_dict [(''effect_id'', PStr effect_id), (''decision'', PStr (decision_name d)),
               (''recovery_id'', PStr recovery_id)]) timestamp) (\<lambda>_. ret ())))"

definition settle_execution ::
  "config \<Rightarrow> exec_row \<Rightarrow> string \<Rightarrow> decision \<Rightarrow> string \<Rightarrow> rat \<Rightarrow> unit kop" where
  "settle_execution cfg execution effect_id d recovery_id timestamp =
     bind (get effects) (\<lambda>es.
     case sql_select (\<lambda>e. e_execution_id e = x_id execution \<and> e_state e = Indeterminate) e_effect_id es of
       remaining # _ \<Rightarrow> point_to_next execution effect_id remaining timestamp
     | [] \<Rightarrow>
         if x_rec_target execution = Some ''cancelled'' then finish_cancelled cfg execution timestamp
         else resume_queued execution effect_id d recovery_id timestamp)"

definition resolve_effect_body ::
  "config \<Rightarrow> string \<Rightarrow> decision \<Rightarrow> pyval \<Rightarrow> int \<Rightarrow> string \<Rightarrow> rat \<Rightarrow> effect_record kop" where
  "resolve_effect_body cfg effect_id d response expected_revision recovery_id timestamp =
     bind (get_effect effect_id) (\<lambda>e.
     bind (lift (resolve_guard e d response expected_revision recovery_id)) (\<lambda>answer.
     case answer of
       Some e \<Rightarrow> ret e
     | None \<Rightarrow>
         bind (get_row (e_execution_id e)) (\<lambda>execution.
         bind (check (x_state execution = Recovery_Required \<and> x_rec_effect execution = Some effect_id)
                 EffectConflictError) (\<lambda>_.
         bind (record_decision e d response recovery_id timestamp) (\<lambda>resolved.
         bind (settle_execution cfg execution effect_id d recovery_id timestamp) (\<lambda>_.
         ret resolved))))))"

definition resolve_effect ::
  "config \<Rightarrow> rat \<Rightarrow> string \<Rightarrow> decision \<Rightarrow> pyval \<Rightarrow> int \<Rightarrow> string \<Rightarrow> kernel \<Rightarrow> (kerr + effect_record) \<times> kernel" where
  "resolve_effect cfg wall effect_id d response expected_revision recovery_id k =
     (if d = Decided_Not_Applied \<and> response \<noteq> PNone then (Inl ValueErr, k)
      else if expected_revision < 1 then (Inl ValueErr, k)
      else if \<not> nonblank recovery_id then (Inl ValueErr, k)
      else transaction wall
             (resolve_effect_body cfg effect_id d response expected_revision recovery_id) k)"

end
