(* ===== verification/Execution.thy ===== *)
theory Execution
  imports Recovery
begin

text \<open>
  Submission, leasing and lease expiry, \<open>_sqlite_execution.py\<close>: a command is queued once, a
  worker claims the oldest eligible execution under a new fence, starts, renews or verifies
  its lease, and expired leases are redelivered, parked or ended.
\<close>

subsection \<open>Submission\<close>

definition event_data_command :: "command \<Rightarrow> pyval" where
  "event_data_command cmd = py_dict [(''command'', command_to_dict cmd)]"

definition queued_row :: "command \<Rightarrow> rat \<Rightarrow> exec_row" where
  "queued_row cmd timestamp =
     \<lparr>x_id = c_execution_id cmd, x_key = c_idempotency_key cmd, x_registry = c_registry_revision cmd,
      x_command = canon_command cmd, x_state = Queued, x_attempt = 0, x_redeliveries = 0,
      x_next_at = timestamp, x_lease_id = None, x_lease_owner = None, x_fence = 0,
      x_lease_expires = None, x_started = None, x_result = None, x_rec_effect = None,
      x_rec_target = None, x_rec_reason = None, x_revision = 1, x_created = timestamp,
      x_updated = timestamp\<rparr>"

text \<open>The row with the execution id first, the row with the idempotency key otherwise.\<close>

definition existing_submission :: "command \<Rightarrow> kernel \<Rightarrow> exec_row option" where
  "existing_submission cmd k =
     (case find_exec (c_execution_id cmd) k of
        Some r \<Rightarrow> Some r
      | None \<Rightarrow> sql_find x_key (c_idempotency_key cmd) (execs k))"

definition submit_in_transaction :: "command \<Rightarrow> rat \<Rightarrow> (exec_row \<times> bool) kop" where
  "submit_in_transaction cmd timestamp =
     bind (get (existing_submission cmd)) (\<lambda>existing.
     case existing of
       Some r \<Rightarrow>
         if x_command r \<noteq> canon_command cmd then raise IdempotencyConflictError else ret (r, False)
     | None \<Rightarrow>
         bind (insert_exec (queued_row cmd timestamp)) (\<lambda>_.
         bind (append_event (c_execution_id cmd) 1 ''submitted'' None Queued
                 (event_data_command cmd) timestamp) (\<lambda>_.
         bind (get_row (c_execution_id cmd)) (\<lambda>r. ret (r, True)))))"

definition submit :: "rat \<Rightarrow> command \<Rightarrow> kernel \<Rightarrow> (kerr + snapshot) \<times> kernel" where
  "submit wall cmd k =
     (if starts_with MANAGED_EXECUTION_PREFIX (c_execution_id cmd) then (Inl StorageIsolationError, k)
      else transaction wall (\<lambda>timestamp.
        bind (get (find_managed (c_execution_id cmd))) (\<lambda>m.
        bind (check (m = None) StorageIsolationError) (\<lambda>_.
        bind (submit_in_transaction cmd timestamp) (\<lambda>(row, _).
        lift (snapshot row))))) k)"

text \<open>What a managed submission and a managed cancellation before acceptance share.\<close>

definition managed_existing ::
  "command \<Rightarrow> string \<Rightarrow> int \<Rightarrow> managed_row option \<Rightarrow> exec_row \<Rightarrow> snapshot kop" where
  "managed_existing cmd run_id generation mapping r =
     (if x_command r \<noteq> canon_command cmd then raise IdempotencyConflictError
      else case mapping of
             None \<Rightarrow> raise IdempotencyConflictError
           | Some m \<Rightarrow>
               if m_run_id m \<noteq> run_id \<or> m_generation m \<noteq> generation
               then raise IdempotencyConflictError else lift (snapshot r))"

definition register_managed :: "command \<Rightarrow> string \<Rightarrow> int \<Rightarrow> rat \<Rightarrow> exec_row kop" where
  "register_managed cmd run_id generation timestamp =
     bind (insert_managed \<lparr>m_execution_id = c_execution_id cmd, m_run_id = run_id,
             m_generation = generation, m_drain = False\<rparr>) (\<lambda>_.
     bind (submit_in_transaction cmd timestamp) (\<lambda>(row, created).
     bind (check created IdempotencyConflictError) (\<lambda>_. ret row)))"

definition submit_managed_body :: "command \<Rightarrow> string \<Rightarrow> int \<Rightarrow> rat \<Rightarrow> snapshot kop" where
  "submit_managed_body cmd run_id generation timestamp =
     bind (get (find_control run_id)) (\<lambda>control.
     bind (lift (expect control StorageIsolationError)) (\<lambda>control.
     bind (get (find_managed (c_execution_id cmd))) (\<lambda>mapping.
     bind (get (existing_submission cmd)) (\<lambda>existing.
     case existing of
       Some r \<Rightarrow> managed_existing cmd run_id generation mapping r
     | None \<Rightarrow>
         bind (check (mapping = None) StorageIsolationError) (\<lambda>_.
         bind (check (starts_with MANAGED_EXECUTION_PREFIX (c_execution_id cmd)) ValueErr) (\<lambda>_.
         bind (check (c_correlation_id cmd = run_id) ValueErr) (\<lambda>_.
         bind (check (rc_generation control = generation) CASConflictError) (\<lambda>_.
         bind (check (rc_state control = Control_Active) CASConflictError) (\<lambda>_.
         bind (register_managed cmd run_id generation timestamp) (\<lambda>row. lift (snapshot row)))))))))))"

definition with_run_ids ::
  "string \<Rightarrow> int \<Rightarrow> (kernel \<Rightarrow> (kerr + 'a) \<times> kernel) \<Rightarrow> kernel \<Rightarrow> (kerr + 'a) \<times> kernel" where
  "with_run_ids run_id generation f k =
     (case rbind (managed_run_id run_id) (\<lambda>_. managed_generation generation) of
        Inl e \<Rightarrow> (Inl e, k)
      | Inr _ \<Rightarrow> f k)"

definition submit_managed ::
  "rat \<Rightarrow> command \<Rightarrow> string \<Rightarrow> int \<Rightarrow> kernel \<Rightarrow> (kerr + snapshot) \<times> kernel" where
  "submit_managed wall cmd run_id generation =
     with_run_ids run_id generation (transaction wall (submit_managed_body cmd run_id generation))"

definition cancel_before_accept_body :: "config \<Rightarrow> command \<Rightarrow> string \<Rightarrow> rat \<Rightarrow> snapshot kop" where
  "cancel_before_accept_body cfg cmd reason timestamp =
     bind (get (find_managed (c_execution_id cmd))) (\<lambda>m.
     bind (check (m = None) StorageIsolationError) (\<lambda>_.
     bind (submit_in_transaction cmd timestamp) (\<lambda>(row, created).
     if \<not> created then lift (snapshot row)
     else
       bind (cancelled_result cfg row cmd timestamp reason []) (\<lambda>result.
       make_terminal cfg row result ''cancelled'' timestamp))))"

definition cancel_before_accept ::
  "config \<Rightarrow> rat \<Rightarrow> command \<Rightarrow> string \<Rightarrow> kernel \<Rightarrow> (kerr + snapshot) \<times> kernel" where
  "cancel_before_accept cfg wall cmd reason k =
     (if starts_with MANAGED_EXECUTION_PREFIX (c_execution_id cmd) then (Inl StorageIsolationError, k)
      else if \<not> nonblank reason then (Inl ValueErr, k)
      else transaction wall (cancel_before_accept_body cfg cmd reason) k)"

definition cancel_managed_body ::
  "config \<Rightarrow> command \<Rightarrow> string \<Rightarrow> int \<Rightarrow> string \<Rightarrow> rat \<Rightarrow> snapshot kop" where
  "cancel_managed_body cfg cmd run_id generation reason timestamp =
     bind (get (find_control run_id)) (\<lambda>control.
     bind (lift (expect control StorageIsolationError)) (\<lambda>control.
     bind (get (find_managed (c_execution_id cmd))) (\<lambda>mapping.
     bind (get (existing_submission cmd)) (\<lambda>existing.
     case existing of
       Some r \<Rightarrow> managed_existing cmd run_id generation mapping r
     | None \<Rightarrow>
         bind (check (mapping = None) StorageIsolationError) (\<lambda>_.
         bind (check (starts_with MANAGED_EXECUTION_PREFIX (c_execution_id cmd)) ValueErr) (\<lambda>_.
         bind (check (c_correlation_id cmd = run_id) ValueErr) (\<lambda>_.
         bind (check (rc_generation control = generation) CASConflictError) (\<lambda>_.
         bind (register_managed cmd run_id generation timestamp) (\<lambda>row.
         bind (cancelled_result cfg row cmd timestamp reason []) (\<lambda>result.
         make_terminal cfg row result ''cancelled'' timestamp))))))))))"

definition cancel_managed_before_accept ::
  "config \<Rightarrow> rat \<Rightarrow> command \<Rightarrow> string \<Rightarrow> int \<Rightarrow> string \<Rightarrow> kernel \<Rightarrow> (kerr + snapshot) \<times> kernel" where
  "cancel_managed_before_accept cfg wall cmd run_id generation reason k =
     (if \<not> nonblank reason then (Inl ValueErr, k)
      else with_run_ids run_id generation
             (transaction wall (cancel_managed_body cfg cmd run_id generation reason)) k)"

subsection \<open>Expired leases\<close>

definition unresolved_obligation :: "kernel \<Rightarrow> exec_row \<Rightarrow> bool" where
  "unresolved_obligation k r \<longleftrightarrow>
     (\<exists>so \<in> set (obligations k). obligation_key so = (x_id r, x_attempt r, x_fence r) \<and>
        so_resolution so = None)"

definition lease_expired :: "rat \<Rightarrow> exec_row \<Rightarrow> bool" where
  "lease_expired timestamp r \<longleftrightarrow>
     x_state r \<in> {Leased, Running} \<and>
     (case x_lease_expires r of None \<Rightarrow> False | Some e \<Rightarrow> e \<le> timestamp)"

definition exec_order :: "exec_row \<Rightarrow> rat \<times> string" where
  "exec_order r = (x_created r, x_id r)"

definition reapable_rows :: "rat \<Rightarrow> kernel \<Rightarrow> exec_row list" where
  "reapable_rows timestamp k =
     take 256 (sql_select (\<lambda>r. lease_expired timestamp r \<and> \<not> unresolved_obligation k r) exec_order (execs k))"

definition redeliver :: "config \<Rightarrow> exec_row \<Rightarrow> rat \<Rightarrow> unit kop" where
  "redeliver cfg row timestamp =
     bind (lift (reduce (x_state row) Ev_lease_expired)) (\<lambda>_.
     let revision = x_revision row + 1; redeliveries = x_redeliveries row + 1 in
     bind (lift (retry_delay cfg (x_command row) (x_attempt row) timestamp)) (\<lambda>next_at.
     bind (update_exec
             (\<lambda>x. x_id x = x_id row \<and> x_state x = x_state row \<and> x_revision x = x_revision row)
             (\<lambda>x. x\<lparr>x_state := Queued, x_redeliveries := redeliveries, x_next_at := next_at,
                    x_lease_id := None, x_lease_owner := None, x_lease_expires := None,
                    x_started := None, x_rec_effect := None, x_revision := revision,
                    x_updated := timestamp\<rparr>)) (\<lambda>_.
     bind (append_event (x_id row) revision ''lease_expired_redelivery'' (Some (x_state row)) Queued
             (py_dict [(''attempt'', PInt (x_attempt row)), (''redelivery_count'', PInt redeliveries)])
             timestamp) (\<lambda>_. ret ()))))"

definition reap_row :: "config \<Rightarrow> rat \<Rightarrow> exec_row \<Rightarrow> string kop" where
  "reap_row cfg timestamp row =
     bind (park_unfinished_effects row timestamp ''lease_expired'' None) (\<lambda>parked.
     case parked of
       Some _ \<Rightarrow> ret (x_id row)
     | None \<Rightarrow>
         let cmd = x_command row in
         if max_attempts (c_retry_policy cmd) \<le> x_attempt row then
           bind (execution_effect_ids (x_id row)) (\<lambda>ids.
           bind (dead_result cfg row cmd timestamp ''lease_retry_exhausted''
                   ''lease expired after the retry budget was exhausted''
                   (py_dict [(''max_attempts'', PInt (max_attempts (c_retry_policy cmd)))]) None ids) (\<lambda>result.
           bind (make_terminal cfg row result ''lease_expired_dead'' timestamp) (\<lambda>_. ret (x_id row))))
         else bind (redeliver cfg row timestamp) (\<lambda>_. ret (x_id row)))"

definition reap_in_transaction :: "config \<Rightarrow> rat \<Rightarrow> string list kop" where
  "reap_in_transaction cfg timestamp =
     bind (get (reapable_rows timestamp)) (\<lambda>rows. each (reap_row cfg timestamp) rows)"

text \<open>
  The loop of \<open>reap\<close> stops at the first batch shorter than 256; \<open>fuel\<close> bounds the number of
  batches, and \<open>None\<close> is a loop that needs more.
\<close>

fun reap_batches :: "nat \<Rightarrow> config \<Rightarrow> rat \<Rightarrow> string list option kop" where
  "reap_batches 0 cfg timestamp = ret None"
| "reap_batches (Suc n) cfg timestamp =
     bind (reap_in_transaction cfg timestamp) (\<lambda>batch.
     if length batch < 256 then ret (Some batch)
     else bind (reap_batches n cfg timestamp) (\<lambda>more. ret (map_option (\<lambda>ids. batch @ ids) more)))"

definition reap_body :: "nat \<Rightarrow> config \<Rightarrow> rat \<Rightarrow> snapshot list option kop" where
  "reap_body fuel cfg timestamp =
     bind (reap_batches fuel cfg timestamp) (\<lambda>ids.
     case ids of
       None \<Rightarrow> ret None
     | Some ids \<Rightarrow> bind (each get_snapshot ids) (\<lambda>ss. ret (Some ss)))"

definition reap :: "nat \<Rightarrow> config \<Rightarrow> rat \<Rightarrow> kernel \<Rightarrow> (kerr + snapshot list option) \<times> kernel" where
  "reap fuel cfg wall = transaction wall (reap_body fuel cfg)"

subsection \<open>Supervisor obligations\<close>

definition register_supervisor_obligation_body :: "lease \<Rightarrow> rat \<Rightarrow> obligation kop" where
  "register_supervisor_obligation_body l timestamp =
     bind (assert_lease l timestamp [Leased, Running] False) (\<lambda>_.
     let key = (l_execution_id l, l_attempt l, l_fence l);
         new = \<lparr>so_execution_id = l_execution_id l, so_attempt = l_attempt l, so_fence = l_fence l,
                so_registered_at = timestamp, so_resolution = None\<rparr> in
     bind (get (\<lambda>k. sql_find obligation_key key (obligations k))) (\<lambda>so.
     case so of
       None \<Rightarrow> bind (modify (\<lambda>k. k\<lparr>obligations := obligations k @ [new]\<rparr>)) (\<lambda>_. ret new)
     | Some so \<Rightarrow> if so_resolution so \<noteq> None then raise CASConflictError else ret so))"

definition register_supervisor_obligation ::
  "rat \<Rightarrow> lease \<Rightarrow> kernel \<Rightarrow> (kerr + obligation) \<times> kernel" where
  "register_supervisor_obligation wall l = transaction wall (register_supervisor_obligation_body l)"

subsection \<open>Claiming\<close>

definition claim_revisions :: "string option \<Rightarrow> string list option \<Rightarrow> kerr + string list option" where
  "claim_revisions registry_revision registry_revisions =
     (case registry_revision of
        Some r \<Rightarrow>
          if registry_revisions \<noteq> None then Inl ValueErr
          else if \<not> nonblank r then Inl ValueErr else Inr (Some [r])
      | None \<Rightarrow>
          (case registry_revisions of
             None \<Rightarrow> Inr None
           | Some rs \<Rightarrow> if rs = [] \<or> \<not> list_all nonblank rs then Inl ValueErr else Inr (Some (rev (remdups (rev rs))))))"

definition claim_predicate :: "rat \<Rightarrow> string list option \<Rightarrow> exec_row \<Rightarrow> bool" where
  "claim_predicate timestamp revisions r \<longleftrightarrow>
     x_state r = Queued \<and> x_next_at r \<le> timestamp \<and>
     (case revisions of None \<Rightarrow> True | Some rs \<Rightarrow> x_registry r \<in> set rs)"

definition lifecycle_pending :: "kernel \<Rightarrow> exec_row \<Rightarrow> bool" where
  "lifecycle_pending k r \<longleftrightarrow>
     (\<exists>p \<in> set (producers k). lp_execution_id p = x_id r \<and>
        (lp_open p \<or> (\<exists>v \<in> set (lifecycle k). lo_token v = lp_token p \<and> \<not> lo_delivered v)))"

definition managed_eligible :: "kernel \<Rightarrow> rat \<Rightarrow> exec_row \<Rightarrow> bool" where
  "managed_eligible k timestamp r \<longleftrightarrow>
     (\<not> starts_with MANAGED_EXECUTION_PREFIX (x_id r) \<and>
        \<not> (\<exists>m \<in> set (managed k). m_execution_id m = x_id r)) \<or>
     (\<exists>m \<in> set (managed k). \<exists>c \<in> set (run_controls k).
        m_execution_id m = x_id r \<and> rc_run_id c = m_run_id m \<and> claim_open m c timestamp)"

definition claimable ::
  "kernel \<Rightarrow> rat \<Rightarrow> string list option \<Rightarrow> string option \<Rightarrow> string list \<Rightarrow> exec_row \<Rightarrow> bool" where
  "claimable k timestamp revisions execution_id excluded r \<longleftrightarrow>
     claim_predicate timestamp revisions r \<and> \<not> unresolved_obligation k r \<and>
     \<not> lifecycle_pending k r \<and> x_id r \<notin> set excluded \<and>
     (case execution_id of None \<Rightarrow> True | Some i \<Rightarrow> x_id r = i) \<and> managed_eligible k timestamp r"

definition next_claim_row ::
  "rat \<Rightarrow> string list option \<Rightarrow> string option \<Rightarrow> string list \<Rightarrow> exec_row option kop" where
  "next_claim_row timestamp revisions execution_id excluded =
     get (\<lambda>k. case sql_select (claimable k timestamp revisions execution_id excluded) exec_order (execs k) of
                [] \<Rightarrow> None | r # _ \<Rightarrow> Some r)"

text \<open>
  The bounds of the claim scan, in UTF-8 bytes, and the scan of
  \<open>_next_budget_eligible_claim\<close> from its start: on a store without budget policies and
  protected runs the first candidate is eligible.
\<close>

definition utf8_length :: "string \<Rightarrow> nat" where
  "utf8_length s = sum_list (List.map (\<lambda>c. if (of_char c :: nat) < 128 then 1 else 2) s)"

definition json_char_length :: "char \<Rightarrow> nat" where
  "json_char_length c = (let n = (of_char c :: nat) in
     if n = 34 \<or> n = 92 \<or> n \<in> set [8, 9, 10, 12, 13] then 2
     else if n < 32 then 6 else if n < 128 then 1 else 2)"

definition json_string_length :: "string \<Rightarrow> nat" where
  "json_string_length s = 2 + sum_list (List.map json_char_length s)"

text \<open>The bytes of \<open>{"revisions":null}\<close> or \<open>{"revisions":[...]}\<close>.\<close>

definition predicate_length :: "string list option \<Rightarrow> nat" where
  "predicate_length revisions = 14 +
     (case revisions of
        None \<Rightarrow> 4
      | Some rs \<Rightarrow> 2 + (length rs - 1) + sum_list (List.map json_string_length rs))"

definition scan_within_bounds :: "string list option \<Rightarrow> string list \<Rightarrow> bool" where
  "scan_within_bounds revisions excluded =
     (let vs = (case revisions of None \<Rightarrow> [] | Some rs \<Rightarrow> rs) @ excluded in
      length vs \<le> 1024 \<and> list_all (\<lambda>v. length v \<le> 4096) vs \<and>
      sum_list (List.map utf8_length vs) \<le> 65536 \<and> predicate_length revisions \<le> 65536)"

definition next_eligible_claim ::
  "rat \<Rightarrow> string list option \<Rightarrow> string option \<Rightarrow> string list \<Rightarrow> exec_row option kop" where
  "next_eligible_claim timestamp revisions execution_id excluded =
     bind (check (scan_within_bounds revisions excluded) ValueErr) (\<lambda>_.
     bind (next_claim_row timestamp revisions execution_id excluded) (\<lambda>row.
     case row of
       None \<Rightarrow> ret None
     | Some r \<Rightarrow>
         bind (get (find_managed (x_id r))) (\<lambda>m.
         bind (check (m = None \<or> execution_id \<noteq> None \<or> utf8_length (x_id r) \<le> 4096) ValueErr) (\<lambda>_.
         ret (Some r)))))"

definition next_queued_body :: "config \<Rightarrow> string \<Rightarrow> rat \<Rightarrow> snapshot option kop" where
  "next_queued_body cfg registry_revision timestamp =
     bind (reap_in_transaction cfg timestamp) (\<lambda>_.
     bind (next_claim_row timestamp (Some [registry_revision]) None []) (\<lambda>row.
     case row of None \<Rightarrow> ret None | Some r \<Rightarrow> bind (lift (snapshot r)) (\<lambda>s. ret (Some s))))"

definition next_queued :: "config \<Rightarrow> rat \<Rightarrow> string \<Rightarrow> kernel \<Rightarrow> (kerr + snapshot option) \<times> kernel" where
  "next_queued cfg wall registry_revision k =
     (if nonblank registry_revision then transaction wall (next_queued_body cfg registry_revision) k
      else (Inl ValueErr, k))"

definition leased_data :: "string \<Rightarrow> int \<Rightarrow> int \<Rightarrow> pyval" where
  "leased_data owner att fnc =
     py_dict [(''owner'', PStr owner), (''attempt'', PInt att), (''fence'', PInt fnc)]"

definition mk_lease_typed :: "lease \<Rightarrow> kerr + lease" where
  "mk_lease_typed l = (if lease_ok l then Inr l else Inl ContractValidationError)"

definition claim_row :: "config \<Rightarrow> string \<Rightarrow> rat \<Rightarrow> exec_row \<Rightarrow> rat \<Rightarrow> lease kop" where
  "claim_row cfg owner duration row timestamp =
     bind (lift (reduce (x_state row) Ev_lease)) (\<lambda>_.
     bind (uuid4 cfg) (\<lambda>lease_id.
     let att = x_attempt row + 1; fnc = x_fence row + 1; revision = x_revision row + 1 in
     bind (lift (checked_add timestamp duration)) (\<lambda>expires_at.
     bind (charge_managed_claim (x_id row) timestamp) (\<lambda>_.
     bind (update_exec
             (\<lambda>x. x_id x = x_id row \<and> x_state x = Queued \<and> x_revision x = x_revision row)
             (\<lambda>x. x\<lparr>x_state := Leased, x_attempt := att, x_lease_id := Some lease_id,
                    x_lease_owner := Some owner, x_fence := fnc,
                    x_lease_expires := Some expires_at, x_revision := revision,
                    x_updated := timestamp\<rparr>)) (\<lambda>_.
     bind (append_event (x_id row) revision ''leased'' (Some Queued) Leased
             (leased_data owner att fnc) timestamp) (\<lambda>_.
     lift (mk_lease_typed \<lparr>l_execution_id = x_id row, l_lease_id = lease_id, l_owner = owner,
             l_fence = fnc, l_attempt = att, l_expires_at = expires_at, l_revision = revision\<rparr>)))))))"

definition claim_body ::
  "config \<Rightarrow> string \<Rightarrow> rat \<Rightarrow> string list option \<Rightarrow> string option \<Rightarrow> rat \<Rightarrow> lease option kop" where
  "claim_body cfg owner duration revisions execution_id timestamp =
     bind (reap_in_transaction cfg timestamp) (\<lambda>_.
     bind (next_eligible_claim timestamp revisions execution_id []) (\<lambda>row.
     case row of
       None \<Rightarrow> ret None
     | Some row \<Rightarrow> bind (claim_row cfg owner duration row timestamp) (\<lambda>l. ret (Some l))))"

definition claim ::
  "config \<Rightarrow> rat \<Rightarrow> string \<Rightarrow> pyval option \<Rightarrow> string option \<Rightarrow> string list option \<Rightarrow> string option \<Rightarrow>
   kernel \<Rightarrow> (kerr + lease option) \<times> kernel" where
  "claim cfg wall owner lease_seconds registry_revision registry_revisions execution_id k =
     (if \<not> nonblank owner \<or> \<not> optional_ok nonblank execution_id then (Inl ValueErr, k)
      else case rbind (claim_revisions registry_revision registry_revisions) (\<lambda>revisions.
                rbind (lease_duration cfg lease_seconds) (\<lambda>duration. Inr (revisions, duration))) of
             Inl e \<Rightarrow> (Inl e, k)
           | Inr (revisions, duration) \<Rightarrow>
               transaction wall (claim_body cfg owner duration revisions execution_id) k)"

text \<open>
  The atomic claim and start of the runtime: one write, two events. The child pool and the
  lifecycle reservation are not requested.
\<close>

definition claim_start_row :: "config \<Rightarrow> string \<Rightarrow> rat \<Rightarrow> rat \<Rightarrow> exec_row \<Rightarrow> rat \<Rightarrow> lease kop" where
  "claim_start_row cfg owner least safety row timestamp =
     bind (lift (checked_add (c_timeout_seconds (x_command row)) safety)) (\<lambda>needed.
     let duration = max least needed in
     bind (lift (reduce (x_state row) Ev_lease)) (\<lambda>_.
     bind (lift (reduce Leased Ev_start)) (\<lambda>_.
     bind (uuid4 cfg) (\<lambda>lease_id.
     let att = x_attempt row + 1; fnc = x_fence row + 1;
         leased_revision = x_revision row + 1; running_revision = leased_revision + 1 in
     bind (lift (checked_add timestamp duration)) (\<lambda>expires_at.
     bind (charge_managed_claim (x_id row) timestamp) (\<lambda>_.
     bind (authorize_managed_operation (x_id row) timestamp ''start'' False) (\<lambda>_.
     bind (update_exec
             (\<lambda>x. x_id x = x_id row \<and> x_state x = Queued \<and> x_revision x = x_revision row)
             (\<lambda>x. x\<lparr>x_state := Running, x_attempt := att, x_lease_id := Some lease_id,
                    x_lease_owner := Some owner, x_fence := fnc,
                    x_lease_expires := Some expires_at, x_started := Some timestamp,
                    x_revision := running_revision, x_updated := timestamp\<rparr>)) (\<lambda>_.
     bind (append_event (x_id row) leased_revision ''leased'' (Some Queued) Leased
             (leased_data owner att fnc) timestamp) (\<lambda>_.
     bind (append_event (x_id row) running_revision ''started'' (Some Leased) Running
             (py_dict [(''attempt'', PInt att), (''fence'', PInt fnc)]) timestamp) (\<lambda>_.
     lift (mk_lease_typed \<lparr>l_execution_id = x_id row, l_lease_id = lease_id, l_owner = owner,
             l_fence = fnc, l_attempt = att, l_expires_at = expires_at,
             l_revision = running_revision\<rparr>)))))))))))"

definition claim_and_start_body ::
  "config \<Rightarrow> string \<Rightarrow> rat \<Rightarrow> rat \<Rightarrow> string list option \<Rightarrow> string option \<Rightarrow> string list \<Rightarrow> rat \<Rightarrow>
   lease option kop" where
  "claim_and_start_body cfg owner least safety revisions execution_id excluded timestamp =
     bind (reap_in_transaction cfg timestamp) (\<lambda>_.
     bind (next_eligible_claim timestamp revisions execution_id (remdups excluded)) (\<lambda>row.
     case row of
       None \<Rightarrow> ret None
     | Some row \<Rightarrow> bind (claim_start_row cfg owner least safety row timestamp) (\<lambda>l. ret (Some l))))"

definition claim_and_start ::
  "config \<Rightarrow> rat \<Rightarrow> string \<Rightarrow> pyval option \<Rightarrow> pyval \<Rightarrow> string option \<Rightarrow> string list option \<Rightarrow>
   string option \<Rightarrow> string list \<Rightarrow> kernel \<Rightarrow> (kerr + lease option) \<times> kernel" where
  "claim_and_start cfg wall owner lease_seconds start_safety_seconds registry_revision
     registry_revisions execution_id exclude_execution_ids k =
     (if \<not> nonblank owner \<or> \<not> optional_ok nonblank execution_id then (Inl ValueErr, k)
      else if 512 < length exclude_execution_ids \<or> \<not> list_all nonblank exclude_execution_ids
      then (Inl ValueErr, k)
      else case rbind (claim_revisions registry_revision registry_revisions) (\<lambda>revisions.
                rbind (lease_duration cfg lease_seconds) (\<lambda>least.
                rbind (nonnegative_duration start_safety_seconds) (\<lambda>safety.
                Inr (revisions, least, safety)))) of
             Inl e \<Rightarrow> (Inl e, k)
           | Inr (revisions, least, safety) \<Rightarrow>
               transaction wall (claim_and_start_body cfg owner least safety revisions execution_id
                 exclude_execution_ids) k)"

subsection \<open>Holding a lease\<close>

definition verify_body :: "lease \<Rightarrow> rat \<Rightarrow> snapshot kop" where
  "verify_body l timestamp =
     bind (assert_lease l timestamp [Leased, Running] False) (\<lambda>row.
     bind (authorize_managed_operation (l_execution_id l) timestamp ''lease verification'' False) (\<lambda>_.
     lift (snapshot row)))"

definition verify :: "rat \<Rightarrow> lease \<Rightarrow> kernel \<Rightarrow> (kerr + snapshot) \<times> kernel" where
  "verify wall l = transaction wall (verify_body l)"

definition verify_active_lease_readonly :: "rat \<Rightarrow> lease \<Rightarrow> snapshot kop" where
  "verify_active_lease_readonly wall l =
     bind (current_time wall) (\<lambda>timestamp.
     bind (assert_lease l timestamp [Leased, Running] False) (\<lambda>row. lift (snapshot row)))"

definition start_body :: "lease \<Rightarrow> rat \<Rightarrow> lease kop" where
  "start_body l timestamp =
     bind (assert_lease l timestamp [Leased] False) (\<lambda>row.
     bind (authorize_managed_operation (l_execution_id l) timestamp ''start'' False) (\<lambda>_.
     bind (lift (reduce (x_state row) Ev_start)) (\<lambda>_.
     let revision = x_revision row + 1 in
     bind (update_exec
             (\<lambda>x. x_id x = l_execution_id l \<and> x_state x = Leased \<and> x_revision x = x_revision row)
             (\<lambda>x. x\<lparr>x_state := Running, x_started := Some timestamp, x_revision := revision,
                    x_updated := timestamp\<rparr>)) (\<lambda>_.
     bind (append_event (l_execution_id l) revision ''started'' (Some Leased) Running
             (py_dict (attempt_data l)) timestamp) (\<lambda>_.
     lift (mk_lease_typed (l\<lparr>l_revision := revision\<rparr>)))))))"

definition start :: "rat \<Rightarrow> lease \<Rightarrow> kernel \<Rightarrow> (kerr + lease) \<times> kernel" where
  "start wall l = transaction wall (start_body l)"

definition renew_body :: "lease \<Rightarrow> rat \<Rightarrow> rat \<Rightarrow> lease kop" where
  "renew_body l duration timestamp =
     bind (assert_lease l timestamp [Leased, Running] False) (\<lambda>row.
     bind (authorize_managed_operation (l_execution_id l) timestamp ''lease renewal'' False) (\<lambda>_.
     bind (lift (checked_add timestamp duration)) (\<lambda>expires_at.
     let revision = x_revision row + 1 in
     bind (update_exec
             (\<lambda>x. x_id x = l_execution_id l \<and> x_revision x = x_revision row)
             (\<lambda>x. x\<lparr>x_lease_expires := Some expires_at, x_revision := revision,
                    x_updated := timestamp\<rparr>)) (\<lambda>_.
     bind (append_event (l_execution_id l) revision ''lease_renewed'' (Some (x_state row)) (x_state row)
             (py_dict [(''fence'', PInt (l_fence l)), (''expires_at'', PFin expires_at)]) timestamp) (\<lambda>_.
     lift (mk_lease_typed (l\<lparr>l_expires_at := expires_at, l_revision := revision\<rparr>)))))))"

definition renew :: "config \<Rightarrow> rat \<Rightarrow> lease \<Rightarrow> pyval option \<Rightarrow> kernel \<Rightarrow> (kerr + lease) \<times> kernel" where
  "renew cfg wall l lease_seconds k =
     (case lease_duration cfg lease_seconds of
        Inl e \<Rightarrow> (Inl e, k)
      | Inr duration \<Rightarrow> transaction wall (renew_body l duration) k)"

end
