(* ===== verification/Invariants.thy ===== *)
theory Invariants
  imports Execution
begin

text \<open>
  The invariant of the kernel's database: every row is a snapshot its contract accepts, the
  event log numbers its events without a gap and traces each execution's path through the
  transition matrix, unfinished effects belong to the attempt that runs or is parked, and
  each ended execution has one outbox row with its result. The lemmas say how the writes
  the operations are made of preserve it.
\<close>

subsection \<open>Rows\<close>

definition row_identity_ok :: "exec_row \<Rightarrow> bool" where
  "row_identity_ok r \<longleftrightarrow>
     command_ok (x_command r) \<and> c_execution_id (x_command r) = x_id r \<and>
     c_idempotency_key (x_command r) = x_key r \<and> c_registry_revision (x_command r) = x_registry r \<and>
     canon_command (x_command r) = x_command r \<and>
     1 \<le> x_revision r \<and> 0 \<le> x_attempt r \<and> x_fence r = x_attempt r \<and> 0 \<le> x_redeliveries r \<and>
     0 \<le> x_next_at r \<and> 0 \<le> x_created r \<and> x_created r \<le> x_updated r"

definition row_lease_ok :: "exec_row \<Rightarrow> bool" where
  "row_lease_ok r \<longleftrightarrow>
     (if x_state r \<in> {Leased, Running}
      then 1 \<le> x_attempt r \<and> x_lease_id r \<noteq> None \<and> optional_ok nonblank (x_lease_id r) \<and>
        x_lease_owner r \<noteq> None \<and> optional_ok nonblank (x_lease_owner r) \<and>
        x_lease_expires r \<noteq> None \<and> optional_ok (\<lambda>e. 0 \<le> e) (x_lease_expires r)
      else x_lease_id r = None \<and> x_lease_owner r = None \<and> x_lease_expires r = None)"

definition row_result_ok :: "exec_row \<Rightarrow> bool" where
  "row_result_ok r \<longleftrightarrow>
     (terminal (x_state r) \<longleftrightarrow> x_result r \<noteq> None) \<and>
     optional_ok (\<lambda>q. result_ok q \<and> canon_result q = q \<and> r_execution_id q = x_id r \<and>
       r_attempt q = x_attempt r \<and> r_fence q = x_fence r \<and> r_status q = x_state r \<and>
       r_correlation_id q = c_correlation_id (x_command r) \<and>
       r_causation_id q = c_causation_id (x_command r) \<and>
       x_started r = Some (r_started_at q)) (x_result r)"

definition row_recovery_ok :: "exec_row \<Rightarrow> bool" where
  "row_recovery_ok r \<longleftrightarrow>
     (if x_state r = Recovery_Required
      then x_rec_effect r \<noteq> None \<and> optional_ok nonblank (x_rec_effect r) \<and>
        (x_rec_target r = Some ''queued'' \<and> x_rec_reason r = None \<or>
         x_rec_target r = Some ''cancelled'' \<and> x_rec_reason r \<noteq> None \<and>
         optional_ok nonblank (x_rec_reason r))
      else x_rec_effect r = None \<and> x_rec_target r = None \<and> x_rec_reason r = None)"

definition row_started_ok :: "exec_row \<Rightarrow> bool" where
  "row_started_ok r \<longleftrightarrow>
     (x_state r \<in> {Queued, Leased} \<longrightarrow> x_started r = None) \<and>
     (x_state r \<in> {Running, Recovery_Required} \<longrightarrow> x_started r \<noteq> None) \<and>
     optional_ok (\<lambda>s. 0 \<le> s \<and> s \<le> x_updated r) (x_started r)"

definition row_ok :: "exec_row \<Rightarrow> bool" where
  "row_ok r \<longleftrightarrow> row_identity_ok r \<and> row_lease_ok r \<and> row_result_ok r \<and> row_recovery_ok r \<and>
     row_started_ok r"

lemmas row_ok_defs = row_ok_def row_identity_ok_def row_lease_ok_def row_result_ok_def
  row_recovery_ok_def row_started_ok_def

lemma optional_ok_mono: "optional_ok P x \<Longrightarrow> (\<And>a. P a \<Longrightarrow> Q a) \<Longrightarrow> optional_ok Q x"
  by (cases x) auto

lemma command_ok_nonblank: "command_ok c \<Longrightarrow> nonblank (c_execution_id c)"
  by (simp add: command_ok_def)

lemma row_lease_total:
  assumes "row_ok r"
  obtains l where "row_lease r = Inr l" and "optional_ok lease_ok l"
    and "x_state r \<in> {Leased, Running} \<longleftrightarrow> l \<noteq> None"
    and "optional_ok (\<lambda>l. lease_matches r l) l"
proof (cases "x_state r \<in> {Leased, Running}")
  case True
  then obtain i w e where "x_lease_id r = Some i" "x_lease_owner r = Some w" "x_lease_expires r = Some e"
    and "nonblank i" "nonblank w" "0 \<le> e" "1 \<le> x_attempt r"
    using assms by (auto simp: row_ok_def row_lease_ok_def)
  moreover have "nonblank (x_id r)" "1 \<le> x_revision r" "x_fence r = x_attempt r"
    using assms command_ok_nonblank[of "x_command r"] by (auto simp: row_ok_def row_identity_ok_def)
  ultimately show ?thesis
    using that[of "Some \<lparr>l_execution_id = x_id r, l_lease_id = i, l_owner = w, l_fence = x_fence r,
        l_attempt = x_attempt r, l_expires_at = e, l_revision = x_revision r\<rparr>"] True
    by (simp add: row_lease_def lease_ok_def Let_def lease_matches_def)
next
  case False
  then have "x_lease_id r = None" using assms by (simp add: row_ok_def row_lease_ok_def)
  then show ?thesis using that[of None] False by (simp add: row_lease_def)
qed

text \<open>Reading a row of a well-formed store never fails the snapshot's contract.\<close>

lemma row_ok_snapshot:
  assumes "row_ok r"
  obtains l where "snapshot r = Inr (row_snapshot r l)" and "snapshot_wf (row_snapshot r l)"
proof -
  obtain l where l: "row_lease r = Inr l" "optional_ok lease_ok l"
      "x_state r \<in> {Leased, Running} \<longleftrightarrow> l \<noteq> None" "optional_ok (lease_matches r) l"
    using row_lease_total[OF assms] by metis
  let ?s = "row_snapshot r l"
  have n: "nonblank (x_id r)"
    using assms command_ok_nonblank[of "x_command r"] by (auto simp: row_ok_def row_identity_ok_def)
  have ids: "row_identity_ok r" and rec: "row_recovery_ok r" and st: "row_started_ok r"
    and res: "row_result_ok r" using assms by (auto simp: row_ok_def)
  have q: "nonblank ''queued''" "nonblank ''cancelled''" by (simp_all add: nonblank_def is_space_def)
  have "snapshot_fields_ok ?s"
    using ids rec st n q
    by (auto simp: snapshot_fields_ok_def row_snapshot_def row_identity_ok_def row_recovery_ok_def
        row_started_ok_def split: if_splits elim: optional_ok_mono)
  moreover have "snapshot_lease_ok ?s"
    using l(3,4) ids
    by (cases l) (auto simp: snapshot_lease_ok_def row_snapshot_def lease_matches_def)
  moreover have "snapshot_result_ok ?s"
    using res by (cases "x_result r") (auto simp: snapshot_result_ok_def row_snapshot_def row_result_ok_def)
  moreover have "snapshot_recovery_ok ?s"
    using rec by (auto simp: snapshot_recovery_ok_def row_snapshot_def row_recovery_ok_def split: if_splits)
  moreover have "snapshot_times_ok ?s"
    using st res ids
    by (cases "x_result r") (auto simp: snapshot_times_ok_def row_snapshot_def row_started_ok_def
        row_result_ok_def row_identity_ok_def)
  ultimately have ok: "snapshot_ok ?s"
    using ids by (simp add: snapshot_ok_def snapshot_cross_ok_def row_snapshot_def row_identity_ok_def)
  moreover have "optional_ok result_ok (x_result r)"
    using res by (cases "x_result r") (auto simp: row_result_ok_def)
  ultimately have "snapshot_wf ?s"
    using ids l(2) by (simp add: snapshot_wf_def) (simp add: row_snapshot_def row_identity_ok_def)
  moreover have "snapshot r = Inr ?s" using l(1) ok by (simp add: snapshot_def)
  ultimately show ?thesis by (rule that[rotated])
qed

subsection \<open>The database\<close>

definition execs_ok :: "kernel \<Rightarrow> bool" where
  "execs_ok k \<longleftrightarrow>
     exec_table.unique k \<and> distinct (List.map x_key (execs k)) \<and>
     (\<forall>r \<in> set (execs k). row_ok r \<and> x_updated r \<le> watermark k)"

definition events_for :: "string \<Rightarrow> event list \<Rightarrow> event list" where
  "events_for i vs = filter (\<lambda>v. ev_execution_id v = i) vs"

definition log_ok :: "kernel \<Rightarrow> bool" where
  "log_ok k \<longleftrightarrow>
     0 \<le> event_sequence k \<and> List.map ev_sequence (events k) = [1..event_sequence k] \<and>
     (\<forall>v \<in> set (events k). event_ok v \<and>
        ev_event_id v = numbered (ev_execution_id v) (ev_revision v) \<and>
        ev_created_at v \<le> watermark k \<and> ev_execution_id v \<in> x_id ` set (execs k)) \<and>
     (\<forall>r \<in> set (execs k). trail (events_for (x_id r) (events k)) (x_revision r) (x_state r))"

text \<open>The attempt of an execution owns its effects.\<close>

definition owns :: "exec_row \<Rightarrow> effect_record \<Rightarrow> bool" where
  "owns r e \<longleftrightarrow>
     x_id r = e_execution_id e \<and> e_attempt e \<le> x_attempt r \<and>
     (unfinished (e_state e) \<longrightarrow>
        e_attempt e = x_attempt r \<and>
        (x_state r = Running \<and> x_lease_id r = Some (e_lease_id e) \<or>
         x_state r = Recovery_Required \<and> e_state e = Indeterminate))"

definition effect_times_le :: "effect_record \<Rightarrow> rat \<Rightarrow> bool" where
  "effect_times_le e t \<longleftrightarrow> e_prepared_at e \<le> t \<and> opt_le (e_committed_at e) (Some t) \<and>
     opt_le (e_indeterminate_at e) (Some t) \<and> opt_le (e_resolved_at e) (Some t)"

definition parked_for :: "exec_row \<Rightarrow> effect_record \<Rightarrow> bool" where
  "parked_for r e \<longleftrightarrow>
     x_rec_effect r = Some (e_effect_id e) \<and> e_execution_id e = x_id r \<and> e_state e = Indeterminate"

definition effects_ok :: "kernel \<Rightarrow> bool" where
  "effects_ok k \<longleftrightarrow>
     effect_table.unique k \<and>
     (\<forall>e \<in> set (effects k). effect_ok e \<and> e_fence e = e_attempt e \<and> canon (e_request e) = e_request e \<and>
        canon (e_response e) = e_response e \<and> effect_times_le e (watermark k) \<and>
        (\<exists>r \<in> set (execs k). owns r e)) \<and>
     (\<forall>r \<in> set (execs k). x_state r = Recovery_Required \<longrightarrow> (\<exists>e \<in> set (effects k). parked_for r e))"

definition outbox_row_ok :: "outbox_row \<Rightarrow> rat \<Rightarrow> bool" where
  "outbox_row_ok q t \<longleftrightarrow>
     result_ok (o_result q) \<and> r_result_id (o_result q) = o_result_id q \<and>
     r_execution_id (o_result q) = o_execution_id q \<and> optional_ok error_ok (o_last_error q) \<and>
     0 \<le> o_attempts q \<and> o_attempts q \<le> o_max_attempts q \<and> 1 \<le> o_max_attempts q \<and>
     o_attempts q \<le> o_fence q \<and> 1 \<le> o_revision q \<and> 0 \<le> o_created q \<and>
     o_created q \<le> o_updated q \<and> o_updated q \<le> t \<and>
     (o_state q = Delivering \<longleftrightarrow> o_lease_expires q \<noteq> None) \<and>
     (o_state q \<in> {Delivering, Delivered} \<longrightarrow>
        o_lease_id q \<noteq> None \<and> o_lease_owner q \<noteq> None \<and> 1 \<le> o_fence q)"

definition outbox_ok :: "kernel \<Rightarrow> bool" where
  "outbox_ok k \<longleftrightarrow>
     outbox_table.unique k \<and> distinct (List.map o_execution_id (outbox k)) \<and>
     (\<forall>q \<in> set (outbox k). outbox_row_ok q (watermark k) \<and>
        (\<exists>r \<in> set (execs k). x_id r = o_execution_id q \<and> x_result r = Some (o_result q)))"

text \<open>Every ended execution has its outbox row.\<close>

definition delivered_ok :: "kernel \<Rightarrow> bool" where
  "delivered_ok k \<longleftrightarrow>
     (\<forall>r \<in> set (execs k). terminal (x_state r) \<longrightarrow> x_id r \<in> o_execution_id ` set (outbox k))"

definition controls_ok :: "kernel \<Rightarrow> bool" where
  "controls_ok k \<longleftrightarrow>
     control_table.unique k \<and> managed_table.unique k \<and>
     (\<forall>c \<in> set (run_controls k). 0 \<le> rc_claims_used c \<and> rc_claims_used c \<le> rc_max_claims c \<and>
        0 \<le> rc_epoch c \<and> 0 \<le> rc_generation c \<and> 0 \<le> rc_deadline c)"

definition kernel_ok :: "kernel \<Rightarrow> bool" where
  "kernel_ok k \<longleftrightarrow> 0 \<le> watermark k \<and> is_float (watermark k) \<and> execs_ok k \<and> log_ok k \<and> effects_ok k \<and>
     outbox_ok k \<and> delivered_ok k \<and> controls_ok k"

lemma empty_kernel_ok: "kernel_ok empty_kernel"
  by (simp add: kernel_ok_def empty_kernel_def execs_ok_def log_ok_def effects_ok_def outbox_ok_def
      delivered_ok_def controls_ok_def exec_table.unique_def effect_table.unique_def
      outbox_table.unique_def control_table.unique_def managed_table.unique_def)

subsection \<open>An execution moves\<close>

text \<open>
  \<open>moved r r' k t\<close>: the store \<open>t\<close> is \<open>k\<close> with row \<open>r\<close> replaced by \<open>r'\<close> and the log extended so
  that it is well-formed again. Every write of an execution with its event is such a move.
\<close>

definition moved :: "exec_row \<Rightarrow> exec_row \<Rightarrow> kernel \<Rightarrow> kernel \<Rightarrow> bool" where
  "moved r r' k t \<longleftrightarrow>
     (\<exists>rs n vs. t = k\<lparr>execs := rs, event_sequence := n, events := vs\<rparr> \<and>
        set rs = insert r' {q \<in> set (execs k). x_id q \<noteq> x_id r} \<and>
        List.map x_id rs = List.map x_id (execs k) \<and> List.map x_key rs = List.map x_key (execs k)) \<and>
     x_id r' = x_id r \<and> x_key r' = x_key r \<and> r \<in> set (execs k) \<and> log_ok t"

lemma append_event_Inr:
  assumes "append_event i n ty fs tos dat ts k = Inr (v, t)"
  shows "\<exists>w. t = k\<lparr>event_sequence := event_sequence k + 1, events := events k @ [w]\<rparr> \<and>
    event_ok w \<and> ev_sequence w = event_sequence k + 1 \<and> ev_event_id w = numbered i n \<and>
    ev_execution_id w = i \<and> ev_revision w = n \<and> ev_type w = ty \<and> ev_created_at w = ts \<and>
    ev_from_state w = map_option xname fs \<and> ev_to_state w = xname tos \<and> ev_data w = canon dat"
  using assms
  by (auto simp: append_event_def bind_Inr Let_def mk_event_def insert_event_def event_ok_def
      split: if_splits)

lemma update_exec_set:
  assumes "update_exec P f k = Inr (u, t)" and "exec_table.unique k" and "r \<in> set (execs k)" and "P r"
    and "\<And>q. P q \<Longrightarrow> x_id (f q) = x_id q \<and> x_key (f q) = x_key q"
  shows "\<exists>rs. t = k\<lparr>execs := rs\<rparr> \<and> set rs = insert (f r) {q \<in> set (execs k). x_id q \<noteq> x_id r} \<and>
    List.map x_id rs = List.map x_id (execs k) \<and> List.map x_key rs = List.map x_key (execs k)"
proof -
  let ?rs = "List.map (\<lambda>r. if P r then f r else r) (execs k)"
  have t: "t = k\<lparr>execs := ?rs\<rparr>" using assms(1) by (simp add: update_exec_Inr)
  have "set ?rs = insert (f r) {q \<in> set (execs k). x_id q \<noteq> x_id r}"
    using exec_table.update_hits[OF assms(2,1,3,4)] by (simp add: t)
  moreover have "List.map x_id ?rs = List.map x_id (execs k)" "List.map x_key ?rs = List.map x_key (execs k)"
    using assms(5) by simp_all
  ultimately show ?thesis using t by blast
qed

lemma events_for_append: "events_for i (vs @ ws) = events_for i vs @ events_for i ws"
  by (simp add: events_for_def)

lemma events_for_one: "events_for i [v] = (if ev_execution_id v = i then [v] else [])"
  by (simp add: events_for_def)

text \<open>The log after an event of one execution, whose row has moved one revision on.\<close>

lemma log_ok_step:
  assumes log: "log_ok k" and r: "r \<in> set (execs k)"
    and rs: "set (execs t) = insert r' {q \<in> set (execs k). x_id q \<noteq> x_id r}" and id: "x_id r' = x_id r"
    and es: "event_sequence t = event_sequence k + 1" "events t = events k @ [w]" "watermark t = watermark k"
    and w: "event_ok w" "ev_sequence w = event_sequence k + 1" "ev_event_id w = numbered (x_id r) (x_revision r')"
      "ev_execution_id w = x_id r" "ev_revision w = x_revision r'" "ev_created_at w \<le> watermark k"
      "ev_from_state w = Some (xname (x_state r))" "ev_to_state w = xname (x_state r')"
    and st: "step_allowed (x_state r) (x_state r')" and rev: "x_revision r' = x_revision r + 1"
  shows "log_ok t"
proof -
  have seq: "0 \<le> event_sequence k" "List.map ev_sequence (events k) = [1..event_sequence k]"
    and evs: "\<forall>v \<in> set (events k). event_ok v \<and> ev_event_id v = numbered (ev_execution_id v) (ev_revision v) \<and>
      ev_created_at v \<le> watermark k \<and> ev_execution_id v \<in> x_id ` set (execs k)"
    and tr: "\<forall>q \<in> set (execs k). trail (events_for (x_id q) (events k)) (x_revision q) (x_state q)"
    using log by (auto simp: log_ok_def)
  have ids: "x_id ` set (execs t) = x_id ` set (execs k)" using rs id r by auto
  have "List.map ev_sequence (events t) = [1..event_sequence t]"
    using seq es w(2) upto_rec2[of 1 "event_sequence k + 1"] by simp
  moreover have "\<forall>v \<in> set (events t). event_ok v \<and> ev_event_id v = numbered (ev_execution_id v) (ev_revision v) \<and>
      ev_created_at v \<le> watermark t \<and> ev_execution_id v \<in> x_id ` set (execs t)"
    using evs es w ids r by auto
  moreover have "trail (events_for (x_id q) (events t)) (x_revision q) (x_state q)" if "q \<in> set (execs t)" for q
  proof (cases "x_id q = x_id r")
    case True
    then have "q = r'" using that rs id by auto
    moreover have "trail (events_for (x_id r) (events k) @ [w]) (x_revision r + 1) (x_state r')"
      by (rule trail_next[OF tr[rule_format, OF r] st]) (use w rev in auto)
    ultimately show ?thesis using es w id rev by (simp add: events_for_append events_for_one)
  next
    case False
    then have "q \<in> set (execs k)" using that rs id by auto
    then show ?thesis using tr es w False by (simp add: events_for_append events_for_one)
  qed
  ultimately show ?thesis using seq es by (simp add: log_ok_def)
qed

lemma update_event_moved:
  assumes "update_exec P f k = Inr (u, k1)"
    and "append_event (x_id r) (x_revision r + 1) ty (Some (x_state r)) st dat ts k1 = Inr (v, t)"
    and "execs_ok k" and "log_ok k" and "r \<in> set (execs k)" and "P r"
    and "\<And>q. P q \<Longrightarrow> x_id (f q) = x_id q \<and> x_key (f q) = x_key q"
    and "x_state (f r) = st" and "x_revision (f r) = x_revision r + 1"
    and "step_allowed (x_state r) st" and "ts \<le> watermark k"
  shows "moved r (f r) k t"
proof -
  have u: "exec_table.unique k" using assms(3) by (simp add: execs_ok_def)
  obtain rs where k1: "k1 = k\<lparr>execs := rs\<rparr>" and rs: "set rs = insert (f r) {q \<in> set (execs k). x_id q \<noteq> x_id r}"
      "List.map x_id rs = List.map x_id (execs k)" "List.map x_key rs = List.map x_key (execs k)"
    using update_exec_set[OF assms(1) u assms(5,6,7)] by auto
  obtain w where t: "t = k1\<lparr>event_sequence := event_sequence k1 + 1, events := events k1 @ [w]\<rparr>"
    and w: "event_ok w" "ev_sequence w = event_sequence k1 + 1" "ev_event_id w = numbered (x_id r) (x_revision r + 1)"
      "ev_execution_id w = x_id r" "ev_revision w = x_revision r + 1" "ev_created_at w = ts"
      "ev_from_state w = Some (xname (x_state r))" "ev_to_state w = xname st"
    using append_event_Inr[OF assms(2)] by auto
  have id: "x_id (f r) = x_id r" "x_key (f r) = x_key r" using assms(6,7) by auto
  have "log_ok t"
    by (rule log_ok_step[OF assms(4,5), of t "f r" w]) (use t k1 rs w id assms(8-11) in auto)
  then show ?thesis
    unfolding moved_def using t k1 rs id assms(5)
    by (intro conjI exI[of _ rs] exI[of _ "event_sequence k + 1"] exI[of _ "events k @ [w]"]) auto
qed

lemma moved_frame:
  assumes "moved r r' k t"
  shows "effects t = effects k" "effect_events t = effect_events k" "outbox t = outbox k"
    "watermark t = watermark k" "run_controls t = run_controls k" "managed t = managed k"
    "obligations t = obligations k" "producers t = producers k" "lifecycle t = lifecycle k"
    "uuids t = uuids k" "log_ok t"
    "set (execs t) = insert r' {q \<in> set (execs k). x_id q \<noteq> x_id r}"
proof -
  obtain rs n vs where t: "t = k\<lparr>execs := rs, event_sequence := n, events := vs\<rparr>"
      and rs: "set rs = insert r' {q \<in> set (execs k). x_id q \<noteq> x_id r}" and l: "log_ok t"
    using assms unfolding moved_def by blast
  show "effects t = effects k" "effect_events t = effect_events k" "outbox t = outbox k"
    "watermark t = watermark k" "run_controls t = run_controls k" "managed t = managed k"
    "obligations t = obligations k" "producers t = producers k" "lifecycle t = lifecycle k"
    "uuids t = uuids k" "set (execs t) = insert r' {q \<in> set (execs k). x_id q \<noteq> x_id r}"
    using rs by (simp_all add: t)
  show "log_ok t" by (rule l)
qed

lemma moved_execs_ok:
  assumes "moved r r' k t" and "execs_ok k" and "row_ok r'" and "x_updated r' \<le> watermark k"
  shows "execs_ok t"
  using assms by (auto simp: moved_def execs_ok_def exec_table.unique_def)

lemma moved_find:
  assumes "moved r r' k t" and "execs_ok k"
  shows "find_exec (x_id r) t = Some r'"
proof -
  have "exec_table.unique t" using assms by (auto simp: moved_def execs_ok_def exec_table.unique_def)
  then show ?thesis using assms by (simp add: exec_table.find_row_iff) (auto simp: moved_def)
qed

text \<open>The effects are in order but for the recovery pointer of \<open>r\<close>.\<close>

definition effects_but :: "exec_row \<Rightarrow> kernel \<Rightarrow> bool" where
  "effects_but r k \<longleftrightarrow>
     effect_table.unique k \<and>
     (\<forall>e \<in> set (effects k). effect_ok e \<and> e_fence e = e_attempt e \<and> canon (e_request e) = e_request e \<and>
        canon (e_response e) = e_response e \<and> effect_times_le e (watermark k) \<and>
        (\<exists>q \<in> set (execs k). owns q e)) \<and>
     (\<forall>q \<in> set (execs k). q \<noteq> r \<longrightarrow> x_state q = Recovery_Required \<longrightarrow> (\<exists>e \<in> set (effects k). parked_for q e))"

lemma effects_but: "effects_ok k \<Longrightarrow> effects_but r k"
  by (simp add: effects_ok_def effects_but_def)

definition kernel_but :: "exec_row \<Rightarrow> kernel \<Rightarrow> bool" where
  "kernel_but r k \<longleftrightarrow> 0 \<le> watermark k \<and> is_float (watermark k) \<and> execs_ok k \<and> log_ok k \<and> effects_but r k \<and>
     outbox_ok k \<and> delivered_ok k \<and> controls_ok k"

lemma kernel_but: "kernel_ok k \<Longrightarrow> kernel_but r k"
  by (simp add: kernel_ok_def kernel_but_def effects_but)

text \<open>
  The effects after a move: the owner of each effect of the moved execution is its new row.
\<close>

lemma moved_effects_ok:
  assumes m: "moved r r' k t" and k: "effects_but r k" "execs_ok k"
    and own: "\<And>e. e \<in> set (effects k) \<Longrightarrow> owns r e \<Longrightarrow> owns r' e"
    and park: "x_state r' = Recovery_Required \<Longrightarrow> \<exists>e \<in> set (effects k). parked_for r' e"
  shows "effects_ok t"
proof -
  note f = moved_frame[OF m]
  have u: "effect_table.unique t" using k f by (simp add: effects_but_def effect_table.unique_def)
  have o: "\<exists>q \<in> set (execs t). owns q e" if e: "e \<in> set (effects k)" for e
  proof -
    obtain q where q: "q \<in> set (execs k)" "owns q e" using k(1) e by (auto simp: effects_but_def)
    show ?thesis
    proof (cases "x_id q = x_id r")
      case True
      then have "q = r"
        using k(2) q(1) m by (auto simp: execs_ok_def moved_def dest: exec_table.key_inj)
      then show ?thesis using own[OF e] q f by auto
    qed (use q f in auto)
  qed
  have "\<forall>q \<in> set (execs t). x_state q = Recovery_Required \<longrightarrow> (\<exists>e \<in> set (effects t). parked_for q e)"
    using k(1) park f by (auto simp: effects_but_def)
  then show ?thesis using k(1) u o f by (simp add: effects_ok_def effects_but_def)
qed

lemma moved_outbox_ok:
  assumes m: "moved r r' k t" and k: "outbox_ok k" "delivered_ok k" "execs_ok k"
    and "\<not> terminal (x_state r)" and "\<not> terminal (x_state r')"
  shows "outbox_ok t" "delivered_ok t"
proof -
  note f = moved_frame[OF m]
  have r: "x_result r = None" "r \<in> set (execs k)" and u: "exec_table.unique k"
    using m k(3) assms(5) by (auto simp: moved_def execs_ok_def row_ok_def row_result_ok_def)
  have "\<exists>x \<in> set (execs t). x_id x = o_execution_id q \<and> x_result x = Some (o_result q)"
    if q: "q \<in> set (outbox k)" for q
  proof -
    obtain x where x: "x \<in> set (execs k)" "x_id x = o_execution_id q" "x_result x = Some (o_result q)"
      using k(1) q unfolding outbox_ok_def by blast
    have "x \<noteq> r" using x(3) r(1) by auto
    then have "x_id x \<noteq> x_id r" using exec_table.key_inj[OF u x(1) r(2)] by blast
    then have "x \<in> set (execs t)" using x(1) unfolding f(12) by simp
    then show ?thesis using x(2,3) by blast
  qed
  then show "outbox_ok t" using k(1) f(3,4) by (simp add: outbox_ok_def outbox_table.unique_def)
  show "delivered_ok t" using k(2) f(3,12) assms(6) by (auto simp: delivered_ok_def)
qed

lemma moved_kernel_ok:
  assumes m: "moved r r' k t" and k: "kernel_but r k"
    and "row_ok r'" and "x_updated r' \<le> watermark k"
    and "\<And>e. e \<in> set (effects k) \<Longrightarrow> owns r e \<Longrightarrow> owns r' e"
    and "x_state r' = Recovery_Required \<Longrightarrow> \<exists>e \<in> set (effects k). parked_for r' e"
    and "\<not> terminal (x_state r)" and "\<not> terminal (x_state r')"
  shows "kernel_ok t"
proof -
  note f = moved_frame[OF m]
  have k': "execs_ok k" "effects_but r k" "outbox_ok k" "delivered_ok k" "controls_ok k"
    using k by (auto simp: kernel_but_def)
  have "controls_ok t"
    using k'(5) f by (simp add: controls_ok_def control_table.unique_def managed_table.unique_def)
  then show ?thesis
    using k f moved_execs_ok[OF m k'(1) assms(3,4)] moved_effects_ok[OF m k'(2,1) assms(5,6)]
      moved_outbox_ok[OF m k'(3,4,1) assms(7,8)]
    by (simp add: kernel_ok_def kernel_but_def)
qed

end
