(* ===== verification/Parking.thy ===== *)
theory Parking
  imports Invariants
begin

text \<open>
  Preservation of the invariant by the writes of one effect, and what parking does: it turns
  every unfinished effect of an execution indeterminate, points the execution at one of
  them and leaves the rest of the store alone; it does nothing when no effect is unfinished.
\<close>

subsection \<open>One effect changes\<close>

definition changed :: "effect_record \<Rightarrow> effect_record \<Rightarrow> kernel \<Rightarrow> kernel \<Rightarrow> bool" where
  "changed e e' k t \<longleftrightarrow>
     (\<exists>es vs n. t = k\<lparr>effects := es, effect_events := vs, uuids := n\<rparr> \<and>
        set es = insert e' {q \<in> set (effects k). e_effect_id q \<noteq> e_effect_id e} \<and>
        List.map e_effect_id es = List.map e_effect_id (effects k)) \<and>
     e_effect_id e' = e_effect_id e \<and> e \<in> set (effects k)"

lemma get_effect_Inr: "get_effect i k = Inr (e, t) \<longleftrightarrow> t = k \<and> find_effect i k = Some e \<and> effect_ok e"
  by (auto simp: get_effect_def bind_Inr mk_effect_Inr)

lemma effect_event_Inr: "effect_event e ty fs dat ts k = Inr (u, t) \<Longrightarrow> \<exists>vs. t = k\<lparr>effect_events := vs\<rparr>"
  by (auto simp: effect_event_def rbind_eq_Inr Let_def)

lemma update_effect_set:
  assumes "update_effect P f k = Inr (u, t)" and "effect_table.unique k" and "e \<in> set (effects k)" and "P e"
    and "\<And>q. P q \<Longrightarrow> e_effect_id (f q) = e_effect_id q"
  shows "\<exists>es. t = k\<lparr>effects := es\<rparr> \<and>
    set es = insert (f e) {q \<in> set (effects k). e_effect_id q \<noteq> e_effect_id e} \<and>
    List.map e_effect_id es = List.map e_effect_id (effects k)"
proof -
  let ?es = "List.map (\<lambda>r. if P r then f r else r) (effects k)"
  have t: "t = k\<lparr>effects := ?es\<rparr>" using assms(1) by (simp add: update_effect_Inr)
  have "set ?es = insert (f e) {q \<in> set (effects k). e_effect_id q \<noteq> e_effect_id e}"
    using effect_table.update_hits[OF assms(2,1,3,4)] by (simp add: t)
  moreover have "List.map e_effect_id ?es = List.map e_effect_id (effects k)" using assms(5) by simp
  ultimately show ?thesis using t by blast
qed

text \<open>The update of one effect, its re-read and its event: the shape of every effect operation.\<close>

lemma update_effect_changed:
  assumes "update_effect P f k = Inr (u, k1)" and "get_effect (e_effect_id e) k1 = Inr (c, k2)"
    and "effect_event c ty fs dat ts k2 = Inr (w, t)"
    and "effect_table.unique k" and "e \<in> set (effects k)" and "P e"
    and "\<And>q. P q \<Longrightarrow> e_effect_id (f q) = e_effect_id q"
  shows "changed e (f e) k t" and "c = f e" and "effect_ok (f e)"
proof -
  have id: "e_effect_id (f e) = e_effect_id e" using assms(6,7) by simp
  obtain es where k1: "k1 = k\<lparr>effects := es\<rparr>"
      and es: "set es = insert (f e) {q \<in> set (effects k). e_effect_id q \<noteq> e_effect_id e}"
        "List.map e_effect_id es = List.map e_effect_id (effects k)"
    using update_effect_set[OF assms(1,4,5,6,7)] by auto
  have u: "effect_table.unique k1" using assms(4) es by (simp add: effect_table.unique_def k1)
  have "find_effect (e_effect_id e) k1 = Some (f e)"
    using u id es by (simp add: effect_table.find_row_iff k1)
  then show c: "c = f e" "effect_ok (f e)" using assms(2) by (auto simp: get_effect_Inr)
  obtain vs where t: "t = k2\<lparr>effect_events := vs\<rparr>" using effect_event_Inr[OF assms(3)] by auto
  have "k2 = k1" using assms(2) by (simp add: get_effect_Inr)
  then show "changed e (f e) k t"
    unfolding changed_def using t k1 es id assms(5)
    by (intro conjI exI[of _ es] exI[of _ vs] exI[of _ "uuids k"]) auto
qed

lemma changed_frame:
  assumes "changed e e' k t"
  shows "execs t = execs k" "outbox t = outbox k" "watermark t = watermark k" "events t = events k"
    "event_sequence t = event_sequence k" "run_controls t = run_controls k" "managed t = managed k"
    "obligations t = obligations k" "producers t = producers k" "lifecycle t = lifecycle k"
    "set (effects t) = insert e' {q \<in> set (effects k). e_effect_id q \<noteq> e_effect_id e}"
    "List.map e_effect_id (effects t) = List.map e_effect_id (effects k)"
proof -
  obtain es vs n where t: "t = k\<lparr>effects := es, effect_events := vs, uuids := n\<rparr>"
      and es: "set es = insert e' {q \<in> set (effects k). e_effect_id q \<noteq> e_effect_id e}"
        "List.map e_effect_id es = List.map e_effect_id (effects k)"
    using assms unfolding changed_def by blast
  show "execs t = execs k" "outbox t = outbox k" "watermark t = watermark k" "events t = events k"
    "event_sequence t = event_sequence k" "run_controls t = run_controls k" "managed t = managed k"
    "obligations t = obligations k" "producers t = producers k" "lifecycle t = lifecycle k"
    "set (effects t) = insert e' {q \<in> set (effects k). e_effect_id q \<noteq> e_effect_id e}"
    "List.map e_effect_id (effects t) = List.map e_effect_id (effects k)"
    using es by (simp_all add: t)
qed

definition effect_row_ok :: "effect_record \<Rightarrow> rat \<Rightarrow> bool" where
  "effect_row_ok e t \<longleftrightarrow> effect_ok e \<and> e_fence e = e_attempt e \<and> canon (e_request e) = e_request e \<and>
     canon (e_response e) = e_response e \<and> effect_times_le e t"

lemma effects_ok_alt: "effects_ok k \<longleftrightarrow>
     effect_table.unique k \<and>
     (\<forall>e \<in> set (effects k). effect_row_ok e (watermark k) \<and> (\<exists>r \<in> set (execs k). owns r e)) \<and>
     (\<forall>r \<in> set (execs k). x_state r = Recovery_Required \<longrightarrow> (\<exists>e \<in> set (effects k). parked_for r e))"
  by (auto simp: effects_ok_def effect_row_ok_def)

lemma changed_effects_ok:
  assumes c: "changed e e' k t" and k: "effects_ok k"
    and ok: "effect_row_ok e' (watermark k)" "\<exists>r \<in> set (execs k). owns r e'"
    and park: "\<And>r. r \<in> set (execs k) \<Longrightarrow> parked_for r e \<Longrightarrow> parked_for r e'"
  shows "effects_ok t"
proof -
  note f = changed_frame[OF c]
  have u: "effect_table.unique t" using k f(12) by (simp add: effects_ok_def effect_table.unique_def)
  have "\<exists>q \<in> set (effects t). parked_for r q" if r: "r \<in> set (execs k)" "x_state r = Recovery_Required" for r
  proof -
    obtain q where q: "q \<in> set (effects k)" "parked_for r q" using k r unfolding effects_ok_def by blast
    have uk: "effect_table.unique k" and ek: "e \<in> set (effects k)"
      using k c by (auto simp: effects_ok_def changed_def)
    show ?thesis
    proof (cases "e_effect_id q = e_effect_id e")
      case True
      then have "q = e" using effect_table.key_inj[OF uk q(1) ek] by blast
      then show ?thesis using park[OF r(1)] q(2) unfolding f(11) by blast
    next
      case False
      then show ?thesis using q unfolding f(11) by blast
    qed
  qed
  moreover have "effect_row_ok q (watermark t) \<and> (\<exists>r \<in> set (execs t). owns r q)" if "q \<in> set (effects t)" for q
    using that ok k unfolding effects_ok_alt f(1,3,11) by blast
  ultimately show ?thesis using u unfolding effects_ok_alt f(1) by blast
qed

lemma changed_kernel_ok:
  assumes c: "changed e e' k t" and k: "kernel_ok k" and e: "effects_ok t"
  shows "kernel_ok t"
  using k e unfolding kernel_ok_def execs_ok_def log_ok_def outbox_ok_def delivered_ok_def
    controls_ok_def exec_table.unique_def outbox_table.unique_def control_table.unique_def
    managed_table.unique_def changed_frame(1-10)[OF c]
  by blast

subsection \<open>The loop over the unfinished effects\<close>

definition indeterminate_form :: "rat \<Rightarrow> string \<Rightarrow> effect_record \<Rightarrow> effect_record" where
  "indeterminate_form timestamp trigger e =
     (if e_state e \<in> {Prepared, Performing} then
        e\<lparr>e_state := Indeterminate, e_response := canon (error_to_dict (uncertain_detail trigger e)),
          e_indeterminate_at := Some timestamp, e_recovery_id := None, e_recovery_decision := None,
          e_resolved_at := None, e_revision := e_revision e + 1\<rparr>
      else e)"

lemma indeterminate_form_fields [simp]:
  "e_effect_id (indeterminate_form ts tr e) = e_effect_id e"
  "e_execution_id (indeterminate_form ts tr e) = e_execution_id e"
  "e_attempt (indeterminate_form ts tr e) = e_attempt e" "e_fence (indeterminate_form ts tr e) = e_fence e"
  "e_lease_id (indeterminate_form ts tr e) = e_lease_id e"
  by (simp_all add: indeterminate_form_def)

lemma indeterminate_form_state:
  "unfinished (e_state e) \<Longrightarrow> e_state (indeterminate_form ts tr e) = Indeterminate"
  by (cases "e_state e") (simp_all add: indeterminate_form_def)

lemma indeterminate_form_finished:
  "\<not> unfinished (e_state e) \<Longrightarrow> indeterminate_form ts tr e = e"
  by (cases "e_state e") (simp_all add: indeterminate_form_def)

text \<open>One round: the row of this effect is replaced by its indeterminate form.\<close>

definition settled :: "rat \<Rightarrow> string \<Rightarrow> string set \<Rightarrow> kernel \<Rightarrow> kernel \<Rightarrow> bool" where
  "settled timestamp trigger ids k t \<longleftrightarrow>
     (\<exists>vs. t = k\<lparr>effects := List.map (\<lambda>e. if e_effect_id e \<in> ids then indeterminate_form timestamp trigger e
                                 else e) (effects k), effect_events := vs\<rparr>)"

lemma park_effect_settled:
  assumes run: "park_effect ts tr e k = Inr (i, t)" and u: "effect_table.unique k" and e: "e \<in> set (effects k)"
  shows "i = e_effect_id e \<and> settled ts tr {e_effect_id e} k t"
proof -
  have only: "q = e" if "q \<in> set (effects k)" "e_effect_id q = e_effect_id e" for q
    using effect_table.key_inj[OF u that(1) e that(2)] .
  show ?thesis
  proof (cases "e_state e \<in> {Prepared, Performing}")
    case False
    then have "i = e_effect_id e" "t = k" using run by (auto simp: park_effect_def bind_Inr mk_effect_Inr)
    moreover have "List.map (\<lambda>q. if e_effect_id q \<in> {e_effect_id e} then indeterminate_form ts tr q else q)
        (effects k) = effects k"
      by (rule map_idI) (use only False in \<open>auto simp: indeterminate_form_def\<close>)
    ultimately show ?thesis by (auto simp: settled_def intro!: exI[of _ "effect_events k"])
  next
    case True
    let ?P = "\<lambda>x. e_effect_id x = e_effect_id e \<and> e_state x = e_state e \<and> e_revision x = e_revision e"
    let ?f = "\<lambda>x. x\<lparr>e_state := Indeterminate, e_response := canon (error_to_dict (uncertain_detail tr e)),
      e_indeterminate_at := Some ts, e_recovery_id := None, e_recovery_decision := None,
      e_resolved_at := None, e_revision := e_revision e + 1\<rparr>"
    obtain k1 c k2 w ty dat where up: "update_effect ?P ?f k = Inr ((), k1)"
        and g: "get_effect (e_effect_id e) k1 = Inr (c, k2)"
        and ev: "effect_event c ty (Some (effect_name (e_state e))) dat ts k2 = Inr (w, t)" and i: "i = e_effect_id e"
      using run True by (auto simp: park_effect_def bind_Inr mk_effect_Inr)
    obtain vs where t: "t = k2\<lparr>effect_events := vs\<rparr>" using effect_event_Inr[OF ev] by auto
    have k1: "k1 = k\<lparr>effects := List.map (\<lambda>r. if ?P r then ?f r else r) (effects k)\<rparr>"
      using up by (simp add: update_effect_Inr)
    have "List.map (\<lambda>r. if ?P r then ?f r else r) (effects k) =
        List.map (\<lambda>q. if e_effect_id q \<in> {e_effect_id e} then indeterminate_form ts tr q else q) (effects k)"
    proof (rule map_cong[OF refl])
      fix q assume q: "q \<in> set (effects k)"
      show "(if ?P q then ?f q else q) =
          (if e_effect_id q \<in> {e_effect_id e} then indeterminate_form ts tr q else q)"
      proof (cases "e_effect_id q = e_effect_id e")
        case eq: True
        then have "q = e" using only q by blast
        then show ?thesis using True by (simp add: indeterminate_form_def)
      qed simp
    qed
    then show ?thesis using i t k1 g by (auto simp: settled_def get_effect_Inr intro!: exI[of _ vs])
  qed
qed

lemma settled_compose:
  assumes "settled ts tr A k k1" and "settled ts tr B k1 t" and "A \<inter> B = {}"
  shows "settled ts tr (A \<union> B) k t"
proof -
  obtain vs where k1: "k1 = k\<lparr>effects := List.map (\<lambda>e. if e_effect_id e \<in> A then indeterminate_form ts tr e
      else e) (effects k), effect_events := vs\<rparr>" using assms(1) by (auto simp: settled_def)
  obtain ws where t: "t = k1\<lparr>effects := List.map (\<lambda>e. if e_effect_id e \<in> B then indeterminate_form ts tr e
      else e) (effects k1), effect_events := ws\<rparr>" using assms(2) by (auto simp: settled_def)
  have "List.map (\<lambda>e. if e_effect_id e \<in> B then indeterminate_form ts tr e else e) (effects k1) =
      List.map (\<lambda>e. if e_effect_id e \<in> A \<union> B then indeterminate_form ts tr e else e) (effects k)"
    using assms(3) by (auto simp: k1)
  then show ?thesis by (auto simp: settled_def t k1 intro!: exI[of _ ws])
qed

lemma settled_ids: "settled ts tr A k t \<Longrightarrow> List.map e_effect_id (effects t) = List.map e_effect_id (effects k)"
  by (auto simp: settled_def)

lemma settled_unique: "settled ts tr A k t \<Longrightarrow> effect_table.unique k \<Longrightarrow> effect_table.unique t"
  by (simp add: effect_table.unique_def settled_ids)

lemma park_loop_settled:
  assumes "each (park_effect ts tr) rows k = Inr (ids, t)" and "effect_table.unique k"
    and "set rows \<subseteq> set (effects k)" and "distinct (List.map e_effect_id rows)"
  shows "ids = List.map e_effect_id rows \<and> settled ts tr (set ids) k t"
  using assms
proof (induction rows arbitrary: k ids)
  case Nil
  then show ?case by (auto simp: settled_def intro!: exI[of _ "effect_events k"])
next
  case (Cons e rows)
  obtain i k1 js where s1: "park_effect ts tr e k = Inr (i, k1)"
      and s2: "each (park_effect ts tr) rows k1 = Inr (js, t)" and ids: "ids = i # js"
    using Cons.prems(1) by (auto simp: bind_Inr)
  have one: "i = e_effect_id e" "settled ts tr {e_effect_id e} k k1"
    using park_effect_settled[OF s1 Cons.prems(2)] Cons.prems(3) by auto
  have "set rows \<subseteq> set (effects k1)"
  proof
    fix q assume q: "q \<in> set rows"
    then have "e_effect_id q \<in> set (List.map e_effect_id rows)" by simp
    then have "e_effect_id q \<noteq> e_effect_id e" using Cons.prems(4) by auto
    then show "q \<in> set (effects k1)" using q Cons.prems(3) one(2) by (auto simp: settled_def image_iff)
  qed
  then have two: "js = List.map e_effect_id rows" "settled ts tr (set js) k1 t"
    using Cons.IH[OF s2 settled_unique[OF one(2) Cons.prems(2)]] Cons.prems(4) by auto
  have "{e_effect_id e} \<inter> set js = {}" using Cons.prems(4) two(1) by auto
  from settled_compose[OF one(2) two(2) this] show ?case using one(1) two(1) ids by simp
qed

lemma indeterminate_form_row_ok:
  assumes "effect_row_ok e t" and "0 \<le> t"
  shows "effect_row_ok (indeterminate_form t tr e) t"
proof (cases "e_state e \<in> {Prepared, Performing}")
  case True
  let ?e = "indeterminate_form t tr e"
  have ok: "effect_fields_ok e" "effect_state_ok e" and le: "e_prepared_at e \<le> t"
    using assms by (auto simp: effect_row_ok_def effect_ok_def effect_times_le_def)
  have j: "json_ok (error_to_dict (uncertain_detail tr e))"
    by (simp add: error_to_dict_def uncertain_detail_def)
  have "effect_fields_ok ?e" using ok True j assms(2) by (auto simp: effect_fields_ok_def indeterminate_form_def)
  moreover have "e_committed_at e = None" using ok True by (auto simp: effect_state_ok_def)
  then have "effect_state_ok ?e" "effect_recovery_ok ?e" "effect_times_le ?e t"
    using True le by (auto simp: effect_state_ok_def effect_recovery_ok_def effect_times_le_def indeterminate_form_def)
  ultimately show ?thesis
    using assms True by (auto simp: effect_row_ok_def effect_ok_def indeterminate_form_def)
qed (use assms in \<open>simp add: indeterminate_form_def\<close>)

lemma indeterminate_form_owns: "owns r e \<Longrightarrow> owns r (indeterminate_form ts tr e)"
  by (cases "e_state e") (auto simp: owns_def indeterminate_form_def)

lemma indeterminate_form_parked: "parked_for r e \<Longrightarrow> indeterminate_form ts tr e = e"
  by (simp add: parked_for_def indeterminate_form_def)

lemma settled_frame:
  assumes "settled ts tr A k t"
  shows "execs t = execs k" "outbox t = outbox k" "watermark t = watermark k" "events t = events k"
    "event_sequence t = event_sequence k" "run_controls t = run_controls k" "managed t = managed k"
    "obligations t = obligations k" "producers t = producers k" "lifecycle t = lifecycle k" "uuids t = uuids k"
    "set (effects t) = (\<lambda>e. if e_effect_id e \<in> A then indeterminate_form ts tr e else e) ` set (effects k)"
  using assms by (auto simp: settled_def)

lemma settled_kernel_ok:
  assumes s: "settled (watermark k) tr A k t" and k: "kernel_ok k"
  shows "kernel_ok t"
proof -
  note f = settled_frame[OF s]
  have ek: "effects_ok k" and w: "0 \<le> watermark k" using k by (auto simp: kernel_ok_def)
  have "effect_table.unique t" using settled_unique[OF s] ek by (simp add: effects_ok_def)
  moreover have "effect_row_ok q (watermark t) \<and> (\<exists>r \<in> set (execs t). owns r q)" if "q \<in> set (effects t)" for q
    using that ek indeterminate_form_row_ok[OF _ w] indeterminate_form_owns
    unfolding effects_ok_alt f(1,3,12) by (auto split: if_splits) blast+
  moreover have "\<exists>e \<in> set (effects t). parked_for r e" if r: "r \<in> set (execs t)" "x_state r = Recovery_Required" for r
  proof -
    obtain e where e: "e \<in> set (effects k)" "parked_for r e"
      using ek r unfolding effects_ok_alt f(1) by blast
    have "e \<in> set (effects t)" unfolding f(12)
      by (rule image_eqI[where x = e]) (use e indeterminate_form_parked[OF e(2)] in auto)
    then show ?thesis using e(2) by blast
  qed
  ultimately have "effects_ok t" unfolding effects_ok_alt by blast
  then show ?thesis
    using k unfolding kernel_ok_def execs_ok_def log_ok_def outbox_ok_def delivered_ok_def
      controls_ok_def exec_table.unique_def outbox_table.unique_def control_table.unique_def
      managed_table.unique_def f(1-11) by blast
qed

subsection \<open>Parking preserves the invariant\<close>

lemma owner_of:
  assumes "kernel_ok k" and "e \<in> set (effects k)" and "r \<in> set (execs k)" and "e_execution_id e = x_id r"
  shows "owns r e"
proof -
  obtain q where q: "q \<in> set (execs k)" "owns q e"
    using assms(1,2) unfolding kernel_ok_def effects_ok_def by blast
  then have "x_id q = x_id r" using assms(4) by (simp add: owns_def)
  then have "q = r" using exec_table.key_inj q(1) assms(1,3) by (auto simp: kernel_ok_def execs_ok_def)
  then show ?thesis using q(2) by simp
qed

text \<open>The moves of parking, on a store whose uncertain effects are indeterminate already.\<close>

lemma park_move_ok:
  assumes k: "kernel_ok k" and m: "moved r r' k t" and st: "x_state r \<in> {Running, Recovery_Required}"
    and r': "x_state r' = Recovery_Required" "x_attempt r' = x_attempt r" "row_ok r'" "x_updated r' \<le> watermark k"
    and ind: "\<And>e. e \<in> set (effects k) \<Longrightarrow> e_execution_id e = x_id r \<Longrightarrow> unfinished (e_state e) \<Longrightarrow>
      e_state e = Indeterminate"
    and p: "p \<in> set (effects k)" "parked_for r' p"
  shows "kernel_ok t"
proof (rule moved_kernel_ok[OF m kernel_but[OF k] r'(3,4)])
  have id: "x_id r' = x_id r" using m by (simp add: moved_def)
  show "owns r' e" if "e \<in> set (effects k)" "owns r e" for e
    using that ind[of e] r' id st by (auto simp: owns_def)
  show "\<exists>e \<in> set (effects k). parked_for r' e" using p by blast
  show "\<not> terminal (x_state r)" "\<not> terminal (x_state r')" using st r'(1) by auto
qed

definition park_result :: "exec_row \<Rightarrow> snapshot \<Rightarrow> kernel \<Rightarrow> bool" where
  "park_result r s t \<longleftrightarrow>
     (\<exists>r'. find_exec (x_id r) t = Some r' \<and> x_state r' = Recovery_Required \<and> snapshot r' = Inr s)"

lemma get_snapshot_Inr: "get_snapshot i k = Inr (s, t) \<longleftrightarrow>
    t = k \<and> (\<exists>r. find_exec i k = Some r \<and> snapshot r = Inr s)"
  by (auto simp: get_snapshot_def bind_Inr get_row_Inr)

definition parked_row ::
  "exec_row \<Rightarrow> rat \<Rightarrow> string \<Rightarrow> string \<Rightarrow> string option \<Rightarrow> exec_row" where
  "parked_row r ts pointer tgt reason =
     r\<lparr>x_state := Recovery_Required, x_lease_id := None, x_lease_owner := None,
       x_lease_expires := None, x_started := (case x_started r of None \<Rightarrow> Some ts | s \<Rightarrow> s),
       x_rec_effect := Some pointer, x_rec_target := Some tgt, x_rec_reason := reason,
       x_revision := x_revision r + 1, x_updated := ts\<rparr>"

lemma parked_row_ok:
  assumes "row_ok r" and "x_state r \<in> {Running, Recovery_Required}" and "x_updated r \<le> ts"
    and "nonblank pointer"
    and "tgt = ''queued'' \<and> reason = None \<or> tgt = ''cancelled'' \<and> reason \<noteq> None \<and> optional_ok nonblank reason"
  shows "row_ok (parked_row r ts pointer tgt reason)"
proof -
  have q: "x_created r \<le> ts" using assms(1,3) by (auto simp: row_ok_def row_identity_ok_def)
  have "x_result r = None" using assms(1,2) by (auto simp: row_ok_def row_result_ok_def)
  moreover obtain s where "x_started r = Some s" "0 \<le> s" "s \<le> ts"
    using assms(1-3) by (auto simp: row_ok_def row_started_ok_def)
  ultimately show ?thesis
    using assms(1,2,4,5) q
    by (auto simp: row_ok_def row_identity_ok_def row_lease_ok_def row_result_ok_def row_recovery_ok_def
        row_started_ok_def parked_row_def)
qed

lemma park_now_ok:
  assumes run: "park_now r ts tr cr tgt ids pointer n k = Inr (s, t)"
    and k: "kernel_ok k" and r: "r \<in> set (execs k)" "x_state r = Running" and ts: "watermark k = ts"
    and tgt: "tgt = ''queued'' \<and> cr = None \<or> tgt = ''cancelled'' \<and> cr \<noteq> None \<and> optional_ok nonblank cr"
    and ind: "\<And>e. e \<in> set (effects k) \<Longrightarrow> e_execution_id e = x_id r \<Longrightarrow> unfinished (e_state e) \<Longrightarrow>
      e_state e = Indeterminate"
    and p: "p \<in> set (effects k)" "e_effect_id p = pointer" "e_execution_id p = x_id r" "e_state p = Indeterminate"
  shows "kernel_ok t \<and> watermark t = ts \<and> park_result r s t"
proof -
  let ?P = "\<lambda>x. x_id x = x_id r \<and> x_state x = x_state r \<and> x_revision x = x_revision r"
  let ?reason = "if tgt = ''cancelled'' then cr else None"
  let ?f = "\<lambda>x. x\<lparr>x_state := Recovery_Required, x_lease_id := None, x_lease_owner := None,
      x_lease_expires := None, x_started := (case x_started x of None \<Rightarrow> Some ts | s \<Rightarrow> s),
      x_rec_effect := Some pointer, x_rec_target := Some tgt, x_rec_reason := ?reason,
      x_revision := x_revision r + 1, x_updated := ts\<rparr>"
  obtain k1 ty dat v t' where up: "update_exec ?P ?f k = Inr ((), k1)"
      and ev: "append_event (x_id r) (x_revision r + 1) ty (Some (x_state r)) Recovery_Required dat ts k1 = Inr (v, t')"
      and g: "get_snapshot (x_id r) t' = Inr (s, t)"
    using run by (auto simp: park_now_def bind_Inr Let_def)
  have xk: "execs_ok k" "log_ok k" and rk: "row_ok r" "x_updated r \<le> ts"
    using k r ts by (auto simp: kernel_ok_def execs_ok_def)
  have fr: "?f r = parked_row r ts pointer tgt ?reason" by (simp add: parked_row_def)
  have m: "moved r (?f r) k t'"
    by (rule update_event_moved[OF up ev xk r(1)]) (use r ts in \<open>auto simp: step_allowed_def\<close>)
  have np: "nonblank pointer"
    using k p(1,2) by (auto simp: kernel_ok_def effects_ok_def effect_ok_def effect_fields_ok_def)
  have ok: "row_ok (?f r)" unfolding fr by (rule parked_row_ok[OF rk(1) _ rk(2) np]) (use r tgt in auto)
  have "kernel_ok t'"
    by (rule park_move_ok[OF k m _ _ _ ok _ ind p(1)]) (use r ts p in \<open>auto simp: parked_for_def\<close>)
  moreover have "find_exec (x_id r) t' = Some (?f r)" by (rule moved_find[OF m xk(1)])
  ultimately show ?thesis
    using g moved_frame(4)[OF m] ts by (auto simp: get_snapshot_Inr park_result_def)
qed

lemma repark_ok:
  assumes run: "repark r ts tr cr req ids pointer n k = Inr (s, t)"
    and k: "kernel_ok k" and r: "r \<in> set (execs k)" "x_state r = Recovery_Required" and ts: "watermark k = ts"
    and req: "req = ''queued'' \<and> cr = None \<or> req = ''cancelled'' \<and> cr \<noteq> None \<and> optional_ok nonblank cr"
    and p: "p \<in> set (effects k)" "e_effect_id p = pointer" "e_execution_id p = x_id r" "e_state p = Indeterminate"
  shows "kernel_ok t \<and> watermark t = ts \<and> park_result r s t"
proof -
  let ?tgt = "if x_rec_target r = Some ''cancelled'' \<or> req = ''cancelled'' then ''cancelled'' else ''queued''"
  let ?reason = "if x_rec_target r = Some ''cancelled'' then x_rec_reason r
    else if ?tgt = ''cancelled'' then cr else None"
  have xk: "execs_ok k" "log_ok k" and rk: "row_ok r" "x_updated r \<le> ts"
    using k r ts by (auto simp: kernel_ok_def execs_ok_def)
  have fr0: "find_exec (x_id r) k = Some r"
    using xk(1) r(1) by (simp add: execs_ok_def exec_table.find_row_iff)
  show ?thesis
  proof (cases "x_rec_effect r = Some pointer \<and> x_rec_target r = Some ?tgt \<and> x_rec_reason r = ?reason")
    case True
    then have "snapshot r = Inr s" "t = k" using run by (auto simp: repark_def Let_def)
    then show ?thesis using k ts fr0 r(2) by (auto simp: park_result_def)
  next
    case False
    let ?P = "\<lambda>x. x_id x = x_id r \<and> x_state x = Recovery_Required \<and> x_revision x = x_revision r"
    let ?f = "\<lambda>x. x\<lparr>x_rec_effect := Some pointer, x_rec_target := Some ?tgt, x_rec_reason := ?reason,
        x_revision := x_revision r + 1, x_updated := ts\<rparr>"
    obtain k1 ty dat v t' where up: "update_exec ?P ?f k = Inr ((), k1)"
        and ev: "append_event (x_id r) (x_revision r + 1) ty (Some Recovery_Required) Recovery_Required dat ts k1 = Inr (v, t')"
        and g: "get_snapshot (x_id r) t' = Inr (s, t)"
      using run False unfolding repark_def Let_def if_not_P[OF False] by (auto simp: bind_Inr)
    have m: "moved r (?f r) k t'"
      by (rule update_event_moved[OF up ev[folded r(2)] xk r(1)]) (use r ts in \<open>auto simp: step_allowed_def\<close>)
    have np: "nonblank pointer"
      using k p(1,2) by (auto simp: kernel_ok_def effects_ok_def effect_ok_def effect_fields_ok_def)
    have "x_lease_id r = None" "x_lease_owner r = None" "x_lease_expires r = None"
      using rk(1) r(2) by (auto simp: row_ok_def row_lease_ok_def)
    moreover obtain st where "x_started r = Some st"
      using rk(1) r(2) by (auto simp: row_ok_def row_started_ok_def)
    ultimately have fr: "?f r = parked_row r ts pointer ?tgt ?reason"
      using r(2) by (simp add: parked_row_def)
    have ok: "row_ok (?f r)" unfolding fr
      by (rule parked_row_ok[OF rk(1) _ rk(2) np])
        (use r rk(1) req in \<open>auto simp: row_ok_def row_recovery_ok_def\<close>)
    have ind: "e_state e = Indeterminate"
      if "e \<in> set (effects k)" "e_execution_id e = x_id r" "unfinished (e_state e)" for e
      using owner_of[OF k that(1) r(1) that(2)] that(3) r(2) by (auto simp: owns_def)
    have "kernel_ok t'"
      by (rule park_move_ok[OF k m _ _ _ ok _ ind p(1)]) (use r ts p in \<open>auto simp: parked_for_def\<close>)
    moreover have "find_exec (x_id r) t' = Some (?f r)" by (rule moved_find[OF m xk(1)])
    ultimately show ?thesis
      using g moved_frame(4)[OF m] ts r(2) by (auto simp: get_snapshot_Inr park_result_def)
  qed
qed

lemma distinct_sql_select:
  assumes "distinct (List.map key rows)"
  shows "distinct (List.map key (sql_select P ord rows))"
proof -
  have "distinct rows" "inj_on key (set rows)" using assms by (auto simp: distinct_map)
  then show ?thesis
    by (simp add: sql_select_def distinct_map) (rule inj_on_subset, auto)
qed

text \<open>
  The characterisation of parking: nothing happens when no effect of the execution is
  unfinished; otherwise the execution is parked and the store stays well-formed.
\<close>

definition unfinished_rows :: "exec_row \<Rightarrow> kernel \<Rightarrow> effect_record list" where
  "unfinished_rows r k =
     sql_select (\<lambda>e. e_execution_id e = x_id r \<and> unfinished (e_state e)) e_effect_id (effects k)"

lemma unfinished_rows_Inr: "unfinished_effect_rows (x_id r) k = Inr (es, t) \<longleftrightarrow> es = unfinished_rows r k \<and> t = k"
  by (auto simp: unfinished_effect_rows_def unfinished_rows_def bind_Inr)

lemma park_unfinished_run:
  assumes "park_unfinished_effects r ts tr cr k = Inr (x, t)"
  defines "req \<equiv> (if tr = ''cancel'' then ''cancelled'' else ''queued'')"
  shows "(if tr = ''cancel'' then optional_ok nonblank cr \<and> cr \<noteq> None else cr = None) \<and>
    (if unfinished_rows r k = [] then x = None \<and> t = k
     else \<exists>ids k1 s. each (park_effect ts tr) (unfinished_rows r k) k = Inr (ids, k1) \<and>
       park_execution r ts tr cr req ids k1 = Inr (s, t) \<and> x = Some s)"
proof -
  let ?C = "if tr = ''cancel'' then optional_ok nonblank cr \<and> cr \<noteq> None else cr = None"
  have c: "(if tr = ''cancel'' then check (optional_ok nonblank cr \<and> cr \<noteq> None) ValueErr
      else check (cr = None) ValueErr) = check ?C ValueErr" by simp
  have "?C" and run: "(if unfinished_rows r k = [] then ret None
       else bind (each (park_effect ts tr) (unfinished_rows r k)) (\<lambda>ids.
         bind (park_execution r ts tr cr req ids) (\<lambda>s. ret (Some s)))) k = Inr (x, t)"
    using assms(1) unfolding park_unfinished_effects_def c Let_def req_def
    by (simp_all only: bind_Inr check_Inr unfinished_rows_Inr) blast+
  then show ?thesis
    by (cases "unfinished_rows r k = []") (simp_all only: if_True if_False simp_thms bind_Inr ret_Inr, blast+)
qed

lemma park_none:
  assumes "park_unfinished_effects r ts tr cr k = Inr (None, t)"
  shows "t = k" and "\<forall>e \<in> set (effects k). e_execution_id e = x_id r \<longrightarrow> \<not> unfinished (e_state e)"
proof -
  have *: "unfinished_rows r k = []" and "t = k"
    using park_unfinished_run[OF assms] by (auto split: if_splits)
  then show "t = k" by simp
  have "set (unfinished_rows r k) = {}" using * by simp
  then show "\<forall>e \<in> set (effects k). e_execution_id e = x_id r \<longrightarrow> \<not> unfinished (e_state e)"
    unfolding unfinished_rows_def set_sql_select by blast
qed

lemma park_some:
  assumes run: "park_unfinished_effects r ts tr cr k = Inr (Some s, t)"
    and k: "kernel_ok k" and r: "r \<in> set (execs k)" and ts: "watermark k = ts"
  shows "kernel_ok t \<and> watermark t = ts \<and> park_result r s t"
proof -
  let ?rows = "unfinished_rows r k"
  let ?req = "if tr = ''cancel'' then ''cancelled'' else ''queued''"
  have u: "effect_table.unique k" using k by (simp add: kernel_ok_def effects_ok_def)
  let ?p = "\<lambda>ids. park_pointer r ids"
  obtain ids k1 where loop: "each (park_effect ts tr) ?rows k = Inr (ids, k1)" and ne: "?rows \<noteq> []"
      and cr: "if tr = ''cancel'' then optional_ok nonblank cr \<and> cr \<noteq> None else cr = None"
      and go: "park_execution r ts tr cr ?req ids k1 = Inr (s, t)"
    using park_unfinished_run[OF run] by (metis option.distinct(1) option.inject)
  obtain prow where pr: "find_effect (?p ids) k1 = Some prow"
      and go: "(if x_state r = Recovery_Required then repark r ts tr cr ?req ids (?p ids) (e_revision prow)
         else park_now r ts tr cr ?req ids (?p ids) (e_revision prow)) k1 = Inr (s, t)"
    using go by (auto simp: park_execution_def bind_Inr Let_def)
  have st: "ids = List.map e_effect_id ?rows" "settled ts tr (set ids) k k1"
    using park_loop_settled[OF loop u] distinct_sql_select[of e_effect_id "effects k"] u
    by (auto simp: effect_table.unique_def unfinished_rows_def)
  note f = settled_frame[OF st(2)]
  have k1: "kernel_ok k1" using settled_kernel_ok k st(2) ts by blast
  have r1: "r \<in> set (execs k1)" "watermark k1 = ts" using r ts f by auto
  have idset: "set ids = e_effect_id ` {e \<in> set (effects k). e_execution_id e = x_id r \<and> unfinished (e_state e)}"
    by (simp add: st(1) unfinished_rows_def)
  have "ids \<noteq> []" using ne st(1) by simp
  then have pin: "?p ids \<in> set ids" by (auto simp: park_pointer_def split: option.splits)
  have ind: "e_state e = Indeterminate"
    if e: "e \<in> set (effects k1)" "e_execution_id e = x_id r" "unfinished (e_state e)" for e
  proof -
    obtain q where q: "q \<in> set (effects k)" "e = (if e_effect_id q \<in> set ids then indeterminate_form ts tr q else q)"
      using e(1) unfolding f(12) by blast
    have qx: "e_execution_id q = x_id r" using q(2) e(2) by (auto split: if_splits)
    have qu: "unfinished (e_state q)"
    proof (rule ccontr)
      assume n: "\<not> unfinished (e_state q)"
      then have "e = q" using q(2) indeterminate_form_finished[OF n] by simp
      then show False using e(3) n by simp
    qed
    have "e_effect_id q \<in> set ids" using q(1) qx qu idset by blast
    then show ?thesis using q(2) indeterminate_form_state[OF qu] by simp
  qed
  have p: "prow \<in> set (effects k1)" "e_effect_id prow = ?p ids" using effect_table.find_rowD[OF pr] by auto
  obtain q where q: "q \<in> set (effects k)" "e_execution_id q = x_id r" "unfinished (e_state q)" "e_effect_id q = ?p ids"
    using pin unfolding idset by auto
  have "indeterminate_form ts tr q \<in> set (effects k1)"
    unfolding f(12) using q(1,4) pin by (auto simp: image_iff intro!: bexI[of _ q])
  moreover have "effect_table.unique k1" using settled_unique[OF st(2) u] .
  ultimately have "prow = indeterminate_form ts tr q"
    using effect_table.key_inj p q(4) by (metis indeterminate_form_fields(1))
  then have p2: "e_execution_id prow = x_id r" "e_state prow = Indeterminate"
    using q(2) indeterminate_form_state[OF q(3)] by auto
  have "owns r q" using owner_of[OF k q(1) r q(2)] .
  then have state: "x_state r = Running \<or> x_state r = Recovery_Required" using q(3) by (auto simp: owns_def)
  have req: "?req = ''queued'' \<and> cr = None \<or> ?req = ''cancelled'' \<and> cr \<noteq> None \<and> optional_ok nonblank cr"
    using cr by (auto split: if_splits)
  show ?thesis
  proof (cases "x_state r = Recovery_Required")
    case True
    show ?thesis
      by (rule repark_ok[OF go[unfolded if_P[OF True]] k1 r1(1) True r1(2) req p p2])
  next
    case False
    then have run': "x_state r = Running" using state by blast
    show ?thesis
      by (rule park_now_ok[OF go[unfolded if_not_P[OF False]] k1 r1(1) run' r1(2) req ind p p2])
  qed
qed

end
