(* ===== verification/Ending.thy ===== *)
theory Ending
  imports Parking
begin

text \<open>
  Preservation of the invariant by the writes that end, redeliver, claim or resume an
  execution. \<open>sound ts m\<close> says that \<open>m\<close>, run at the clock reading \<open>ts\<close>, takes a well-formed
  store to a well-formed store with the same reading.
\<close>

definition at_time :: "rat \<Rightarrow> kernel \<Rightarrow> bool" where
  "at_time ts k \<longleftrightarrow> kernel_ok k \<and> watermark k = ts"

definition keeps_time :: "rat \<Rightarrow> kernel \<Rightarrow> kernel \<Rightarrow> bool" where
  "keeps_time ts k t \<longleftrightarrow> (at_time ts k \<longrightarrow> at_time ts t)"

interpretation sound: progress "keeps_time ts" for ts
  by unfold_locales (auto simp: keeps_time_def)

abbreviation sound :: "rat \<Rightarrow> 'a kop \<Rightarrow> bool" where
  "sound ts \<equiv> runs (keeps_time ts)"

lemma soundI: "(\<And>k a t. at_time ts k \<Longrightarrow> m k = Inr (a, t) \<Longrightarrow> at_time ts t) \<Longrightarrow> sound ts m"
  by (simp add: runs_def keeps_time_def)

lemma soundD: "sound ts m \<Longrightarrow> at_time ts k \<Longrightarrow> m k = Inr (a, t) \<Longrightarrow> at_time ts t"
  by (simp add: runs_def keeps_time_def)

lemma kernel_ok_uuids [simp]: "kernel_ok (k\<lparr>uuids := n\<rparr>) = kernel_ok k"
  by (simp add: kernel_ok_def execs_ok_def log_ok_def effects_ok_def outbox_ok_def delivered_ok_def
      controls_ok_def exec_table.unique_def effect_table.unique_def outbox_table.unique_def
      control_table.unique_def managed_table.unique_def)

lemma kernel_ok_obligations [simp]: "kernel_ok (k\<lparr>obligations := n\<rparr>) = kernel_ok k"
  by (simp add: kernel_ok_def execs_ok_def log_ok_def effects_ok_def outbox_ok_def delivered_ok_def
      controls_ok_def exec_table.unique_def effect_table.unique_def outbox_table.unique_def
      control_table.unique_def managed_table.unique_def)

lemma uuid4_Inr: "uuid4 cfg k = Inr (i, t) \<longleftrightarrow> i = hex cfg (uuids k) \<and> t = k\<lparr>uuids := uuids k + 1\<rparr>"
  by (auto simp: uuid4_def bind_Inr)

lemma at_time_row: "at_time ts k \<Longrightarrow> r \<in> set (execs k) \<Longrightarrow> row_ok r \<and> x_updated r \<le> ts"
  by (auto simp: at_time_def kernel_ok_def execs_ok_def)

lemma at_time_find: "at_time ts k \<Longrightarrow> find_exec i k = Some r \<longleftrightarrow> r \<in> set (execs k) \<and> x_id r = i"
  by (simp add: at_time_def kernel_ok_def execs_ok_def exec_table.find_row_iff)

subsection \<open>The terminal write\<close>

definition result_for :: "exec_row \<Rightarrow> exec_result \<Rightarrow> rat \<Rightarrow> bool" where
  "result_for r q ts \<longleftrightarrow>
     result_ok q \<and> r_execution_id q = x_id r \<and> r_attempt q = x_attempt r \<and> r_fence q = x_fence r \<and>
     r_correlation_id q = c_correlation_id (x_command r) \<and>
     r_causation_id q = c_causation_id (x_command r) \<and> r_started_at q \<le> ts"

definition no_unfinished :: "exec_row \<Rightarrow> kernel \<Rightarrow> bool" where
  "no_unfinished r k \<longleftrightarrow> (\<forall>e \<in> set (effects k). e_execution_id e = x_id r \<longrightarrow> \<not> unfinished (e_state e))"

definition ended_row :: "exec_row \<Rightarrow> exec_result \<Rightarrow> rat \<Rightarrow> exec_row" where
  "ended_row r q ts =
     r\<lparr>x_state := r_status q, x_result := Some (canon_result q), x_lease_id := None,
       x_lease_owner := None, x_lease_expires := None, x_started := Some (r_started_at q),
       x_rec_effect := None, x_rec_target := None, x_rec_reason := None,
       x_revision := x_revision r + 1, x_updated := ts\<rparr>"

lemma ended_row_ok:
  assumes "row_ok r" and "result_for r q ts" and "x_updated r \<le> ts"
  shows "row_ok (ended_row r q ts)"
proof -
  have t: "terminal (r_status q)" using assms(2) by (simp add: result_for_def result_ok_def)
  have "x_created r \<le> ts" using assms(1,3) by (auto simp: row_ok_def row_identity_ok_def)
  then have "row_identity_ok (ended_row r q ts)"
    using assms(1) by (auto simp: row_ok_def row_identity_ok_def ended_row_def)
  moreover have "row_lease_ok (ended_row r q ts)" "row_recovery_ok (ended_row r q ts)"
    using t by (auto simp: row_lease_ok_def row_recovery_ok_def ended_row_def)
  moreover have "row_result_ok (ended_row r q ts)"
    using t assms(2) by (auto simp: row_result_ok_def ended_row_def result_for_def) (auto simp: canon_result_def)
  moreover have "row_started_ok (ended_row r q ts)"
    using t assms(2) by (auto simp: row_started_ok_def ended_row_def result_for_def result_ok_def)
  ultimately show ?thesis by (simp add: row_ok_def)
qed

lemma insert_result_outbox_Inr:
  assumes "insert_result_outbox cfg q ts k = Inr (u, t)"
    and "\<And>o'. o' \<in> set (outbox k) \<Longrightarrow> o_execution_id o' \<noteq> r_execution_id q"
  shows "\<exists>o'. t = k\<lparr>outbox := outbox k @ [o']\<rparr> \<and> o_result_id o' \<notin> o_result_id ` set (outbox k) \<and>
    o' = \<lparr>o_result_id = r_result_id q, o_execution_id = r_execution_id q, o_result = canon_result q,
      o_state = Pending, o_lease_id = None, o_lease_owner = None, o_fence = 0, o_attempts = 0,
      o_max_attempts = outbox_max_attempts cfg, o_lease_expires = None, o_next_at = ts,
      o_last_error = None, o_revision = 1, o_created = ts, o_updated = ts\<rparr>"
proof -
  let ?f = "List.find (\<lambda>o'. o_result_id o' = r_result_id q \<or> o_execution_id o' = r_execution_id q) (outbox k)"
  have run: "(case ?f of
       Some o' \<Rightarrow> if o_result_id o' = r_result_id q \<and> o_execution_id o' = r_execution_id q \<and>
           o_result o' = canon_result q then ret () else raise ResultConflictError
     | None \<Rightarrow> insert_outbox \<lparr>o_result_id = r_result_id q, o_execution_id = r_execution_id q,
           o_result = canon_result q, o_state = Pending, o_lease_id = None, o_lease_owner = None,
           o_fence = 0, o_attempts = 0, o_max_attempts = outbox_max_attempts cfg,
           o_lease_expires = None, o_next_at = ts, o_last_error = None, o_revision = 1,
           o_created = ts, o_updated = ts\<rparr>) k = Inr (u, t)"
    using assms(1) by (simp add: insert_result_outbox_def bind_Inr)
  show ?thesis
  proof (cases ?f)
    case None
    then show ?thesis using run by (simp add: insert_outbox_Inr sql_find_None)
  next
    case (Some o')
    then have "o' \<in> set (outbox k)" by (auto simp: find_Some_iff)
    then show ?thesis using assms(2)[of o'] run Some by simp
  qed
qed

text \<open>The store at a reading, but for the recovery pointer of \<open>p\<close>.\<close>

definition at_time_but :: "exec_row \<Rightarrow> rat \<Rightarrow> kernel \<Rightarrow> bool" where
  "at_time_but p ts k \<longleftrightarrow> kernel_but p k \<and> watermark k = ts"

lemma at_time_but: "at_time ts k \<Longrightarrow> at_time_but p ts k"
  by (simp add: at_time_def at_time_but_def kernel_but)

lemma at_time_but_row: "at_time_but p ts k \<Longrightarrow> r \<in> set (execs k) \<Longrightarrow> row_ok r \<and> x_updated r \<le> ts"
  by (auto simp: at_time_but_def kernel_but_def execs_ok_def)

lemma no_outbox_row:
  assumes "at_time_but p ts k" and "r \<in> set (execs k)" and "\<not> terminal (x_state r)" and "o' \<in> set (outbox k)"
  shows "o_execution_id o' \<noteq> x_id r"
proof
  assume eq: "o_execution_id o' = x_id r"
  obtain q where q: "q \<in> set (execs k)" "x_id q = o_execution_id o'" "x_result q = Some (o_result o')"
    using assms(1,4) unfolding at_time_but_def kernel_but_def outbox_ok_def by blast
  have "exec_table.unique k" using assms(1) by (simp add: at_time_but_def kernel_but_def execs_ok_def)
  then have "q = r" using exec_table.key_inj q(1,2) assms(2) eq by metis
  moreover have "x_result r = None"
    using at_time_but_row[OF assms(1,2)] assms(3) by (auto simp: row_ok_def row_result_ok_def)
  ultimately show False using q(3) by simp
qed

lemma outbox_ok_insert:
  assumes "outbox_ok k" and "outbox t = outbox k @ [o']" and "watermark t = watermark k"
    and "outbox_row_ok o' (watermark k)" and "o_result_id o' \<notin> o_result_id ` set (outbox k)"
    and "o_execution_id o' \<notin> o_execution_id ` set (outbox k)"
    and "\<And>p. p \<in> set (outbox k) \<Longrightarrow>
      \<exists>x \<in> set (execs t). x_id x = o_execution_id p \<and> x_result x = Some (o_result p)"
    and "\<exists>x \<in> set (execs t). x_id x = o_execution_id o' \<and> x_result x = Some (o_result o')"
  shows "outbox_ok t"
proof -
  have "outbox_table.unique t" "distinct (List.map o_execution_id (outbox t))"
    using assms(1,2,5,6) by (auto simp: outbox_ok_def outbox_table.unique_def)
  moreover have "outbox_row_ok p (watermark t) \<and>
      (\<exists>x \<in> set (execs t). x_id x = o_execution_id p \<and> x_result x = Some (o_result p))"
    if p: "p \<in> set (outbox t)" for p
  proof (cases "p = o'")
    case True
    then show ?thesis using assms(3,4,8) by simp
  next
    case False
    then have "p \<in> set (outbox k)" using p assms(2) by simp
    then show ?thesis using assms(1,3,7) unfolding outbox_ok_def by simp
  qed
  ultimately show ?thesis unfolding outbox_ok_def by blast
qed

lemma write_terminal_ok:
  assumes run: "write_terminal cfg r q ty ts k = Inr (s, t)"
    and k: "at_time_but r ts k" and r: "r \<in> set (execs k)" and q: "result_for r q ts"
    and un: "no_unfinished r k" and cfg: "config_ok cfg"
  shows "at_time ts t \<and> find_exec (x_id r) t = Some (ended_row r q ts) \<and>
    snapshot (ended_row r q ts) = Inr s \<and> x_id r \<in> o_execution_id ` set (outbox t)"
proof -
  let ?P = "\<lambda>x. x_id x = x_id r \<and> x_state x = x_state r \<and> x_revision x = x_revision r"
  let ?f = "\<lambda>x. x\<lparr>x_state := r_status q, x_result := Some (canon_result q), x_lease_id := None,
      x_lease_owner := None, x_lease_expires := None, x_started := Some (r_started_at q),
      x_rec_effect := None, x_rec_target := None, x_rec_reason := None,
      x_revision := x_revision r + 1, x_updated := ts\<rparr>"
  have fr: "?f r = ended_row r q ts" by (simp add: ended_row_def)
  obtain k1 dat v k2 k3 where mv: "r_status q \<in> set (moves (x_state r))"
      and up: "update_exec ?P ?f k = Inr ((), k1)"
      and ev: "append_event (x_id r) (x_revision r + 1) ty (Some (x_state r)) (r_status q) dat ts k1 = Inr (v, k2)"
      and ob: "insert_result_outbox cfg q ts k2 = Inr ((), k3)"
      and g: "get_snapshot (x_id r) k3 = Inr (s, t)"
    using run by (auto simp: write_terminal_def bind_Inr Let_def reduce_status_def split: if_splits)
  have k': "kernel_but r k" "watermark k = ts" and xk: "execs_ok k" "log_ok k" "effects_but r k" "outbox_ok k"
      "delivered_ok k" "controls_ok k"
    using k by (auto simp: at_time_but_def kernel_but_def)
  have rk: "row_ok r" "x_updated r \<le> ts" using at_time_but_row[OF k r] by auto
  have live: "\<not> terminal (x_state r)" using mv by (auto simp: terminal_iff)
  have t: "terminal (r_status q)" using q by (simp add: result_for_def result_ok_def)
  have m: "moved r (ended_row r q ts) k k2" unfolding fr[symmetric]
    by (rule update_event_moved[OF up ev xk(1,2) r]) (use k' mv in \<open>auto simp: step_allowed_def\<close>)
  note f = moved_frame[OF m]
  have ok: "row_ok (ended_row r q ts)" by (rule ended_row_ok[OF rk(1) q rk(2)])
  have x2: "execs_ok k2" by (rule moved_execs_ok[OF m xk(1) ok]) (simp add: ended_row_def k')
  have e2: "effects_ok k2"
    by (rule moved_effects_ok[OF m xk(3,1)])
      (use un t in \<open>auto simp: owns_def no_unfinished_def ended_row_def\<close>)
  have fresh: "o_execution_id o' \<noteq> x_id r" if "o' \<in> set (outbox k)" for o'
    by (rule no_outbox_row[OF k r live that])
  obtain o' where k3: "k3 = k2\<lparr>outbox := outbox k @ [o']\<rparr>" and new: "o_result_id o' \<notin> o_result_id ` set (outbox k)"
      and o': "o' = \<lparr>o_result_id = r_result_id q, o_execution_id = x_id r, o_result = canon_result q,
        o_state = Pending, o_lease_id = None, o_lease_owner = None, o_fence = 0, o_attempts = 0,
        o_max_attempts = outbox_max_attempts cfg, o_lease_expires = None, o_next_at = ts,
        o_last_error = None, o_revision = 1, o_created = ts, o_updated = ts\<rparr>"
    using insert_result_outbox_Inr[OF ob] fresh q f(3) by (auto simp: result_for_def)
  have "outbox_row_ok o' ts"
    using q cfg k' by (auto simp: o' outbox_row_ok_def result_for_def config_ok_def kernel_but_def canon_result_def)
      (auto simp: canon_result_def[symmetric])
  moreover have "\<exists>x \<in> set (execs k2). x_id x = o_execution_id p \<and> x_result x = Some (o_result p)"
    if p: "p \<in> set (outbox k)" for p
  proof -
    obtain x where x: "x \<in> set (execs k)" "x_id x = o_execution_id p" "x_result x = Some (o_result p)"
      using xk(4) p unfolding outbox_ok_def by blast
    then have "x \<in> set (execs k2)" using fresh[OF p] unfolding f(12) by simp
    then show ?thesis using x(2,3) by blast
  qed
  moreover have "\<exists>x \<in> set (execs k2). x_id x = o_execution_id o' \<and> x_result x = Some (o_result o')"
    using f(12) by (intro bexI[of _ "ended_row r q ts"]) (simp_all add: o' ended_row_def)
  moreover have "o_execution_id o' \<notin> o_execution_id ` set (outbox k)"
  proof
    assume "o_execution_id o' \<in> o_execution_id ` set (outbox k)"
    then obtain p where "p \<in> set (outbox k)" "o_execution_id p = x_id r" by (auto simp: o')
    then show False using fresh by blast
  qed
  ultimately have "outbox_ok k3"
    using outbox_ok_insert[OF xk(4), of k3 o'] new k'(2) f(4) by (simp add: k3)
  moreover have "delivered_ok k3"
    using xk(5) f(3,12) by (auto simp: delivered_ok_def k3 o' ended_row_def)
  moreover have "controls_ok k3"
    using xk(6) f by (simp add: controls_ok_def control_table.unique_def managed_table.unique_def k3)
  moreover have "execs_ok k3" "log_ok k3" "effects_ok k3"
    using x2 f(11) e2 by (simp_all add: k3 execs_ok_def log_ok_def effects_ok_def exec_table.unique_def effect_table.unique_def)
  moreover have "0 \<le> ts" "is_float ts" using k'(1) unfolding kernel_but_def k'(2) by auto
  ultimately have "at_time ts k3" using f(4) k'(2) by (simp add: at_time_def kernel_ok_def k3)
  moreover have "find_exec (x_id r) k3 = Some (ended_row r q ts)"
    using moved_find[OF m xk(1)] by (simp add: k3 find_exec_def)
  ultimately show ?thesis using g by (auto simp: get_snapshot_Inr k3 o')
qed

end

