(* ===== verification/Soundness.thy ===== *)
theory Soundness
  imports Ending
begin

text \<open>
  Every operation body of the execution side preserves the invariant of the store: the
  endings, the retries, submission, claims, starts, renewals and recovery.
\<close>

subsection \<open>Results the kernel makes\<close>

lemma started_or_le: "at_time ts k \<Longrightarrow> r \<in> set (execs k) \<Longrightarrow> started_or r ts \<le> ts"
  using at_time_row[of ts k r]
  by (cases "x_started r") (auto simp: started_or_def row_ok_def row_started_ok_def)

lemma dead_result_ok:
  assumes "dead_result cfg r cmd ts cd msg dets i ids k = Inr (q, t)" and "at_time ts k"
    and "r \<in> set (execs k)" and "cmd = x_command r"
  shows "result_for r q ts \<and> (\<exists>n. t = k\<lparr>uuids := n\<rparr>) \<and> r_status q = Dead \<and> r_completed_at q = ts"
proof -
  obtain j k1 where j: "k1 = k \<or> k1 = k\<lparr>uuids := uuids k + 1\<rparr>"
    and m: "lift (mk_error_typed \<lparr>code = cd, message = msg, retryable = False, details = dets\<rparr>) k1 = Inr (j, k1)"
    and q: "q = \<lparr>r_result_id = r_result_id q, r_execution_id = x_id r, r_status = Dead,
        r_attempt = x_attempt r, r_fence = x_fence r, r_effect_ids = ids,
        r_started_at = started_or r ts, r_completed_at = ts,
        r_correlation_id = c_correlation_id cmd, r_causation_id = c_causation_id cmd,
        r_value = PNone, r_error = Some j\<rparr>" "result_ok q" "t = k1"
    using assms(1)
    by (auto simp: dead_result_def bind_Inr uuid4_Inr mk_result_typed_def split: option.splits if_splits)
  then have "r_execution_id q = x_id r" "r_status q = Dead" "r_attempt q = x_attempt r" "r_fence q = x_fence r"
    "r_started_at q = started_or r ts" "r_completed_at q = ts" "r_correlation_id q = c_correlation_id cmd"
    "r_causation_id q = c_causation_id cmd" by (metis exec_result.select_convs)+
  then show ?thesis
    using q j assms(4) started_or_le[OF assms(2,3)]
    by (auto simp: result_for_def intro: exI[of _ "uuids k"])
qed

lemma cancelled_result_ok:
  assumes "cancelled_result cfg r cmd ts reason ids k = Inr (q, t)" and "at_time ts k"
    and "r \<in> set (execs k)" and "c_correlation_id cmd = c_correlation_id (x_command r)"
    and "c_causation_id cmd = c_causation_id (x_command r)"
  shows "result_for r q ts \<and> t = k\<lparr>uuids := uuids k + 1\<rparr> \<and> r_status q = Cancelled"
  using assms(1,4,5) started_or_le[OF assms(2,3)]
  by (auto simp: cancelled_result_def bind_Inr uuid4_Inr mk_result_typed_def result_for_def split: if_splits)

lemma execution_effect_ids_Inr: "execution_effect_ids i k = Inr (ids, t) \<Longrightarrow> t = k"
  by (auto simp: execution_effect_ids_def bind_Inr)

lemma park_nothing:
  assumes "park_unfinished_effects r ts tr cr k = Inr (p, t)" and "no_unfinished r k"
  shows "p = None" and "t = k"
proof -
  have "unfinished_rows r k = []"
    using assms(2) set_sql_select[of "\<lambda>e. e_execution_id e = x_id r \<and> unfinished (e_state e)" e_effect_id "effects k"]
    unfolding unfinished_rows_def no_unfinished_def
    by (metis (mono_tags, lifting) Collect_empty_eq set_empty)
  then show "p = None" "t = k" using park_unfinished_run[OF assms(1)] by (auto split: if_splits)
qed

lemma make_terminal_ok:
  assumes run: "make_terminal cfg r q ty ts k = Inr (s, t)"
    and k: "at_time ts k" and r: "r \<in> set (execs k)" and q: "result_for r q ts" and cfg: "config_ok cfg"
  shows "at_time ts t \<and> (\<not> no_unfinished r k \<and> park_result r s t \<or>
    find_exec (x_id r) t = Some (ended_row r q ts) \<and> snapshot (ended_row r q ts) = Inr s \<and>
    x_id r \<in> o_execution_id ` set (outbox t))"
proof -
  obtain p k1 where p: "park_unfinished_effects r ts (''before_terminal:'' @ ty) None k = Inr (p, k1)"
      and go: "(case p of Some s \<Rightarrow> ret s | None \<Rightarrow> write_terminal cfg r q ty ts) k1 = Inr (s, t)"
    using run by (auto simp: make_terminal_def bind_Inr)
  have k': "kernel_ok k" "watermark k = ts" using k by (auto simp: at_time_def)
  show ?thesis
  proof (cases p)
    case None
    have k1: "k1 = k" and un: "no_unfinished r k"
      using park_none[OF p[unfolded None]] by (auto simp: no_unfinished_def)
    have "write_terminal cfg r q ty ts k = Inr (s, t)" using go None k1 by simp
    from write_terminal_ok[OF this at_time_but[OF k] r q un cfg] show ?thesis by blast
  next
    case (Some s')
    then have "s' = s" "k1 = t" using go by auto
    then show ?thesis using park_some[OF p[unfolded Some] k'(1) r k'(2)] park_nothing(1)[OF p] Some by (auto simp: at_time_def)
  qed
qed

lemma park_sound:
  assumes "park_unfinished_effects r ts tr cr k = Inr (p, t)" and "at_time ts k" and "r \<in> set (execs k)"
  shows "at_time ts t" and "p = None \<Longrightarrow> t = k \<and> no_unfinished r k"
    and "p = Some s \<Longrightarrow> park_result r s t"
proof -
  have k: "kernel_ok k" "watermark k = ts" using assms(2) by (auto simp: at_time_def)
  show "p = None \<Longrightarrow> t = k \<and> no_unfinished r k"
    using park_none[of r ts tr cr k t] assms(1) by (simp add: no_unfinished_def)
  show "p = Some s \<Longrightarrow> park_result r s t"
    using park_some[of r ts tr cr k s t] assms(1,3) k by simp
  show "at_time ts t"
    using park_some[of r ts tr cr k _ t] park_none(1)[of r ts tr cr k t] assms k
    by (cases p) (auto simp: at_time_def)
qed

subsection \<open>Back to the queue\<close>

lemma moved_at_time:
  assumes m: "moved r r' k t" and k: "at_time_but r ts k" and "row_ok r'" and "x_updated r' \<le> ts"
    and "\<not> terminal (x_state r)" and "\<not> terminal (x_state r')" and "x_state r' \<noteq> Recovery_Required"
    and "\<And>e. e \<in> set (effects k) \<Longrightarrow> owns r e \<Longrightarrow> owns r' e"
  shows "at_time ts t"
proof -
  have k': "kernel_but r k" "watermark k = ts" using k by (auto simp: at_time_but_def)
  have "kernel_ok t"
    by (rule moved_kernel_ok[OF m k'(1)]) (use assms k' in auto)
  then show ?thesis using moved_frame(4)[OF m] k'(2) by (simp add: at_time_def)
qed

text \<open>The row of an execution that returns to the queue.\<close>

definition requeued_row :: "exec_row \<Rightarrow> int \<Rightarrow> rat \<Rightarrow> rat \<Rightarrow> exec_row" where
  "requeued_row r n next_at ts =
     r\<lparr>x_state := Queued, x_redeliveries := n, x_next_at := next_at, x_lease_id := None,
       x_lease_owner := None, x_lease_expires := None, x_started := None, x_rec_effect := None,
       x_rec_target := None, x_rec_reason := None, x_revision := x_revision r + 1, x_updated := ts\<rparr>"

lemma requeued_row_ok:
  assumes "row_ok r" and "\<not> terminal (x_state r)" and "x_updated r \<le> ts" and "0 \<le> n" and "0 \<le> next_at"
  shows "row_ok (requeued_row r n next_at ts)"
  using assms
  by (auto simp: row_ok_def row_identity_ok_def row_lease_ok_def row_result_ok_def row_recovery_ok_def
      row_started_ok_def requeued_row_def)

lemma requeue_at_time:
  assumes "moved r (requeued_row r n next_at ts) k t" and "at_time_but r ts k" and "no_unfinished r k"
    and "\<not> terminal (x_state r)" and "0 \<le> n" and "0 \<le> next_at"
  shows "at_time ts t"
proof -
  have r: "r \<in> set (execs k)" using assms(1) by (simp add: moved_def)
  have ok: "row_ok (requeued_row r n next_at ts)"
    using requeued_row_ok at_time_but_row[OF assms(2) r] assms(4-6) by blast
  show ?thesis
    by (rule moved_at_time[OF assms(1,2) ok])
      (use assms(3,4) in \<open>auto simp: requeued_row_def owns_def no_unfinished_def\<close>)
qed

lemma check_number_Inr: "check_number v m = Inr r \<longleftrightarrow> finite_value v = Some r \<and> m \<le> r"
  by (auto simp: check_number_def split: option.splits)

lemma checked_add_Inr: "checked_add a b = Inr c \<longleftrightarrow>
    0 \<le> a \<and> 0 \<le> b \<and> fadd a b = Some c \<and> (0 < b \<longrightarrow> a < c)"
  by (auto simp: checked_add_def rbind_eq_Inr check_number_Inr split: option.splits if_splits)

lemma checked_add_nonneg: "checked_add a b = Inr c \<Longrightarrow> 0 \<le> c"
  using fround_mono[of 0 0 "a + b" c] is_float_0
  by (auto simp: checked_add_Inr fadd_def is_float_def)

lemma retry_delay_nonneg: "retry_delay cfg cmd n ts = Inr d \<Longrightarrow> 0 \<le> d"
  by (auto simp: retry_delay_def rbind_eq_Inr dest: checked_add_nonneg)

lemma schedule_retry_ok:
  assumes run: "schedule_retry cfg r cmd q ts k = Inr (s, t)" and k: "at_time ts k" and r: "r \<in> set (execs k)"
    and un: "no_unfinished r k" and st: "x_state r = Running"
  shows "at_time ts t \<and> (\<exists>n. retry_delay cfg cmd (x_attempt r) ts = Inr n \<and>
    find_exec (x_id r) t = Some (requeued_row r (x_redeliveries r + 1) n ts))"
proof -
  let ?n = "x_redeliveries r + 1"
  have rk: "row_ok r" using at_time_row[OF k r] by simp
  obtain next_at k1 dat v k2 where d: "retry_delay cfg cmd (x_attempt r) ts = Inr next_at"
      and up: "update_exec (\<lambda>x. x_id x = x_id r \<and> x_state x = Running \<and> x_revision x = x_revision r)
        (\<lambda>x. x\<lparr>x_state := Queued, x_redeliveries := ?n, x_next_at := next_at,
               x_lease_id := None, x_lease_owner := None, x_lease_expires := None,
               x_started := None, x_rec_effect := None, x_revision := x_revision r + 1,
               x_updated := ts\<rparr>) k = Inr ((), k1)"
      and ev: "append_event (x_id r) (x_revision r + 1) ''retry_scheduled'' (Some Running) Queued dat ts k1 = Inr (v, k2)"
      and g: "get_snapshot (x_id r) k2 = Inr (s, t)"
    using run by (auto simp: schedule_retry_def bind_Inr Let_def)
  have f: "r\<lparr>x_state := Queued, x_redeliveries := ?n, x_next_at := next_at, x_lease_id := None,
      x_lease_owner := None, x_lease_expires := None, x_started := None, x_rec_effect := None,
      x_revision := x_revision r + 1, x_updated := ts\<rparr> = requeued_row r ?n next_at ts"
    using rk st by (simp add: requeued_row_def row_ok_def row_recovery_ok_def)
  have kx: "execs_ok k" "log_ok k" "watermark k = ts" using k by (auto simp: at_time_def kernel_ok_def)
  have m: "moved r (requeued_row r ?n next_at ts) k k2" unfolding f[symmetric]
    by (rule update_event_moved[OF up ev[folded st] kx(1,2) r]) (use st kx in \<open>auto simp: step_allowed_def\<close>)
  have "at_time ts k2"
    by (rule requeue_at_time[OF m at_time_but[OF k] un]) (use st rk retry_delay_nonneg[OF d] in \<open>auto simp: row_ok_def row_identity_ok_def\<close>)
  then show ?thesis using g moved_find[OF m kx(1)] d by (simp add: get_snapshot_Inr)
qed

lemma redeliver_ok:
  assumes run: "redeliver cfg r ts k = Inr (u, t)" and k: "at_time ts k" and r: "r \<in> set (execs k)"
    and un: "no_unfinished r k" and st: "x_state r \<in> {Leased, Running}"
  shows "at_time ts t \<and> find_exec (x_id r) t = Some (requeued_row r (x_redeliveries r + 1)
    (x_next_at (the (find_exec (x_id r) t))) ts)"
proof -
  let ?n = "x_redeliveries r + 1"
  have rk: "row_ok r" using at_time_row[OF k r] by simp
  obtain next_at k1 dat v where d: "retry_delay cfg (x_command r) (x_attempt r) ts = Inr next_at"
      and up: "update_exec (\<lambda>x. x_id x = x_id r \<and> x_state x = x_state r \<and> x_revision x = x_revision r)
        (\<lambda>x. x\<lparr>x_state := Queued, x_redeliveries := ?n, x_next_at := next_at,
               x_lease_id := None, x_lease_owner := None, x_lease_expires := None,
               x_started := None, x_rec_effect := None, x_revision := x_revision r + 1,
               x_updated := ts\<rparr>) k = Inr ((), k1)"
      and ev: "append_event (x_id r) (x_revision r + 1) ''lease_expired_redelivery'' (Some (x_state r)) Queued dat ts k1 = Inr (v, t)"
    using run by (auto simp: redeliver_def bind_Inr Let_def)
  have f: "r\<lparr>x_state := Queued, x_redeliveries := ?n, x_next_at := next_at, x_lease_id := None,
      x_lease_owner := None, x_lease_expires := None, x_started := None, x_rec_effect := None,
      x_revision := x_revision r + 1, x_updated := ts\<rparr> = requeued_row r ?n next_at ts"
    using rk st by (auto simp: requeued_row_def row_ok_def row_recovery_ok_def)
  have kx: "execs_ok k" "log_ok k" "watermark k = ts" using k by (auto simp: at_time_def kernel_ok_def)
  have m: "moved r (requeued_row r ?n next_at ts) k t" unfolding f[symmetric]
    by (rule update_event_moved[OF up ev kx(1,2) r]) (use st kx in \<open>auto simp: step_allowed_def\<close>)
  have "at_time ts t"
    by (rule requeue_at_time[OF m at_time_but[OF k] un]) (use st rk retry_delay_nonneg[OF d] in \<open>auto simp: row_ok_def row_identity_ok_def\<close>)
  then show ?thesis using moved_find[OF m kx(1)] by (simp add: requeued_row_def)
qed

subsection \<open>Completion, dead letter and cancellation\<close>

lemma authorize_Inr: "authorize_managed_operation i ts op st k = Inr (u, t) \<Longrightarrow> t = k"
  by (auto simp: authorize_managed_operation_def bind_Inr split: if_splits option.splits)

lemma resolve_supervisor_Inr: "resolve_supervisor v l q k = Inr (u, t) \<Longrightarrow> \<exists>n. t = k\<lparr>obligations := n\<rparr>"
  by (auto simp: resolve_supervisor_def bind_Inr Let_def split: option.splits if_splits
      intro: exI[of _ "obligations k"])

lemma at_time_obligations [simp]: "at_time ts (k\<lparr>obligations := n\<rparr>) = at_time ts k"
  by (simp add: at_time_def)

lemma at_time_uuids [simp]: "at_time ts (k\<lparr>uuids := n\<rparr>) = at_time ts k"
  by (simp add: at_time_def)

lemma no_unfinished_frame: "effects t = effects k \<Longrightarrow> no_unfinished r t = no_unfinished r k"
  by (simp add: no_unfinished_def)

lemma validate_result_ok:
  assumes "validate_result r l q ts k = Inr (cmd, t)" and "lease_matches r l" and "result_ok q"
  shows "t = k \<and> cmd = x_command r \<and> result_for r q ts"
proof -
  have "t = k" "cmd = x_command r" "r_execution_id q = l_execution_id l" "r_attempt q = x_attempt r"
    "r_fence q = x_fence r" "r_correlation_id q = c_correlation_id (x_command r)"
    "r_causation_id q = c_causation_id (x_command r)" "r_completed_at q \<le> ts"
    using assms(1) by (auto simp: validate_result_def bind_Inr Let_def)
  moreover have "r_started_at q \<le> r_completed_at q"
    using assms(3) by (simp add: result_ok_def result_cross_ok_def)
  ultimately show ?thesis using assms(2,3) by (simp add: result_for_def lease_matches_def)
qed

lemma exhaust_retries_ok:
  assumes run: "exhaust_retries cfg r (x_command r) q ts k = Inr (s, t)" and k: "at_time ts k"
    and r: "r \<in> set (execs k)" and cfg: "config_ok cfg"
  shows "at_time ts t \<and> (no_unfinished r k \<longrightarrow> (\<exists>x. find_exec (x_id r) t = Some x \<and> x_state x = Dead))"
proof -
  obtain ids k1 dead k2 where i: "execution_effect_ids (x_id r) k = Inr (ids, k1)"
      and d: "dead_result cfg r (x_command r) ts ''retry_exhausted''
             ''retryable result exhausted the attempt budget''
             (py_dict [(''max_attempts'', PInt (max_attempts (c_retry_policy (x_command r)))),
                       (''last_result'', result_to_dict q)]) (Some (r_result_id q)) ids k1 = Inr (dead, k2)"
      and m: "make_terminal cfg r dead ''retry_exhausted_dead'' ts k2 = Inr (s, t)"
    using run by (auto simp: exhaust_retries_def bind_Inr)
  have k1: "k1 = k" using execution_effect_ids_Inr[OF i] .
  obtain n where k2: "k2 = k\<lparr>uuids := n\<rparr>" and q: "result_for r dead ts" "r_status dead = Dead"
    using dead_result_ok[OF d[unfolded k1] k r refl] by auto
  show ?thesis using make_terminal_ok[OF m[unfolded k2] _ _ q(1) cfg] k r q(2) by (auto simp: no_unfinished_def ended_row_def)
qed

text \<open>
  A completion either parks the execution or, when no effect is unfinished, goes on to the
  retry or the terminal write, on a store that differs in the supervisor obligations.
\<close>

lemma complete_live_form:
  assumes run: "complete_live cfg l q st v ts k = Inr (s, t)" and k: "at_time ts k" and q: "result_ok q"
  obtains (parked) r where "find_exec (l_execution_id l) k = Some r" "lease_matches r l" "x_state r = Running"
      "result_for r q ts" "at_time ts t" "park_result r s t" "\<not> no_unfinished r k"
    | (settled) r n where "find_exec (l_execution_id l) k = Some r" "lease_matches r l" "x_state r = Running"
      "result_for r q ts" "no_unfinished r k"
      "(if is_retryable q (x_command r) \<and> \<not> managed_deadline_elapsed (l_execution_id l) ts (k\<lparr>obligations := n\<rparr>) then
           (if max_attempts (c_retry_policy (x_command r)) \<le> x_attempt r
            then exhaust_retries cfg r (x_command r) q ts
            else schedule_retry cfg r (x_command r) q ts)
         else make_terminal cfg r q (xname (r_status q)) ts) (k\<lparr>obligations := n\<rparr>) = Inr (s, t)"
proof -
  obtain r where f: "find_exec (l_execution_id l) k = Some r" and lm: "lease_matches r l" and run': "x_state r = Running"
      and rest: "bind (authorize_managed_operation (l_execution_id l) ts ''execution completion'' True) (\<lambda>_.
     bind (validate_result r l q ts) (\<lambda>cmd.
     bind (park_unfinished_effects r ts (''complete:'' @ xname (r_status q)) None) (\<lambda>parked.
     case parked of
       Some s \<Rightarrow> ret s
     | None \<Rightarrow>
         bind (if v = Supervisor_Unknown then ret () else resolve_supervisor v l q) (\<lambda>_.
         bind (get (managed_deadline_elapsed (l_execution_id l) ts)) (\<lambda>elapsed.
         if is_retryable q cmd \<and> \<not> elapsed then
           (if max_attempts (c_retry_policy cmd) \<le> x_attempt r
            then exhaust_retries cfg r cmd q ts
            else schedule_retry cfg r cmd q ts)
         else make_terminal cfg r q (xname (r_status q)) ts))))) k = Inr (s, t)"
    using run by (auto simp: complete_live_def bind_Inr[of "assert_lease l ts [Running] st"] assert_lease_Inr)
  have r: "r \<in> set (execs k)" using f at_time_find[OF k] by simp
  obtain u k1 cmd k2 p k3 where a: "authorize_managed_operation (l_execution_id l) ts ''execution completion'' True k = Inr (u, k1)"
      and vr: "validate_result r l q ts k1 = Inr (cmd, k2)"
      and pk: "park_unfinished_effects r ts (''complete:'' @ xname (r_status q)) None k2 = Inr (p, k3)"
      and go: "(case p of
       Some s \<Rightarrow> ret s
     | None \<Rightarrow>
         bind (if v = Supervisor_Unknown then ret () else resolve_supervisor v l q) (\<lambda>_.
         bind (get (managed_deadline_elapsed (l_execution_id l) ts)) (\<lambda>elapsed.
         if is_retryable q cmd \<and> \<not> elapsed then
           (if max_attempts (c_retry_policy cmd) \<le> x_attempt r
            then exhaust_retries cfg r cmd q ts
            else schedule_retry cfg r cmd q ts)
         else make_terminal cfg r q (xname (r_status q)) ts))) k3 = Inr (s, t)"
    using rest by (elim bindE) (rule that)
  have k1: "k1 = k" using authorize_Inr[OF a] .
  have k2: "k2 = k" "cmd = x_command r" "result_for r q ts"
    using validate_result_ok[OF vr lm q] k1 by auto
  note f' = f lm run' k2(3)
  show ?thesis
  proof (cases p)
    case (Some s')
    then show ?thesis
      using go parked[OF f'] park_sound(1)[OF pk[unfolded k2(1)] k r] park_sound(3)[OF pk[unfolded k2(1)] k r Some]
        park_nothing[OF pk[unfolded k2(1)]] by auto
  next
    case None
    have k3: "k3 = k" "no_unfinished r k" using park_sound(2)[OF pk[unfolded k2(1)] k r None] by auto
    note go' = settled[OF f' k3(2), folded k2(2)]
    show ?thesis
    proof (cases "v = Supervisor_Unknown")
      case True
      then show ?thesis using go None k3 go'[of "obligations k"] by (simp add: bind_Inr)
    next
      case False
      then obtain u k4 where "resolve_supervisor v l q k = Inr (u, k4)"
        using go None k3 by (auto simp: bind_Inr)
      moreover from this obtain n where "k4 = k\<lparr>obligations := n\<rparr>" using resolve_supervisor_Inr by blast
      ultimately show ?thesis using go None k3 False go'[of n] by (simp add: bind_Inr)
    qed
  qed
qed

lemma complete_live_ok:
  assumes run: "complete_live cfg l q st v ts k = Inr (s, t)" and k: "at_time ts k"
    and q: "result_ok q" and cfg: "config_ok cfg"
  shows "at_time ts t"
proof (rule complete_live_form[OF run k q])
  fix r n
  assume settled: "find_exec (l_execution_id l) k = Some r" "lease_matches r l" "x_state r = Running"
    "result_for r q ts" "no_unfinished r k"
    "(if is_retryable q (x_command r) \<and> \<not> managed_deadline_elapsed (l_execution_id l) ts (k\<lparr>obligations := n\<rparr>) then
         (if max_attempts (c_retry_policy (x_command r)) \<le> x_attempt r
          then exhaust_retries cfg r (x_command r) q ts
          else schedule_retry cfg r (x_command r) q ts)
       else make_terminal cfg r q (xname (r_status q)) ts) (k\<lparr>obligations := n\<rparr>) = Inr (s, t)"
  let ?k = "k\<lparr>obligations := n\<rparr>"
  have kk: "at_time ts ?k" "r \<in> set (execs ?k)" "no_unfinished r ?k"
    using k settled at_time_find[OF k] by (auto simp: no_unfinished_def at_time_def)
  show ?thesis
    using settled(6) exhaust_retries_ok[OF _ kk(1,2) cfg, of q s t] schedule_retry_ok[OF _ kk settled(3), of cfg "x_command r" q s t]
      make_terminal_ok[OF _ kk(1,2) settled(4) cfg, of "xname (r_status q)" s t]
    by (auto split: if_splits)
qed simp

lemma complete_terminal_Inr:
  "complete_terminal r l q v k = Inr (s, t) \<Longrightarrow> (\<exists>n. t = k\<lparr>obligations := n\<rparr>) \<and> snapshot r = Inr s \<and>
     x_result r = Some (canon_result q)"
  by (auto simp: complete_terminal_def bind_Inr split: if_splits dest: resolve_supervisor_Inr
      intro: exI[of _ "obligations k"])

lemma complete_sound: "config_ok cfg \<Longrightarrow> result_ok q \<Longrightarrow> sound ts (complete_body cfg l q st v ts)"
proof (rule soundI)
  fix k s t
  assume cfg: "config_ok cfg" and q: "result_ok q" and k: "at_time ts k"
    and run: "complete_body cfg l q st v ts k = Inr (s, t)"
  then obtain r where go: "(if terminal (x_state r) then complete_terminal r l q v
      else complete_live cfg l q st v ts) k = Inr (s, t)"
    by (auto simp: complete_body_def bind_Inr get_row_Inr)
  show "at_time ts t"
    using go complete_live_ok[OF _ k q cfg, of l st v s t] complete_terminal_Inr[of r l q v k s t] k
    by (auto split: if_splits)
qed

lemma require_recovery_sound: "sound ts (require_effect_recovery_body l e st ts)"
proof (rule soundI)
  fix k s t
  assume k: "at_time ts k" and run: "require_effect_recovery_body l e st ts k = Inr (s, t)"
  then obtain r p k1 where f: "find_exec (l_execution_id l) k = Some r"
      and p: "park_unfinished_effects r ts ''handler_recovery_signal'' None k = Inr (p, k1)" and t: "t = k1"
    by (auto simp: require_effect_recovery_body_def bind_Inr assert_lease_Inr)
  show "at_time ts t" using park_sound(1)[OF p k] f at_time_find[OF k] t by simp
qed

lemma dead_letter_sound: "config_ok cfg \<Longrightarrow> sound ts (dead_letter_body cfg l err ts)"
proof (rule soundI)
  fix k s t
  assume cfg: "config_ok cfg" and k: "at_time ts k" and run: "dead_letter_body cfg l err ts k = Inr (s, t)"
  obtain r k1 p k2 where f: "find_exec (l_execution_id l) k = Some r"
      and a: "authorize_managed_operation (l_execution_id l) ts ''dead-letter transition'' True k = Inr ((), k1)"
      and p: "park_unfinished_effects r ts ''dead_letter'' None k1 = Inr (p, k2)"
      and go: "(case p of Some s \<Rightarrow> ret s | None \<Rightarrow>
         bind (execution_effect_ids (x_id r)) (\<lambda>ids.
         bind (dead_result cfg r (x_command r) ts (code err) (message err) (details err) None ids) (\<lambda>result.
         make_terminal cfg r result ''permanent_dead'' ts))) k2 = Inr (s, t)"
    using run by (auto simp: dead_letter_body_def bind_Inr assert_lease_Inr)
  have r: "r \<in> set (execs k)" using f at_time_find[OF k] by simp
  have p': "park_unfinished_effects r ts ''dead_letter'' None k = Inr (p, k2)" using p authorize_Inr[OF a] by simp
  show "at_time ts t"
  proof (cases p)
    case (Some s')
    then show ?thesis using go park_sound(1)[OF p' k r] by simp
  next
    case None
    have k2: "k2 = k" using park_sound(2)[OF p' k r None] by simp
    obtain ids k3 q k4 where i: "execution_effect_ids (x_id r) k = Inr (ids, k3)"
        and d: "dead_result cfg r (x_command r) ts (code err) (message err) (details err) None ids k3 = Inr (q, k4)"
        and m: "make_terminal cfg r q ''permanent_dead'' ts k4 = Inr (s, t)"
      using go None k2 by (auto simp: bind_Inr)
    obtain n where k4: "k4 = k\<lparr>uuids := n\<rparr>" and q: "result_for r q ts"
      using dead_result_ok[OF d[unfolded execution_effect_ids_Inr[OF i]] k r refl] by auto
    show ?thesis using make_terminal_ok[OF m[unfolded k4] _ _ q cfg] k r by simp
  qed
qed

lemma cancel_active_ok:
  assumes run: "cancel_active cfg i row lse reason n ts k = Inr (x, t)" and k: "at_time ts k"
    and row: "row \<in> set (execs k)" and cfg: "config_ok cfg"
  shows "at_time ts t"
proof -
  obtain r p k1 where a: "cancel_authority row lse n ts k = Inr (r, k)" and r: "r \<in> set (execs k)"
      and p: "park_unfinished_effects r ts ''cancel'' (Some reason) k = Inr (p, k1)"
      and go: "(case p of
       Some s \<Rightarrow> bind (lift (expect (s_recovery_effect_id s) RuntimeErr)) (\<lambda>e. ret (Inl e))
     | None \<Rightarrow>
         bind (execution_effect_ids i) (\<lambda>ids.
         bind (cancelled_result cfg r (x_command r) ts reason ids) (\<lambda>result.
         bind (make_terminal cfg r result ''cancelled'' ts) (\<lambda>s. ret (Inr s))))) k1 = Inr (x, t)"
  proof -
    obtain r k0 p k1 where a: "cancel_authority row lse n ts k = Inr (r, k0)"
        and p: "park_unfinished_effects r ts ''cancel'' (Some reason) k0 = Inr (p, k1)"
        and go: "(case p of
       Some s \<Rightarrow> bind (lift (expect (s_recovery_effect_id s) RuntimeErr)) (\<lambda>e. ret (Inl e))
     | None \<Rightarrow>
         bind (execution_effect_ids i) (\<lambda>ids.
         bind (cancelled_result cfg r (x_command r) ts reason ids) (\<lambda>result.
         bind (make_terminal cfg r result ''cancelled'' ts) (\<lambda>s. ret (Inr s))))) k1 = Inr (x, t)"
      using run by (auto simp: cancel_active_def bind_Inr)
    have "k0 = k \<and> (r = row \<or> (\<exists>j. find_exec j k = Some r))"
      using a by (auto simp: cancel_authority_def bind_Inr assert_lease_Inr split: if_splits option.splits)
    then have "k0 = k" "r \<in> set (execs k)" using row at_time_find[OF k] by auto
    then show thesis using that a p go by blast
  qed
  show ?thesis
  proof (cases p)
    case (Some s')
    then show ?thesis using go park_sound(1)[OF p k r] by (auto simp: bind_Inr)
  next
    case None
    have k1: "k1 = k" using park_sound(2)[OF p k r None] by simp
    obtain ids k3 q k4 s where e: "execution_effect_ids i k = Inr (ids, k3)"
        and d: "cancelled_result cfg r (x_command r) ts reason ids k3 = Inr (q, k4)"
        and m: "make_terminal cfg r q ''cancelled'' ts k4 = Inr (s, t)"
      using go None k1 by (auto simp: bind_Inr)
    have k4: "k4 = k\<lparr>uuids := uuids k + 1\<rparr>" and q: "result_for r q ts"
      using cancelled_result_ok[OF d[unfolded execution_effect_ids_Inr[OF e]] k r refl refl] by auto
    show ?thesis using make_terminal_ok[OF m[unfolded k4] _ _ q cfg] k r by simp
  qed
qed

lemma cancel_recovery_ok:
  assumes "cancel_recovery r lse reason n ts k = Inr (e, t)" and "at_time ts k" and "r \<in> set (execs k)"
  shows "at_time ts t"
  using assms(1) park_sound(1)[OF _ assms(2,3), of "''cancel''" "Some reason"] assms(2)
  by (auto simp: cancel_recovery_def bind_Inr split: option.splits)

lemma cancel_guard_Inr: "cancel_guard_managed i k = Inr (u, t) \<Longrightarrow> t = k"
  by (auto simp: cancel_guard_managed_def bind_Inr split: if_splits option.splits)

lemma cancel_sound: "config_ok cfg \<Longrightarrow> sound ts (cancel_body cfg i lse reason n ts)"
proof (rule soundI)
  fix k x t
  assume cfg: "config_ok cfg" and k: "at_time ts k" and run: "cancel_body cfg i lse reason n ts k = Inr (x, t)"
  obtain r where f: "find_exec i k = Some r" and go: "(if terminal (x_state r) then
       (if x_state r = Cancelled then bind (lift (snapshot r)) (\<lambda>s. ret (Inr s))
        else raise InvalidStateTransitionError)
     else
     bind (cancel_guard_managed i) (\<lambda>_.
     if x_state r = Recovery_Required then
       bind (cancel_recovery r lse reason n ts) (\<lambda>e.
       bind (lift (expect e RuntimeErr)) (\<lambda>e. ret (Inl e)))
     else cancel_active cfg i r lse reason n ts)) k = Inr (x, t)"
    using run by (auto simp: cancel_body_def bind_Inr get_row_Inr)
  have r: "r \<in> set (execs k)" using f at_time_find[OF k] by simp
  show "at_time ts t"
  proof (cases "terminal (x_state r)")
    case True
    then show ?thesis using go k by (auto simp: bind_Inr split: if_splits)
  next
    case False
    then obtain u k1 where g: "cancel_guard_managed i k = Inr (u, k1)" and go': "(if x_state r = Recovery_Required then
       bind (cancel_recovery r lse reason n ts) (\<lambda>e.
       bind (lift (expect e RuntimeErr)) (\<lambda>e. ret (Inl e)))
     else cancel_active cfg i r lse reason n ts) k1 = Inr (x, t)"
      using go by (auto simp: bind_Inr simp del: if_split)
    have k1: "k1 = k" using cancel_guard_Inr[OF g] .
    show ?thesis
      using go' k1 cancel_recovery_ok[OF _ k r, of lse reason n] cancel_active_ok[OF _ k r cfg, of i lse reason n x t]
      by (auto simp: bind_Inr split: if_splits)
  qed
qed

subsection \<open>Expired leases\<close>

text \<open>An execution whose lease is reaped no longer holds one.\<close>

lemma reap_row_frees:
  assumes run: "reap_row cfg ts r k = Inr (i, t)" and k: "at_time ts k" and r: "r \<in> set (execs k)"
    and st: "x_state r \<in> {Leased, Running}" and cfg: "config_ok cfg"
  shows "at_time ts t \<and> i = x_id r \<and> (\<exists>q. find_exec (x_id r) t = Some q \<and> x_state q \<notin> {Leased, Running})"
proof -
  obtain p k1 where p: "park_unfinished_effects r ts ''lease_expired'' None k = Inr (p, k1)"
      and go: "(case p of
       Some _ \<Rightarrow> ret (x_id r)
     | None \<Rightarrow>
         let cmd = x_command r in
         if max_attempts (c_retry_policy cmd) \<le> x_attempt r then
           bind (execution_effect_ids (x_id r)) (\<lambda>ids.
           bind (dead_result cfg r cmd ts ''lease_retry_exhausted''
                   ''lease expired after the retry budget was exhausted''
                   (py_dict [(''max_attempts'', PInt (max_attempts (c_retry_policy cmd)))]) None ids) (\<lambda>result.
           bind (make_terminal cfg r result ''lease_expired_dead'' ts) (\<lambda>_. ret (x_id r))))
         else bind (redeliver cfg r ts) (\<lambda>_. ret (x_id r))) k1 = Inr (i, t)"
    using run by (auto simp: reap_row_def bind_Inr)
  show ?thesis
  proof (cases p)
    case (Some s')
    then show ?thesis using go park_sound(1)[OF p k r] park_sound(3)[OF p k r Some] by (auto simp: park_result_def)
  next
    case None
    have k1: "k1 = k" "no_unfinished r k" using park_sound(2)[OF p k r None] by auto
    show ?thesis
    proof (cases "max_attempts (c_retry_policy (x_command r)) \<le> x_attempt r")
      case True
      then obtain ids k3 q k4 s where e: "execution_effect_ids (x_id r) k = Inr (ids, k3)"
          and d: "dead_result cfg r (x_command r) ts ''lease_retry_exhausted''
                   ''lease expired after the retry budget was exhausted''
                   (py_dict [(''max_attempts'', PInt (max_attempts (c_retry_policy (x_command r))))]) None ids k3 = Inr (q, k4)"
          and m: "make_terminal cfg r q ''lease_expired_dead'' ts k4 = Inr (s, t)"
          and i: "i = x_id r"
        using go None k1 by (auto simp: bind_Inr Let_def)
      obtain n where k4: "k4 = k\<lparr>uuids := n\<rparr>" and q: "result_for r q ts"
        using dead_result_ok[OF d[unfolded execution_effect_ids_Inr[OF e]] k r refl] by auto
      have st: "x_state (ended_row r q ts) \<notin> {Leased, Running}"
        using q by (auto simp: ended_row_def result_for_def result_ok_def)
      show ?thesis
        using make_terminal_ok[OF m[unfolded k4] _ _ q cfg] k r i st by (auto simp: park_result_def)
    next
      case False
      then obtain u where u: "redeliver cfg r ts k = Inr (u, t)" "i = x_id r" using go None k1 by (auto simp: bind_Inr Let_def)
      have "x_state (requeued_row r n e ts) \<notin> {Leased, Running}" for n e by (simp add: requeued_row_def)
      then show ?thesis using redeliver_ok[OF u(1) k r k1(2) st] u(2) by blast
    qed
  qed
qed

lemma reap_row_ok:
  assumes "reap_row cfg ts r k = Inr (i, t)" and "at_time ts k" and "r \<in> set (execs k)"
    and "x_state r \<in> {Leased, Running}" and "config_ok cfg"
  shows "at_time ts t"
  using reap_row_frees[OF assms] by simp

end
