(* ===== verification/Frames.thy ===== *)
theory Frames
  imports Soundness
begin

text \<open>
  What an operation leaves alone: \<open>only i m\<close> says that \<open>m\<close> changes no execution but \<open>i\<close>. With
  it, the loop over the expired leases is sound although it reads its rows once.
\<close>

definition others :: "string \<Rightarrow> kernel \<Rightarrow> kernel \<Rightarrow> bool" where
  "others i k t \<longleftrightarrow> (\<forall>r. x_id r \<noteq> i \<longrightarrow> (r \<in> set (execs t) \<longleftrightarrow> r \<in> set (execs k)))"

interpretation only: progress "others i" for i
  by unfold_locales (auto simp: others_def)

abbreviation only :: "string \<Rightarrow> 'a kop \<Rightarrow> bool" where
  "only i \<equiv> runs (others i)"

lemma onlyD: "only i m \<Longrightarrow> m k = Inr (a, t) \<Longrightarrow> x_id r \<noteq> i \<Longrightarrow> r \<in> set (execs t) \<longleftrightarrow> r \<in> set (execs k)"
  unfolding runs_def others_def by blast

lemma onlyI: "(\<And>k a t. m k = Inr (a, t) \<Longrightarrow> execs t = execs k) \<Longrightarrow> only i m"
  unfolding runs_def others_def by metis

lemma only_update_exec:
  assumes "\<And>x. P x \<Longrightarrow> x_id x = i \<and> x_id (f x) = i"
  shows "only i (update_exec P f)"
  using assms unfolding runs_def others_def update_exec_Inr by (auto simp: image_iff)

lemma only_update_effect: "only i (update_effect P f)"
  by (auto intro: onlyI simp: update_effect_Inr)

lemma only_insert_effect: "only i (insert_effect r)"
  by (auto intro: onlyI simp: insert_effect_Inr)

lemma only_insert_outbox: "only i (insert_outbox r)"
  by (auto intro: onlyI simp: insert_outbox_Inr)

lemma only_uuid4: "only i (uuid4 cfg)"
  by (auto intro: onlyI simp: uuid4_Inr)

lemma only_effect_event: "only i (effect_event e ty fs d ts)"
  by (rule onlyI) (auto dest: effect_event_Inr)

lemma only_append_event: "only i (append_event j n ty fs tos dat ts)"
  using append_event_Inr by (fastforce intro!: onlyI)

lemmas only_rules = only.rules only_update_exec only_update_effect only_insert_effect
  only_insert_outbox only_uuid4 only_effect_event only_append_event

lemma only_get_row: "only i (get_row j)" and only_get_snapshot: "only i (get_snapshot j)"
  and only_get_effect: "only i (get_effect j)" and only_assert_lease: "only i (assert_lease l ts sts st)"
  by (auto intro: onlyI simp: get_row_Inr get_snapshot_Inr get_effect_Inr assert_lease_Inr)

lemma only_authorize: "only i (authorize_managed_operation j ts op st)"
  by (auto intro: onlyI dest: authorize_Inr)

lemma only_effect_ids: "only i (execution_effect_ids j)"
  by (auto intro: onlyI dest: execution_effect_ids_Inr)

lemmas only_reads = only_get_row only_get_snapshot only_get_effect only_assert_lease only_authorize
  only_effect_ids

lemma only_park_effect: "only i (park_effect ts trigger e)"
  unfolding park_effect_def Let_def by (intro only_rules only_reads)

lemma only_park: "only (x_id r) (park_unfinished_effects r ts trigger reason)"
  unfolding park_unfinished_effects_def park_execution_def repark_def park_now_def
    unfinished_effect_rows_def Let_def
  by (intro only_rules only_reads only_park_effect) auto

lemma only_make_terminal: "only (x_id r) (make_terminal cfg r q ty ts)"
  unfolding make_terminal_def write_terminal_def insert_result_outbox_def Let_def
  by (intro only_rules only_reads only_park) auto

lemma only_dead_result: "only i (dead_result cfg r cmd ts c m d n ids)"
  unfolding dead_result_def by (intro only_rules)

lemma only_cancelled_result: "only i (cancelled_result cfg r cmd ts reason ids)"
  unfolding cancelled_result_def by (intro only_rules)

lemma only_redeliver: "only (x_id r) (redeliver cfg r ts)"
  unfolding redeliver_def Let_def by (intro only_rules) auto

lemma only_reap_row: "only (x_id r) (reap_row cfg ts r)"
  unfolding reap_row_def Let_def
  by (intro only_rules only_reads only_park only_dead_result only_make_terminal only_redeliver)

subsection \<open>Reaping\<close>

text \<open>
  The rows of a batch are read once; reaping one of them leaves the others as they were read.
\<close>

lemma reap_rows_ok:
  assumes "each (reap_row cfg ts) rs k = Inr (is, t)" and "at_time ts k" and "distinct (List.map x_id rs)"
    and "set rs \<subseteq> set (execs k)" and "\<forall>r \<in> set rs. x_state r \<in> {Leased, Running}" and "config_ok cfg"
  shows "at_time ts t"
  using assms
proof (induction rs arbitrary: k "is")
  case (Cons r rs)
  obtain i k1 js where one: "reap_row cfg ts r k = Inr (i, k1)" and rest: "each (reap_row cfg ts) rs k1 = Inr (js, t)"
    using Cons.prems(1) by (auto simp: bind_Inr)
  have ok: "at_time ts k1" using reap_row_ok[OF one Cons.prems(2)] Cons.prems(4,5,6) by auto
  have "q \<in> set (execs k1)" if q: "q \<in> set rs" for q
  proof -
    have "x_id q \<noteq> x_id r" using q Cons.prems(3) by (auto simp: image_iff)
    then show ?thesis using onlyD[OF only_reap_row one] q Cons.prems(4) by auto
  qed
  then show ?case using Cons.IH[OF rest ok] Cons.prems(3,5,6) by auto
qed simp

lemma sql_select_set: "set (sql_select P key rs) = {r \<in> set rs. P r}"
  by (simp add: sql_select_def)

lemma sql_select_distinct: "distinct (List.map f rs) \<Longrightarrow> distinct (List.map f (sql_select P key rs))"
  by (auto simp: sql_select_def distinct_map intro: inj_on_subset)

lemma reapable_rows_set: "set (reapable_rows ts k) \<subseteq> {r \<in> set (execs k). lease_expired ts r}"
  unfolding reapable_rows_def by (rule subset_trans[OF set_take_subset]) auto

lemma reapable_rows_distinct:
  assumes "exec_table.unique k"
  shows "distinct (List.map x_id (reapable_rows ts k))"
  unfolding reapable_rows_def take_map[symmetric]
  by (intro distinct_take sql_select_distinct) (use assms in \<open>simp add: exec_table.unique_def\<close>)

lemma at_time_unique: "at_time ts k \<Longrightarrow> exec_table.unique k"
  by (simp add: at_time_def kernel_ok_def execs_ok_def)

lemma reap_in_transaction_sound: "config_ok cfg \<Longrightarrow> sound ts (reap_in_transaction cfg ts)"
proof (rule soundI)
  fix k "is" t
  assume cfg: "config_ok cfg" and k: "at_time ts k" and run: "reap_in_transaction cfg ts k = Inr (is, t)"
  have e: "each (reap_row cfg ts) (reapable_rows ts k) k = Inr (is, t)"
    using run by (simp add: reap_in_transaction_def bind_Inr)
  show "at_time ts t"
    by (rule reap_rows_ok[OF e k reapable_rows_distinct[OF at_time_unique[OF k]]])
      (use reapable_rows_set[of ts k] cfg in \<open>auto simp: lease_expired_def\<close>)
qed

lemma reap_batches_sound: "config_ok cfg \<Longrightarrow> sound ts (reap_batches n cfg ts)"
  by (induction n) (auto intro!: sound.rules reap_in_transaction_sound)

lemma sound_get_snapshot: "sound ts (get_snapshot i)"
  by (auto intro: soundI simp: get_snapshot_Inr)

lemma reap_sound: "config_ok cfg \<Longrightarrow> sound ts (reap_body n cfg ts)"
  unfolding reap_body_def
  by (intro sound.rules reap_batches_sound sound.option_rule sound.each_rule sound_get_snapshot)

end
