(* ===== verification/Claims.thy ===== *)
theory Claims
  imports Frames
begin

text \<open>
  Soundness of the operations on a lease: claim, claim and start, start, renew, verify, and of
  the run control operations that decide who may claim.
\<close>

subsection \<open>Run control\<close>

definition control_ok :: "run_control \<Rightarrow> bool" where
  "control_ok c \<longleftrightarrow> 0 \<le> rc_claims_used c \<and> rc_claims_used c \<le> rc_max_claims c \<and>
     0 \<le> rc_epoch c \<and> 0 \<le> rc_generation c \<and> 0 \<le> rc_deadline c"

lemma controls_ok_alt: "controls_ok k \<longleftrightarrow>
    control_table.unique k \<and> managed_table.unique k \<and> (\<forall>c \<in> set (run_controls k). control_ok c)"
  by (auto simp: controls_ok_def control_ok_def)

lemma at_time_controls:
  assumes "at_time ts k" and "t = k\<lparr>run_controls := cs, managed := ms\<rparr>" and "controls_ok t"
  shows "at_time ts t"
  using assms
  by (auto simp: at_time_def kernel_ok_def execs_ok_def log_ok_def effects_ok_def outbox_ok_def delivered_ok_def
      exec_table.unique_def effect_table.unique_def outbox_table.unique_def)

lemma at_time_controls_ok: "at_time ts k \<Longrightarrow> controls_ok k"
  by (simp add: at_time_def kernel_ok_def)

lemma map_if_key: "(\<And>c. P c \<Longrightarrow> f (g c) = f c) \<Longrightarrow> List.map f (List.map (\<lambda>c. if P c then g c else c) cs) = List.map f cs"
  by simp

lemma update_control_sound:
  assumes "\<And>c. P c \<Longrightarrow> control_ok c \<Longrightarrow> rc_run_id (g c) = rc_run_id c \<and> control_ok (g c)"
    and "\<And>c. P c \<Longrightarrow> rc_run_id (g c) = rc_run_id c"
  shows "sound ts (update_control P g)"
proof (rule soundI)
  fix k u t
  assume k: "at_time ts k" and run: "update_control P g k = Inr (u, t)"
  let ?cs = "List.map (\<lambda>c. if P c then g c else c) (run_controls k)"
  have t: "t = k\<lparr>run_controls := ?cs, managed := managed k\<rparr>" using run by (simp add: update_control_Inr)
  have "List.map rc_run_id ?cs = List.map rc_run_id (run_controls k)" by (rule map_if_key) (rule assms(2))
  then have "controls_ok t"
    using at_time_controls_ok[OF k] assms(1)
    unfolding controls_ok_alt t by (auto simp: control_table.unique_def managed_table.unique_def simp del: map_map)
  then show "at_time ts t" by (rule at_time_controls[OF k t])
qed

lemma charge_sound: "sound ts (charge_managed_claim i ts')"
  unfolding charge_managed_claim_def
  by (intro sound.rules sound.option_rule sound.if_rule update_control_sound) (auto simp: claim_open_def control_ok_def)

lemma charge_frame:
  assumes "charge_managed_claim i ts k = Inr (u, t)"
  shows "execs t = execs k" "effects t = effects k" "events t = events k" "outbox t = outbox k"
  using assms by (auto simp: charge_managed_claim_def bind_Inr update_control_Inr split: option.splits if_splits)

lemma run_control_snapshot_Inr: "run_control_snapshot i k = Inr (c, t) \<Longrightarrow> t = k"
  by (auto simp: run_control_snapshot_def bind_Inr)

lemma sound_run_control_snapshot: "sound ts (run_control_snapshot i)"
  by (auto intro: soundI dest: run_control_snapshot_Inr)

lemma register_control_sound: "sound ts (register_run_control_in_transaction i n d)"
proof (rule soundI)
  fix k c t
  assume k: "at_time ts k" and run: "register_run_control_in_transaction i n d k = Inr (c, t)"
  show "at_time ts t"
  proof (cases "find_control i k")
    case (Some c')
    then show ?thesis using run k
      by (auto simp: register_run_control_in_transaction_def run_control_snapshot_def bind_Inr managed_run_id_def
          split: if_splits)
  next
    case None
    then obtain n d where t: "t = k\<lparr>run_controls := run_controls k @ [\<lparr>rc_run_id = i, rc_epoch = 0, rc_generation = 0,
        rc_state = Control_Paused, rc_max_claims = n, rc_claims_used = 0, rc_deadline = d\<rparr>],
        managed := managed k\<rparr>" and nd: "0 \<le> n" "0 \<le> d"
      using run
      by (auto simp: register_run_control_in_transaction_def run_control_snapshot_def bind_Inr managed_run_id_def
          insert_control_Inr check_number_Inr split: if_splits)
    have "i \<notin> rc_run_id ` set (run_controls k)" using None by (simp add: find_control_def sql_find_None)
    then have "controls_ok t"
      using at_time_controls_ok[OF k] nd unfolding controls_ok_alt t
      by (auto simp: control_table.unique_def managed_table.unique_def control_ok_def)
    then show ?thesis by (rule at_time_controls[OF k t])
  qed
qed

lemma managed_sound:
  assumes "\<And>k u t. m k = Inr (u, t) \<Longrightarrow> \<exists>f. t = k\<lparr>managed := List.map f (managed k)\<rparr> \<and>
      (\<forall>x. m_execution_id (f x) = m_execution_id x)"
  shows "sound ts m"
proof (rule soundI)
  fix k u t
  assume k: "at_time ts k" and run: "m k = Inr (u, t)"
  then obtain f where t: "t = k\<lparr>run_controls := run_controls k, managed := List.map f (managed k)\<rparr>"
      and f: "\<forall>x. m_execution_id (f x) = m_execution_id x"
    using assms by fastforce
  have "List.map m_execution_id (List.map f (managed k)) = List.map m_execution_id (managed k)" using f by simp
  then have "controls_ok t"
    using at_time_controls_ok[OF k] unfolding controls_ok_alt t
    by (simp add: control_table.unique_def managed_table.unique_def del: map_map)
  then show "at_time ts t" by (rule at_time_controls[OF k t])
qed

lemma set_control_sound: "sound ts (set_run_control_in_transaction i e st g ids)"
proof -
  have drain: "sound ts (update_managed P (\<lambda>m. m\<lparr>m_drain := True\<rparr>))" for P
    by (rule managed_sound) (auto simp: update_managed_Inr intro!: exI[of _ "\<lambda>x. if P x then x\<lparr>m_drain := True\<rparr> else x"])
  have clear: "sound ts (modify (\<lambda>k. k\<lparr>managed := List.map (\<lambda>m. if m_run_id m = j then m\<lparr>m_drain := False\<rparr> else m) (managed k)\<rparr>))" for j
    by (rule managed_sound) (auto intro!: exI[of _ "\<lambda>m. if m_run_id m = j then m\<lparr>m_drain := False\<rparr> else m"])
  have up: "sound ts (update_control (\<lambda>r. rc_run_id r = j \<and> rc_epoch r = e)
      (\<lambda>r. r\<lparr>rc_epoch := e + 1, rc_generation := n, rc_state := st\<rparr>))" if "0 \<le> n" "0 \<le> e" for j n
    using that by (intro update_control_sound) (auto simp: control_ok_def)
  show ?thesis
    unfolding set_run_control_in_transaction_def Let_def
    by (intro sound.bind_check_rule sound.bind_lift_rule sound.rules sound.if_rule sound_run_control_snapshot sound.each_rule drain clear up)
      (auto simp: managed_generation_def split: if_splits)
qed

subsection \<open>Taking and holding a lease\<close>

lemma queued_finished:
  assumes "at_time ts k" and "r \<in> set (execs k)" and "x_state r \<in> {Queued, Leased}"
  shows "no_unfinished r k"
  unfolding no_unfinished_def
proof (intro ballI impI)
  fix e assume e: "e \<in> set (effects k)" "e_execution_id e = x_id r"
  obtain q where q: "q \<in> set (execs k)" "owns q e"
    using assms(1) e(1) unfolding at_time_def kernel_ok_def effects_ok_def by blast
  then have "q = r" using exec_table.key_inj[OF at_time_unique[OF assms(1)] q(1) assms(2)] e(2)
    by (simp add: owns_def)
  then show "\<not> unfinished (e_state e)" using q(2) assms(3) by (auto simp: owns_def)
qed

text \<open>An unowned execution that takes a new attempt.\<close>

definition claimed_row :: "exec_row \<Rightarrow> xstate \<Rightarrow> string \<Rightarrow> string \<Rightarrow> rat \<Rightarrow> rat option \<Rightarrow> int \<Rightarrow> rat \<Rightarrow> exec_row" where
  "claimed_row r st i owner e started n ts =
     r\<lparr>x_state := st, x_attempt := x_attempt r + 1, x_lease_id := Some i, x_lease_owner := Some owner,
       x_fence := x_fence r + 1, x_lease_expires := Some e, x_started := started, x_revision := n,
       x_updated := ts\<rparr>"

lemma claimed_row_ok:
  assumes "row_ok r" and "x_state r = Queued" and "nonblank i" and "nonblank owner" and "0 \<le> e"
    and "x_updated r \<le> ts" and "x_revision r \<le> n" and "0 \<le> ts"
    and "st = Leased \<and> started = None \<or> st = Running \<and> started = Some ts"
  shows "row_ok (claimed_row r st i owner e started n ts)"
  using assms
  by (auto simp: row_ok_def row_identity_ok_def row_lease_ok_def row_result_ok_def row_recovery_ok_def
      row_started_ok_def claimed_row_def)

lemma claimed_at_time:
  assumes m: "moved r (claimed_row r st i owner e started n ts) k t" and k: "at_time ts k"
    and "x_state r = Queued" and "nonblank i" and "nonblank owner" and "0 \<le> e" and "x_revision r \<le> n"
    and st: "st = Leased \<and> started = None \<or> st = Running \<and> started = Some ts"
  shows "at_time ts t"
proof -
  have r: "r \<in> set (execs k)" using m by (simp add: moved_def)
  have rk: "row_ok r" "x_updated r \<le> ts" and "0 \<le> ts"
    using at_time_row[OF k r] k by (auto simp: at_time_def kernel_ok_def)
  then have ok: "row_ok (claimed_row r st i owner e started n ts)" using claimed_row_ok assms by blast
  have fin: "no_unfinished r k" using queued_finished[OF k r] assms(3) by simp
  show ?thesis
    by (rule moved_at_time[OF m at_time_but[OF k] ok])
      (use st assms(3) fin in \<open>auto simp: claimed_row_def owns_def no_unfinished_def\<close>)
qed

lemma at_time_charged:
  assumes "charge_managed_claim i ts' k = Inr (u, t)" and "at_time ts k"
  shows "at_time ts t" and "execs t = execs k"
  using soundD[OF charge_sound assms(2,1)] charge_frame(1)[OF assms(1)] by auto

lemma claim_row_ok:
  assumes run: "claim_row cfg owner duration r ts k = Inr (l, t)" and k: "at_time ts k" and r: "r \<in> set (execs k)"
  shows "at_time ts t \<and> find_exec (x_id r) t = Some (claimed_row r Leased (l_lease_id l) owner (l_expires_at l) (x_started r) (x_revision r + 1) ts) \<and>
    lease_ok l \<and> l_fence l = x_fence r + 1 \<and> l_attempt l = x_attempt r + 1 \<and> l_execution_id l = x_id r \<and>
    l_owner l = owner \<and> l_revision l = x_revision r + 1 \<and> x_state r = Queued"
proof -
  let ?P = "\<lambda>x. x_id x = x_id r \<and> x_state x = Queued \<and> x_revision x = x_revision r"
  obtain s i k1 e u k2 u' k3 v where red: "reduce (x_state r) Ev_lease = Inr s"
      and i: "uuid4 cfg k = Inr (i, k1)" and ex: "checked_add ts duration = Inr e"
      and ch: "charge_managed_claim (x_id r) ts k1 = Inr (u, k2)"
      and up: "update_exec ?P (\<lambda>x. x\<lparr>x_state := Leased, x_attempt := x_attempt r + 1, x_lease_id := Some i,
                    x_lease_owner := Some owner, x_fence := x_fence r + 1,
                    x_lease_expires := Some e, x_revision := x_revision r + 1,
                    x_updated := ts\<rparr>) k2 = Inr (u', k3)"
      and ev: "append_event (x_id r) (x_revision r + 1) ''leased'' (Some Queued) Leased
             (leased_data owner (x_attempt r + 1) (x_fence r + 1)) ts k3 = Inr (v, t)"
      and l: "lease_ok l" "l = \<lparr>l_execution_id = x_id r, l_lease_id = i, l_owner = owner, l_fence = x_fence r + 1,
             l_attempt = x_attempt r + 1, l_expires_at = e, l_revision = x_revision r + 1\<rparr>"
    using run by (auto simp: claim_row_def bind_Inr Let_def mk_lease_typed_def split: if_splits)
  have q: "x_state r = Queued" using red by (cases "x_state r") auto
  have k1: "at_time ts k1" "execs k1 = execs k" using i k by (auto simp: uuid4_Inr)
  note k2 = at_time_charged[OF ch k1(1)]
  have r2: "r \<in> set (execs k2)" using r k2(2) k1(2) by simp
  have st: "x_started r = None" using at_time_row[OF k r] q by (auto simp: row_ok_def row_started_ok_def)
  have ok2: "execs_ok k2" "log_ok k2" "watermark k2 = ts" using k2(1) by (auto simp: at_time_def kernel_ok_def)
  have form: "r\<lparr>x_state := Leased, x_attempt := x_attempt r + 1, x_lease_id := Some i,
      x_lease_owner := Some owner, x_fence := x_fence r + 1, x_lease_expires := Some e,
      x_revision := x_revision r + 1, x_updated := ts\<rparr> = claimed_row r Leased i owner e None (x_revision r + 1) ts"
    using st by (cases r) (simp add: claimed_row_def)
  have m: "moved r (claimed_row r Leased i owner e None (x_revision r + 1) ts) k2 t"
    unfolding form[symmetric]
    by (rule update_event_moved[OF up ev[folded q] ok2(1,2) r2]) (use ok2(3) q in \<open>auto simp: step_allowed_def\<close>)
  have "at_time ts t"
    by (rule claimed_at_time[OF m k2(1) q]) (use l in \<open>auto simp: lease_ok_def\<close>)
  then show ?thesis using moved_find[OF m ok2(1)] l q st by simp
qed

text \<open>One write that logs two events: the row between them is a lease that never was stored.\<close>

lemma insert_other: "key m = i \<Longrightarrow> {q. (q = m \<or> q \<in> A \<and> key q \<noteq> i) \<and> key q \<noteq> i} = {q \<in> A. key q \<noteq> i}"
  by auto

lemma update_two_events_moved:
  assumes up: "update_exec P f k = Inr (u, k1)"
    and e1: "append_event (x_id r) (x_revision r + 1) ty1 (Some (x_state r)) st1 d1 ts k1 = Inr (v1, k2)"
    and e2: "append_event (x_id r) (x_revision r + 1 + 1) ty2 (Some st1) st2 d2 ts k2 = Inr (v2, t)"
    and ok: "execs_ok k" "log_ok k" and r: "r \<in> set (execs k)" and P: "P r"
    and f: "\<And>q. P q \<Longrightarrow> x_id (f q) = x_id q \<and> x_key (f q) = x_key q"
    and st: "x_state (f r) = st2" "x_revision (f r) = x_revision r + 1 + 1"
    and al: "step_allowed (x_state r) st1" "step_allowed st1 st2" and ts: "ts \<le> watermark k"
  shows "moved r (f r) k t"
proof -
  have u: "exec_table.unique k" using ok(1) by (simp add: execs_ok_def)
  obtain rs where k1: "k1 = k\<lparr>execs := rs\<rparr>" and rs: "set rs = insert (f r) {q \<in> set (execs k). x_id q \<noteq> x_id r}"
      "List.map x_id rs = List.map x_id (execs k)" "List.map x_key rs = List.map x_key (execs k)"
    using update_exec_set[OF up u r P f] by auto
  obtain w1 where k2: "k2 = k1\<lparr>event_sequence := event_sequence k1 + 1, events := events k1 @ [w1]\<rparr>"
    and w1: "event_ok w1" "ev_sequence w1 = event_sequence k1 + 1" "ev_event_id w1 = numbered (x_id r) (x_revision r + 1)"
      "ev_execution_id w1 = x_id r" "ev_revision w1 = x_revision r + 1" "ev_created_at w1 = ts"
      "ev_from_state w1 = Some (xname (x_state r))" "ev_to_state w1 = xname st1"
    using append_event_Inr[OF e1] by auto
  obtain w2 where t: "t = k2\<lparr>event_sequence := event_sequence k2 + 1, events := events k2 @ [w2]\<rparr>"
    and w2: "event_ok w2" "ev_sequence w2 = event_sequence k2 + 1" "ev_event_id w2 = numbered (x_id r) (x_revision r + 1 + 1)"
      "ev_execution_id w2 = x_id r" "ev_revision w2 = x_revision r + 1 + 1" "ev_created_at w2 = ts"
      "ev_from_state w2 = Some (xname st1)" "ev_to_state w2 = xname st2"
    using append_event_Inr[OF e2] by auto
  let ?m = "r\<lparr>x_state := st1, x_revision := x_revision r + 1\<rparr>"
  let ?v = "k2\<lparr>execs := List.map (\<lambda>q. if x_id q = x_id r then ?m else q) (execs k)\<rparr>"
  have id: "x_id (f r) = x_id r" "x_key (f r) = x_key r" using P f by auto
  have vs: "set (execs ?v) = insert ?m {q \<in> set (execs k). x_id q \<noteq> x_id r}" using r by (auto simp: image_iff)
  have lv: "log_ok ?v"
    by (rule log_ok_step[OF ok(2) r vs, of w1]) (use w1 al(1) ts in \<open>simp_all add: k1 k2\<close>)
  have ts': "set (execs t) = insert (f r) {q \<in> set (execs ?v). x_id q \<noteq> x_id ?m}"
  proof -
    have "execs t = rs" by (simp add: t k2 k1)
    moreover have "{q \<in> insert ?m {q \<in> set (execs k). x_id q \<noteq> x_id r}. x_id q \<noteq> x_id ?m} =
        {q \<in> set (execs k). x_id q \<noteq> x_id r}" by (simp add: insert_other)
    ultimately show ?thesis unfolding vs by (simp only: rs(1))
  qed
  have "log_ok t"
    by (rule log_ok_step[OF lv _ ts', of w2])
      (use r w2 al(2) ts id st in \<open>simp_all add: t k2 k1 image_iff, auto\<close>)
  then show ?thesis
    unfolding moved_def using t k2 k1 rs id r
    by (intro conjI exI[of _ rs] exI[of _ "event_sequence k + 1 + 1"] exI[of _ "events k @ [w1, w2]"]) auto
qed

lemma claim_start_row_ok:
  assumes run: "claim_start_row cfg owner least safety r ts k = Inr (l, t)" and k: "at_time ts k"
    and r: "r \<in> set (execs k)"
  shows "at_time ts t \<and> find_exec (x_id r) t =
      Some (claimed_row r Running (l_lease_id l) owner (l_expires_at l) (Some ts) (x_revision r + 1 + 1) ts) \<and>
    lease_ok l \<and> l_fence l = x_fence r + 1 \<and> l_attempt l = x_attempt r + 1 \<and> l_execution_id l = x_id r \<and>
    l_owner l = owner \<and> l_revision l = x_revision r + 1 + 1 \<and> x_state r = Queued"
proof -
  let ?P = "\<lambda>x. x_id x = x_id r \<and> x_state x = Queued \<and> x_revision x = x_revision r"
  obtain s i k1 e u k2 u' k2' u'' k3 v k4 v' where red: "reduce (x_state r) Ev_lease = Inr s"
      and i: "uuid4 cfg k = Inr (i, k1)"
      and ch: "charge_managed_claim (x_id r) ts k1 = Inr (u, k2)"
      and au: "authorize_managed_operation (x_id r) ts ''start'' False k2 = Inr (u', k2')"
      and up: "update_exec ?P (\<lambda>x. x\<lparr>x_state := Running, x_attempt := x_attempt r + 1, x_lease_id := Some i,
                    x_lease_owner := Some owner, x_fence := x_fence r + 1,
                    x_lease_expires := Some e, x_started := Some ts,
                    x_revision := x_revision r + 1 + 1, x_updated := ts\<rparr>) k2' = Inr (u'', k3)"
      and e1: "append_event (x_id r) (x_revision r + 1) ''leased'' (Some Queued) Leased
             (leased_data owner (x_attempt r + 1) (x_fence r + 1)) ts k3 = Inr (v, k4)"
      and e2: "append_event (x_id r) (x_revision r + 1 + 1) ''started'' (Some Leased) Running
             (py_dict [(''attempt'', PInt (x_attempt r + 1)), (''fence'', PInt (x_fence r + 1))]) ts k4 = Inr (v', t)"
      and l: "lease_ok l" "l = \<lparr>l_execution_id = x_id r, l_lease_id = i, l_owner = owner, l_fence = x_fence r + 1,
             l_attempt = x_attempt r + 1, l_expires_at = e, l_revision = x_revision r + 1 + 1\<rparr>"
    using run unfolding claim_start_row_def Let_def
    by (elim bindE) (auto simp: mk_lease_typed_def split: if_splits)
  have q: "x_state r = Queued" using red by (cases "x_state r") auto
  have k1: "at_time ts k1" "execs k1 = execs k" using i k by (auto simp: uuid4_Inr)
  have k2': "k2' = k2" using authorize_Inr[OF au] .
  note k2 = at_time_charged[OF ch k1(1)]
  have r2: "r \<in> set (execs k2)" using r k2(2) k1(2) by simp
  have ok2: "execs_ok k2" "log_ok k2" "watermark k2 = ts" using k2(1) by (auto simp: at_time_def kernel_ok_def)
  have m: "moved r (claimed_row r Running i owner e (Some ts) (x_revision r + 1 + 1) ts) k2 t"
    unfolding claimed_row_def
    by (rule update_two_events_moved[OF up[unfolded k2'] e1[folded q] e2 ok2(1,2) r2])
      (use ok2(3) q in \<open>auto simp: step_allowed_def\<close>)
  have "at_time ts t"
    by (rule claimed_at_time[OF m k2(1) q]) (use l in \<open>auto simp: lease_ok_def\<close>)
  then show ?thesis using moved_find[OF m ok2(1)] l q by simp
qed

lemma next_claim_row_Inr: "next_claim_row ts rs i ex k = Inr (row, t) \<Longrightarrow>
    t = k \<and> (\<forall>r. row = Some r \<longrightarrow> r \<in> set (execs k) \<and> claimable k ts rs i ex r)"
proof -
  assume run: "next_claim_row ts rs i ex k = Inr (row, t)"
  let ?c = "sql_select (claimable k ts rs i ex) exec_order (execs k)"
  have t: "t = k" "row = (case ?c of [] \<Rightarrow> None | r # _ \<Rightarrow> Some r)" using run by (auto simp: next_claim_row_def)
  have "r \<in> set ?c" if "row = Some r" for r using that t(2) by (cases ?c) auto
  then show ?thesis using t(1) by auto
qed

lemma next_eligible_Inr: "next_eligible_claim ts rs i ex k = Inr (row, t) \<Longrightarrow>
    t = k \<and> (\<forall>r. row = Some r \<longrightarrow> r \<in> set (execs k) \<and> claimable k ts rs i ex r)"
  unfolding next_eligible_claim_def
  by (elim bindE) (auto simp: bind_Inr split: option.splits dest!: next_claim_row_Inr)

lemma claim_sound: "config_ok cfg \<Longrightarrow> sound ts (claim_body cfg owner d rs i ts)"
proof (rule soundI)
  fix k a t
  assume cfg: "config_ok cfg" and k: "at_time ts k" and run: "claim_body cfg owner d rs i ts k = Inr (a, t)"
  obtain ids k1 row k2 where rp: "reap_in_transaction cfg ts k = Inr (ids, k1)"
      and nx: "next_eligible_claim ts rs i [] k1 = Inr (row, k2)"
      and go: "(case row of None \<Rightarrow> ret None
        | Some row \<Rightarrow> bind (claim_row cfg owner d row ts) (\<lambda>l. ret (Some l))) k2 = Inr (a, t)"
    using run unfolding claim_body_def by (elim bindE) (rule that)
  have k1: "at_time ts k1" using soundD[OF reap_in_transaction_sound[OF cfg] k rp] .
  show "at_time ts t"
    using go next_eligible_Inr[OF nx] k1 claim_row_ok[of cfg owner d _ ts k1 _ t]
    by (cases row) (auto simp: bind_Inr)
qed

lemma claim_and_start_sound: "config_ok cfg \<Longrightarrow> sound ts (claim_and_start_body cfg owner d s rs i ex ts)"
proof (rule soundI)
  fix k a t
  assume cfg: "config_ok cfg" and k: "at_time ts k" and run: "claim_and_start_body cfg owner d s rs i ex ts k = Inr (a, t)"
  obtain ids k1 row k2 where rp: "reap_in_transaction cfg ts k = Inr (ids, k1)"
      and nx: "next_eligible_claim ts rs i (remdups ex) k1 = Inr (row, k2)"
      and go: "(case row of None \<Rightarrow> ret None
        | Some row \<Rightarrow> bind (claim_start_row cfg owner d s row ts) (\<lambda>l. ret (Some l))) k2 = Inr (a, t)"
    using run unfolding claim_and_start_body_def by (elim bindE) (rule that)
  have k1: "at_time ts k1" using soundD[OF reap_in_transaction_sound[OF cfg] k rp] .
  show "at_time ts t"
    using go next_eligible_Inr[OF nx] k1 claim_start_row_ok[of cfg owner d s _ ts k1 _ t]
    by (cases row) (auto simp: bind_Inr)
qed

lemma next_queued_sound: "config_ok cfg \<Longrightarrow> sound ts (next_queued_body cfg registry ts)"
  unfolding next_queued_body_def
  by (intro sound.rules sound.option_rule reap_in_transaction_sound)
    (auto intro: soundI dest: next_claim_row_Inr)

lemma verify_sound: "sound ts (verify_body l ts)"
  unfolding verify_body_def
  by (intro sound.rules) (auto intro: soundI dest: authorize_Inr simp: assert_lease_Inr)

lemma sound_obligations: "sound ts (modify (\<lambda>k. k\<lparr>obligations := f k\<rparr>))"
  by (rule soundI) auto

lemma register_obligation_sound: "sound ts (register_supervisor_obligation_body l ts)"
  unfolding register_supervisor_obligation_body_def Let_def
  by (intro sound.rules sound.option_rule sound.if_rule sound_obligations) (auto intro: soundI simp: assert_lease_Inr)

text \<open>A leased execution that starts, and one whose lease is renewed.\<close>

definition started_row :: "exec_row \<Rightarrow> rat \<Rightarrow> exec_row" where
  "started_row r ts = r\<lparr>x_state := Running, x_started := Some ts, x_revision := x_revision r + 1, x_updated := ts\<rparr>"

definition renewed_row :: "exec_row \<Rightarrow> rat \<Rightarrow> rat \<Rightarrow> exec_row" where
  "renewed_row r e ts = r\<lparr>x_lease_expires := Some e, x_revision := x_revision r + 1, x_updated := ts\<rparr>"

lemma started_row_ok:
  "row_ok r \<Longrightarrow> x_state r = Leased \<Longrightarrow> x_updated r \<le> ts \<Longrightarrow> 0 \<le> ts \<Longrightarrow> row_ok (started_row r ts)"
  by (auto simp: row_ok_def row_identity_ok_def row_lease_ok_def row_result_ok_def row_recovery_ok_def
      row_started_ok_def started_row_def)

lemma renewed_row_ok:
  assumes "row_ok r" and "x_state r \<in> {Leased, Running}" and "x_updated r \<le> ts" and "0 \<le> e"
  shows "row_ok (renewed_row r e ts)"
proof -
  have "optional_ok (\<lambda>s. 0 \<le> s \<and> s \<le> ts) (x_started r)"
    using assms(1,3) by (cases "x_started r") (auto simp: row_ok_def row_started_ok_def)
  then show ?thesis using assms
    by (auto simp: row_ok_def row_identity_ok_def row_lease_ok_def row_result_ok_def row_recovery_ok_def
        row_started_ok_def renewed_row_def)
qed

lemma start_ok:
  assumes run: "start_body l ts k = Inr (l', t)" and k: "at_time ts k"
  shows "at_time ts t \<and> (\<exists>r. find_exec (l_execution_id l) k = Some r \<and> lease_matches r l \<and> x_state r = Leased \<and>
    ts < l_expires_at l \<and> find_exec (l_execution_id l) t = Some (started_row r ts) \<and>
    l' = l\<lparr>l_revision := l_revision l + 1\<rparr>)"
proof -
  let ?P = "\<lambda>r x. x_id x = l_execution_id l \<and> x_state x = Leased \<and> x_revision x = x_revision r"
  obtain r u k1 u' k2 v where f: "find_exec (l_execution_id l) k = Some r" and lm: "lease_matches r l"
      and q: "x_state r = Leased" and ex: "ts < l_expires_at l"
      and au: "authorize_managed_operation (l_execution_id l) ts ''start'' False k = Inr (u, k1)"
      and up: "update_exec (?P r) (\<lambda>x. x\<lparr>x_state := Running, x_started := Some ts, x_revision := x_revision r + 1,
                    x_updated := ts\<rparr>) k1 = Inr (u', k2)"
      and ev: "append_event (l_execution_id l) (x_revision r + 1) ''started'' (Some Leased) Running
             (py_dict (attempt_data l)) ts k2 = Inr (v, t)"
      and l': "l' = l\<lparr>l_revision := x_revision r + 1\<rparr>"
    using run unfolding start_body_def Let_def
    by (elim bindE) (auto simp: mk_lease_typed_def assert_lease_Inr split: if_splits)
  have k1: "k1 = k" using authorize_Inr[OF au] .
  have r: "r \<in> set (execs k)" "x_id r = l_execution_id l" using f at_time_find[OF k] by auto
  have ok: "execs_ok k" "log_ok k" "watermark k = ts" "0 \<le> ts" using k by (auto simp: at_time_def kernel_ok_def)
  have m: "moved r (started_row r ts) k t"
    unfolding started_row_def
    by (rule update_event_moved[OF up[unfolded k1] ev[folded q r(2)] ok(1,2) r(1)])
      (use ok(3) q r in \<open>auto simp: step_allowed_def\<close>)
  have "row_ok (started_row r ts)" using started_row_ok q ok(4) at_time_row[OF k r(1)] by blast
  then have "at_time ts t"
    by (rule moved_at_time[OF m at_time_but[OF k]])
      (use q queued_finished[OF k r(1)] in \<open>auto simp: started_row_def owns_def no_unfinished_def\<close>)
  then show ?thesis using moved_find[OF m ok(1)] f lm q ex l' r(2) by (auto simp: lease_matches_def)
qed

lemma renew_ok:
  assumes run: "renew_body l d ts k = Inr (l', t)" and k: "at_time ts k"
  shows "at_time ts t \<and> (\<exists>r e. find_exec (l_execution_id l) k = Some r \<and> lease_matches r l \<and>
    x_state r \<in> {Leased, Running} \<and> ts < l_expires_at l \<and> checked_add ts d = Inr e \<and>
    find_exec (l_execution_id l) t = Some (renewed_row r e ts) \<and>
    l' = l\<lparr>l_expires_at := e, l_revision := l_revision l + 1\<rparr>)"
proof -
  let ?P = "\<lambda>r x. x_id x = l_execution_id l \<and> x_revision x = x_revision r"
  obtain r u k1 e u' k2 v where f: "find_exec (l_execution_id l) k = Some r" and lm: "lease_matches r l"
      and q: "x_state r \<in> {Leased, Running}" and ex: "ts < l_expires_at l"
      and au: "authorize_managed_operation (l_execution_id l) ts ''lease renewal'' False k = Inr (u, k1)"
      and add: "checked_add ts d = Inr e"
      and up: "update_exec (?P r) (\<lambda>x. x\<lparr>x_lease_expires := Some e, x_revision := x_revision r + 1,
                    x_updated := ts\<rparr>) k1 = Inr (u', k2)"
      and ev: "append_event (l_execution_id l) (x_revision r + 1) ''lease_renewed'' (Some (x_state r)) (x_state r)
             (py_dict [(''fence'', PInt (l_fence l)), (''expires_at'', PFin e)]) ts k2 = Inr (v, t)"
      and l': "l' = l\<lparr>l_expires_at := e, l_revision := x_revision r + 1\<rparr>"
    using run unfolding renew_body_def Let_def
    by (elim bindE) (auto simp: mk_lease_typed_def assert_lease_Inr split: if_splits)
  have k1: "k1 = k" using authorize_Inr[OF au] .
  have r: "r \<in> set (execs k)" "x_id r = l_execution_id l" using f at_time_find[OF k] by auto
  have ok: "execs_ok k" "log_ok k" "watermark k = ts" using k by (auto simp: at_time_def kernel_ok_def)
  have m: "moved r (renewed_row r e ts) k t"
    unfolding renewed_row_def
    by (rule update_event_moved[OF up[unfolded k1] ev[folded r(2)] ok(1,2) r(1)])
      (use ok(3) q r in \<open>auto simp: step_allowed_def\<close>)
  have "row_ok (renewed_row r e ts)"
    using renewed_row_ok q checked_add_nonneg[OF add] at_time_row[OF k r(1)] by blast
  then have "at_time ts t"
    by (rule moved_at_time[OF m at_time_but[OF k]]) (use q in \<open>auto simp: renewed_row_def owns_def\<close>)
  then show ?thesis using moved_find[OF m ok(1)] f lm q ex l' r(2) add by (auto simp: lease_matches_def)
qed

lemma start_sound: "sound ts (start_body l ts)" and renew_sound: "sound ts (renew_body l d ts)"
  using start_ok renew_ok by (blast intro: soundI)+

end
