(* ===== verification/Submitting.thy ===== *)
theory Submitting
  imports Claims
begin

text \<open>
  Soundness of submission: a new execution enters the store queued, at revision 1, with its
  first event; a known identifier or idempotency key enters nothing.
\<close>

lemma queued_row_ok: "command_ok cmd \<Longrightarrow> 0 \<le> ts \<Longrightarrow> row_ok (queued_row cmd ts)"
  by (simp add: row_ok_def row_identity_ok_def row_lease_ok_def row_result_ok_def row_recovery_ok_def
      row_started_ok_def queued_row_def) (simp add: canon_command_def)

lemma queued_row_fields [simp]:
  "x_id (queued_row cmd ts) = c_execution_id cmd" "x_key (queued_row cmd ts) = c_idempotency_key cmd"
  "x_state (queued_row cmd ts) = Queued" "x_revision (queued_row cmd ts) = 1"
  "x_updated (queued_row cmd ts) = ts" "x_command (queued_row cmd ts) = canon_command cmd"
  "x_fence (queued_row cmd ts) = 0" "x_attempt (queued_row cmd ts) = 0"
  by (simp_all add: queued_row_def)

lemma events_for_fresh:
  "log_ok k \<Longrightarrow> i \<notin> x_id ` set (execs k) \<Longrightarrow> events_for i (events k) = []"
  by (auto simp: log_ok_def events_for_def filter_empty_conv)

lemma log_ok_insert:
  assumes log: "log_ok k" and fresh: "x_id r \<notin> x_id ` set (execs k)"
    and t: "execs t = execs k @ [r]" "event_sequence t = event_sequence k + 1" "events t = events k @ [w]"
      "watermark t = watermark k"
    and r: "x_revision r = 1" "x_state r = Queued"
    and w: "event_ok w" "ev_sequence w = event_sequence k + 1" "ev_event_id w = numbered (x_id r) 1"
      "ev_execution_id w = x_id r" "ev_revision w = 1" "ev_created_at w \<le> watermark k"
      "ev_from_state w = None" "ev_to_state w = xname Queued"
  shows "log_ok t"
proof -
  have seq: "0 \<le> event_sequence k" "List.map ev_sequence (events k) = [1..event_sequence k]"
    and tr: "\<forall>q \<in> set (execs k). trail (events_for (x_id q) (events k)) (x_revision q) (x_state q)"
    using log by (auto simp: log_ok_def)
  have "List.map ev_sequence (events t) = [1..event_sequence t]"
    using seq t w(2) upto_rec2[of 1 "event_sequence k + 1"] by simp
  moreover have "trail (events_for (x_id q) (events t)) (x_revision q) (x_state q)" if q: "q \<in> set (execs t)" for q
  proof (cases "q \<in> set (execs k)")
    case True
    then have "x_id q \<noteq> x_id r" using fresh by (metis imageI)
    then show ?thesis using tr True t w by (simp add: events_for_append events_for_one)
  next
    case False
    then have "q = r" using q t by simp
    then show ?thesis
      using events_for_fresh[OF log fresh] t w r trail_first[of w] by (simp add: events_for_append events_for_one)
  qed
  ultimately show ?thesis using log seq t w by (auto simp: log_ok_def)
qed

text \<open>The store after a new execution has been queued.\<close>

definition entered :: "exec_row \<Rightarrow> kernel \<Rightarrow> kernel \<Rightarrow> bool" where
  "entered r k t \<longleftrightarrow>
     (\<exists>w. t = k\<lparr>execs := execs k @ [r], event_sequence := event_sequence k + 1, events := events k @ [w]\<rparr> \<and>
        ev_execution_id w = x_id r \<and> ev_revision w = 1 \<and> ev_type w = ''submitted'') \<and>
     log_ok t \<and> x_id r \<notin> x_id ` set (execs k) \<and> x_key r \<notin> x_key ` set (execs k)"

lemma entered_at_time:
  assumes e: "entered r k t" and k: "at_time ts k" and r: "row_ok r" "x_updated r \<le> ts" "x_state r = Queued"
  shows "at_time ts t"
proof -
  obtain w where t: "t = k\<lparr>execs := execs k @ [r], event_sequence := event_sequence k + 1, events := events k @ [w]\<rparr>"
      and log: "log_ok t" and new: "x_id r \<notin> x_id ` set (execs k)" "x_key r \<notin> x_key ` set (execs k)"
    using e unfolding entered_def by blast
  have ok: "execs_ok k" "effects_ok k" "outbox_ok k" "delivered_ok k" "controls_ok k" "watermark k = ts"
      "0 \<le> watermark k" "is_float (watermark k)"
    using k by (auto simp: at_time_def kernel_ok_def)
  have "execs_ok t" using ok(1,6) new r by (auto simp: execs_ok_def exec_table.unique_def t)
  moreover have "effects_ok t" using ok(2) r(3)
    by (auto simp: effects_ok_def effect_table.unique_def t)
  moreover have "outbox_ok t" using ok(3) by (auto simp: outbox_ok_def outbox_table.unique_def t)
  moreover have "delivered_ok t" using ok(4) r(3) by (auto simp: delivered_ok_def t)
  moreover have "controls_ok t" using ok(5) by (auto simp: controls_ok_def control_table.unique_def managed_table.unique_def t)
  ultimately show ?thesis using log ok by (simp add: at_time_def kernel_ok_def t)
qed

lemma submit_new:
  assumes run: "submit_in_transaction cmd ts k = Inr ((r, True), t)" and k: "at_time ts k"
  shows "entered (queued_row cmd ts) k t \<and> r = queued_row cmd ts"
proof -
  let ?r = "queued_row cmd ts"
  have ex: "existing_submission cmd k = None"
    using run by (auto simp: submit_in_transaction_def bind_Inr split: option.splits if_splits)
  then obtain u k1 v k2 where ins: "insert_exec ?r k = Inr (u, k1)"
      and ev: "append_event (c_execution_id cmd) 1 ''submitted'' None Queued (event_data_command cmd) ts k1 = Inr (v, k2)"
      and g: "get_row (c_execution_id cmd) k2 = Inr (r, t)"
    using run by (auto simp: submit_in_transaction_def bind_Inr)
  have k1: "k1 = k\<lparr>execs := execs k @ [?r]\<rparr>" and new: "x_id ?r \<notin> x_id ` set (execs k)" "x_key ?r \<notin> x_key ` set (execs k)"
    using ins by (auto simp: insert_exec_Inr sql_find_None)
  have t: "t = k2" "find_exec (c_execution_id cmd) k2 = Some r" using g by (auto simp: get_row_Inr)
  obtain w where k2: "k2 = k1\<lparr>event_sequence := event_sequence k1 + 1, events := events k1 @ [w]\<rparr>"
    and w: "event_ok w" "ev_sequence w = event_sequence k1 + 1" "ev_event_id w = numbered (c_execution_id cmd) 1"
      "ev_execution_id w = c_execution_id cmd" "ev_revision w = 1" "ev_type w = ''submitted''" "ev_created_at w = ts"
      "ev_from_state w = None" "ev_to_state w = xname Queued"
    using append_event_Inr[OF ev] by auto
  have log: "log_ok k" "watermark k = ts" using k by (auto simp: at_time_def kernel_ok_def)
  have "log_ok t"
    by (rule log_ok_insert[OF log(1) new(1), of t w]) (use w log(2) in \<open>simp_all add: t k2 k1\<close>)
  then have e: "entered ?r k t"
    unfolding entered_def using new w by (auto simp: t(1) k2 k1 intro!: exI[of _ w])
  have "exec_table.unique t" using at_time_unique[OF k] new(1) by (simp add: exec_table.unique_def t(1) k2 k1)
  then have "find_exec (x_id ?r) t = Some ?r" by (simp only: exec_table.find_row_iff) (simp add: t(1) k2 k1)
  then show ?thesis using e t by simp
qed

lemma submit_known:
  assumes "submit_in_transaction cmd ts k = Inr ((r, False), t)"
  shows "t = k \<and> r \<in> set (execs k) \<and> x_command r = canon_command cmd \<and> existing_submission cmd k = Some r"
  using assms
  by (auto simp: submit_in_transaction_def existing_submission_def bind_Inr split: option.splits if_splits
      dest: exec_table.find_rowD sql_find_Some)

lemma submit_in_transaction_ok:
  assumes "submit_in_transaction cmd ts k = Inr ((r, c), t)" and "at_time ts k" and "command_ok cmd"
  shows "at_time ts t \<and> r \<in> set (execs t) \<and> x_command r = canon_command cmd \<and> (c \<longrightarrow> r = queued_row cmd ts)"
proof (cases c)
  case True
  have s: "entered (queued_row cmd ts) k t" "r = queued_row cmd ts"
    using submit_new[of cmd ts k r t] assms(1,2) True by auto
  have "0 \<le> ts" using assms(2) by (auto simp: at_time_def kernel_ok_def)
  then have "at_time ts t" using entered_at_time[OF s(1) assms(2)] queued_row_ok[OF assms(3)] by simp
  then show ?thesis using s by (auto simp: entered_def)
next
  case False
  then show ?thesis using submit_known[of cmd ts k r t] assms(1,2) by simp
qed

lemma submit_body_sound:
  assumes "command_ok cmd"
  shows "sound ts (bind (get (find_managed (c_execution_id cmd))) (\<lambda>m.
        bind (check (m = None) StorageIsolationError) (\<lambda>_.
        bind (submit_in_transaction cmd ts) (\<lambda>(row, _). lift (snapshot row)))))"
  by (rule soundI) (auto simp: bind_Inr dest: submit_in_transaction_ok[OF _ _ assms])

subsection \<open>Managed submissions and cancellations before acceptance\<close>

lemma insert_managed_sound: "sound ts (insert_managed m)"
proof (rule soundI)
  fix k u t
  assume k: "at_time ts k" and run: "insert_managed m k = Inr (u, t)"
  then have t: "t = k\<lparr>run_controls := run_controls k, managed := managed k @ [m]\<rparr>"
      and new: "m_execution_id m \<notin> m_execution_id ` set (managed k)"
    by (auto simp: insert_managed_Inr sql_find_None)
  have "controls_ok t"
    using at_time_controls_ok[OF k] new by (simp add: controls_ok_alt t control_table.unique_def managed_table.unique_def)
  then show "at_time ts t" by (rule at_time_controls[OF k t])
qed

lemma register_managed_ok:
  assumes "register_managed cmd run_id g ts k = Inr (r, t)" and "at_time ts k" and "command_ok cmd"
  shows "at_time ts t \<and> r \<in> set (execs t) \<and> r = queued_row cmd ts"
proof -
  obtain u k1 b where i: "insert_managed \<lparr>m_execution_id = c_execution_id cmd, m_run_id = run_id,
             m_generation = g, m_drain = False\<rparr> k = Inr (u, k1)"
      and s: "submit_in_transaction cmd ts k1 = Inr ((r, b), t)" and b: "b"
    using assms(1) by (auto simp: register_managed_def bind_Inr)
  have "at_time ts k1" using soundD[OF insert_managed_sound assms(2) i] .
  then show ?thesis using submit_in_transaction_ok[OF s _ assms(3)] b by blast
qed

lemma managed_existing_Inr: "managed_existing cmd i g m r k = Inr (s, t) \<Longrightarrow> t = k"
  by (auto simp: managed_existing_def split: if_splits option.splits)

lemma sound_managed_existing: "sound ts (managed_existing cmd i g m r)"
  by (rule soundI) (auto dest: managed_existing_Inr)

lemma register_managed_sound: "command_ok cmd \<Longrightarrow> sound ts (register_managed cmd i g ts)"
  by (rule soundI) (auto dest: register_managed_ok)

lemma submit_managed_sound: "command_ok cmd \<Longrightarrow> sound ts (submit_managed_body cmd i g ts)"
  unfolding submit_managed_body_def
  by (intro sound.rules sound.option_rule sound_managed_existing register_managed_sound)

text \<open>An execution cancelled in the transaction that entered it.\<close>

lemma cancel_entered_ok:
  assumes run: "bind (cancelled_result cfg r cmd ts reason []) (\<lambda>result. make_terminal cfg r result ty ts) k = Inr (s, t)"
    and k: "at_time ts k" and r: "r \<in> set (execs k)" and x: "x_command r = canon_command cmd" and cfg: "config_ok cfg"
  shows "at_time ts t"
proof -
  obtain q k1 where c: "cancelled_result cfg r cmd ts reason [] k = Inr (q, k1)"
      and m: "make_terminal cfg r q ty ts k1 = Inr (s, t)"
    using run by (auto simp: bind_Inr)
  have q: "result_for r q ts" and k1: "k1 = k\<lparr>uuids := uuids k + 1\<rparr>"
    using cancelled_result_ok[OF c k r] x by (auto simp: canon_command_def)
  show ?thesis using make_terminal_ok[OF m[unfolded k1] _ _ q cfg] k r by simp
qed

lemma cancel_before_accept_sound:
  assumes "config_ok cfg" and "command_ok cmd"
  shows "sound ts (cancel_before_accept_body cfg cmd reason ts)"
proof (rule soundI)
  fix k s t
  assume k: "at_time ts k" and run: "cancel_before_accept_body cfg cmd reason ts k = Inr (s, t)"
  obtain r c k1 where sub: "submit_in_transaction cmd ts k = Inr ((r, c), k1)"
      and go: "(if \<not> c then lift (snapshot r) else
       bind (cancelled_result cfg r cmd ts reason []) (\<lambda>result. make_terminal cfg r result ''cancelled'' ts)) k1 = Inr (s, t)"
    using run unfolding cancel_before_accept_body_def by (elim bindE) auto
  have k1: "at_time ts k1" "r \<in> set (execs k1)" "x_command r = canon_command cmd"
    using submit_in_transaction_ok[OF sub k assms(2)] by auto
  show "at_time ts t"
    using go cancel_entered_ok[OF _ k1 assms(1), of reason "''cancelled''" s t] k1(1) by (auto split: if_splits)
qed

lemma cancel_managed_sound:
  assumes "config_ok cfg" and "command_ok cmd"
  shows "sound ts (cancel_managed_body cfg cmd i g reason ts)"
proof -
  have tail: "sound ts (bind (register_managed cmd i g ts) (\<lambda>row.
      bind (cancelled_result cfg row cmd ts reason []) (\<lambda>result. make_terminal cfg row result ''cancelled'' ts)))"
  proof (rule soundI)
    fix k s t
    assume k: "at_time ts k" and run: "bind (register_managed cmd i g ts) (\<lambda>row.
      bind (cancelled_result cfg row cmd ts reason []) (\<lambda>result. make_terminal cfg row result ''cancelled'' ts)) k = Inr (s, t)"
    obtain r k1 where reg: "register_managed cmd i g ts k = Inr (r, k1)"
        and go: "bind (cancelled_result cfg r cmd ts reason []) (\<lambda>result. make_terminal cfg r result ''cancelled'' ts) k1 = Inr (s, t)"
      using run by (elim bindE) (auto simp: bind_Inr)
    show "at_time ts t"
      using register_managed_ok[OF reg k assms(2)] cancel_entered_ok[OF go _ _ _ assms(1)] by auto
  qed
  show ?thesis
    unfolding cancel_managed_body_def
    by (intro tail sound.bind_rule[OF sound.get_rule] sound.bind_rule[OF sound.lift_rule] sound.bind_rule[OF sound.check_rule] sound.option_rule
        sound_managed_existing)
qed

end
