(* ===== verification/Working.thy ===== *)
theory Working
  imports Submitting
begin

text \<open>
  Soundness of the effect journal: preparing, claiming, committing and marking an effect
  under a live lease, and the explicit recovery decision.
\<close>

subsection \<open>The journal under a lease\<close>

definition effect_changes :: "effect_record \<Rightarrow> effect_record \<Rightarrow> bool" where
  "effect_changes e e' \<longleftrightarrow> e_effect_id e' = e_effect_id e \<and> e_execution_id e' = e_execution_id e"

lemma changed_at_time:
  assumes c: "changed e e' k t" and k: "at_time ts k" and ok: "effect_row_ok e' ts"
    and r: "r \<in> set (execs k)" and own: "owns r e'" and st: "x_state r = Running" and id: "e_execution_id e = x_id r"
  shows "at_time ts t"
proof -
  have k': "kernel_ok k" "watermark k = ts" "effects_ok k" using k by (auto simp: at_time_def kernel_ok_def)
  have "\<not> parked_for q e" if q: "q \<in> set (execs k)" for q
  proof
    assume p: "parked_for q e"
    then have "x_id q = x_id r" using id by (simp add: parked_for_def)
    then have "q = r" by (rule exec_table.key_inj[OF at_time_unique[OF k] q r])
    moreover have "x_rec_effect r = None" using at_time_row[OF k r] st by (auto simp: row_ok_def row_recovery_ok_def)
    ultimately show False using p by (simp add: parked_for_def)
  qed
  then have "effects_ok t"
    by (intro changed_effects_ok[OF c k'(3)]) (use ok k'(2) r own in \<open>simp, blast, blast\<close>)
  then have "kernel_ok t" by (rule changed_kernel_ok[OF c k'(1)])
  then show ?thesis using changed_frame(3)[OF c] k'(2) by (simp add: at_time_def)
qed

lemma at_time_effect: "at_time ts k \<Longrightarrow> e \<in> set (effects k) \<Longrightarrow> effect_row_ok e ts"
  by (auto simp: at_time_def kernel_ok_def effects_ok_alt)

lemma at_time_effects_unique: "at_time ts k \<Longrightarrow> effect_table.unique k"
  by (auto simp: at_time_def kernel_ok_def effects_ok_def)

lemma find_effect_at: "at_time ts k \<Longrightarrow> find_effect i k = Some e \<longleftrightarrow> e \<in> set (effects k) \<and> e_effect_id e = i"
  using at_time_effects_unique by (simp add: effect_table.find_row_iff)

lemma leased_row:
  assumes "at_time ts k" and "find_exec (l_execution_id l) k = Some r" and "lease_matches r l"
  shows "r \<in> set (execs k)" and "x_id r = l_execution_id l" and "x_attempt r = l_attempt l" and "x_fence r = l_fence l"
    and "x_lease_id r = Some (l_lease_id l)" and "l_fence l = l_attempt l" and "1 \<le> x_attempt r \<or> x_state r \<notin> {Leased, Running}"
proof -
  show r: "r \<in> set (execs k)" "x_id r = l_execution_id l" using assms at_time_find by auto
  show m: "x_attempt r = l_attempt l" "x_fence r = l_fence l" "x_lease_id r = Some (l_lease_id l)"
    using assms(3) by (auto simp: lease_matches_def)
  show "l_fence l = l_attempt l" "1 \<le> x_attempt r \<or> x_state r \<notin> {Leased, Running}"
    using at_time_row[OF assms(1) r(1)] m by (auto simp: row_ok_def row_identity_ok_def row_lease_ok_def split: if_splits)
qed

text \<open>Claiming, committing and marking change one effect of the lease's attempt.\<close>

lemma journal_step:
  assumes up: "update_effect P f k1 = Inr (u, k2)" and g: "get_effect (e_effect_id e) k2 = Inr (c, k3)"
    and ev: "effect_event c ty fs dat ts k3 = Inr (w, t)" and k1: "k1 = k\<lparr>uuids := n\<rparr>"
    and k: "at_time ts k" and e: "find_effect i k = Some e" and P: "P e"
    and id: "\<And>q. P q \<Longrightarrow> e_effect_id (f q) = e_effect_id q"
    and r: "find_exec (l_execution_id l) k = Some r" "lease_matches r l" "x_state r = Running"
    and ml: "e_execution_id e = l_execution_id l" "e_lease_id e = l_lease_id l" "e_attempt e = l_attempt l"
    and f: "e_execution_id (f e) = e_execution_id e" "e_attempt (f e) = e_attempt e" "e_fence (f e) = e_fence e"
      "e_lease_id (f e) = e_lease_id e" "e_request (f e) = e_request e" "canon (e_response (f e)) = e_response (f e)"
      "effect_times_le (f e) ts"
  shows "at_time ts t" and "c = f e" and "find_effect i t = Some (f e)"
proof -
  have k1': "at_time ts k1" using k k1 by simp
  have ek: "e \<in> set (effects k)" "e_effect_id e = i" using e find_effect_at[OF k] by auto
  then have e1: "e \<in> set (effects k1)" by (simp add: k1)
  note u = at_time_effects_unique[OF k1']
  note ch = update_effect_changed[OF up g ev u e1 P id]
  note lr = leased_row[OF k r(1,2)]
  have ok: "effect_row_ok (f e) ts"
    using at_time_effect[OF k ek(1)] f ch(3) by (auto simp: effect_row_ok_def)
  have own: "owns r (f e)" using lr ml f r(3) by (auto simp: owns_def)
  have r1: "r \<in> set (execs k1)" using lr(1) by (simp add: k1)
  show t: "at_time ts t"
    by (rule changed_at_time[OF ch(1) k1' ok r1 own r(3)]) (assumption, rule trans[OF ml(1) lr(2)[symmetric]])
  show "c = f e" by (rule ch(2))
  have "f e \<in> set (effects t)" using changed_frame(11)[OF ch(1)] by blast
  then show "find_effect i t = Some (f e)" using find_effect_at[OF t] id[OF P] ek by simp
qed

lemma effect_matches_Inr: "effect_matches_lease e l = Inr u \<longleftrightarrow>
    e_execution_id e = l_execution_id l \<and> e_lease_id e = l_lease_id l \<and> e_attempt e = l_attempt l \<and> e_fence e = l_fence l"
  by (auto simp: effect_matches_lease_def require_def)

lemma claim_matches_Inr: "claim_matches e c = Inr u \<longleftrightarrow> nonblank c \<and> e_claim_id e = Some c"
  by (auto simp: claim_matches_def require_def rbind_eq_Inr)

definition performing_form :: "effect_record \<Rightarrow> string \<Rightarrow> effect_record" where
  "performing_form e c = e\<lparr>e_state := Performing, e_claim_id := Some c, e_revision := e_revision e + 1\<rparr>"

lemma claim_effect_ok:
  assumes run: "claim_effect_body cfg l i ts k = Inr (c, t)" and k: "at_time ts k"
  shows "at_time ts t \<and> (\<exists>r e. find_exec (l_execution_id l) k = Some r \<and> lease_matches r l \<and> x_state r = Running \<and>
    ts < l_expires_at l \<and> find_effect i k = Some e \<and> e_state e = Prepared \<and>
    c = performing_form e (hex cfg (uuids k)) \<and> find_effect i t = Some c)"
proof -
  let ?P = "\<lambda>e x. e_effect_id x = i \<and> e_state x = Prepared \<and> e_claim_id x = None \<and> e_revision x = e_revision e"
  let ?f = "\<lambda>e j x. x\<lparr>e_state := Performing, e_claim_id := Some j, e_revision := e_revision e + 1\<rparr>"
  obtain r e u k1 j k2 u' k3 c' k4 w where r: "find_exec (l_execution_id l) k = Some r" "lease_matches r l"
        "x_state r = Running" and ex: "ts < l_expires_at l"
      and e: "find_effect i k = Some e" "effect_ok e" and m: "effect_matches_lease e l = Inr ()" and st: "e_state e = Prepared"
      and au: "authorize_managed_operation (l_execution_id l) ts ''external effect claim'' False k = Inr (u, k1)"
      and j: "uuid4 cfg k1 = Inr (j, k2)"
      and up: "update_effect (?P e) (?f e j) k2 = Inr (u', k3)"
      and g: "get_effect i k3 = Inr (c', k4)"
      and ev: "effect_event c' ''perform_claimed'' (Some ''prepared'')
             (py_dict ((''claim_id'', PStr j) # attempt_data l)) ts k4 = Inr (w, t)" and c: "c = c'"
    using run unfolding claim_effect_body_def
    by (elim bindE) (auto simp: assert_lease_Inr get_effect_Inr)
  have k1: "k1 = k" using authorize_Inr[OF au] .
  have k2: "k2 = k\<lparr>uuids := uuids k + 1\<rparr>" "j = hex cfg (uuids k)" using j k1 by (auto simp: uuid4_Inr)
  have ei: "e_effect_id e = i" using e find_effect_at[OF k] by auto
  have et: "effect_row_ok e ts" using at_time_effect[OF k] e find_effect_at[OF k] by auto
  have P: "?P e e" using st e(2) ei by (simp add: effect_ok_def effect_state_ok_def)
  note js = journal_step[OF up g[folded ei] ev k2(1) k e(1) P _ r]
  have "at_time ts t" "c' = ?f e j e" "find_effect i t = Some (?f e j e)"
    by (rule js; use m et in \<open>auto simp: effect_matches_Inr effect_row_ok_def effect_times_le_def\<close>)+
  then show ?thesis using r ex e st c k2(2) by (auto simp: performing_form_def)
qed

definition committed_form :: "effect_record \<Rightarrow> pyval \<Rightarrow> rat \<Rightarrow> effect_record" where
  "committed_form e v ts =
     e\<lparr>e_state := Committed, e_response := canon v, e_committed_at := Some ts, e_revision := e_revision e + 1\<rparr>"

definition uncertain_form :: "effect_record \<Rightarrow> pyval \<Rightarrow> rat \<Rightarrow> effect_record" where
  "uncertain_form e v ts =
     e\<lparr>e_state := Indeterminate, e_response := canon v, e_indeterminate_at := Some ts, e_recovery_id := None,
       e_recovery_decision := None, e_resolved_at := None, e_revision := e_revision e + 1\<rparr>"

lemma commit_effect_ok:
  assumes run: "commit_effect_body i v l c ts k = Inr (q, t)" and k: "at_time ts k"
  shows "at_time ts t \<and> (\<exists>r e. find_exec (l_execution_id l) k = Some r \<and> lease_matches r l \<and> x_state r = Running \<and>
    ts < l_expires_at l \<and> find_effect i k = Some e \<and> e_claim_id e = Some c \<and>
    (e_state e = Committed \<and> q = e \<and> t = k \<and> e_response e = canon v \<or>
     e_state e = Performing \<and> q = committed_form e v ts \<and> find_effect i t = Some q))"
proof -
  let ?P = "\<lambda>e x. e_effect_id x = i \<and> e_state x = Performing \<and> e_claim_id x = Some c \<and> e_revision x = e_revision e"
  obtain r e where r: "find_exec (l_execution_id l) k = Some r" "lease_matches r l" "x_state r = Running"
      and ex: "ts < l_expires_at l" and e: "find_effect i k = Some e" "effect_ok e"
      and m: "effect_matches_lease e l = Inr ()" and cm: "claim_matches e c = Inr ()"
      and go: "(if e_state e = Committed then
       bind (lift (encode_json v)) (\<lambda>encoded. if e_response e \<noteq> encoded then raise EffectConflictError else ret e)
     else
     bind (check (e_state e \<noteq> Indeterminate) EffectIndeterminateError) (\<lambda>_.
     bind (check (e_state e = Performing) EffectConflictError) (\<lambda>_.
     bind (authorize_managed_operation (l_execution_id l) ts ''effect commit'' True) (\<lambda>_.
     bind (lift (mk_effect (e\<lparr>e_state := Committed, e_claim_id := Some c,
             e_response := v, e_committed_at := Some ts, e_revision := e_revision e + 1\<rparr>))) (\<lambda>validated.
     bind (update_effect (?P e)
             (\<lambda>x. x\<lparr>e_state := Committed, e_response := canon (e_response validated),
                    e_committed_at := Some ts, e_revision := e_revision validated\<rparr>)) (\<lambda>_.
     bind (get_effect i) (\<lambda>committed.
     bind (effect_event committed ''committed'' (Some ''performing'') (py_dict [(''claim_id'', PStr c)]) ts) (\<lambda>_.
     ret committed)))))))) k = Inr (q, t)"
    using run unfolding commit_effect_body_def by (elim bindE) (auto simp: assert_lease_Inr get_effect_Inr)
  have ei: "e_effect_id e = i" using e find_effect_at[OF k] by auto
  have et: "effect_row_ok e ts" using at_time_effect[OF k] e find_effect_at[OF k] by auto
  have cl: "e_claim_id e = Some c" using cm by (simp add: claim_matches_Inr)
  show ?thesis
  proof (cases "e_state e = Committed")
    case True
    then show ?thesis using go k r ex e cl by (auto simp: bind_Inr encode_json_def split: if_splits)
  next
    case False
    let ?f = "\<lambda>x. x\<lparr>e_state := Committed, e_response := canon v, e_committed_at := Some ts, e_revision := e_revision e + 1\<rparr>"
    obtain u k1 u' k2 q' k3 w where st: "e_state e = Performing"
      and au: "authorize_managed_operation (l_execution_id l) ts ''effect commit'' True k = Inr (u, k1)"
      and up: "update_effect (?P e) ?f k1 = Inr (u', k2)" and g: "get_effect i k2 = Inr (q', k3)"
      and ev: "effect_event q' ''committed'' (Some ''performing'') (py_dict [(''claim_id'', PStr c)]) ts k3 = Inr (w, t)"
      and q: "q = q'"
      using go[unfolded if_not_P[OF False]] by (elim bindE) (auto simp: mk_effect_Inr)
    have k1: "k1 = k\<lparr>uuids := uuids k\<rparr>" using authorize_Inr[OF au] by simp
    note js = journal_step[OF up g[folded ei] ev k1 k e(1) _ _ r]
    have "at_time ts t" "q' = ?f e" "find_effect i t = Some (?f e)"
      by (rule js; use m et st cl ei in \<open>auto simp: effect_matches_Inr effect_row_ok_def effect_times_le_def\<close>)+
    then show ?thesis using r ex e st q cl by (auto simp: committed_form_def)
  qed
qed

lemma mark_effect_ok:
  assumes run: "mark_effect_indeterminate_body i v l c ts k = Inr (q, t)" and k: "at_time ts k"
  shows "at_time ts t \<and> (\<exists>r e. find_exec (l_execution_id l) k = Some r \<and> lease_matches r l \<and> x_state r = Running \<and>
    ts < l_expires_at l \<and> find_effect i k = Some e \<and> e_claim_id e = Some c \<and>
    (e_state e = Indeterminate \<and> q = e \<and> t = k \<and> e_response e = canon v \<or>
     e_state e = Performing \<and> q = uncertain_form e v ts \<and> find_effect i t = Some q))"
proof -
  let ?P = "\<lambda>e x. e_effect_id x = i \<and> e_state x = Performing \<and> e_claim_id x = Some c \<and> e_revision x = e_revision e"
  obtain r e where r: "find_exec (l_execution_id l) k = Some r" "lease_matches r l" "x_state r = Running"
      and ex: "ts < l_expires_at l" and e: "find_effect i k = Some e" "effect_ok e"
      and m: "effect_matches_lease e l = Inr ()" and cm: "claim_matches e c = Inr ()"
      and go: "(if e_state e = Indeterminate then
       bind (lift (encode_json v)) (\<lambda>encoded. if e_response e \<noteq> encoded then raise EffectConflictError else ret e)
     else
     bind (check (e_state e \<noteq> Committed) EffectConflictError) (\<lambda>_.
     bind (check (e_state e = Performing) EffectConflictError) (\<lambda>_.
     bind (authorize_managed_operation (l_execution_id l) ts ''effect uncertainty recording'' True) (\<lambda>_.
     bind (lift (mk_effect (e\<lparr>e_state := Indeterminate, e_claim_id := Some c,
             e_response := v, e_committed_at := None, e_indeterminate_at := Some ts,
             e_recovery_id := None, e_recovery_decision := None, e_resolved_at := None,
             e_revision := e_revision e + 1\<rparr>))) (\<lambda>validated.
     bind (update_effect (?P e)
             (\<lambda>x. x\<lparr>e_state := Indeterminate, e_response := canon (e_response validated),
                    e_indeterminate_at := Some ts, e_recovery_id := None,
                    e_recovery_decision := None, e_resolved_at := None,
                    e_revision := e_revision validated\<rparr>)) (\<lambda>_.
     bind (get_effect i) (\<lambda>uncertain.
     bind (effect_event uncertain ''marked_indeterminate'' (Some ''performing'')
             (py_dict [(''claim_id'', PStr c), (''details'', v)]) ts) (\<lambda>_.
     ret uncertain)))))))) k = Inr (q, t)"
    using run unfolding mark_effect_indeterminate_body_def by (elim bindE) (auto simp: assert_lease_Inr get_effect_Inr)
  have ei: "e_effect_id e = i" using e find_effect_at[OF k] by auto
  have et: "effect_row_ok e ts" using at_time_effect[OF k] e find_effect_at[OF k] by auto
  have cl: "e_claim_id e = Some c" using cm by (simp add: claim_matches_Inr)
  show ?thesis
  proof (cases "e_state e = Indeterminate")
    case True
    then show ?thesis using go k r ex e cl by (auto simp: bind_Inr encode_json_def split: if_splits)
  next
    case False
    let ?f = "\<lambda>x. x\<lparr>e_state := Indeterminate, e_response := canon v, e_indeterminate_at := Some ts,
      e_recovery_id := None, e_recovery_decision := None, e_resolved_at := None, e_revision := e_revision e + 1\<rparr>"
    obtain u k1 u' k2 q' k3 w where st: "e_state e = Performing"
      and au: "authorize_managed_operation (l_execution_id l) ts ''effect uncertainty recording'' True k = Inr (u, k1)"
      and up: "update_effect (?P e) ?f k1 = Inr (u', k2)" and g: "get_effect i k2 = Inr (q', k3)"
      and ev: "effect_event q' ''marked_indeterminate'' (Some ''performing'')
         (py_dict [(''claim_id'', PStr c), (''details'', v)]) ts k3 = Inr (w, t)" and q: "q = q'"
      using go[unfolded if_not_P[OF False]] by (elim bindE) (auto simp: mk_effect_Inr)
    have k1: "k1 = k\<lparr>uuids := uuids k\<rparr>" using authorize_Inr[OF au] by simp
    note js = journal_step[OF up g[folded ei] ev k1 k e(1) _ _ r]
    have "at_time ts t" "q' = ?f e" "find_effect i t = Some (?f e)"
      by (rule js; use m et st cl ei in \<open>auto simp: effect_matches_Inr effect_row_ok_def effect_times_le_def\<close>)+
    then show ?thesis using r ex e st q cl by (auto simp: uncertain_form_def)
  qed
qed

subsection \<open>Preparing\<close>

lemma effects_ok_insert:
  assumes k: "effects_ok k" and t: "effects t = effects k @ [e]" "execs t = execs k" "watermark t = watermark k"
    and new: "e_effect_id e \<notin> e_effect_id ` set (effects k)"
    and ok: "effect_row_ok e (watermark k)" and r: "r \<in> set (execs k)" "owns r e"
  shows "effects_ok t"
proof -
  have "\<forall>q \<in> set (effects t). effect_row_ok q (watermark t) \<and> (\<exists>r \<in> set (execs t). owns r q)"
    using k ok r unfolding effects_ok_alt t by auto
  moreover have "\<forall>q \<in> set (execs t). x_state q = Recovery_Required \<longrightarrow> (\<exists>e \<in> set (effects t). parked_for q e)"
    using k unfolding effects_ok_alt t by auto
  moreover have "effect_table.unique t" using k new unfolding effects_ok_alt by (auto simp: effect_table.unique_def t)
  ultimately show ?thesis unfolding effects_ok_alt by blast
qed

definition canonical_request :: "effect_record \<Rightarrow> effect_record" where
  "canonical_request e = e\<lparr>e_request := canon (e_request e)\<rparr>"

lemma effect_ok_canonical: "effect_ok (canonical_request e) = effect_ok e"
  by (simp add: canonical_request_def effect_ok_def effect_fields_ok_def effect_state_ok_def effect_recovery_ok_def)

lemma prepare_new_ok:
  assumes run: "prepare_new l c ts k = Inr (q, t)" and k: "at_time ts k"
    and c: "c = candidate_effect l i n v ts" "effect_ok c"
    and r: "find_exec (l_execution_id l) k = Some r" "lease_matches r l" "x_state r = Running"
  shows "at_time ts t \<and> q = c \<and> find_effect i t = Some (canonical_request c)"
proof -
  obtain u k1 u' k2 w where au: "authorize_managed_operation (l_execution_id l) ts ''effect preparation'' False k = Inr (u, k1)"
      and ins: "insert_effect (canonical_request c) k1 = Inr (u', k2)"
      and ev: "effect_event c ''prepared'' None (py_dict (attempt_data l)) ts k2 = Inr (w, t)" and q: "q = c"
    using run by (auto simp: prepare_new_def canonical_request_def bind_Inr)
  have k1: "k1 = k" using authorize_Inr[OF au] .
  obtain vs where t: "t = k\<lparr>effects := effects k @ [canonical_request c], effect_events := vs\<rparr>"
    and new: "e_effect_id (canonical_request c) \<notin> e_effect_id ` set (effects k)"
    using ins effect_event_Inr[OF ev] by (auto simp: insert_effect_Inr sql_find_None k1)
  note lr = leased_row[OF k r(1,2)]
  have k': "kernel_ok k" "effects_ok k" "watermark k = ts" using k by (auto simp: at_time_def kernel_ok_def)
  have row: "effect_row_ok (canonical_request c) (watermark k)"
    using c lr k'(3) effect_ok_canonical[of c]
    by (auto simp: effect_row_ok_def candidate_effect_def canonical_request_def effect_times_le_def)
  have own: "owns r (canonical_request c)"
    using c(1) lr r(3) by (auto simp: owns_def candidate_effect_def canonical_request_def)
  have e: "effects_ok t"
    by (rule effects_ok_insert[OF k'(2) _ _ _ new row lr(1) own]) (simp_all add: t)
  then have "kernel_ok t"
    using k'(1) by (simp add: kernel_ok_def execs_ok_def log_ok_def outbox_ok_def delivered_ok_def
      controls_ok_def exec_table.unique_def outbox_table.unique_def control_table.unique_def managed_table.unique_def t)
  then have at: "at_time ts t" using k'(3) by (simp add: at_time_def t)
  have "find_effect i t = Some (canonical_request c)"
    using find_effect_at[OF at] c(1) by (simp add: t canonical_request_def candidate_effect_def)
  then show ?thesis using at q by simp
qed

definition reprepared_form :: "effect_record \<Rightarrow> lease \<Rightarrow> rat \<Rightarrow> effect_record" where
  "reprepared_form e l ts =
     e\<lparr>e_state := Prepared, e_response := PNone, e_lease_id := l_lease_id l, e_claim_id := None,
       e_attempt := l_attempt l, e_fence := l_fence l, e_prepared_at := ts, e_committed_at := None,
       e_indeterminate_at := None, e_recovery_id := None, e_recovery_decision := None,
       e_resolved_at := None, e_revision := e_revision e + 1\<rparr>"

lemma reprepare_ok:
  assumes run: "reprepare l e ts k = Inr (q, t)" and k: "at_time ts k"
    and e: "find_effect i k = Some e" "e_state e = Not_Applied" "e_execution_id e = l_execution_id l"
    and r: "find_exec (l_execution_id l) k = Some r" "lease_matches r l" "x_state r = Running"
  shows "at_time ts t \<and> q = reprepared_form e l ts \<and> find_effect i t = Some q"
proof -
  let ?P = "\<lambda>x. e_effect_id x = e_effect_id e \<and> e_state x = Not_Applied \<and> e_revision x = e_revision e"
  let ?f = "\<lambda>x. x\<lparr>e_state := Prepared, e_response := PNone, e_lease_id := l_lease_id l,
                    e_claim_id := None, e_attempt := l_attempt l, e_fence := l_fence l,
                    e_prepared_at := ts, e_committed_at := None,
                    e_indeterminate_at := None, e_recovery_id := None,
                    e_recovery_decision := None, e_resolved_at := None,
                    e_revision := e_revision e + 1\<rparr>"
  obtain u k1 u' k2 k3 w d where au: "authorize_managed_operation (l_execution_id l) ts ''effect preparation'' False k = Inr (u, k1)"
      and up: "update_effect ?P ?f k1 = Inr (u', k2)" and g: "get_effect (e_effect_id e) k2 = Inr (q, k3)"
      and ev: "effect_event q ''reprepared_after_not_applied'' (Some ''not_applied'') d ts k3 = Inr (w, t)"
    using run unfolding reprepare_def by (elim bindE) auto
  have k1: "k1 = k" using authorize_Inr[OF au] .
  have ek: "e \<in> set (effects k)" "e_effect_id e = i" using e(1) find_effect_at[OF k] by auto
  have P: "?P e" using e(2) by simp
  have id: "\<And>q. e_effect_id (?f q) = e_effect_id q" by simp
  note ch = update_effect_changed[OF up[unfolded k1] g ev at_time_effects_unique[OF k] ek(1) P id]
  note lr = leased_row[OF k r(1,2)]
  have et: "effect_row_ok e ts" by (rule at_time_effect[OF k ek(1)])
  have ok: "effect_row_ok (?f e) ts"
    using et ch(3) lr by (auto simp: effect_row_ok_def effect_times_le_def)
  have own: "owns r (?f e)" using lr e(3) r(3) by (auto simp: owns_def)
  have t: "at_time ts t"
    by (rule changed_at_time[OF ch(1) k ok lr(1) own r(3)]) (simp only: e(3) lr(2))
  have "?f e \<in> set (effects t)" using changed_frame(11)[OF ch(1)] by blast
  then show ?thesis using t ch(2) find_effect_at[OF t] ek(2) by (simp add: reprepared_form_def)
qed

lemma prepare_effect_sound: "sound ts (prepare_effect_body l i n v ts)"
proof (rule soundI)
  fix k q t
  assume k: "at_time ts k" and run: "prepare_effect_body l i n v ts k = Inr (q, t)"
  obtain r c where r: "find_exec (l_execution_id l) k = Some r" "lease_matches r l" "x_state r = Running"
      and c: "c = candidate_effect l i n v ts" "effect_ok c"
      and go: "(case find_effect i k of
       None \<Rightarrow> bind (prepare_new l c ts) (\<lambda>e. ret (Some e))
     | Some row \<Rightarrow>
         bind (lift (mk_effect row)) (\<lambda>existing.
         if e_execution_id existing \<noteq> l_execution_id l \<or> e_name existing \<noteq> e_name c \<or>
           e_request existing \<noteq> canon (e_request c) then raise EffectConflictError
         else if e_state existing = Committed then ret (Some existing)
         else if e_state existing = Not_Applied then
           bind (reprepare l existing ts) (\<lambda>e. ret (Some e))
         else if e_lease_id existing = l_lease_id l \<and> e_attempt existing = l_attempt l \<and>
           e_fence existing = l_fence l \<and> e_state existing \<in> {Prepared, Performing}
         then ret (Some existing)
         else if unfinished (e_state existing) \<and> e_fence existing < l_fence l then
           bind (park_unfinished_effects r ts ''newer_fence_observed'' None) (\<lambda>_. ret None)
         else if e_state existing = Indeterminate then
           bind (park_unfinished_effects r ts ''indeterminate_reuse'' None) (\<lambda>_. ret None)
         else raise StaleFenceError)) k = Inr (q, t)"
    using run unfolding prepare_effect_body_def
    by (elim bindE) (auto simp: assert_lease_Inr mk_effect_Inr)
  note lr = leased_row[OF k r(1,2)]
  note park = park_sound(1)[OF _ k lr(1)]
  show "at_time ts t"
  proof (cases "find_effect i k")
    case None
    then show ?thesis using go prepare_new_ok[OF _ k c r] by (auto simp: bind_Inr)
  next
    case (Some e)
    then show ?thesis
      using go k reprepare_ok[OF _ k Some _ _ r] park
      by (auto simp: bind_Inr mk_effect_Inr split: if_splits)
  qed
qed

subsection \<open>The recovery decision\<close>

lemma make_terminal_but:
  assumes run: "make_terminal cfg r q ty ts k = Inr (s, t)"
    and k: "at_time_but r ts k" and r: "r \<in> set (execs k)" and q: "result_for r q ts" and cfg: "config_ok cfg"
    and un: "no_unfinished r k"
  shows "at_time ts t \<and> find_exec (x_id r) t = Some (ended_row r q ts) \<and> snapshot (ended_row r q ts) = Inr s"
proof -
  obtain p k1 where p: "park_unfinished_effects r ts (''before_terminal:'' @ ty) None k = Inr (p, k1)"
      and go: "(case p of Some s \<Rightarrow> ret s | None \<Rightarrow> write_terminal cfg r q ty ts) k1 = Inr (s, t)"
    using run unfolding make_terminal_def by (elim bindE) (rule that)
  have "write_terminal cfg r q ty ts k = Inr (s, t)" using go park_nothing[OF p un] by simp
  from write_terminal_ok[OF this k r q un cfg] show ?thesis by blast
qed

text \<open>The decided effect: its execution is parked for nothing until it is settled.\<close>

lemma decided_but:
  assumes c: "changed e e' k t" and k: "at_time ts k" and ok: "effect_row_ok e' ts"
    and r: "r \<in> set (execs k)" and own: "owns r e'" and p: "parked_for r e"
  shows "at_time_but r ts t"
proof -
  have k': "kernel_ok k" "watermark k = ts" "effects_ok k" using k by (auto simp: at_time_def kernel_ok_def)
  note f = changed_frame[OF c]
  have u: "effect_table.unique t" using k'(3) f(12) by (simp add: effects_ok_def effect_table.unique_def)
  have ek: "e \<in> set (effects k)" using c by (simp add: changed_def)
  have "\<exists>q \<in> set (effects t). parked_for x q"
    if x: "x \<in> set (execs t)" "x \<noteq> r" "x_state x = Recovery_Required" for x
  proof -
    have xk: "x \<in> set (execs k)" using x(1) unfolding f(1) .
    obtain q where q: "q \<in> set (effects k)" "parked_for x q" using k'(3) xk x(3) unfolding effects_ok_def by blast
    have "x_id x \<noteq> x_id r" using exec_table.key_inj[OF at_time_unique[OF k] xk r] x(2) by blast
    then have "q \<noteq> e" using q(2) p by (auto simp: parked_for_def)
    then have "e_effect_id q \<noteq> e_effect_id e"
      using effect_table.key_inj[OF at_time_effects_unique[OF k] q(1) ek] by blast
    then show ?thesis using q unfolding f(11) by blast
  qed
  moreover have "effect_row_ok q (watermark t) \<and> (\<exists>x \<in> set (execs t). owns x q)" if "q \<in> set (effects t)" for q
    using that ok k'(2,3) r own unfolding effects_ok_alt f(1,3,11) by blast
  ultimately have "effects_but r t" using u unfolding effects_but_def effect_row_ok_def by blast
  moreover have "execs_ok t" "log_ok t" "outbox_ok t" "delivered_ok t" "controls_ok t" "0 \<le> watermark t" "is_float (watermark t)"
    using k'(1) unfolding kernel_ok_def execs_ok_def log_ok_def outbox_ok_def delivered_ok_def
      controls_ok_def exec_table.unique_def outbox_table.unique_def control_table.unique_def
      managed_table.unique_def f(1-10) by simp_all
  ultimately show ?thesis using f(3) k'(2) by (simp add: at_time_but_def kernel_but_def)
qed

lemma at_time_but_uuids: "at_time_but r ts k \<Longrightarrow> at_time_but r ts (k\<lparr>uuids := n\<rparr>)"
  by (auto simp: at_time_but_def kernel_but_def execs_ok_def log_ok_def effects_but_def outbox_ok_def
      delivered_ok_def controls_ok_def exec_table.unique_def effect_table.unique_def outbox_table.unique_def
      control_table.unique_def managed_table.unique_def)

lemma cancelled_result_but:
  assumes "cancelled_result cfg r (x_command r) ts reason ids k = Inr (q, t)" and "at_time_but r ts k"
    and "r \<in> set (execs k)"
  shows "result_for r q ts \<and> t = k\<lparr>uuids := uuids k + 1\<rparr> \<and> r_status q = Cancelled"
proof -
  have "started_or r ts \<le> ts"
    using at_time_but_row[OF assms(2,3)] by (cases "x_started r") (auto simp: started_or_def row_ok_def row_started_ok_def)
  then show ?thesis
    using assms(1)
    by (auto simp: cancelled_result_def bind_Inr uuid4_Inr mk_result_typed_def result_for_def split: if_splits)
qed

lemma finish_cancelled_ok:
  assumes run: "finish_cancelled cfg r ts k = Inr (u, t)" and k: "at_time_but r ts k" and r: "r \<in> set (execs k)"
    and un: "no_unfinished r k" and cfg: "config_ok cfg"
  shows "at_time ts t \<and> (\<exists>x. find_exec (x_id r) t = Some x \<and> x_state x = Cancelled)"
proof -
  obtain reason ids k1 q k2 s where e: "execution_effect_ids (x_id r) k = Inr (ids, k1)"
      and c: "cancelled_result cfg r (x_command r) ts reason ids k1 = Inr (q, k2)"
      and m: "make_terminal cfg r q ''cancelled_after_effect_recovery'' ts k2 = Inr (s, t)"
    using run unfolding finish_cancelled_def by (elim bindE) auto
  have q: "result_for r q ts" and k2: "k2 = k\<lparr>uuids := uuids k + 1\<rparr>" and st: "r_status q = Cancelled"
    using cancelled_result_but[OF c[unfolded execution_effect_ids_Inr[OF e]] k r] by auto
  have "at_time ts t \<and> find_exec (x_id r) t = Some (ended_row r q ts)"
    using make_terminal_but[OF m[unfolded k2] at_time_but_uuids[OF k] _ q cfg] r un
    by (simp add: no_unfinished_def)
  then show ?thesis using st by (auto simp: ended_row_def)
qed

lemma resume_queued_ok:
  assumes run: "resume_queued r i d rid ts k = Inr (u, t)" and k: "at_time_but r ts k" and r: "r \<in> set (execs k)"
    and un: "no_unfinished r k" and st: "x_state r = Recovery_Required" "x_rec_effect r = Some i"
  shows "at_time ts t \<and> find_exec (x_id r) t = Some (requeued_row r (x_redeliveries r) ts ts)"
proof -
  let ?P = "\<lambda>x. x_id x = x_id r \<and> x_state x = Recovery_Required \<and> x_rec_effect x = Some i \<and> x_revision x = x_revision r"
  let ?f = "\<lambda>x. x\<lparr>x_state := Queued, x_next_at := ts, x_lease_id := None,
                    x_lease_owner := None, x_lease_expires := None, x_started := None,
                    x_rec_effect := None, x_rec_target := None, x_rec_reason := None,
                    x_revision := x_revision r + 1, x_updated := ts\<rparr>"
  obtain u1 k1 v dt where up: "update_exec ?P ?f k = Inr (u1, k1)"
      and ev: "append_event (x_id r) (x_revision r + 1) ''effect_recovery_resolved''
             (Some Recovery_Required) Queued dt ts k1 = Inr (v, t)"
    using run unfolding resume_queued_def Let_def by (elim bindE) auto
  have ok: "execs_ok k" "log_ok k" "watermark k = ts" "0 \<le> ts" using k by (auto simp: at_time_but_def kernel_but_def)
  have form: "requeued_row r (x_redeliveries r) ts ts = ?f r" by (cases r) (simp add: requeued_row_def)
  have m: "moved r (?f r) k t"
    by (rule update_event_moved[OF up ev[folded st(1)] ok(1,2) r]) (use ok(3) st in \<open>auto simp: step_allowed_def\<close>)
  have rk: "row_ok r" using at_time_but_row[OF k r] by simp
  have "at_time ts t"
    by (rule requeue_at_time[OF m[folded form] k un]) (use rk st ok(4) in \<open>auto simp: row_ok_def row_identity_ok_def\<close>)
  then show ?thesis using moved_find[OF m ok(1)] form by simp
qed

lemma point_to_next_ok:
  assumes run: "point_to_next r i e ts k = Inr (u, t)" and k: "at_time_but r ts k" and r: "r \<in> set (execs k)"
    and e: "e \<in> set (effects k)" "e_execution_id e = x_id r" "e_state e = Indeterminate"
    and st: "x_state r = Recovery_Required" "x_rec_effect r = Some i"
  shows "at_time ts t \<and> find_exec (x_id r) t =
    Some (r\<lparr>x_rec_effect := Some (e_effect_id e), x_revision := x_revision r + 1, x_updated := ts\<rparr>)"
proof -
  let ?P = "\<lambda>x. x_id x = x_id r \<and> x_state x = Recovery_Required \<and> x_rec_effect x = Some i \<and> x_revision x = x_revision r"
  let ?f = "\<lambda>x. x\<lparr>x_rec_effect := Some (e_effect_id e), x_revision := x_revision r + 1, x_updated := ts\<rparr>"
  obtain u1 k1 v dt where up: "update_exec ?P ?f k = Inr (u1, k1)"
      and ev: "append_event (x_id r) (x_revision r + 1) ''effect_recovery_next_required''
             (Some Recovery_Required) Recovery_Required dt ts k1 = Inr (v, t)"
    using run unfolding point_to_next_def Let_def by (elim bindE) auto
  have ok: "execs_ok k" "log_ok k" "watermark k = ts" "kernel_but r k" "effects_but r k"
    using k by (auto simp: at_time_but_def kernel_but_def)
  have m: "moved r (?f r) k t"
    by (rule update_event_moved[OF up ev[folded st(1)] ok(1,2) r]) (use ok(3) st in \<open>auto simp: step_allowed_def\<close>)
  have rk: "row_ok r" "x_updated r \<le> ts" using at_time_but_row[OF k r] by auto
  have "optional_ok (\<lambda>s. 0 \<le> s \<and> s \<le> ts) (x_started r)"
    using rk by (cases "x_started r") (auto simp: row_ok_def row_started_ok_def)
  moreover have "nonblank (e_effect_id e)" using ok(5) e(1) by (auto simp: effects_but_def effect_ok_def effect_fields_ok_def)
  ultimately have row: "row_ok (?f r)"
    using rk st by (auto simp: row_ok_def row_identity_ok_def row_lease_ok_def row_result_ok_def row_recovery_ok_def
        row_started_ok_def)
  have "kernel_ok t"
  proof (rule moved_kernel_ok[OF m ok(4) row])
    show "\<exists>q \<in> set (effects k). parked_for (?f r) q"
      using e by (intro bexI[of _ e]) (simp_all add: parked_for_def)
  qed (use ok(3) st in \<open>auto simp: owns_def\<close>)
  then have "at_time ts t" using moved_frame(4)[OF m] ok(3) by (simp add: at_time_def)
  then show ?thesis using moved_find[OF m ok(1)] by simp
qed

lemma record_decision_ok:
  assumes run: "record_decision e d v rid ts k = Inr (q, t)" and k: "at_time ts k" and e: "e \<in> set (effects k)"
    and r: "r \<in> set (execs k)" and p: "parked_for r e"
  shows "changed e q k t \<and> effect_row_ok q ts \<and> owns r q \<and> \<not> unfinished (e_state q) \<and>
    q = (decided_effect e d v rid ts)\<lparr>e_response := canon v\<rparr>"
proof -
  let ?v = "decided_effect e d v rid ts"
  let ?P = "\<lambda>x. e_effect_id x = e_effect_id e \<and> e_revision x = e_revision e \<and> e_state x = Indeterminate"
  let ?f = "\<lambda>x. x\<lparr>e_state := e_state ?v, e_response := canon (e_response ?v),
                    e_claim_id := e_claim_id ?v, e_committed_at := e_committed_at ?v,
                    e_recovery_id := Some rid, e_recovery_decision := Some d,
                    e_resolved_at := Some ts, e_revision := e_revision ?v\<rparr>"
  obtain u k1 k2 w dt where up: "update_effect ?P ?f k = Inr (u, k1)"
      and g: "get_effect (e_effect_id e) k1 = Inr (q, k2)"
      and ev: "effect_event q (''recovery_'' @ decision_name d) (Some ''indeterminate'') dt ts k2 = Inr (w, t)"
    using run unfolding record_decision_def by (elim bindE) (auto simp: mk_effect_Inr)
  have P: "?P e" using p by (simp add: parked_for_def)
  have id: "\<And>q. e_effect_id (?f q) = e_effect_id q" by simp
  note ch = update_effect_changed[OF up g ev at_time_effects_unique[OF k] e P id]
  have et: "effect_row_ok e ts" by (rule at_time_effect[OF k e])
  have form: "?f e = ?v\<lparr>e_response := canon v\<rparr>" by (cases e) (simp add: decided_effect_def)
  have row: "effect_row_ok (?f e) ts"
    using et ch(3) by (auto simp: effect_row_ok_def effect_times_le_def decided_effect_def)
  have "owns r e" by (rule owner_of[OF _ e r]) (use k p in \<open>auto simp: at_time_def parked_for_def\<close>)
  then have "owns r (?f e)" by (auto simp: owns_def decided_effect_def split: if_splits)
  moreover have "\<not> unfinished (e_state (?f e))" by (cases d) (simp_all add: decided_effect_def)
  ultimately show ?thesis using ch(1,2) row form by simp
qed

lemma settle_execution_ok:
  assumes run: "settle_execution cfg r i d rid ts k = Inr (u, t)" and k: "at_time_but r ts k" and r: "r \<in> set (execs k)"
    and st: "x_state r = Recovery_Required" "x_rec_effect r = Some i" and cfg: "config_ok cfg"
  shows "at_time ts t \<and> (\<exists>x. find_exec (x_id r) t = Some x \<and>
    (if no_unfinished r k then x_state x = (if x_rec_target r = Some ''cancelled'' then Cancelled else Queued)
     else x_state x = Recovery_Required \<and> x_rec_target x = x_rec_target r))"
proof -
  let ?rest = "sql_select (\<lambda>e. e_execution_id e = x_id r \<and> e_state e = Indeterminate) e_effect_id (effects k)"
  have run': "(case ?rest of
       e # _ \<Rightarrow> point_to_next r i e ts
     | [] \<Rightarrow> if x_rec_target r = Some ''cancelled'' then finish_cancelled cfg r ts
             else resume_queued r i d rid ts) k = Inr (u, t)"
    using run by (auto simp: settle_execution_def bind_Inr)
  show ?thesis
  proof (cases ?rest)
    case (Cons e es)
    then have "e \<in> set ?rest" by simp
    then have e: "e \<in> set (effects k)" "e_execution_id e = x_id r" "e_state e = Indeterminate" by auto
    then have "\<not> no_unfinished r k" by (auto simp: no_unfinished_def unfinished_def)
    then show ?thesis using point_to_next_ok[OF _ k r e st] run' Cons st by simp
  next
    case Nil
    have none: "e_state e \<noteq> Indeterminate" if "e \<in> set (effects k)" "e_execution_id e = x_id r" for e
    proof
      assume "e_state e = Indeterminate"
      then have "e \<in> set ?rest" using that by simp
      then show False using Nil by simp
    qed
    have un: "no_unfinished r k"
      unfolding no_unfinished_def
    proof (intro ballI impI)
      fix e assume e: "e \<in> set (effects k)" "e_execution_id e = x_id r"
      obtain q where q: "q \<in> set (execs k)" "owns q e"
        using k e(1) unfolding at_time_but_def kernel_but_def effects_but_def by blast
      have "exec_table.unique k" using k by (simp add: at_time_but_def kernel_but_def execs_ok_def)
      then have "q = r" using exec_table.key_inj q(1) r q(2) e(2) by (metis owns_def)
      then show "\<not> unfinished (e_state e)" using q(2) st(1) none[OF e] by (auto simp: owns_def)
    qed
    show ?thesis
      using run' Nil un finish_cancelled_ok[OF _ k r un cfg] resume_queued_ok[OF _ k r un st]
      by (auto simp: requeued_row_def split: if_splits)
  qed
qed

lemma resolve_guard_None: "resolve_guard e d v n rid = Inr None \<longleftrightarrow>
    e_recovery_id e = None \<and> e_revision e = n \<and> e_state e = Indeterminate \<and> e_recovery_id e \<noteq> Some rid"
  by (auto simp: resolve_guard_def rbind_eq_Inr split: if_splits)

text \<open>
  A resolution answers a replay, or records the decision and settles the execution: it waits
  for the next effect, or, when none is left, it ends cancelled or returns to the queue.
\<close>

lemma resolve_effect_ok:
  assumes run: "resolve_effect_body cfg i d v n rid ts k = Inr (q, t)" and k: "at_time ts k" and cfg: "config_ok cfg"
  obtains (replay) e where "find_effect i k = Some e" "resolve_guard e d v n rid = Inr (Some q)" "t = k"
    | (decided) e r k1 x where "find_effect i k = Some e" "parked_for r e" "find_exec (e_execution_id e) k = Some r"
      "e_revision e = n" "e_recovery_id e = None" "x_state r = Recovery_Required" "x_rec_effect r = Some i"
      "q = (decided_effect e d v rid ts)\<lparr>e_response := canon v\<rparr>" "changed e q k k1" "at_time ts t"
      "find_exec (x_id r) t = Some x"
      "if no_unfinished r k1 then x_state x = (if x_rec_target r = Some ''cancelled'' then Cancelled else Queued)
       else x_state x = Recovery_Required \<and> x_rec_target x = x_rec_target r"
proof -
  obtain e a where e: "find_effect i k = Some e" and g: "resolve_guard e d v n rid = Inr a"
      and go: "(case a of Some e \<Rightarrow> ret e
     | None \<Rightarrow>
         bind (get_row (e_execution_id e)) (\<lambda>execution.
         bind (check (x_state execution = Recovery_Required \<and> x_rec_effect execution = Some i)
                 EffectConflictError) (\<lambda>_.
         bind (record_decision e d v rid ts) (\<lambda>resolved.
         bind (settle_execution cfg execution i d rid ts) (\<lambda>_.
         ret resolved))))) k = Inr (q, t)"
    using run unfolding resolve_effect_body_def by (elim bindE) (auto simp: get_effect_Inr)
  show ?thesis
  proof (cases a)
    case (Some e')
    then show ?thesis using go g replay[OF e] by simp
  next
    case None
    obtain r k1 u where f: "find_exec (e_execution_id e) k = Some r"
        and st: "x_state r = Recovery_Required" "x_rec_effect r = Some i"
        and d: "record_decision e d v rid ts k = Inr (q, k1)"
        and s: "settle_execution cfg r i d rid ts k1 = Inr (u, t)"
      using go None by (auto simp: bind_Inr get_row_Inr)
    have r: "r \<in> set (execs k)" "x_id r = e_execution_id e" using f at_time_find[OF k] by auto
    have ek: "e \<in> set (effects k)" "e_effect_id e = i" using e find_effect_at[OF k] by auto
    have gd: "e_state e = Indeterminate" "e_revision e = n" "e_recovery_id e = None"
      using g None by (auto simp: resolve_guard_None)
    have p: "parked_for r e" using gd st r ek by (auto simp: parked_for_def)
    note dec = record_decision_ok[OF d k ek(1) r(1) p]
    have "at_time_but r ts k1" using decided_but[OF _ k _ r(1) _ p] dec by blast
    moreover have "r \<in> set (execs k1)" using changed_frame(1)[OF conjunct1[OF dec]] r(1) by simp
    ultimately have "at_time ts t \<and> (\<exists>x. find_exec (x_id r) t = Some x \<and>
      (if no_unfinished r k1 then x_state x = (if x_rec_target r = Some ''cancelled'' then Cancelled else Queued)
       else x_state x = Recovery_Required \<and> x_rec_target x = x_rec_target r))"
      by (rule settle_execution_ok[OF s _ _ st cfg])
    then show ?thesis using decided[OF e p f gd(2,3) st] dec by blast
  qed
qed

lemma resolve_effect_sound:
  assumes cfg: "config_ok cfg"
  shows "sound ts (resolve_effect_body cfg i d v n rid ts)"
  by (rule soundI, erule (1) resolve_effect_ok[OF _ _ cfg]) auto

end
