(* ===== verification/Delivery.thy ===== *)
theory Delivery
  imports Working
begin

text \<open>
  Soundness of the result outbox: every operation changes one delivery at a time, keeps the
  result and its execution, and keeps the attempts within their bound.
\<close>

lemma at_time_outbox_unique: "at_time ts k \<Longrightarrow> outbox_table.unique k"
  by (simp add: at_time_def kernel_ok_def outbox_ok_def)

lemma find_outbox_at: "at_time ts k \<Longrightarrow> find_outbox i k = Some o' \<longleftrightarrow> o' \<in> set (outbox k) \<and> o_result_id o' = i"
  using at_time_outbox_unique by (simp add: outbox_table.find_row_iff)

lemma at_time_outbox: "at_time ts k \<Longrightarrow> o' \<in> set (outbox k) \<Longrightarrow> outbox_row_ok o' ts"
  by (auto simp: at_time_def kernel_ok_def outbox_ok_def)

definition same_delivery :: "outbox_row \<Rightarrow> outbox_row \<Rightarrow> bool" where
  "same_delivery p q \<longleftrightarrow> o_result_id q = o_result_id p \<and> o_execution_id q = o_execution_id p \<and> o_result q = o_result p"

text \<open>The store with one delivery replaced.\<close>

definition redelivered :: "outbox_row \<Rightarrow> outbox_row \<Rightarrow> kernel \<Rightarrow> kernel \<Rightarrow> bool" where
  "redelivered p q k t \<longleftrightarrow> (\<exists>os. t = k\<lparr>outbox := os\<rparr> \<and>
      set os = insert q {x \<in> set (outbox k). o_result_id x \<noteq> o_result_id p} \<and>
      List.map o_result_id os = List.map o_result_id (outbox k) \<and>
      List.map o_execution_id os = List.map o_execution_id (outbox k)) \<and> same_delivery p q"

lemma redelivered_at_time:
  assumes c: "redelivered p q k t" and k: "at_time ts k" and p: "p \<in> set (outbox k)" and q: "outbox_row_ok q ts"
  shows "at_time ts t"
proof -
  obtain os where t: "t = k\<lparr>outbox := os\<rparr>" and os: "set os = insert q {x \<in> set (outbox k). o_result_id x \<noteq> o_result_id p}"
      "List.map o_result_id os = List.map o_result_id (outbox k)"
      "List.map o_execution_id os = List.map o_execution_id (outbox k)" and s: "same_delivery p q"
    using c unfolding redelivered_def by blast
  have k': "kernel_ok k" "watermark k = ts" "outbox_ok k" "delivered_ok k" using k by (auto simp: at_time_def kernel_ok_def)
  have "outbox_row_ok x ts \<and> (\<exists>r \<in> set (execs k). x_id r = o_execution_id x \<and> x_result r = Some (o_result x))"
    if "x \<in> set os" for x
    using that k'(2,3) p q s unfolding os(1) outbox_ok_def same_delivery_def by auto
  then have "outbox_ok t" using k'(2,3) os by (simp add: outbox_ok_def outbox_table.unique_def t)
  moreover have "o_execution_id ` set os = o_execution_id ` set (outbox k)" using os(3) by (metis set_map)
  then have "delivered_ok t" using k'(4) by (simp add: delivered_ok_def t)
  moreover have "execs_ok t" "log_ok t" "effects_ok t" "controls_ok t" "0 \<le> watermark t" "is_float (watermark t)"
    using k'(1) by (simp_all add: kernel_ok_def execs_ok_def log_ok_def effects_ok_def controls_ok_def
      exec_table.unique_def effect_table.unique_def control_table.unique_def managed_table.unique_def t)
  ultimately show ?thesis using k'(2) by (simp add: at_time_def kernel_ok_def t)
qed

lemma update_outbox_redelivered:
  assumes up: "update_outbox P f k = Inr (u, t)" and k: "at_time ts k" and p: "p \<in> set (outbox k)" "P p"
    and f: "\<And>x. same_delivery x (f x)"
  shows "redelivered p (f p) k t"
proof -
  let ?os = "List.map (\<lambda>r. if P r then f r else r) (outbox k)"
  have t: "t = k\<lparr>outbox := ?os\<rparr>" using up by (simp add: update_outbox_Inr)
  have "set ?os = insert (f p) {x \<in> set (outbox k). o_result_id x \<noteq> o_result_id p}"
    using outbox_table.update_hits[OF at_time_outbox_unique[OF k] up p] by (simp add: t)
  moreover have "List.map o_result_id ?os = List.map o_result_id (outbox k)"
    "List.map o_execution_id ?os = List.map o_execution_id (outbox k)"
    using f by (simp_all add: same_delivery_def)
  ultimately show ?thesis using t f unfolding redelivered_def by blast
qed

text \<open>One delivery of the store changes, and the store stays sound.\<close>

lemma delivery_step:
  assumes up: "update_outbox P f k = Inr (u, t)" and k: "at_time ts k" and p: "p \<in> set (outbox k)" "P p"
    and f: "\<And>x. same_delivery x (f x)" and ok: "outbox_row_ok p ts \<Longrightarrow> outbox_row_ok (f p) ts"
  shows "at_time ts t" and "find_outbox (o_result_id p) t = Some (f p)"
    and "x \<in> set (outbox k) \<Longrightarrow> o_result_id x \<noteq> o_result_id p \<Longrightarrow> x \<in> set (outbox t)"
proof -
  have r: "redelivered p (f p) k t" by (rule update_outbox_redelivered[OF up k p f])
  show t: "at_time ts t" by (rule redelivered_at_time[OF r k p(1)]) (rule ok[OF at_time_outbox[OF k p(1)]])
  show "find_outbox (o_result_id p) t = Some (f p)"
    using find_outbox_at[OF t] r f[of p] by (auto simp: redelivered_def same_delivery_def)
  show "x \<in> set (outbox k) \<Longrightarrow> o_result_id x \<noteq> o_result_id p \<Longrightarrow> x \<in> set (outbox t)"
    using r by (auto simp: redelivered_def)
qed

lemma load_outbox_Inr: "load_outbox_row i k = Inr (o', t) \<longleftrightarrow> t = k \<and> find_outbox i k = Some o'"
  by (auto simp: load_outbox_row_def bind_Inr)

text \<open>A loop over deliveries, each of which changes its own row only.\<close>

lemma each_delivery_sound:
  assumes step: "\<And>p k a t. at_time ts k \<Longrightarrow> p \<in> set (outbox k) \<Longrightarrow> Q p \<Longrightarrow> g p k = Inr (a, t) \<Longrightarrow>
      at_time ts t \<and> (\<forall>x \<in> set (outbox k). o_result_id x \<noteq> o_result_id p \<longrightarrow> x \<in> set (outbox t))"
    and "each g ps k = Inr (as, t)" and "at_time ts k" and "distinct (List.map o_result_id ps)"
    and "set ps \<subseteq> {p \<in> set (outbox k). Q p}"
  shows "at_time ts t"
  using assms(2-)
proof (induction ps arbitrary: k as)
  case (Cons p ps)
  obtain a k1 bs where one: "g p k = Inr (a, k1)" and rest: "each g ps k1 = Inr (bs, t)"
    using Cons.prems(1) by (auto simp: bind_Inr)
  have s: "at_time ts k1" "\<forall>x \<in> set (outbox k). o_result_id x \<noteq> o_result_id p \<longrightarrow> x \<in> set (outbox k1)"
    using step[OF Cons.prems(2) _ _ one] Cons.prems(4) by auto
  have "o_result_id x \<noteq> o_result_id p" if "x \<in> set ps" for x
    using that Cons.prems(3) by (auto simp: image_iff)
  then have "set ps \<subseteq> {x \<in> set (outbox k1). Q x}" using s(2) Cons.prems(4) by auto
  then show ?case using Cons.IH[OF rest s(1)] Cons.prems(3) by simp
qed simp

lemma reap_outbox_row_ok:
  assumes "at_time ts k" and "p \<in> set (outbox k)" and "o_state p = Delivering" and "reap_outbox_row ts p k = Inr (i, t)"
  shows "at_time ts t \<and> (\<forall>x \<in> set (outbox k). o_result_id x \<noteq> o_result_id p \<longrightarrow> x \<in> set (outbox t))"
proof -
  let ?st = "if o_max_attempts p \<le> o_attempts p then Undeliverable else Pending"
  let ?f = "\<lambda>x. x\<lparr>o_state := ?st, o_lease_expires := None, o_next_at := ts,
      o_last_error := Some (expired_error (?st = Pending) (o_attempts p)), o_revision := o_revision p + 1, o_updated := ts\<rparr>"
  obtain u where up: "update_outbox (at_revision (o_result_id p) Delivering (o_revision p)) ?f k = Inr (u, t)"
    using assms(4) by (auto simp: reap_outbox_row_def bind_Inr Let_def)
  have err: "error_ok (expired_error b n)" for b n
    by (simp add: error_ok_def expired_error_def py_dict_def is_object_def nonblank_def is_space_def)
  have P: "at_revision (o_result_id p) Delivering (o_revision p) p" using assms(3) by (simp add: at_revision_def)
  have f: "\<And>x. same_delivery x (?f x)" by (simp add: same_delivery_def)
  have ok: "outbox_row_ok p ts \<Longrightarrow> outbox_row_ok (?f p) ts" using err by (auto simp: outbox_row_ok_def)
  show ?thesis
    using delivery_step(1)[OF up assms(1,2) P f ok] delivery_step(3)[OF up assms(1,2) P f ok] by blast
qed

lemma reap_outbox_in_transaction_sound: "sound ts (reap_outbox_in_transaction ts)"
proof (rule soundI)
  fix k "is" t
  assume k: "at_time ts k" and run: "reap_outbox_in_transaction ts k = Inr (is, t)"
  have e: "each (reap_outbox_row ts) (sql_select (delivery_expired ts) outbox_order (outbox k)) k = Inr (is, t)"
    using run by (simp add: reap_outbox_in_transaction_def bind_Inr)
  show "at_time ts t"
  proof (rule each_delivery_sound[OF _ e k, of "\<lambda>p. o_state p = Delivering"])
    fix p k a t
    assume "at_time ts k" "p \<in> set (outbox k)" "o_state p = Delivering" "reap_outbox_row ts p k = Inr (a, t)"
    then show "at_time ts t \<and> (\<forall>x \<in> set (outbox k). o_result_id x \<noteq> o_result_id p \<longrightarrow> x \<in> set (outbox t))"
      by (rule reap_outbox_row_ok)
  next
    show "distinct (List.map o_result_id (sql_select (delivery_expired ts) outbox_order (outbox k)))"
      by (rule sql_select_distinct) (use at_time_outbox_unique[OF k] in \<open>simp add: outbox_table.unique_def\<close>)
  qed (auto simp: delivery_expired_def)
qed

text \<open>The operations that claim, settle, extend or reopen a delivery.\<close>

lemma exhaust_outbox_row_ok:
  assumes "at_time ts k" and "p \<in> set (outbox k)" and "o_state p = Pending" and "exhaust_outbox_row ts p k = Inr (i, t)"
  shows "at_time ts t \<and> (\<forall>x \<in> set (outbox k). o_result_id x \<noteq> o_result_id p \<longrightarrow> x \<in> set (outbox t))"
proof -
  let ?f = "\<lambda>x. x\<lparr>o_state := Undeliverable, o_revision := o_revision p + 1, o_updated := ts\<rparr>"
  have up: "update_outbox (at_revision (o_result_id p) Pending (o_revision p)) ?f k = Inr (i, t)"
    using assms(4) by (simp add: exhaust_outbox_row_def)
  have P: "at_revision (o_result_id p) Pending (o_revision p) p" using assms(3) by (simp add: at_revision_def)
  have f: "\<And>x. same_delivery x (?f x)" by (simp add: same_delivery_def)
  have ok: "outbox_row_ok p ts \<Longrightarrow> outbox_row_ok (?f p) ts" using assms(3) by (auto simp: outbox_row_ok_def)
  show ?thesis
    using delivery_step(1)[OF up assms(1,2) P f ok] delivery_step(3)[OF up assms(1,2) P f ok] by blast
qed

lemma exhaust_all_ok:
  assumes k: "at_time ts k"
    and run: "each (exhaust_outbox_row ts) (sql_select (\<lambda>o'. o_state o' = Pending \<and> o_max_attempts o' \<le> o_attempts o')
      outbox_order (outbox k)) k = Inr (us, t)"
  shows "at_time ts t"
proof (rule each_delivery_sound[OF _ run k, of "\<lambda>p. o_state p = Pending"])
  fix p k a t
  assume "at_time ts k" "p \<in> set (outbox k)" "o_state p = Pending" "exhaust_outbox_row ts p k = Inr (a, t)"
  then show "at_time ts t \<and> (\<forall>x \<in> set (outbox k). o_result_id x \<noteq> o_result_id p \<longrightarrow> x \<in> set (outbox t))"
    by (rule exhaust_outbox_row_ok)
next
  show "distinct (List.map o_result_id (sql_select (\<lambda>o'. o_state o' = Pending \<and> o_max_attempts o' \<le> o_attempts o')
      outbox_order (outbox k)))"
    by (rule sql_select_distinct) (use at_time_outbox_unique[OF k] in \<open>simp add: outbox_table.unique_def\<close>)
qed auto

definition claimed_delivery :: "outbox_row \<Rightarrow> string \<Rightarrow> string \<Rightarrow> rat \<Rightarrow> rat \<Rightarrow> outbox_row" where
  "claimed_delivery p i owner e ts = p\<lparr>o_state := Delivering, o_lease_id := Some i, o_lease_owner := Some owner,
     o_fence := o_fence p + 1, o_attempts := o_attempts p + 1, o_lease_expires := Some e,
     o_revision := o_revision p + 1, o_updated := ts\<rparr>"

lemma claim_outbox_row_ok:
  assumes k: "at_time ts k" and p: "p \<in> set (outbox k)" "o_state p = Pending" "o_attempts p < o_max_attempts p"
    and run: "claim_outbox_row cfg owner d p ts k = Inr (q, t)"
  shows "at_time ts t \<and> (\<exists>i e. q = claimed_delivery p i owner e ts \<and> checked_add ts d = Inr e) \<and>
    find_outbox (o_result_id p) t = Some q"
proof -
  obtain i k1 e u k2 k3 where i: "uuid4 cfg k = Inr (i, k1)" and e: "checked_add ts d = Inr e"
      and up: "update_outbox (at_revision (o_result_id p) Pending (o_revision p))
         (\<lambda>x. x\<lparr>o_state := Delivering, o_lease_id := Some i, o_lease_owner := Some owner, o_fence := o_fence p + 1,
                o_attempts := o_attempts p + 1, o_lease_expires := Some e, o_revision := o_revision p + 1,
                o_updated := ts\<rparr>) k1 = Inr (u, t)" (is "update_outbox _ ?f k1 = _")
      and f: "find_outbox (o_result_id p) t = Some q"
    using run unfolding claim_outbox_row_def
    by (elim bindE) (auto simp: load_outbox_Inr outbox_record_def split: if_splits)
  have k1: "at_time ts k1" "p \<in> set (outbox k1)" using i k p(1) by (auto simp: uuid4_Inr)
  have P: "at_revision (o_result_id p) Pending (o_revision p) p" using p(2) by (simp add: at_revision_def)
  have sd: "\<And>x. same_delivery x (?f x)" by (simp add: same_delivery_def)
  have ok: "outbox_row_ok p ts \<Longrightarrow> outbox_row_ok (?f p) ts" using p by (auto simp: outbox_row_ok_def)
  have "q = ?f p" using delivery_step(2)[OF up k1 P sd ok] f by simp
  then show ?thesis using delivery_step(1)[OF up k1 P sd ok] f e by (auto simp: claimed_delivery_def)
qed

lemma claim_outbox_sound: "sound ts (claim_outbox_body cfg owner d ts)"
proof (rule soundI)
  fix k a t
  assume k: "at_time ts k" and run: "claim_outbox_body cfg owner d ts k = Inr (a, t)"
  let ?dead = "\<lambda>o'. o_state o' = Pending \<and> o_max_attempts o' \<le> o_attempts o'"
  let ?live = "\<lambda>o'. o_state o' = Pending \<and> o_attempts o' < o_max_attempts o' \<and> o_next_at o' \<le> ts"
  obtain ids k1 us k2 where rp: "reap_outbox_in_transaction ts k = Inr (ids, k1)"
      and ex: "each (exhaust_outbox_row ts) (sql_select ?dead outbox_order (outbox k1)) k1 = Inr (us, k2)"
      and go: "(case sql_select ?live outbox_order (outbox k2) of [] \<Rightarrow> ret None
        | row # _ \<Rightarrow> bind (claim_outbox_row cfg owner d row ts) (\<lambda>claimed. ret (Some claimed))) k2 = Inr (a, t)"
    using run unfolding claim_outbox_body_def by (elim bindE) auto
  have k1: "at_time ts k1" using soundD[OF reap_outbox_in_transaction_sound k rp] .
  have k2: "at_time ts k2" by (rule exhaust_all_ok[OF k1 ex])
  show "at_time ts t"
  proof (cases "sql_select ?live outbox_order (outbox k2)")
    case (Cons p ps)
    then have "p \<in> set (sql_select ?live outbox_order (outbox k2))" by simp
    then have "p \<in> set (outbox k2)" "o_state p = Pending" "o_attempts p < o_max_attempts p" by auto
    then show ?thesis using go Cons claim_outbox_row_ok[OF k2] by (auto simp: bind_Inr)
  qed (use go k2 in simp)
qed

definition reopened_delivery :: "outbox_row \<Rightarrow> rat \<Rightarrow> outbox_row" where
  "reopened_delivery p ts = p\<lparr>o_state := Pending, o_lease_id := None, o_lease_owner := None, o_lease_expires := None,
     o_attempts := 0, o_next_at := ts, o_last_error := None, o_revision := o_revision p + 1, o_updated := ts\<rparr>"

definition acked_delivery :: "outbox_row \<Rightarrow> rat \<Rightarrow> outbox_row" where
  "acked_delivery p ts = p\<lparr>o_state := Delivered, o_lease_expires := None, o_revision := o_revision p + 1, o_updated := ts\<rparr>"

definition extended_delivery :: "outbox_row \<Rightarrow> rat \<Rightarrow> rat \<Rightarrow> outbox_row" where
  "extended_delivery p e ts = p\<lparr>o_lease_expires := Some e, o_revision := o_revision p + 1, o_updated := ts\<rparr>"

definition released_delivery :: "outbox_row \<Rightarrow> exec_error \<Rightarrow> rat \<Rightarrow> rat \<Rightarrow> outbox_row" where
  "released_delivery p err n ts =
     p\<lparr>o_state := (if retryable err \<and> o_attempts p < o_max_attempts p then Pending else Undeliverable),
       o_lease_expires := None, o_next_at := n, o_last_error := Some (canon_error err),
       o_revision := o_revision p + 1, o_updated := ts\<rparr>"

lemma retry_outbox_ok:
  assumes run: "retry_result_outbox_body i n ts k = Inr (q, t)" and k: "at_time ts k"
  shows "at_time ts t \<and> (\<exists>p. find_outbox i k = Some p \<and>
    (t = k \<and> q = p \<and> o_state p = Pending \<and> o_revision p = n + 1 \<or>
     o_state p = Undeliverable \<and> o_revision p = n \<and> q = reopened_delivery p ts \<and> find_outbox i t = Some q))"
proof -
  obtain p where p: "find_outbox i k = Some p"
    using run unfolding retry_result_outbox_body_def by (elim bindE) (auto simp: load_outbox_Inr)
  have pk: "p \<in> set (outbox k)" "o_result_id p = i" using p find_outbox_at[OF k] by auto
  show ?thesis
  proof (cases "o_state p = Pending \<and> o_revision p = n + 1 \<and> o_attempts p = 0 \<and> o_last_error p = None")
    case True
    then show ?thesis using run p k
      by (auto simp: retry_result_outbox_body_def bind_Inr load_outbox_Inr outbox_record_def split: if_splits)
  next
    case False
    then obtain u where st: "o_state p = Undeliverable" "o_revision p = n"
      and up: "update_outbox (at_revision i Undeliverable n)
         (\<lambda>x. x\<lparr>o_state := Pending, o_lease_id := None, o_lease_owner := None,
                o_lease_expires := None, o_attempts := 0, o_next_at := ts,
                o_last_error := None, o_revision := n + 1, o_updated := ts\<rparr>) k = Inr (u, t)"
         (is "update_outbox _ ?f k = _")
      and f: "find_outbox i t = Some q"
      using run p by (auto simp: retry_result_outbox_body_def bind_Inr load_outbox_Inr outbox_record_def split: if_splits)
    have P: "at_revision i Undeliverable n p" using st pk by (simp add: at_revision_def)
    have sd: "\<And>x. same_delivery x (?f x)" by (simp add: same_delivery_def)
    have ok: "outbox_row_ok p ts \<Longrightarrow> outbox_row_ok (?f p) ts" using st by (auto simp: outbox_row_ok_def)
    have "q = ?f p" using delivery_step(2)[OF up k pk(1) P sd ok] f pk by simp
    then show ?thesis using delivery_step(1)[OF up k pk(1) P sd ok] p st f by (simp add: reopened_delivery_def)
  qed
qed

lemma ack_outbox_ok:
  assumes run: "ack_outbox_body i lid fnc ts k = Inr (q, t)" and k: "at_time ts k"
  shows "at_time ts t \<and> (\<exists>p. find_outbox i k = Some p \<and> held_by p lid fnc \<and>
    (t = k \<and> q = p \<and> o_state p = Delivered \<or>
     live_delivery p lid fnc ts \<and> q = acked_delivery p ts \<and> find_outbox i t = Some q))"
proof -
  obtain p where p: "find_outbox i k = Some p"
    using run unfolding ack_outbox_body_def by (elim bindE) (auto simp: load_outbox_Inr)
  have pk: "p \<in> set (outbox k)" "o_result_id p = i" using p find_outbox_at[OF k] by auto
  show ?thesis
  proof (cases "o_state p = Delivered \<and> held_by p lid fnc")
    case True
    then show ?thesis using run p k
      by (auto simp: ack_outbox_body_def bind_Inr load_outbox_Inr outbox_record_def split: if_splits)
  next
    case False
    then obtain u where st: "live_delivery p lid fnc ts"
      and up: "update_outbox (at_revision i Delivering (o_revision p))
         (\<lambda>x. x\<lparr>o_state := Delivered, o_lease_expires := None,
                o_revision := o_revision p + 1, o_updated := ts\<rparr>) k = Inr (u, t)" (is "update_outbox _ ?f k = _")
      and f: "find_outbox i t = Some q"
      using run p by (auto simp: ack_outbox_body_def bind_Inr load_outbox_Inr outbox_record_def split: if_splits)
    have P: "at_revision i Delivering (o_revision p) p" using st pk by (simp add: at_revision_def live_delivery_def)
    have sd: "\<And>x. same_delivery x (?f x)" by (simp add: same_delivery_def)
    have ok: "outbox_row_ok p ts \<Longrightarrow> outbox_row_ok (?f p) ts" using st by (auto simp: outbox_row_ok_def live_delivery_def)
    have "q = ?f p" using delivery_step(2)[OF up k pk(1) P sd ok] f pk by simp
    then show ?thesis using delivery_step(1)[OF up k pk(1) P sd ok] p st f
      by (auto simp: acked_delivery_def live_delivery_def)
  qed
qed

lemma renew_outbox_ok:
  assumes run: "renew_outbox_body i lid fnc d ts k = Inr (q, t)" and k: "at_time ts k"
  shows "at_time ts t \<and> (\<exists>p e. find_outbox i k = Some p \<and> live_delivery p lid fnc ts \<and> checked_add ts d = Inr e \<and>
     q = extended_delivery p e ts \<and> find_outbox i t = Some q)"
proof -
  obtain p e u where p: "find_outbox i k = Some p" and st: "live_delivery p lid fnc ts" and e: "checked_add ts d = Inr e"
      and up: "update_outbox (at_revision i Delivering (o_revision p))
         (\<lambda>x. x\<lparr>o_lease_expires := Some e, o_revision := o_revision p + 1, o_updated := ts\<rparr>) k = Inr (u, t)"
         (is "update_outbox _ ?f k = _")
      and f: "find_outbox i t = Some q"
    using run unfolding renew_outbox_body_def
    by (elim bindE) (auto simp: load_outbox_Inr outbox_record_def split: if_splits)
  have pk: "p \<in> set (outbox k)" "o_result_id p = i" using p find_outbox_at[OF k] by auto
  have P: "at_revision i Delivering (o_revision p) p" using st pk by (simp add: at_revision_def live_delivery_def)
  have sd: "\<And>x. same_delivery x (?f x)" by (simp add: same_delivery_def)
  have ok: "outbox_row_ok p ts \<Longrightarrow> outbox_row_ok (?f p) ts" using st by (auto simp: outbox_row_ok_def live_delivery_def)
  have "q = ?f p" using delivery_step(2)[OF up k pk(1) P sd ok] f pk by simp
  then show ?thesis using delivery_step(1)[OF up k pk(1) P sd ok] p st f e by (auto simp: extended_delivery_def)
qed

lemma release_outbox_ok:
  assumes run: "release_outbox_body i lid fnc err d ts k = Inr (q, t)" and k: "at_time ts k" and err: "error_ok err"
  shows "at_time ts t \<and> (\<exists>p. find_outbox i k = Some p \<and> held_by p lid fnc \<and>
    (t = k \<and> q = p \<and> o_state p \<in> {Pending, Undeliverable} \<and> o_last_error p = Some (canon_error err) \<or>
     live_delivery p lid fnc ts \<and> (\<exists>n. checked_add ts d = Inr n \<and> q = released_delivery p err n ts) \<and>
     find_outbox i t = Some q))"
proof -
  obtain p where p: "find_outbox i k = Some p"
    using run unfolding release_outbox_body_def by (elim bindE) (auto simp: load_outbox_Inr)
  have pk: "p \<in> set (outbox k)" "o_result_id p = i" using p find_outbox_at[OF k] by auto
  show ?thesis
  proof (cases "o_state p \<in> {Pending, Undeliverable} \<and> held_by p lid fnc")
    case True
    then show ?thesis using run p k
      by (auto simp: release_outbox_body_def bind_Inr load_outbox_Inr outbox_record_def split: if_splits)
  next
    case False
    let ?st = "if retryable err \<and> o_attempts p < o_max_attempts p then Pending else Undeliverable"
    from False obtain u n where st: "live_delivery p lid fnc ts" and n: "checked_add ts d = Inr n"
      and up: "update_outbox (at_revision i Delivering (o_revision p))
         (\<lambda>x. x\<lparr>o_state := ?st, o_lease_expires := None, o_next_at := n,
                o_last_error := Some (canon_error err), o_revision := o_revision p + 1,
                o_updated := ts\<rparr>) k = Inr (u, t)" (is "update_outbox _ ?f k = _")
      and f: "find_outbox i t = Some q"
      using run p unfolding release_outbox_body_def Let_def
      by (auto simp: bind_Inr load_outbox_Inr outbox_record_def simp del: if_split split: if_split_asm)
    have P: "at_revision i Delivering (o_revision p) p" using st pk by (simp add: at_revision_def live_delivery_def)
    have sd: "\<And>x. same_delivery x (?f x)" by (simp add: same_delivery_def)
    have ok: "outbox_row_ok p ts \<Longrightarrow> outbox_row_ok (?f p) ts"
      using st err by (auto simp: outbox_row_ok_def live_delivery_def)
    have "q = ?f p" using delivery_step(2)[OF up k pk(1) P sd ok] f pk by simp
    then show ?thesis using delivery_step(1)[OF up k pk(1) P sd ok] p st f n
      by (auto simp: released_delivery_def live_delivery_def)
  qed
qed

lemma retry_outbox_sound: "sound ts (retry_result_outbox_body i n ts)"
  by (rule soundI) (drule (1) retry_outbox_ok, elim conjE)

lemma ack_outbox_sound: "sound ts (ack_outbox_body i lid fnc ts)"
  by (rule soundI) (drule (1) ack_outbox_ok, elim conjE)

lemma renew_outbox_sound: "sound ts (renew_outbox_body i lid fnc d ts)"
  by (rule soundI) (drule (1) renew_outbox_ok, elim conjE)

lemma release_outbox_sound: "error_ok err \<Longrightarrow> sound ts (release_outbox_body i lid fnc err d ts)"
  by (rule soundI) (drule (2) release_outbox_ok, elim conjE)

lemmas outbox_body_sound = retry_outbox_sound ack_outbox_sound renew_outbox_sound release_outbox_sound

lemma sound_load_outbox: "sound ts (load_outbox_row i)"
  by (auto intro: soundI simp: load_outbox_Inr)

end
