(* ===== verification/Growth.thy ===== *)
theory Growth
  imports Delivery "HOL-Library.Sublist"
begin

text \<open>
  The history only grows: the event log is extended, and each row of the store is kept or
  superseded by a later revision of itself. What is final - a committed effect, a delivered
  result - is kept; with the trail of the log, so is an execution that has ended.
\<close>

definition exec_later :: "exec_row \<Rightarrow> exec_row \<Rightarrow> bool" where
  "exec_later r r' \<longleftrightarrow> r' = r \<or>
     x_id r' = x_id r \<and> x_key r' = x_key r \<and> x_command r' = x_command r \<and> x_created r' = x_created r \<and>
     x_attempt r \<le> x_attempt r' \<and> x_fence r \<le> x_fence r' \<and> x_revision r < x_revision r'"

definition effect_later :: "effect_record \<Rightarrow> effect_record \<Rightarrow> bool" where
  "effect_later e e' \<longleftrightarrow> e' = e \<or>
     e_effect_id e' = e_effect_id e \<and> e_execution_id e' = e_execution_id e \<and> e_name e' = e_name e \<and>
     e_request e' = e_request e \<and> e_revision e < e_revision e' \<and> e_state e \<noteq> Committed"

definition outbox_later :: "outbox_row \<Rightarrow> outbox_row \<Rightarrow> bool" where
  "outbox_later p q \<longleftrightarrow> q = p \<or>
     same_delivery p q \<and> o_fence p \<le> o_fence q \<and> o_revision p < o_revision q \<and> o_state p \<noteq> Delivered"

text \<open>The log and the tables beside the executions.\<close>

definition rest_later :: "kernel \<Rightarrow> kernel \<Rightarrow> bool" where
  "rest_later k t \<longleftrightarrow> prefix (events k) (events t) \<and>
     (\<forall>e \<in> set (effects k). \<exists>e' \<in> set (effects t). effect_later e e') \<and>
     (\<forall>p \<in> set (outbox k). \<exists>q \<in> set (outbox t). outbox_later p q)"

definition execs_later :: "kernel \<Rightarrow> kernel \<Rightarrow> bool" where
  "execs_later k t \<longleftrightarrow> (\<forall>r \<in> set (execs k). \<exists>r' \<in> set (execs t). exec_later r r')"

lemma exec_later_refl [simp]: "exec_later r r" and effect_later_refl [simp]: "effect_later e e"
  and outbox_later_refl [simp]: "outbox_later p p"
  by (simp_all add: exec_later_def effect_later_def outbox_later_def)

lemma exec_later_trans: "exec_later r q \<Longrightarrow> exec_later q p \<Longrightarrow> exec_later r p"
  by (auto simp: exec_later_def)

lemma effect_later_trans: "effect_later r q \<Longrightarrow> effect_later q p \<Longrightarrow> effect_later r p"
  by (auto simp: effect_later_def)

lemma outbox_later_trans: "outbox_later r q \<Longrightarrow> outbox_later q p \<Longrightarrow> outbox_later r p"
  by (auto simp: outbox_later_def same_delivery_def)

lemma execs_later_trans: "execs_later k t \<Longrightarrow> execs_later t u \<Longrightarrow> execs_later k u"
  unfolding execs_later_def using exec_later_trans by meson

lemma rest_later_trans: "rest_later k t \<Longrightarrow> rest_later t u \<Longrightarrow> rest_later k u"
  unfolding rest_later_def using effect_later_trans outbox_later_trans prefix_order.order_trans by meson

lemma rest_later_refl [simp]: "rest_later k k" and execs_later_refl [simp]: "execs_later k k"
  by (auto simp: rest_later_def execs_later_def intro: effect_later_refl outbox_later_refl exec_later_refl)

interpretation grow: progress rest_later
  by unfold_locales (simp, rule rest_later_trans)

lemma growI:
  "(\<And>k a t. m k = Inr (a, t) \<Longrightarrow> prefix (events k) (events t) \<and> effects t = effects k \<and> outbox t = outbox k) \<Longrightarrow>
   runs rest_later m"
  by (auto simp: runs_def rest_later_def intro: effect_later_refl outbox_later_refl)

subsection \<open>The writes\<close>

lemma grow_update_exec: "runs rest_later (update_exec P f)"
  by (rule growI) (auto simp: update_exec_Inr)

lemma grow_insert_exec: "runs rest_later (insert_exec r)"
  by (rule growI) (auto simp: insert_exec_Inr)

lemma grow_append_event: "runs rest_later (append_event i n ty fs tos dat ts)"
  by (rule growI) (auto dest: append_event_Inr)

lemma grow_effect_event: "runs rest_later (effect_event e ty fs d ts)"
  by (rule growI) (auto dest: effect_event_Inr)

lemma grow_uuid4: "runs rest_later (uuid4 cfg)"
  by (rule growI) (auto simp: uuid4_Inr)

lemma map_if_related:
  assumes "\<And>x. P x \<Longrightarrow> R x (f x)" and "\<And>x. R x x"
  shows "\<forall>x \<in> set xs. \<exists>y \<in> set (List.map (\<lambda>x. if P x then f x else x) xs). R x y"
proof
  fix x assume "x \<in> set xs"
  then have "(if P x then f x else x) \<in> set (List.map (\<lambda>x. if P x then f x else x) xs)" by (simp only: set_map image_eqI)
  moreover have "R x (if P x then f x else x)" using assms by simp
  ultimately show "\<exists>y \<in> set (List.map (\<lambda>x. if P x then f x else x) xs). R x y" by blast
qed

lemma related_refl: "(\<And>x. R x x) \<Longrightarrow> \<forall>x \<in> set xs. \<exists>y \<in> set xs. R x y"
  by blast

lemmas effects_refl = related_refl[of effect_later, OF effect_later_refl]
  and outbox_refl = related_refl[of outbox_later, OF outbox_later_refl]
  and execs_refl = related_refl[of exec_later, OF exec_later_refl]

lemma grow_update_effect:
  assumes "\<And>x. P x \<Longrightarrow> effect_later x (f x)"
  shows "runs rest_later (update_effect P f)"
  using map_if_related[of P effect_later f, OF assms effect_later_refl] outbox_refl
  by (auto simp: runs_def rest_later_def update_effect_Inr simp del: set_map)

lemma grow_insert_effect: "runs rest_later (insert_effect e)"
  by (auto simp: runs_def rest_later_def insert_effect_Inr intro: effect_later_refl outbox_later_refl)

lemma grow_update_outbox:
  assumes "\<And>x. P x \<Longrightarrow> outbox_later x (f x)"
  shows "runs rest_later (update_outbox P f)"
  using map_if_related[of P outbox_later f, OF assms outbox_later_refl] effects_refl
  by (auto simp: runs_def rest_later_def update_outbox_Inr simp del: set_map)

lemma grow_insert_outbox: "runs rest_later (insert_outbox e)"
  by (auto simp: runs_def rest_later_def insert_outbox_Inr intro: effect_later_refl outbox_later_refl)

text \<open>Both kinds of progress at once, and the operations that only read.\<close>

definition later :: "kernel \<Rightarrow> kernel \<Rightarrow> bool" where
  "later k t \<longleftrightarrow> execs_later k t \<and> rest_later k t"

lemma later_refl [simp]: "later k k"
  by (simp add: later_def)

lemma later_trans: "later k t \<Longrightarrow> later t u \<Longrightarrow> later k u"
  unfolding later_def using execs_later_trans rest_later_trans by meson

interpretation later: progress later
  by unfold_locales (simp, rule later_trans)

lemma laterI:
  "(\<And>k a t. m k = Inr (a, t) \<Longrightarrow> execs t = execs k) \<Longrightarrow> runs rest_later m \<Longrightarrow> runs later m"
  unfolding runs_def later_def execs_later_def using exec_later_refl by metis

lemma laterI_same: "(\<And>k a t. m k = Inr (a, t) \<Longrightarrow> execs t = execs k \<and> events t = events k \<and> effects t = effects k \<and>
    outbox t = outbox k) \<Longrightarrow> runs later m"
  by (intro laterI growI) auto

lemma later_update_exec:
  assumes "\<And>x. P x \<Longrightarrow> exec_later x (f x)"
  shows "runs later (update_exec P f)"
  using map_if_related[of P exec_later f, OF assms exec_later_refl] grow_update_exec[of P f]
  by (auto simp: runs_def later_def execs_later_def update_exec_Inr simp del: set_map)

lemma later_insert_exec: "runs later (insert_exec r)"
  using grow_insert_exec[of r]
  by (auto simp: runs_def later_def execs_later_def insert_exec_Inr intro: exec_later_refl)

lemma later_update_effect: "(\<And>x. P x \<Longrightarrow> effect_later x (f x)) \<Longrightarrow> runs later (update_effect P f)"
  by (rule laterI[OF _ grow_update_effect]) (auto simp: update_effect_Inr)

lemma later_update_outbox: "(\<And>x. P x \<Longrightarrow> outbox_later x (f x)) \<Longrightarrow> runs later (update_outbox P f)"
  by (rule laterI[OF _ grow_update_outbox]) (auto simp: update_outbox_Inr)

lemma later_insert_effect: "runs later (insert_effect e)"
  by (rule laterI[OF _ grow_insert_effect]) (auto simp: insert_effect_Inr)

lemma later_insert_outbox: "runs later (insert_outbox p)"
  by (rule laterI[OF _ grow_insert_outbox]) (auto simp: insert_outbox_Inr)

lemma later_uuid4: "runs later (uuid4 cfg)"
  by (rule laterI[OF _ grow_uuid4]) (auto simp: uuid4_Inr)

lemma later_append_event: "runs later (append_event i n ty fs tos dat ts)"
  by (rule laterI[OF _ grow_append_event]) (auto dest: append_event_Inr)

lemma later_effect_event: "runs later (effect_event e ty fs d ts)"
  by (rule laterI[OF _ grow_effect_event]) (auto dest: effect_event_Inr)

lemmas later_writes = later_insert_exec later_insert_effect later_insert_outbox later_uuid4
  later_append_event later_effect_event

lemma later_get_row: "runs later (get_row i)" and later_get_snapshot: "runs later (get_snapshot i)"
  and later_get_effect: "runs later (get_effect i)" and later_assert_lease: "runs later (assert_lease l ts sts st)"
  and later_authorize: "runs later (authorize_managed_operation i ts op st)"
  and later_effect_ids: "runs later (execution_effect_ids i)"
  and later_load_outbox: "runs later (load_outbox_row i)"
  by (auto intro!: laterI_same simp: get_row_Inr get_snapshot_Inr get_effect_Inr assert_lease_Inr load_outbox_Inr
      dest: authorize_Inr execution_effect_ids_Inr)

lemmas later_reads = later_get_row later_get_snapshot later_get_effect later_assert_lease later_authorize
  later_effect_ids later_load_outbox

subsection \<open>Parking and ending\<close>

lemma later_park_effect: "runs later (park_effect ts trigger e)"
  unfolding park_effect_def Let_def
  by (intro later.rules later_reads later_writes later_update_effect) (auto simp: effect_later_def)

lemma later_park: "runs later (park_unfinished_effects r ts trigger reason)"
  unfolding park_unfinished_effects_def park_execution_def repark_def park_now_def
    unfinished_effect_rows_def Let_def
  by (intro later.rules later_reads later_writes later_park_effect later_update_exec) (auto simp: exec_later_def)

lemma later_make_terminal: "runs later (make_terminal cfg r q ty ts)"
  unfolding make_terminal_def write_terminal_def insert_result_outbox_def Let_def
  by (intro later.rules later_reads later_writes later_park later_update_exec) (auto simp: exec_later_def)

lemma later_dead_result: "runs later (dead_result cfg r cmd ts c m d n ids)"
  unfolding dead_result_def by (intro later.rules later_writes)

lemma later_cancelled_result: "runs later (cancelled_result cfg r cmd ts reason ids)"
  unfolding cancelled_result_def by (intro later.rules later_writes)

lemma later_redeliver: "runs later (redeliver cfg r ts)"
  unfolding redeliver_def Let_def
  by (intro later.rules later_writes later_update_exec) (auto simp: exec_later_def)

lemmas later_ends = later_park later_make_terminal later_dead_result later_cancelled_result later_redeliver

lemma later_reap: "runs later (reap_in_transaction cfg ts)"
  unfolding reap_in_transaction_def reap_row_def Let_def by (intro later.rules later_reads later_ends)

lemma later_reap_batches: "runs later (reap_batches n cfg ts)"
  by (induction n; unfold reap_batches.simps) (intro later.rules later_reap; assumption)+

lemma later_reap_body: "runs later (reap_body n cfg ts)"
  unfolding reap_body_def by (intro later.rules later_reads later_reap_batches)

lemma later_obligations: "runs later (modify (\<lambda>k. k\<lparr>obligations := f k\<rparr>))"
  by (rule laterI_same) auto

lemma later_resolve_supervisor: "runs later (resolve_supervisor v l q)"
  by (rule laterI_same) (auto dest!: resolve_supervisor_Inr)

lemma later_complete: "runs later (complete_body cfg l q st v ts)"
  unfolding complete_body_def complete_terminal_def complete_live_def validate_result_def exhaust_retries_def
    schedule_retry_def Let_def
  by (intro later.rules later_reads later_writes later_ends later_resolve_supervisor later_update_exec)
    (auto simp: exec_later_def)

lemma later_require_recovery: "runs later (require_effect_recovery_body l e st ts)"
  unfolding require_effect_recovery_body_def by (intro later.rules later_reads later_ends)

lemma later_dead_letter: "runs later (dead_letter_body cfg l err ts)"
  unfolding dead_letter_body_def by (intro later.rules later_reads later_ends)

lemma later_cancel_guard: "runs later (cancel_guard_managed i)"
  by (rule laterI_same) (auto dest: cancel_guard_Inr)

lemma prod_option_rule: "(\<And>a b. runs R (f a b)) \<Longrightarrow> runs R (case z of (a, b) \<Rightarrow> f a b)"
  by (cases z) simp

lemma later_cancel: "runs later (cancel_body cfg i lse reason n ts)"
  unfolding cancel_body_def cancel_recovery_def cancel_active_def cancel_authority_def
  by (intro later.rules later_reads later_ends later_cancel_guard) (auto intro!: later.rules later_ends split: option.split)

lemma later_record_decision: "runs later (record_decision e d v rid ts)"
  unfolding record_decision_def
  by (intro later.bind_lift_rule later.rules later_reads later_writes later_update_effect)
    (auto simp: effect_later_def decided_effect_def mk_effect_Inr)

lemma later_resolve_effect: "runs later (resolve_effect_body cfg i d v n rid ts)"
  unfolding resolve_effect_body_def settle_execution_def point_to_next_def finish_cancelled_def
    resume_queued_def Let_def
  by (intro later.rules later_reads later_writes later_ends later_record_decision later_update_exec)
    (auto simp: exec_later_def)

subsection \<open>The journal, the outbox and run control\<close>

lemma later_prepare: "runs later (prepare_effect_body l i n v ts)"
  unfolding prepare_effect_body_def prepare_new_def reprepare_def
  by (intro later.rules later_reads later_writes later_park later_update_effect) (auto simp: effect_later_def)

lemma later_claim_effect: "runs later (claim_effect_body cfg l i ts)"
  unfolding claim_effect_body_def
  by (intro later.rules later_reads later_writes later_update_effect) (auto simp: effect_later_def)

lemma later_commit_effect: "runs later (commit_effect_body i v l c ts)"
  unfolding commit_effect_body_def
  by (intro later.bind_lift_rule later.rules later_reads later_writes later_update_effect)
    (auto simp: effect_later_def mk_effect_Inr)

lemma later_mark_effect: "runs later (mark_effect_indeterminate_body i v l c ts)"
  unfolding mark_effect_indeterminate_body_def
  by (intro later.bind_lift_rule later.rules later_reads later_writes later_update_effect)
    (auto simp: effect_later_def mk_effect_Inr)

lemma later_retry_outbox: "runs later (retry_result_outbox_body i n ts)"
  unfolding retry_result_outbox_body_def
  by (intro later.rules later_reads later_update_outbox) (auto simp: outbox_later_def same_delivery_def at_revision_def)

lemma later_reap_outbox: "runs later (reap_outbox_in_transaction ts)"
  unfolding reap_outbox_in_transaction_def reap_outbox_row_def Let_def
  by (intro later.rules later_update_outbox) (auto simp: outbox_later_def same_delivery_def at_revision_def)

lemma later_ack_outbox: "runs later (ack_outbox_body i lid n ts)"
  unfolding ack_outbox_body_def
  by (intro later.rules later_reads later_update_outbox) (auto simp: outbox_later_def same_delivery_def at_revision_def)

lemma later_renew_outbox: "runs later (renew_outbox_body i lid n d ts)"
  unfolding renew_outbox_body_def
  by (intro later.rules later_reads later_update_outbox) (auto simp: outbox_later_def same_delivery_def at_revision_def)

lemma later_release_outbox: "runs later (release_outbox_body i lid n err d ts)"
  unfolding release_outbox_body_def Let_def
  by (intro later.rules later_reads later_update_outbox) (auto simp: outbox_later_def same_delivery_def at_revision_def)

text \<open>The fence of a claimed delivery is read from its row, which the update finds again.\<close>

lemma later_claim_outbox_row:
  assumes k: "at_time ts k" and p: "p \<in> set (outbox k)" "o_state p = Pending" "o_attempts p < o_max_attempts p"
    and run: "claim_outbox_row cfg owner d p ts k = Inr (q, t)"
  shows "later k t"
proof -
  let ?f = "\<lambda>i e x. x\<lparr>o_state := Delivering, o_lease_id := Some i, o_lease_owner := Some owner, o_fence := o_fence p + 1,
                o_attempts := o_attempts p + 1, o_lease_expires := Some e, o_revision := o_revision p + 1, o_updated := ts\<rparr>"
  obtain i k1 e u where i: "uuid4 cfg k = Inr (i, k1)"
      and up: "update_outbox (at_revision (o_result_id p) Pending (o_revision p)) (?f i e) k1 = Inr (u, t)"
    using run unfolding claim_outbox_row_def
    by (elim bindE) (auto simp: load_outbox_Inr outbox_record_def split: if_splits)
  have k1: "at_time ts k1" "p \<in> set (outbox k1)" using i k p(1) by (auto simp: uuid4_Inr)
  have P: "at_revision (o_result_id p) Pending (o_revision p) p" using p(2) by (simp add: at_revision_def)
  have "redelivered p (?f i e p) k1 t"
    by (rule update_outbox_redelivered[OF up k1 P]) (simp add: same_delivery_def)
  then obtain os where t: "t = k1\<lparr>outbox := os\<rparr>"
      and os: "set os = insert (?f i e p) {x \<in> set (outbox k1). o_result_id x \<noteq> o_result_id p}"
    unfolding redelivered_def by blast
  have "outbox_later p (?f i e p)" using p(2) by (simp add: outbox_later_def same_delivery_def)
  then have "\<exists>y \<in> set os. outbox_later x y" if "x \<in> set (outbox k)" for x
    using that i outbox_table.key_inj[OF at_time_outbox_unique[OF k] that p(1)] outbox_later_refl[of x]
    unfolding os by (auto simp: uuid4_Inr simp del: outbox_later_refl)
  then show ?thesis
    using i effects_refl execs_refl by (auto simp: later_def execs_later_def rest_later_def uuid4_Inr t)
qed

lemma later_control_update: "runs later (update_control P f)" and later_control_insert: "runs later (insert_control c)"
  and later_managed_update: "runs later (update_managed Q g)" and later_managed_insert: "runs later (insert_managed m)"
  and later_managed_modify: "runs later (modify (\<lambda>k. k\<lparr>managed := h k\<rparr>))"
  and later_control_snapshot: "runs later (run_control_snapshot i)"
  by (auto intro!: laterI_same simp: update_control_Inr insert_control_Inr update_managed_Inr insert_managed_Inr
      dest: run_control_snapshot_Inr)

lemmas later_controls = later_control_update later_control_insert later_managed_update later_managed_insert
  later_managed_modify later_control_snapshot

lemma later_register_control: "runs later (register_run_control_in_transaction i n d)"
  unfolding register_run_control_in_transaction_def by (intro later.rules later_controls)

lemma later_set_control: "runs later (set_run_control_in_transaction i e st g ids)"
  unfolding set_run_control_in_transaction_def Let_def by (intro later.rules later_controls)

subsection \<open>Submission and leases\<close>

lemma prod_rule: "(\<And>a b. runs R (f a b)) \<Longrightarrow> runs R (case z of (a, b) \<Rightarrow> f a b)"
  by (cases z) simp

lemma later_submit: "runs later (submit_in_transaction cmd ts)"
  unfolding submit_in_transaction_def by (intro later.rules later_reads later_writes)

lemma later_managed_existing: "runs later (managed_existing cmd i g m r)"
  by (rule laterI_same) (auto dest: managed_existing_Inr)

lemma later_register_managed: "runs later (register_managed cmd i g ts)"
  unfolding register_managed_def by (intro later.rules prod_rule later_controls later_submit)

lemma later_submit_managed: "runs later (submit_managed_body cmd i g ts)"
  unfolding submit_managed_body_def by (intro later.rules later_managed_existing later_register_managed)

lemma later_cancel_before_accept: "runs later (cancel_before_accept_body cfg cmd reason ts)"
  unfolding cancel_before_accept_body_def by (intro later.rules prod_rule later_submit later_ends)

lemma later_cancel_managed: "runs later (cancel_managed_body cfg cmd i g reason ts)"
  unfolding cancel_managed_body_def
  by (intro later.rules later_managed_existing later_register_managed later_ends)

lemma later_start: "runs later (start_body l ts)"
  unfolding start_body_def Let_def
  by (intro later.rules later_reads later_writes later_update_exec) (auto simp: exec_later_def)

lemma later_renew: "runs later (renew_body l d ts)"
  unfolding renew_body_def Let_def
  by (intro later.rules later_reads later_writes later_update_exec) (auto simp: exec_later_def)

lemma later_verify: "runs later (verify_body l ts)"
  unfolding verify_body_def by (intro later.rules later_reads)

lemma later_register_obligation: "runs later (register_supervisor_obligation_body l ts)"
  unfolding register_supervisor_obligation_body_def Let_def by (intro later.rules later_reads later_obligations)

text \<open>A claim takes its attempt and fence from the row it read, which the update finds again.\<close>

lemma grow_charge: "runs rest_later (charge_managed_claim i ts)"
  by (rule growI) (auto dest: charge_frame)

lemma grow_authorize: "runs rest_later (authorize_managed_operation i ts op st)"
  by (rule growI) (auto dest: authorize_Inr)

lemma grow_claim_row: "runs rest_later (claim_row cfg owner d r ts)"
  unfolding claim_row_def Let_def
  by (intro grow.rules grow_uuid4 grow_charge grow_update_exec grow_append_event)

lemma grow_claim_start_row: "runs rest_later (claim_start_row cfg owner least safety r ts)"
  unfolding claim_start_row_def Let_def
  by (intro grow.rules grow_uuid4 grow_charge grow_authorize grow_update_exec grow_append_event)

lemma only_charge: "only i (charge_managed_claim j ts)"
  by (rule onlyI) (auto dest: charge_frame)

lemma only_claim_row: "only (x_id r) (claim_row cfg owner d r ts)"
  unfolding claim_row_def Let_def by (intro only_rules only_charge) auto

lemma only_claim_start_row: "only (x_id r) (claim_start_row cfg owner least safety r ts)"
  unfolding claim_start_row_def Let_def by (intro only_rules only_charge only_reads) auto

lemma execs_later_one:
  assumes "at_time ts k" and "r \<in> set (execs k)" and "others (x_id r) k t" and "find_exec (x_id r) t = Some r'"
    and "exec_later r r'"
  shows "execs_later k t"
  unfolding execs_later_def
proof
  fix q assume q: "q \<in> set (execs k)"
  show "\<exists>r' \<in> set (execs t). exec_later q r'"
  proof (cases "x_id q = x_id r")
    case True
    then have "q = r" using exec_table.key_inj[OF at_time_unique[OF assms(1)] q assms(2)] by simp
    then show ?thesis using assms(4,5) exec_table.find_rowD by blast
  next
    case False
    then have "q \<in> set (execs t)" using assms(3) q by (simp add: others_def)
    then show ?thesis using exec_later_refl by blast
  qed
qed

lemma claimed_later: "x_revision r < n \<Longrightarrow> exec_later r (claimed_row r st i owner e started n ts)"
  by (simp add: exec_later_def claimed_row_def)

lemma later_claim_row:
  assumes "claim_row cfg owner d r ts k = Inr (l, t)" and "at_time ts k" and "r \<in> set (execs k)"
  shows "later k t"
  using execs_later_one[OF assms(2,3) runsD[OF only_claim_row assms(1)]] claim_row_ok[OF assms]
    claimed_later[of r "x_revision r + 1"] runsD[OF grow_claim_row assms(1)]
  by (auto simp: later_def)

lemma later_claim_start_row:
  assumes "claim_start_row cfg owner least safety r ts k = Inr (l, t)" and "at_time ts k" and "r \<in> set (execs k)"
  shows "later k t"
  using execs_later_one[OF assms(2,3) runsD[OF only_claim_start_row assms(1)]] claim_start_row_ok[OF assms]
    claimed_later[of r "x_revision r + 1 + 1"] runsD[OF grow_claim_start_row assms(1)]
  by (auto simp: later_def)

end
