(* ===== verification/Operations.thy ===== *)
theory Operations
  imports Growth
begin

text \<open>
  The operations a client of the kernel calls, each in its own transaction, and what all of
  them preserve: the invariant, the clock that never runs back and the history that only
  grows. \<open>reachable\<close> is the stores that any sequence of calls produces from a new database.
\<close>

datatype call =
    Op_submit command
  | Op_submit_managed command string int
  | Op_cancel_before_accept command string
  | Op_cancel_managed_before_accept command string int string
  | Op_register_run_control string int rat
  | Op_set_run_control string int control_state int "string list"
  | Op_reap nat
  | Op_next_queued string
  | Op_claim string "pyval option" "string option" "string list option" "string option"
  | Op_claim_and_start string "pyval option" pyval "string option" "string list option" "string option" "string list"
  | Op_register_supervisor_obligation lease
  | Op_verify lease
  | Op_start lease
  | Op_renew lease "pyval option"
  | Op_prepare_effect lease string string pyval
  | Op_claim_effect lease string
  | Op_commit_effect string pyval lease string
  | Op_mark_effect_indeterminate string pyval lease string
  | Op_resolve_effect string decision pyval int string
  | Op_complete lease exec_result bool supervisor
  | Op_require_effect_recovery lease string bool
  | Op_dead_letter lease exec_error
  | Op_cancel string "lease option" string "int option"
  | Op_claim_outbox string "pyval option"
  | Op_ack_outbox string string int
  | Op_renew_outbox string string int "pyval option"
  | Op_release_outbox string exec_error string int pyval
  | Op_retry_result_outbox string int
  | Op_reap_outbox

fun perform :: "config \<Rightarrow> rat \<Rightarrow> call \<Rightarrow> kernel \<Rightarrow> kernel" where
  "perform cfg w (Op_submit c) k = snd (submit w c k)"
| "perform cfg w (Op_submit_managed c i g) k = snd (submit_managed w c i g k)"
| "perform cfg w (Op_cancel_before_accept c r) k = snd (cancel_before_accept cfg w c r k)"
| "perform cfg w (Op_cancel_managed_before_accept c i g r) k = snd (cancel_managed_before_accept cfg w c i g r k)"
| "perform cfg w (Op_register_run_control i n d) k = snd (register_run_control w i n d k)"
| "perform cfg w (Op_set_run_control i e s g ids) k = snd (set_run_control w i e s g ids k)"
| "perform cfg w (Op_reap n) k = snd (reap n cfg w k)"
| "perform cfg w (Op_next_queued r) k = snd (next_queued cfg w r k)"
| "perform cfg w (Op_claim o' d r rs i) k = snd (claim cfg w o' d r rs i k)"
| "perform cfg w (Op_claim_and_start o' d s r rs i ex) k = snd (claim_and_start cfg w o' d s r rs i ex k)"
| "perform cfg w (Op_register_supervisor_obligation l) k = snd (register_supervisor_obligation w l k)"
| "perform cfg w (Op_verify l) k = snd (verify w l k)"
| "perform cfg w (Op_start l) k = snd (start w l k)"
| "perform cfg w (Op_renew l d) k = snd (renew cfg w l d k)"
| "perform cfg w (Op_prepare_effect l i n v) k = snd (prepare_effect w l i n v k)"
| "perform cfg w (Op_claim_effect l i) k = snd (claim_effect cfg w l i k)"
| "perform cfg w (Op_commit_effect i v l c) k = snd (commit_effect w i v l c k)"
| "perform cfg w (Op_mark_effect_indeterminate i v l c) k = snd (mark_effect_indeterminate w i v l c k)"
| "perform cfg w (Op_resolve_effect i d v n r) k = snd (resolve_effect cfg w i d v n r k)"
| "perform cfg w (Op_complete l q s v) k = snd (complete_result cfg w l q s v k)"
| "perform cfg w (Op_require_effect_recovery l i s) k = snd (require_effect_recovery w l i s k)"
| "perform cfg w (Op_dead_letter l e) k = snd (dead_letter cfg w l e k)"
| "perform cfg w (Op_cancel i l r n) k = snd (cancel cfg w i l r n k)"
| "perform cfg w (Op_claim_outbox o' d) k = snd (claim_outbox cfg w o' d k)"
| "perform cfg w (Op_ack_outbox i l n) k = snd (ack_outbox w i l n k)"
| "perform cfg w (Op_renew_outbox i l n d) k = snd (renew_outbox cfg w i l n d k)"
| "perform cfg w (Op_release_outbox i e l n d) k = snd (release_outbox w i e l n d k)"
| "perform cfg w (Op_retry_result_outbox i n) k = snd (retry_result_outbox w i n k)"
| "perform cfg w Op_reap_outbox k = snd (reap_outbox w k)"

text \<open>A contract object exists only when its constructor accepted it.\<close>

fun call_ok :: "call \<Rightarrow> bool" where
  "call_ok (Op_submit c) = command_ok c"
| "call_ok (Op_submit_managed c i g) = command_ok c"
| "call_ok (Op_cancel_before_accept c r) = command_ok c"
| "call_ok (Op_cancel_managed_before_accept c i g r) = command_ok c"
| "call_ok (Op_complete l q s v) = result_ok q"
| "call_ok (Op_dead_letter l e) = error_ok e"
| "call_ok (Op_release_outbox i e l n d) = error_ok e"
| "call_ok c = True"

subsection \<open>Transactions\<close>

lemma kernel_ok_later:
  assumes k: "kernel_ok k" and "watermark k \<le> ts" and "is_float ts"
  shows "at_time ts (k\<lparr>watermark := ts\<rparr>)"
proof -
  have "outbox_row_ok q ts" if "outbox_row_ok q (watermark k)" for q
    using that assms(2) by (auto simp: outbox_row_ok_def)
  moreover have "effect_times_le e ts" if "effect_times_le e (watermark k)" for e
    using that assms(2)
    by (cases "e_committed_at e"; cases "e_indeterminate_at e"; cases "e_resolved_at e") (auto simp: effect_times_le_def)
  ultimately have "outbox_ok (k\<lparr>watermark := ts\<rparr>)" "effects_ok (k\<lparr>watermark := ts\<rparr>)"
    using k by (auto simp: kernel_ok_def outbox_ok_def effects_ok_def outbox_table.unique_def effect_table.unique_def)
  moreover have "execs_ok (k\<lparr>watermark := ts\<rparr>)" "log_ok (k\<lparr>watermark := ts\<rparr>)"
    using k assms(2) by (force simp: kernel_ok_def execs_ok_def log_ok_def exec_table.unique_def)+
  moreover have "delivered_ok (k\<lparr>watermark := ts\<rparr>)" "controls_ok (k\<lparr>watermark := ts\<rparr>)" "0 \<le> ts"
    using k assms(2)
    by (auto simp: kernel_ok_def delivered_ok_def controls_ok_def control_table.unique_def managed_table.unique_def)
  ultimately show ?thesis using assms(3) by (simp add: at_time_def kernel_ok_def)
qed

lemma advance_clock_Inr: "advance_clock wall k = Inr (ts, t) \<longleftrightarrow>
    0 \<le> wall \<and> ts = max (watermark k) wall \<and> t = k\<lparr>watermark := ts\<rparr>"
  by (auto simp: advance_clock_def bind_Inr check_number_Inr Let_def)

text \<open>\<open>good_step\<close>: what the store guarantees from one transaction to the next.\<close>

definition good_step :: "kernel \<Rightarrow> kernel \<Rightarrow> bool" where
  "good_step k t \<longleftrightarrow> kernel_ok t \<and> watermark k \<le> watermark t \<and> later k t"

lemma good_step_refl: "kernel_ok k \<Longrightarrow> good_step k k"
  by (simp add: good_step_def)

lemma watermark_later: "later k (k\<lparr>watermark := ts\<rparr>)"
  using effects_refl outbox_refl execs_refl by (simp add: later_def execs_later_def rest_later_def)

lemma transaction_good:
  assumes k: "kernel_ok k" and w: "is_float wall"
    and body: "\<And>ts k1 a t. at_time ts k1 \<Longrightarrow> body ts k1 = Inr (a, t) \<Longrightarrow> at_time ts t \<and> later k1 t"
  shows "good_step k (snd (transaction wall body k))"
proof (cases "advance_clock wall k")
  case (Inl e)
  then show ?thesis using good_step_refl[OF k] by (simp add: transaction_def)
next
  case (Inr p)
  obtain ts k1 where p: "p = (ts, k1)" by (cases p)
  have ts: "ts = max (watermark k) wall" "k1 = k\<lparr>watermark := ts\<rparr>" using Inr p by (auto simp: advance_clock_Inr)
  have "is_float ts" using k w ts(1) by (auto simp: kernel_ok_def max_def)
  then have k1: "at_time ts k1" using kernel_ok_later[OF k] ts by simp
  have l1: "later k k1" using watermark_later ts(2) by simp
  show ?thesis
  proof (cases "body ts k1")
    case (Inl e)
    then show ?thesis using Inr p k1 l1 ts(1) by (simp add: transaction_def good_step_def at_time_def)
  next
    case (Inr q)
    then obtain a t where q: "body ts k1 = Inr (a, t)" by (cases q) auto
    have "at_time ts t" "later k1 t" using body[OF k1 q] by auto
    then show ?thesis
      using \<open>advance_clock wall k = Inr p\<close> p q later_trans[OF l1] ts(1)
      by (simp add: transaction_def good_step_def at_time_def)
  qed
qed

text \<open>The two shapes of body: compositional progress, or progress shown with the invariant.\<close>

lemma transaction_runs:
  assumes "kernel_ok k" and "is_float wall" and "\<And>ts. sound ts (body ts)" and "\<And>ts. runs later (body ts)"
  shows "good_step k (snd (transaction wall body k))"
  by (rule transaction_good[OF assms(1,2)]) (use soundD[OF assms(3)] runsD[OF assms(4)] in blast)

subsection \<open>Every call is a good step\<close>

lemma later_claim_body:
  assumes "claim_body cfg owner d rs i ts k = Inr (a, t)" and "at_time ts k" and cfg: "config_ok cfg"
  shows "later k t"
proof -
  obtain ids k1 row k2 where rp: "reap_in_transaction cfg ts k = Inr (ids, k1)"
      and nx: "next_eligible_claim ts rs i [] k1 = Inr (row, k2)"
      and go: "(case row of None \<Rightarrow> ret None
        | Some row \<Rightarrow> bind (claim_row cfg owner d row ts) (\<lambda>l. ret (Some l))) k2 = Inr (a, t)"
    using assms(1) unfolding claim_body_def by (elim bindE) (rule that)
  have k1: "at_time ts k1" "later k k1"
    using soundD[OF reap_in_transaction_sound[OF cfg] assms(2) rp] runsD[OF later_reap rp] by auto
  have "later k1 t"
    using go next_eligible_Inr[OF nx] later_claim_row[OF _ k1(1)] by (cases row) (auto simp: bind_Inr)
  then show ?thesis by (rule later_trans[OF k1(2)])
qed

lemma later_claim_and_start_body:
  assumes "claim_and_start_body cfg owner d s rs i ex ts k = Inr (a, t)" and "at_time ts k" and cfg: "config_ok cfg"
  shows "later k t"
proof -
  obtain ids k1 row k2 where rp: "reap_in_transaction cfg ts k = Inr (ids, k1)"
      and nx: "next_eligible_claim ts rs i (remdups ex) k1 = Inr (row, k2)"
      and go: "(case row of None \<Rightarrow> ret None
        | Some row \<Rightarrow> bind (claim_start_row cfg owner d s row ts) (\<lambda>l. ret (Some l))) k2 = Inr (a, t)"
    using assms(1) unfolding claim_and_start_body_def by (elim bindE) (rule that)
  have k1: "at_time ts k1" "later k k1"
    using soundD[OF reap_in_transaction_sound[OF cfg] assms(2) rp] runsD[OF later_reap rp] by auto
  have "later k1 t"
    using go next_eligible_Inr[OF nx] later_claim_start_row[OF _ k1(1)] by (cases row) (auto simp: bind_Inr)
  then show ?thesis by (rule later_trans[OF k1(2)])
qed

lemma later_exhaust_outbox_row: "runs later (exhaust_outbox_row ts p)"
  unfolding exhaust_outbox_row_def
  by (rule later_update_outbox) (auto simp: outbox_later_def same_delivery_def at_revision_def)

lemma later_claim_outbox_body:
  assumes run: "claim_outbox_body cfg owner d ts k = Inr (a, t)" and k: "at_time ts k"
  shows "later k t"
proof -
  let ?dead = "\<lambda>o'. o_state o' = Pending \<and> o_max_attempts o' \<le> o_attempts o'"
  let ?live = "\<lambda>o'. o_state o' = Pending \<and> o_attempts o' < o_max_attempts o' \<and> o_next_at o' \<le> ts"
  obtain ids k1 us k2 where rp: "reap_outbox_in_transaction ts k = Inr (ids, k1)"
      and ex: "each (exhaust_outbox_row ts) (sql_select ?dead outbox_order (outbox k1)) k1 = Inr (us, k2)"
      and go: "(case sql_select ?live outbox_order (outbox k2) of [] \<Rightarrow> ret None
        | row # _ \<Rightarrow> bind (claim_outbox_row cfg owner d row ts) (\<lambda>claimed. ret (Some claimed))) k2 = Inr (a, t)"
    using run unfolding claim_outbox_body_def by (elim bindE) auto
  have l: "later k k2"
    using runsD[OF later_reap_outbox rp] runsD[OF later.each_rule[OF later_exhaust_outbox_row] ex] later_trans by blast
  have k1: "at_time ts k1" using soundD[OF reap_outbox_in_transaction_sound k rp] .
  have k2: "at_time ts k2" by (rule exhaust_all_ok[OF k1 ex])
  have "later k2 t"
  proof (cases "sql_select ?live outbox_order (outbox k2)")
    case (Cons p ps)
    then have "p \<in> set (sql_select ?live outbox_order (outbox k2))" by simp
    then have "p \<in> set (outbox k2)" "o_state p = Pending" "o_attempts p < o_max_attempts p" by auto
    then show ?thesis using go Cons later_claim_outbox_row[OF k2] by (auto simp: bind_Inr)
  qed (use go in simp)
  then show ?thesis by (rule later_trans[OF l])
qed

lemma later_next_queued: "runs later (next_queued_body cfg registry ts)"
  unfolding next_queued_body_def
  by (intro later.rules later_reap) (auto intro!: laterI_same dest: next_claim_row_Inr)

lemmas body_sound = cancel_sound complete_sound require_recovery_sound dead_letter_sound reap_sound
  next_queued_sound verify_sound register_obligation_sound start_sound renew_sound prepare_effect_sound
  resolve_effect_sound register_control_sound set_control_sound submit_managed_sound
  cancel_before_accept_sound cancel_managed_sound outbox_body_sound

lemmas body_later = later_cancel later_complete later_require_recovery later_dead_letter later_reap_body
  later_next_queued later_verify later_register_obligation later_start later_renew later_prepare
  later_resolve_effect later_register_control later_set_control later_submit_managed
  later_cancel_before_accept later_cancel_managed later_retry_outbox later_ack_outbox later_renew_outbox
  later_release_outbox

lemma good_if: "(c \<Longrightarrow> good_step k (snd x)) \<Longrightarrow> (\<not> c \<Longrightarrow> good_step k (snd y)) \<Longrightarrow> good_step k (snd (if c then x else y))"
  by simp

lemma good_sum: "(\<And>e. good_step k (snd (f e))) \<Longrightarrow> (\<And>a. good_step k (snd (g a))) \<Longrightarrow>
    good_step k (snd (case z of Inl e \<Rightarrow> f e | Inr a \<Rightarrow> g a))"
  by (cases z) auto

lemma good_fst: "good_step k (snd p) \<Longrightarrow> (\<And>a s. snd (f a s) = s) \<Longrightarrow> good_step k (snd (case p of (a, s) \<Rightarrow> f a s))"
  by (cases p) auto

lemma good_prod: "(\<And>a b. good_step k (snd (f a b))) \<Longrightarrow> good_step k (snd (case z of (a, b) \<Rightarrow> f a b))"
  by (cases z) auto

lemma good_same: "kernel_ok k \<Longrightarrow> good_step k (snd (x, k))"
  by (simp add: good_step_refl)

lemma later_submit_body: "runs later (bind (get (find_managed (c_execution_id cmd))) (\<lambda>m.
        bind (check (m = None) StorageIsolationError) (\<lambda>_.
        bind (submit_in_transaction cmd ts) (\<lambda>(row, _). lift (snapshot row)))))"
  by (intro later.rules prod_rule later_submit)

lemma good_submissions:
  assumes k: "kernel_ok k" and cfg: "config_ok cfg" and w: "is_float w" and c: "command_ok c"
  shows "good_step k (snd (submit w c k))" "good_step k (snd (submit_managed w c i g k))"
    "good_step k (snd (cancel_before_accept cfg w c r k))"
    "good_step k (snd (cancel_managed_before_accept cfg w c i g r k))"
proof -
  show "good_step k (snd (submit w c k))"
    unfolding submit_def
    by (intro good_if good_same k transaction_runs[OF k w] submit_body_sound[OF c] later_submit_body)
  show "good_step k (snd (submit_managed w c i g k))"
    unfolding submit_managed_def with_run_ids_def
    by (intro good_sum good_same k transaction_runs[OF k w] submit_managed_sound[OF c] later_submit_managed)
  show "good_step k (snd (cancel_before_accept cfg w c r k))"
    unfolding cancel_before_accept_def
    by (intro good_if good_same k transaction_runs[OF k w] cancel_before_accept_sound[OF cfg c] later_cancel_before_accept)
  show "good_step k (snd (cancel_managed_before_accept cfg w c i g r k))"
    unfolding cancel_managed_before_accept_def with_run_ids_def
    by (intro good_if good_sum good_same k transaction_runs[OF k w] cancel_managed_sound[OF cfg c] later_cancel_managed)
qed

lemma good_claims:
  assumes k: "kernel_ok k" and cfg: "config_ok cfg" and w: "is_float w"
  shows "good_step k (snd (claim cfg w own d r rs i k))" "good_step k (snd (claim_and_start cfg w own d sf r rs i ex k))"
    "good_step k (snd (next_queued cfg w registry k))" "good_step k (snd (reap n cfg w k))"
proof -
  have c: "at_time ts t \<and> later k1 t" if "at_time ts k1" "claim_body cfg own d' rs' i' ts k1 = Inr (a, t)" for ts k1 d' rs' i' a t
    using that soundD[OF claim_sound[OF cfg]] later_claim_body[OF _ _ cfg] by blast
  have cs: "at_time ts t \<and> later k1 t"
    if "at_time ts k1" "claim_and_start_body cfg own d' s' rs' i' ex' ts k1 = Inr (a, t)" for ts k1 d' s' rs' i' ex' a t
    using that soundD[OF claim_and_start_sound[OF cfg]] later_claim_and_start_body[OF _ _ cfg] by blast
  show "good_step k (snd (claim cfg w own d r rs i k))"
    unfolding claim_def by (intro good_if good_sum good_prod good_same k transaction_good[OF k w] c)
  show "good_step k (snd (claim_and_start cfg w own d sf r rs i ex k))"
    unfolding claim_and_start_def by (intro good_if good_sum good_prod good_same k transaction_good[OF k w] cs)
  show "good_step k (snd (next_queued cfg w registry k))"
    unfolding next_queued_def by (intro good_if good_same k transaction_runs[OF k w] next_queued_sound[OF cfg] later_next_queued)
  show "good_step k (snd (reap n cfg w k))"
    unfolding reap_def by (intro transaction_runs[OF k w] reap_sound[OF cfg] later_reap_body)
qed

lemma good_leases:
  assumes k: "kernel_ok k" and w: "is_float w"
  shows "good_step k (snd (register_supervisor_obligation w l k))" "good_step k (snd (verify w l k))"
    "good_step k (snd (start w l k))" "good_step k (snd (renew cfg w l d k))"
    "good_step k (snd (register_run_control w i n dl k))" "good_step k (snd (set_run_control w i e s g ids k))"
  unfolding register_supervisor_obligation_def verify_def start_def renew_def register_run_control_def set_run_control_def
  by (intro good_sum good_same k transaction_runs[OF k w] body_sound body_later)+

lemma good_effects:
  assumes k: "kernel_ok k" and cfg: "config_ok cfg" and w: "is_float w"
  shows "good_step k (snd (prepare_effect w l i n v k))" "good_step k (snd (claim_effect cfg w l i k))"
    "good_step k (snd (commit_effect w i v l c k))" "good_step k (snd (mark_effect_indeterminate w i v l c k))"
    "good_step k (snd (resolve_effect cfg w i d v m r k))"
proof -
  have "good_step k (snd (transaction w (prepare_effect_body l i n v) k))"
    by (intro transaction_runs[OF k w] body_sound body_later)
  then show "good_step k (snd (prepare_effect w l i n v k))"
    unfolding prepare_effect_def by (auto split: prod.splits sum.splits option.splits)
  show "good_step k (snd (claim_effect cfg w l i k))"
    unfolding claim_effect_def
    by (intro good_if good_same k transaction_good[OF k w])
      (use claim_effect_ok runsD[OF later_claim_effect] in blast)
  show "good_step k (snd (commit_effect w i v l c k))"
    unfolding commit_effect_def
    by (rule transaction_good[OF k w]) (use commit_effect_ok runsD[OF later_commit_effect] in blast)
  show "good_step k (snd (mark_effect_indeterminate w i v l c k))"
    unfolding mark_effect_indeterminate_def
    by (rule transaction_good[OF k w]) (use mark_effect_ok runsD[OF later_mark_effect] in blast)
  show "good_step k (snd (resolve_effect cfg w i d v m r k))"
    unfolding resolve_effect_def by (intro good_if good_same k transaction_runs[OF k w] body_sound body_later cfg)
qed

lemma good_endings:
  assumes k: "kernel_ok k" and cfg: "config_ok cfg" and w: "is_float w"
  shows "result_ok q \<Longrightarrow> good_step k (snd (complete_result cfg w l q s v k))"
    "good_step k (snd (require_effect_recovery w l i s k))"
    "good_step k (snd (dead_letter cfg w l e k))" "good_step k (snd (cancel cfg w i lo r n k))"
proof -
  show "result_ok q \<Longrightarrow> good_step k (snd (complete_result cfg w l q s v k))"
    unfolding complete_result_def by (intro transaction_runs[OF k w] body_sound body_later cfg)
  show "good_step k (snd (require_effect_recovery w l i s k))"
    unfolding require_effect_recovery_def by (intro good_if good_same k transaction_runs[OF k w] body_sound body_later)
  show "good_step k (snd (dead_letter cfg w l e k))"
    unfolding dead_letter_def by (intro good_if good_same k transaction_runs[OF k w] body_sound body_later cfg)
  have "good_step k (snd (transaction w (cancel_body cfg i lo r n) k))"
    by (intro transaction_runs[OF k w] body_sound body_later cfg)
  then show "good_step k (snd (cancel cfg w i lo r n k))"
    unfolding cancel_def using good_step_refl[OF k] by (auto split: prod.splits sum.splits)
qed

lemma good_outbox:
  assumes k: "kernel_ok k" and w: "is_float w"
  shows "good_step k (snd (claim_outbox cfg w own d k))" "good_step k (snd (ack_outbox w i lid n k))"
    "good_step k (snd (renew_outbox cfg w i lid n d k))"
    "error_ok e \<Longrightarrow> good_step k (snd (release_outbox w i e lid n dl k))"
    "good_step k (snd (retry_result_outbox w i n k))" "good_step k (snd (reap_outbox w k))"
proof -
  have c: "at_time ts t \<and> later k1 t" if "at_time ts k1" "claim_outbox_body cfg own d' ts k1 = Inr (a, t)" for ts k1 d' a t
    using that soundD[OF claim_outbox_sound] later_claim_outbox_body by blast
  show "good_step k (snd (claim_outbox cfg w own d k))"
    unfolding claim_outbox_def by (intro good_if good_sum good_same k transaction_good[OF k w] c)
  show "good_step k (snd (ack_outbox w i lid n k))" "good_step k (snd (renew_outbox cfg w i lid n d k))"
    "error_ok e \<Longrightarrow> good_step k (snd (release_outbox w i e lid n dl k))" "good_step k (snd (retry_result_outbox w i n k))"
    unfolding ack_outbox_def renew_outbox_def release_outbox_def retry_result_outbox_def
    by (intro good_if good_sum good_same k transaction_runs[OF k w] body_sound body_later; assumption)+
  show "good_step k (snd (reap_outbox w k))"
    unfolding reap_outbox_def
    by (intro transaction_runs[OF k w] sound.rules later.rules reap_outbox_in_transaction_sound later_reap_outbox
        sound_load_outbox later_load_outbox)
qed

lemma perform_good:
  assumes "kernel_ok k" and "config_ok cfg" and "is_float w" and "call_ok c"
  shows "good_step k (perform cfg w c k)"
  using assms
  by (cases c) (simp_all add: good_submissions good_claims good_leases good_effects good_endings good_outbox)

end
