(* ===== verification/Histories.thy ===== *)
theory Histories
  imports Operations
begin

text \<open>
  Histories of a store: any sequence of calls, each with the clock reading it sees, successful
  or not. \<open>reachable\<close> is the stores a new database comes to. What a step guarantees holds of
  histories, and the trail of the log makes an ended execution final.
\<close>

inductive history :: "config \<Rightarrow> kernel \<Rightarrow> kernel \<Rightarrow> bool" for cfg where
  history_none: "history cfg k k"
| history_call: "history cfg k t \<Longrightarrow> is_float w \<Longrightarrow> call_ok c \<Longrightarrow> history cfg k (perform cfg w c t)"

inductive_cases history_last: "history cfg k t"

abbreviation reachable :: "config \<Rightarrow> kernel \<Rightarrow> bool" where
  "reachable cfg \<equiv> history cfg empty_kernel"

lemma history_trans: "history cfg k t \<Longrightarrow> history cfg t u \<Longrightarrow> history cfg k u"
  by (rotate_tac 1, induction rule: history.induct) (auto intro: history.intros)

lemma good_step_trans: "good_step k t \<Longrightarrow> good_step t u \<Longrightarrow> good_step k u"
  unfolding good_step_def using later_trans by fastforce

lemma history_good: "history cfg k t \<Longrightarrow> kernel_ok k \<Longrightarrow> config_ok cfg \<Longrightarrow> good_step k t"
proof (induction rule: history.induct)
  case (history_call k t w c)
  then have "good_step k t" by simp
  moreover from this have "good_step t (perform cfg w c t)"
    using perform_good history_call by (simp add: good_step_def)
  ultimately show ?case by (rule good_step_trans)
qed (simp add: good_step_refl)

lemma reachable_ok: "reachable cfg k \<Longrightarrow> config_ok cfg \<Longrightarrow> kernel_ok k"
  using history_good[OF _ empty_kernel_ok] by (simp add: good_step_def)

lemma history_ok: "history cfg k t \<Longrightarrow> kernel_ok k \<Longrightarrow> config_ok cfg \<Longrightarrow> kernel_ok t"
  using history_good by (simp add: good_step_def)

lemma history_later: "history cfg k t \<Longrightarrow> kernel_ok k \<Longrightarrow> config_ok cfg \<Longrightarrow> later k t"
  using history_good by (simp add: good_step_def)

lemma laterD:
  assumes "later k t"
  shows "prefix (events k) (events t)"
    and "r \<in> set (execs k) \<Longrightarrow> \<exists>r' \<in> set (execs t). exec_later r r'"
    and "e \<in> set (effects k) \<Longrightarrow> \<exists>e' \<in> set (effects t). effect_later e e'"
    and "p \<in> set (outbox k) \<Longrightarrow> \<exists>q \<in> set (outbox t). outbox_later p q"
  using assms by (auto simp: later_def execs_later_def rest_later_def)

subsection \<open>Rows of well-formed stores\<close>

lemma kernel_row: "kernel_ok k \<Longrightarrow> r \<in> set (execs k) \<Longrightarrow> row_ok r"
  and kernel_find: "kernel_ok k \<Longrightarrow> find_exec i k = Some r \<longleftrightarrow> r \<in> set (execs k) \<and> x_id r = i"
  and kernel_row_unique: "kernel_ok k \<Longrightarrow> r \<in> set (execs k) \<Longrightarrow> q \<in> set (execs k) \<Longrightarrow> x_id r = x_id q \<Longrightarrow> r = q"
  by (auto simp: kernel_ok_def execs_ok_def exec_table.find_row_iff dest: exec_table.key_inj)

lemma kernel_trail: "kernel_ok k \<Longrightarrow> r \<in> set (execs k) \<Longrightarrow> trail (events_for (x_id r) (events k)) (x_revision r) (x_state r)"
  by (simp add: kernel_ok_def log_ok_def)

lemma kernel_find_effect: "kernel_ok k \<Longrightarrow> find_effect i k = Some e \<longleftrightarrow> e \<in> set (effects k) \<and> e_effect_id e = i"
  and kernel_find_outbox: "kernel_ok k \<Longrightarrow> find_outbox i k = Some q \<longleftrightarrow> q \<in> set (outbox k) \<and> o_result_id q = i"
  by (auto simp: kernel_ok_def effects_ok_def outbox_ok_def effect_table.find_row_iff outbox_table.find_row_iff)

text \<open>The row of an execution later in its history.\<close>

lemma history_row:
  assumes "history cfg k t" and "kernel_ok k" and "config_ok cfg" and "find_exec i k = Some r"
  obtains r' where "find_exec i t = Some r'" and "exec_later r r'" and "row_ok r'"
proof -
  have ok: "kernel_ok t" by (rule history_ok[OF assms(1-3)])
  have r: "r \<in> set (execs k)" "x_id r = i" using assms(2,4) by (auto simp: kernel_find)
  obtain r' where r': "r' \<in> set (execs t)" "exec_later r r'"
    using laterD(2)[OF history_later[OF assms(1-3)] r(1)] by blast
  moreover have "x_id r' = i" using r' r(2) by (auto simp: exec_later_def)
  ultimately show ?thesis using that ok by (simp add: kernel_find kernel_row)
qed

subsection \<open>A trail ends with its terminal state\<close>

lemma trail_nonempty: "trail vs n s \<Longrightarrow> vs \<noteq> []"
  by (induction rule: trail.induct) auto

lemma trail_last: "trail vs n s \<Longrightarrow> ev_to_state (last vs) = xname s"
  by (induction rule: trail.induct) auto

lemma trail_length: "trail vs n s \<Longrightarrow> int (length vs) = n"
  by (induction rule: trail.induct) auto

lemma trail_state_unique: "trail vs n s \<Longrightarrow> trail vs m t \<Longrightarrow> s = t \<and> n = m"
  by (metis trail_last trail_length xname_inject)

lemma trail_terminal_last:
  assumes "trail us m t" and "us = vs @ ws" and "trail vs n s" and "terminal s"
  shows "ws = []"
  using assms
proof (induction arbitrary: ws rule: trail.induct)
  case (trail_first v)
  then show ?case using trail_nonempty[of vs] by (cases vs) auto
next
  case (trail_next vs0 n0 s0 t0 v)
  show ?case
  proof (rule ccontr)
    assume "ws \<noteq> []"
    then obtain ws' where ws: "ws = ws' @ [v]" "vs0 = vs @ ws'"
      using trail_next.prems(1) by (cases ws rule: rev_cases) auto
    have "ws' = []" using trail_next.IH[OF ws(2)] trail_next.prems by simp
    then have "s0 = s" using trail_state_unique trail_next ws by fastforce
    then show False using trail_next.hyps(2) trail_next.prems(3) by (auto simp: step_allowed_def terminal_iff)
  qed
qed

lemma prefix_events_for: "prefix vs ws \<Longrightarrow> prefix (events_for i vs) (events_for i ws)"
  by (auto simp: prefix_def events_for_def)

lemma ended_unchanged:
  assumes k: "kernel_ok k" and t: "kernel_ok t" and l: "later k t" and r: "r \<in> set (execs k)" "terminal (x_state r)"
  shows "r \<in> set (execs t)"
proof -
  obtain r' where r': "r' \<in> set (execs t)" "exec_later r r'" using laterD(2)[OF l r(1)] by blast
  have id: "x_id r' = x_id r" using r'(2) by (auto simp: exec_later_def)
  obtain ws where ws: "events_for (x_id r) (events t) = events_for (x_id r) (events k) @ ws"
    using prefix_events_for[OF laterD(1)[OF l]] by (auto simp: prefix_def)
  have tr: "trail (events_for (x_id r) (events k)) (x_revision r) (x_state r)"
    "trail (events_for (x_id r) (events t)) (x_revision r') (x_state r')"
    using kernel_trail[OF k r(1)] kernel_trail[OF t r'(1)] id by simp_all
  then have "ws = []" using trail_terminal_last[OF tr(2) ws tr(1) r(2)] by simp
  then have "x_revision r' = x_revision r" using tr ws by (metis append_Nil2 trail_state_unique)
  then have "r' = r" using r'(2) by (auto simp: exec_later_def)
  then show ?thesis using r'(1) by simp
qed

subsection \<open>Leases of the past\<close>

text \<open>A lease whose fence has been passed fails every check.\<close>

lemma stale_fence_rejected:
  assumes "find_exec (l_execution_id l) k = Some r" and "l_fence l < x_fence r"
  shows "\<exists>e. assert_lease l ts sts st k = Inl e"
proof (cases "assert_lease l ts sts st k")
  case (Inr p)
  then show ?thesis using assms by (cases p) (auto simp: assert_lease_Inr lease_matches_def)
qed simp

text \<open>Transactions whose body begins with the check of a lease fail as it does.\<close>

lemma transaction_Inl:
  assumes "\<And>ts k'. advance_clock w k = Inr (ts, k') \<Longrightarrow> \<exists>e. body ts k' = Inl e"
  shows "\<exists>e. fst (transaction w body k) = Inl e"
  using assms by (auto simp: transaction_def split: sum.splits prod.splits)

lemma transaction_Inr:
  "transaction w body k = (Inr a, t) \<Longrightarrow>
   \<exists>ts. ts = max (watermark k) w \<and> 0 \<le> w \<and> body ts (k\<lparr>watermark := ts\<rparr>) = Inr (a, t)"
  by (auto simp: transaction_def advance_clock_Inr split: sum.splits prod.splits)

lemma transaction_at_time:
  assumes run: "transaction w body k = (Inr a, t)" and k: "kernel_ok k" and w: "is_float w"
  obtains ts where "body ts (k\<lparr>watermark := ts\<rparr>) = Inr (a, t)" and "at_time ts (k\<lparr>watermark := ts\<rparr>)"
    and "watermark k \<le> ts" and "ts = max (watermark k) w"
proof -
  obtain ts where ts: "ts = max (watermark k) w" "body ts (k\<lparr>watermark := ts\<rparr>) = Inr (a, t)"
    using transaction_Inr[OF run] by blast
  have "is_float ts" using k w ts(1) by (auto simp: kernel_ok_def max_def)
  then show ?thesis using that[OF ts(2)] kernel_ok_later[OF k, of ts] ts(1) by simp
qed

lemma find_exec_watermark [simp]: "find_exec i (k\<lparr>watermark := ts\<rparr>) = find_exec i k"
  and find_effect_watermark [simp]: "find_effect i (k\<lparr>watermark := ts\<rparr>) = find_effect i k"
  and find_outbox_watermark [simp]: "find_outbox i (k\<lparr>watermark := ts\<rparr>) = find_outbox i k"
  by (simp_all add: find_exec_def find_effect_def find_outbox_def)

end
