(* ===== verification/Example.thy ===== *)
theory Example
  imports Histories
begin

text \<open>
  A concrete run of the kernel, evaluated by the simplifier: one command is submitted, claimed
  and started, records an effect, commits it, completes, and its result is delivered and
  acknowledged. The witnesses of the properties apply them on this run.
\<close>

subsection \<open>Equations for evaluation\<close>

text \<open>
  The same functions, computed over integers and binary exponents instead of unary naturals
  and \<open>2 ^ 1024\<close>.
\<close>

lemma less_float_limit: "y \<noteq> 0 \<Longrightarrow> \<bar>y\<bar> < 2 ^ 1024 \<longleftrightarrow> flog2 \<bar>y\<bar> < 1024" for y :: rat
proof -
  assume "y \<noteq> 0"
  then have "0 < \<bar>y\<bar>" by simp
  note b = flog2_bounds[OF this]
  have p: "(2::rat) ^ 1024 = 2 powi 1024" by (simp add: power_int_def)
  show ?thesis unfolding p
  proof
    assume "\<bar>y\<bar> < 2 powi 1024"
    then have "(2::rat) powi flog2 \<bar>y\<bar> < 2 powi 1024" using b(1) by linarith
    then show "flog2 \<bar>y\<bar> < 1024" by (rule powi_inj_le)
  next
    assume "flog2 \<bar>y\<bar> < 1024"
    then have "(2::rat) powi (flog2 \<bar>y\<bar> + 1) \<le> 2 powi 1024" by (intro powi_mono) simp
    then show "\<bar>y\<bar> < 2 powi 1024" using b(2) by linarith
  qed
qed

lemma fround_code [code]:
  "fround x = (let y = fround_val x in if y = 0 \<or> flog2 \<bar>y\<bar> < 1024 then Some y else None)"
proof (cases "fround_val x = 0")
  case False
  then show ?thesis by (simp only: fround_alt Let_def less_float_limit[OF False]) simp
qed (simp add: fround_alt)

lemma int_le_numeral: "int n \<le> numeral w \<longleftrightarrow> n \<le> numeral w"
  by simp

lemma reapable_rows_code [code]:
  "reapable_rows ts k =
     (let rs = sql_select (\<lambda>r. lease_expired ts r \<and> \<not> unresolved_obligation k r) exec_order (execs k) in
      if int (length rs) \<le> 256 then rs else take (nat 256) rs)"
  by (simp add: reapable_rows_def Let_def)

lemma scan_within_bounds_code [code]:
  "scan_within_bounds revisions excluded =
     (let vs = (case revisions of None \<Rightarrow> [] | Some rs \<Rightarrow> rs) @ excluded in
      int (length vs) \<le> 1024 \<and> list_all (\<lambda>v. int (length v) \<le> 4096) vs \<and>
      int (sum_list (List.map utf8_length vs)) \<le> 65536 \<and> int (predicate_length revisions) \<le> 65536)"
  unfolding scan_within_bounds_def Let_def int_le_numeral by (rule refl)

subsection \<open>The run\<close>

definition example_config :: config where
  "example_config = \<lparr>default_lease_seconds = 60, outbox_max_attempts = 3,
     hex = (\<lambda>n. CHR ''a'' # replicate n CHR ''b''), pow = exact_pow\<rparr>"

definition example_lease :: lease where
  "example_lease = \<lparr>l_execution_id = ''e1'', l_lease_id = ''a'', l_owner = ''w'', l_fence = 1, l_attempt = 1,
     l_expires_at = 62, l_revision = 3\<rparr>"

definition example_result :: exec_result where
  "example_result = \<lparr>r_result_id = ''q1'', r_execution_id = ''e1'', r_status = Succeeded, r_attempt = 1,
     r_fence = 1, r_effect_ids = [''f1''], r_started_at = 2, r_completed_at = 6, r_correlation_id = ''run'',
     r_causation_id = None, r_value = PInt 7, r_error = None\<rparr>"


definition example_row :: exec_row where
  "example_row = (queued_row sample_command 1)
     \<lparr>x_state := Running, x_attempt := 1, x_lease_id := Some ''a'', x_lease_owner := Some ''w'', x_fence := 1,
      x_lease_expires := Some 62, x_started := Some 2, x_revision := 3, x_updated := 2\<rparr>"

definition example_ended_row :: exec_row where
  "example_ended_row = example_row
     \<lparr>x_state := Succeeded, x_lease_id := None, x_lease_owner := None, x_lease_expires := None,
      x_result := Some example_result, x_revision := 4, x_updated := 6\<rparr>"

definition example_event :: "int \<Rightarrow> string \<Rightarrow> string option \<Rightarrow> string \<Rightarrow> pyval \<Rightarrow> rat \<Rightarrow> event" where
  "example_event n ty fs tos dat ts =
     \<lparr>ev_sequence = n, ev_event_id = numbered ''e1'' n, ev_execution_id = ''e1'', ev_revision = n, ev_type = ty,
      ev_from_state = fs, ev_to_state = tos, ev_data = canon dat, ev_created_at = ts\<rparr>"

definition example_events :: "event list" where
  "example_events =
     [example_event 1 ''submitted'' None ''queued'' (event_data_command sample_command) 1,
      example_event 2 ''leased'' (Some ''queued'') ''leased'' (leased_data ''w'' 1 1) 2,
      example_event 3 ''started'' (Some ''leased'') ''running'' (py_dict [(''attempt'', PInt 1), (''fence'', PInt 1)]) 2]"

definition claimed_kernel :: kernel where
  "claimed_kernel = empty_kernel
     \<lparr>watermark := 2, event_sequence := 3, execs := [example_row], events := example_events, uuids := 1\<rparr>"

definition example_effect :: effect_record where
  "example_effect = (candidate_effect example_lease ''f1'' ''send'' (PInt 5) 3)
     \<lparr>e_state := Performing, e_claim_id := Some ''ab'', e_revision := 2\<rparr>"

definition example_committed :: effect_record where
  "example_committed = example_effect
     \<lparr>e_state := Committed, e_response := PInt 9, e_committed_at := Some 5, e_revision := 3\<rparr>"

definition example_effect_event :: "int \<Rightarrow> string \<Rightarrow> string option \<Rightarrow> string \<Rightarrow> (string \<times> pyval) list \<Rightarrow> rat \<Rightarrow> effect_event" where
  "example_effect_event n ty fs tos dat ts =
     \<lparr>ee_event_id = numbered ''f1'' n, ee_effect_id = ''f1'', ee_execution_id = ''e1'', ee_revision = n,
      ee_type = ty, ee_from_state = fs, ee_to_state = tos, ee_data = canon (py_dict dat), ee_created_at = ts\<rparr>"

definition performing_kernel :: kernel where
  "performing_kernel = claimed_kernel
     \<lparr>watermark := 4, effects := [example_effect], uuids := 2,
      effect_events :=
        [example_effect_event 1 ''prepared'' None ''prepared'' (attempt_data example_lease) 3,
         example_effect_event 2 ''perform_claimed'' (Some ''prepared'') ''performing''
           ((''claim_id'', PStr ''ab'') # attempt_data example_lease) 4]\<rparr>"

definition committed_kernel :: kernel where
  "committed_kernel = performing_kernel
     \<lparr>watermark := 5, effects := [example_committed],
      effect_events := effect_events performing_kernel @
        [example_effect_event 3 ''committed'' (Some ''performing'') ''committed'' [(''claim_id'', PStr ''ab'')] 5]\<rparr>"

definition example_delivery :: outbox_row where
  "example_delivery =
     \<lparr>o_result_id = ''q1'', o_execution_id = ''e1'', o_result = example_result, o_state = Pending,
      o_lease_id = None, o_lease_owner = None, o_fence = 0, o_attempts = 0, o_max_attempts = 3,
      o_lease_expires = None, o_next_at = 6, o_last_error = None, o_revision = 1, o_created = 6, o_updated = 6\<rparr>"

definition ended_kernel :: kernel where
  "ended_kernel = committed_kernel
     \<lparr>watermark := 6, event_sequence := 4, execs := [example_ended_row],
      events := example_events @ [example_event 4 ''succeeded'' (Some ''running'') ''succeeded''
        (py_dict [(''result'', result_to_dict example_result)]) 6],
      outbox := [example_delivery]\<rparr>"

definition example_delivered :: outbox_row where
  "example_delivered = example_delivery
     \<lparr>o_state := Delivered, o_lease_id := Some ''abb'', o_lease_owner := Some ''d'', o_fence := 1,
      o_attempts := 1, o_revision := 3, o_updated := 8\<rparr>"

definition delivered_kernel :: kernel where
  "delivered_kernel = ended_kernel\<lparr>watermark := 8, outbox := [example_delivered], uuids := 3\<rparr>"

definition example_claim :: call where
  "example_claim = Op_claim_and_start ''w'' None (PInt 1) None None None []"

lemma claimed_step:
  "perform example_config 2 example_claim (perform example_config 1 (Op_submit sample_command) empty_kernel) = claimed_kernel"
  by code_simp

lemma performing_step:
  "perform example_config 4 (Op_claim_effect example_lease ''f1'')
     (perform example_config 3 (Op_prepare_effect example_lease ''f1'' ''send'' (PInt 5)) claimed_kernel) = performing_kernel"
  by code_simp

lemma committed_step:
  "perform example_config 5 (Op_commit_effect ''f1'' (PInt 9) example_lease ''ab'') performing_kernel = committed_kernel"
  by code_simp

lemma ended_step:
  "perform example_config 6 (Op_complete example_lease example_result True Supervisor_Unknown) committed_kernel = ended_kernel"
  by code_simp

lemma delivered_step:
  "perform example_config 8 (Op_ack_outbox ''q1'' ''abb'' 1)
     (perform example_config 7 (Op_claim_outbox ''d'' None) ended_kernel) = delivered_kernel"
  by code_simp

subsection \<open>It is a history\<close>

lemma example_config_ok: "config_ok example_config"
  using is_float_of_int[of 60] by (simp add: config_ok_def example_config_def)

lemma example_result_ok: "result_ok example_result"
  by code_simp

lemma example_times: "is_float 1" "is_float 2" "is_float 3" "is_float 4" "is_float 5" "is_float 6" "is_float 7" "is_float 8" "is_float 9"
  using is_float_of_int[of 1] is_float_of_int[of 2] is_float_of_int[of 3] is_float_of_int[of 4] is_float_of_int[of 5]
    is_float_of_int[of 6] is_float_of_int[of 7] is_float_of_int[of 8] is_float_of_int[of 9] by simp_all

lemmas example_calls = history_call[OF _ example_times(1)] history_call[OF _ example_times(2)]
  history_call[OF _ example_times(3)] history_call[OF _ example_times(4)] history_call[OF _ example_times(5)]
  history_call[OF _ example_times(6)] history_call[OF _ example_times(7)] history_call[OF _ example_times(8)]
  history_call[OF _ example_times(9)]

lemma reachable_claimed: "reachable example_config claimed_kernel"
  unfolding claimed_step[symmetric] example_claim_def
  by (intro example_calls history_none) (simp_all add: sample_command_ok)

lemma claimed_to_performing: "history example_config claimed_kernel performing_kernel"
  unfolding performing_step[symmetric] by (intro example_calls history_none) simp_all

lemma performing_to_committed: "history example_config performing_kernel committed_kernel"
  unfolding committed_step[symmetric] by (intro example_calls history_none) simp_all

lemma committed_to_ended: "history example_config committed_kernel ended_kernel"
  unfolding ended_step[symmetric] by (intro example_calls history_none) (simp_all add: example_result_ok)

lemma ended_to_delivered: "history example_config ended_kernel delivered_kernel"
  unfolding delivered_step[symmetric] by (intro example_calls history_none) simp_all

lemmas example_histories = reachable_claimed
  history_trans[OF reachable_claimed claimed_to_performing]
  history_trans[OF history_trans[OF reachable_claimed claimed_to_performing] performing_to_committed]
  history_trans[OF history_trans[OF history_trans[OF reachable_claimed claimed_to_performing] performing_to_committed]
    committed_to_ended]

lemmas example_kernels_ok = example_histories[THEN reachable_ok[OF _ example_config_ok]]

end
