(* ===== verification/Safety.thy ===== *)
theory Safety
  imports Example
begin

text \<open>
  What every history of the kernel keeps: well-formed rows, a numbered log that traces the state
  machine, effects owned by the attempt that performs them, one delivery per ended execution,
  and the finality of what has ended, committed or been delivered.
\<close>

lemma example_row_in: "example_row \<in> set (execs claimed_kernel)"
  by (simp add: claimed_kernel_def)

lemma example_ended_in: "example_ended_row \<in> set (execs ended_kernel)"
  by (simp add: ended_kernel_def)

text \<open>
  C3. Whatever calls a client makes, in whatever order and with whatever clock readings, the
  database satisfies its invariant.
\<close>
theorem reachable_invariant:
  assumes "reachable cfg k" and "config_ok cfg"
  shows "kernel_ok k"
  using reachable_ok[OF assms] .

theorem reachable_invariant_witness: "kernel_ok ended_kernel"
  by (rule reachable_invariant[OF example_histories(4) example_config_ok])

text \<open>
  C4. Every row of a reachable database is read without an error as a snapshot its contract
  accepts.
\<close>
theorem rows_read:
  assumes "reachable cfg k" and "config_ok cfg" and "find_exec i k = Some r"
  shows "\<exists>s. get_snapshot i k = Inr (s, k) \<and> snapshot_wf s \<and> s_execution_id s = i \<and> s_state s = x_state r"
proof -
  have k: "kernel_ok k" by (rule reachable_ok[OF assms(1,2)])
  have r: "row_ok r" "x_id r = i" using assms(3) kernel_row[OF k] by (auto simp: kernel_find[OF k])
  obtain l where "snapshot r = Inr (row_snapshot r l)" "snapshot_wf (row_snapshot r l)"
    by (rule row_ok_snapshot[OF r(1)])
  then show ?thesis using assms(3) r(2) by (intro exI[of _ "row_snapshot r l"]) (simp add: get_snapshot_Inr, simp add: row_snapshot_def)
qed

theorem rows_read_witness:
  "\<exists>s. get_snapshot ''e1'' ended_kernel = Inr (s, ended_kernel) \<and> snapshot_wf s \<and> s_execution_id s = ''e1'' \<and> s_state s = Succeeded"
proof -
  have "find_exec ''e1'' ended_kernel = Some example_ended_row" by code_simp
  moreover have "x_state example_ended_row = Succeeded" by (simp add: example_ended_row_def)
  ultimately show ?thesis using rows_read[OF example_histories(4) example_config_ok] by metis
qed

text \<open>Pairs are distinct when, for each first component, the second ones are.\<close>

lemma distinct_by_groups:
  "(\<And>i. distinct (List.map f (filter (\<lambda>v. g v = i) vs))) \<Longrightarrow> distinct (List.map (\<lambda>v. (g v, f v)) vs)"
proof (induction vs)
  case (Cons v vs)
  have "distinct (List.map f (filter (\<lambda>w. g w = i) vs))" for i
    using Cons.prems[of i] by (auto split: if_splits)
  moreover have "f v \<notin> f ` set (filter (\<lambda>w. g w = g v) vs)" using Cons.prems[of "g v"] by auto
  ultimately show ?case using Cons.IH by auto
qed simp

lemma events_for_none: "kernel_ok k \<Longrightarrow> i \<notin> x_id ` set (execs k) \<Longrightarrow> events_for i (events k) = []"
  by (auto simp: kernel_ok_def log_ok_def events_for_def filter_empty_conv)

lemma events_distinct:
  assumes "kernel_ok k"
  shows "distinct (List.map ev_event_id (events k))"
proof -
  have "distinct (List.map ev_revision (events_for i (events k)))" for i
  proof (cases "i \<in> x_id ` set (execs k)")
    case True
    then obtain r where "r \<in> set (execs k)" "x_id r = i" by auto
    then show ?thesis using trail_revisions[OF kernel_trail[OF assms]] by fastforce
  qed (simp add: events_for_none[OF assms])
  then have "distinct (List.map (\<lambda>v. (ev_execution_id v, ev_revision v)) (events k))"
    unfolding events_for_def by (rule distinct_by_groups)
  then have inj: "inj_on (\<lambda>v. (ev_execution_id v, ev_revision v)) (set (events k))" "distinct (events k)"
    by (auto simp: distinct_map)
  moreover have "inj_on ev_event_id (set (events k))"
  proof (rule inj_onI)
    fix v w assume vw: "v \<in> set (events k)" "w \<in> set (events k)" "ev_event_id v = ev_event_id w"
    then have "numbered (ev_execution_id v) (ev_revision v) = numbered (ev_execution_id w) (ev_revision w)"
      using assms unfolding kernel_ok_def log_ok_def by metis
    moreover have "1 \<le> ev_revision v" "1 \<le> ev_revision w"
      using assms vw(1,2) by (auto simp: kernel_ok_def log_ok_def event_ok_def)
    ultimately have "ev_execution_id v = ev_execution_id w \<and> ev_revision v = ev_revision w"
      by (intro numbered_inject) auto
    then show "v = w" using inj(1) vw(1,2) by (auto simp: inj_on_def)
  qed
  ultimately show ?thesis by (simp add: distinct_map)
qed

text \<open>
  C5. The event log of a reachable database is numbered 1, 2, ... without a gap, no event
  identifier repeats, and the events of each execution are its revisions in order, from the
  submission to its present state, each step allowed by the transition matrix or a renewal.
\<close>
theorem log_is_history:
  assumes "reachable cfg k" and "config_ok cfg" and "find_exec i k = Some r"
  shows "List.map ev_sequence (events k) = [1..event_sequence k] \<and> distinct (List.map ev_event_id (events k)) \<and>
    trail (events_for i (events k)) (x_revision r) (x_state r) \<and>
    List.map ev_revision (events_for i (events k)) = [1..x_revision r]"
proof -
  have k: "kernel_ok k" by (rule reachable_ok[OF assms(1,2)])
  have "trail (events_for i (events k)) (x_revision r) (x_state r)"
    using kernel_trail[OF k] assms(3) by (auto simp: kernel_find[OF k])
  then show ?thesis
    using k trail_revisions events_distinct[OF k] by (auto simp: kernel_ok_def log_ok_def)
qed

theorem log_is_history_witness:
  "List.map ev_sequence (events ended_kernel) = [1, 2, 3, 4] \<and> trail (events_for ''e1'' (events ended_kernel)) 4 Succeeded"
proof -
  have "find_exec ''e1'' ended_kernel = Some example_ended_row" by code_simp
  moreover have "x_state example_ended_row = Succeeded" "x_revision example_ended_row = 4" "event_sequence ended_kernel = 4"
    by (simp_all add: example_ended_row_def ended_kernel_def)
  moreover have "[1..4::int] = [1, 2, 3, 4]" by (simp add: upto.simps)
  ultimately show ?thesis using log_is_history[OF example_histories(4) example_config_ok] by metis
qed

text \<open>
  C6. History only grows: the logical clock never runs back, the event log is only appended to,
  and every execution, effect and delivery is still there, as it was or at a later revision,
  with its identity, its command or request, and a fence that has not decreased.
\<close>
theorem history_only_grows:
  assumes "history cfg k t" and "kernel_ok k" and "config_ok cfg"
  shows "watermark k \<le> watermark t \<and> prefix (events k) (events t) \<and>
    (\<forall>r \<in> set (execs k). \<exists>r' \<in> set (execs t). exec_later r r') \<and>
    (\<forall>e \<in> set (effects k). \<exists>e' \<in> set (effects t). effect_later e e') \<and>
    (\<forall>p \<in> set (outbox k). \<exists>q \<in> set (outbox t). outbox_later p q)"
  using history_good[OF assms] laterD[of k t] by (simp add: good_step_def)

theorem history_only_grows_witness:
  "watermark claimed_kernel \<le> watermark performing_kernel \<and> prefix (events claimed_kernel) (events performing_kernel)"
  using history_only_grows[OF claimed_to_performing example_kernels_ok(1) example_config_ok] by simp

text \<open>
  C7. An execution that has ended never changes again: its row, with its terminal state and its
  result, is the same in every later database.
\<close>
theorem ended_is_final:
  assumes "history cfg k t" and "kernel_ok k" and "config_ok cfg"
    and "find_exec i k = Some r" and "terminal (x_state r)"
  shows "find_exec i t = Some r"
proof -
  have t: "kernel_ok t" by (rule history_ok[OF assms(1-3)])
  have "r \<in> set (execs k)" "x_id r = i" using assms(4) by (auto simp: kernel_find[OF assms(2)])
  then show ?thesis
    using ended_unchanged[OF assms(2) t history_later[OF assms(1-3)] _ assms(5)] by (simp add: kernel_find[OF t])
qed

theorem ended_is_final_witness: "find_exec ''e1'' delivered_kernel = Some example_ended_row"
proof (rule ended_is_final[OF ended_to_delivered example_kernels_ok(4) example_config_ok])
  show "find_exec ''e1'' ended_kernel = Some example_ended_row" by code_simp
qed (simp add: example_ended_row_def)

lemma distinct_filter_one: "distinct (List.map f xs) \<Longrightarrow> length (List.filter (\<lambda>x. f x = i) xs) \<le> 1"
proof (induction xs)
  case (Cons x xs)
  have "List.filter (\<lambda>y. f y = f x) xs = []"
    unfolding filter_empty_conv using Cons.prems by (metis distinct.simps(2) image_eqI list.simps(9) set_map)
  then show ?case using Cons by (cases "f x = i") auto
qed simp

text \<open>
  C8. An execution of a reachable database has ended exactly when there is a delivery for it
  in the outbox; there is only one, and it carries the result the execution ended with.
\<close>
theorem ended_iff_delivery:
  assumes "reachable cfg k" and "config_ok cfg" and "find_exec i k = Some r"
  shows "(terminal (x_state r) \<longleftrightarrow> (\<exists>q. List.filter (\<lambda>q. o_execution_id q = i) (outbox k) = [q])) \<and>
    (\<not> terminal (x_state r) \<longleftrightarrow> List.filter (\<lambda>q. o_execution_id q = i) (outbox k) = []) \<and>
    (\<forall>q \<in> set (outbox k). o_execution_id q = i \<longrightarrow> x_result r = Some (o_result q) \<and> r_status (o_result q) = x_state r)"
proof -
  have k: "kernel_ok k" by (rule reachable_ok[OF assms(1,2)])
  have r: "r \<in> set (execs k)" "x_id r = i" using assms(3) by (auto simp: kernel_find[OF k])
  have ob: "outbox_ok k" "delivered_ok k" using k by (simp_all add: kernel_ok_def)
  have res: "x_result r = Some (o_result q)" if q: "q \<in> set (outbox k)" "o_execution_id q = i" for q
  proof -
    obtain x where x: "x \<in> set (execs k)" "x_id x = o_execution_id q" "x_result x = Some (o_result q)"
      using ob(1) q(1) unfolding outbox_ok_def by blast
    then show ?thesis using kernel_row_unique[OF k x(1) r(1)] q(2) r(2) by simp
  qed
  have row: "row_result_ok r" using kernel_row[OF k r(1)] by (simp add: row_ok_def)
  have some: "\<exists>q \<in> set (outbox k). o_execution_id q = i" if "terminal (x_state r)"
    using ob(2) that r unfolding delivered_ok_def by force
  have ended: "terminal (x_state r)" if "q \<in> set (outbox k)" "o_execution_id q = i" for q
    using res[OF that] row by (simp add: row_result_ok_def)
  have "distinct (List.map o_execution_id (outbox k))" using k by (simp add: kernel_ok_def outbox_ok_def)
  let ?l = "List.filter (\<lambda>q. o_execution_id q = i) (outbox k)"
  have "length ?l \<le> 1" using \<open>distinct _\<close> by (rule distinct_filter_one)
  then have one: "(\<exists>q. ?l = [q]) \<longleftrightarrow> (\<exists>q \<in> set (outbox k). o_execution_id q = i)"
  proof (cases ?l)
    case (Cons p ps)
    then have "?l = [p]" using \<open>length ?l \<le> 1\<close> by simp
    moreover have "p \<in> set ?l" using Cons by simp
    then have "p \<in> set (outbox k)" "o_execution_id p = i" by simp_all
    ultimately show ?thesis by blast
  qed (auto simp: filter_empty_conv)
  show ?thesis
    unfolding one filter_empty_conv using some ended res row by (auto simp: row_result_ok_def)
qed

theorem ended_iff_delivery_witness:
  "terminal (x_state example_ended_row) \<and> List.filter (\<lambda>q. o_execution_id q = ''e1'') (outbox ended_kernel) = [example_delivery]"
proof -
  have f: "find_exec ''e1'' ended_kernel = Some example_ended_row" by code_simp
  have t: "terminal (x_state example_ended_row)" by (simp add: example_ended_row_def)
  then obtain q where q: "List.filter (\<lambda>q. o_execution_id q = ''e1'') (outbox ended_kernel) = [q]"
    using ended_iff_delivery[OF example_histories(4) example_config_ok f] by blast
  then have "q \<in> set (outbox ended_kernel)" by (auto simp: filter_eq_Cons_iff)
  then show ?thesis using q t by (simp add: ended_kernel_def)
qed

text \<open>
  C9. The outcome of an external effect is open only while the attempt that prepared it still
  holds its lease, or while its execution is parked for recovery: no queued, leased or ended
  execution, and no later attempt, has an unfinished effect.
\<close>
theorem unfinished_effects_owned:
  assumes "reachable cfg k" and "config_ok cfg" and "find_effect j k = Some e" and "unfinished (e_state e)"
  shows "\<exists>r. find_exec (e_execution_id e) k = Some r \<and> x_attempt r = e_attempt e \<and>
    (x_state r = Running \<and> x_lease_id r = Some (e_lease_id e) \<or>
     x_state r = Recovery_Required \<and> e_state e = Indeterminate)"
proof -
  have k: "kernel_ok k" by (rule reachable_ok[OF assms(1,2)])
  have "e \<in> set (effects k)" using assms(3) by (simp add: kernel_find_effect[OF k])
  then obtain r where "r \<in> set (execs k)" "owns r e" using k by (auto simp: kernel_ok_def effects_ok_def)
  then show ?thesis using assms(4) by (intro exI[of _ r]) (auto simp: owns_def kernel_find[OF k])
qed

theorem unfinished_effects_owned_witness:
  "\<exists>r. find_exec ''e1'' performing_kernel = Some r \<and> x_attempt r = 1 \<and>
    (x_state r = Running \<and> x_lease_id r = Some ''a'' \<or> x_state r = Recovery_Required \<and> e_state example_effect = Indeterminate)"
proof -
  have "find_effect ''f1'' performing_kernel = Some example_effect" by code_simp
  moreover have "unfinished (e_state example_effect)" "e_execution_id example_effect = ''e1''" "e_attempt example_effect = 1"
    "e_lease_id example_effect = ''a''" by code_simp+
  ultimately show ?thesis
    using unfinished_effects_owned[OF example_histories(2) example_config_ok] by metis
qed

text \<open>
  C10. What is settled stays settled: a committed effect keeps its response and a delivered
  result stays delivered, unchanged, in every later database.
\<close>
theorem settled_is_final:
  assumes "history cfg k t" and "kernel_ok k" and "config_ok cfg"
  shows "{e \<in> set (effects k). e_state e = Committed} \<subseteq> set (effects t) \<and>
    {q \<in> set (outbox k). o_state q = Delivered} \<subseteq> set (outbox t)"
  using laterD(3,4)[OF history_later[OF assms]] by (fastforce simp: effect_later_def outbox_later_def)

theorem settled_is_final_witness:
  "example_committed \<in> set (effects ended_kernel)"
proof -
  have "example_committed \<in> {e \<in> set (effects committed_kernel). e_state e = Committed}"
    by (simp add: committed_kernel_def example_committed_def)
  then show ?thesis
    using settled_is_final[OF committed_to_ended example_kernels_ok(3) example_config_ok] by blast
qed

text \<open>
  The counters stay within their bounds: a delivery is attempted at most its maximal number
  of times, under a fence at least that number, and a managed run's claims never exceed its budget.
\<close>
theorem counters_bounded:
  assumes "reachable cfg k" and "config_ok cfg"
  shows "list_all (\<lambda>q. 0 \<le> o_attempts q \<and> o_attempts q \<le> o_max_attempts q \<and> o_attempts q \<le> o_fence q) (outbox k) \<and>
    list_all (\<lambda>c. 0 \<le> rc_claims_used c \<and> rc_claims_used c \<le> rc_max_claims c) (run_controls k)"
  using reachable_ok[OF assms]
  by (auto simp: kernel_ok_def outbox_ok_def outbox_row_ok_def controls_ok_def list_all_iff)

theorem counters_bounded_witness:
  "list_all (\<lambda>q. 0 \<le> o_attempts q \<and> o_attempts q \<le> o_max_attempts q \<and> o_attempts q \<le> o_fence q) (outbox ended_kernel)"
  using counters_bounded[OF example_histories(4) example_config_ok] by simp

end
