(* ===== verification/Workers.thy ===== *)
theory Workers
  imports Safety
begin

text \<open>
  What a worker may rely on: a failed call changes nothing but the clock, a claim takes a fence
  above every earlier lease, a superseded lease is refused for good, and a renewed or started
  lease replaces the one it came from.
\<close>

subsection \<open>Failed calls\<close>



subsection \<open>Claims\<close>

lemma claim_body_grants:
  assumes run: "claim_body cfg owner d rs i ts k = Inr (Some l, t)" and k: "at_time ts k" and cfg: "config_ok cfg"
  obtains row k2 where "later k k2" and "at_time ts k2" and "row \<in> set (execs k2)"
    and "claimable k2 ts rs i [] row" and "claim_row cfg owner d row ts k2 = Inr (l, t)"
proof -
  obtain ids k1 row k2 where rp: "reap_in_transaction cfg ts k = Inr (ids, k1)"
      and nx: "next_eligible_claim ts rs i [] k1 = Inr (row, k2)"
      and go: "(case row of None \<Rightarrow> ret None
        | Some row \<Rightarrow> bind (claim_row cfg owner d row ts) (\<lambda>l. ret (Some l))) k2 = Inr (Some l, t)"
    using run unfolding claim_body_def by (elim bindE) (rule that)
  have k1: "at_time ts k1" "later k k1"
    using soundD[OF reap_in_transaction_sound[OF cfg] k rp] runsD[OF later_reap rp] by auto
  show ?thesis using go next_eligible_Inr[OF nx] that k1 by (cases row) (auto simp: bind_Inr)
qed

lemma claim_start_body_grants:
  assumes run: "claim_and_start_body cfg owner d s rs i ex ts k = Inr (Some l, t)" and k: "at_time ts k" and cfg: "config_ok cfg"
  obtains row k2 where "later k k2" and "at_time ts k2" and "row \<in> set (execs k2)"
    and "claimable k2 ts rs i (remdups ex) row" and "claim_start_row cfg owner d s row ts k2 = Inr (l, t)"
proof -
  obtain ids k1 row k2 where rp: "reap_in_transaction cfg ts k = Inr (ids, k1)"
      and nx: "next_eligible_claim ts rs i (remdups ex) k1 = Inr (row, k2)"
      and go: "(case row of None \<Rightarrow> ret None
        | Some row \<Rightarrow> bind (claim_start_row cfg owner d s row ts) (\<lambda>l. ret (Some l))) k2 = Inr (Some l, t)"
    using run unfolding claim_and_start_body_def by (elim bindE) (rule that)
  have k1: "at_time ts k1" "later k k1"
    using soundD[OF reap_in_transaction_sound[OF cfg] k rp] runsD[OF later_reap rp] by auto
  show ?thesis using go next_eligible_Inr[OF nx] that k1 by (cases row) (auto simp: bind_Inr)
qed

text \<open>A row of a later store has a fence at least as high.\<close>

lemma later_fence:
  assumes "later k k2" and "kernel_ok k" and "kernel_ok k2" and "find_exec (x_id row) k = Some r" and "row \<in> set (execs k2)"
  shows "x_fence r \<le> x_fence row"
proof -
  have r: "r \<in> set (execs k)" "x_id r = x_id row" using assms(4) by (auto simp: kernel_find[OF assms(2)])
  obtain r' where r': "r' \<in> set (execs k2)" "exec_later r r'" using laterD(2)[OF assms(1) r(1)] by blast
  then have "x_id r' = x_id row" using r(2) by (auto simp: exec_later_def)
  then have "r' = row" by (rule kernel_row_unique[OF assms(3) r'(1) assms(5)])
  then show ?thesis using r'(2) by (auto simp: exec_later_def)
qed

lemma claimed_row_matches:
  assumes "l_execution_id l = x_id r" "l_fence l = x_fence r + 1" "l_attempt l = x_attempt r + 1" "l_owner l = owner"
    "l_revision l = n"
  shows "lease_matches (claimed_row r st (l_lease_id l) owner (l_expires_at l) started n ts) l"
  using assms by (simp add: lease_matches_def claimed_row_def)

lemma claimed_row_fields [simp]:
  "x_state (claimed_row r st i owner e started n ts) = st" "x_started (claimed_row r st i owner e started n ts) = started"
  by (simp_all add: claimed_row_def)

lemma claim_Inr:
  assumes "claim cfg w owner d r rs i k = (Inr x, t)"
  shows "\<exists>dur revs. transaction w (claim_body cfg owner dur revs i) k = (Inr x, t)"
  using assms by (auto simp: claim_def split: if_splits sum.splits prod.splits)

lemma claim_and_start_Inr:
  assumes "claim_and_start cfg w owner d s r rs i ex k = (Inr x, t)"
  shows "\<exists>least safety revs. transaction w (claim_and_start_body cfg owner least safety revs i ex) k = (Inr x, t)"
  using assms by (auto simp: claim_and_start_def split: if_splits sum.splits prod.splits)

text \<open>
  C12. A claim that returns a lease has leased its execution under exactly that lease, to the
  claiming owner, and with a fence above the one the execution had before: no lease granted
  earlier has it.
\<close>
theorem claim_takes_fence:
  assumes "claim cfg w owner d r rs i k = (Inr (Some l), t)" and "kernel_ok k" and "config_ok cfg" and "is_float w"
  shows "\<exists>q. find_exec (l_execution_id l) t = Some q \<and> lease_matches q l \<and> x_state q = Leased \<and> l_owner l = owner \<and>
    (\<forall>p. find_exec (l_execution_id l) k = Some p \<longrightarrow> x_fence p < l_fence l)"
proof -
  obtain dur revs where "transaction w (claim_body cfg owner dur revs i) k = (Inr (Some l), t)"
    using claim_Inr[OF assms(1)] by blast
  then obtain ts where run: "claim_body cfg owner dur revs i ts (k\<lparr>watermark := ts\<rparr>) = Inr (Some l, t)"
    and at: "at_time ts (k\<lparr>watermark := ts\<rparr>)"
    by (rule transaction_at_time[OF _ assms(2,4)])
  obtain row k2 where l: "later (k\<lparr>watermark := ts\<rparr>) k2" and k2: "at_time ts k2" and row: "row \<in> set (execs k2)"
    and go: "claim_row cfg owner dur row ts k2 = Inr (l, t)"
    by (rule claim_body_grants[OF run at assms(3)])
  note g = claim_row_ok[OF go k2 row]
  have "x_fence p < l_fence l" if p: "find_exec (l_execution_id l) k = Some p" for p
    using later_fence[OF l _ _ _ row, of p] at k2 g p by (simp add: at_time_def)
  then show ?thesis using g claimed_row_matches[of l row owner "x_revision row + 1"]
    by (intro exI[of _ "claimed_row row Leased (l_lease_id l) owner (l_expires_at l) (x_started row) (x_revision row + 1) ts"])
      simp
qed

theorem claim_takes_fence_witness:
  "\<exists>l t q. claim example_config 2 ''w'' None None None None (perform example_config 1 (Op_submit sample_command) empty_kernel)
     = (Inr (Some l), t) \<and> find_exec ''e1'' t = Some q \<and> lease_matches q l \<and> x_state q = Leased"
proof -
  let ?k = "perform example_config 1 (Op_submit sample_command) empty_kernel"
  let ?r = "claim example_config 2 ''w'' None None None None ?k"
  have c: "(case fst ?r of Inr (Some l) \<Rightarrow> l_execution_id l = ''e1'' | _ \<Rightarrow> False)" by code_simp
  have k: "kernel_ok ?k"
    by (rule reachable_ok[OF history_call[OF history_none] example_config_ok]) (simp_all add: sample_command_ok example_times)
  obtain l where l: "fst ?r = Inr (Some l)" "l_execution_id l = ''e1''" using c by (auto split: sum.splits option.splits)
  then have "?r = (Inr (Some l), snd ?r)" by (simp add: prod_eq_iff)
  then show ?thesis using claim_takes_fence[OF _ k example_config_ok example_times(2)] l(2) by fastforce
qed

text \<open>
  The atomic claim and start of the runtime leaves its execution running under exactly the
  lease it returns, started at the reading of the clock, with a fence above every earlier one; an excluded
  execution is not taken.
\<close>
theorem claim_and_start_runs:
  assumes "claim_and_start cfg w owner d s r rs i ex k = (Inr (Some l), t)" and "kernel_ok k" and "config_ok cfg" and "is_float w"
  shows "\<exists>q. find_exec (l_execution_id l) t = Some q \<and> lease_matches q l \<and> x_state q = Running \<and>
    x_started q = Some (watermark t) \<and> l_owner l = owner \<and> l_execution_id l \<notin> set ex \<and>
    (\<forall>p. find_exec (l_execution_id l) k = Some p \<longrightarrow> x_fence p < l_fence l)"
proof -
  obtain dur safety revs where "transaction w (claim_and_start_body cfg owner dur safety revs i ex) k = (Inr (Some l), t)"
    using claim_and_start_Inr[OF assms(1)] by blast
  then obtain ts where run: "claim_and_start_body cfg owner dur safety revs i ex ts (k\<lparr>watermark := ts\<rparr>) = Inr (Some l, t)"
    and at: "at_time ts (k\<lparr>watermark := ts\<rparr>)"
    by (rule transaction_at_time[OF _ assms(2,4)])
  obtain row k2 where l: "later (k\<lparr>watermark := ts\<rparr>) k2" and k2: "at_time ts k2" and row: "row \<in> set (execs k2)"
    and el: "claimable k2 ts revs i (remdups ex) row" and go: "claim_start_row cfg owner dur safety row ts k2 = Inr (l, t)"
    by (rule claim_start_body_grants[OF run at assms(3)])
  note g = claim_start_row_ok[OF go k2 row]
  have "x_fence p < l_fence l" if p: "find_exec (l_execution_id l) k = Some p" for p
    using later_fence[OF l _ _ _ row, of p] at k2 g p by (simp add: at_time_def)
  moreover have "watermark t = ts" using g by (simp add: at_time_def)
  ultimately show ?thesis using g claimed_row_matches[of l row owner "x_revision row + 1 + 1"] el
    by (intro exI[of _ "claimed_row row Running (l_lease_id l) owner (l_expires_at l) (Some ts) (x_revision row + 1 + 1) ts"])
      (simp add: claimable_def)
qed

theorem claim_and_start_runs_witness:
  "\<exists>q. find_exec ''e1'' claimed_kernel = Some q \<and> x_state q = Running \<and> x_started q = Some (watermark claimed_kernel)"
proof -
  let ?k = "perform example_config 1 (Op_submit sample_command) empty_kernel"
  let ?r = "claim_and_start example_config 2 ''w'' None (PInt 1) None None None [] ?k"
  have s: "snd ?r = claimed_kernel" using claimed_step by (simp add: example_claim_def)
  have c: "(case fst ?r of Inr (Some l) \<Rightarrow> l_execution_id l = ''e1'' | _ \<Rightarrow> False)" by code_simp
  have k: "kernel_ok ?k"
    by (rule reachable_ok[OF history_call[OF history_none] example_config_ok]) (simp_all add: sample_command_ok example_times)
  obtain l where l: "fst ?r = Inr (Some l)" "l_execution_id l = ''e1''" using c by (auto split: sum.splits option.splits)
  then have "?r = (Inr (Some l), claimed_kernel)" using s by (simp add: prod_eq_iff)
  then show ?thesis using claim_and_start_runs[OF _ k example_config_ok example_times(2)] l(2) by fastforce
qed

subsection \<open>Superseded leases\<close>

lemma stale_transaction:
  assumes "find_exec (l_execution_id l) t = Some q" and "l_fence l < x_fence q"
    and "\<And>ts k. (\<And>sts st. \<exists>e. assert_lease l ts sts st k = Inl e) \<Longrightarrow> \<exists>e. body ts k = Inl e"
  shows "\<exists>e. fst (transaction w body t) = Inl e"
proof (rule transaction_Inl)
  fix ts k' assume "advance_clock w t = Inr (ts, k')"
  then have "find_exec (l_execution_id l) k' = Some q" using assms(1) by (auto simp: advance_clock_Inr)
  then show "\<exists>e. body ts k' = Inl e" by (intro assms(3) stale_fence_rejected[OF _ assms(2)])
qed

lemma bind_Inl: "\<exists>e. m k = Inl e \<Longrightarrow> \<exists>e. bind m f k = Inl e"
  by (auto simp: bind_def)



text \<open>
  C14. Starting a leased execution: the lease must be exactly the row's, unexpired, and the row
  leased; the execution then runs from the clock's reading, the lease returned is the next
  revision, and the lease it replaces is refused by every later check.
\<close>
theorem start_supersedes:
  assumes "start w l k = (Inr l', t)" and "kernel_ok k" and "is_float w"
  shows "(\<exists>r. find_exec (l_execution_id l) k = Some r \<and> lease_matches r l \<and> x_state r = Leased \<and>
      watermark t < l_expires_at l \<and> find_exec (l_execution_id l) t = Some (started_row r (watermark t))) \<and>
    l' = l\<lparr>l_revision := l_revision l + 1\<rparr> \<and>
    (\<exists>q. assert_lease l' (watermark t) [Running] False t = Inr (q, t)) \<and>
    (\<nexists>p. assert_lease l ts sts st t = Inr p)"
proof -
  obtain ts' where run: "start_body l ts' (k\<lparr>watermark := ts'\<rparr>) = Inr (l', t)" and at: "at_time ts' (k\<lparr>watermark := ts'\<rparr>)"
    by (rule transaction_at_time[OF assms(1)[unfolded start_def] assms(2,3)])
  note s = start_ok[OF run at]
  have w: "watermark t = ts'" using s by (simp add: at_time_def)
  obtain r where r: "find_exec (l_execution_id l) k = Some r" "lease_matches r l" "x_state r = Leased" "ts' < l_expires_at l"
    "find_exec (l_execution_id l) t = Some (started_row r ts')" "l' = l\<lparr>l_revision := l_revision l + 1\<rparr>"
    using s by auto
  have "assert_lease l' ts' [Running] False t = Inr (started_row r ts', t)"
    using r by (simp add: assert_lease_Inr lease_matches_def started_row_def)
  moreover have "\<nexists>p. assert_lease l ts sts st t = Inr p"
    using r by (auto simp: assert_lease_Inr lease_matches_def started_row_def)
  ultimately show ?thesis using r w by auto
qed

theorem start_supersedes_witness:
  "\<exists>l' t. start 3 \<lparr>l_execution_id = ''e1'', l_lease_id = ''a'', l_owner = ''w'', l_fence = 1, l_attempt = 1,
     l_expires_at = 62, l_revision = 2\<rparr>
     (perform example_config 2 (Op_claim ''w'' None None None None) (perform example_config 1 (Op_submit sample_command) empty_kernel))
     = (Inr l', t) \<and> (\<exists>q. assert_lease l' (watermark t) [Running] False t = Inr (q, t))"
proof -
  let ?l = "\<lparr>l_execution_id = ''e1'', l_lease_id = ''a'', l_owner = ''w'', l_fence = 1, l_attempt = 1, l_expires_at = 62, l_revision = 2\<rparr> :: lease"
  let ?k = "perform example_config 2 (Op_claim ''w'' None None None None) (perform example_config 1 (Op_submit sample_command) empty_kernel)"
  have "\<not> isl (fst (start 3 ?l ?k))" by code_simp
  then obtain l' where "fst (start 3 ?l ?k) = Inr l'" by (cases "fst (start 3 ?l ?k)") auto
  then have r: "start 3 ?l ?k = (Inr l', snd (start 3 ?l ?k))" by (simp add: prod_eq_iff)
  have "reachable example_config ?k"
    by (intro example_calls history_none) (simp_all add: sample_command_ok)
  then have k: "kernel_ok ?k" by (rule reachable_ok[OF _ example_config_ok])
  show ?thesis using r start_supersedes[OF r k example_times(3)] by blast
qed

text \<open>
  Renewing a lease extends it past the reading of the clock and supersedes it: the lease
  returned is accepted, the one it replaces is not, and the execution's state is as it was.
\<close>
theorem renew_supersedes:
  assumes "renew cfg w l d k = (Inr l', t)" and "kernel_ok k" and "config_ok cfg" and "is_float w"
  shows "watermark t < l_expires_at l \<and> watermark t < l_expires_at l' \<and>
    (\<exists>q p. assert_lease l' (watermark t) [Leased, Running] False t = Inr (q, t) \<and>
       find_exec (l_execution_id l) k = Some p \<and> x_state q = x_state p) \<and>
    (\<nexists>p. assert_lease l ts sts st t = Inr p)"
proof -
  obtain dur where dur: "lease_duration cfg d = Inr dur" and tr: "transaction w (renew_body l dur) k = (Inr l', t)"
    using assms(1) by (auto simp: renew_def split: sum.splits)
  have pos: "0 < dur"
    using dur assms(3) by (cases d)
      (auto simp: lease_duration_def config_ok_def positive_duration_def rbind_eq_Inr split: if_splits)
  obtain ts' where run: "renew_body l dur ts' (k\<lparr>watermark := ts'\<rparr>) = Inr (l', t)" and at: "at_time ts' (k\<lparr>watermark := ts'\<rparr>)"
    by (rule transaction_at_time[OF tr assms(2,4)])
  note s = renew_ok[OF run at]
  have w: "watermark t = ts'" using s by (simp add: at_time_def)
  obtain r e where r: "find_exec (l_execution_id l) k = Some r" "lease_matches r l" "x_state r \<in> {Leased, Running}"
    "ts' < l_expires_at l" "checked_add ts' dur = Inr e" "find_exec (l_execution_id l) t = Some (renewed_row r e ts')"
    "l' = l\<lparr>l_expires_at := e, l_revision := l_revision l + 1\<rparr>"
    using s by auto
  have e: "ts' < e" using r(5) pos by (simp add: checked_add_Inr)
  have "assert_lease l' ts' [Leased, Running] False t = Inr (renewed_row r e ts', t)"
    using r e by (auto simp: assert_lease_Inr lease_matches_def renewed_row_def)
  moreover have "\<nexists>p. assert_lease l ts sts st t = Inr p"
    using r by (auto simp: assert_lease_Inr lease_matches_def renewed_row_def)
  ultimately show ?thesis using r w e by (auto simp: renewed_row_def)
qed

theorem renew_supersedes_witness:
  "\<exists>l' t. renew example_config 9 example_lease None performing_kernel = (Inr l', t) \<and> watermark t < l_expires_at l' \<and>
     (\<nexists>p. assert_lease example_lease 9 [Running] False t = Inr p)"
proof -
  let ?r = "renew example_config 9 example_lease None performing_kernel"
  have "\<not> isl (fst ?r)" by code_simp
  then obtain l' where "fst ?r = Inr l'" by (cases "fst ?r") auto
  then have "?r = (Inr l', snd ?r)" by (simp add: prod_eq_iff)
  then show ?thesis
    using renew_supersedes[OF _ example_kernels_ok(2) example_config_ok example_times(9)] by blast
qed

end
