(* ===== verification/Outcomes.thy ===== *)
theory Outcomes
  imports Workers
begin

text \<open>
  Exactly-once facts: an external effect is handed to one performer and its outcome recorded
  once, a command is queued once, a claim takes the oldest eligible execution, and a
  completion ends the execution with the result it was given.
\<close>

subsection \<open>Effects\<close>

lemma claim_effect_Inr: "claim_effect cfg w l i k = (Inr c, t) \<Longrightarrow> transaction w (claim_effect_body cfg l i) k = (Inr c, t)"
  by (auto simp: claim_effect_def split: if_splits)



text \<open>
  C16. An outcome is recorded once: a commit that is accepted leaves the effect committed with
  the canonical form of its response under the claim that performed it, and whoever commits it
  again is answered with the same record, has to give the same response, and changes no effect.
\<close>
theorem effect_committed_once:
  assumes "commit_effect w i v l c k = (Inr q, t)" and "kernel_ok k" and "is_float w"
    and "commit_effect w' i v' l' c' t = (Inr q', u)" and "is_float w'"
  shows "find_effect i t = Some q \<and> e_state q = Committed \<and> e_response q = canon v \<and> e_claim_id q = Some c \<and>
    q' = q \<and> canon v' = canon v \<and> c' = c \<and> effects u = effects t"
proof -
  obtain ts where run: "commit_effect_body i v l c ts (k\<lparr>watermark := ts\<rparr>) = Inr (q, t)" and at: "at_time ts (k\<lparr>watermark := ts\<rparr>)"
    by (rule transaction_at_time[OF assms(1)[unfolded commit_effect_def] assms(2,3)])
  note g = commit_effect_ok[OF run at]
  have t: "kernel_ok t" using g by (simp add: at_time_def)
  have q: "find_effect i t = Some q" "e_state q = Committed" "e_response q = canon v" "e_claim_id q = Some c"
    using g by (auto simp: committed_form_def)
  obtain ts' where run': "commit_effect_body i v' l' c' ts' (t\<lparr>watermark := ts'\<rparr>) = Inr (q', u)" and at': "at_time ts' (t\<lparr>watermark := ts'\<rparr>)"
    by (rule transaction_at_time[OF assms(4)[unfolded commit_effect_def] t assms(5)])
  show ?thesis using commit_effect_ok[OF run' at'] q by auto
qed

theorem effect_committed_once_witness:
  "\<exists>q u. commit_effect 6 ''f1'' (PInt 9) example_lease ''ab'' committed_kernel = (Inr q, u) \<and>
     find_effect ''f1'' committed_kernel = Some q \<and> effects u = effects committed_kernel"
proof -
  let ?r = "commit_effect 5 ''f1'' (PInt 9) example_lease ''ab'' performing_kernel"
  let ?r' = "commit_effect 6 ''f1'' (PInt 9) example_lease ''ab'' committed_kernel"
  have s: "snd ?r = committed_kernel" using committed_step by simp
  have ok: "\<not> isl (fst ?r)" "\<not> isl (fst ?r')" by code_simp+
  then have r: "?r = (Inr (projr (fst ?r)), committed_kernel)" using s by (cases "fst ?r") (simp_all add: prod_eq_iff)
  have r': "?r' = (Inr (projr (fst ?r')), snd ?r')" using ok(2) by (cases "fst ?r'") (simp_all add: prod_eq_iff)
  show ?thesis using effect_committed_once[OF r example_kernels_ok(2) example_times(5) r' example_times(6)] r' by metis
qed

subsection \<open>Submission\<close>

definition submit_body :: "command \<Rightarrow> rat \<Rightarrow> snapshot kop" where
  "submit_body cmd timestamp =
     bind (get (find_managed (c_execution_id cmd))) (\<lambda>m.
     bind (check (m = None) StorageIsolationError) (\<lambda>_.
     bind (submit_in_transaction cmd timestamp) (\<lambda>(row, _). lift (snapshot row))))"

lemma submit_transaction:
  "\<not> starts_with MANAGED_EXECUTION_PREFIX (c_execution_id cmd) \<Longrightarrow> submit w cmd = transaction w (submit_body cmd)"
  by (rule ext) (simp add: submit_def submit_body_def[abs_def])

lemma submit_Inr:
  "submit w cmd k = (Inr s, t) \<Longrightarrow> \<not> starts_with MANAGED_EXECUTION_PREFIX (c_execution_id cmd)"
  by (auto simp: submit_def)

text \<open>A submission leaves its command in the store, and it is found there again.\<close>

lemma submitted_row:
  assumes run: "submit_body cmd ts k = Inr (s, t)" and k: "at_time ts k"
  obtains r where "existing_submission cmd t = Some r" and "x_command r = canon_command cmd" and "snapshot r = Inr s"
    and "find_managed (c_execution_id cmd) t = None" and "r \<in> set (execs t)"
proof -
  obtain r c where m: "find_managed (c_execution_id cmd) k = None" and s: "submit_in_transaction cmd ts k = Inr ((r, c), t)"
    and sn: "snapshot r = Inr s"
    using run by (auto simp: submit_body_def bind_Inr)
  show ?thesis
  proof (cases c)
    case True
    have e: "entered (queued_row cmd ts) k t" "r = queued_row cmd ts" using submit_new[of cmd ts k r t] s k True by auto
    then have mt: "managed t = managed k" and x: "execs t = execs k @ [r]" "c_execution_id cmd \<notin> x_id ` set (execs k)"
      by (auto simp: entered_def)
    have "find_exec (c_execution_id cmd) t = Some r"
    proof -
      have "exec_table.unique t" using at_time_unique[OF k] x e(2) by (simp add: exec_table.unique_def)
      then show ?thesis using x(1) e(2) by (simp add: exec_table.find_row_iff)
    qed
    then show ?thesis using that[of r] e(2) sn m mt x by (simp add: existing_submission_def find_managed_def)
  next
    case False
    then show ?thesis using submit_known[of cmd ts k r t] s sn m that[of r] by simp
  qed
qed

lemma existing_submission_watermark [simp]: "existing_submission cmd (k\<lparr>watermark := ts\<rparr>) = existing_submission cmd k"
  and find_managed_watermark [simp]: "find_managed i (k\<lparr>watermark := ts\<rparr>) = find_managed i k"
  by (simp_all add: existing_submission_def find_managed_def cong: option.case_cong)

text \<open>
  C17. Submitting is idempotent: once a command is accepted, submitting it again, at any later
  time, answers with the same snapshot and adds neither an execution nor an event.
\<close>
theorem submit_idempotent:
  assumes "submit w cmd k = (Inr s, t)" and "kernel_ok k" and "is_float w" and "0 \<le> w'"
  shows "submit w' cmd t = (Inr s, t\<lparr>watermark := max (watermark t) w'\<rparr>)"
proof -
  note nm = submit_Inr[OF assms(1)]
  obtain ts where run: "submit_body cmd ts (k\<lparr>watermark := ts\<rparr>) = Inr (s, t)" and at: "at_time ts (k\<lparr>watermark := ts\<rparr>)"
    by (rule transaction_at_time[OF assms(1)[unfolded submit_transaction[OF nm]] assms(2,3)])
  obtain r where r: "existing_submission cmd t = Some r" "x_command r = canon_command cmd" "snapshot r = Inr s"
    "find_managed (c_execution_id cmd) t = None"
    by (rule submitted_row[OF run at])
  let ?t = "t\<lparr>watermark := max (watermark t) w'\<rparr>"
  have "advance_clock w' t = Inr (max (watermark t) w', ?t)" using assms(4) by (simp add: advance_clock_Inr)
  moreover have "submit_body cmd (max (watermark t) w') ?t = Inr (s, ?t)"
    using r by (simp add: submit_body_def bind_Inr submit_in_transaction_def)
  ultimately show ?thesis unfolding submit_transaction[OF nm] by (simp add: transaction_def)
qed

theorem submit_idempotent_witness:
  "\<exists>s. submit 5 sample_command (snd (submit 1 sample_command empty_kernel)) =
     (Inr s, (snd (submit 1 sample_command empty_kernel))\<lparr>watermark := max (watermark (snd (submit 1 sample_command empty_kernel))) 5\<rparr>)"
proof -
  let ?r = "submit 1 sample_command empty_kernel"
  have "\<not> isl (fst ?r)" by code_simp
  then have r: "?r = (Inr (projr (fst ?r)), snd ?r)" by (cases "fst ?r") (simp_all add: prod_eq_iff)
  show ?thesis using submit_idempotent[OF r empty_kernel_ok example_times(1), of 5] by auto
qed

text \<open>
  An execution identifier or idempotency key names one command: submitting a different one
  under it is refused with an idempotency conflict, and nothing but the clock moves.
\<close>
theorem submit_conflict:
  assumes "existing_submission cmd k = Some r" and "x_command r \<noteq> canon_command cmd"
    and "\<not> starts_with MANAGED_EXECUTION_PREFIX (c_execution_id cmd)" and "find_managed (c_execution_id cmd) k = None"
    and "0 \<le> w"
  shows "submit w cmd k = (Inl IdempotencyConflictError, k\<lparr>watermark := max (watermark k) w\<rparr>)"
proof -
  let ?t = "k\<lparr>watermark := max (watermark k) w\<rparr>"
  have "advance_clock w k = Inr (max (watermark k) w, ?t)" using assms(5) by (simp add: advance_clock_Inr)
  moreover have "submit_body cmd (max (watermark k) w) ?t = Inl IdempotencyConflictError"
    using assms by (simp add: submit_body_def submit_in_transaction_def bind_def raise_def get_def check_def)
  ultimately show ?thesis unfolding submit_transaction[OF assms(3)] by (simp add: transaction_def)
qed

theorem submit_conflict_witness:
  "fst (submit 9 (sample_command\<lparr>c_execution_id := ''e2'', c_handler_id := ''other''\<rparr>) claimed_kernel) = Inl IdempotencyConflictError"
proof -
  let ?c = "sample_command\<lparr>c_execution_id := ''e2'', c_handler_id := ''other''\<rparr>"
  have e: "existing_submission ?c claimed_kernel = Some example_row" by code_simp
  moreover have "x_command example_row \<noteq> canon_command ?c" by code_simp
  moreover have "\<not> starts_with MANAGED_EXECUTION_PREFIX (c_execution_id ?c)" by code_simp
  moreover have "find_managed (c_execution_id ?c) claimed_kernel = None" by code_simp
  ultimately show ?thesis using submit_conflict[of ?c claimed_kernel example_row 9] by simp
qed

end
