(* ===== verification/Scheduling.thy ===== *)
theory Scheduling
  imports Outcomes
begin

text \<open>
  Which execution is claimed and when an expired lease is given up: the claim takes the oldest
  eligible execution and comes back empty only when there is none, and the loop over the
  expired leases ends.
\<close>

subsection \<open>The claim order\<close>


lemma next_eligible_None: "next_eligible_claim ts revs i ex k = Inr (None, t) \<Longrightarrow>
    t = k \<and> filter (claimable k ts revs i ex) (execs k) = []"
  by (auto simp: next_eligible_claim_def next_claim_row_def bind_Inr sql_select_Nil split: option.splits list.splits)

text \<open>
  C19. Work is found when there is any: a claim comes back empty only if, in the store it leaves
  behind, no execution is eligible for it at that reading of the clock.
\<close>
theorem claim_finds_work:
  assumes "claim cfg w owner d r rs i k = (Inr None, t)" and "claim_revisions r rs = Inr revs"
    and "kernel_ok k" and "config_ok cfg" and "is_float w"
  shows "List.filter (claimable t (watermark t) revs i []) (execs t) = []"
proof -
  obtain dur where tr: "transaction w (claim_body cfg owner dur revs i) k = (Inr None, t)"
    using assms(1,2) by (auto simp: claim_def rbind_eq_Inr split: if_splits sum.splits)
  obtain ts where run: "claim_body cfg owner dur revs i ts (k\<lparr>watermark := ts\<rparr>) = Inr (None, t)"
    and at: "at_time ts (k\<lparr>watermark := ts\<rparr>)"
    by (rule transaction_at_time[OF tr assms(3,5)])
  obtain ids k1 row k2 where nx: "next_eligible_claim ts revs i [] k1 = Inr (row, k2)"
      and go: "(case row of None \<Rightarrow> ret None
        | Some row \<Rightarrow> bind (claim_row cfg owner dur row ts) (\<lambda>l. ret (Some l))) k2 = Inr (None, t)"
    using run unfolding claim_body_def by (elim bindE) (rule that)
  have "row = None" "t = k2" using go by (auto simp: bind_Inr split: option.splits)
  then have "filter (claimable t ts revs i []) (execs t) = []" using next_eligible_None[of ts revs i "[]" k1 k2] nx by auto
  moreover have "watermark t = ts" using soundD[OF claim_sound[OF assms(4)] at run] by (simp add: at_time_def)
  ultimately show ?thesis by simp
qed

theorem claim_finds_work_witness:
  "List.filter (claimable (snd (claim example_config 9 ''w2'' None None None None claimed_kernel))
     (watermark (snd (claim example_config 9 ''w2'' None None None None claimed_kernel))) None None [])
     (execs (snd (claim example_config 9 ''w2'' None None None None claimed_kernel))) = []"
proof -
  let ?r = "claim example_config 9 ''w2'' None None None None claimed_kernel"
  have "fst ?r = Inr None" by code_simp
  then have r: "?r = (Inr None, snd ?r)" by (simp add: prod_eq_iff)
  have "claim_revisions None None = Inr None" by (simp add: claim_revisions_def)
  then show ?thesis
    by (rule claim_finds_work[OF r _ example_kernels_ok(1) example_config_ok example_times(9)])
qed

subsection \<open>Reaping ends\<close>

text \<open>The executions that hold a lease.\<close>

definition held :: "kernel \<Rightarrow> string set" where
  "held k = x_id ` {r \<in> set (execs k). x_state r \<in> {Leased, Running}}"

lemma finite_held: "finite (held k)"
  by (simp add: held_def)

lemma reap_row_held:
  assumes run: "reap_row cfg ts r k = Inr (i, t)" and k: "at_time ts k" and r: "r \<in> set (execs k)"
    and st: "x_state r \<in> {Leased, Running}" and cfg: "config_ok cfg"
  shows "held t = held k - {x_id r}"
proof -
  obtain q where t: "at_time ts t" and q: "find_exec (x_id r) t = Some q" "x_state q \<notin> {Leased, Running}"
    using reap_row_frees[OF assms] by blast
  have same: "x \<in> set (execs t) \<longleftrightarrow> x \<in> set (execs k)" if "x_id x \<noteq> x_id r" for x
    using onlyD[OF only_reap_row run that] .
  have "x = q" if "x \<in> set (execs t)" "x_id x = x_id r" for x
    using that q(1) at_time_find[OF t] at_time_unique[OF t] exec_table.key_inj by metis
  then have "j \<in> held t \<longleftrightarrow> j \<in> held k \<and> j \<noteq> x_id r" for j
    unfolding held_def using same q(2) by (smt (verit) image_iff mem_Collect_eq)
  then show ?thesis by blast
qed

lemma reap_rows_held:
  assumes "each (reap_row cfg ts) rs k = Inr (is, t)" and "at_time ts k" and "distinct (List.map x_id rs)"
    and "set rs \<subseteq> set (execs k)" and "\<forall>r \<in> set rs. x_state r \<in> {Leased, Running}" and "config_ok cfg"
  shows "held t = held k - set (List.map x_id rs) \<and> length is = length rs"
  using assms
proof (induction rs arbitrary: k "is")
  case (Cons r rs)
  obtain i k1 js where one: "reap_row cfg ts r k = Inr (i, k1)" and rest: "each (reap_row cfg ts) rs k1 = Inr (js, t)"
    and "is": "is = i # js"
    using Cons.prems(1) by (auto simp: bind_Inr)
  have ok: "at_time ts k1" using reap_row_ok[OF one Cons.prems(2)] Cons.prems(4,5,6) by auto
  have h: "held k1 = held k - {x_id r}" using reap_row_held[OF one Cons.prems(2)] Cons.prems(4,5,6) by auto
  have "q \<in> set (execs k1)" if q: "q \<in> set rs" for q
  proof -
    have "x_id q \<noteq> x_id r" using q Cons.prems(3) by (auto simp: image_iff)
    then show ?thesis using onlyD[OF only_reap_row one] q Cons.prems(4) by auto
  qed
  then show ?case using Cons.IH[OF rest ok] Cons.prems(3,5,6) h "is" by auto
qed simp

lemma reap_batch_held:
  assumes run: "reap_in_transaction cfg ts k = Inr (is, t)" and k: "at_time ts k" and cfg: "config_ok cfg"
  shows "at_time ts t \<and> card (held t) + length is = card (held k)"
proof -
  let ?rs = "reapable_rows ts k"
  have e: "each (reap_row cfg ts) ?rs k = Inr (is, t)" using run by (simp add: reap_in_transaction_def bind_Inr)
  have d: "distinct (List.map x_id ?rs)" by (rule reapable_rows_distinct[OF at_time_unique[OF k]])
  have rs: "set ?rs \<subseteq> set (execs k)" "\<forall>r \<in> set ?rs. x_state r \<in> {Leased, Running}"
    using reapable_rows_set[of ts k] by (auto simp: lease_expired_def)
  have h: "held t = held k - set (List.map x_id ?rs)" "length is = length ?rs"
    using reap_rows_held[OF e k d rs cfg] by auto
  have sub: "set (List.map x_id ?rs) \<subseteq> held k" using rs by (auto simp: held_def)
  have "card (set (List.map x_id ?rs)) = length ?rs" using distinct_card[OF d] by simp
  then have "card (held t) = card (held k) - length is" "length is \<le> card (held k)"
    using card_Diff_subset[OF finite_set sub] card_mono[OF finite_held sub] h by simp_all
  then show ?thesis using soundD[OF reap_in_transaction_sound[OF cfg] k run] by simp
qed

lemma reap_batches_end:
  assumes "reap_batches n cfg ts k = Inr (x, t)" and "at_time ts k" and "config_ok cfg" and "card (held k) < 256 * n"
  shows "\<exists>ids. x = Some ids \<and> card (held t) + length ids = card (held k)"
  using assms
proof (induction n arbitrary: k x)
  case (Suc n)
  obtain b k1 where b: "reap_in_transaction cfg ts k = Inr (b, k1)"
    and go: "(if length b < 256 then ret (Some b)
       else bind (reap_batches n cfg ts) (\<lambda>more. ret (map_option (\<lambda>ids. b @ ids) more))) k1 = Inr (x, t)"
    using Suc.prems(1) by (auto simp: bind_Inr)
  have h: "at_time ts k1" "card (held k1) + length b = card (held k)"
    using reap_batch_held[OF b Suc.prems(2,3)] by auto
  show ?case
  proof (cases "length b < 256")
    case False
    then obtain y where y: "reap_batches n cfg ts k1 = Inr (y, t)" "x = map_option (\<lambda>ids. b @ ids) y"
      using go by (auto simp: bind_Inr)
    have "card (held k1) < 256 * n" using False h(2) Suc.prems(4) by simp
    then show ?thesis using Suc.IH[OF y(1) h(1) Suc.prems(3)] y(2) h(2) by auto
  qed (use go h in auto)
qed simp

text \<open>
  C20. Reaping ends: with more batches than the executions that hold a lease fill, the loop of
  \<open>reap\<close> comes to its end, and the executions it reports are as many as those that lost a lease.
\<close>
theorem reap_terminates:
  assumes "reap_batches fuel cfg ts k = Inr (x, t)" and "at_time ts k" and "config_ok cfg"
    and "card (held k) < 256 * fuel"
  shows "\<exists>ids. x = Some ids \<and> card (held t) + length ids = card (held k)"
  by (rule reap_batches_end[OF assms])

theorem reap_terminates_witness:
  "\<exists>ids t. reap_batches 1 example_config 2 claimed_kernel = Inr (Some ids, t) \<and>
     card (held t) + length ids = card (held claimed_kernel)"
proof -
  let ?r = "reap_batches 1 example_config 2 claimed_kernel"
  have "\<not> isl ?r" by code_simp
  then obtain x t where r: "?r = Inr (x, t)" by (cases ?r) auto
  have k: "at_time 2 claimed_kernel" using example_kernels_ok(1) by (simp add: at_time_def claimed_kernel_def)
  have "card (held claimed_kernel) < 256 * 1" 
  proof -
    have "held claimed_kernel \<subseteq> {x_id example_row}" by (auto simp: held_def claimed_kernel_def)
    from card_mono[OF _ this] show ?thesis by simp
  qed
  from reap_terminates[OF r k example_config_ok this] show ?thesis using r by auto
qed

end
