(* ===== verification/Results.thy ===== *)
theory Results
  imports Scheduling
begin

text \<open>
  How executions end: a success is recorded, a retryable failure is retried until the policy is
  exhausted, the resolution of an uncertain effect never revives a cancelled execution, and the
  result is delivered under a fenced lease.
\<close>

subsection \<open>Completion\<close>

lemma no_unfinished_tables [simp]:
  "no_unfinished r (k\<lparr>watermark := ts\<rparr>) = no_unfinished r k" "no_unfinished r (k\<lparr>obligations := n\<rparr>) = no_unfinished r k"
  by (simp_all add: no_unfinished_def)

lemma find_exec_obligations [simp]: "find_exec i (k\<lparr>obligations := n\<rparr>) = find_exec i k"
  by (simp add: find_exec_def)

lemma complete_body_live:
  assumes "complete_body cfg l q st v ts k = Inr (s, t)" and "find_exec (l_execution_id l) k = Some r" and "\<not> terminal (x_state r)"
  shows "complete_live cfg l q st v ts k = Inr (s, t)"
  using assms by (auto simp: complete_body_def bind_Inr get_row_Inr)

text \<open>
  C21. A success is never lost: when a success is accepted for an execution that has not ended,
  it came from the exact lease of the running attempt, and the execution ends with that very
  result - or is parked for recovery, exactly when an external effect of it is unfinished.
\<close>
theorem success_recorded:
  assumes "complete_result cfg w l q st v k = (Inr s, t)" and "kernel_ok k" and "config_ok cfg" and "is_float w"
    and "result_ok q" and "r_status q = Succeeded" and "find_exec (l_execution_id l) k = Some r" and "\<not> terminal (x_state r)"
  shows "x_state r = Running \<and> lease_matches r l \<and>
    (if no_unfinished r k then find_exec (l_execution_id l) t = Some (ended_row r q (watermark t))
     else map_option x_state (find_exec (l_execution_id l) t) = Some Recovery_Required)"
proof -
  obtain ts where run: "complete_body cfg l q st v ts (k\<lparr>watermark := ts\<rparr>) = Inr (s, t)" and at: "at_time ts (k\<lparr>watermark := ts\<rparr>)"
    by (rule transaction_at_time[OF assms(1)[unfolded complete_result_def] assms(2,4)])
  let ?k = "k\<lparr>watermark := ts\<rparr>"
  have f: "find_exec (l_execution_id l) ?k = Some r" using assms(7) by simp
  have id: "x_id r = l_execution_id l" "r \<in> set (execs ?k)" using f at_time_find[OF at] by auto
  have wt: "watermark t = ts" using soundD[OF complete_sound[OF assms(3,5)] at run] by (simp add: at_time_def)
  show ?thesis
  proof (rule complete_live_form[OF complete_body_live[OF run f assms(8)] at assms(5)])
    fix r' assume "find_exec (l_execution_id l) ?k = Some r'" "lease_matches r' l" "x_state r' = Running"
      "park_result r' s t" "\<not> no_unfinished r' ?k"
    then show ?thesis using f id(1) by (auto simp: park_result_def)
  next
    fix r' n
    assume a: "find_exec (l_execution_id l) ?k = Some r'" "lease_matches r' l" "x_state r' = Running" "result_for r' q ts"
      "no_unfinished r' ?k"
      "(if is_retryable q (x_command r') \<and> \<not> managed_deadline_elapsed (l_execution_id l) ts (?k\<lparr>obligations := n\<rparr>) then
         (if max_attempts (c_retry_policy (x_command r')) \<le> x_attempt r'
          then exhaust_retries cfg r' (x_command r') q ts
          else schedule_retry cfg r' (x_command r') q ts)
       else make_terminal cfg r' q (xname (r_status q)) ts) (?k\<lparr>obligations := n\<rparr>) = Inr (s, t)"
    have r': "r' = r" using a(1) f by simp
    have m: "make_terminal cfg r q (xname (r_status q)) ts (?k\<lparr>obligations := n\<rparr>) = Inr (s, t)"
      using a(6) assms(6) r' by (simp add: is_retryable_def Let_def)
    have kk: "at_time ts (?k\<lparr>obligations := n\<rparr>)" "r \<in> set (execs (?k\<lparr>obligations := n\<rparr>))"
      using at id(2) by (auto simp: at_time_def)
    from make_terminal_ok[OF m kk a(4)[unfolded r'] assms(3)] show ?thesis
      using a(2,3,5) r' id(1) wt by auto
  qed
qed

theorem success_recorded_witness:
  "find_exec ''e1'' ended_kernel = Some (ended_row example_row example_result (watermark ended_kernel))"
proof -
  let ?r = "complete_result example_config 6 example_lease example_result True Supervisor_Unknown committed_kernel"
  have s: "snd ?r = ended_kernel" using ended_step by simp
  have "\<not> isl (fst ?r)" by code_simp
  then have r: "?r = (Inr (projr (fst ?r)), ended_kernel)" using s by (cases "fst ?r") (simp_all add: prod_eq_iff)
  have q: "r_status example_result = Succeeded" by (simp add: example_result_def)
  have f: "find_exec (l_execution_id example_lease) committed_kernel = Some example_row" by code_simp
  have t: "\<not> terminal (x_state example_row)" by (simp add: example_row_def)
  have u: "no_unfinished example_row committed_kernel"
    by (simp add: no_unfinished_def committed_kernel_def example_committed_def unfinished_def)
  have l: "l_execution_id example_lease = ''e1''" by (simp add: example_lease_def)
  from success_recorded[OF r example_kernels_ok(3) example_config_ok example_times(6) example_result_ok q f t]
  show ?thesis using u l by simp
qed

text \<open>
  C22. A retryable failure is retried until the policy is exhausted: with no effect unfinished
  and outside managed runs, the execution goes back to the queue for the policy's delay, with one
  more redelivery, as long as its attempts are below the maximum; at the maximum it is dead.
\<close>
theorem failure_retried:
  assumes "complete_result cfg w l q st v k = (Inr s, t)" and "kernel_ok k" and "config_ok cfg" and "is_float w"
    and "result_ok q" and "is_retryable q (x_command r)" and "find_exec (l_execution_id l) k = Some r"
    and "\<not> terminal (x_state r)" and "no_unfinished r k" and "find_managed (l_execution_id l) k = None"
  shows "\<exists>x. find_exec (l_execution_id l) t = Some x \<and>
    (if max_attempts (c_retry_policy (x_command r)) \<le> x_attempt r then x_state x = Dead
     else x_state x = Queued \<and> x_attempt x = x_attempt r \<and> x_redeliveries x = x_redeliveries r + 1 \<and>
       retry_delay cfg (x_command r) (x_attempt r) (watermark t) = Inr (x_next_at x))"
proof -
  obtain ts where run: "complete_body cfg l q st v ts (k\<lparr>watermark := ts\<rparr>) = Inr (s, t)" and at: "at_time ts (k\<lparr>watermark := ts\<rparr>)"
    by (rule transaction_at_time[OF assms(1)[unfolded complete_result_def] assms(2,4)])
  let ?k = "k\<lparr>watermark := ts\<rparr>"
  have f: "find_exec (l_execution_id l) ?k = Some r" using assms(7) by simp
  have id: "x_id r = l_execution_id l" "r \<in> set (execs ?k)" using f at_time_find[OF at] by auto
  have wt: "watermark t = ts" using soundD[OF complete_sound[OF assms(3,5)] at run] by (simp add: at_time_def)
  show ?thesis
  proof (rule complete_live_form[OF complete_body_live[OF run f assms(8)] at assms(5)])
    fix r' assume "find_exec (l_execution_id l) ?k = Some r'" "\<not> no_unfinished r' ?k"
    then show ?thesis using f assms(9) by simp
  next
    fix r' n
    assume a: "find_exec (l_execution_id l) ?k = Some r'" "lease_matches r' l" "x_state r' = Running" "result_for r' q ts"
      "no_unfinished r' ?k"
      "(if is_retryable q (x_command r') \<and> \<not> managed_deadline_elapsed (l_execution_id l) ts (?k\<lparr>obligations := n\<rparr>) then
         (if max_attempts (c_retry_policy (x_command r')) \<le> x_attempt r'
          then exhaust_retries cfg r' (x_command r') q ts
          else schedule_retry cfg r' (x_command r') q ts)
       else make_terminal cfg r' q (xname (r_status q)) ts) (?k\<lparr>obligations := n\<rparr>) = Inr (s, t)"
    let ?o = "?k\<lparr>obligations := n\<rparr>"
    have r': "r' = r" using a(1) f by simp
    have "\<not> managed_deadline_elapsed (l_execution_id l) ts ?o"
      using assms(10) by (simp add: managed_deadline_elapsed_def find_managed_def)
    then have go: "(if max_attempts (c_retry_policy (x_command r)) \<le> x_attempt r
          then exhaust_retries cfg r (x_command r) q ts
          else schedule_retry cfg r (x_command r) q ts) ?o = Inr (s, t)"
      using a(6)[unfolded r'] assms(6) by simp
    have kk: "at_time ts ?o" "r \<in> set (execs ?o)" "no_unfinished r ?o" using at id(2) assms(9) by (auto simp: at_time_def)
    show ?thesis
      using go exhaust_retries_ok[OF _ kk(1,2) assms(3), of q s t] schedule_retry_ok[OF _ kk, of cfg "x_command r" q s t]
        a(3) r' kk(3) id(1) wt
      by (auto simp: requeued_row_def split: if_splits)
  qed
qed

definition example_failure :: exec_result where
  "example_failure = example_result\<lparr>r_status := Failed, r_value := PNone,
     r_error := Some \<lparr>code = ''io'', message = ''lost'', retryable = True, details = py_dict []\<rparr>\<rparr>"

theorem failure_retried_witness:
  "\<exists>x. find_exec ''e1'' (snd (complete example_config 6 example_lease example_failure committed_kernel)) = Some x \<and>
     x_state x = Queued \<and> x_redeliveries x = 1"
proof -
  let ?r = "complete_result example_config 6 example_lease example_failure False Supervisor_Unknown committed_kernel"
  have "\<not> isl (fst ?r)" by code_simp
  then have r: "?r = (Inr (projr (fst ?r)), snd ?r)" by (cases "fst ?r") (simp_all add: prod_eq_iff)
  have q: "result_ok example_failure" "is_retryable example_failure (x_command example_row)" by code_simp+
  have f: "find_exec (l_execution_id example_lease) committed_kernel = Some example_row" by code_simp
  have t: "\<not> terminal (x_state example_row)" by (simp add: example_row_def)
  have u: "no_unfinished example_row committed_kernel"
    by (simp add: no_unfinished_def committed_kernel_def example_committed_def unfinished_def)
  have m: "find_managed (l_execution_id example_lease) committed_kernel = None" by code_simp
  have p: "\<not> max_attempts (c_retry_policy (x_command example_row)) \<le> x_attempt example_row" by code_simp
  have x: "x_redeliveries example_row = 0" "l_execution_id example_lease = ''e1''" by code_simp+
  from failure_retried[OF r example_kernels_ok(3) example_config_ok example_times(6) q f t u m] p x
  show ?thesis unfolding complete_def by fastforce
qed

subsection \<open>Recovery\<close>

text \<open>
  C23. Resolving an uncertain effect settles its execution: while another effect is uncertain it
  stays parked with the same target; after the last, it returns to the queue - unless a
  cancellation was requested, in which case it ends cancelled and is never run again.
\<close>
theorem resolution_settles:
  assumes "resolve_effect cfg w i d v n rid k = (Inr q, t)" and "kernel_ok k" and "config_ok cfg" and "is_float w"
    and "find_effect i k = Some e" and "e_recovery_id e = None" and "find_exec (e_execution_id e) k = Some r"
  shows "e_state e = Indeterminate \<and> e_revision e = n \<and> x_state r = Recovery_Required \<and> x_rec_effect r = Some i \<and>
    e_state q = (if d = Decided_Applied then Committed else Not_Applied) \<and>
    (\<exists>x. find_exec (e_execution_id e) t = Some x \<and>
      (if \<exists>f \<in> set (effects k). e_execution_id f = e_execution_id e \<and> f \<noteq> e \<and> unfinished (e_state f)
       then x_state x = Recovery_Required \<and> x_rec_target x = x_rec_target r
       else x_state x = (if x_rec_target r = Some ''cancelled'' then Cancelled else Queued)))"
proof -
  have tr: "transaction w (resolve_effect_body cfg i d v n rid) k = (Inr q, t)"
    using assms(1) by (auto simp: resolve_effect_def split: if_splits)
  obtain ts where run: "resolve_effect_body cfg i d v n rid ts (k\<lparr>watermark := ts\<rparr>) = Inr (q, t)" and at: "at_time ts (k\<lparr>watermark := ts\<rparr>)"
    by (rule transaction_at_time[OF tr assms(2,4)])
  let ?k = "k\<lparr>watermark := ts\<rparr>"
  have e: "e \<in> set (effects k)" using assms(5) by (simp add: kernel_find_effect[OF assms(2)])
  show ?thesis
  proof (rule resolve_effect_ok[OF run at assms(3)])
    fix e' assume "find_effect i ?k = Some e'" "resolve_guard e' d v n rid = Inr (Some q)"
    then show ?thesis using assms(5,6) by (auto simp: resolve_guard_def rbind_eq_Inr split: if_splits)
  next
    fix e' r' k1 x
    assume a: "find_effect i ?k = Some e'" "parked_for r' e'" "find_exec (e_execution_id e') ?k = Some r'" "e_revision e' = n"
      "x_state r' = Recovery_Required" "x_rec_effect r' = Some i"
      "q = (decided_effect e' d v rid ts)\<lparr>e_response := canon v\<rparr>" "changed e' q ?k k1"
      "find_exec (x_id r') t = Some x"
      "if no_unfinished r' k1 then x_state x = (if x_rec_target r' = Some ''cancelled'' then Cancelled else Queued)
       else x_state x = Recovery_Required \<and> x_rec_target x = x_rec_target r'"
    have eq: "e' = e" "r' = r" using a(1,3) assms(5,7) by auto
    have idr: "x_id r = e_execution_id e" using assms(7) by (simp add: kernel_find[OF assms(2)])
    have st: "e_state q = (if d = Decided_Applied then Committed else Not_Applied)" "e_execution_id q = e_execution_id e'"
      by (simp_all add: a(7) decided_effect_def)
    have es: "set (effects k1) = insert q {f \<in> set (effects k). e_effect_id f \<noteq> e_effect_id e}"
      using changed_frame(11)[OF a(8)] eq by simp
    have u: "effect_table.unique k" using assms(2) by (simp add: kernel_ok_def effects_ok_def)
    have ne: "f \<noteq> e \<longleftrightarrow> e_effect_id f \<noteq> e_effect_id e" if "f \<in> set (effects k)" for f
      using effect_table.key_inj[OF u that e] by blast
    have "\<not> unfinished (e_state q)" using st(1) by (cases d) (simp_all add: unfinished_def)
    then have "no_unfinished r k1 \<longleftrightarrow>
        \<not> (\<exists>f \<in> set (effects k). e_execution_id f = e_execution_id e \<and> f \<noteq> e \<and> unfinished (e_state f))"
      unfolding no_unfinished_def es idr using ne by blast
    then show ?thesis using a(2,4-6,9,10) eq idr st(1) by (simp add: parked_for_def)
  qed
qed

definition parked_kernel :: kernel where
  "parked_kernel = perform example_config 5 (Op_require_effect_recovery example_lease ''f1'' True) performing_kernel"

lemma reachable_parked: "history example_config performing_kernel parked_kernel"
  unfolding parked_kernel_def by (intro example_calls history_none) simp

lemmas parked_ok = history_ok[OF reachable_parked example_kernels_ok(2) example_config_ok]

theorem resolution_settles_witness:
  "map_option x_state (find_exec ''e1'' (snd (resolve_effect example_config 6 ''f1'' Decided_Applied (PInt 9) 3 ''rec'' parked_kernel)))
     = Some Queued"
proof -
  let ?r = "resolve_effect example_config 6 ''f1'' Decided_Applied (PInt 9) 3 ''rec'' parked_kernel"
  have ev: "\<not> isl (fst ?r) \<and> map_option (\<lambda>e. (e_recovery_id e, e_execution_id e)) (find_effect ''f1'' parked_kernel) = Some (None, ''e1'') \<and>
    map_option x_rec_target (find_exec ''e1'' parked_kernel) = Some (Some ''queued'') \<and> length (effects parked_kernel) = 1"
    by code_simp
  then have r: "?r = (Inr (projr (fst ?r)), snd ?r)" by (cases "fst ?r") (simp_all add: prod_eq_iff)
  obtain e x where e: "find_effect ''f1'' parked_kernel = Some e" "e_recovery_id e = None" "e_execution_id e = ''e1''"
    and x: "find_exec (e_execution_id e) parked_kernel = Some x" "x_rec_target x = Some ''queued''"
    using ev by auto
  have "e \<in> set (effects parked_kernel)" using e(1) by (simp add: kernel_find_effect[OF parked_ok])
  then have "\<not> (\<exists>f \<in> set (effects parked_kernel). e_execution_id f = e_execution_id e \<and> f \<noteq> e \<and> unfinished (e_state f))"
    using ev by (auto simp: length_Suc_conv)
  then show ?thesis
    using resolution_settles[OF r parked_ok example_config_ok example_times(6) e(1,2) x(1)] x(2) e(3) by auto
qed

subsection \<open>Delivery of results\<close>

lemma claim_outbox_grants:
  assumes run: "claim_outbox_body cfg owner d ts k = Inr (Some q, t)" and k: "at_time ts k"
  obtains p k2 where "later k k2" and "at_time ts k2" and "p \<in> set (outbox k2)" and "o_state p = Pending"
    and "o_attempts p < o_max_attempts p" and "claim_outbox_row cfg owner d p ts k2 = Inr (q, t)"
proof -
  let ?dead = "\<lambda>o'. o_state o' = Pending \<and> o_max_attempts o' \<le> o_attempts o'"
  let ?live = "\<lambda>o'. o_state o' = Pending \<and> o_attempts o' < o_max_attempts o' \<and> o_next_at o' \<le> ts"
  obtain ids k1 us k2 where rp: "reap_outbox_in_transaction ts k = Inr (ids, k1)"
      and ex: "each (exhaust_outbox_row ts) (sql_select ?dead outbox_order (outbox k1)) k1 = Inr (us, k2)"
      and go: "(case sql_select ?live outbox_order (outbox k2) of [] \<Rightarrow> ret None
        | row # _ \<Rightarrow> bind (claim_outbox_row cfg owner d row ts) (\<lambda>claimed. ret (Some claimed))) k2 = Inr (Some q, t)"
    using run unfolding claim_outbox_body_def by (elim bindE) auto
  have l: "later k k2"
    using runsD[OF later_reap_outbox rp] runsD[OF later.each_rule[OF later_exhaust_outbox_row] ex] later_trans by blast
  have k2: "at_time ts k2" by (rule exhaust_all_ok[OF soundD[OF reap_outbox_in_transaction_sound k rp] ex])
  show ?thesis
  proof (cases "sql_select ?live outbox_order (outbox k2)")
    case (Cons p ps)
    then have "p \<in> set (sql_select ?live outbox_order (outbox k2))" by simp
    then have "p \<in> set (outbox k2)" "o_state p = Pending" "o_attempts p < o_max_attempts p" by auto
    then show ?thesis using that[OF l k2] go Cons by (auto simp: bind_Inr)
  qed (use go in simp)
qed

text \<open>
  C24. A delivery is claimed under a fence above all earlier ones, within its maximal number of
  attempts, and for a lease live at the reading of the clock; the result it delivers is the one
  the outbox held for it before.
\<close>
theorem delivery_claimed:
  assumes "claim_outbox cfg w owner d k = (Inr (Some q), t)" and "kernel_ok k" and "config_ok cfg" and "is_float w"
  shows "find_outbox (o_result_id q) t = Some q \<and> o_lease_owner q = Some owner \<and> o_attempts q \<le> o_max_attempts q \<and>
    live_delivery q (the (o_lease_id q)) (o_fence q) (watermark t) \<and>
    (\<forall>p. find_outbox (o_result_id q) k = Some p \<longrightarrow> o_fence p < o_fence q \<and> o_result q = o_result p)"
proof -
  obtain dur where dur: "lease_duration cfg d = Inr dur" and tr: "transaction w (claim_outbox_body cfg owner dur) k = (Inr (Some q), t)"
    using assms(1) by (auto simp: claim_outbox_def split: if_splits sum.splits)
  have pos: "0 < dur"
    using dur assms(3) by (cases d)
      (auto simp: lease_duration_def config_ok_def positive_duration_def rbind_eq_Inr split: if_splits)
  obtain ts where run: "claim_outbox_body cfg owner dur ts (k\<lparr>watermark := ts\<rparr>) = Inr (Some q, t)" and at: "at_time ts (k\<lparr>watermark := ts\<rparr>)"
    by (rule transaction_at_time[OF tr assms(2,4)])
  obtain p k2 where l: "later (k\<lparr>watermark := ts\<rparr>) k2" and k2: "at_time ts k2" and p: "p \<in> set (outbox k2)" "o_state p = Pending"
    "o_attempts p < o_max_attempts p" and go: "claim_outbox_row cfg owner dur p ts k2 = Inr (q, t)"
    by (rule claim_outbox_grants[OF run at])
  obtain i e where q: "q = claimed_delivery p i owner e ts" "checked_add ts dur = Inr e" "find_outbox (o_result_id p) t = Some q"
    "at_time ts t"
    using claim_outbox_row_ok[OF k2 p go] by blast
  have e: "ts < e" using q(2) pos by (simp add: checked_add_Inr)
  have id: "o_result_id q = o_result_id p" "o_result q = o_result p" "o_fence q = o_fence p + 1" by (simp_all add: q(1) claimed_delivery_def)
  have "o_fence p0 < o_fence q \<and> o_result q = o_result p0" if p0: "find_outbox (o_result_id q) k = Some p0" for p0
  proof -
    have "p0 \<in> set (outbox (k\<lparr>watermark := ts\<rparr>))" "o_result_id p0 = o_result_id p"
      using p0 id by (auto simp: kernel_find_outbox[OF assms(2)])
    then obtain p1 where p1: "p1 \<in> set (outbox k2)" "outbox_later p0 p1" using laterD(4)[OF l] by blast
    have "o_result_id p1 = o_result_id p" using p1(2) \<open>o_result_id p0 = _\<close> by (auto simp: outbox_later_def same_delivery_def)
    then have "p1 = p"
      using k2 p1(1) p(1) by (auto simp: at_time_def kernel_ok_def outbox_ok_def dest: outbox_table.key_inj)
    then show ?thesis using p1(2) id by (auto simp: outbox_later_def same_delivery_def)
  qed
  then show ?thesis
    using q id e p(3) by (auto simp: at_time_def live_delivery_def held_by_def claimed_delivery_def)
qed

theorem delivery_claimed_witness:
  "\<exists>q t. claim_outbox example_config 7 ''d'' None ended_kernel = (Inr (Some q), t) \<and>
     live_delivery q (the (o_lease_id q)) (o_fence q) (watermark t) \<and> o_attempts q \<le> o_max_attempts q"
proof -
  let ?r = "claim_outbox example_config 7 ''d'' None ended_kernel"
  have "(case fst ?r of Inr (Some q) \<Rightarrow> True | _ \<Rightarrow> False)" by code_simp
  then obtain q where "fst ?r = Inr (Some q)" by (auto split: sum.splits option.splits)
  then have r: "?r = (Inr (Some q), snd ?r)" by (simp add: prod_eq_iff)
  show ?thesis using delivery_claimed[OF r example_kernels_ok(4) example_config_ok example_times(7)] r by blast
qed

text \<open>
  C25. Only the holder of a delivery acknowledges it: an acknowledgement that is accepted comes
  under the lease and fence the delivery is held with, while the lease is live, and marks it
  delivered; repeated by the same holder it changes no delivery.
\<close>
theorem delivery_acknowledged:
  assumes "ack_outbox w i lid n k = (Inr q, t)" and "kernel_ok k" and "is_float w"
  shows "\<exists>p. find_outbox i k = Some p \<and> held_by p lid n \<and> find_outbox i t = Some q \<and> o_state q = Delivered \<and>
    (if o_state p = Delivered then q = p \<and> outbox t = outbox k
     else live_delivery p lid n (watermark t) \<and> q = acked_delivery p (watermark t))"
proof -
  have tr: "transaction w (ack_outbox_body i lid n) k = (Inr q, t)"
    using assms(1) by (auto simp: ack_outbox_def split: sum.splits)
  obtain ts where run: "ack_outbox_body i lid n ts (k\<lparr>watermark := ts\<rparr>) = Inr (q, t)" and at: "at_time ts (k\<lparr>watermark := ts\<rparr>)"
    by (rule transaction_at_time[OF tr assms(2,3)])
  have live: "live_delivery p lid n ts \<Longrightarrow> o_state p \<noteq> Delivered" for p by (simp add: live_delivery_def)
  obtain p where p: "find_outbox i k = Some p" "held_by p lid n" "watermark t = ts"
    "t = k\<lparr>watermark := ts\<rparr> \<and> q = p \<and> o_state p = Delivered \<or>
     live_delivery p lid n ts \<and> q = acked_delivery p ts \<and> find_outbox i t = Some q"
    using ack_outbox_ok[OF run at] by (auto simp: at_time_def)
  show ?thesis
  proof (cases "o_state p = Delivered")
    case True
    then have "t = k\<lparr>watermark := ts\<rparr>" "q = p" using p(4) live[of p] by auto
    then have "find_outbox i t = Some p" "outbox t = outbox k" using p(1) by simp_all
    then show ?thesis using True p(1,2) \<open>q = p\<close> by (intro exI[of _ p]) simp
  next
    case False
    then show ?thesis using p by (intro exI[of _ p]) (auto simp: acked_delivery_def)
  qed
qed

theorem delivery_acknowledged_witness:
  "\<exists>q t. ack_outbox 9 ''q1'' ''abb'' 1 delivered_kernel = (Inr q, t) \<and> find_outbox ''q1'' t = Some q \<and> o_state q = Delivered"
proof -
  let ?r = "ack_outbox 9 ''q1'' ''abb'' 1 delivered_kernel"
  have "\<not> isl (fst ?r)" by code_simp
  then have r: "?r = (Inr (projr (fst ?r)), snd ?r)" by (cases "fst ?r") (simp_all add: prod_eq_iff)
  have k: "kernel_ok delivered_kernel" by (rule history_ok[OF ended_to_delivered example_kernels_ok(4) example_config_ok])
  show ?thesis using delivery_acknowledged[OF r k example_times(9)] r by blast
qed

end
