(* ===== verification/Tasks.thy ===== *)
theory Tasks
  imports Store "HOL-Library.Finite_Map"
begin

text \<open>
  The data of an orchestrated Run and the checked operations on it
  (\<open>orchestrator/contracts.py\<close>): tasks with their dependencies and attempts, waits, signals,
  the operations an application sends, and \<open>validate_operation\<close>.

  A Python dictionary with string keys is a finite map. The dictionary of a validated
  operation has exactly the fields of its kind, so it is a constructor with these fields;
  a field the validation leaves unchecked stays a dynamically typed value.
\<close>

subsection \<open>Errors and field checks\<close>

datatype oerr =
    OrchestrationError
  | RevisionConflict
  | CommandConflict
  | EventCursorExpired
  | HistoryExpired
  | RunDisposed
  | RevisionError
  | Type_Error
  | Key_Error
  | Integrity_Error
  | Kernel_Error kerr

text \<open>A call of the execution kernel's code passes its exceptions on.\<close>

fun from_kernel :: "kerr + 'a \<Rightarrow> oerr + 'a" where
  "from_kernel (Inl e) = Inl (Kernel_Error e)"
| "from_kernel (Inr a) = Inr a"

lemma from_kernel_Inr [simp]: "from_kernel r = Inr a \<longleftrightarrow> r = Inr a"
  by (cases r) auto

text \<open>\<open>clone\<close> reads the canonical text back: the keys of every object come out sorted.\<close>

definition clone :: "pyval \<Rightarrow> oerr + pyval" where
  "clone v = (if json_ok v then Inr (canon v) else Inl OrchestrationError)"

fun identifier_of :: "pyval \<Rightarrow> oerr + string" where
  "identifier_of (PStr s) = (if nonblank s then Inr s else Inl OrchestrationError)"
| "identifier_of _ = Inl OrchestrationError"

fun natural_of :: "pyval \<Rightarrow> oerr + int" where
  "natural_of (PInt i) = (if i < 0 then Inl OrchestrationError else Inr i)"
| "natural_of _ = Inl OrchestrationError"

subsection \<open>Runs\<close>

text \<open>
  The state of an attempt: not dispatched, handed to the outbox, or the state the kernel
  reported. \<open>TERMINAL\<close> are the kernel's terminal states.
\<close>

datatype attempt_state = Planned | Pending_Dispatch | Observed xstate

fun settled_state :: "attempt_state \<Rightarrow> bool" where
  "settled_state (Observed s) = terminal s"
| "settled_state _ = False"

record attempt =
  at_command :: command
  at_state :: attempt_state
  at_result :: pyval
  at_dispatched :: bool
  at_kernel_revision :: int
  at_kernel_snapshot :: pyval
  at_cancel_reason :: "string option"
  at_dependency_attempts :: "(string \<times> nat) list option"
  at_generation :: int

abbreviation settled :: "attempt \<Rightarrow> bool" where
  "settled a \<equiv> settled_state (at_state a)"

record task =
  tk_task_id :: string
  tk_dependencies :: "string list"
  tk_attempts :: "attempt list"

abbreviation current_attempt :: "task \<Rightarrow> attempt" where
  "current_attempt t \<equiv> last (tk_attempts t)"

record wait =
  w_open :: bool
  w_payload :: pyval

datatype run_end = Run_Succeeded | Run_Failed | Run_Cancelled

datatype run_state = Run_Running | Ended run_end

record orun =
  rn_run_id :: string
  rn_revision :: int
  rn_state :: run_state
  rn_generation :: int
  rn_input :: pyval
  rn_definition :: pyval
  rn_application_state :: pyval
  rn_tasks :: "(string, task) fmap"
  rn_waits :: "(string, wait) fmap"
  rn_signals :: "(string, pyval) fmap"

text \<open>The messages the outbox carries to the kernel.\<close>

datatype intent_kind = Dispatch_Intent | Cancel_Intent string

record intent =
  it_kind :: intent_kind
  it_execution_id :: string
  it_command :: command
  it_generation :: int

text \<open>\<open>RUN_TERMINAL\<close>; a value that cannot be hashed has no place in a set.\<close>

fun run_terminal :: "pyval \<Rightarrow> oerr + run_end" where
  "run_terminal (PStr s) =
     (if s = ''succeeded'' then Inr Run_Succeeded
      else if s = ''failed'' then Inr Run_Failed
      else if s = ''cancelled'' then Inr Run_Cancelled
      else Inl OrchestrationError)"
| "run_terminal (PList xs) = Inl Type_Error"
| "run_terminal (PDict kvs) = Inl Type_Error"
| "run_terminal _ = Inl OrchestrationError"

text \<open>\<open>attempt\<close>: a planned attempt of a command.\<close>

definition new_attempt :: "pyval \<Rightarrow> oerr + attempt" where
  "new_attempt v = rbind (from_kernel (command_from_dict v)) (\<lambda>c.
     Inr \<lparr>at_command = c, at_state = Planned, at_result = PNone, at_dispatched = False,
          at_kernel_revision = 0, at_kernel_snapshot = PNone, at_cancel_reason = None,
          at_dependency_attempts = None, at_generation = 0\<rparr>)"

lemma command_from_dict_ok: "command_from_dict v = Inr c \<Longrightarrow> command_ok c"
  by (auto simp: command_from_dict_def rbind_eq_Inr retry_policy_from_dict_def
      dest!: mk_retry_policy_ok intro: mk_command_ok)

subsection \<open>Operations\<close>

datatype operation =
    Add_Task string pyval "pyval option"
  | Set_Dependencies string pyval
  | Dispatch_Task string
  | New_Attempt string pyval
  | Cancel_Task string string
  | Open_Wait string "pyval option"
  | Send_Signal string pyval
  | Release_Wait string
  | Finish_Run pyval
  | Watch_Task string string pyval "pyval option"

text \<open>The required and the optional fields of each kind.\<close>

definition op_schemas :: "(string \<times> string list \<times> string list) list" where
  "op_schemas =
     [(''add_task'', [''task_id'', ''command''], [''dependencies'']),
      (''set_dependencies'', [''task_id'', ''dependencies''], []),
      (''dispatch'', [''task_id''], []),
      (''new_attempt'', [''task_id'', ''command''], []),
      (''cancel'', [''task_id'', ''reason''], []),
      (''wait'', [''wait_id''], [''payload'']),
      (''signal'', [''signal_id'', ''payload''], []),
      (''release_wait'', [''wait_id''], []),
      (''finish'', [''state''], []),
      (''watch_task'', [''task_id'', ''watch_id'', ''target''], [''max_deliveries''])]"

definition op_identifiers :: "string list" where
  "op_identifiers = [''task_id'', ''wait_id'', ''signal_id'', ''reason'', ''watch_id'']"

definition has_field :: "(pyval \<times> pyval) list \<Rightarrow> string \<Rightarrow> bool" where
  "has_field kvs f = (map_of kvs (PStr f) \<noteq> None)"

text \<open>The fields of a checked dictionary, as the constructor of its kind.\<close>

definition operation_of :: "string \<Rightarrow> (pyval \<times> pyval) list \<Rightarrow> operation" where
  "operation_of kind kvs =
     (let str = \<lambda>f. pystr (dict_get kvs f); field = dict_get kvs;
          optional = \<lambda>f. map_of kvs (PStr f)
      in if kind = ''add_task'' then Add_Task (str ''task_id'') (field ''command'') (optional ''dependencies'')
      else if kind = ''set_dependencies'' then Set_Dependencies (str ''task_id'') (field ''dependencies'')
      else if kind = ''dispatch'' then Dispatch_Task (str ''task_id'')
      else if kind = ''new_attempt'' then New_Attempt (str ''task_id'') (field ''command'')
      else if kind = ''cancel'' then Cancel_Task (str ''task_id'') (str ''reason'')
      else if kind = ''wait'' then Open_Wait (str ''wait_id'') (optional ''payload'')
      else if kind = ''signal'' then Send_Signal (str ''signal_id'') (field ''payload'')
      else if kind = ''release_wait'' then Release_Wait (str ''wait_id'')
      else if kind = ''finish'' then Finish_Run (field ''state'')
      else Watch_Task (str ''task_id'') (str ''watch_id'') (field ''target'') (optional ''max_deliveries''))"

definition validate_operation :: "pyval \<Rightarrow> oerr + operation" where
  "validate_operation v =
     (case v of
        PDict kvs \<Rightarrow>
          (case dict_get kvs ''kind'' of
             PStr kind \<Rightarrow>
               (case map_of op_schemas kind of
                  None \<Rightarrow> Inl OrchestrationError
                | Some (required, optional) \<Rightarrow>
                    rbind (require (list_all (has_field kvs) required \<and>
                        list_all (\<lambda>kv. fst kv \<in> PStr ` set (''kind'' # required @ optional)) kvs)
                      OrchestrationError) (\<lambda>_.
                    rbind (require (list_all (\<lambda>f. has_field kvs f \<longrightarrow> \<not> isl (identifier_of (dict_get kvs f)))
                        op_identifiers) OrchestrationError) (\<lambda>_.
                    rbind (clone v) (\<lambda>w.
                      case w of PDict copied \<Rightarrow> Inr (operation_of kind copied)
                      | _ \<Rightarrow> Inl OrchestrationError))))
           | _ \<Rightarrow> Inl OrchestrationError)
      | _ \<Rightarrow> Inl OrchestrationError)"

text \<open>The validated dictionary itself, up to the order of its keys.\<close>

fun operation_to_dict :: "operation \<Rightarrow> pyval" where
  "operation_to_dict (Add_Task t c ds) = py_dict ([(''kind'', PStr ''add_task''), (''task_id'', PStr t),
     (''command'', c)] @ (case ds of None \<Rightarrow> [] | Some d \<Rightarrow> [(''dependencies'', d)]))"
| "operation_to_dict (Set_Dependencies t d) = py_dict [(''kind'', PStr ''set_dependencies''),
     (''task_id'', PStr t), (''dependencies'', d)]"
| "operation_to_dict (Dispatch_Task t) = py_dict [(''kind'', PStr ''dispatch''), (''task_id'', PStr t)]"
| "operation_to_dict (New_Attempt t c) = py_dict [(''kind'', PStr ''new_attempt''), (''task_id'', PStr t),
     (''command'', c)]"
| "operation_to_dict (Cancel_Task t r) = py_dict [(''kind'', PStr ''cancel''), (''task_id'', PStr t),
     (''reason'', PStr r)]"
| "operation_to_dict (Open_Wait w p) = py_dict ([(''kind'', PStr ''wait''), (''wait_id'', PStr w)] @
     (case p of None \<Rightarrow> [] | Some v \<Rightarrow> [(''payload'', v)]))"
| "operation_to_dict (Send_Signal s p) = py_dict [(''kind'', PStr ''signal''), (''signal_id'', PStr s),
     (''payload'', p)]"
| "operation_to_dict (Release_Wait w) = py_dict [(''kind'', PStr ''release_wait''), (''wait_id'', PStr w)]"
| "operation_to_dict (Finish_Run s) = py_dict [(''kind'', PStr ''finish''), (''state'', s)]"
| "operation_to_dict (Watch_Task t w g m) = py_dict ([(''kind'', PStr ''watch_task''), (''task_id'', PStr t),
     (''watch_id'', PStr w), (''target'', g)] @ (case m of None \<Rightarrow> [] | Some v \<Rightarrow> [(''max_deliveries'', v)]))"

end
