(* ===== verification/Reducer.thy ===== *)
theory Reducer
  imports Tasks
begin

text \<open>
  The mechanical reducer of a Run (\<open>orchestrator/reducer.py\<close>): the check of a task's
  dependencies with its depth-first search for a cycle, and \<open>reduce_operation\<close>, which
  changes a private snapshot of the Run and returns the messages to deliver. The lemmas
  show that the search decides reachability in the dependency graph and ends, and that
  every operation keeps the Run well formed.
\<close>

subsection \<open>Dependencies\<close>

text \<open>
  \<open>reaches\<close> over a list of tasks, as the code runs it: \<open>any\<close> stops at the first task that
  reaches the goal, and the set of seen tasks is shared by the recursive calls.
\<close>

function any_reaches ::
  "(string, task) fmap \<Rightarrow> string \<Rightarrow> string list \<Rightarrow> string list \<Rightarrow> oerr + bool \<times> string list" where
  "any_reaches tasks goal [] seen = Inr (False, seen)"
| "any_reaches tasks goal (v # vs) seen =
     rbind (if v = goal then Inr (True, seen)
            else if v \<in> set seen then Inr (False, seen)
            else case fmlookup tasks v of
                None \<Rightarrow> Inl Key_Error
              | Some t \<Rightarrow> any_reaches tasks goal (tk_dependencies t) (v # seen))
       (\<lambda>(found, seen'). if found then Inr (True, seen') else any_reaches tasks goal vs seen')"
  by pat_completeness auto

lemma any_reaches_seen:
  assumes "any_reaches_dom (tasks, goal, vs, seen)"
  shows "any_reaches tasks goal vs seen = Inr (b, seen') \<Longrightarrow> set seen \<subseteq> set seen'"
  using assms
proof (induction arbitrary: b seen' rule: any_reaches.pinduct)
  case (1 tasks goal seen)
  then show ?case by (simp add: any_reaches.psimps)
next
  case (2 tasks goal v vs seen)
  let ?first = "if v = goal then Inr (True, seen) else if v \<in> set seen then Inr (False, seen)
     else case fmlookup tasks v of None \<Rightarrow> Inl Key_Error
       | Some t \<Rightarrow> any_reaches tasks goal (tk_dependencies t) (v # seen)"
  obtain f s where first: "?first = Inr (f, s)"
    and rest: "(if f then Inr (True, s) else any_reaches tasks goal vs s) = Inr (b, seen')"
    using 2(4) by (auto simp: any_reaches.psimps(2)[OF 2(1)] rbind_eq_Inr)
  have "set seen \<subseteq> set s"
    using first 2(2) by (auto split: if_splits option.splits)
  moreover have "set s \<subseteq> set seen'"
    using rest 2(3)[OF first refl] by (auto split: if_splits)
  ultimately show ?case by blast
qed

lemma unseen_less: "v \<notin> set seen \<Longrightarrow> fmlookup tasks v = Some t \<Longrightarrow>
    card (fmdom' tasks - insert v (set seen)) < card (fmdom' tasks - set seen)"
  by (rule psubset_card_mono) (auto simp: finite_fmdom' intro: fmdom'I)

lemma unseen_le: "set seen \<subseteq> set seen' \<Longrightarrow> card (fmdom' tasks - set seen') \<le> card (fmdom' tasks - set seen)"
  by (rule card_mono) (auto simp: finite_fmdom')

termination any_reaches
proof (relation "inv_image (less_than <*lex*> less_than)
    (\<lambda>(tasks, goal, vs, seen). (card (fmdom' tasks - set seen), length vs))", goal_cases)
  case 1
  show ?case by (intro wf_inv_image wf_lex_prod wf_less_than)
next
  case (2 tasks goal v vs seen t)
  then show ?case by (simp add: unseen_less)
next
  case (3 tasks goal v vs seen r found seen')
  have "set seen \<subseteq> set seen'"
  proof (cases "v = goal \<or> v \<in> set seen")
    case True
    then show ?thesis using 3(1,2) by (auto split: if_splits)
  next
    case False
    then obtain t where t: "fmlookup tasks v = Some t"
      and run: "any_reaches tasks goal (tk_dependencies t) (v # seen) = Inr (found, seen')"
      using 3(1,2) by (auto split: option.splits)
    have "any_reaches_dom (tasks, goal, tk_dependencies t, v # seen)"
      using 3(4)[of t] False t by simp
    then show ?thesis using any_reaches_seen[OF _ run] by simp
  qed
  then have "card (fmdom' tasks - set seen') \<le> card (fmdom' tasks - set seen)"
    by (rule unseen_le)
  then show ?case by auto
qed

definition reaches :: "(string, task) fmap \<Rightarrow> string \<Rightarrow> string \<Rightarrow> oerr + bool" where
  "reaches tasks goal v = rbind (any_reaches tasks goal [v] []) (\<lambda>(found, _). Inr found)"

fun any_true :: "('a \<Rightarrow> 'e + bool) \<Rightarrow> 'a list \<Rightarrow> 'e + bool" where
  "any_true f [] = Inr False"
| "any_true f (x # xs) = rbind (f x) (\<lambda>b. if b then Inr True else any_true f xs)"

definition dependencies :: "(string, task) fmap \<Rightarrow> string \<Rightarrow> pyval \<Rightarrow> oerr + string list" where
  "dependencies tasks task_id values =
     (case values of
        PList vs \<Rightarrow>
          if \<not> list_all is_PStr vs then Inl OrchestrationError
          else let ds = List.map pystr vs in
            rbind (require (distinct ds \<and> task_id \<notin> set ds) OrchestrationError) (\<lambda>_.
            rbind (require (list_all (\<lambda>v. fmlookup tasks v \<noteq> None) ds) OrchestrationError) (\<lambda>_.
            rbind (any_true (reaches tasks task_id) ds) (\<lambda>cycle.
            rbind (require (\<not> cycle) OrchestrationError) (\<lambda>_. Inr ds))))
      | _ \<Rightarrow> Inl OrchestrationError)"

subsection \<open>The operations\<close>

text \<open>The messages carry no generation yet: the engine sets it.\<close>

definition with_tasks :: "((string, task) fmap \<Rightarrow> (string, task) fmap) \<Rightarrow> orun \<Rightarrow> orun" where
  "with_tasks f s = s\<lparr>rn_tasks := f (rn_tasks s)\<rparr>"

definition set_current :: "task \<Rightarrow> attempt \<Rightarrow> task" where
  "set_current t a = t\<lparr>tk_attempts := butlast (tk_attempts t) @ [a]\<rparr>"

definition add_task :: "orun \<Rightarrow> string \<Rightarrow> pyval \<Rightarrow> pyval option \<Rightarrow> oerr + orun" where
  "add_task s task_id command deps =
     rbind (require (fmlookup (rn_tasks s) task_id = None) OrchestrationError) (\<lambda>_.
     rbind (dependencies (rn_tasks s) task_id (case deps of None \<Rightarrow> PList [] | Some v \<Rightarrow> v)) (\<lambda>ds.
     rbind (new_attempt command) (\<lambda>a.
     Inr (with_tasks (fmupd task_id
       \<lparr>tk_task_id = task_id, tk_dependencies = ds, tk_attempts = [a]\<rparr>) s))))"

definition set_dependencies :: "orun \<Rightarrow> string \<Rightarrow> task \<Rightarrow> pyval \<Rightarrow> oerr + orun" where
  "set_dependencies s task_id t values =
     rbind (require (length (tk_attempts t) = 1 \<and> at_state (current_attempt t) = Planned)
       OrchestrationError) (\<lambda>_.
     rbind (dependencies (rn_tasks s) task_id values) (\<lambda>ds.
     Inr (with_tasks (fmupd task_id (t\<lparr>tk_dependencies := ds\<rparr>)) s)))"

definition add_attempt :: "orun \<Rightarrow> string \<Rightarrow> task \<Rightarrow> pyval \<Rightarrow> oerr + orun" where
  "add_attempt s task_id t command =
     rbind (require (settled (current_attempt t)) OrchestrationError) (\<lambda>_.
     rbind (new_attempt command) (\<lambda>a.
     Inr (with_tasks (fmupd task_id (t\<lparr>tk_attempts := tk_attempts t @ [a]\<rparr>)) s)))"

definition dependency_task :: "orun \<Rightarrow> string \<Rightarrow> oerr + task" where
  "dependency_task s v = expect (fmlookup (rn_tasks s) v) Key_Error"

definition unsettled_dependency :: "orun \<Rightarrow> string \<Rightarrow> oerr + bool" where
  "unsettled_dependency s v = rbind (dependency_task s v) (\<lambda>d. Inr (\<not> settled (current_attempt d)))"

definition last_index :: "orun \<Rightarrow> string \<Rightarrow> nat" where
  "last_index s v = (case fmlookup (rn_tasks s) v of None \<Rightarrow> 0 | Some d \<Rightarrow> length (tk_attempts d) - 1)"

definition dispatch_task :: "orun \<Rightarrow> string \<Rightarrow> task \<Rightarrow> oerr + intent list \<times> orun" where
  "dispatch_task s task_id t =
     (let a = current_attempt t in
      rbind (require (at_state a = Planned) OrchestrationError) (\<lambda>_.
      rbind (any_true (unsettled_dependency s) (tk_dependencies t)) (\<lambda>waiting.
      rbind (require (\<not> waiting) OrchestrationError) (\<lambda>_.
      Inr ([\<lparr>it_kind = Dispatch_Intent, it_execution_id = c_execution_id (at_command a),
             it_command = at_command a, it_generation = 0\<rparr>],
           with_tasks (fmupd task_id (set_current t (a\<lparr>at_state := Pending_Dispatch,
             at_dispatched := True,
             at_dependency_attempts := Some (List.map (\<lambda>v. (v, last_index s v)) (tk_dependencies t))\<rparr>))) s)))))"

definition cancel_task :: "orun \<Rightarrow> string \<Rightarrow> task \<Rightarrow> string \<Rightarrow> oerr + intent list \<times> orun" where
  "cancel_task s task_id t reason =
     (let a = current_attempt t in
      if at_state a = Planned then
        Inr ([], with_tasks (fmupd task_id (set_current t
          (a\<lparr>at_state := Observed Cancelled, at_cancel_reason := Some reason\<rparr>))) s)
      else if \<not> settled a then
        Inr ([\<lparr>it_kind = Cancel_Intent reason, it_execution_id = c_execution_id (at_command a),
               it_command = at_command a, it_generation = 0\<rparr>], s)
      else Inr ([], s))"

definition open_wait :: "orun \<Rightarrow> string \<Rightarrow> pyval option \<Rightarrow> oerr + orun" where
  "open_wait s w payload =
     rbind (require (fmlookup (rn_waits s) w = None) OrchestrationError) (\<lambda>_.
     Inr (s\<lparr>rn_waits := fmupd w \<lparr>w_open = True,
       w_payload = (case payload of None \<Rightarrow> PNone | Some v \<Rightarrow> v)\<rparr> (rn_waits s)\<rparr>))"

definition release_wait :: "orun \<Rightarrow> string \<Rightarrow> oerr + orun" where
  "release_wait s w =
     (case fmlookup (rn_waits s) w of
        None \<Rightarrow> Inl OrchestrationError
      | Some x \<Rightarrow>
          if \<not> w_open x then Inl OrchestrationError
          else Inr (s\<lparr>rn_waits := fmupd w (x\<lparr>w_open := False\<rparr>) (rn_waits s)\<rparr>))"

definition send_signal :: "orun \<Rightarrow> string \<Rightarrow> pyval \<Rightarrow> oerr + orun" where
  "send_signal s i payload =
     rbind (require (fmlookup (rn_signals s) i = None) OrchestrationError) (\<lambda>_.
     Inr (s\<lparr>rn_signals := fmupd i payload (rn_signals s)\<rparr>))"

definition finish_run :: "orun \<Rightarrow> pyval \<Rightarrow> oerr + orun" where
  "finish_run s state =
     rbind (run_terminal state) (\<lambda>e.
     rbind (require (fmpred (\<lambda>_ t. settled (current_attempt t)) (rn_tasks s)) OrchestrationError) (\<lambda>_.
     rbind (require (fmpred (\<lambda>_ w. \<not> w_open w) (rn_waits s)) OrchestrationError) (\<lambda>_.
     Inr (s\<lparr>rn_state := Ended e\<rparr>))))"

text \<open>An operation on an existing task.\<close>

definition on_task :: "orun \<Rightarrow> string \<Rightarrow> (task \<Rightarrow> oerr + intent list \<times> orun) \<Rightarrow> oerr + intent list \<times> orun" where
  "on_task s task_id f = rbind (expect (fmlookup (rn_tasks s) task_id) OrchestrationError) f"

definition silent :: "oerr + orun \<Rightarrow> oerr + intent list \<times> orun" where
  "silent r = rbind r (\<lambda>s. Inr ([], s))"

definition reduce_operation :: "orun \<Rightarrow> operation \<Rightarrow> oerr + intent list \<times> orun" where
  "reduce_operation s op =
     rbind (require (rn_state s = Run_Running) OrchestrationError) (\<lambda>_.
     case op of
       Add_Task t command deps \<Rightarrow> silent (add_task s t command deps)
     | Set_Dependencies t values \<Rightarrow> on_task s t (\<lambda>task. silent (set_dependencies s t task values))
     | New_Attempt t command \<Rightarrow> on_task s t (\<lambda>task. silent (add_attempt s t task command))
     | Dispatch_Task t \<Rightarrow> on_task s t (dispatch_task s t)
     | Cancel_Task t reason \<Rightarrow> on_task s t (\<lambda>task. cancel_task s t task reason)
     | Open_Wait w payload \<Rightarrow> silent (open_wait s w payload)
     | Release_Wait w \<Rightarrow> silent (release_wait s w)
     | Send_Signal i payload \<Rightarrow> silent (send_signal s i payload)
     | Finish_Run state \<Rightarrow> silent (finish_run s state)
     | Watch_Task t w g m \<Rightarrow> Inr ([], s))"

subsection \<open>The search decides reachability\<close>

definition dep_rel :: "(string, task) fmap \<Rightarrow> (string \<times> string) set" where
  "dep_rel tasks = {(a, b). \<exists>t. fmlookup tasks a = Some t \<and> b \<in> set (tk_dependencies t)}"

definition deps_known :: "(string, task) fmap \<Rightarrow> bool" where
  "deps_known tasks \<longleftrightarrow> (\<forall>k t. fmlookup tasks k = Some t \<longrightarrow> set (tk_dependencies t) \<subseteq> fmdom' tasks)"

lemma fmdom_lookup: "k \<in> fmdom' m \<longleftrightarrow> (\<exists>x. fmlookup m k = Some x)"
  by (auto simp: fmlookup_dom'_iff)

lemma deps_knownD: "deps_known tasks \<Longrightarrow> fmlookup tasks k = Some t \<Longrightarrow> set (tk_dependencies t) \<subseteq> fmdom' tasks"
  by (simp add: deps_known_def)

lemma dep_relI: "fmlookup tasks a = Some t \<Longrightarrow> b \<in> set (tk_dependencies t) \<Longrightarrow> (a, b) \<in> dep_rel tasks"
  by (auto simp: dep_rel_def)

lemma dep_rel_empty [simp]: "dep_rel fmempty = {}"
  by (simp add: dep_rel_def)

lemma any_reaches_total:
  "deps_known tasks \<Longrightarrow> set vs \<subseteq> fmdom' tasks \<Longrightarrow> \<exists>r. any_reaches tasks goal vs seen = Inr r"
proof (induction tasks goal vs seen rule: any_reaches.induct)
  case (2 tasks goal v vs seen)
  let ?first = "if v = goal then Inr (True, seen) else if v \<in> set seen then Inr (False, seen)
     else case fmlookup tasks v of None \<Rightarrow> Inl Key_Error
       | Some t \<Rightarrow> any_reaches tasks goal (tk_dependencies t) (v # seen)"
  obtain t where t: "fmlookup tasks v = Some t" using 2(4) by (auto simp: fmdom_lookup)
  have "\<exists>f s. ?first = Inr (f, s)"
    using 2(1)[OF _ _ t] 2(3) t by (auto simp: deps_known_def)
  then obtain f s where first: "?first = Inr (f, s)" by blast
  show ?case using 2(2)[OF first refl] 2(3,4) first by auto
qed auto

lemma any_reaches_found:
  "any_reaches tasks goal vs seen = Inr (True, seen') \<Longrightarrow> \<exists>v \<in> set vs. (v, goal) \<in> (dep_rel tasks)\<^sup>*"
proof (induction tasks goal vs seen arbitrary: seen' rule: any_reaches.induct)
  case (2 tasks goal v vs seen)
  let ?first = "if v = goal then Inr (True, seen) else if v \<in> set seen then Inr (False, seen)
     else case fmlookup tasks v of None \<Rightarrow> Inl Key_Error
       | Some t \<Rightarrow> any_reaches tasks goal (tk_dependencies t) (v # seen)"
  obtain f s where first: "?first = Inr (f, s)"
    and rest: "(if f then Inr (True, s) else any_reaches tasks goal vs s) = Inr (True, seen')"
    using 2(3) by (auto simp: rbind_eq_Inr)
  show ?case
  proof (cases f)
    case False
    then show ?thesis using 2(2)[OF first refl] rest by auto
  next
    case True
    show ?thesis
    proof (cases "v = goal")
      case goal: False
      then obtain t where t: "fmlookup tasks v = Some t" and v: "v \<notin> set seen"
        and run: "any_reaches tasks goal (tk_dependencies t) (v # seen) = Inr (True, s)"
        using first True by (auto split: if_splits option.splits)
      obtain w where "w \<in> set (tk_dependencies t)" and "(w, goal) \<in> (dep_rel tasks)\<^sup>*"
        using 2(1)[OF goal v t run] by blast
      then have "(v, goal) \<in> (dep_rel tasks)\<^sup>*"
        using dep_relI[OF t] by (meson converse_rtrancl_into_rtrancl)
      then show ?thesis by simp
    qed simp
  qed
qed simp

text \<open>
  When nothing is found, the tasks seen on the way are closed under dependencies, do not
  contain the goal, and contain every task asked for.
\<close>

lemma any_reaches_not_found:
  "any_reaches tasks goal vs seen = Inr (False, seen') \<Longrightarrow>
     set vs \<union> set seen \<subseteq> set seen' \<and> goal \<notin> set vs \<and>
     (\<forall>x \<in> set seen' - set seen. x \<noteq> goal \<and> dep_rel tasks `` {x} \<subseteq> set seen')"
proof (induction tasks goal vs seen arbitrary: seen' rule: any_reaches.induct)
  case (2 tasks goal v vs seen)
  let ?first = "if v = goal then Inr (True, seen) else if v \<in> set seen then Inr (False, seen)
     else case fmlookup tasks v of None \<Rightarrow> Inl Key_Error
       | Some t \<Rightarrow> any_reaches tasks goal (tk_dependencies t) (v # seen)"
  obtain f s where first: "?first = Inr (f, s)"
    and rest: "(if f then Inr (True, s) else any_reaches tasks goal vs s) = Inr (False, seen')"
    using 2(3) by (auto simp: rbind_eq_Inr)
  then have f: "\<not> f" and run: "any_reaches tasks goal vs s = Inr (False, seen')"
    by (auto split: if_splits)
  have goal: "v \<noteq> goal" using first f by (auto split: if_splits)
  have part: "{v} \<union> set seen \<subseteq> set s \<and> (\<forall>x \<in> set s - set seen. x \<noteq> goal \<and> dep_rel tasks `` {x} \<subseteq> set s)"
  proof (cases "v \<in> set seen")
    case True
    then show ?thesis using first goal f by simp
  next
    case False
    then obtain t where t: "fmlookup tasks v = Some t"
      and sub: "any_reaches tasks goal (tk_dependencies t) (v # seen) = Inr (False, s)"
      using first goal f by (auto split: option.splits)
    have "dep_rel tasks `` {v} = set (tk_dependencies t)" using t by (auto simp: dep_rel_def)
    with 2(1)[OF goal False t sub] have up: "{v} \<union> set seen \<subseteq> set s" "dep_rel tasks `` {v} \<subseteq> set s"
      and rest: "\<And>x. x \<in> set s - set (v # seen) \<Longrightarrow> x \<noteq> goal \<and> dep_rel tasks `` {x} \<subseteq> set s"
      by simp_all
    have "x \<noteq> goal \<and> dep_rel tasks `` {x} \<subseteq> set s" if "x \<in> set s - set seen" for x
      using up(2) goal rest[of x] that by (cases "x = v") simp_all
    then show ?thesis using up(1) by blast
  qed
  have whole: "set vs \<union> set s \<subseteq> set seen' \<and> goal \<notin> set vs \<and>
      (\<forall>x \<in> set seen' - set s. x \<noteq> goal \<and> dep_rel tasks `` {x} \<subseteq> set seen')"
    using 2(2)[OF first refl f run] .
  show ?case using part whole goal by (simp add: subset_iff) blast
qed simp

lemma closed_rtrancl: "(x, y) \<in> R\<^sup>* \<Longrightarrow> x \<in> S \<Longrightarrow> (\<And>z. z \<in> S \<Longrightarrow> R `` {z} \<subseteq> S) \<Longrightarrow> y \<in> S"
  by (induction rule: rtrancl_induct) auto

theorem reaches_iff:
  assumes "deps_known tasks" and "v \<in> fmdom' tasks"
  shows "reaches tasks goal v = Inr ((v, goal) \<in> (dep_rel tasks)\<^sup>*)"
proof -
  obtain f s where run: "any_reaches tasks goal [v] [] = Inr (f, s)"
    using any_reaches_total[of tasks "[v]" goal "[]"] assms by auto
  have "f \<longleftrightarrow> (v, goal) \<in> (dep_rel tasks)\<^sup>*"
  proof
    assume f
    then have "any_reaches tasks goal [v] [] = Inr (True, s)" using run by simp
    from any_reaches_found[OF this] show "(v, goal) \<in> (dep_rel tasks)\<^sup>*" by simp
  next
    assume path: "(v, goal) \<in> (dep_rel tasks)\<^sup>*"
    show f
    proof (rule ccontr)
      assume "\<not> f"
      then have "any_reaches tasks goal [v] [] = Inr (False, s)" using run by simp
      from any_reaches_not_found[OF this] have v: "v \<in> set s" and
        closed: "\<And>x. x \<in> set s \<Longrightarrow> x \<noteq> goal" "\<And>x. x \<in> set s \<Longrightarrow> dep_rel tasks `` {x} \<subseteq> set s"
        by auto
      show False using closed(1)[OF closed_rtrancl[OF path v closed(2)]] by simp
    qed
  qed
  then show ?thesis using run by (simp add: reaches_def)
qed

lemma any_true_Inr:
  "(\<And>x. x \<in> set xs \<Longrightarrow> f x = Inr (P x)) \<Longrightarrow> any_true f xs = Inr (\<exists>x \<in> set xs. P x)"
  by (induction xs) auto

text \<open>
  The accepted dependencies: known and distinct tasks, none of which depends, directly or
  not, on the task.
\<close>

lemma PStr_list: "list_all is_PStr vs \<Longrightarrow> List.map PStr (List.map pystr vs) = vs"
  by (induction vs) (auto elim!: is_PStr.elims)

lemma pystr_list [simp]: "list_all is_PStr (List.map PStr ds)" "List.map pystr (List.map PStr ds) = ds"
  by (auto simp: list_all_iff comp_def)

lemma dependencies_Inr:
  assumes known: "deps_known tasks"
  shows "dependencies tasks k values = Inr ds \<longleftrightarrow>
    values = PList (List.map PStr ds) \<and> distinct ds \<and> set ds \<subseteq> fmdom' tasks \<and>
    (\<forall>v \<in> set ds. (v, k) \<notin> (dep_rel tasks)\<^sup>*)" (is "_ \<longleftrightarrow> ?ok")
proof -
  have lookups: "list_all (\<lambda>v. \<exists>y. fmlookup tasks v = Some y) xs \<longleftrightarrow> set xs \<subseteq> fmdom' tasks" for xs
    by (auto simp: list_all_iff fmdom_lookup subset_iff)
  have search: "any_true (reaches tasks k) xs = Inr (\<exists>v \<in> set xs. (v, k) \<in> (dep_rel tasks)\<^sup>*)"
    if "set xs \<subseteq> fmdom' tasks" for xs
    by (rule any_true_Inr) (use that known reaches_iff in blast)
  have strings: "dependencies tasks k (PList (List.map PStr xs)) = Inr ds \<longleftrightarrow>
      xs = ds \<and> distinct xs \<and> k \<notin> set xs \<and> set xs \<subseteq> fmdom' tasks \<and>
      (\<forall>v \<in> set xs. (v, k) \<notin> (dep_rel tasks)\<^sup>*)" for xs
    by (simp add: dependencies_def Let_def lookups search result_simps cong: conj_cong del: map_map) auto
  show ?thesis
  proof
    assume run: "dependencies tasks k values = Inr ds"
    then obtain vs where vs: "values = PList vs" "list_all is_PStr vs"
      by (auto simp: dependencies_def split: pyval.splits if_splits)
    then obtain xs where "values = PList (List.map PStr xs)" using PStr_list by metis
    then show ?ok using run strings[of xs] by auto
  next
    assume ?ok
    then show "dependencies tasks k values = Inr ds" using strings[of ds] by auto
  qed
qed

subsection \<open>Well-formed runs\<close>

text \<open>
  An attempt's state says what has happened to it: a planned attempt has not been handed
  over; a dispatched one waits for the kernel or shows a revision the kernel reported, and
  records for every dependency the attempt that had settled when it was dispatched.
\<close>

definition state_ok :: "attempt \<Rightarrow> bool" where
  "state_ok a \<longleftrightarrow>
     (case at_state a of
        Planned \<Rightarrow> \<not> at_dispatched a \<and> at_kernel_revision a = 0
      | Pending_Dispatch \<Rightarrow> at_dispatched a \<and> at_kernel_revision a = 0
      | Observed x \<Rightarrow> if at_dispatched a then 1 \<le> at_kernel_revision a
                      else x = Cancelled \<and> at_kernel_revision a = 0)"

definition settled_at :: "(string, task) fmap \<Rightarrow> string \<times> nat \<Rightarrow> bool" where
  "settled_at tasks = (\<lambda>(d, i). \<exists>u. fmlookup tasks d = Some u \<and> i < length (tk_attempts u) \<and>
     settled (tk_attempts u ! i))"

definition attempt_ok :: "(string, task) fmap \<Rightarrow> task \<Rightarrow> attempt \<Rightarrow> bool" where
  "attempt_ok tasks t a \<longleftrightarrow> command_ok (at_command a) \<and> state_ok a \<and>
     (case at_dependency_attempts a of
        None \<Rightarrow> \<not> at_dispatched a
      | Some m \<Rightarrow> at_dispatched a \<and> List.map fst m = tk_dependencies t \<and> list_all (settled_at tasks) m)"

definition task_ok :: "(string, task) fmap \<Rightarrow> string \<Rightarrow> task \<Rightarrow> bool" where
  "task_ok tasks k t \<longleftrightarrow> tk_task_id t = k \<and> distinct (tk_dependencies t) \<and> tk_attempts t \<noteq> [] \<and>
     list_all settled (butlast (tk_attempts t)) \<and> list_all (attempt_ok tasks t) (tk_attempts t)"

definition tasks_ok :: "(string, task) fmap \<Rightarrow> bool" where
  "tasks_ok tasks \<longleftrightarrow> deps_known tasks \<and> acyclic (dep_rel tasks) \<and>
     (\<forall>k t. fmlookup tasks k = Some t \<longrightarrow> task_ok tasks k t)"

definition run_settled :: "orun \<Rightarrow> bool" where
  "run_settled s \<longleftrightarrow> fmpred (\<lambda>_ t. settled (current_attempt t)) (rn_tasks s) \<and>
     fmpred (\<lambda>_ w. \<not> w_open w) (rn_waits s)"

definition run_ok :: "orun \<Rightarrow> bool" where
  "run_ok s \<longleftrightarrow> tasks_ok (rn_tasks s) \<and> (rn_state s \<noteq> Run_Running \<longrightarrow> run_settled s)"

text \<open>
  What never changes: attempts are added behind the others, their commands stay, and a
  settled attempt stays as it is.
\<close>

definition attempts_le :: "attempt list \<Rightarrow> attempt list \<Rightarrow> bool" where
  "attempts_le xs ys \<longleftrightarrow> length xs \<le> length ys \<and>
     (\<forall>i < length xs. at_command (ys ! i) = at_command (xs ! i) \<and>
        (at_dispatched (xs ! i) \<longrightarrow> at_dispatched (ys ! i)) \<and>
        (settled (xs ! i) \<longrightarrow> ys ! i = xs ! i))"

definition tasks_le :: "(string, task) fmap \<Rightarrow> (string, task) fmap \<Rightarrow> bool" where
  "tasks_le m n \<longleftrightarrow> (\<forall>k t. fmlookup m k = Some t \<longrightarrow>
     (\<exists>u. fmlookup n k = Some u \<and> attempts_le (tk_attempts t) (tk_attempts u)))"

lemma attempts_le_refl [simp]: "attempts_le xs xs"
  by (simp add: attempts_le_def)

lemma attempts_le_trans: "attempts_le xs ys \<Longrightarrow> attempts_le ys zs \<Longrightarrow> attempts_le xs zs"
  by (simp add: attempts_le_def)

lemma tasks_le_refl [simp]: "tasks_le m m"
  by (simp add: tasks_le_def)

lemma tasks_le_trans: "tasks_le m n \<Longrightarrow> tasks_le n l \<Longrightarrow> tasks_le m l"
  unfolding tasks_le_def by (meson attempts_le_trans)

lemma settled_at_le: "tasks_le m n \<Longrightarrow> settled_at m x \<Longrightarrow> settled_at n x"
  by (fastforce simp: tasks_le_def settled_at_def attempts_le_def split: prod.splits)

lemma attempts_le_append: "attempts_le xs (xs @ [a])"
  by (simp add: attempts_le_def nth_append)

lemma attempts_le_last:
  "xs \<noteq> [] \<Longrightarrow> \<not> settled (last xs) \<Longrightarrow> at_command a = at_command (last xs) \<Longrightarrow>
     (at_dispatched (last xs) \<longrightarrow> at_dispatched a) \<Longrightarrow> attempts_le xs (butlast xs @ [a])"
  by (cases xs rule: rev_cases) (auto simp: attempts_le_def nth_append)

lemma attempt_ok_le:
  "tasks_le m n \<Longrightarrow> attempt_ok m t a \<Longrightarrow> tk_dependencies u = tk_dependencies t \<Longrightarrow> attempt_ok n u a"
  by (auto simp: attempt_ok_def list_all_iff split: option.splits dest: settled_at_le)

lemma tasks_le_upd:
  "(\<And>t. fmlookup m k = Some t \<Longrightarrow> attempts_le (tk_attempts t) (tk_attempts u)) \<Longrightarrow> tasks_le m (fmupd k u m)"
  by (auto simp: tasks_le_def)

subsection \<open>The dependency graph stays acyclic\<close>

lemma reach_new: "(x, k) \<in> (R \<union> {k} \<times> D)\<^sup>* \<Longrightarrow> (x, k) \<in> R\<^sup>*"
proof (induction rule: converse_rtrancl_induct)
  case (step x y)
  then show ?case by (auto intro: converse_rtrancl_into_rtrancl)
qed simp

lemma acyclic_new:
  assumes "finite D" and "acyclic R" and "\<And>d. d \<in> D \<Longrightarrow> (d, k) \<notin> R\<^sup>*"
  shows "acyclic (R \<union> {k} \<times> D)"
  using assms(1,3)
proof (induction D rule: finite_induct)
  case empty
  then show ?case using assms(2) by simp
next
  case (insert d D)
  have "R \<union> {k} \<times> insert d D = insert (k, d) (R \<union> {k} \<times> D)" by auto
  moreover have "(d, k) \<notin> (R \<union> {k} \<times> D)\<^sup>*" using insert(4)[of d] reach_new[of d k R D] by auto
  ultimately show ?case using insert by (simp add: acyclic_insert)
qed

lemma dep_rel_upd: "dep_rel (fmupd k u m) \<subseteq> dep_rel m \<union> {k} \<times> set (tk_dependencies u)"
  by (auto simp: dep_rel_def split: if_splits)

text \<open>
  The step every operation on tasks takes: one task written, its attempts extended and its
  dependencies unchanged or accepted by the check.
\<close>

lemma tasks_ok_upd:
  assumes ok: "tasks_ok m" and u: "task_ok (fmupd k u m) k u"
    and le: "\<And>t. fmlookup m k = Some t \<Longrightarrow> attempts_le (tk_attempts t) (tk_attempts u)"
    and deps: "(\<exists>t. fmlookup m k = Some t \<and> tk_dependencies u = tk_dependencies t) \<or>
      set (tk_dependencies u) \<subseteq> fmdom' m \<and> (\<forall>v \<in> set (tk_dependencies u). (v, k) \<notin> (dep_rel m)\<^sup>*)"
  shows "tasks_ok (fmupd k u m)" and "tasks_le m (fmupd k u m)"
proof -
  show le': "tasks_le m (fmupd k u m)" using le by (rule tasks_le_upd)
  have known: "set (tk_dependencies u) \<subseteq> fmdom' m"
    using deps ok deps_knownD[of m k] by (metis tasks_ok_def)
  have "acyclic (dep_rel (fmupd k u m))"
    using deps
  proof
    assume "\<exists>t. fmlookup m k = Some t \<and> tk_dependencies u = tk_dependencies t"
    then have "dep_rel (fmupd k u m) = dep_rel m" by (auto simp: dep_rel_def split: if_splits)
    then show ?thesis using ok by (simp add: tasks_ok_def)
  next
    assume "set (tk_dependencies u) \<subseteq> fmdom' m \<and> (\<forall>v \<in> set (tk_dependencies u). (v, k) \<notin> (dep_rel m)\<^sup>*)"
    then have "acyclic (dep_rel m \<union> {k} \<times> set (tk_dependencies u))"
      using ok by (intro acyclic_new) (auto simp: tasks_ok_def)
    then show ?thesis using dep_rel_upd by (rule acyclic_subset)
  qed
  moreover have "deps_known (fmupd k u m)"
    using ok known by (fastforce simp: tasks_ok_def deps_known_def)
  moreover have "task_ok (fmupd k u m) j t" if "fmlookup (fmupd k u m) j = Some t" for j t
  proof (cases "j = k")
    case True
    then show ?thesis using that u by simp
  next
    case False
    then have "task_ok m j t" using that ok by (simp add: tasks_ok_def)
    then show ?thesis using attempt_ok_le[OF le'] by (auto simp: task_ok_def list_all_iff)
  qed
  ultimately show "tasks_ok (fmupd k u m)" by (simp add: tasks_ok_def)
qed

subsection \<open>Every operation keeps a run well formed\<close>

definition run_le :: "orun \<Rightarrow> orun \<Rightarrow> bool" where
  "run_le s t \<longleftrightarrow> tasks_le (rn_tasks s) (rn_tasks t) \<and> fmdom' (rn_waits s) \<subseteq> fmdom' (rn_waits t) \<and>
     (\<forall>k v. fmlookup (rn_signals s) k = Some v \<longrightarrow> fmlookup (rn_signals t) k = Some v) \<and> rn_run_id t = rn_run_id s \<and> rn_revision t = rn_revision s \<and>
     rn_generation t = rn_generation s \<and> rn_input t = rn_input s \<and> rn_definition t = rn_definition s \<and>
     rn_application_state t = rn_application_state s \<and> (rn_state s \<noteq> Run_Running \<longrightarrow> t = s)"

lemma run_le_refl [simp]: "run_le s s"
  by (simp add: run_le_def)

lemma run_le_trans: "run_le s t \<Longrightarrow> run_le t u \<Longrightarrow> run_le s u"
  unfolding run_le_def by (auto intro: tasks_le_trans)

lemma run_ok_task: "run_ok s \<Longrightarrow> fmlookup (rn_tasks s) k = Some t \<Longrightarrow> task_ok (rn_tasks s) k t"
  by (simp add: run_ok_def tasks_ok_def)

lemma with_tasks_le:
  "rn_state s = Run_Running \<Longrightarrow> tasks_le (rn_tasks s) (f (rn_tasks s)) \<Longrightarrow> run_le s (with_tasks f s)"
  by (simp add: run_le_def with_tasks_def)

lemma with_tasks_ok: "rn_state s = Run_Running \<Longrightarrow> tasks_ok (f (rn_tasks s)) \<Longrightarrow> run_ok (with_tasks f s)"
  by (simp add: run_ok_def with_tasks_def)

lemma new_attempt_ok: "new_attempt v = Inr a \<Longrightarrow> attempt_ok m t a \<and> at_state a = Planned"
  by (auto simp: new_attempt_def rbind_eq_Inr attempt_ok_def state_ok_def dest: command_from_dict_ok)

lemma task_added_ok:
  assumes s: "run_ok s" "rn_state s = Run_Running" and fresh: "fmlookup (rn_tasks s) k = None"
    and ds: "distinct ds" "set ds \<subseteq> fmdom' (rn_tasks s)" "\<forall>v \<in> set ds. (v, k) \<notin> (dep_rel (rn_tasks s))\<^sup>*"
    and a: "\<And>m t. attempt_ok m t a"
  shows "run_ok (with_tasks (fmupd k \<lparr>tk_task_id = k, tk_dependencies = ds, tk_attempts = [a]\<rparr>) s) \<and>
    run_le s (with_tasks (fmupd k \<lparr>tk_task_id = k, tk_dependencies = ds, tk_attempts = [a]\<rparr>) s)"
proof -
  let ?m = "rn_tasks s" and ?u = "\<lparr>tk_task_id = k, tk_dependencies = ds, tk_attempts = [a]\<rparr>"
  have m: "tasks_ok ?m" using s by (simp add: run_ok_def)
  have u: "task_ok (fmupd k ?u ?m) k ?u" using ds a by (simp add: task_ok_def)
  have "tasks_ok (fmupd k ?u ?m)" "tasks_le ?m (fmupd k ?u ?m)"
    using tasks_ok_upd[OF m u] fresh ds by simp_all
  then show ?thesis using s with_tasks_ok with_tasks_le by blast
qed

lemma add_task_Inr:
  assumes run: "add_task s k c deps = Inr t" and s: "run_ok s"
  obtains ds a where "fmlookup (rn_tasks s) k = None" "new_attempt c = Inr a"
    "distinct ds" "set ds \<subseteq> fmdom' (rn_tasks s)" "\<forall>v \<in> set ds. (v, k) \<notin> (dep_rel (rn_tasks s))\<^sup>*"
    "t = with_tasks (fmupd k \<lparr>tk_task_id = k, tk_dependencies = ds, tk_attempts = [a]\<rparr>) s"
proof -
  have m: "deps_known (rn_tasks s)" using s by (simp add: run_ok_def tasks_ok_def)
  show ?thesis
    using run that by (auto simp: add_task_def rbind_eq_Inr dependencies_Inr[OF m])
qed

lemma add_task_ok:
  assumes run: "add_task s k c deps = Inr t" and s: "run_ok s" "rn_state s = Run_Running"
  shows "run_ok t \<and> run_le s t"
  using run s(1)
proof (rule add_task_Inr)
  fix ds a
  assume "new_attempt c = Inr a"
  then have a: "attempt_ok m u a" for m u by (simp add: new_attempt_ok)
  assume "fmlookup (rn_tasks s) k = None" "distinct ds" "set ds \<subseteq> fmdom' (rn_tasks s)"
    "\<forall>v \<in> set ds. (v, k) \<notin> (dep_rel (rn_tasks s))\<^sup>*"
    "t = with_tasks (fmupd k \<lparr>tk_task_id = k, tk_dependencies = ds, tk_attempts = [a]\<rparr>) s"
  then show ?thesis using task_added_ok[OF s, of k ds a] a by simp
qed

lemma set_dependencies_ok:
  assumes run: "set_dependencies s k x values = Inr t" and s: "run_ok s" "rn_state s = Run_Running"
    and x: "fmlookup (rn_tasks s) k = Some x"
  shows "run_ok t \<and> run_le s t"
proof -
  let ?m = "rn_tasks s"
  obtain ds where one: "length (tk_attempts x) = 1" and planned: "at_state (current_attempt x) = Planned"
    and ds: "dependencies ?m k values = Inr ds" and t: "t = with_tasks (fmupd k (x\<lparr>tk_dependencies := ds\<rparr>)) s"
    using run by (auto simp: set_dependencies_def rbind_eq_Inr)
  let ?u = "x\<lparr>tk_dependencies := ds\<rparr>"
  obtain a where a: "tk_attempts x = [a]" using one by (auto simp: length_Suc_conv)
  have m: "tasks_ok ?m" using s by (simp add: run_ok_def)
  have accepted: "distinct ds \<and> set ds \<subseteq> fmdom' ?m \<and> (\<forall>v \<in> set ds. (v, k) \<notin> (dep_rel ?m)\<^sup>*)"
    using ds m dependencies_Inr[of ?m k _ ds] by (simp add: tasks_ok_def)
  have "attempt_ok n ?u a" for n
    using run_ok_task[OF s(1) x] a planned
    by (auto simp: task_ok_def attempt_ok_def state_ok_def split: option.splits)
  then have u: "task_ok (fmupd k ?u ?m) k ?u"
    using accepted run_ok_task[OF s(1) x] a by (simp add: task_ok_def)
  have "tasks_ok (fmupd k ?u ?m)" "tasks_le ?m (fmupd k ?u ?m)"
    using tasks_ok_upd[OF m u] x accepted by simp_all
  then show ?thesis using s with_tasks_ok with_tasks_le unfolding t by blast
qed

text \<open>The attempts of a task change, its dependencies do not.\<close>

lemma attempts_upd_ok:
  assumes s: "run_ok s" "rn_state s = Run_Running" and x: "fmlookup (rn_tasks s) k = Some x"
    and le: "attempts_le (tk_attempts x) as" and ne: "as \<noteq> []" and old: "list_all settled (butlast as)"
    and ok: "\<And>m. tasks_le (rn_tasks s) m \<Longrightarrow> list_all (attempt_ok m x) as"
  shows "run_ok (with_tasks (fmupd k (x\<lparr>tk_attempts := as\<rparr>)) s) \<and>
    run_le s (with_tasks (fmupd k (x\<lparr>tk_attempts := as\<rparr>)) s)"
proof -
  let ?m = "rn_tasks s" and ?u = "x\<lparr>tk_attempts := as\<rparr>"
  have m: "tasks_ok ?m" using s by (simp add: run_ok_def)
  have grow: "tasks_le ?m (fmupd k ?u ?m)" using le x by (intro tasks_le_upd) simp
  have "list_all (attempt_ok (fmupd k ?u ?m) ?u) as"
    using ok[OF grow] attempt_ok_le[of "fmupd k ?u ?m" "fmupd k ?u ?m" x _ ?u] by (simp add: list_all_iff)
  then have u: "task_ok (fmupd k ?u ?m) k ?u"
    using run_ok_task[OF s(1) x] ne old by (simp add: task_ok_def)
  have "tasks_ok (fmupd k ?u ?m)" using tasks_ok_upd[OF m u] x le by simp
  then show ?thesis using grow s with_tasks_ok with_tasks_le by blast
qed

lemma attempts_ok: "run_ok s \<Longrightarrow> fmlookup (rn_tasks s) k = Some x \<Longrightarrow> tasks_le (rn_tasks s) m \<Longrightarrow>
    list_all (attempt_ok m x) (tk_attempts x)"
  using run_ok_task[of s k x] attempt_ok_le[of "rn_tasks s" m x _ x] by (auto simp: task_ok_def list_all_iff)

lemma attempt_added_ok:
  assumes s: "run_ok s" "rn_state s = Run_Running" and x: "fmlookup (rn_tasks s) k = Some x"
    and last: "settled (current_attempt x)" and a: "\<And>m t. attempt_ok m t a"
  shows "run_ok (with_tasks (fmupd k (x\<lparr>tk_attempts := tk_attempts x @ [a]\<rparr>)) s) \<and>
    run_le s (with_tasks (fmupd k (x\<lparr>tk_attempts := tk_attempts x @ [a]\<rparr>)) s)"
proof -
  have "tk_attempts x \<noteq> []" "list_all settled (butlast (tk_attempts x))"
    using run_ok_task[OF s(1) x] by (auto simp: task_ok_def)
  then have "list_all settled (tk_attempts x)"
    using last by (cases "tk_attempts x" rule: rev_cases) simp_all
  then show ?thesis
    using attempts_ok[OF s(1) x] a
    by (intro attempts_upd_ok[OF s x]) (auto simp: attempts_le_append)
qed

lemma add_attempt_Inr:
  "add_attempt s k x c = Inr t \<Longrightarrow> \<exists>a. settled (current_attempt x) \<and> new_attempt c = Inr a \<and>
     t = with_tasks (fmupd k (x\<lparr>tk_attempts := tk_attempts x @ [a]\<rparr>)) s"
  by (auto simp: add_attempt_def rbind_eq_Inr)

lemma add_attempt_ok:
  assumes run: "add_attempt s k x c = Inr t" and s: "run_ok s" "rn_state s = Run_Running"
    and x: "fmlookup (rn_tasks s) k = Some x"
  shows "run_ok t \<and> run_le s t"
  using add_attempt_Inr[OF run] attempt_added_ok[OF s x] new_attempt_ok by blast

lemma set_current_ok:
  assumes s: "run_ok s" "rn_state s = Run_Running" and x: "fmlookup (rn_tasks s) k = Some x"
    and live: "\<not> settled (current_attempt x)"
    and a: "at_command a = at_command (current_attempt x)"
      "at_dispatched (current_attempt x) \<longrightarrow> at_dispatched a"
    and ok: "\<And>m. tasks_le (rn_tasks s) m \<Longrightarrow> attempt_ok m x a"
  shows "run_ok (with_tasks (fmupd k (set_current x a)) s) \<and>
    run_le s (with_tasks (fmupd k (set_current x a)) s)"
proof -
  have t: "tk_attempts x \<noteq> []" "list_all settled (butlast (tk_attempts x))"
    using run_ok_task[OF s(1) x] by (auto simp: task_ok_def)
  have "list_all (attempt_ok m x) (butlast (tk_attempts x))" if "tasks_le (rn_tasks s) m" for m
    using attempts_ok[OF s(1) x that] in_set_butlastD by (force simp: list_all_iff)
  then show ?thesis
    unfolding set_current_def using t ok attempts_le_last[OF t(1) live a]
    by (intro attempts_upd_ok[OF s x]) auto
qed

lemma any_true_False: "any_true f xs = Inr False \<Longrightarrow> x \<in> set xs \<Longrightarrow> f x = Inr False"
  by (induction xs) (auto simp: rbind_eq_Inr split: if_splits)

lemma unsettled_dependency_False:
  "unsettled_dependency s v = Inr False \<longleftrightarrow>
     (\<exists>d. fmlookup (rn_tasks s) v = Some d \<and> settled (current_attempt d))"
  by (auto simp: unsettled_dependency_def dependency_task_def)

lemma dispatch_task_Inr:
  assumes "dispatch_task s k x = Inr (is, t)"
  shows "at_state (current_attempt x) = Planned"
    and "\<And>v. v \<in> set (tk_dependencies x) \<Longrightarrow>
      \<exists>d. fmlookup (rn_tasks s) v = Some d \<and> settled (current_attempt d)"
    and "is = [\<lparr>it_kind = Dispatch_Intent, it_execution_id = c_execution_id (at_command (current_attempt x)),
      it_command = at_command (current_attempt x), it_generation = 0\<rparr>]"
    and "t = with_tasks (fmupd k (set_current x ((current_attempt x)\<lparr>at_state := Pending_Dispatch,
      at_dispatched := True,
      at_dependency_attempts := Some (List.map (\<lambda>v. (v, last_index s v)) (tk_dependencies x))\<rparr>))) s"
proof -
  from assms have searched: "any_true (unsettled_dependency s) (tk_dependencies x) = Inr False"
    by (auto simp: dispatch_task_def Let_def rbind_eq_Inr)
  show "\<And>v. v \<in> set (tk_dependencies x) \<Longrightarrow>
      \<exists>d. fmlookup (rn_tasks s) v = Some d \<and> settled (current_attempt d)"
    using any_true_False[OF searched] by (simp add: unsettled_dependency_False)
qed (use assms in \<open>auto simp: dispatch_task_def Let_def rbind_eq_Inr\<close>)

lemma dispatch_task_ok:
  assumes run: "dispatch_task s k x = Inr (is, t)" and s: "run_ok s" "rn_state s = Run_Running"
    and x: "fmlookup (rn_tasks s) k = Some x"
  shows "run_ok t \<and> run_le s t"
proof -
  note d = dispatch_task_Inr[OF run]
  have old: "attempt_ok (rn_tasks s) x (current_attempt x)"
    using attempts_ok[OF s(1) x tasks_le_refl] run_ok_task[OF s(1) x]
    by (auto simp: list_all_iff task_ok_def)
  have "settled_at (rn_tasks s) (v, last_index s v)" if v: "v \<in> set (tk_dependencies x)" for v
  proof -
    obtain u where u: "fmlookup (rn_tasks s) v = Some u" "settled (current_attempt u)"
      using d(2)[OF v] by blast
    moreover have "tk_attempts u \<noteq> []" using run_ok_task[OF s(1) u(1)] by (simp add: task_ok_def)
    ultimately show ?thesis by (simp add: settled_at_def last_index_def last_conv_nth)
  qed
  then have "\<And>m. tasks_le (rn_tasks s) m \<Longrightarrow> list_all (settled_at m)
      (List.map (\<lambda>v. (v, last_index s v)) (tk_dependencies x))"
    using settled_at_le by (auto simp: list_all_iff)
  then show ?thesis
    unfolding d(4) using old d(1)
    by (intro set_current_ok[OF s x]) (auto simp: attempt_ok_def state_ok_def comp_def)
qed

lemma cancelled_ok:
  "attempt_ok m x a \<Longrightarrow> at_state a = Planned \<Longrightarrow>
     attempt_ok m x (a\<lparr>at_state := Observed Cancelled, at_cancel_reason := Some r\<rparr>)"
  by (auto simp: attempt_ok_def state_ok_def split: option.splits)

lemma cancel_task_ok:
  assumes run: "cancel_task s k x r = Inr (is, t)" and s: "run_ok s" "rn_state s = Run_Running"
    and x: "fmlookup (rn_tasks s) k = Some x"
  shows "run_ok t \<and> run_le s t"
proof (cases "at_state (current_attempt x) = Planned")
  case True
  have t: "t = with_tasks (fmupd k (set_current x ((current_attempt x)\<lparr>at_state := Observed Cancelled,
      at_cancel_reason := Some r\<rparr>))) s"
    using run True by (simp add: cancel_task_def Let_def)
  have old: "attempt_ok m x (current_attempt x)" if "tasks_le (rn_tasks s) m" for m
    using attempts_ok[OF s(1) x that] run_ok_task[OF s(1) x]
    by (auto simp: list_all_iff task_ok_def)
  show ?thesis
    unfolding t using old True
    by (intro set_current_ok[OF s x]) (simp_all add: cancelled_ok)
next
  case False
  then have "t = s" using run by (auto simp: cancel_task_def Let_def split: if_splits)
  then show ?thesis using s by simp
qed

lemma run_ok_same_tasks:
  "run_ok s \<Longrightarrow> rn_state t = Run_Running \<Longrightarrow> rn_tasks t = rn_tasks s \<Longrightarrow> run_ok t"
  by (simp add: run_ok_def)

lemma finish_run_Inr: "finish_run s v = Inr t \<Longrightarrow> \<exists>e. run_terminal v = Inr e \<and> run_settled s \<and> t = s\<lparr>rn_state := Ended e\<rparr>"
  by (auto simp: finish_run_def rbind_eq_Inr run_settled_def)

lemma finish_run_ok: "finish_run s v = Inr t \<Longrightarrow> run_ok s \<Longrightarrow> rn_state s = Run_Running \<Longrightarrow> run_ok t \<and> run_le s t"
  by (drule finish_run_Inr) (auto simp: run_ok_def run_settled_def run_le_def)

lemma silent_Inr: "silent r = Inr (is, t) \<longleftrightarrow> is = [] \<and> r = Inr t"
  by (auto simp: silent_def rbind_eq_Inr)

lemma on_task_Inr: "on_task s k f = Inr r \<longleftrightarrow> (\<exists>x. fmlookup (rn_tasks s) k = Some x \<and> f x = Inr r)"
  by (simp add: on_task_def)

lemma waits_and_signals_ok:
  assumes s: "run_ok s" "rn_state s = Run_Running"
  shows "open_wait s w p = Inr t \<Longrightarrow> run_ok t \<and> run_le s t"
    and "release_wait s w = Inr t \<Longrightarrow> run_ok t \<and> run_le s t"
    and "send_signal s i v = Inr t \<Longrightarrow> run_ok t \<and> run_le s t"
  using s by (auto simp: open_wait_def release_wait_def send_signal_def run_le_def fmdom_lookup run_ok_def
      split: option.splits if_splits)

text \<open>A state of the wrong type escapes the checks of \<open>finish\<close> as a Python type error.\<close>

lemma finish_unhashable: "rn_state s = Run_Running \<Longrightarrow> reduce_operation s (Finish_Run (PList vs)) = Inl Type_Error"
  by (simp add: reduce_operation_def finish_run_def silent_def rbind_def)

theorem reduce_operation_ok:
  assumes run: "reduce_operation s op = Inr (is, t)" and s: "run_ok s"
  shows "run_ok t \<and> run_le s t"
proof -
  have r: "rn_state s = Run_Running" using run by (simp add: reduce_operation_def)
  note parts = add_task_ok[OF _ s r] set_dependencies_ok[OF _ s r] add_attempt_ok[OF _ s r]
    dispatch_task_ok[OF _ s r] cancel_task_ok[OF _ s r] finish_run_ok[OF _ s r]
    waits_and_signals_ok[OF s r]
  show ?thesis
    using run r s
    by (cases op) (auto simp: reduce_operation_def silent_Inr on_task_Inr dest: parts)
qed

end
