(* ===== verification/RunStore.thy ===== *)
theory RunStore
  imports Reducer
begin

text \<open>
  The orchestrator's database and its primitives (\<open>orchestrator/store.py\<close>): the current items
  of a Run and their history, from which the Run at any revision is put together, command
  receipts and their replay, the event log with its watermark, and the registration of
  executions.

  A row \<open>(section, item_key, value)\<close> is an entry: the section is the constructor, and the value is
  the canonical JSON it holds. Content-addressed storage of large values, streamed
  projections and retention are not modelled: values are stored in place, no pointer of a
  streamed projection exists, and events and revisions are not removed. The order of rows
  of a query without ORDER BY is the order of insertion.
\<close>

subsection \<open>Tables\<close>

datatype item_key =
    Root string
  | Task_Key string
  | Attempt_Key string nat
  | Wait_Key string
  | Signal_Key string

datatype entry =
    State_Entry run_state
  | Generation_Entry int
  | Input_Entry pyval
  | Definition_Entry pyval
  | Application_Entry pyval
  | Task_Entry string string "string list"
  | Attempt_Entry string nat attempt
  | Wait_Entry string wait
  | Signal_Entry string pyval

fun entry_key :: "entry \<Rightarrow> item_key" where
  "entry_key (State_Entry _) = Root ''state''"
| "entry_key (Generation_Entry _) = Root ''generation''"
| "entry_key (Input_Entry _) = Root ''input''"
| "entry_key (Definition_Entry _) = Root ''definition''"
| "entry_key (Application_Entry _) = Root ''application_state''"
| "entry_key (Task_Entry k _ _) = Task_Key k"
| "entry_key (Attempt_Entry k i _) = Attempt_Key k i"
| "entry_key (Wait_Entry w _) = Wait_Key w"
| "entry_key (Signal_Entry s _) = Signal_Key s"

record run_row =
  rr_run_id :: string
  rr_revision :: int
  rr_state :: run_state

record item_row =
  ir_run :: string
  ir_entry :: entry

record history_row =
  hr_run :: string
  hr_revision :: int
  hr_entry :: entry

record command_row =
  cr_run :: string
  cr_command :: string
  cr_digest :: string
  cr_response :: "string \<times> int"

record event_row =
  ev_sequence :: int
  ev_run :: string
  ev_revision :: int
  ev_kind :: string
  ev_payload :: pyval

record execution_row =
  xr_execution :: string
  xr_run :: string
  xr_task :: string
  xr_attempt :: nat
  xr_generation :: int
  xr_command :: command
  xr_key :: string
  xr_active :: bool

record message_row =
  mr_sequence :: int
  mr_run :: string
  mr_command :: string
  mr_ordinal :: nat
  mr_payload :: intent
  mr_delivered :: bool
  mr_attempts :: int
  mr_last_error :: "pyval option"
  mr_last_attempt :: "rat option"

record watermark_row =
  wm_run :: string
  wm_high :: int
  wm_expired :: int

record subscription_row =
  sr_run :: string
  sr_name :: string
  sr_cursor :: int

record watch_row =
  wr_run :: string
  wr_watch :: string
  wr_task :: string
  wr_execution :: string
  wr_attempt :: nat
  wr_generation :: int
  wr_target :: pyval
  wr_max_deliveries :: int
  wr_cursor :: int
  wr_completed :: bool

record odb =
  ob_runs :: "run_row list"
  ob_revisions :: "(string \<times> int) list"
  ob_items :: "item_row list"
  ob_history :: "history_row list"
  ob_links :: "(string \<times> string) list"
  ob_commands :: "command_row list"
  ob_event_sequence :: int
  ob_events :: "event_row list"
  ob_watermarks :: "watermark_row list"
  ob_executions :: "execution_row list"
  ob_message_sequence :: int
  ob_outbox :: "message_row list"
  ob_subscriptions :: "subscription_row list"
  ob_watches :: "watch_row list"
  ob_expired :: "(string \<times> int) list"
  ob_disposed :: "string list"
  ob_managed :: "string list"
  ob_recovering :: "string list"

type_synonym 'a dop = "(odb, oerr, 'a) op"

definition empty_odb :: odb where
  "empty_odb = \<lparr>ob_runs = [], ob_revisions = [], ob_items = [], ob_history = [], ob_links = [],
     ob_commands = [], ob_event_sequence = 0, ob_events = [], ob_watermarks = [], ob_executions = [],
     ob_message_sequence = 0, ob_outbox = [], ob_subscriptions = [], ob_watches = [], ob_expired = [],
     ob_disposed = [], ob_managed = [], ob_recovering = []\<rparr>"

text \<open>\<open>_transaction\<close>: a failed body rolls back.\<close>

definition commit :: "'a dop \<Rightarrow> odb \<Rightarrow> (oerr + 'a) \<times> odb" where
  "commit body db = (case body db of Inl e \<Rightarrow> (Inl e, db) | Inr (a, t) \<Rightarrow> (Inr a, t))"

text \<open>INSERT OR the given update of the one row with the key.\<close>

definition upsert :: "('r \<Rightarrow> 'k) \<Rightarrow> 'r \<Rightarrow> ('r \<Rightarrow> 'r) \<Rightarrow> 'r list \<Rightarrow> 'r list" where
  "upsert key r f rows =
     (if sql_find key (key r) rows = None then rows @ [r]
      else List.map (\<lambda>q. if key q = key r then f q else q) rows)"

subsection \<open>Reading a Run\<close>

definition assert_not_disposed :: "string \<Rightarrow> unit dop" where
  "assert_not_disposed run_id = bind (get ob_disposed) (\<lambda>gone. check (run_id \<notin> set gone) RunDisposed)"

definition require_run :: "string \<Rightarrow> int dop" where
  "require_run run_id =
     bind (assert_not_disposed run_id) (\<lambda>_.
     bind (get (\<lambda>db. sql_find rr_run_id run_id (ob_runs db))) (\<lambda>row.
     bind (lift (expect row OrchestrationError)) (\<lambda>r. ret (rr_revision r))))"

definition blank_run :: "string \<Rightarrow> int \<Rightarrow> orun" where
  "blank_run run_id revision = \<lparr>rn_run_id = run_id, rn_revision = revision, rn_state = Run_Running,
     rn_generation = 0, rn_input = PNone, rn_definition = PNone, rn_application_state = PNone,
     rn_tasks = fmempty, rn_waits = fmempty, rn_signals = fmempty\<rparr>"

fun put_entry :: "entry \<Rightarrow> orun \<Rightarrow> orun" where
  "put_entry (State_Entry x) s = s\<lparr>rn_state := x\<rparr>"
| "put_entry (Generation_Entry g) s = s\<lparr>rn_generation := g\<rparr>"
| "put_entry (Input_Entry v) s = s\<lparr>rn_input := v\<rparr>"
| "put_entry (Definition_Entry v) s = s\<lparr>rn_definition := v\<rparr>"
| "put_entry (Application_Entry v) s = s\<lparr>rn_application_state := v\<rparr>"
| "put_entry (Task_Entry k n ds) s = with_tasks (fmupd k
     \<lparr>tk_task_id = n, tk_dependencies = ds, tk_attempts = []\<rparr>) s"
| "put_entry (Attempt_Entry k i a) s = s"
| "put_entry (Wait_Entry w x) s = s\<lparr>rn_waits := fmupd w x (rn_waits s)\<rparr>"
| "put_entry (Signal_Entry i v) s = s\<lparr>rn_signals := fmupd i v (rn_signals s)\<rparr>"

fun attempt_entry :: "entry \<Rightarrow> (string \<times> nat \<times> attempt) option" where
  "attempt_entry (Attempt_Entry k i a) = Some (k, i, a)"
| "attempt_entry _ = None"

text \<open>The attempts in the order of their task and index, each expected right behind the last.\<close>

fun append_attempts ::
  "(string \<times> nat \<times> attempt) list \<Rightarrow> (string, task) fmap \<Rightarrow> oerr + (string, task) fmap" where
  "append_attempts [] m = Inr m"
| "append_attempts ((k, i, a) # xs) m =
     (case fmlookup m k of
        None \<Rightarrow> Inl OrchestrationError
      | Some t \<Rightarrow>
          if i \<noteq> length (tk_attempts t) then Inl OrchestrationError
          else append_attempts xs (fmupd k (t\<lparr>tk_attempts := tk_attempts t @ [a]\<rparr>) m))"

definition inflate :: "string \<Rightarrow> int \<Rightarrow> entry list \<Rightarrow> oerr + orun" where
  "inflate run_id revision rows =
     (let s = fold put_entry rows (blank_run run_id revision);
          attempts = sort_key (\<lambda>(k, i, a). (k, i)) (List.map_filter attempt_entry rows)
      in rbind (append_attempts attempts (rn_tasks s)) (\<lambda>m. Inr (s\<lparr>rn_tasks := m\<rparr>)))"

definition items_of :: "string \<Rightarrow> odb \<Rightarrow> entry list" where
  "items_of run_id db = List.map ir_entry (filter (\<lambda>r. ir_run r = run_id) (ob_items db))"

definition load :: "string \<Rightarrow> orun dop" where
  "load run_id =
     bind (require_run run_id) (\<lambda>revision.
     bind (get (items_of run_id)) (\<lambda>rows. lift (inflate run_id revision rows)))"

text \<open>Of every item the row of the last revision up to the one asked for.\<close>

definition entries_at :: "string \<Rightarrow> int \<Rightarrow> odb \<Rightarrow> entry list" where
  "entries_at run_id revision db =
     (let rows = filter (\<lambda>h. hr_run h = run_id \<and> hr_revision h \<le> revision) (ob_history db)
      in List.map hr_entry (filter (\<lambda>h. list_all (\<lambda>g. entry_key (hr_entry g) = entry_key (hr_entry h)
           \<longrightarrow> hr_revision g \<le> hr_revision h) rows) rows))"

definition load_at :: "string \<Rightarrow> int \<Rightarrow> orun dop" where
  "load_at run_id revision =
     bind (assert_not_disposed run_id) (\<lambda>_.
     bind (get ob_revisions) (\<lambda>revisions.
     bind (get ob_expired) (\<lambda>expired.
     bind (check ((run_id, revision) \<in> set revisions)
       (if (run_id, revision) \<in> set expired then HistoryExpired else OrchestrationError)) (\<lambda>_.
     bind (get (entries_at run_id revision)) (\<lambda>rows. lift (inflate run_id revision rows))))))"

subsection \<open>Writing a Run\<close>

text \<open>The entry of a Run under a key; a key of nothing is the code's \<open>KeyError\<close> or \<open>IndexError\<close>.\<close>

fun entry_of :: "orun \<Rightarrow> item_key \<Rightarrow> entry option" where
  "entry_of s (Root k) =
     (if k = ''state'' then Some (State_Entry (rn_state s))
      else if k = ''generation'' then Some (Generation_Entry (rn_generation s))
      else if k = ''input'' then Some (Input_Entry (rn_input s))
      else if k = ''definition'' then Some (Definition_Entry (rn_definition s))
      else if k = ''application_state'' then Some (Application_Entry (rn_application_state s))
      else None)"
| "entry_of s (Task_Key k) = map_option (\<lambda>t. Task_Entry k (tk_task_id t) (tk_dependencies t))
     (fmlookup (rn_tasks s) k)"
| "entry_of s (Attempt_Key k i) =
     (case fmlookup (rn_tasks s) k of
        None \<Rightarrow> None
      | Some t \<Rightarrow> if i < length (tk_attempts t) then Some (Attempt_Entry k i (tk_attempts t ! i)) else None)"
| "entry_of s (Wait_Key w) = map_option (Wait_Entry w) (fmlookup (rn_waits s) w)"
| "entry_of s (Signal_Key i) = map_option (Signal_Entry i) (fmlookup (rn_signals s) i)"

definition root_keys :: "item_key list" where
  "root_keys = List.map Root [''state'', ''generation'', ''input'', ''definition'', ''application_state'']"

text \<open>The keys of a whole Run, for a save without a list of changes.\<close>

definition all_keys :: "orun \<Rightarrow> item_key list" where
  "all_keys s =
     List.concat (List.map (\<lambda>k. Task_Key k # (case fmlookup (rn_tasks s) k of
         None \<Rightarrow> [] | Some t \<Rightarrow> List.map (Attempt_Key k) [0..<length (tk_attempts t)]))
       (sorted_list_of_set (fmdom' (rn_tasks s)))) @
     List.map Wait_Key (sorted_list_of_set (fmdom' (rn_waits s))) @
     List.map Signal_Key (sorted_list_of_set (fmdom' (rn_signals s)))"

fun entries_of :: "orun \<Rightarrow> item_key list \<Rightarrow> oerr + entry list" where
  "entries_of s [] = Inr []"
| "entries_of s (k # ks) =
     rbind (expect (entry_of s k) Key_Error) (\<lambda>e. rbind (entries_of s ks) (\<lambda>es. Inr (e # es)))"

definition item_values :: "orun \<Rightarrow> item_key list option \<Rightarrow> oerr + entry list" where
  "item_values s changes =
     entries_of s (root_keys @ remdups (case changes of None \<Rightarrow> all_keys s | Some ks \<Rightarrow> ks))"

definition find_item :: "string \<Rightarrow> item_key \<Rightarrow> odb \<Rightarrow> entry option" where
  "find_item run_id k db = map_option ir_entry
     (sql_find (\<lambda>r. (ir_run r, entry_key (ir_entry r))) (run_id, k) (ob_items db))"

definition attempt_active :: "attempt \<Rightarrow> bool" where
  "attempt_active a = (at_dispatched a \<and> \<not> settled a)"

fun activate :: "entry \<Rightarrow> execution_row list \<Rightarrow> execution_row list" where
  "activate (Attempt_Entry k i a) rows = List.map (\<lambda>r.
     if xr_execution r = c_execution_id (at_command a) then r\<lparr>xr_active := attempt_active a\<rparr> else r) rows"
| "activate _ rows = rows"

definition insert_history :: "history_row \<Rightarrow> unit dop" where
  "insert_history h db =
     (case sql_insert Integrity_Error (\<lambda>r. (hr_run r, entry_key (hr_entry r), hr_revision r)) h (ob_history db) of
        Inl e \<Rightarrow> Inl e
      | Inr rows \<Rightarrow> Inr ((), db\<lparr>ob_history := rows\<rparr>))"

definition save_entry :: "string \<Rightarrow> int \<Rightarrow> entry \<Rightarrow> unit dop" where
  "save_entry run_id revision e =
     bind (get (find_item run_id (entry_key e))) (\<lambda>found.
     if found = Some e then ret ()
     else
       bind (modify (\<lambda>db. db\<lparr>ob_items := upsert (\<lambda>r. (ir_run r, entry_key (ir_entry r)))
         \<lparr>ir_run = run_id, ir_entry = e\<rparr> (\<lambda>r. r\<lparr>ir_entry := e\<rparr>) (ob_items db)\<rparr>)) (\<lambda>_.
       bind (insert_history \<lparr>hr_run = run_id, hr_revision = revision, hr_entry = e\<rparr>) (\<lambda>_.
       modify (\<lambda>db. db\<lparr>ob_executions := activate e (ob_executions db)\<rparr>))))"

definition insert_revision :: "string \<Rightarrow> int \<Rightarrow> unit dop" where
  "insert_revision run_id revision db =
     (case sql_insert Integrity_Error id (run_id, revision) (ob_revisions db) of
        Inl e \<Rightarrow> Inl e
      | Inr rows \<Rightarrow> Inr ((), db\<lparr>ob_revisions := rows\<rparr>))"

definition save :: "orun \<Rightarrow> item_key list option \<Rightarrow> unit dop" where
  "save s changes =
     bind (modify (\<lambda>db. db\<lparr>ob_runs := List.map (\<lambda>r. if rr_run_id r = rn_run_id s
       then r\<lparr>rr_revision := rn_revision s, rr_state := rn_state s\<rparr> else r) (ob_runs db)\<rparr>)) (\<lambda>_.
     bind (insert_revision (rn_run_id s) (rn_revision s)) (\<lambda>_.
     bind (lift (item_values s changes)) (\<lambda>entries.
     bind (each (save_entry (rn_run_id s) (rn_revision s)) entries) (\<lambda>_. ret ()))))"

subsection \<open>Events\<close>

definition event_high_water :: "string \<Rightarrow> int option \<Rightarrow> int dop" where
  "event_high_water run_id cursor =
     bind (get (\<lambda>db. sql_find wm_run run_id (ob_watermarks db))) (\<lambda>row.
     bind (lift (expect row OrchestrationError)) (\<lambda>w.
     bind (check (case cursor of None \<Rightarrow> True | Some c \<Rightarrow> wm_expired w \<le> c) EventCursorExpired) (\<lambda>_.
     ret (wm_high w))))"

definition with_generation :: "int \<Rightarrow> pyval \<Rightarrow> pyval" where
  "with_generation g v =
     (case v of
        PDict kvs \<Rightarrow> if has_field kvs ''generation'' then v else PDict (kvs @ [(PStr ''generation'', PInt g)])
      | _ \<Rightarrow> v)"

definition append_run_event :: "orun \<Rightarrow> string \<Rightarrow> pyval \<Rightarrow> unit dop" where
  "append_run_event s kind payload =
     bind (lift (clone (with_generation (rn_generation s) payload))) (\<lambda>stored.
     modify (\<lambda>db. let n = ob_event_sequence db + 1 in db\<lparr>ob_event_sequence := n,
       ob_events := ob_events db @ [\<lparr>ev_sequence = n, ev_run = rn_run_id s, ev_revision = rn_revision s,
         ev_kind = kind, ev_payload = stored\<rparr>],
       ob_watermarks := upsert wm_run \<lparr>wm_run = rn_run_id s, wm_high = n, wm_expired = 0\<rparr>
         (\<lambda>w. w\<lparr>wm_high := n\<rparr>) (ob_watermarks db)\<rparr>))"

subsection \<open>Receipts\<close>

definition write_receipt :: "string \<Rightarrow> string \<Rightarrow> string \<Rightarrow> orun \<Rightarrow> unit dop" where
  "write_receipt run_id command_id fingerprint s db =
     (case sql_insert Integrity_Error (\<lambda>r. (cr_run r, cr_command r))
         \<lparr>cr_run = run_id, cr_command = command_id, cr_digest = fingerprint,
          cr_response = (rn_run_id s, rn_revision s)\<rparr> (ob_commands db) of
        Inl e \<Rightarrow> Inl e
      | Inr rows \<Rightarrow> Inr ((), db\<lparr>ob_commands := rows\<rparr>))"

definition find_receipt :: "string \<Rightarrow> string \<Rightarrow> odb \<Rightarrow> command_row option" where
  "find_receipt run_id command_id db =
     sql_find (\<lambda>r. (cr_run r, cr_command r)) (run_id, command_id) (ob_commands db)"

definition receipt :: "string \<times> int \<Rightarrow> orun dop" where
  "receipt ref = load_at (fst ref) (snd ref)"

definition replay :: "string \<Rightarrow> string \<Rightarrow> string \<Rightarrow> orun option dop" where
  "replay run_id command_id fingerprint =
     bind (assert_not_disposed run_id) (\<lambda>_.
     bind (get (find_receipt run_id command_id)) (\<lambda>row.
     case row of
       None \<Rightarrow> ret None
     | Some r \<Rightarrow>
         bind (check (cr_digest r = fingerprint) CommandConflict) (\<lambda>_.
         bind (receipt (cr_response r)) (\<lambda>s. ret (Some s)))))"

subsection \<open>Registered executions\<close>

definition find_execution :: "string \<Rightarrow> odb \<Rightarrow> execution_row option" where
  "find_execution e db = sql_find xr_execution e (ob_executions db)"

definition insert_execution :: "execution_row \<Rightarrow> unit dop" where
  "insert_execution r =
     bind (get ob_executions) (\<lambda>rows.
     bind (check (list_all (\<lambda>q. xr_execution q \<noteq> xr_execution r \<and> xr_key q \<noteq> xr_key r \<and>
         (xr_run q, xr_task q, xr_attempt q) \<noteq> (xr_run r, xr_task r, xr_attempt r)) rows)
       Integrity_Error) (\<lambda>_.
     modify (\<lambda>db. db\<lparr>ob_executions := rows @ [r]\<rparr>)))"

text \<open>One registration: the attempt of a task under its execution identity.\<close>

definition register_execution :: "orun \<Rightarrow> string \<times> nat \<times> attempt \<Rightarrow> unit dop" where
  "register_execution s = (\<lambda>(task_id, index, a).
     let cmd = at_command a;
         row = \<lparr>xr_execution = c_execution_id cmd, xr_run = rn_run_id s, xr_task = task_id,
           xr_attempt = index, xr_generation = at_generation a, xr_command = canon_command cmd,
           xr_key = c_idempotency_key cmd, xr_active = False\<rparr>
     in
       bind (get (find_execution (c_execution_id cmd))) (\<lambda>existing.
       case existing of
         Some q \<Rightarrow>
           check (xr_run q = xr_run row \<and> xr_task q = xr_task row \<and> xr_attempt q = xr_attempt row \<and>
             xr_generation q = xr_generation row \<and> xr_command q = xr_command row) CommandConflict
       | None \<Rightarrow>
           bind (get (\<lambda>db. sql_find xr_key (c_idempotency_key cmd) (ob_executions db))) (\<lambda>same_key.
           bind (check (same_key = None) CommandConflict) (\<lambda>_. insert_execution row))))"

definition register_executions :: "orun \<Rightarrow> (string \<times> nat \<times> attempt) list \<Rightarrow> unit dop" where
  "register_executions s registrations = bind (each (register_execution s) registrations) (\<lambda>_. ret ())"

end
