(* ===== verification/Engine.thy ===== *)
theory Engine
  imports RunStore
begin

text \<open>
  The application's interface to orchestrated Runs: \<open>create_run\<close>, \<open>apply_operations\<close> and the
  cursor and reading operations of \<open>orchestrator/engine.py\<close>, \<open>_register_watch\<close> of
  \<open>notifications.py\<close>, and \<open>continue_run\<close> and \<open>get_run_at\<close> of \<open>runs.py\<close>.

  The digest of a request is a parameter (SHA-256 of its canonical text). Runs under the
  managed interface and Runs that are being recovered are listed in the database by
  components that are not modelled; the operations refuse them as the code does.
\<close>

record oconfig =
  oc_digest :: "pyval \<Rightarrow> string"

definition fingerprint :: "oconfig \<Rightarrow> pyval \<Rightarrow> oerr + string" where
  "fingerprint cfg v = rbind (clone v) (\<lambda>c. Inr (oc_digest cfg c))"

definition nonneg :: "int \<Rightarrow> bool" where
  "nonneg i = (0 \<le> i)"

text \<open>A replayed command returns the receipt; otherwise the body runs.\<close>

definition once :: "string \<Rightarrow> string \<Rightarrow> string \<Rightarrow> orun dop \<Rightarrow> orun dop" where
  "once run_id command_id fp body =
     bind (replay run_id command_id fp) (\<lambda>found.
     case found of Some s \<Rightarrow> ret s | None \<Rightarrow> body)"

definition run_exists :: "string \<Rightarrow> odb \<Rightarrow> bool" where
  "run_exists run_id db = (sql_find rr_run_id run_id (ob_runs db) \<noteq> None)"

definition insert_run :: "string \<Rightarrow> unit dop" where
  "insert_run run_id =
     modify (\<lambda>db. db\<lparr>ob_runs := ob_runs db @ [\<lparr>rr_run_id = run_id, rr_revision = 0, rr_state = Run_Running\<rparr>]\<rparr>)"

subsection \<open>Creating a Run\<close>

definition create_request :: "pyval \<Rightarrow> pyval \<Rightarrow> pyval" where
  "create_request input dfn =
     py_dict [(''kind'', PStr ''create_run''), (''input'', input), (''definition'', dfn)]"

definition fresh_run :: "string \<Rightarrow> pyval \<Rightarrow> pyval \<Rightarrow> orun" where
  "fresh_run run_id input dfn = (blank_run run_id 0)\<lparr>rn_input := input, rn_definition := dfn\<rparr>"

definition create_run_body :: "string \<Rightarrow> string \<Rightarrow> string \<Rightarrow> pyval \<Rightarrow> pyval \<Rightarrow> orun dop" where
  "create_run_body run_id command_id fp input dfn =
     bind (get (run_exists run_id)) (\<lambda>exists.
     bind (check (\<not> exists) OrchestrationError) (\<lambda>_.
     bind (lift (clone input)) (\<lambda>input.
     bind (lift (clone dfn)) (\<lambda>dfn.
     let s = fresh_run run_id input dfn in
     bind (insert_run run_id) (\<lambda>_.
     bind (save s None) (\<lambda>_.
     bind (append_run_event s ''run.created'' (py_dict [(''input'', input), (''definition'', dfn)])) (\<lambda>_.
     bind (write_receipt run_id command_id fp s) (\<lambda>_. ret s))))))))"

definition create_run :: "oconfig \<Rightarrow> string \<Rightarrow> string \<Rightarrow> pyval \<Rightarrow> pyval \<Rightarrow> orun dop" where
  "create_run cfg run_id command_id input dfn =
     bind (check (nonblank run_id \<and> nonblank command_id) OrchestrationError) (\<lambda>_.
     bind (lift (fingerprint cfg (create_request input dfn))) (\<lambda>fp.
     once run_id command_id fp (create_run_body run_id command_id fp input dfn)))"

subsection \<open>Applying operations\<close>

text \<open>What the loop over the operations carries.\<close>

record batch =
  bt_run :: orun
  bt_intents :: "intent list"
  bt_registrations :: "(string \<times> nat \<times> attempt) list"
  bt_changes :: "item_key list"

definition register_watch :: "orun \<Rightarrow> string \<Rightarrow> string \<Rightarrow> pyval \<Rightarrow> pyval option \<Rightarrow> unit dop" where
  "register_watch s task_id watch_id tgt limit =
     bind (check (rn_state s = Run_Running) OrchestrationError) (\<lambda>_.
     bind (lift (expect (fmlookup (rn_tasks s) task_id) OrchestrationError)) (\<lambda>t.
     let a = current_attempt t in
     bind (check (at_generation a = rn_generation s) OrchestrationError) (\<lambda>_.
     bind (lift (case (case limit of None \<Rightarrow> PInt 5 | Some v \<Rightarrow> v) of
         PInt i \<Rightarrow> (if 1 \<le> i then Inr i else Inl (Kernel_Error ValueErr)) | _ \<Rightarrow> Inl (Kernel_Error ValueErr))) (\<lambda>maximum.
     bind (lift (clone tgt)) (\<lambda>tgt.
     bind (check (tgt \<noteq> PNone) OrchestrationError) (\<lambda>_.
     bind (get ob_watches) (\<lambda>watches.
     bind (check (sql_find (\<lambda>w. (wr_run w, wr_watch w)) (rn_run_id s, watch_id) watches = None) CommandConflict) (\<lambda>_.
     modify (\<lambda>db. db\<lparr>ob_watches := watches @ [\<lparr>wr_run = rn_run_id s, wr_watch = watch_id, wr_task = task_id,
       wr_execution = c_execution_id (at_command a), wr_attempt = length (tk_attempts t) - 1,
       wr_generation = at_generation a, wr_target = tgt, wr_max_deliveries = maximum,
       wr_cursor = 0, wr_completed = False\<rparr>]\<rparr>)))))))))"

text \<open>What a reduced operation leaves in the batch: its messages, the keys it changed, and
  for a new attempt its generation and its registration.\<close>

definition set_generation :: "nat \<Rightarrow> int \<Rightarrow> task \<Rightarrow> task" where
  "set_generation i g t = t\<lparr>tk_attempts := (tk_attempts t)[i := (tk_attempts t ! i)\<lparr>at_generation := g\<rparr>]\<rparr>"

definition record_task :: "bool \<Rightarrow> bool \<Rightarrow> string \<Rightarrow> int \<Rightarrow> batch \<Rightarrow> oerr + batch" where
  "record_task header fresh task_id generation b =
     rbind (expect (fmlookup (rn_tasks (bt_run b)) task_id) Key_Error) (\<lambda>t.
     let index = length (tk_attempts t) - 1;
         keys = Attempt_Key task_id index # (if header then [Task_Key task_id] else []);
         u = set_generation index generation t
     in Inr (if fresh
        then b\<lparr>bt_run := with_tasks (fmupd task_id u) (bt_run b), bt_changes := bt_changes b @ keys,
          bt_registrations := bt_registrations b @ [(task_id, index, tk_attempts u ! index)]\<rparr>
        else b\<lparr>bt_changes := bt_changes b @ keys\<rparr>))"

fun record_change :: "operation \<Rightarrow> int \<Rightarrow> batch \<Rightarrow> oerr + batch" where
  "record_change (Add_Task t _ _) g b = record_task True True t g b"
| "record_change (Set_Dependencies t _) g b = record_task True False t g b"
| "record_change (New_Attempt t _) g b = record_task False True t g b"
| "record_change (Dispatch_Task t) g b = record_task False False t g b"
| "record_change (Cancel_Task t _) g b = record_task False False t g b"
| "record_change (Open_Wait w _) g b = Inr (b\<lparr>bt_changes := bt_changes b @ [Wait_Key w]\<rparr>)"
| "record_change (Release_Wait w) g b = Inr (b\<lparr>bt_changes := bt_changes b @ [Wait_Key w]\<rparr>)"
| "record_change (Send_Signal i _) g b = Inr (b\<lparr>bt_changes := bt_changes b @ [Signal_Key i]\<rparr>)"
| "record_change (Finish_Run _) g b = Inr b"
| "record_change (Watch_Task _ _ _ _) g b = Inr b"

definition apply_reduced :: "int \<Rightarrow> operation \<Rightarrow> batch \<Rightarrow> oerr + batch" where
  "apply_reduced generation op b =
     rbind (reduce_operation (bt_run b) op) (\<lambda>(intents, s).
     record_change op generation (b\<lparr>bt_run := s, bt_intents := bt_intents b @ intents\<rparr>))"

definition apply_one :: "int \<Rightarrow> operation \<Rightarrow> batch \<Rightarrow> batch dop" where
  "apply_one generation op b =
     (case op of
        Watch_Task t w tgt limit \<Rightarrow> bind (register_watch (bt_run b) t w tgt limit) (\<lambda>_. ret b)
      | _ \<Rightarrow> lift (apply_reduced generation op b))"

fun apply_all :: "int \<Rightarrow> operation list \<Rightarrow> batch \<Rightarrow> batch dop" where
  "apply_all generation [] b = ret b"
| "apply_all generation (op # ops) b = bind (apply_one generation op b) (apply_all generation ops)"

definition insert_message :: "string \<Rightarrow> string \<Rightarrow> nat \<times> intent \<Rightarrow> unit dop" where
  "insert_message run_id command_id = (\<lambda>(ordinal, payload).
     bind (get ob_outbox) (\<lambda>rows.
     bind (check (sql_find (\<lambda>m. (mr_run m, mr_command m, mr_ordinal m)) (run_id, command_id, ordinal) rows = None)
       Integrity_Error) (\<lambda>_.
     modify (\<lambda>db. let n = ob_message_sequence db + 1 in db\<lparr>ob_message_sequence := n,
       ob_outbox := rows @ [\<lparr>mr_sequence = n, mr_run = run_id, mr_command = command_id, mr_ordinal = ordinal,
         mr_payload = payload, mr_delivered = False, mr_attempts = 0, mr_last_error = None,
         mr_last_attempt = None\<rparr>]\<rparr>))))"

definition insert_messages :: "string \<Rightarrow> string \<Rightarrow> intent list \<Rightarrow> unit dop" where
  "insert_messages run_id command_id intents =
     bind (each (insert_message run_id command_id) (List.enumerate 0 intents)) (\<lambda>_. ret ())"

text \<open>The checks of a decision against the Run it was made from, and its subscription.\<close>

definition check_decision :: "orun \<Rightarrow> int \<Rightarrow> int option \<Rightarrow> unit dop" where
  "check_decision s expected_revision expected_generation =
     bind (get ob_recovering) (\<lambda>recovering.
     bind (check (rn_run_id s \<notin> set recovering) OrchestrationError) (\<lambda>_.
     bind (check (rn_revision s = expected_revision) RevisionConflict) (\<lambda>_.
     bind (check (rn_generation s = 0 \<or> expected_generation \<noteq> None) RevisionConflict) (\<lambda>_.
     check (case expected_generation of None \<Rightarrow> True | Some g \<Rightarrow> g = rn_generation s) RevisionConflict))))"

definition cursor_of :: "string \<Rightarrow> string \<Rightarrow> odb \<Rightarrow> int" where
  "cursor_of run_id name db =
     (case sql_find (\<lambda>r. (sr_run r, sr_name r)) (run_id, name) (ob_subscriptions db) of
        None \<Rightarrow> 0 | Some r \<Rightarrow> sr_cursor r)"

definition advance :: "string \<Rightarrow> string \<Rightarrow> int \<Rightarrow> int \<Rightarrow> unit dop" where
  "advance run_id name expected advance_to =
     bind (get (cursor_of run_id name)) (\<lambda>cursor.
     bind (check (cursor = expected) RevisionConflict) (\<lambda>_.
     bind (event_high_water run_id (Some cursor)) (\<lambda>last.
     bind (check (cursor \<le> advance_to \<and> advance_to \<le> last) OrchestrationError) (\<lambda>_.
     modify (\<lambda>db. db\<lparr>ob_subscriptions := upsert (\<lambda>r. (sr_run r, sr_name r))
       \<lparr>sr_run = run_id, sr_name = name, sr_cursor = advance_to\<rparr>
       (\<lambda>r. r\<lparr>sr_cursor := advance_to\<rparr>) (ob_subscriptions db)\<rparr>)))))"

text \<open>A decision: the operations, the application state if it is replaced, the revision and
  generation it was made from, and the subscription it advances.\<close>

record decision_request =
  dr_expected_revision :: int
  dr_operations :: "pyval list"
  dr_application_state :: "pyval option"
  dr_subscription :: "string option"
  dr_expected_cursor :: "int option"
  dr_advance_to :: "int option"
  dr_expected_generation :: "int option"

definition request_checks :: "decision_request \<Rightarrow> bool" where
  "request_checks q \<longleftrightarrow> nonneg (dr_expected_revision q) \<and>
     optional_ok nonneg (dr_expected_generation q)"

definition subscription_checks :: "decision_request \<Rightarrow> bool" where
  "subscription_checks q \<longleftrightarrow>
     (case dr_subscription q of
        None \<Rightarrow> dr_expected_cursor q = None \<and> dr_advance_to q = None
      | Some name \<Rightarrow> nonblank name \<and>
          (case dr_expected_cursor q of None \<Rightarrow> False | Some c \<Rightarrow> nonneg c) \<and>
          (case dr_advance_to q of None \<Rightarrow> False | Some c \<Rightarrow> nonneg c))"

fun validate_operations :: "pyval list \<Rightarrow> oerr + operation list" where
  "validate_operations [] = Inr []"
| "validate_operations (v # vs) =
     rbind (validate_operation v) (\<lambda>op. rbind (validate_operations vs) (\<lambda>ops. Inr (op # ops)))"

definition decision_dict :: "decision_request \<Rightarrow> operation list \<Rightarrow> pyval option \<Rightarrow> pyval" where
  "decision_dict q ops app = py_dict
     ([(''kind'', PStr ''apply_operations''), (''expected_revision'', PInt (dr_expected_revision q)),
       (''operations'', PList (List.map operation_to_dict ops)),
       (''subscription'', py_optional PStr (dr_subscription q)),
       (''expected_cursor'', py_optional PInt (dr_expected_cursor q)),
       (''advance_to'', py_optional PInt (dr_advance_to q)),
       (''has_application_state'', PBool (app \<noteq> None))] @
      (case dr_expected_generation q of None \<Rightarrow> [] | Some g \<Rightarrow> [(''expected_generation'', PInt g)]) @
      (case app of None \<Rightarrow> [] | Some v \<Rightarrow> [(''application_state'', v)]))"

definition optional_clone :: "pyval option \<Rightarrow> oerr + pyval option" where
  "optional_clone v = (case v of None \<Rightarrow> Inr None | Some x \<Rightarrow> rbind (clone x) (\<lambda>c. Inr (Some c)))"

definition advance_subscription :: "string \<Rightarrow> decision_request \<Rightarrow> unit dop" where
  "advance_subscription run_id q =
     (case (dr_subscription q, dr_expected_cursor q, dr_advance_to q) of
        (Some name, Some cursor, Some to) \<Rightarrow> advance run_id name cursor to
      | _ \<Rightarrow> ret ())"

definition decide_body ::
  "string \<Rightarrow> string \<Rightarrow> string \<Rightarrow> decision_request \<Rightarrow> operation list \<Rightarrow> pyval option \<Rightarrow> orun dop" where
  "decide_body run_id command_id fp q ops app =
     bind (load run_id) (\<lambda>s.
     bind (get ob_managed) (\<lambda>managed.
     bind (check (run_id \<notin> set managed) OrchestrationError) (\<lambda>_.
     bind (check_decision s (dr_expected_revision q) (dr_expected_generation q)) (\<lambda>_.
     bind (advance_subscription run_id q) (\<lambda>_.
     bind (apply_all (rn_generation s) ops
       \<lparr>bt_run = s, bt_intents = [], bt_registrations = [], bt_changes = []\<rparr>) (\<lambda>b.
     let changed = (case app of None \<Rightarrow> bt_run b | Some v \<Rightarrow> (bt_run b)\<lparr>rn_application_state := v\<rparr>);
         final = changed\<lparr>rn_revision := rn_revision s + 1\<rparr> in
     bind (register_executions changed (bt_registrations b)) (\<lambda>_.
     bind (insert_messages run_id command_id
       (List.map (\<lambda>i. i\<lparr>it_generation := rn_generation s\<rparr>) (bt_intents b))) (\<lambda>_.
     bind (save final (Some (bt_changes b))) (\<lambda>_.
     bind (append_run_event final ''application.decided'' (decision_dict q ops app)) (\<lambda>_.
     bind (write_receipt run_id command_id fp final) (\<lambda>_. ret final)))))))))))"

definition apply_operations :: "oconfig \<Rightarrow> string \<Rightarrow> string \<Rightarrow> decision_request \<Rightarrow> orun dop" where
  "apply_operations cfg run_id command_id q =
     bind (check (nonblank run_id \<and> nonblank command_id \<and> request_checks q) OrchestrationError) (\<lambda>_.
     bind (lift (validate_operations (dr_operations q))) (\<lambda>ops.
     bind (check (subscription_checks q) OrchestrationError) (\<lambda>_.
     bind (lift (optional_clone (dr_application_state q))) (\<lambda>app.
     bind (lift (fingerprint cfg (decision_dict q ops app))) (\<lambda>fp.
     once run_id command_id fp (decide_body run_id command_id fp q ops app))))))"

subsection \<open>Advancing a cursor alone\<close>

definition acknowledge_dict :: "int \<Rightarrow> string \<Rightarrow> int \<Rightarrow> int \<Rightarrow> int option \<Rightarrow> pyval" where
  "acknowledge_dict revision name cursor to generation = py_dict
     ([(''kind'', PStr ''acknowledge_events''), (''expected_revision'', PInt revision),
       (''subscription'', PStr name), (''expected_cursor'', PInt cursor), (''advance_to'', PInt to)] @
      (case generation of None \<Rightarrow> [] | Some g \<Rightarrow> [(''expected_generation'', PInt g)]))"

definition acknowledge_body ::
  "string \<Rightarrow> string \<Rightarrow> string \<Rightarrow> int \<Rightarrow> string \<Rightarrow> int \<Rightarrow> int \<Rightarrow> int option \<Rightarrow> orun dop" where
  "acknowledge_body run_id command_id fp revision name cursor to generation =
     bind (load run_id) (\<lambda>s.
     bind (check_decision s revision generation) (\<lambda>_.
     bind (advance run_id name cursor to) (\<lambda>_.
     bind (write_receipt run_id command_id fp s) (\<lambda>_. ret s))))"

definition acknowledge_events ::
  "oconfig \<Rightarrow> string \<Rightarrow> string \<Rightarrow> int \<Rightarrow> string \<Rightarrow> int \<Rightarrow> int \<Rightarrow> int option \<Rightarrow> orun dop" where
  "acknowledge_events cfg run_id command_id revision name cursor to generation =
     bind (check (nonblank run_id \<and> nonblank command_id \<and> nonblank name \<and> nonneg revision \<and>
       nonneg cursor \<and> nonneg to \<and> optional_ok nonneg generation) OrchestrationError) (\<lambda>_.
     bind (lift (fingerprint cfg (acknowledge_dict revision name cursor to generation))) (\<lambda>fp.
     once run_id command_id fp
       (acknowledge_body run_id command_id fp revision name cursor to generation)))"

subsection \<open>Reading\<close>

definition get_run :: "string \<Rightarrow> orun dop" where
  "get_run run_id = bind (check (nonblank run_id) OrchestrationError) (\<lambda>_. load run_id)"

definition get_run_at :: "string \<Rightarrow> int \<Rightarrow> orun dop" where
  "get_run_at run_id revision =
     bind (check (nonblank run_id \<and> nonneg revision) OrchestrationError) (\<lambda>_. load_at run_id revision)"

definition get_command_receipt :: "string \<Rightarrow> string \<Rightarrow> orun option dop" where
  "get_command_receipt run_id command_id =
     bind (check (nonblank run_id \<and> nonblank command_id) OrchestrationError) (\<lambda>_.
     bind (assert_not_disposed run_id) (\<lambda>_.
     bind (get (find_receipt run_id command_id)) (\<lambda>row.
     case row of
       None \<Rightarrow> ret None
     | Some r \<Rightarrow> bind (receipt (cr_response r)) (\<lambda>s. ret (Some s)))))"

definition get_subscription :: "string \<Rightarrow> string \<Rightarrow> int dop" where
  "get_subscription run_id name =
     bind (check (nonblank name) OrchestrationError) (\<lambda>_.
     bind (require_run run_id) (\<lambda>_. get (cursor_of run_id name)))"

definition events_after :: "string \<Rightarrow> int \<Rightarrow> int \<Rightarrow> odb \<Rightarrow> event_row list" where
  "events_after run_id after limit db =
     take (nat limit) (sql_select (\<lambda>e. ev_run e = run_id \<and> after < ev_sequence e) ev_sequence (ob_events db))"

definition page_limit :: "int \<Rightarrow> bool" where
  "page_limit limit \<longleftrightarrow> 1 \<le> limit \<and> limit \<le> 10000"

definition read_events :: "string \<Rightarrow> int \<Rightarrow> int \<Rightarrow> bool \<Rightarrow> event_row list dop" where
  "read_events run_id after limit allow_expired =
     bind (check (nonneg after \<and> page_limit limit) OrchestrationError) (\<lambda>_.
     bind (require_run run_id) (\<lambda>_.
     bind (event_high_water run_id (if allow_expired then None else Some after)) (\<lambda>_.
     get (events_after run_id after limit))))"

record observation =
  on_snapshot :: orun
  on_cursor :: int
  on_high_watermark :: int
  on_events :: "event_row list"

definition observe :: "string \<Rightarrow> string \<Rightarrow> int \<Rightarrow> observation dop" where
  "observe run_id name limit =
     bind (check (nonblank run_id \<and> nonblank name \<and> page_limit limit) OrchestrationError) (\<lambda>_.
     bind (load run_id) (\<lambda>s.
     bind (get (cursor_of run_id name)) (\<lambda>cursor.
     bind (get (events_after run_id cursor limit)) (\<lambda>rows.
     bind (event_high_water run_id (Some cursor)) (\<lambda>last.
     ret \<lparr>on_snapshot = s, on_cursor = cursor, on_high_watermark = last, on_events = rows\<rparr>)))))"

subsection \<open>Continuing a finished Run\<close>

definition continue_dict :: "string \<Rightarrow> int \<Rightarrow> pyval \<Rightarrow> int option \<Rightarrow> pyval" where
  "continue_dict next_run revision input generation = py_dict
     ([(''kind'', PStr ''continue_run''), (''next_run_id'', PStr next_run),
       (''expected_revision'', PInt revision), (''input'', input)] @
      (case generation of None \<Rightarrow> [] | Some g \<Rightarrow> [(''expected_generation'', PInt g)]))"

definition insert_link :: "string \<Rightarrow> string \<Rightarrow> unit dop" where
  "insert_link run_id next_run =
     bind (get ob_links) (\<lambda>links.
     bind (check (list_all (\<lambda>l. fst l \<noteq> run_id \<and> snd l \<noteq> next_run) links) Integrity_Error) (\<lambda>_.
     modify (\<lambda>db. db\<lparr>ob_links := links @ [(run_id, next_run)]\<rparr>)))"

definition continue_run_body ::
  "string \<Rightarrow> string \<Rightarrow> string \<Rightarrow> string \<Rightarrow> int \<Rightarrow> pyval \<Rightarrow> int option \<Rightarrow> orun dop" where
  "continue_run_body run_id next_run command_id fp revision input generation =
     bind (load run_id) (\<lambda>previous.
     bind (check_decision previous revision generation) (\<lambda>_.
     bind (check (rn_state previous \<noteq> Run_Running) OrchestrationError) (\<lambda>_.
     bind (assert_not_disposed next_run) (\<lambda>_.
     bind (get (run_exists next_run)) (\<lambda>exists.
     bind (check (\<not> exists) CommandConflict) (\<lambda>_.
     bind (get ob_links) (\<lambda>links.
     bind (check (list_all (\<lambda>l. fst l \<noteq> run_id) links) CommandConflict) (\<lambda>_.
     bind (lift (clone input)) (\<lambda>input.
     bind (lift (clone (rn_definition previous))) (\<lambda>dfn.
     let s = fresh_run next_run input dfn;
         finished = previous\<lparr>rn_revision := rn_revision previous + 1\<rparr> in
     bind (insert_run next_run) (\<lambda>_.
     bind (save s None) (\<lambda>_.
     bind (insert_link run_id next_run) (\<lambda>_.
     bind (save finished (Some [])) (\<lambda>_.
     bind (append_run_event finished ''run.continued'' (py_dict [(''next_run_id'', PStr next_run)])) (\<lambda>_.
     bind (append_run_event s ''run.created'' (py_dict [(''input'', input), (''definition'', dfn),
       (''previous_run_id'', PStr run_id)])) (\<lambda>_.
     bind (write_receipt run_id command_id fp s) (\<lambda>_. ret s)))))))))))))))))"

definition continue_run ::
  "oconfig \<Rightarrow> string \<Rightarrow> string \<Rightarrow> string \<Rightarrow> int \<Rightarrow> pyval \<Rightarrow> int option \<Rightarrow> orun dop" where
  "continue_run cfg run_id next_run command_id revision input generation =
     bind (check (nonblank run_id \<and> nonblank next_run \<and> nonblank command_id \<and> nonneg revision \<and>
       optional_ok nonneg generation) OrchestrationError) (\<lambda>_.
     bind (lift (fingerprint cfg (continue_dict next_run revision input generation))) (\<lambda>fp.
     once run_id command_id fp (continue_run_body run_id next_run command_id fp revision input generation)))"

end
