(* ===== verification/Transport.thy ===== *)
theory Transport
  imports Engine Execution
begin

text \<open>
  The orchestrator and the kernel together (\<open>orchestrator/transport.py\<close>): the delivery of the
  outbox to the kernel and the synchronisation of what the kernel reports into the Run.

  Every call of the kernel and every database transaction is one atomic step on the world;
  between two of them other processes run. The world remembers the snapshots that callers
  have read from the kernel: one of them is written into the Run later. Each clock reading
  is the next of a sequence the configuration gives. The runtime that may stand in for the
  kernel, and the delivery of Runs under the managed interface, are not modelled.
\<close>

record world =
  w_kernel :: kernel
  w_db :: odb
  w_reads :: "Snapshots.snapshot list"
  w_ticks :: nat

record tconfig =
  tc_kernel :: config
  tc_wall :: "nat \<Rightarrow> rat"
  tc_error :: "oerr \<Rightarrow> pyval"

type_synonym 'a wop = "world \<Rightarrow> (oerr + 'a) \<times> world"

subsection \<open>Steps on the world\<close>

definition wret :: "'a \<Rightarrow> 'a wop" where
  "wret a w = (Inr a, w)"

definition wraise :: "oerr \<Rightarrow> 'a wop" where
  "wraise e w = (Inl e, w)"

definition wbind :: "'a wop \<Rightarrow> ('a \<Rightarrow> 'b wop) \<Rightarrow> 'b wop" where
  "wbind m f w = (case m w of (Inl e, u) \<Rightarrow> (Inl e, u) | (Inr a, u) \<Rightarrow> f a u)"

definition wcheck :: "bool \<Rightarrow> oerr \<Rightarrow> unit wop" where
  "wcheck c e = (if c then wret () else wraise e)"

text \<open>\<open>try ... except\<close>: what was committed before the exception stays.\<close>

definition wcatch :: "'a wop \<Rightarrow> (oerr \<Rightarrow> 'a wop) \<Rightarrow> 'a wop" where
  "wcatch m h w = (case m w of (Inl e, u) \<Rightarrow> h e u | (Inr a, u) \<Rightarrow> (Inr a, u))"

definition from_kerr :: "kerr + 'a \<Rightarrow> oerr + 'a" where
  "from_kerr r = (case r of Inl e \<Rightarrow> Inl (Kernel_Error e) | Inr a \<Rightarrow> Inr a)"

definition kernel_get :: "string \<Rightarrow> Snapshots.snapshot wop" where
  "kernel_get e w =
     (case get_snapshot e (w_kernel w) of
        Inl x \<Rightarrow> (Inl (Kernel_Error x), w)
      | Inr (s, _) \<Rightarrow> (Inr s, w\<lparr>w_reads := s # w_reads w\<rparr>))"

definition kernel_call :: "tconfig \<Rightarrow> (rat \<Rightarrow> kernel \<Rightarrow> (kerr + 'a) \<times> kernel) \<Rightarrow> 'a wop" where
  "kernel_call tc f w =
     (case f (tc_wall tc (w_ticks w)) (w_kernel w) of
        (r, k) \<Rightarrow> (from_kerr r, w\<lparr>w_kernel := k, w_ticks := w_ticks w + 1\<rparr>))"

definition database :: "'a dop \<Rightarrow> 'a wop" where
  "database body w = (case commit body (w_db w) of (r, db) \<Rightarrow> (r, w\<lparr>w_db := db\<rparr>))"

definition clock_reading :: "tconfig \<Rightarrow> rat wop" where
  "clock_reading tc w = (Inr (tc_wall tc (w_ticks w)), w\<lparr>w_ticks := w_ticks w + 1\<rparr>)"

fun wfold :: "('a \<Rightarrow> nat wop) \<Rightarrow> 'a list \<Rightarrow> nat wop" where
  "wfold f [] = wret 0"
| "wfold f (x # xs) = wbind (f x) (\<lambda>n. wbind (wfold f xs) (\<lambda>m. wret (n + m)))"

subsection \<open>Synchronising an execution\<close>

definition same_command :: "command \<Rightarrow> command \<Rightarrow> bool" where
  "same_command c d = (canon_command c = canon_command d)"

definition snapshot_json :: "Snapshots.snapshot \<Rightarrow> pyval" where
  "snapshot_json s = canon (snapshot_to_dict s)"

definition result_json :: "Snapshots.snapshot \<Rightarrow> pyval" where
  "result_json s = (case s_result s of None \<Rightarrow> PNone | Some r \<Rightarrow> canon (result_to_dict r))"

definition observed :: "Snapshots.snapshot \<Rightarrow> attempt \<Rightarrow> attempt" where
  "observed s a = a\<lparr>at_state := Observed (s_state s), at_kernel_revision := s_revision s,
     at_result := result_json s, at_kernel_snapshot := snapshot_json s\<rparr>"

definition stored_attempt :: "string \<Rightarrow> string \<Rightarrow> nat \<Rightarrow> odb \<Rightarrow> attempt option" where
  "stored_attempt run_id k i db =
     (case find_item run_id (Attempt_Key k i) db of Some (Attempt_Entry _ _ a) \<Rightarrow> Some a | _ \<Rightarrow> None)"

text \<open>\<open>state["tasks"][task]["attempts"][index] = current\<close>.\<close>

definition put_attempt :: "string \<Rightarrow> nat \<Rightarrow> attempt \<Rightarrow> orun \<Rightarrow> oerr + orun" where
  "put_attempt k i a s =
     (case fmlookup (rn_tasks s) k of
        None \<Rightarrow> Inl Key_Error
      | Some t \<Rightarrow>
          if length (tk_attempts t) \<le> i then Inl Key_Error
          else Inr (with_tasks (fmupd k (t\<lparr>tk_attempts := (tk_attempts t)[i := a]\<rparr>)) s))"

definition observed_payload :: "execution_row \<Rightarrow> Snapshots.snapshot \<Rightarrow> attempt \<Rightarrow> pyval" where
  "observed_payload r s a = py_dict [(''task_id'', PStr (xr_task r)), (''attempt'', PInt (int (xr_attempt r))),
     (''execution_id'', PStr (xr_execution r)), (''snapshot'', snapshot_to_dict s),
     (''generation'', PInt (at_generation a))]"

definition write_observation :: "execution_row \<Rightarrow> Snapshots.snapshot \<Rightarrow> attempt \<Rightarrow> unit dop" where
  "write_observation r s a =
     bind (load (xr_run r)) (\<lambda>state.
     bind (lift (put_attempt (xr_task r) (xr_attempt r) (observed s a) state)) (\<lambda>changed.
     let final = changed\<lparr>rn_revision := rn_revision changed + 1\<rparr> in
     bind (save final (Some [Attempt_Key (xr_task r) (xr_attempt r)])) (\<lambda>_.
     append_run_event final ''execution.observed'' (observed_payload r s (observed s a)))))"

definition sync_body :: "string \<Rightarrow> Snapshots.snapshot \<Rightarrow> unit dop" where
  "sync_body e s =
     bind (get (find_execution e)) (\<lambda>row.
     bind (lift (expect row OrchestrationError)) (\<lambda>r.
     bind (check (canon_command (s_command s) = xr_command r) OrchestrationError) (\<lambda>_.
     bind (get (stored_attempt (xr_run r) (xr_task r) (xr_attempt r))) (\<lambda>stored.
     bind (lift (expect stored OrchestrationError)) (\<lambda>a.
     bind (check (at_dispatched a) OrchestrationError) (\<lambda>_.
     if s_revision s < at_kernel_revision a then ret ()
     else if s_revision s = at_kernel_revision a then
       check (at_kernel_snapshot a = snapshot_json s) OrchestrationError
     else
       bind (check (at_kernel_revision a = 0 \<or> \<not> settled a) OrchestrationError) (\<lambda>_.
       write_observation r s a)))))))"

definition sync_execution :: "string \<Rightarrow> Snapshots.snapshot wop" where
  "sync_execution e =
     wbind (kernel_get e) (\<lambda>s.
     wbind (wcheck (s_execution_id s = e) OrchestrationError) (\<lambda>_.
     wbind (database (sync_body e s)) (\<lambda>_. wret s)))"

definition sync_one :: "string \<Rightarrow> nat wop" where
  "sync_one e = wcatch (wbind (sync_execution e) (\<lambda>_. wret 1))
     (\<lambda>x. if x = Kernel_Error ExecutionNotFoundError then wret 0 else wraise x)"

definition sync :: "nat wop" where
  "sync w = wfold sync_one (List.map xr_execution (filter xr_active (ob_executions (w_db w)))) w"

subsection \<open>Delivering the outbox\<close>

definition kind_name :: "intent_kind \<Rightarrow> string" where
  "kind_name k = (case k of Dispatch_Intent \<Rightarrow> ''dispatch'' | Cancel_Intent _ \<Rightarrow> ''cancel'')"

definition intent_json :: "intent \<Rightarrow> pyval" where
  "intent_json i = py_dict ([(''kind'', PStr (kind_name (it_kind i))),
     (''execution_id'', PStr (it_execution_id i)), (''command'', command_to_dict (it_command i)),
     (''generation'', PInt (it_generation i))] @
     (case it_kind i of Dispatch_Intent \<Rightarrow> [] | Cancel_Intent r \<Rightarrow> [(''reason'', PStr r)]))"

definition pending_message :: "int \<Rightarrow> message_row \<Rightarrow> bool" where
  "pending_message n m \<longleftrightarrow> mr_sequence m = n \<and> \<not> mr_delivered m"

definition failed_payload :: "message_row \<Rightarrow> pyval \<Rightarrow> pyval" where
  "failed_payload m detail = py_dict [(''message_id'', PInt (mr_sequence m)),
     (''intent'', intent_json (mr_payload m)), (''error'', detail)]"

definition delivery_failed :: "pyval \<Rightarrow> rat \<Rightarrow> message_row \<Rightarrow> unit dop" where
  "delivery_failed detail now m =
     bind (lift (clone detail)) (\<lambda>detail.
     bind (get ob_outbox) (\<lambda>rows.
     bind (modify (\<lambda>db. db\<lparr>ob_outbox := List.map (\<lambda>q. if pending_message (mr_sequence m) q
       then q\<lparr>mr_attempts := mr_attempts q + 1, mr_last_error := Some detail, mr_last_attempt := Some now\<rparr>
       else q) rows\<rparr>)) (\<lambda>_.
     if list_ex (pending_message (mr_sequence m)) rows then
       bind (load (mr_run m)) (\<lambda>s.
       let final = s\<lparr>rn_revision := rn_revision s + 1\<rparr> in
       bind (save final (Some [])) (\<lambda>_.
       append_run_event final ''delivery.failed'' (failed_payload m detail)))
     else ret ())))"

definition mark_delivered :: "rat \<Rightarrow> message_row \<Rightarrow> nat dop" where
  "mark_delivered now m =
     bind (get ob_outbox) (\<lambda>rows.
     bind (modify (\<lambda>db. db\<lparr>ob_outbox := List.map (\<lambda>q. if pending_message (mr_sequence m) q
       then q\<lparr>mr_delivered := True, mr_attempts := mr_attempts q + 1, mr_last_error := None,
              mr_last_attempt := Some now\<rparr>
       else q) rows\<rparr>)) (\<lambda>_.
     ret (length (filter (pending_message (mr_sequence m)) rows))))"

definition delivery_command :: "intent \<Rightarrow> command wop" where
  "delivery_command i w =
     (case command_from_dict (command_to_dict (canon_command (it_command i))) of
        Inl x \<Rightarrow> (Inl (Kernel_Error x), w)
      | Inr c \<Rightarrow>
          if c_execution_id c \<noteq> it_execution_id i then (Inl OrchestrationError, w)
          else case find_execution (c_execution_id c) (w_db w) of
                 None \<Rightarrow> (Inl OrchestrationError, w)
               | Some r \<Rightarrow>
                   if xr_command r = canon_command c then (Inr c, w) else (Inl OrchestrationError, w))"

definition check_delivery :: "Snapshots.snapshot \<Rightarrow> command \<Rightarrow> Snapshots.snapshot wop" where
  "check_delivery s c =
     wbind (wcheck (s_execution_id s = c_execution_id c \<and> same_command (s_command s) c) OrchestrationError)
       (\<lambda>_. wret s)"

definition get_or :: "string \<Rightarrow> Snapshots.snapshot wop \<Rightarrow> Snapshots.snapshot wop" where
  "get_or e otherwise =
     wcatch (kernel_get e) (\<lambda>x. if x = Kernel_Error ExecutionNotFoundError then otherwise else wraise x)"

definition send_dispatch :: "tconfig \<Rightarrow> command \<Rightarrow> Snapshots.snapshot wop" where
  "send_dispatch tc c =
     wbind (get_or (c_execution_id c) (kernel_call tc (\<lambda>wall. submit wall c))) (\<lambda>s. check_delivery s c)"

text \<open>\<open>_cancel_execution\<close>, with the number of rounds left.\<close>

fun cancel_execution :: "tconfig \<Rightarrow> nat \<Rightarrow> command \<Rightarrow> string \<Rightarrow> Snapshots.snapshot wop" where
  "cancel_execution tc 0 c reason = wraise RevisionError"
| "cancel_execution tc (Suc n) c reason =
     wbind (get_or (c_execution_id c)
       (kernel_call tc (\<lambda>wall. cancel_before_accept (tc_kernel tc) wall c reason))) (\<lambda>s.
     wbind (check_delivery s c) (\<lambda>_.
     if terminal (s_state s) \<and> s_state s \<noteq> Cancelled then wret s
     else
       wcatch (kernel_call tc (\<lambda>wall. cancel (tc_kernel tc) wall (c_execution_id c) None reason (Some (s_revision s))))
         (\<lambda>x. case x of
            Kernel_Error CASConflictError \<Rightarrow> cancel_execution tc n c reason
          | Kernel_Error StaleFenceError \<Rightarrow> cancel_execution tc n c reason
          | Kernel_Error (EffectRecoveryRequiredError _) \<Rightarrow> kernel_get (c_execution_id c)
          | _ \<Rightarrow> wraise x)))"

definition send :: "tconfig \<Rightarrow> intent \<Rightarrow> Snapshots.snapshot wop" where
  "send tc i =
     wbind (delivery_command i) (\<lambda>c.
     case it_kind i of
       Dispatch_Intent \<Rightarrow> send_dispatch tc c
     | Cancel_Intent reason \<Rightarrow> cancel_execution tc 8 c reason)"

text \<open>One message: a failure to send it or to synchronise its execution is recorded.\<close>

definition deliver_sync :: "tconfig \<Rightarrow> message_row \<Rightarrow> bool wop" where
  "deliver_sync tc m = wcatch
     (wbind (send tc (mr_payload m)) (\<lambda>_.
      wbind (sync_execution (it_execution_id (mr_payload m))) (\<lambda>_. wret True)))
     (\<lambda>x. wbind (clock_reading tc) (\<lambda>now.
       wbind (database (delivery_failed (tc_error tc x) now m)) (\<lambda>_. wret False)))"

definition deliver :: "tconfig \<Rightarrow> message_row \<Rightarrow> nat wop" where
  "deliver tc m =
     wbind (deliver_sync tc m) (\<lambda>sent.
     if \<not> sent then wret 0
     else wbind (clock_reading tc) (\<lambda>now. database (mark_delivered now m)))"

text \<open>
  The messages a flush sends: of Runs that are not being recovered, least attempted first,
  without the dispatch of an execution whose cancellation waits.
\<close>

definition selected :: "int \<Rightarrow> odb \<Rightarrow> message_row list" where
  "selected limit db =
     (let pending = sql_select (\<lambda>m. \<not> mr_delivered m) (\<lambda>m. (mr_attempts m, mr_sequence m)) (ob_outbox db);
          messages = filter (\<lambda>m. mr_run m \<notin> set (ob_recovering db)) pending;
          cancelled = List.map (\<lambda>m. it_execution_id (mr_payload m))
            (filter (\<lambda>m. it_kind (mr_payload m) \<noteq> Dispatch_Intent) messages)
      in take (nat limit) (filter (\<lambda>m. it_kind (mr_payload m) \<noteq> Dispatch_Intent \<or>
           it_execution_id (mr_payload m) \<notin> set cancelled) messages))"

definition flush :: "tconfig \<Rightarrow> int \<Rightarrow> nat wop" where
  "flush tc limit w =
     (if limit < 1 then (Inl OrchestrationError, w)
      else wfold (deliver tc) (selected limit (w_db w)) w)"

subsection \<open>Inspection and effect recovery\<close>

text \<open>\<open>inspect_execution\<close> reads the kernel and writes nothing.\<close>

definition inspect_execution :: "string \<Rightarrow> Snapshots.snapshot wop" where
  "inspect_execution e w =
     (case find_execution e (w_db w) of
        None \<Rightarrow> (Inl (Kernel_Error ExecutionNotFoundError), w)
      | Some r \<Rightarrow>
          wbind (kernel_get e) (\<lambda>s.
          wbind (wcheck (s_execution_id s = e \<and> canon_command (s_command s) = xr_command r)
            OrchestrationError) (\<lambda>_. wret s)) w)"

text \<open>The kernel's reading operations on effects.\<close>

definition kernel_effect :: "string \<Rightarrow> effect_record wop" where
  "kernel_effect i w = (case get_effect i (w_kernel w) of
     Inl x \<Rightarrow> (Inl (Kernel_Error x), w) | Inr (e, _) \<Rightarrow> (Inr e, w))"

text \<open>
  \<open>resolve_effect\<close>: the execution is synchronised before the decision is forwarded, so that
  one the SDK does not own is refused first, and again after it.
\<close>

definition forward_resolution ::
  "tconfig \<Rightarrow> string \<Rightarrow> decision \<Rightarrow> pyval \<Rightarrow> int \<Rightarrow> string \<Rightarrow> effect_record wop" where
  "forward_resolution tc i d response expected_revision recovery_id =
     wbind (kernel_effect i) (\<lambda>before.
     wbind (sync_execution (e_execution_id before)) (\<lambda>_.
     wbind (kernel_call tc (\<lambda>wall. resolve_effect (tc_kernel tc) wall i d response expected_revision recovery_id))
       (\<lambda>answer.
     wbind (sync_execution (e_execution_id answer)) (\<lambda>_. wret answer))))"

text \<open>\<open>delivery_messages\<close> of Runs that are not managed.\<close>

datatype delivery_state = Delivered_Message | Failed_Message | Pending_Message

record delivery_record =
  dm_message :: int
  dm_run :: string
  dm_command :: string
  dm_execution :: string
  dm_generation :: int
  dm_kind :: string
  dm_intent :: pyval
  dm_state :: delivery_state
  dm_attempts :: int
  dm_last_attempt :: "rat option"
  dm_last_error :: "pyval option"

definition delivery_of :: "message_row \<Rightarrow> delivery_record" where
  "delivery_of m = \<lparr>dm_message = mr_sequence m, dm_run = mr_run m, dm_command = mr_command m,
     dm_execution = it_execution_id (mr_payload m), dm_generation = it_generation (mr_payload m),
     dm_kind = kind_name (it_kind (mr_payload m)), dm_intent = intent_json (mr_payload m),
     dm_state = (if mr_delivered m then Delivered_Message
       else if mr_last_error m \<noteq> None then Failed_Message else Pending_Message),
     dm_attempts = mr_attempts m, dm_last_attempt = mr_last_attempt m, dm_last_error = mr_last_error m\<rparr>"

definition delivery_messages :: "string list option \<Rightarrow> int \<Rightarrow> bool \<Rightarrow> delivery_record list dop" where
  "delivery_messages execution_ids limit pending_only =
     bind (check (1 \<le> limit) OrchestrationError) (\<lambda>_.
     bind (check (case execution_ids of None \<Rightarrow> True | Some es \<Rightarrow> list_all nonblank es) OrchestrationError) (\<lambda>_.
     if execution_ids = Some [] then ret []
     else
       bind (check (case execution_ids of None \<Rightarrow> True | Some es \<Rightarrow> card (set es) \<le> 900) OrchestrationError) (\<lambda>_.
       get (\<lambda>db. List.map delivery_of (take (nat limit) (sql_select (\<lambda>m.
         (case execution_ids of None \<Rightarrow> True | Some es \<Rightarrow> it_execution_id (mr_payload m) \<in> set es) \<and>
         (pending_only \<longrightarrow> \<not> mr_delivered m)) mr_sequence (ob_outbox db)))))))"

end
