(* ===== verification/Versions.thy ===== *)
theory Versions
  imports RunStore
begin

text \<open>
  The versions of a Run. Abstractly a Run is the list of the states committed for it; the
  database keeps the items of the last state and the history of every item. The lemmas show
  that the items and the history represent these states: reading them back gives the state
  that was saved, at the current revision and at every earlier one, and a save leaves the
  versions before it and the other Runs alone.
\<close>

subsection \<open>A set of rows and the Run it represents\<close>

definition run_entries :: "orun \<Rightarrow> entry set" where
  "run_entries s = {e. entry_of s (entry_key e) = Some e}"

lemma entry_of_key: "entry_of s k = Some e \<Longrightarrow> entry_key e = k"
  by (cases k) (auto split: if_splits option.splits)

lemma run_entries_iff: "e \<in> run_entries s \<longleftrightarrow> entry_of s (entry_key e) = Some e"
  by (simp add: run_entries_def)

lemma run_entries_inj: "e \<in> run_entries s \<Longrightarrow> f \<in> run_entries s \<Longrightarrow> entry_key e = entry_key f \<Longrightarrow> e = f"
  by (simp add: run_entries_def)

lemma run_entries_cases [simp]:
  "State_Entry st \<in> run_entries s \<longleftrightarrow> st = rn_state s"
  "Generation_Entry g \<in> run_entries s \<longleftrightarrow> g = rn_generation s"
  "Input_Entry v \<in> run_entries s \<longleftrightarrow> v = rn_input s"
  "Definition_Entry v \<in> run_entries s \<longleftrightarrow> v = rn_definition s"
  "Application_Entry v \<in> run_entries s \<longleftrightarrow> v = rn_application_state s"
  "Task_Entry k n ds \<in> run_entries s \<longleftrightarrow>
     (\<exists>t. fmlookup (rn_tasks s) k = Some t \<and> n = tk_task_id t \<and> ds = tk_dependencies t)"
  "Attempt_Entry k i a \<in> run_entries s \<longleftrightarrow>
     (\<exists>t. fmlookup (rn_tasks s) k = Some t \<and> i < length (tk_attempts t) \<and> a = tk_attempts t ! i)"
  "Wait_Entry w y \<in> run_entries s \<longleftrightarrow> fmlookup (rn_waits s) w = Some y"
  "Signal_Entry j v \<in> run_entries s \<longleftrightarrow> fmlookup (rn_signals s) j = Some v"
  by (auto simp: run_entries_def split: option.splits)

text \<open>The fold over the rows without the attempts.\<close>

lemma put_entries_root:
  assumes "set rows \<subseteq> run_entries s"
  shows "rn_state (fold put_entry rows b) = (if State_Entry (rn_state s) \<in> set rows then rn_state s else rn_state b)"
    and "rn_generation (fold put_entry rows b) =
      (if Generation_Entry (rn_generation s) \<in> set rows then rn_generation s else rn_generation b)"
    and "rn_input (fold put_entry rows b) = (if Input_Entry (rn_input s) \<in> set rows then rn_input s else rn_input b)"
    and "rn_definition (fold put_entry rows b) =
      (if Definition_Entry (rn_definition s) \<in> set rows then rn_definition s else rn_definition b)"
    and "rn_application_state (fold put_entry rows b) =
      (if Application_Entry (rn_application_state s) \<in> set rows then rn_application_state s
       else rn_application_state b)"
    and "rn_run_id (fold put_entry rows b) = rn_run_id b"
    and "rn_revision (fold put_entry rows b) = rn_revision b"
  using assms
proof (induction rows arbitrary: b)
  case (Cons e rows)
  {
    case 1 then show ?case using Cons(1)[of "put_entry e b"] by (cases e) (auto simp: with_tasks_def)
  next
    case 2 then show ?case using Cons(2)[of "put_entry e b"] by (cases e) (auto simp: with_tasks_def)
  next
    case 3 then show ?case using Cons(3)[of "put_entry e b"] by (cases e) (auto simp: with_tasks_def)
  next
    case 4 then show ?case using Cons(4)[of "put_entry e b"] by (cases e) (auto simp: with_tasks_def)
  next
    case 5 then show ?case using Cons(5)[of "put_entry e b"] by (cases e) (auto simp: with_tasks_def)
  next
    case 6 then show ?case using Cons(6)[of "put_entry e b"] by (cases e) (auto simp: with_tasks_def)
  next
    case 7 then show ?case using Cons(7)[of "put_entry e b"] by (cases e) (auto simp: with_tasks_def)
  }
qed auto

definition header_of :: "orun \<Rightarrow> string \<Rightarrow> task option" where
  "header_of s k = map_option (\<lambda>t. t\<lparr>tk_attempts := []\<rparr>) (fmlookup (rn_tasks s) k)"

lemma put_entries_maps:
  assumes "set rows \<subseteq> run_entries s"
  shows "fmlookup (rn_tasks (fold put_entry rows b)) k =
      (if \<exists>n ds. Task_Entry k n ds \<in> set rows then header_of s k else fmlookup (rn_tasks b) k)"
    and "fmlookup (rn_waits (fold put_entry rows b)) w =
      (if \<exists>x. Wait_Entry w x \<in> set rows then fmlookup (rn_waits s) w else fmlookup (rn_waits b) w)"
    and "fmlookup (rn_signals (fold put_entry rows b)) i =
      (if \<exists>v. Signal_Entry i v \<in> set rows then fmlookup (rn_signals s) i else fmlookup (rn_signals b) i)"
  using assms
proof (induction rows arbitrary: b)
  case (Cons e rows)
  {
    case 1 then show ?case using Cons(1)[of "put_entry e b"] by (cases e) (auto simp: with_tasks_def header_of_def)
  next
    case 2 then show ?case using Cons(2)[of "put_entry e b"] by (cases e) (auto simp: with_tasks_def)
  next
    case 3 then show ?case using Cons(3)[of "put_entry e b"] by (cases e) (auto simp: with_tasks_def)
  }
qed auto

subsection \<open>The attempts in order\<close>

text \<open>
  The rows of one task, in the order of the list, number its further attempts: then they
  are appended, for all tasks independently.
\<close>

lemma append_attempts_ok:
  assumes "\<And>k. List.map snd (filter (\<lambda>x. fst x = k) xs) =
      (case fmlookup m k of None \<Rightarrow> [] | Some t \<Rightarrow> List.enumerate (length (tk_attempts t)) (new k))"
  shows "\<exists>m'. append_attempts xs m = Inr m' \<and>
    (\<forall>k. fmlookup m' k = map_option (\<lambda>t. t\<lparr>tk_attempts := tk_attempts t @ new k\<rparr>) (fmlookup m k))"
  using assms
proof (induction xs arbitrary: m new)
  case Nil
  have "fmlookup m k = map_option (\<lambda>t. t\<lparr>tk_attempts := tk_attempts t @ new k\<rparr>) (fmlookup m k)" for k
    using Nil[of k] by (cases "fmlookup m k"; cases "new k") auto
  then show ?case by auto
next
  case (Cons x xs)
  obtain k i a where x: "x = (k, i, a)" by (cases x)
  obtain t where t: "fmlookup m k = Some t"
    using Cons(2)[of k] x by (auto split: option.splits)
  have enum: "(i, a) # List.map snd (filter (\<lambda>y. fst y = k) xs) = List.enumerate (length (tk_attempts t)) (new k)"
    using Cons(2)[of k] x t by simp
  then obtain rest where rest: "new k = a # rest" and i: "i = length (tk_attempts t)"
    and tl: "List.map snd (filter (\<lambda>y. fst y = k) xs) = List.enumerate (Suc i) rest"
    by (cases "new k") auto
  let ?u = "t\<lparr>tk_attempts := tk_attempts t @ [a]\<rparr>" and ?new = "new(k := rest)"
  have "List.map snd (filter (\<lambda>y. fst y = j) xs) = (case fmlookup (fmupd k ?u m) j of None \<Rightarrow> []
      | Some t \<Rightarrow> List.enumerate (length (tk_attempts t)) (?new j))" for j
    using Cons(2)[of j] x tl i by (cases "j = k") (auto split: option.splits)
  from Cons(1)[OF this] obtain m' where m': "append_attempts xs (fmupd k ?u m) = Inr m'"
    and lookups: "\<forall>j. fmlookup m' j = map_option (\<lambda>t. t\<lparr>tk_attempts := tk_attempts t @ ?new j\<rparr>)
      (fmlookup (fmupd k ?u m) j)" by blast
  have "fmlookup m' j = map_option (\<lambda>t. t\<lparr>tk_attempts := tk_attempts t @ new j\<rparr>) (fmlookup m j)" for j
    using lookups t rest by (cases "j = k") simp_all
  then show ?case using m' x t i by simp
qed

lemma sorted_enumerate:
  assumes "sorted (List.map fst xs)" and "distinct (List.map fst xs)"
    and "set xs = set (List.enumerate 0 as)"
  shows "xs = List.enumerate 0 as"
proof (rule map_sorted_distinct_set_unique[where f = fst])
  show "inj_on fst (set xs \<union> set (List.enumerate 0 as))"
    using assms(2,3) by (simp add: distinct_map)
  show "sorted (List.map fst xs)" and "distinct (List.map fst xs)" and "set xs = set (List.enumerate 0 as)"
    using assms by simp_all
qed (simp_all)

lemma in_attempt_rows: "(k, i, a) \<in> set (List.map_filter attempt_entry rows) \<longleftrightarrow> Attempt_Entry k i a \<in> set rows"
proof (induction rows)
  case (Cons e rows)
  then show ?case by (cases e) (auto simp: map_filter_simps)
qed (simp add: map_filter_simps)

lemma distinct_attempt_rows: "distinct rows \<Longrightarrow> distinct (List.map_filter attempt_entry rows)"
proof (induction rows)
  case (Cons e rows)
  then show ?case
    by (cases e) (auto simp: map_filter_simps in_attempt_rows)
qed (simp add: map_filter_simps)

lemma sorted_filter_key: "sorted (List.map f xs) \<Longrightarrow> sorted (List.map f (filter P xs))"
  by (induction xs) auto

text \<open>The attempts of one task among the sorted rows.\<close>

lemma attempts_in_order:
  assumes "distinct rows" and "set rows = run_entries s"
  shows "List.map snd (filter (\<lambda>x. fst x = k)
      (sort_key (\<lambda>(k, i, a). (k, i)) (List.map_filter attempt_entry rows))) =
    (case fmlookup (rn_tasks s) k of None \<Rightarrow> [] | Some t \<Rightarrow> List.enumerate 0 (tk_attempts t))"
    (is "?l = ?r")
proof -
  let ?key = "\<lambda>(k, i, a :: attempt). (k :: string, i :: nat)"
  let ?rows = "List.map_filter attempt_entry rows"
  let ?mine = "filter (\<lambda>x. fst x = k) (sort_key ?key ?rows)"
  have rows: "(j, i, a) \<in> set ?rows \<longleftrightarrow> (\<exists>t. fmlookup (rn_tasks s) j = Some t \<and> i < length (tk_attempts t) \<and>
      a = tk_attempts t ! i)" for j i a
    using assms(2) by (simp add: in_attempt_rows)
  then have l: "(i, a) \<in> set ?l \<longleftrightarrow> (\<exists>t. fmlookup (rn_tasks s) k = Some t \<and> i < length (tk_attempts t) \<and>
      a = tk_attempts t ! i)" for i a
    by (force simp: image_iff)
  have mine: "distinct ?mine" using distinct_attempt_rows[OF assms(1)] by simp
  have "inj_on snd (set ?mine)" by (auto simp: inj_on_def)
  with mine have d: "distinct ?l" by (simp add: distinct_map)
  have "sorted (List.map ?key ?mine)" by (rule sorted_filter_key) simp
  moreover have "List.map ?key ?mine = List.map (Pair k) (List.map fst ?l)"
    by (auto simp: comp_def split: prod.splits)
  ultimately have "sorted (List.map (Pair k) (List.map fst ?l))" by simp
  then have o: "sorted (List.map fst ?l)" by (simp add: sorted_map less_eq_prod_def)
  define L where "L = ?l"
  note LL = l[folded L_def] d[folded L_def] o[folded L_def]
  have "inj_on fst (set L)" using LL(1) by (auto simp: inj_on_def)
  then have "distinct (List.map fst L)" using LL(2) by (simp add: distinct_map)
  have "L = ?r"
  proof (cases "fmlookup (rn_tasks s) k")
    case None
    then have none: "x \<notin> set L" for x using LL(1)[of "fst x" "snd x"] by simp
    have "L = []"
      by (cases L) (use none[of "hd L"] in auto)
    then show ?thesis using None by simp
  next
    case (Some t)
    then have "set L = set (List.enumerate 0 (tk_attempts t))"
      using LL(1) by (auto simp: in_set_enumerate_eq)
    then show ?thesis using Some sorted_enumerate LL(3) \<open>distinct (List.map fst L)\<close> by simp
  qed
  then show ?thesis by (simp add: L_def)
qed

text \<open>Reading back the rows of a Run gives the Run.\<close>

theorem inflate_ok:
  assumes rows: "distinct rows" "set rows = run_entries s"
  shows "inflate (rn_run_id s) (rn_revision s) rows = Inr s"
proof -
  let ?b = "blank_run (rn_run_id s) (rn_revision s)"
  let ?s = "fold put_entry rows ?b"
  have sub: "set rows \<subseteq> run_entries s" using rows by simp
  have headers: "fmlookup (rn_tasks ?s) k = header_of s k" for k
    using put_entries_maps(1)[OF sub, of ?b k] rows(2) by (auto simp: blank_run_def header_of_def)
  have "\<exists>m. append_attempts (sort_key (\<lambda>(k, i, a). (k, i)) (List.map_filter attempt_entry rows)) (rn_tasks ?s)
      = Inr m \<and> (\<forall>k. fmlookup m k = map_option (\<lambda>t. t\<lparr>tk_attempts := tk_attempts t @
        (case fmlookup (rn_tasks s) k of None \<Rightarrow> [] | Some t \<Rightarrow> tk_attempts t)\<rparr>) (fmlookup (rn_tasks ?s) k))"
    by (rule append_attempts_ok)
      (auto simp: headers header_of_def attempts_in_order[OF rows] split: option.splits)
  then obtain m where m: "append_attempts (sort_key (\<lambda>(k, i, a). (k, i)) (List.map_filter attempt_entry rows))
      (rn_tasks ?s) = Inr m"
    and lookups: "\<And>k. fmlookup m k = map_option (\<lambda>t. t\<lparr>tk_attempts := tk_attempts t @
        (case fmlookup (rn_tasks s) k of None \<Rightarrow> [] | Some t \<Rightarrow> tk_attempts t)\<rparr>) (fmlookup (rn_tasks ?s) k)"
    by blast
  have "fmlookup m k = fmlookup (rn_tasks s) k" for k
    by (simp add: lookups headers header_of_def split: option.splits)
  then have tasks: "m = rn_tasks s" by (intro fmap_ext) simp
  have "fmlookup (rn_waits ?s) w = fmlookup (rn_waits s) w" for w
    using put_entries_maps(2)[OF sub, of ?b w] rows(2) by (cases "fmlookup (rn_waits s) w") (auto simp: blank_run_def)
  then have waits: "rn_waits ?s = rn_waits s" by (intro fmap_ext) simp
  have "fmlookup (rn_signals ?s) i = fmlookup (rn_signals s) i" for i
    using put_entries_maps(3)[OF sub, of ?b i] rows(2) by (cases "fmlookup (rn_signals s) i") (auto simp: blank_run_def)
  then have signals: "rn_signals ?s = rn_signals s" by (intro fmap_ext) simp
  have "?s\<lparr>rn_tasks := rn_tasks s\<rparr> = s"
    using waits signals put_entries_root[OF sub, of ?b] rows(2)
    by (intro orun.equality) (simp_all add: blank_run_def)
  then show ?thesis by (simp add: inflate_def Let_def m tasks)
qed

subsection \<open>The last row of every key\<close>

text \<open>The history of a Run as a set of entries with their revisions.\<close>

definition hist :: "string \<Rightarrow> odb \<Rightarrow> (int \<times> entry) set" where
  "hist run_id db = {(hr_revision h, hr_entry h) |h. h \<in> set (ob_history db) \<and> hr_run h = run_id}"

definition latest :: "(int \<times> entry) set \<Rightarrow> int \<Rightarrow> entry set" where
  "latest H r = {e. \<exists>v. (v, e) \<in> H \<and> v \<le> r \<and>
     (\<forall>v' e'. (v', e') \<in> H \<longrightarrow> v' \<le> r \<longrightarrow> entry_key e' = entry_key e \<longrightarrow> v' \<le> v)}"

definition history_key :: "history_row \<Rightarrow> string \<times> item_key \<times> int" where
  "history_key h = (hr_run h, entry_key (hr_entry h), hr_revision h)"

lemma in_hist: "(v, e) \<in> hist run_id db \<longleftrightarrow>
    (\<exists>h \<in> set (ob_history db). hr_run h = run_id \<and> hr_revision h = v \<and> hr_entry h = e)"
  by (auto simp: hist_def)

lemma set_entries_at: "set (entries_at run_id r db) = latest (hist run_id db) r"
proof -
  let ?P = "\<lambda>h. hr_run h = run_id \<and> hr_revision h \<le> r"
  let ?top = "\<lambda>h. \<forall>g \<in> set (ob_history db). ?P g \<longrightarrow> entry_key (hr_entry g) = entry_key (hr_entry h) \<longrightarrow>
    hr_revision g \<le> hr_revision h"
  have "set (entries_at run_id r db) = {e. \<exists>h \<in> set (ob_history db). ?P h \<and> ?top h \<and> hr_entry h = e}"
    by (auto simp: entries_at_def Let_def list_all_iff)
  also have "\<dots> = latest (hist run_id db) r"
    unfolding latest_def in_hist by blast
  finally show ?thesis .
qed

lemma distinct_entries_at:
  assumes "distinct (List.map history_key (ob_history db))"
  shows "distinct (entries_at run_id r db)"
proof -
  let ?rows = "filter (\<lambda>h. hr_run h = run_id \<and> hr_revision h \<le> r) (ob_history db)"
  let ?last = "filter (\<lambda>h. list_all (\<lambda>g. entry_key (hr_entry g) = entry_key (hr_entry h) \<longrightarrow>
    hr_revision g \<le> hr_revision h) ?rows) ?rows"
  have inj: "inj_on history_key (set (ob_history db))" and d: "distinct (ob_history db)"
    using assms by (auto simp: distinct_map)
  have "inj_on hr_entry (set ?last)"
  proof (rule inj_onI)
    fix g h assume g: "g \<in> set ?last" and h: "h \<in> set ?last" and e: "hr_entry g = hr_entry h"
    then have "hr_revision g = hr_revision h" by (intro order.antisym) (auto simp: list_all_iff)
    then have "history_key g = history_key h" using g h e by (simp add: history_key_def)
    then show "g = h" using inj g h by (auto dest: inj_onD)
  qed
  then show ?thesis using d by (simp add: entries_at_def Let_def distinct_map)
qed

text \<open>The rows of a later revision leave the earlier versions alone.\<close>

lemma latest_old: "(\<And>v e. (v, e) \<in> N \<Longrightarrow> r < v) \<Longrightarrow> latest (H \<union> N) r = latest H r"
  by (fastforce simp: latest_def)

lemma latestI: "(v, e) \<in> H \<Longrightarrow> v \<le> r \<Longrightarrow>
    (\<And>v' e'. (v', e') \<in> H \<Longrightarrow> v' \<le> r \<Longrightarrow> entry_key e' = entry_key e \<Longrightarrow> v' \<le> v) \<Longrightarrow> e \<in> latest H r"
  unfolding latest_def by blast

lemma latestD: "e \<in> latest H r \<Longrightarrow> \<exists>v. (v, e) \<in> H \<and> v \<le> r \<and>
    (\<forall>v' e'. (v', e') \<in> H \<longrightarrow> v' \<le> r \<longrightarrow> entry_key e' = entry_key e \<longrightarrow> v' \<le> v)"
  by (simp add: latest_def)

definition functional :: "(int \<times> entry) set \<Rightarrow> bool" where
  "functional H \<longleftrightarrow> (\<forall>v e f. (v, e) \<in> H \<longrightarrow> (v, f) \<in> H \<longrightarrow> entry_key e = entry_key f \<longrightarrow> e = f)"

lemma latest_unique:
  assumes "functional H" and e: "e \<in> latest H r" and f: "f \<in> latest H r" and k: "entry_key e = entry_key f"
  shows "e = f"
proof -
  obtain v where v: "(v, e) \<in> H" "v \<le> r"
    and v_top: "\<forall>v' e'. (v', e') \<in> H \<longrightarrow> v' \<le> r \<longrightarrow> entry_key e' = entry_key e \<longrightarrow> v' \<le> v"
    using latestD[OF e] by blast
  obtain w where w: "(w, f) \<in> H" "w \<le> r"
    and w_top: "\<forall>v' e'. (v', e') \<in> H \<longrightarrow> v' \<le> r \<longrightarrow> entry_key e' = entry_key f \<longrightarrow> v' \<le> w"
    using latestD[OF f] by blast
  have "w \<le> v" and "v \<le> w" using v_top w_top v w k by simp_all
  then have "v = w" by simp
  then show ?thesis using assms(1) v(1) w(1) k by (simp add: functional_def)
qed

text \<open>A new revision writes the entries that differ from the old ones.\<close>

lemma latest_new:
  assumes old: "\<And>v e. (v, e) \<in> H \<Longrightarrow> v \<le> n" and H: "functional H"
    and E: "\<And>e f. e \<in> E \<Longrightarrow> f \<in> E \<Longrightarrow> entry_key e = entry_key f \<Longrightarrow> e = f"
  shows "latest (H \<union> {n + 1} \<times> (E - latest H n)) (n + 1) =
    {e \<in> latest H n. entry_key e \<notin> entry_key ` E} \<union> E"
    (is "latest ?H _ = ?R")
proof (intro set_eqI iffI)
  fix e assume "e \<in> latest ?H (n + 1)"
  from latestD[OF this] obtain v where v: "(v, e) \<in> ?H" and top: "\<forall>v' e'. (v', e') \<in> ?H \<longrightarrow> v' \<le> n + 1 \<longrightarrow>
      entry_key e' = entry_key e \<longrightarrow> v' \<le> v" by blast
  show "e \<in> ?R"
  proof (cases "e \<in> E")
    case False
    then have e: "(v, e) \<in> H" using v by simp
    then have le: "v \<le> n" by (rule old)
    have l: "e \<in> latest H n" using e le top by (intro latestI[of v]) auto
    have "entry_key e \<noteq> entry_key f" if f: "f \<in> E" for f
    proof
      assume k: "entry_key e = entry_key f"
      have "f \<notin> latest H n" using latest_unique[OF H l _ k] f False by blast
      then have "n + 1 \<le> v" using top f k by auto
      then show False using le by simp
    qed
    then show ?thesis using l by blast
  qed simp
next
  fix e assume R: "e \<in> ?R"
  show "e \<in> latest ?H (n + 1)"
  proof (cases "e \<in> latest H n")
    case True
    from latestD[OF this] obtain v where v: "(v, e) \<in> H" "v \<le> n"
      and top: "\<forall>v' e'. (v', e') \<in> H \<longrightarrow> v' \<le> n \<longrightarrow> entry_key e' = entry_key e \<longrightarrow> v' \<le> v" by blast
    have none: "f \<notin> E - latest H n" if "entry_key f = entry_key e" for f
    proof
      assume f: "f \<in> E - latest H n"
      then have "entry_key e \<in> entry_key ` E" using that by (metis DiffD1 imageI)
      then have "e \<in> E" using R by blast
      then show False using E[OF _ _ that] f True by blast
    qed
    show ?thesis
    proof (rule latestI)
      fix v' e' assume "(v', e') \<in> ?H" and k: "entry_key e' = entry_key e"
      then have "(v', e') \<in> H" using none by blast
      then show "v' \<le> v" using top k old by blast
    qed (use v in auto)
  next
    case False
    then have "e \<in> E" using R by blast
    then show ?thesis using False by (intro latestI[of "n + 1"]) auto
  qed
qed

subsection \<open>What a save writes\<close>

definition item_row_key :: "item_row \<Rightarrow> string \<times> item_key" where
  "item_row_key r = (ir_run r, entry_key (ir_entry r))"

definition keys_ok :: "odb \<Rightarrow> bool" where
  "keys_ok db \<longleftrightarrow> distinct (List.map item_row_key (ob_items db)) \<and> distinct (List.map history_key (ob_history db))"

definition items :: "string \<Rightarrow> odb \<Rightarrow> entry set" where
  "items run_id db = set (items_of run_id db)"

definition inert :: "execution_row \<Rightarrow> execution_row" where
  "inert r = r\<lparr>xr_active := False\<rparr>"

text \<open>Only items, history and the active flags of executions change.\<close>

definition core :: "odb \<Rightarrow> odb" where
  "core db = db\<lparr>ob_items := [], ob_history := [], ob_executions := List.map inert (ob_executions db)\<rparr>"

definition saves_only :: "odb \<Rightarrow> odb \<Rightarrow> bool" where
  "saves_only db t \<longleftrightarrow> core t = core db"

lemma saves_only_refl [simp]: "saves_only db db"
  by (simp add: saves_only_def)

lemma saves_only_trans: "saves_only a b \<Longrightarrow> saves_only b c \<Longrightarrow> saves_only a c"
  by (simp add: saves_only_def)

lemma in_items: "e \<in> items run_id db \<longleftrightarrow> (\<exists>r \<in> set (ob_items db). ir_run r = run_id \<and> ir_entry r = e)"
  by (auto simp: items_def items_of_def)

lemma items_unique:
  assumes "keys_ok db" and "e \<in> items j db" and "f \<in> items j db" and "entry_key e = entry_key f"
  shows "e = f"
proof -
  obtain q r where "q \<in> set (ob_items db)" "r \<in> set (ob_items db)" "item_row_key q = item_row_key r"
    "ir_entry q = e" "ir_entry r = f"
    using assms(2-4) by (auto simp: in_items item_row_key_def)
  moreover have "inj_on item_row_key (set (ob_items db))" using assms(1) by (simp add: keys_ok_def distinct_map)
  ultimately show ?thesis by (auto dest: inj_onD)
qed

lemma distinct_items: "keys_ok db \<Longrightarrow> distinct (items_of j db)"
proof -
  assume "keys_ok db"
  then have "distinct (List.map item_row_key (filter (\<lambda>r. ir_run r = j) (ob_items db)))"
    by (simp add: keys_ok_def distinct_map_filter)
  moreover have "List.map item_row_key (filter (\<lambda>r. ir_run r = j) (ob_items db)) =
      List.map (\<lambda>e. (j, entry_key e)) (items_of j db)"
    by (simp add: items_of_def item_row_key_def)
  ultimately show ?thesis by (metis distinct_map)
qed

lemma find_item_iff:
  assumes ok: "keys_ok db"
  shows "find_item j (entry_key e) db = Some e \<longleftrightarrow> e \<in> items j db"
proof -
  have found: "find_item j k db = Some f \<Longrightarrow> f \<in> items j db \<and> entry_key f = k" for k f
    by (auto simp: find_item_def in_items dest!: sql_find_Some)
  show ?thesis
  proof
    assume e: "e \<in> items j db"
    then have "find_item j (entry_key e) db \<noteq> None"
      by (auto simp: find_item_def sql_find_None in_items)
    then show "find_item j (entry_key e) db = Some e"
      using found items_unique[OF ok _ e] by (metis not_None_eq)
  qed (use found in blast)
qed

lemma inert_activate: "List.map inert (activate e rows) = List.map inert rows"
  by (cases e) (auto simp: inert_def)

text \<open>The item table after an upsert, run by run.\<close>

definition upsert_item :: "string \<Rightarrow> entry \<Rightarrow> item_row list \<Rightarrow> item_row list" where
  "upsert_item i e rows = upsert (\<lambda>r. (ir_run r, entry_key (ir_entry r)))
     \<lparr>ir_run = i, ir_entry = e\<rparr> (\<lambda>r. r\<lparr>ir_entry := e\<rparr>) rows"

lemma upsert_item_rows:
  assumes ok: "distinct (List.map item_row_key rows)"
  shows "distinct (List.map item_row_key (upsert_item i e rows))"
    and "set (upsert_item i e rows) =
      insert \<lparr>ir_run = i, ir_entry = e\<rparr> {q \<in> set rows. item_row_key q \<noteq> (i, entry_key e)}"
proof -
  let ?new = "\<lparr>ir_run = i, ir_entry = e\<rparr>"
  let ?f = "\<lambda>q. if item_row_key q = (i, entry_key e) then ?new else q"
  have "(if item_row_key q = (i, entry_key e) then q\<lparr>ir_entry := e\<rparr> else q) = ?f q" for q
    by (cases q) (simp add: item_row_key_def)
  then have form: "upsert_item i e rows =
      (if sql_find item_row_key (i, entry_key e) rows = None then rows @ [?new] else List.map ?f rows)"
    by (simp add: upsert_item_def upsert_def item_row_key_def[abs_def])
  have "distinct (List.map item_row_key (upsert_item i e rows)) \<and> set (upsert_item i e rows) =
      insert ?new {q \<in> set rows. item_row_key q \<noteq> (i, entry_key e)}"
  proof (cases "sql_find item_row_key (i, entry_key e) rows")
    case None
    then have none: "(i, entry_key e) \<notin> item_row_key ` set rows" by (simp add: sql_find_None)
    then have "{q \<in> set rows. item_row_key q \<noteq> (i, entry_key e)} = set rows" by force
    then show ?thesis using None ok none by (simp add: form item_row_key_def)
  next
    case (Some p)
    then have p: "p \<in> set rows" "item_row_key p = (i, entry_key e)"
      using sql_find_Some[OF Some] by simp_all
    have "item_row_key (?f q) = item_row_key q" for q by (simp add: item_row_key_def)
    then have "List.map item_row_key (List.map ?f rows) = List.map item_row_key rows"
      by (simp only: list.map_comp comp_def)
    moreover have "?f ` set rows = insert ?new {q \<in> set rows. item_row_key q \<noteq> (i, entry_key e)}"
      using p by (auto simp: image_iff)
    ultimately show ?thesis using ok Some by (simp add: form del: map_map)
  qed
  then show "distinct (List.map item_row_key (upsert_item i e rows))"
    and "set (upsert_item i e rows) = insert ?new {q \<in> set rows. item_row_key q \<noteq> (i, entry_key e)}" by blast+
qed

lemma save_entry_effect:
  assumes run: "save_entry i n e db = Inr (u, t)" and ok: "keys_ok db"
  shows "keys_ok t" and "saves_only db t"
    and "items j t = (if j = i then {f \<in> items i db. entry_key f \<noteq> entry_key e} \<union> {e} else items j db)"
    and "hist j t = hist j db \<union> (if j = i \<and> e \<notin> items i db then {(n, e)} else {})"
proof -
  have "keys_ok t \<and> saves_only db t \<and>
      items j t = (if j = i then {f \<in> items i db. entry_key f \<noteq> entry_key e} \<union> {e} else items j db) \<and>
      hist j t = hist j db \<union> (if j = i \<and> e \<notin> items i db then {(n, e)} else {})"
  proof (cases "e \<in> items i db")
    case True
    then have "t = db" using run find_item_iff[OF ok] by (simp add: save_entry_def bind_Inr)
    then show ?thesis using True ok items_unique[OF ok _ True] by auto
  next
    case False
    let ?h = "\<lparr>hr_run = i, hr_revision = n, hr_entry = e\<rparr>"
    let ?items = "upsert_item i e (ob_items db)"
    have t: "t = db\<lparr>ob_items := ?items, ob_history := ob_history db @ [?h],
        ob_executions := activate e (ob_executions db)\<rparr>"
      and fresh: "sql_find history_key (history_key ?h) (ob_history db) = None"
      using run False find_item_iff[OF ok, of i e]
      by (auto simp: save_entry_def bind_Inr insert_history_def sql_insert_def history_key_def[abs_def] upsert_item_def
          split: if_splits sum.splits)
    have d: "distinct (List.map item_row_key (ob_items db))" using ok by (simp add: keys_ok_def)
    have "keys_ok t"
      using ok fresh upsert_item_rows(1)[OF d, of i e] by (auto simp: keys_ok_def t sql_find_None)
    moreover have "saves_only db t"
      by (simp add: saves_only_def core_def t inert_activate)
    moreover have "items j t = (if j = i then {f \<in> items i db. entry_key f \<noteq> entry_key e} \<union> {e} else items j db)"
      by (rule set_eqI, cases "j = i")
        (simp_all add: in_items t upsert_item_rows(2)[OF d] item_row_key_def, blast+)
    moreover have "hist j t = hist j db \<union> (if j = i then {(n, e)} else {})"
    proof (rule set_eqI)
      fix x show "x \<in> hist j t \<longleftrightarrow> x \<in> hist j db \<union> (if j = i then {(n, e)} else {})"
        by (cases x) (simp add: in_hist t, blast)
    qed
    ultimately show ?thesis using False by simp
  qed
  then show "keys_ok t" and "saves_only db t"
    and "items j t = (if j = i then {f \<in> items i db. entry_key f \<noteq> entry_key e} \<union> {e} else items j db)"
    and "hist j t = hist j db \<union> (if j = i \<and> e \<notin> items i db then {(n, e)} else {})" by blast+
qed

lemma save_entry_total:
  assumes "keys_ok db" and "\<And>f. (n, f) \<in> hist i db \<Longrightarrow> entry_key f \<noteq> entry_key e"
  shows "\<exists>t. save_entry i n e db = Inr ((), t)"
proof -
  have "sql_find history_key (history_key \<lparr>hr_run = i, hr_revision = n, hr_entry = e\<rparr>) (ob_history db) = None"
    unfolding sql_find_None
  proof
    assume "history_key \<lparr>hr_run = i, hr_revision = n, hr_entry = e\<rparr> \<in> history_key ` set (ob_history db)"
    then obtain h where h: "h \<in> set (ob_history db)" "hr_run h = i" "hr_revision h = n"
      "entry_key (hr_entry h) = entry_key e" by (auto simp: history_key_def)
    then have "(n, hr_entry h) \<in> hist i db" by (auto simp: in_hist)
    then show False using assms(2) h(4) by blast
  qed
  then show ?thesis
    by (simp add: save_entry_def bind_def get_def modify_def ret_def insert_history_def sql_insert_def
        history_key_def[abs_def])
qed

lemma save_entries_effect:
  "each (save_entry i n) es db = Inr (us, t) \<Longrightarrow> keys_ok db \<Longrightarrow> distinct (List.map entry_key es) \<Longrightarrow>
     keys_ok t \<and> saves_only db t \<and>
     items i t = {f \<in> items i db. entry_key f \<notin> entry_key ` set es} \<union> set es \<and>
     hist i t = hist i db \<union> {n} \<times> (set es - items i db) \<and>
     (\<forall>j. j \<noteq> i \<longrightarrow> items j t = items j db \<and> hist j t = hist j db)"
proof (induction es arbitrary: db us)
  case (Cons e es)
  obtain vs m where first: "save_entry i n e db = Inr ((), m)" and rest: "each (save_entry i n) es m = Inr (vs, t)"
    using Cons(2) by (auto simp: bind_Inr)
  note eff = save_entry_effect[OF first Cons(3)]
  note ih = Cons(1)[OF rest eff(1)]
  have d: "distinct (List.map entry_key es)" and e: "entry_key e \<notin> entry_key ` set es" using Cons(4) by auto
  have "items i t = {f \<in> items i db. entry_key f \<notin> entry_key ` set (e # es)} \<union> set (e # es)"
    using ih[OF d] eff(3)[of i] e by auto
  moreover have "hist i t = hist i db \<union> {n} \<times> (set (e # es) - items i db)"
  proof -
    have "f \<in> items i m \<longleftrightarrow> f \<in> items i db" if "f \<in> set es" for f
    proof -
      have "entry_key f \<noteq> entry_key e" using e that by (metis imageI)
      then show ?thesis using eff(3)[of i] by auto
    qed
    then have "set es - items i m = set es - items i db" by blast
    then show ?thesis using ih[OF d] eff(4)[of i] by auto
  qed
  moreover have "saves_only db t" using ih[OF d] eff(2) saves_only_trans by blast
  ultimately show ?case using ih[OF d] eff(3,4) by simp
qed auto

lemma save_entries_total:
  "keys_ok db \<Longrightarrow> distinct (List.map entry_key es) \<Longrightarrow>
     (\<And>f. (n, f) \<in> hist i db \<Longrightarrow> entry_key f \<notin> entry_key ` set es) \<Longrightarrow>
     \<exists>us t. each (save_entry i n) es db = Inr (us, t)"
proof (induction es arbitrary: db)
  case (Cons e es)
  obtain m where first: "save_entry i n e db = Inr ((), m)"
    using save_entry_total[OF Cons(2), of n i e] Cons(4) by fastforce
  note eff = save_entry_effect[OF first Cons(2)]
  have "\<exists>us t. each (save_entry i n) es m = Inr (us, t)"
    using Cons(3,4) eff(4)[of i] by (intro Cons(1)[OF eff(1)]) (auto split: if_splits)
  then show ?case using first by (auto simp: bind_def)
qed auto

lemma entries_of_Inr:
  "entries_of s ks = Inr es \<Longrightarrow> List.map entry_key es = ks \<and> set es \<subseteq> run_entries s"
proof (induction ks arbitrary: es)
  case (Cons k ks)
  then obtain e fs where e: "entry_of s k = Some e" and fs: "entries_of s ks = Inr fs" and es: "es = e # fs"
    by (auto simp: result_simps)
  then show ?case using Cons(1)[OF fs] entry_of_key[OF e] by (simp add: run_entries_iff)
qed auto

lemma entries_of_total: "(\<And>k. k \<in> set ks \<Longrightarrow> entry_of s k \<noteq> None) \<Longrightarrow> \<exists>es. entries_of s ks = Inr es"
  by (induction ks) force+

text \<open>The keys a save looks at.\<close>

definition saved_keys :: "orun \<Rightarrow> item_key list option \<Rightarrow> item_key set" where
  "saved_keys s changes = set root_keys \<union> (case changes of None \<Rightarrow> set (all_keys s) | Some ks \<Rightarrow> set ks)"

definition no_roots :: "item_key list \<Rightarrow> bool" where
  "no_roots ks \<longleftrightarrow> (\<forall>k \<in> set ks. \<forall>r. k \<noteq> Root r)"

lemma no_roots_all [simp]: "no_roots (all_keys s)"
  by (auto simp: no_roots_def all_keys_def split: option.splits)

lemma item_values_Inr:
  assumes "item_values s changes = Inr es" and "\<And>ks. changes = Some ks \<Longrightarrow> no_roots ks"
  shows "distinct (List.map entry_key es)"
    and "set es = {e \<in> run_entries s. entry_key e \<in> saved_keys s changes}"
proof -
  let ?ks = "case changes of None \<Rightarrow> all_keys s | Some ks \<Rightarrow> ks"
  have es: "List.map entry_key es = root_keys @ remdups ?ks" "set es \<subseteq> run_entries s"
    using assms(1) entries_of_Inr by (auto simp: item_values_def)
  have "no_roots ?ks" using assms(2) by (auto split: option.splits)
  then show "distinct (List.map entry_key es)" unfolding es
    by (auto simp: root_keys_def no_roots_def)
  have keys: "entry_key ` set es = saved_keys s changes"
    using arg_cong[OF es(1), of set] by (auto simp: saved_keys_def split: option.splits)
  show "set es = {e \<in> run_entries s. entry_key e \<in> saved_keys s changes}"
  proof (intro set_eqI iffI)
    fix e assume "e \<in> {e \<in> run_entries s. entry_key e \<in> saved_keys s changes}"
    then obtain f where "f \<in> set es" "entry_key f = entry_key e" "e \<in> run_entries s"
      using keys by (metis (mono_tags, lifting) imageE mem_Collect_eq)
    then show "e \<in> set es" using es(2) run_entries_inj by blast
  qed (use es(2) keys in auto)
qed

subsection \<open>Well-formed stores\<close>

text \<open>A state committed for its Run: its revision is recorded and the history represents it.\<close>

definition committed :: "odb \<Rightarrow> orun \<Rightarrow> bool" where
  "committed db s \<longleftrightarrow> (rn_run_id s, rn_revision s) \<in> set (ob_revisions db) \<and>
     latest (hist (rn_run_id s) db) (rn_revision s) = run_entries s"

definition current_run :: "odb \<Rightarrow> orun \<Rightarrow> bool" where
  "current_run db s \<longleftrightarrow> committed db s \<and>
     \<lparr>rr_run_id = rn_run_id s, rr_revision = rn_revision s, rr_state = rn_state s\<rparr> \<in> set (ob_runs db) \<and>
     items (rn_run_id s) db = run_entries s"

definition revisions_ok :: "odb \<Rightarrow> bool" where
  "revisions_ok db \<longleftrightarrow> distinct (List.map rr_run_id (ob_runs db)) \<and> distinct (ob_revisions db) \<and>
     (\<forall>i r. (i, r) \<in> set (ob_revisions db) \<longleftrightarrow>
        (\<exists>q \<in> set (ob_runs db). rr_run_id q = i \<and> 0 \<le> r \<and> r \<le> rr_revision q))"

definition store_ok :: "odb \<Rightarrow> bool" where
  "store_ok db \<longleftrightarrow> keys_ok db \<and> revisions_ok db \<and> ob_disposed db = [] \<and>
     (\<forall>i v e. (v, e) \<in> hist i db \<longrightarrow> (i, v) \<in> set (ob_revisions db)) \<and>
     (\<forall>i e. e \<in> items i db \<longrightarrow> i \<in> rr_run_id ` set (ob_runs db)) \<and>
     (\<forall>i r. (i, r) \<in> set (ob_revisions db) \<longrightarrow>
        (\<exists>s. rn_run_id s = i \<and> rn_revision s = r \<and> committed db s \<and> run_ok s)) \<and>
     (\<forall>q \<in> set (ob_runs db). \<exists>s. current_run db s \<and> rn_run_id s = rr_run_id q)"

lemma revision_committed: "store_ok db \<Longrightarrow> (i, r) \<in> set (ob_revisions db) \<Longrightarrow>
    \<exists>s. rn_run_id s = i \<and> rn_revision s = r \<and> committed db s \<and> run_ok s"
  by (simp add: store_ok_def)

lemma store_ok_empty: "store_ok empty_odb"
  by (simp add: store_ok_def keys_ok_def revisions_ok_def empty_odb_def hist_def in_items)

text \<open>These six tables are all a store's well-formedness speaks of.\<close>

definition same_base :: "odb \<Rightarrow> odb \<Rightarrow> bool" where
  "same_base db t \<longleftrightarrow> ob_runs t = ob_runs db \<and> ob_revisions t = ob_revisions db \<and> ob_items t = ob_items db \<and>
     ob_history t = ob_history db \<and> ob_disposed t = ob_disposed db"

lemma same_base_committed: "same_base db t \<Longrightarrow> committed t = committed db"
  and same_base_current: "same_base db t \<Longrightarrow> current_run t = current_run db"
  and same_base_ok: "same_base db t \<Longrightarrow> store_ok t = store_ok db"
proof -
  assume b: "same_base db t"
  have h: "hist i t = hist i db" and "items i t = items i db" for i
    using b by (simp_all add: same_base_def hist_def in_items set_eq_iff)
  then show c: "committed t = committed db" and r: "current_run t = current_run db"
    using b by (auto simp: same_base_def committed_def current_run_def fun_eq_iff)
  show "store_ok t = store_ok db"
    using b h \<open>\<And>i. items i t = items i db\<close>
    by (simp add: store_ok_def c r keys_ok_def revisions_ok_def same_base_def)
qed

lemma load_at_ok:
  assumes ok: "store_ok db" and s: "committed db s"
  shows "load_at (rn_run_id s) (rn_revision s) db = Inr (s, db)"
proof -
  let ?rows = "entries_at (rn_run_id s) (rn_revision s) db"
  have "distinct ?rows" using ok by (intro distinct_entries_at) (simp add: store_ok_def keys_ok_def)
  moreover have "set ?rows = run_entries s" using s by (simp add: set_entries_at committed_def)
  ultimately have "inflate (rn_run_id s) (rn_revision s) ?rows = Inr s" by (rule inflate_ok)
  moreover have "ob_disposed db = []" "(rn_run_id s, rn_revision s) \<in> set (ob_revisions db)"
    using ok s by (simp_all add: store_ok_def committed_def)
  ultimately show ?thesis
    by (simp add: load_at_def assert_not_disposed_def bind_def get_def check_def lift_def)
qed

lemma committed_unique:
  assumes "store_ok db" and "committed db s" and "committed db t"
    and "rn_run_id s = rn_run_id t" and "rn_revision s = rn_revision t"
  shows "s = t"
proof -
  have "load_at (rn_run_id t) (rn_revision t) db = Inr (s, db)"
    using load_at_ok[OF assms(1,2)] unfolding assms(4,5) .
  then show ?thesis unfolding load_at_ok[OF assms(1,3)] by simp
qed

lemma find_run:
  assumes ok: "store_ok db" and s: "current_run db s"
  shows "sql_find rr_run_id (rn_run_id s) (ob_runs db) =
    Some \<lparr>rr_run_id = rn_run_id s, rr_revision = rn_revision s, rr_state = rn_state s\<rparr>"
proof -
  let ?q = "\<lparr>rr_run_id = rn_run_id s, rr_revision = rn_revision s, rr_state = rn_state s\<rparr>"
  have q: "?q \<in> set (ob_runs db)" using s by (simp add: current_run_def)
  have inj: "inj_on rr_run_id (set (ob_runs db))" using ok by (simp add: store_ok_def revisions_ok_def distinct_map)
  show ?thesis
  proof (cases "sql_find rr_run_id (rn_run_id s) (ob_runs db)")
    case None
    have "rn_run_id s \<in> rr_run_id ` set (ob_runs db)" using imageI[OF q, of rr_run_id] by simp
    then show ?thesis using None by (simp add: sql_find_None)
  next
    case (Some p)
    then have "p \<in> set (ob_runs db)" "rr_run_id p = rr_run_id ?q" using sql_find_Some[OF Some] by simp_all
    then have "p = ?q" using inj_onD[OF inj _ _ q] by blast
    then show ?thesis using Some by simp
  qed
qed

lemma load_ok:
  assumes ok: "store_ok db" and s: "current_run db s"
  shows "load (rn_run_id s) db = Inr (s, db)"
proof -
  let ?rows = "items_of (rn_run_id s) db"
  have "distinct ?rows" using ok by (intro distinct_items) (simp add: store_ok_def)
  moreover have "set ?rows = run_entries s" using s by (simp add: current_run_def items_def)
  ultimately have "inflate (rn_run_id s) (rn_revision s) ?rows = Inr s" by (rule inflate_ok)
  moreover have "ob_disposed db = []" using ok by (simp add: store_ok_def)
  ultimately show ?thesis
    by (simp add: load_def require_run_def assert_not_disposed_def bind_def get_def check_def lift_def ret_def
        find_run[OF ok s])
qed

text \<open>What \<open>load\<close> returns is the current state, well formed.\<close>

lemma load_Inr:
  assumes ok: "store_ok db" and run: "load i db = Inr (s, t)"
  shows "current_run db s" and "rn_run_id s = i" and "run_ok s" and "t = db"
proof -
  obtain q where "sql_find rr_run_id i (ob_runs db) = Some q"
    using run by (auto simp: load_def require_run_def assert_not_disposed_def bind_Inr)
  then have q: "q \<in> set (ob_runs db)" "rr_run_id q = i" using sql_find_Some by fastforce+
  then obtain u where u: "current_run db u" "rn_run_id u = i" using ok by (auto simp: store_ok_def)
  then have "s = u" "t = db" using load_ok[OF ok u(1)] run by simp_all
  then show "current_run db s" "rn_run_id s = i" "t = db" using u by simp_all
  have c: "committed db u" using u by (simp add: current_run_def)
  then have "(rn_run_id u, rn_revision u) \<in> set (ob_revisions db)" by (simp add: committed_def)
  then obtain w where w: "committed db w" "run_ok w" "rn_run_id w = rn_run_id u" "rn_revision w = rn_revision u"
    using revision_committed[OF ok] by blast
  have "w = u" by (rule committed_unique[OF ok w(1) c w(3,4)])
  then show "run_ok s" using w(2) \<open>s = u\<close> by simp
qed

subsection \<open>A save commits one more version\<close>

text \<open>
  A store in which the Run \<open>i\<close> is about to get revision \<open>n\<close>, its items \<open>E\<close> being those of the
  revision before: of an existing Run, or of one just inserted.
\<close>

definition ready :: "odb \<Rightarrow> string \<Rightarrow> int \<Rightarrow> entry set \<Rightarrow> bool" where
  "ready db i n E \<longleftrightarrow> keys_ok db \<and> ob_disposed db = [] \<and> distinct (List.map rr_run_id (ob_runs db)) \<and>
     distinct (ob_revisions db) \<and> i \<in> rr_run_id ` set (ob_runs db) \<and> 0 \<le> n \<and>
     (\<forall>r. (i, r) \<in> set (ob_revisions db) \<longleftrightarrow> 0 \<le> r \<and> r < n) \<and>
     (\<forall>j r. j \<noteq> i \<longrightarrow> (j, r) \<in> set (ob_revisions db) \<longleftrightarrow>
        (\<exists>q \<in> set (ob_runs db). rr_run_id q = j \<and> 0 \<le> r \<and> r \<le> rr_revision q)) \<and>
     (\<forall>j v e. (v, e) \<in> hist j db \<longrightarrow> (j, v) \<in> set (ob_revisions db)) \<and>
     (\<forall>j e. e \<in> items j db \<longrightarrow> j \<in> rr_run_id ` set (ob_runs db)) \<and>
     (\<forall>j r. (j, r) \<in> set (ob_revisions db) \<longrightarrow>
        (\<exists>s. rn_run_id s = j \<and> rn_revision s = r \<and> committed db s \<and> run_ok s)) \<and>
     (\<forall>q \<in> set (ob_runs db). rr_run_id q \<noteq> i \<longrightarrow> (\<exists>s. current_run db s \<and> rn_run_id s = rr_run_id q)) \<and>
     items i db = E \<and> latest (hist i db) (n - 1) = E"

lemma ready_existing:
  assumes ok: "store_ok db" and s: "current_run db s"
  shows "ready db (rn_run_id s) (rn_revision s + 1) (run_entries s)"
proof -
  let ?i = "rn_run_id s" and ?q = "\<lparr>rr_run_id = rn_run_id s, rr_revision = rn_revision s, rr_state = rn_state s\<rparr>"
  have q: "?q \<in> set (ob_runs db)" using s by (simp add: current_run_def)
  have inj: "inj_on rr_run_id (set (ob_runs db))" using ok by (simp add: store_ok_def revisions_ok_def distinct_map)
  have only: "p = ?q" if "p \<in> set (ob_runs db)" "rr_run_id p = ?i" for p
    using inj_onD[OF inj _ that(1) q] that(2) by simp
  have revs: "(j, r) \<in> set (ob_revisions db) \<longleftrightarrow>
      (\<exists>p \<in> set (ob_runs db). rr_run_id p = j \<and> 0 \<le> r \<and> r \<le> rr_revision p)" for j r
    using ok by (simp add: store_ok_def revisions_ok_def)
  have mine: "(?i, r) \<in> set (ob_revisions db) \<longleftrightarrow> 0 \<le> r \<and> r < rn_revision s + 1" for r
  proof -
    have "(\<exists>p \<in> set (ob_runs db). rr_run_id p = ?i \<and> 0 \<le> r \<and> r \<le> rr_revision p) \<longleftrightarrow>
        0 \<le> r \<and> r \<le> rr_revision ?q"
    proof
      assume "\<exists>p \<in> set (ob_runs db). rr_run_id p = ?i \<and> 0 \<le> r \<and> r \<le> rr_revision p"
      then obtain p where "p \<in> set (ob_runs db)" "rr_run_id p = ?i" "0 \<le> r \<and> r \<le> rr_revision p" by blast
      then show "0 \<le> r \<and> r \<le> rr_revision ?q" using only by simp
    next
      assume "0 \<le> r \<and> r \<le> rr_revision ?q"
      then show "\<exists>p \<in> set (ob_runs db). rr_run_id p = ?i \<and> 0 \<le> r \<and> r \<le> rr_revision p"
        by (intro bexI[OF _ q]) simp
    qed
    then show ?thesis by (simp add: revs)
  qed
  have "(?i, rn_revision s) \<in> set (ob_revisions db)" using s by (simp add: current_run_def committed_def)
  then have "0 \<le> rn_revision s" using mine by simp
  moreover have "?i \<in> rr_run_id ` set (ob_runs db)" using imageI[OF q, of rr_run_id] by simp
  moreover have "latest (hist ?i db) (rn_revision s + 1 - 1) = run_entries s" "items ?i db = run_entries s"
    using s by (simp_all add: current_run_def committed_def)
  ultimately show ?thesis
    using ok mine revs unfolding ready_def store_ok_def revisions_ok_def by simp
qed

end
