(* ===== verification/Commits.thy ===== *)
theory Commits
  imports Versions Engine
begin

text \<open>
  A save commits one more version of its Run: the store stays well formed, the saved state is
  the current one and can be read at its revision, and every version committed before, of
  this Run or another, can still be read.
\<close>

subsection \<open>A Run about to be saved for the first time\<close>

lemma ready_new:
  assumes ok: "store_ok db" and fresh: "\<not> run_exists i db"
  shows "ready (db\<lparr>ob_runs := ob_runs db @ [\<lparr>rr_run_id = i, rr_revision = 0, rr_state = Run_Running\<rparr>]\<rparr>) i 0 {}"
proof -
  let ?q = "\<lparr>rr_run_id = i, rr_revision = 0, rr_state = Run_Running\<rparr>"
  let ?t = "db\<lparr>ob_runs := ob_runs db @ [?q]\<rparr>"
  have i: "i \<notin> rr_run_id ` set (ob_runs db)" using fresh by (simp add: run_exists_def sql_find_None)
  have h: "hist j ?t = hist j db" and m: "items j ?t = items j db" for j
    by (simp_all add: set_eq_iff in_items hist_def)
  have c: "committed ?t s = committed db s" for s by (simp add: committed_def h)
  have revs: "(j, r) \<in> set (ob_revisions db) \<longleftrightarrow>
      (\<exists>p \<in> set (ob_runs db). rr_run_id p = j \<and> 0 \<le> r \<and> r \<le> rr_revision p)" for j r
    using ok by (simp add: store_ok_def revisions_ok_def)
  have none: "(i, r) \<notin> set (ob_revisions db)" for r using revs i by (auto simp: image_iff)
  have hi: "hist i db = {}" using ok none by (auto simp: store_ok_def)
  have mi: "items i db = {}" using ok i by (auto simp: store_ok_def)
  have cur: "current_run ?t s" if "current_run db s" for s
    using that by (simp add: current_run_def c m)
  have others: "(j, r) \<in> set (ob_revisions ?t) \<longleftrightarrow>
      (\<exists>q \<in> set (ob_runs ?t). rr_run_id q = j \<and> 0 \<le> r \<and> r \<le> rr_revision q)" if "j \<noteq> i" for j r
    using that by (simp add: revs)
  have runs: "\<exists>s. current_run ?t s \<and> rn_run_id s = rr_run_id q"
    if "q \<in> set (ob_runs ?t)" "rr_run_id q \<noteq> i" for q
  proof -
    have "q \<in> set (ob_runs db)" using that by auto
    then obtain s where "current_run db s" "rn_run_id s = rr_run_id q" using ok by (auto simp: store_ok_def)
    then show ?thesis using cur by blast
  qed
  have parts: "keys_ok ?t" "ob_disposed ?t = []" "distinct (ob_revisions ?t)"
    "distinct (List.map rr_run_id (ob_runs ?t))" "i \<in> rr_run_id ` set (ob_runs ?t)"
    using ok i by (simp_all add: store_ok_def revisions_ok_def keys_ok_def)
  have "(j, v) \<in> set (ob_revisions ?t)" if "(v, e) \<in> hist j ?t" for j v e
    using that ok by (auto simp: h store_ok_def)
  moreover have "j \<in> rr_run_id ` set (ob_runs ?t)" if "e \<in> items j ?t" for j e
    using that ok by (auto simp: m store_ok_def)
  moreover have "\<exists>s. rn_run_id s = j \<and> rn_revision s = r \<and> committed ?t s \<and> run_ok s"
    if "(j, r) \<in> set (ob_revisions ?t)" for j r
    using that revision_committed[OF ok, of j r] by (simp add: c)
  moreover have "items i ?t = {}" "latest (hist i ?t) (0 - 1) = {}" by (simp_all add: m mi h hi latest_def)
  moreover have "(i, r) \<notin> set (ob_revisions ?t)" for r using none by simp
  ultimately show ?thesis
    unfolding ready_def using parts others runs by (intro conjI allI impI ballI) auto
qed

subsection \<open>The effect of a save\<close>

definition run_written :: "orun \<Rightarrow> odb \<Rightarrow> odb" where
  "run_written s db = db\<lparr>ob_runs := List.map (\<lambda>r. if rr_run_id r = rn_run_id s
       then r\<lparr>rr_revision := rn_revision s, rr_state := rn_state s\<rparr> else r) (ob_runs db),
     ob_revisions := ob_revisions db @ [(rn_run_id s, rn_revision s)]\<rparr>"

lemma save_Inr:
  assumes "save s changes db = Inr (u, t)"
  obtains es us where "(rn_run_id s, rn_revision s) \<notin> set (ob_revisions db)"
    "item_values s changes = Inr es"
    "each (save_entry (rn_run_id s) (rn_revision s)) es (run_written s db) = Inr (us, t)"
  using assms
  by (auto simp: save_def bind_Inr insert_revision_def sql_insert_def sql_find_None run_written_def
      split: if_splits sum.splits)

lemma run_written_parts [simp]:
  "keys_ok (run_written s db) = keys_ok db" "hist j (run_written s db) = hist j db"
  "items j (run_written s db) = items j db" "ob_disposed (run_written s db) = ob_disposed db"
  "ob_executions (run_written s db) = ob_executions db"
  by (auto simp: run_written_def keys_ok_def hist_def in_items set_eq_iff)

text \<open>The fields of the database no save touches.\<close>

definition other_tables :: "odb \<Rightarrow> odb" where
  "other_tables db = (core db)\<lparr>ob_runs := [], ob_revisions := []\<rparr>"

lemma core_fields: "core t = core db \<Longrightarrow> ob_runs t = ob_runs db \<and> ob_revisions t = ob_revisions db \<and>
    ob_disposed t = ob_disposed db \<and> other_tables t = other_tables db"
proof -
  assume c: "core t = core db"
  have "ob_runs (core x) = ob_runs x" "ob_revisions (core x) = ob_revisions x" "ob_disposed (core x) = ob_disposed x" for x
    by (simp_all add: core_def)
  then show ?thesis using c by (metis other_tables_def)
qed

definition roots_ok :: "item_key list option \<Rightarrow> bool" where
  "roots_ok changes \<longleftrightarrow> (\<forall>ks. changes = Some ks \<longrightarrow> no_roots ks)"

lemma save_effect:
  assumes run: "save s changes db = Inr (u, t)" and ok: "keys_ok db"
    and roots: "roots_ok changes"
    and i: "i = rn_run_id s" and n: "n = rn_revision s"
    and K: "K = saved_keys s changes" and E: "E = {e \<in> run_entries s. entry_key e \<in> K}"
  shows "keys_ok t" and "ob_runs t = ob_runs (run_written s db)" and "ob_revisions t = ob_revisions db @ [(i, n)]"
    and "(i, n) \<notin> set (ob_revisions db)" and "ob_disposed t = ob_disposed db"
    and "other_tables t = other_tables db"
    and "items i t = {f \<in> items i db. entry_key f \<notin> entry_key ` E} \<union> E"
    and "hist i t = hist i db \<union> {n} \<times> (E - items i db)"
    and "\<And>j. j \<noteq> i \<Longrightarrow> items j t = items j db \<and> hist j t = hist j db"
    and "\<And>k. k \<in> K \<Longrightarrow> \<exists>e \<in> E. entry_key e = k"
proof -
  obtain es us where fresh: "(i, n) \<notin> set (ob_revisions db)" and es: "item_values s changes = Inr es"
    and each: "each (save_entry i n) es (run_written s db) = Inr (us, t)"
    using save_Inr[OF run] i n by metis
  have d: "distinct (List.map entry_key es)" and set: "set es = E"
    using item_values_Inr[OF es] roots by (auto simp: E K roots_ok_def)
  have eff: "keys_ok t \<and> saves_only (run_written s db) t \<and>
     items i t = {f \<in> items i db. entry_key f \<notin> entry_key ` E} \<union> E \<and>
     hist i t = hist i db \<union> {n} \<times> (E - items i db) \<and>
     (\<forall>j. j \<noteq> i \<longrightarrow> items j t = items j db \<and> hist j t = hist j db)"
    using save_entries_effect[OF each _ d] ok by (simp add: set)
  then have c: "core t = core (run_written s db)" by (simp add: saves_only_def)
  show "keys_ok t" and "items i t = {f \<in> items i db. entry_key f \<notin> entry_key ` E} \<union> E"
    and "hist i t = hist i db \<union> {n} \<times> (E - items i db)"
    and "\<And>j. j \<noteq> i \<Longrightarrow> items j t = items j db \<and> hist j t = hist j db" using eff by blast+
  show "(i, n) \<notin> set (ob_revisions db)" by (rule fresh)
  show "ob_runs t = ob_runs (run_written s db)" and "ob_disposed t = ob_disposed db"
    using core_fields[OF c] by simp_all
  show "ob_revisions t = ob_revisions db @ [(i, n)]"
    using core_fields[OF c] by (simp add: run_written_def i n)
  have "other_tables (run_written s db) = other_tables db"
    by (simp add: other_tables_def core_def run_written_def)
  then show "other_tables t = other_tables db" using core_fields[OF c] by simp
  show "\<exists>e \<in> E. entry_key e = k" if k: "k \<in> K" for k
  proof -
    let ?ks = "case changes of None \<Rightarrow> all_keys s | Some ks \<Rightarrow> ks"
    have keys: "List.map entry_key es = root_keys @ remdups ?ks"
      using es entries_of_Inr by (auto simp: item_values_def)
    have "entry_key ` set es = K"
      using arg_cong[OF keys, of set] by (auto simp: K saved_keys_def split: option.splits)
    then show ?thesis using k set by (metis imageE)
  qed
qed

text \<open>Outside the saved keys the Run has the entries it had.\<close>

definition covers :: "item_key set \<Rightarrow> entry set \<Rightarrow> orun \<Rightarrow> bool" where
  "covers K E s \<longleftrightarrow> (\<forall>e. entry_key e \<notin> K \<longrightarrow> e \<in> E \<longleftrightarrow> e \<in> run_entries s)"

lemma hist_functional: "keys_ok db \<Longrightarrow> functional (hist i db)"
proof -
  assume "keys_ok db"
  then have inj: "inj_on history_key (set (ob_history db))" by (simp add: keys_ok_def distinct_map)
  show ?thesis
    unfolding functional_def
  proof (intro allI impI)
    fix v e f assume "(v, e) \<in> hist i db" and "(v, f) \<in> hist i db" and k: "entry_key e = entry_key f"
    then obtain g h where gh: "g \<in> set (ob_history db)" "h \<in> set (ob_history db)" "hr_entry g = e" "hr_entry h = f"
      "hr_run g = i" "hr_run h = i" "hr_revision g = v" "hr_revision h = v" by (auto simp: in_hist)
    then have "history_key g = history_key h" using k by (simp add: history_key_def)
    then show "e = f" using inj_onD[OF inj _ gh(1,2)] gh by simp
  qed
qed

lemma ready_hist: "ready db i n E \<Longrightarrow> (v, e) \<in> hist i db \<Longrightarrow> 0 \<le> v \<and> v < n"
  unfolding ready_def by blast

lemma save_version:
  assumes run: "save s changes db = Inr (u, t)" and ready: "ready db (rn_run_id s) (rn_revision s) E"
    and roots: "roots_ok changes" and covers: "covers (saved_keys s changes) E s"
  shows "items (rn_run_id s) t = run_entries s"
    and "latest (hist (rn_run_id s) t) (rn_revision s) = run_entries s"
    and "r < rn_revision s \<Longrightarrow> latest (hist (rn_run_id s) t) r = latest (hist (rn_run_id s) db) r"
proof -
  let ?i = "rn_run_id s" and ?n = "rn_revision s" and ?K = "saved_keys s changes"
  let ?S = "{e \<in> run_entries s. entry_key e \<in> ?K}"
  have ok: "keys_ok db" using ready by (simp add: ready_def)
  have E: "items ?i db = E" "latest (hist ?i db) (?n - 1) = E" using ready by (simp_all add: ready_def)
  note eff = save_effect[OF run ok roots refl refl refl refl]
  have K: "entry_key e \<in> entry_key ` ?S \<longleftrightarrow> entry_key e \<in> ?K" for e
    using eff(10) by (metis (mono_tags, lifting) imageE image_eqI mem_Collect_eq)
  have whole: "{f \<in> E. entry_key f \<notin> entry_key ` ?S} \<union> ?S = run_entries s"
    using covers unfolding K covers_def by blast
  show "items ?i t = run_entries s" using eff(7) whole by (simp add: E)
  have old: "(v, e) \<in> hist ?i db \<Longrightarrow> v \<le> ?n - 1" for v e using ready_hist[OF ready] by fastforce
  have hist: "hist ?i t = hist ?i db \<union> {?n - 1 + 1} \<times> (?S - latest (hist ?i db) (?n - 1))"
    using eff(8) by (simp add: E)
  have "latest (hist ?i t) (?n - 1 + 1) =
      {e \<in> latest (hist ?i db) (?n - 1). entry_key e \<notin> entry_key ` ?S} \<union> ?S"
    unfolding hist
    by (rule latest_new[OF old hist_functional[OF ok]]) (auto intro: run_entries_inj)
  then show "latest (hist ?i t) ?n = run_entries s" using whole by (simp add: E)
  show "latest (hist ?i t) r = latest (hist ?i db) r" if "r < ?n"
    unfolding hist by (rule latest_old) (use that in auto)
qed

lemma run_of_entries:
  assumes e: "run_entries s = run_entries t" and "rn_run_id s = rn_run_id t" and "rn_revision s = rn_revision t"
  shows "s = t"
proof -
  have in_t: "x \<in> run_entries s \<longleftrightarrow> x \<in> run_entries t" for x using e by simp
  have tasks: "fmlookup (rn_tasks s) k = fmlookup (rn_tasks t) k" for k
  proof (cases "fmlookup (rn_tasks s) k")
    case None
    then show ?thesis
      using in_t[of "Task_Entry k (tk_task_id (the (fmlookup (rn_tasks t) k))) (tk_dependencies (the (fmlookup (rn_tasks t) k)))"]
      by (cases "fmlookup (rn_tasks t) k") simp_all
  next
    case (Some x)
    then obtain y where y: "fmlookup (rn_tasks t) k = Some y" "tk_task_id x = tk_task_id y"
      "tk_dependencies x = tk_dependencies y"
      using in_t[of "Task_Entry k (tk_task_id x) (tk_dependencies x)"] by auto
    have a: "(i < length (tk_attempts x) \<and> a = tk_attempts x ! i) \<longleftrightarrow>
        (i < length (tk_attempts y) \<and> a = tk_attempts y ! i)" for i a
      using in_t[of "Attempt_Entry k i a"] Some y(1) by simp
    then have "length (tk_attempts x) = length (tk_attempts y)"
      by (metis linorder_neqE_nat order_less_irrefl)
    then have "tk_attempts x = tk_attempts y" using a by (intro nth_equalityI) blast+
    then show ?thesis using Some y by (simp add: task.equality)
  qed
  have waits: "fmlookup (rn_waits s) w = fmlookup (rn_waits t) w" for w
    using in_t[of "Wait_Entry w _"] by (cases "fmlookup (rn_waits s) w"; cases "fmlookup (rn_waits t) w") auto
  have signals: "fmlookup (rn_signals s) i = fmlookup (rn_signals t) i" for i
    using in_t[of "Signal_Entry i _"] by (cases "fmlookup (rn_signals s) i"; cases "fmlookup (rn_signals t) i") auto
  show ?thesis
    using assms(2,3) tasks waits signals in_t[of "State_Entry (rn_state s)"] in_t[of "Generation_Entry (rn_generation s)"]
      in_t[of "Input_Entry (rn_input s)"] in_t[of "Definition_Entry (rn_definition s)"]
      in_t[of "Application_Entry (rn_application_state s)"]
    by (intro orun.equality) (simp_all add: fmap_ext)
qed

text \<open>
  One more version: the store is well formed, the saved state is current, and the committed
  states are those from before and the saved one.
\<close>

lemma save_commits:
  assumes run: "save s changes db = Inr (u, t)" and ready: "ready db (rn_run_id s) (rn_revision s) E"
    and roots: "roots_ok changes" and covers: "covers (saved_keys s changes) E s"
    and s: "run_ok s"
  shows "store_ok t" and "current_run t s" and "committed t v \<longleftrightarrow> v = s \<or> committed db v"
    and "rn_run_id v \<noteq> rn_run_id s \<Longrightarrow> current_run db v \<Longrightarrow> current_run t v"
    and "other_tables t = other_tables db"
proof -
  let ?i = "rn_run_id s" and ?n = "rn_revision s"
  have ok: "keys_ok db" using ready by (simp add: ready_def)
  note eff = save_effect[OF run ok roots refl refl refl refl]
  note ver = save_version[OF run ready roots covers]
  have runs: "ob_runs t = List.map (\<lambda>r. if rr_run_id r = ?i
      then r\<lparr>rr_revision := ?n, rr_state := rn_state s\<rparr> else r) (ob_runs db)"
    using eff(2) by (simp add: run_written_def)
  let ?f = "\<lambda>r. if rr_run_id r = ?i then r\<lparr>rr_revision := ?n, rr_state := rn_state s\<rparr> else r"
  have f: "rr_run_id (?f r) = rr_run_id r" for r by simp
  have ids: "List.map rr_run_id (ob_runs t) = List.map rr_run_id (ob_runs db)" by (simp add: runs)
  then have ids': "rr_run_id ` set (ob_runs t) = rr_run_id ` set (ob_runs db)" by (metis set_map)
  have revs: "set (ob_revisions t) = insert (?i, ?n) (set (ob_revisions db))" by (simp add: eff(3))
  let ?q = "\<lparr>rr_run_id = ?i, rr_revision = ?n, rr_state = rn_state s\<rparr>"
  have mine: "q \<in> set (ob_runs t) \<Longrightarrow> rr_run_id q = ?i \<Longrightarrow> q = ?q" for q
    by (auto simp: runs split: if_splits)
  have "?i \<in> rr_run_id ` set (ob_runs t)" unfolding ids' using ready by (simp add: ready_def)
  then have q: "?q \<in> set (ob_runs t)" using mine by (metis imageE)
  have theirs: "q \<in> set (ob_runs t) \<longleftrightarrow> q \<in> set (ob_runs db)" if "rr_run_id q \<noteq> ?i" for q
    using that by (force simp: runs split: if_splits)
  have range: "(?i, r) \<in> set (ob_revisions db) \<longleftrightarrow> 0 \<le> r \<and> r < ?n" and n: "0 \<le> ?n" for r
    using ready by (simp_all add: ready_def)
  have c: "committed t v \<longleftrightarrow> v = s \<or> committed db v" for v
  proof (cases "rn_run_id v = ?i")
    case other: False
    then have "hist (rn_run_id v) t = hist (rn_run_id v) db" using eff(9) by blast
    then show ?thesis using other by (auto simp: committed_def revs)
  next
    case same: True
    show ?thesis
    proof (cases "rn_revision v = ?n")
      case True
      have "committed t v \<longleftrightarrow> run_entries v = run_entries s"
        using same True by (auto simp: committed_def revs ver(2))
      moreover have "\<not> committed db v" using same True eff(4) by (simp add: committed_def)
      moreover have "run_entries v = run_entries s \<Longrightarrow> v = s"
        using same True run_of_entries[of v s] by simp
      ultimately show ?thesis by blast
    next
      case False
      then show ?thesis
        using same ver(3)[of "rn_revision v"] range by (auto simp: committed_def revs)
    qed
  qed
  show "committed t v \<longleftrightarrow> v = s \<or> committed db v" by (rule c)
  show cur: "current_run t s" using c[of s] ver(1) q by (simp add: current_run_def)
  show keep: "current_run t v" if "rn_run_id v \<noteq> ?i" "current_run db v" for v
    using that eff(9)[OF that(1)] theirs[of "\<lparr>rr_run_id = rn_run_id v, rr_revision = rn_revision v, rr_state = rn_state v\<rparr>"]
    by (simp add: current_run_def c)
  show "other_tables t = other_tables db" by (rule eff(6))
  have old: "\<exists>s. rn_run_id s = j \<and> rn_revision s = r \<and> committed db s \<and> run_ok s"
    if "(j, r) \<in> set (ob_revisions db)" for j r using ready that by (simp add: ready_def)
  have "revisions_ok t"
    unfolding revisions_ok_def
  proof (intro conjI allI)
    show "distinct (List.map rr_run_id (ob_runs t))" unfolding ids using ready by (simp add: ready_def)
    show "distinct (ob_revisions t)" using ready eff(3,4) by (simp add: ready_def)
    fix j r show "(j, r) \<in> set (ob_revisions t) \<longleftrightarrow>
        (\<exists>q \<in> set (ob_runs t). rr_run_id q = j \<and> 0 \<le> r \<and> r \<le> rr_revision q)"
    proof (cases "j = ?i")
      case True
      have "(\<exists>p \<in> set (ob_runs t). rr_run_id p = ?i \<and> 0 \<le> r \<and> r \<le> rr_revision p) \<longleftrightarrow> 0 \<le> r \<and> r \<le> ?n"
      proof
        assume "\<exists>p \<in> set (ob_runs t). rr_run_id p = ?i \<and> 0 \<le> r \<and> r \<le> rr_revision p"
        then obtain p where p: "p \<in> set (ob_runs t)" "rr_run_id p = ?i" "0 \<le> r \<and> r \<le> rr_revision p" by blast
        show "0 \<le> r \<and> r \<le> ?n" using p(3) unfolding mine[OF p(1,2)] by simp
      next
        assume "0 \<le> r \<and> r \<le> ?n"
        then show "\<exists>p \<in> set (ob_runs t). rr_run_id p = ?i \<and> 0 \<le> r \<and> r \<le> rr_revision p"
          by (intro bexI[OF _ q]) simp
      qed
      moreover have "(?i, r) \<in> set (ob_revisions t) \<longleftrightarrow> r = ?n \<or> 0 \<le> r \<and> r < ?n"
        unfolding revs using range by simp
      ultimately show ?thesis using True n by (simp add: order_le_less) blast
    next
      case False
      then have "(j, r) \<in> set (ob_revisions db) \<longleftrightarrow>
          (\<exists>q \<in> set (ob_runs db). rr_run_id q = j \<and> 0 \<le> r \<and> r \<le> rr_revision q)"
        using ready by (simp add: ready_def)
      then have "(j, r) \<in> set (ob_revisions t) \<longleftrightarrow>
          (\<exists>q \<in> set (ob_runs db). rr_run_id q = j \<and> 0 \<le> r \<and> r \<le> rr_revision q)"
        unfolding revs using False by simp
      then show ?thesis using False theirs by metis
    qed
  qed
  moreover have "(j, v) \<in> set (ob_revisions t)" if e: "(v, e) \<in> hist j t" for j v e
  proof (cases "j = ?i")
    case True
    then show ?thesis using e eff(8) ready_hist[OF ready] range by (auto simp: revs)
  next
    case False
    then have "(v, e) \<in> hist j db" using e eff(9) by blast
    then have "(j, v) \<in> set (ob_revisions db)" using ready unfolding ready_def by blast
    then show ?thesis by (simp add: revs)
  qed
  moreover have "j \<in> rr_run_id ` set (ob_runs t)" if e: "e \<in> items j t" for j e
  proof (cases "j = ?i")
    case True
    then show ?thesis using imageI[OF q, of rr_run_id] by simp
  next
    case False
    then have "e \<in> items j db" using e eff(9) by blast
    then have "j \<in> rr_run_id ` set (ob_runs db)" using ready unfolding ready_def by blast
    then show ?thesis by (simp add: ids')
  qed
  moreover have "\<exists>v. rn_run_id v = j \<and> rn_revision v = r \<and> committed t v \<and> run_ok v"
    if "(j, r) \<in> set (ob_revisions t)" for j r
    using that old[of j r] s by (auto simp: revs c)
  moreover have "\<exists>v. current_run t v \<and> rn_run_id v = rr_run_id p" if p: "p \<in> set (ob_runs t)" for p
  proof (cases "rr_run_id p = ?i")
    case True
    then show ?thesis using cur by (intro exI[of _ s]) simp
  next
    case False
    then have "p \<in> set (ob_runs db)" using p theirs by blast
    then obtain v where "current_run db v" "rn_run_id v = rr_run_id p"
      using ready False unfolding ready_def by blast
    then show ?thesis using keep False by metis
  qed
  moreover have "ob_disposed t = []" using eff(5) ready by (simp add: ready_def)
  ultimately show "store_ok t" using eff(1) unfolding store_ok_def by blast
qed

end
