(* ===== verification/Decisions.thy ===== *)
theory Decisions
  imports Commits
begin

text \<open>
  A decision keeps the store well formed: the operations of a batch leave the Run well formed
  and report every item they change, so that the save that follows commits the Run they
  computed as its next version.
\<close>

subsection \<open>What an operation changes\<close>

text \<open>The entries outside a set of keys (the roots aside) are the same in both states.\<close>

definition agree :: "item_key set \<Rightarrow> orun \<Rightarrow> orun \<Rightarrow> bool" where
  "agree K s t \<longleftrightarrow> (\<forall>k. k \<notin> K \<longrightarrow> (\<forall>r. k \<noteq> Root r) \<longrightarrow> entry_of s k = entry_of t k)"

lemma agree_refl [simp]: "agree K s s"
  by (simp add: agree_def)

lemma agree_trans: "agree K s t \<Longrightarrow> agree L t u \<Longrightarrow> agree (K \<union> L) s u"
  by (simp add: agree_def)

lemma agree_covers:
  assumes "agree (set ks) s t"
  shows "covers (saved_keys t (Some ks)) (run_entries s) t"
  unfolding covers_def
proof (intro allI impI)
  fix e assume e: "entry_key e \<notin> saved_keys t (Some ks)"
  have "entry_of s (entry_key e) = entry_of t (entry_key e)"
  proof (cases "\<exists>r. entry_key e = Root r")
    case True
    then show ?thesis using e by (cases e) (auto simp: saved_keys_def root_keys_def)
  next
    case False
    then show ?thesis using assms e by (auto simp: agree_def saved_keys_def)
  qed
  then show "e \<in> run_entries s \<longleftrightarrow> e \<in> run_entries t" by (simp add: run_entries_def)
qed

text \<open>One task written: its entries change only under the keys that are listed.\<close>

definition attempts_at :: "orun \<Rightarrow> string \<Rightarrow> attempt list" where
  "attempts_at s k = (case fmlookup (rn_tasks s) k of None \<Rightarrow> [] | Some t \<Rightarrow> tk_attempts t)"

definition attempts_agree :: "item_key set \<Rightarrow> string \<Rightarrow> attempt list \<Rightarrow> attempt list \<Rightarrow> bool" where
  "attempts_agree K k xs ys \<longleftrightarrow> (\<forall>i. Attempt_Key k i \<notin> K \<longrightarrow>
     (i < length xs \<longleftrightarrow> i < length ys) \<and> (i < length xs \<longrightarrow> xs ! i = ys ! i))"

lemma entry_of_attempt: "entry_of s (Attempt_Key k i) =
    (if i < length (attempts_at s k) then Some (Attempt_Entry k i (attempts_at s k ! i)) else None)"
  by (simp add: attempts_at_def split: option.splits)

lemma agree_task:
  assumes attempts: "attempts_agree K k (attempts_at s k) (tk_attempts u)"
    and header: "Task_Key k \<in> K \<or> (\<exists>t. fmlookup (rn_tasks s) k = Some t \<and> tk_task_id u = tk_task_id t \<and>
      tk_dependencies u = tk_dependencies t)"
  shows "agree K s (with_tasks (fmupd k u) s)"
  unfolding agree_def
proof (intro allI impI)
  fix j assume j: "j \<notin> K" "\<forall>r. j \<noteq> Root r"
  show "entry_of s j = entry_of (with_tasks (fmupd k u) s) j"
  proof (cases j)
    case (Attempt_Key l i)
    have "attempts_at (with_tasks (fmupd k u) s) l = (if l = k then tk_attempts u else attempts_at s l)"
      by (simp add: attempts_at_def with_tasks_def)
    then show ?thesis
      using attempts j Attempt_Key by (auto simp: entry_of_attempt attempts_agree_def simp del: entry_of.simps(3))
  qed (use header j in \<open>auto simp: with_tasks_def\<close>)
qed

lemma attempts_agree_append: "attempts_agree {Attempt_Key k (length xs)} k xs (xs @ [a])"
  by (auto simp: attempts_agree_def nth_append)

lemma attempts_agree_last:
  "xs \<noteq> [] \<Longrightarrow> attempts_agree {Attempt_Key k (length xs - 1)} k xs (butlast xs @ [a])"
  by (cases xs rule: rev_cases) (auto simp: attempts_agree_def nth_append)

lemma attempts_agree_mono: "attempts_agree K k xs ys \<Longrightarrow> K \<subseteq> L \<Longrightarrow> attempts_agree L k xs ys"
  by (auto simp: attempts_agree_def)

lemma attempts_agree_same [simp]: "attempts_agree K k xs xs"
  by (simp add: attempts_agree_def)

subsection \<open>The generation of a new attempt\<close>

lemma with_tasks_twice [simp]:
  "with_tasks (fmupd k v) (with_tasks (fmupd k u) s) = with_tasks (fmupd k v) s"
proof -
  have "fmupd k v (fmupd k u (rn_tasks s)) = fmupd k v (rn_tasks s)" by (rule fmap_ext) simp
  then show ?thesis by (simp add: with_tasks_def)
qed

lemma attempt_ok_generation: "attempt_ok m t (a\<lparr>at_generation := g\<rparr>) = attempt_ok m t a"
  by (cases "at_state a"; cases "at_dependency_attempts a") (simp_all add: attempt_ok_def state_ok_def)

lemma new_attempt_generation:
  "new_attempt v = Inr a \<Longrightarrow> attempt_ok m t (a\<lparr>at_generation := g\<rparr>)"
  by (simp add: attempt_ok_generation new_attempt_ok)

subsection \<open>A batch of operations\<close>

definition good_batch :: "orun \<Rightarrow> batch \<Rightarrow> bool" where
  "good_batch s b \<longleftrightarrow> run_ok (bt_run b) \<and> run_le s (bt_run b) \<and> agree (set (bt_changes b)) s (bt_run b) \<and>
     no_roots (bt_changes b)"

lemma good_step:
  assumes b: "good_batch s b" and c: "bt_run c = t" "bt_changes c = bt_changes b @ ks"
    and t: "run_ok t \<and> run_le (bt_run b) t" "agree (set ks) (bt_run b) t" "no_roots ks"
  shows "good_batch s c"
proof -
  have "agree (set (bt_changes b) \<union> set ks) s t" using b t(2) agree_trans unfolding good_batch_def by blast
  then show ?thesis using b t run_le_trans by (auto simp: good_batch_def no_roots_def c)
qed

lemma rn_tasks_with [simp]: "rn_tasks (with_tasks f s) = f (rn_tasks s)"
  by (simp add: with_tasks_def)

lemma attempts_at_Some [simp]: "fmlookup (rn_tasks s) k = Some t \<Longrightarrow> attempts_at s k = tk_attempts t"
  and attempts_at_None [simp]: "fmlookup (rn_tasks s) k = None \<Longrightarrow> attempts_at s k = []"
  by (simp_all add: attempts_at_def)

lemma set_current_agree:
  assumes "fmlookup (rn_tasks s) k = Some t" and "tk_attempts t \<noteq> []"
  shows "agree {Attempt_Key k (length (tk_attempts t) - 1)} s (with_tasks (fmupd k (set_current t a)) s)"
  using attempts_agree_last[OF assms(2), of k a] assms
  by (intro agree_task) (simp_all add: set_current_def)

lemma set_current_length: "tk_attempts t \<noteq> [] \<Longrightarrow> length (tk_attempts (set_current t a)) = length (tk_attempts t)"
  by (simp add: set_current_def)

lemma agree_fields:
  "agree {Wait_Key w} s (s\<lparr>rn_waits := fmupd w x (rn_waits s)\<rparr>)"
  "agree {Signal_Key i} s (s\<lparr>rn_signals := fmupd i v (rn_signals s)\<rparr>)"
  "agree {} s (s\<lparr>rn_state := e\<rparr>)"
  unfolding agree_def by (intro allI impI, case_tac k; simp)+

text \<open>The tasks an operation leaves behind, with its report.\<close>

lemma add_task_batch:
  assumes run: "add_task (bt_run b) k c deps = Inr t" and b: "good_batch s b" and r: "rn_state (bt_run b) = Run_Running"
    and rec: "record_task True True k g (b\<lparr>bt_run := t, bt_intents := is\<rparr>) = Inr b'"
  shows "good_batch s b'"
proof -
  let ?s = "bt_run b"
  have ok: "run_ok ?s" using b by (simp add: good_batch_def)
  obtain ds a where fresh: "fmlookup (rn_tasks ?s) k = None" and a: "new_attempt c = Inr a"
    and ds: "distinct ds" "set ds \<subseteq> fmdom' (rn_tasks ?s)" "\<forall>v \<in> set ds. (v, k) \<notin> (dep_rel (rn_tasks ?s))\<^sup>*"
    and t: "t = with_tasks (fmupd k \<lparr>tk_task_id = k, tk_dependencies = ds, tk_attempts = [a]\<rparr>) ?s"
    by (rule add_task_Inr[OF run ok])
  let ?a = "a\<lparr>at_generation := g\<rparr>"
  let ?u = "\<lparr>tk_task_id = k, tk_dependencies = ds, tk_attempts = [?a]\<rparr>"
  have b': "bt_run b' = with_tasks (fmupd k ?u) ?s" "bt_changes b' = bt_changes b @ [Attempt_Key k 0, Task_Key k]"
    using rec by (auto simp: t record_task_def Let_def set_generation_def)
  have "run_ok (with_tasks (fmupd k ?u) ?s) \<and> run_le ?s (with_tasks (fmupd k ?u) ?s)"
    using task_added_ok[OF ok r fresh ds] new_attempt_generation[OF a] by blast
  moreover have "agree (set [Attempt_Key k 0, Task_Key k]) ?s (with_tasks (fmupd k ?u) ?s)"
    by (rule agree_task) (use fresh in \<open>auto simp: attempts_agree_def\<close>)
  ultimately show ?thesis
    by (rule good_step[OF b b']) (simp add: no_roots_def)
qed

lemma add_attempt_batch:
  assumes run: "add_attempt (bt_run b) k x c = Inr t" and b: "good_batch s b" and r: "rn_state (bt_run b) = Run_Running"
    and x: "fmlookup (rn_tasks (bt_run b)) k = Some x"
    and rec: "record_task False True k g (b\<lparr>bt_run := t, bt_intents := is\<rparr>) = Inr b'"
  shows "good_batch s b'"
proof -
  let ?s = "bt_run b"
  have ok: "run_ok ?s" using b by (simp add: good_batch_def)
  obtain a where last: "settled (current_attempt x)" and a: "new_attempt c = Inr a"
    and t: "t = with_tasks (fmupd k (x\<lparr>tk_attempts := tk_attempts x @ [a]\<rparr>)) ?s"
    using add_attempt_Inr[OF run] by blast
  let ?a = "a\<lparr>at_generation := g\<rparr>"
  let ?u = "x\<lparr>tk_attempts := tk_attempts x @ [?a]\<rparr>"
  have b': "bt_run b' = with_tasks (fmupd k ?u) ?s" "bt_changes b' = bt_changes b @ [Attempt_Key k (length (tk_attempts x))]"
    using rec by (auto simp: t record_task_def Let_def set_generation_def)
  have "run_ok (with_tasks (fmupd k ?u) ?s) \<and> run_le ?s (with_tasks (fmupd k ?u) ?s)"
    using attempt_added_ok[OF ok r x last] new_attempt_generation[OF a] by blast
  moreover have "agree (set [Attempt_Key k (length (tk_attempts x))]) ?s (with_tasks (fmupd k ?u) ?s)"
    using attempts_agree_append[of k "tk_attempts x" ?a] x by (intro agree_task) simp_all
  ultimately show ?thesis
    by (rule good_step[OF b b']) (simp add: no_roots_def)
qed

text \<open>The other operations on a task report the task as it is.\<close>

lemma record_task_same:
  "record_task header False k g b = Inr b' \<Longrightarrow> \<exists>t. fmlookup (rn_tasks (bt_run b)) k = Some t \<and>
     bt_run b' = bt_run b \<and> bt_changes b' = bt_changes b @
       (Attempt_Key k (length (tk_attempts t) - 1) # (if header then [Task_Key k] else []))"
  by (auto simp: record_task_def Let_def)

lemma task_batch:
  assumes ok: "run_ok t \<and> run_le (bt_run b) t" and b: "good_batch s b"
    and u: "fmlookup (rn_tasks t) k = Some u"
    and same: "agree (set (Attempt_Key k (length (tk_attempts u) - 1) # (if header then [Task_Key k] else []))) (bt_run b) t"
    and rec: "record_task header False k g (b\<lparr>bt_run := t, bt_intents := is\<rparr>) = Inr b'"
  shows "good_batch s b'"
  using record_task_same[OF rec] u ok same
  by (auto intro!: good_step[OF b, of b' t "Attempt_Key k (length (tk_attempts u) - 1) # (if header then [Task_Key k] else [])"]
      simp: no_roots_def)

theorem apply_reduced_good:
  assumes run: "apply_reduced g op b = Inr b'" and b: "good_batch s b"
  shows "good_batch s b'"
proof -
  let ?s = "bt_run b"
  have ok: "run_ok ?s" using b by (simp add: good_batch_def)
  obtain "is" t where red: "reduce_operation ?s op = Inr (is, t)"
    and rec: "record_change op g (b\<lparr>bt_run := t, bt_intents := bt_intents b @ is\<rparr>) = Inr b'"
    using run by (auto simp: apply_reduced_def rbind_eq_Inr)
  have r: "rn_state ?s = Run_Running" using red by (simp add: reduce_operation_def)
  note t = reduce_operation_ok[OF red ok]
  have ne: "fmlookup (rn_tasks ?s) k = Some x \<Longrightarrow> tk_attempts x \<noteq> []" for k x
    using run_ok_task[OF ok] by (simp add: task_ok_def)
  show ?thesis
  proof (cases op)
    case (Add_Task k c ds)
    then have "add_task ?s k c ds = Inr t" using red r by (simp add: reduce_operation_def silent_Inr)
    from add_task_batch[OF this b r] show ?thesis using rec unfolding Add_Task record_change.simps .
  next
    case (New_Attempt k c)
    then obtain x where x: "fmlookup (rn_tasks ?s) k = Some x" and "add_attempt ?s k x c = Inr t"
      using red r by (auto simp: reduce_operation_def silent_Inr on_task_Inr)
    from add_attempt_batch[OF this(2) b r x] show ?thesis using rec unfolding New_Attempt record_change.simps .
  next
    case (Set_Dependencies k v)
    then obtain x where x: "fmlookup (rn_tasks ?s) k = Some x" and sd: "set_dependencies ?s k x v = Inr t"
      using red r by (auto simp: reduce_operation_def silent_Inr on_task_Inr)
    then obtain ds where tt: "t = with_tasks (fmupd k (x\<lparr>tk_dependencies := ds\<rparr>)) ?s"
      by (auto simp: set_dependencies_def rbind_eq_Inr)
    show ?thesis
    proof (rule task_batch[OF t b])
      show "fmlookup (rn_tasks t) k = Some (x\<lparr>tk_dependencies := ds\<rparr>)" by (simp add: tt)
      show "agree (set (Attempt_Key k (length (tk_attempts (x\<lparr>tk_dependencies := ds\<rparr>)) - 1) #
          (if True then [Task_Key k] else []))) ?s t"
        unfolding tt by (rule agree_task) (use x in simp_all)
    qed (use rec Set_Dependencies in simp)
  next
    case (Dispatch_Task k)
    then obtain x where x: "fmlookup (rn_tasks ?s) k = Some x" and d: "dispatch_task ?s k x = Inr (is, t)"
      using red r by (auto simp: reduce_operation_def on_task_Inr)
    then obtain a where tt: "t = with_tasks (fmupd k (set_current x a)) ?s" using dispatch_task_Inr(4)[OF d] by blast
    show ?thesis
    proof (rule task_batch[OF t b])
      show "fmlookup (rn_tasks t) k = Some (set_current x a)" by (simp add: tt)
      show "agree (set (Attempt_Key k (length (tk_attempts (set_current x a)) - 1) #
          (if False then [Task_Key k] else []))) ?s t"
        unfolding tt using set_current_agree[OF x ne[OF x], of a] set_current_length[OF ne[OF x]] by simp
    qed (use rec Dispatch_Task in simp)
  next
    case (Cancel_Task k reason)
    then obtain x where x: "fmlookup (rn_tasks ?s) k = Some x" and c: "cancel_task ?s k x reason = Inr (is, t)"
      using red r by (auto simp: reduce_operation_def on_task_Inr)
    then consider "t = ?s" | a where "t = with_tasks (fmupd k (set_current x a)) ?s"
      by (auto simp: cancel_task_def Let_def split: if_splits)
    then show ?thesis
    proof cases
      case 1
      then show ?thesis using x rec Cancel_Task by (intro task_batch[OF t b, of k x False]) simp_all
    next
      case (2 a)
      show ?thesis
      proof (rule task_batch[OF t b])
        show "fmlookup (rn_tasks t) k = Some (set_current x a)" by (simp add: 2)
        show "agree (set (Attempt_Key k (length (tk_attempts (set_current x a)) - 1) #
            (if False then [Task_Key k] else []))) ?s t"
          unfolding 2 using set_current_agree[OF x ne[OF x], of a] set_current_length[OF ne[OF x]] by simp
      qed (use rec Cancel_Task in simp)
    qed
  next
    case (Open_Wait w p)
    then have "agree (set [Wait_Key w]) ?s t"
      using red by (auto simp: reduce_operation_def silent_Inr open_wait_def intro: agree_fields)
    then show ?thesis using good_step[OF b _ _ t] rec Open_Wait by (auto simp: no_roots_def)
  next
    case (Release_Wait w)
    then have "agree (set [Wait_Key w]) ?s t"
      using red by (auto simp: reduce_operation_def silent_Inr release_wait_def split: option.splits if_splits
          intro: agree_fields)
    then show ?thesis using good_step[OF b _ _ t] rec Release_Wait by (auto simp: no_roots_def)
  next
    case (Send_Signal i v)
    then have "agree (set [Signal_Key i]) ?s t"
      using red by (auto simp: reduce_operation_def silent_Inr send_signal_def intro: agree_fields)
    then show ?thesis using good_step[OF b _ _ t] rec Send_Signal by (auto simp: no_roots_def)
  next
    case (Finish_Run v)
    then have "agree (set []) ?s t"
      using red finish_run_Inr[of ?s v t] by (auto simp: reduce_operation_def silent_Inr intro: agree_fields)
    then show ?thesis using good_step[OF b _ _ t] rec Finish_Run by (auto simp: no_roots_def)
  next
    case (Watch_Task k w tg m)
    then have "t = ?s" using red by (simp add: reduce_operation_def)
    then show ?thesis using b rec Watch_Task by (auto simp: good_batch_def)
  qed
qed

end
