(* ===== verification/Ledger.thy ===== *)
theory Ledger
  imports Transport Decisions "HOL-Library.Sublist"
begin

text \<open>
  What every transaction of the orchestrator does to its database: it keeps the store well
  formed, every committed version stays readable, and receipts, events, links and
  registered executions are only added to.
\<close>

definition tail_later :: "odb \<Rightarrow> odb \<Rightarrow> bool" where
  "tail_later db t \<longleftrightarrow> prefix (ob_commands db) (ob_commands t) \<and> prefix (ob_events db) (ob_events t) \<and>
     prefix (ob_links db) (ob_links t) \<and>
     prefix (List.map inert (ob_executions db)) (List.map inert (ob_executions t))"

text \<open>What may change between two versions of a Run.\<close>

definition run_later :: "orun \<Rightarrow> orun \<Rightarrow> bool" where
  "run_later s t \<longleftrightarrow> rn_run_id t = rn_run_id s \<and> rn_revision s \<le> rn_revision t \<and>
     rn_input t = rn_input s \<and> rn_definition t = rn_definition s \<and> rn_generation t = rn_generation s \<and>
     tasks_le (rn_tasks s) (rn_tasks t) \<and> fmdom' (rn_waits s) \<subseteq> fmdom' (rn_waits t) \<and>
     (\<forall>k v. fmlookup (rn_signals s) k = Some v \<longrightarrow> fmlookup (rn_signals t) k = Some v) \<and>
     (rn_state s \<noteq> Run_Running \<longrightarrow> rn_state t = rn_state s \<and> rn_tasks t = rn_tasks s \<and>
        rn_waits t = rn_waits s \<and> rn_signals t = rn_signals s)"

lemma run_later_refl [simp]: "run_later s s"
  by (simp add: run_later_def)

lemma run_later_trans:
  assumes "run_later s t" and "run_later t u"
  shows "run_later s u"
proof -
  have tasks: "tasks_le (rn_tasks s) (rn_tasks u)"
    using assms unfolding run_later_def by (meson tasks_le_trans)
  have waits: "fmdom' (rn_waits s) \<subseteq> fmdom' (rn_waits u)"
    using assms unfolding run_later_def by (meson order_trans)
  have signals: "\<forall>k v. fmlookup (rn_signals s) k = Some v \<longrightarrow> fmlookup (rn_signals u) k = Some v"
    using assms unfolding run_later_def by meson
  have ended: "rn_state s \<noteq> Run_Running \<longrightarrow> rn_state u = rn_state s \<and> rn_tasks u = rn_tasks s \<and>
      rn_waits u = rn_waits s \<and> rn_signals u = rn_signals s"
    using assms unfolding run_later_def by metis
  have revision: "rn_revision s \<le> rn_revision u"
    using assms unfolding run_later_def by linarith
  have same: "rn_run_id u = rn_run_id s" "rn_input u = rn_input s" "rn_definition u = rn_definition s"
    "rn_generation u = rn_generation s"
    using assms unfolding run_later_def by argo+
  show ?thesis unfolding run_later_def by (intro conjI same revision tasks waits signals ended)
qed

text \<open>The versions of a Run follow one another.\<close>

definition chain :: "odb \<Rightarrow> bool" where
  "chain db \<longleftrightarrow> (\<forall>s t. committed db s \<longrightarrow> committed db t \<longrightarrow> rn_run_id s = rn_run_id t \<longrightarrow>
     rn_revision s \<le> rn_revision t \<longrightarrow> run_later s t)"

definition ledger_ok :: "odb \<Rightarrow> bool" where
  "ledger_ok db \<longleftrightarrow> store_ok db \<and> chain db"

definition quiet :: "odb \<Rightarrow> odb \<Rightarrow> bool" where
  "quiet db t \<longleftrightarrow> same_base db t \<and> tail_later db t"

definition db_later :: "odb \<Rightarrow> odb \<Rightarrow> bool" where
  "db_later db t \<longleftrightarrow> tail_later db t \<and> (\<forall>v. committed db v \<longrightarrow> committed t v) \<and>
     (\<forall>s. current_run db s \<longrightarrow> (\<exists>s'. current_run t s' \<and> run_later s s'))"

definition db_step :: "odb \<Rightarrow> odb \<Rightarrow> bool" where
  "db_step db t \<longleftrightarrow> (ledger_ok db \<longrightarrow> ledger_ok t \<and> db_later db t)"

lemma tail_later_refl [simp]: "tail_later db db"
  by (simp add: tail_later_def)

lemma tail_later_trans: "tail_later a b \<Longrightarrow> tail_later b c \<Longrightarrow> tail_later a c"
  unfolding tail_later_def by (intro conjI; elim conjE; erule (1) prefix_order.trans)

lemma same_base_refl [simp]: "same_base db db"
  by (simp add: same_base_def)

lemma same_base_trans: "same_base a b \<Longrightarrow> same_base b c \<Longrightarrow> same_base a c"
  by (simp add: same_base_def)

lemma quiet_refl [simp]: "quiet db db"
  by (simp add: quiet_def)

lemma quiet_trans: "quiet a b \<Longrightarrow> quiet b c \<Longrightarrow> quiet a c"
  unfolding quiet_def using same_base_trans tail_later_trans by blast

lemma db_later_refl [simp]: "db_later db db"
  unfolding db_later_def using run_later_refl tail_later_refl by blast

lemma db_later_trans: "db_later a b \<Longrightarrow> db_later b c \<Longrightarrow> db_later a c"
  unfolding db_later_def using run_later_trans tail_later_trans by blast

lemma db_step_refl [simp]: "db_step db db"
  by (simp add: db_step_def)

lemma db_step_trans: "db_step a b \<Longrightarrow> db_step b c \<Longrightarrow> db_step a c"
  unfolding db_step_def using db_later_trans by blast

interpretation quiet: progress quiet
  by unfold_locales (rule quiet_refl, rule quiet_trans)

interpretation db_step: progress db_step
  by unfold_locales (rule db_step_refl, rule db_step_trans)

lemma same_base_ledger: "same_base db t \<Longrightarrow> ledger_ok t = ledger_ok db"
  unfolding ledger_ok_def chain_def by (simp only: same_base_ok same_base_committed)

lemma quiet_later: "quiet db t \<Longrightarrow> db_later db t"
proof -
  assume q: "quiet db t"
  then have b: "same_base db t" by (simp add: quiet_def)
  show ?thesis
    using q run_later_refl
    unfolding db_later_def same_base_committed[OF b] same_base_current[OF b] quiet_def by blast
qed

lemma quiet_step: "quiet db t \<Longrightarrow> db_step db t"
  unfolding db_step_def using quiet_later same_base_ledger by (auto simp: quiet_def)

lemma quiet_runs: "runs quiet m \<Longrightarrow> runs db_step m"
  unfolding runs_def using quiet_step by blast

subsection \<open>Steps that save no Run\<close>

lemma quiet_fields:
  "quiet db (db\<lparr>ob_watches := w\<rparr>)" "quiet db (db\<lparr>ob_subscriptions := s\<rparr>)"
  "quiet db (db\<lparr>ob_message_sequence := n, ob_outbox := m\<rparr>)" "quiet db (db\<lparr>ob_outbox := m\<rparr>)"
  "quiet db (db\<lparr>ob_commands := ob_commands db @ c\<rparr>)"
  "quiet db (db\<lparr>ob_links := ob_links db @ l\<rparr>)"
  "quiet db (db\<lparr>ob_executions := ob_executions db @ x\<rparr>)"
  "quiet db (db\<lparr>ob_event_sequence := n, ob_events := ob_events db @ e, ob_watermarks := k\<rparr>)"
  by (simp_all add: quiet_def same_base_def tail_later_def)

lemma quiet_append_run_event: "runs quiet (append_run_event s kind payload)"
  by (rule runsI) (auto simp: append_run_event_def bind_Inr Let_def quiet_fields)

lemma quiet_write_receipt: "runs quiet (write_receipt i c fp s)"
  by (rule runsI) (auto simp: write_receipt_def sql_insert_def quiet_fields split: if_splits sum.splits)

lemma quiet_insert_message: "runs quiet (insert_message i c x)"
  by (rule runsI) (auto simp: insert_message_def bind_Inr Let_def quiet_fields split: prod.splits)

lemma quiet_insert_messages: "runs quiet (insert_messages i c xs)"
  unfolding insert_messages_def by (intro quiet.rules quiet_insert_message)

lemma quiet_advance: "runs quiet (advance i n e to)"
  by (rule runsI) (auto simp: advance_def event_high_water_def bind_Inr quiet_fields)

lemma quiet_advance_subscription: "runs quiet (advance_subscription i q)"
  unfolding advance_subscription_def
  by (auto split: option.splits intro!: quiet.ret_rule quiet_advance)

lemma quiet_register_watch: "runs quiet (register_watch s k w tg m)"
  by (rule runsI) (auto simp: register_watch_def Let_def bind_Inr quiet_fields)

lemma quiet_apply_all: "runs quiet (apply_all g ops b)"
proof (induction ops arbitrary: b)
  case (Cons op ops)
  have "runs quiet (apply_one g op b)"
    by (cases op) (auto simp: apply_one_def intro!: quiet.rules quiet_register_watch)
  then show ?case using Cons by (auto intro: quiet.bind_rule)
qed (simp add: quiet.ret_rule)

lemma quiet_insert_execution: "runs quiet (insert_execution r)"
proof (rule runsI)
  fix db u t assume "insert_execution r db = Inr (u, t)"
  then have "t = db\<lparr>ob_executions := ob_executions db @ [r]\<rparr>" by (auto simp: insert_execution_def bind_Inr)
  then show "quiet db t" by (simp add: quiet_fields)
qed

lemma quiet_register_execution: "runs quiet (register_execution s x)"
  unfolding register_execution_def Let_def
  by (auto split: prod.splits intro!: quiet.rules quiet_insert_execution)

lemma quiet_register_executions: "runs quiet (register_executions s xs)"
  unfolding register_executions_def by (intro quiet.rules quiet_register_execution)

lemma quiet_insert_link: "runs quiet (insert_link i j)"
proof (rule runsI)
  fix db u t assume "insert_link i j db = Inr (u, t)"
  then have "t = db\<lparr>ob_links := ob_links db @ [(i, j)]\<rparr>" by (auto simp: insert_link_def bind_Inr)
  then show "quiet db t" by (simp add: quiet_fields)
qed

lemma quiet_mark_delivered: "runs quiet (mark_delivered now m)"
  by (rule runsI) (auto simp: mark_delivered_def bind_Inr quiet_fields)

lemmas quiet_parts = quiet_append_run_event quiet_write_receipt quiet_insert_messages quiet_advance
  quiet_advance_subscription quiet_apply_all quiet_register_executions quiet_insert_link quiet_mark_delivered

end
