(* ===== verification/Saves.thy ===== *)
theory Saves
  imports Ledger
begin

text \<open>
  The transactions that save a Run: each commits the state it computed as the next version of
  its Run, and every version follows the ones before it.
\<close>

subsection \<open>One save\<close>

lemma committed_current: "current_run db s \<Longrightarrow> committed db s"
  by (simp add: current_run_def)

lemma current_unique:
  assumes ok: "store_ok db" and s: "current_run db s" and t: "current_run db t" and id: "rn_run_id s = rn_run_id t"
  shows "s = t"
proof -
  have "load (rn_run_id t) db = Inr (s, db)" using load_ok[OF ok s] unfolding id .
  then show ?thesis unfolding load_ok[OF ok t] by simp
qed

lemma committed_revision:
  assumes ok: "store_ok db" and s: "current_run db s" and v: "committed db v" and id: "rn_run_id v = rn_run_id s"
  shows "0 \<le> rn_revision v" and "rn_revision v \<le> rn_revision s"
proof -
  have "ready db (rn_run_id s) (rn_revision s + 1) (run_entries s)" by (rule ready_existing[OF ok s])
  then have "(rn_run_id s, r) \<in> set (ob_revisions db) \<longleftrightarrow> 0 \<le> r \<and> r < rn_revision s + 1" for r
    unfolding ready_def by blast
  moreover have "(rn_run_id s, rn_revision v) \<in> set (ob_revisions db)" using v id by (simp add: committed_def)
  ultimately show "0 \<le> rn_revision v" "rn_revision v \<le> rn_revision s" by simp_all
qed

lemma other_tables_fields:
  assumes "other_tables t = other_tables db"
  shows "ob_commands t = ob_commands db" and "ob_events t = ob_events db" and "ob_links t = ob_links db"
    and "List.map inert (ob_executions t) = List.map inert (ob_executions db)" and "ob_outbox t = ob_outbox db"
    and "ob_watermarks t = ob_watermarks db" and "ob_event_sequence t = ob_event_sequence db"
    and "ob_message_sequence t = ob_message_sequence db" and "ob_subscriptions t = ob_subscriptions db"
proof -
  have fields: "ob_commands (other_tables x) = ob_commands x" "ob_events (other_tables x) = ob_events x"
    "ob_links (other_tables x) = ob_links x" "ob_outbox (other_tables x) = ob_outbox x"
    "ob_executions (other_tables x) = List.map inert (ob_executions x)"
    "ob_watermarks (other_tables x) = ob_watermarks x" "ob_event_sequence (other_tables x) = ob_event_sequence x"
    "ob_message_sequence (other_tables x) = ob_message_sequence x"
    "ob_subscriptions (other_tables x) = ob_subscriptions x" for x
    by (simp_all add: other_tables_def core_def)
  show "ob_commands t = ob_commands db" by (rule trans[OF fields(1)[of t, unfolded assms, symmetric] fields(1)[of db]])
  show "ob_events t = ob_events db" by (rule trans[OF fields(2)[of t, unfolded assms, symmetric] fields(2)[of db]])
  show "ob_links t = ob_links db" by (rule trans[OF fields(3)[of t, unfolded assms, symmetric] fields(3)[of db]])
  show "ob_outbox t = ob_outbox db" by (rule trans[OF fields(4)[of t, unfolded assms, symmetric] fields(4)[of db]])
  show "List.map inert (ob_executions t) = List.map inert (ob_executions db)" by (rule trans[OF fields(5)[of t, unfolded assms, symmetric] fields(5)[of db]])
  show "ob_watermarks t = ob_watermarks db" by (rule trans[OF fields(6)[of t, unfolded assms, symmetric] fields(6)[of db]])
  show "ob_event_sequence t = ob_event_sequence db" by (rule trans[OF fields(7)[of t, unfolded assms, symmetric] fields(7)[of db]])
  show "ob_message_sequence t = ob_message_sequence db" by (rule trans[OF fields(8)[of t, unfolded assms, symmetric] fields(8)[of db]])
  show "ob_subscriptions t = ob_subscriptions db" by (rule trans[OF fields(9)[of t, unfolded assms, symmetric] fields(9)[of db]])
qed

lemma other_tables_tail: "other_tables t = other_tables db \<Longrightarrow> tail_later db t"
  using other_tables_fields[of t db] by (simp add: tail_later_def)

lemma revision_run: "store_ok db \<Longrightarrow> (i, r) \<in> set (ob_revisions db) \<Longrightarrow> i \<in> rr_run_id ` set (ob_runs db)"
proof -
  assume "store_ok db" and r: "(i, r) \<in> set (ob_revisions db)"
  then have "\<exists>q \<in> set (ob_runs db). rr_run_id q = i" by (auto simp: store_ok_def revisions_ok_def)
  then show ?thesis by auto
qed

text \<open>What a save of the next version of a Run establishes.\<close>

lemma save_next:
  assumes ok: "ledger_ok db" and s: "current_run db s"
    and run: "save n changes db = Inr (u, t)"
    and n: "rn_run_id n = rn_run_id s" "rn_revision n = rn_revision s + 1" "run_ok n" "run_later s n"
    and keys: "roots_ok changes" "covers (saved_keys n changes) (run_entries s) n"
  shows "ledger_ok t" and "db_later db t" and "current_run t n" and "committed t v \<longleftrightarrow> v = n \<or> committed db v"
    and "other_tables t = other_tables db"
proof -
  have store: "store_ok db" and chain: "chain db" using ok by (simp_all add: ledger_ok_def)
  have ready: "ready db (rn_run_id n) (rn_revision n) (run_entries s)"
    using ready_existing[OF store s] n by simp
  note c = save_commits[OF run ready keys n(3)]
  show cur: "current_run t n" and com: "committed t v \<longleftrightarrow> v = n \<or> committed db v" for v by (rule c)+
  show tab: "other_tables t = other_tables db" by (rule c)
  have before: "run_later v n" if v: "committed db v" "rn_run_id v = rn_run_id n" for v
  proof -
    have "rn_revision v \<le> rn_revision s" using committed_revision(2)[OF store s v(1)] v(2) n by simp
    then have "run_later v s" using chain v s n unfolding chain_def by (metis committed_current)
    then show ?thesis using n(4) by (rule run_later_trans)
  qed
  have top: "rn_revision v < rn_revision n" if "committed db v" "rn_run_id v = rn_run_id n" for v
    using committed_revision(2)[OF store s that(1)] that(2) n by simp
  have "chain t"
    unfolding chain_def
  proof (intro allI impI)
    fix v w assume vw: "committed t v" "committed t w" "rn_run_id v = rn_run_id w" "rn_revision v \<le> rn_revision w"
    consider "v = n" "w = n" | "v = n" "committed db w" | "committed db v" "w = n" | "committed db v" "committed db w"
      using vw com by blast
    then show "run_later v w"
    proof cases
      case 1 then show ?thesis by simp
    next
      case 2 then show ?thesis using top[of w] vw by simp
    next
      case 3 then show ?thesis using before vw by simp
    next
      case 4 then show ?thesis using chain vw unfolding chain_def by blast
    qed
  qed
  then show "ledger_ok t" using c(1) by (simp add: ledger_ok_def)
  have "\<exists>x'. current_run t x' \<and> run_later x x'" if x: "current_run db x" for x
  proof (cases "rn_run_id x = rn_run_id n")
    case True
    then have "x = s" using current_unique[OF store x s] n by simp
    then show ?thesis using cur n(4) by blast
  next
    case False
    then show ?thesis using c(4) x run_later_refl by blast
  qed
  then show "db_later db t" using com other_tables_tail[OF tab] by (simp add: db_later_def)
qed

text \<open>The first version of a Run that did not exist.\<close>

lemma all_keys_covers: "covers (saved_keys n None) {} n"
proof -
  have "entry_key e \<in> saved_keys n None" if e: "e \<in> run_entries n" for e
  proof (cases e)
    case (Attempt_Entry k i a)
    then obtain x where x: "fmlookup (rn_tasks n) k = Some x" "i < length (tk_attempts x)"
      using e by (auto simp: run_entries_iff split: option.splits if_splits)
    then have "k \<in> fmdom' (rn_tasks n)" by (auto simp: fmdom_lookup)
    then show ?thesis using x by (auto simp: Attempt_Entry saved_keys_def all_keys_def intro!: bexI[of _ k])
  qed (use e in \<open>auto simp: run_entries_iff saved_keys_def root_keys_def all_keys_def fmdom_lookup
      split: option.splits if_splits\<close>)
  then show ?thesis by (auto simp: covers_def)
qed

lemma save_first:
  assumes ok: "ledger_ok db" and new: "\<not> run_exists (rn_run_id n) db"
    and ins: "insert_run (rn_run_id n) db = Inr (x, d)" and run: "save n None d = Inr (u, t)"
    and n: "rn_revision n = 0" "run_ok n"
  shows "ledger_ok t" and "db_later db t" and "current_run t n" and "committed t v \<longleftrightarrow> v = n \<or> committed db v"
    and "other_tables t = other_tables d" and "current_run db c \<Longrightarrow> current_run t c"
proof -
  have store: "store_ok db" and chain: "chain db" using ok by (simp_all add: ledger_ok_def)
  have d: "d = db\<lparr>ob_runs := ob_runs db @ [\<lparr>rr_run_id = rn_run_id n, rr_revision = 0, rr_state = Run_Running\<rparr>]\<rparr>"
    using ins by (simp add: insert_run_def)
  have ready: "ready d (rn_run_id n) (rn_revision n) {}"
    using ready_new[OF store new] by (simp add: d n)
  have roots: "roots_ok None" by (simp add: roots_ok_def)
  note c = save_commits[OF run ready roots all_keys_covers n(2)]
  have base: "committed d w = committed db w" for w by (simp add: d committed_def hist_def)
  have kept: "current_run t w" if "current_run db w" for w
  proof -
    have "rn_run_id w \<noteq> rn_run_id n"
    proof
      assume e: "rn_run_id w = rn_run_id n"
      show False using find_run[OF store that] new unfolding e run_exists_def by simp
    qed
    moreover have "items i d = items i db" for i by (simp add: d in_items set_eq_iff)
    then have "current_run d w" using that by (simp add: current_run_def base) (simp add: d)
    ultimately show ?thesis using c(4) by blast
  qed
  then show "current_run db c \<Longrightarrow> current_run t c" by blast
  show cur: "current_run t n" and tab: "other_tables t = other_tables d" by (rule c)+
  show com: "committed t v \<longleftrightarrow> v = n \<or> committed db v" for v using c(3) base by simp
  have none: "rn_run_id v \<noteq> rn_run_id n" if "committed db v" for v
  proof
    assume e: "rn_run_id v = rn_run_id n"
    have "(rn_run_id v, rn_revision v) \<in> set (ob_revisions db)" using that by (simp add: committed_def)
    then have "rn_run_id n \<in> rr_run_id ` set (ob_runs db)"
      using revision_run[OF store] e by metis
    then show False using new by (simp add: run_exists_def sql_find_None)
  qed
  have "chain t"
    unfolding chain_def
  proof (intro allI impI)
    fix v w assume vw: "committed t v" "committed t w" "rn_run_id v = rn_run_id w" "rn_revision v \<le> rn_revision w"
    consider "v = n" "w = n" | "v = n" "committed db w" | "committed db v" "w = n" | "committed db v" "committed db w"
      using vw com by blast
    then show "run_later v w"
      using none vw chain unfolding chain_def by cases (simp, metis, metis, blast)
  qed
  then show "ledger_ok t" using c(1) by (simp add: ledger_ok_def)
  have "tail_later db t" using other_tables_tail[OF tab] by (simp add: d tail_later_def)
  then show "db_later db t" using com kept run_later_refl unfolding db_later_def by blast
qed

subsection \<open>Decisions\<close>

lemma apply_all_good: "apply_all g ops b db = Inr (b', d) \<Longrightarrow> good_batch s b \<Longrightarrow> good_batch s b'"
proof (induction ops arbitrary: b db)
  case (Cons op ops)
  then obtain c e where one: "apply_one g op b db = Inr (c, e)" and rest: "apply_all g ops c e = Inr (b', d)"
    by (auto simp: bind_Inr)
  have "good_batch s c"
    using one Cons.prems(2) by (cases op) (auto simp: apply_one_def bind_Inr dest: apply_reduced_good)
  then show ?case using rest Cons.IH by blast
qed simp

lemma entry_of_roots:
  "\<forall>r. k \<noteq> Root r \<Longrightarrow> entry_of (t\<lparr>rn_revision := n\<rparr>) k = entry_of t k"
  "\<forall>r. k \<noteq> Root r \<Longrightarrow> entry_of (t\<lparr>rn_application_state := v\<rparr>) k = entry_of t k"
  by (cases k; simp)+

lemma agree_roots:
  "agree K s t \<Longrightarrow> agree K s (t\<lparr>rn_revision := n\<rparr>)" "agree K s t \<Longrightarrow> agree K s (t\<lparr>rn_application_state := v\<rparr>)"
  unfolding agree_def using entry_of_roots by metis+

lemma run_ok_fields: "run_ok (s\<lparr>rn_revision := n\<rparr>) = run_ok s" "run_ok (s\<lparr>rn_application_state := v\<rparr>) = run_ok s"
  by (simp_all add: run_ok_def run_settled_def)

lemma run_le_later:
  assumes "run_le s t" and "rn_revision s \<le> n"
  shows "run_later s (t\<lparr>rn_revision := n\<rparr>)" and "run_later s (t\<lparr>rn_application_state := v, rn_revision := n\<rparr>)"
  using assms unfolding run_le_def run_later_def by auto

text \<open>The state of a decision: its batch, with the application state and the next revision.\<close>

definition decided_run :: "orun \<Rightarrow> batch \<Rightarrow> pyval option \<Rightarrow> orun" where
  "decided_run s b app = (case app of None \<Rightarrow> bt_run b | Some v \<Rightarrow> (bt_run b)\<lparr>rn_application_state := v\<rparr>)
     \<lparr>rn_revision := rn_revision s + 1\<rparr>"

lemma decided_run_ok:
  assumes s: "run_ok s" and b: "good_batch s b"
  shows "run_ok (decided_run s b app)" and "run_later s (decided_run s b app)"
    and "covers (saved_keys (decided_run s b app) (Some (bt_changes b))) (run_entries s) (decided_run s b app)"
    and "rn_run_id (decided_run s b app) = rn_run_id s" "rn_revision (decided_run s b app) = rn_revision s + 1"
proof -
  have parts: "run_ok (bt_run b)" "run_le s (bt_run b)" "agree (set (bt_changes b)) s (bt_run b)"
    using b by (simp_all add: good_batch_def)
  show "run_ok (decided_run s b app)" using parts by (simp add: decided_run_def run_ok_fields split: option.splits)
  show "run_later s (decided_run s b app)"
    using run_le_later[OF parts(2), of "rn_revision s + 1"] by (simp add: decided_run_def split: option.splits)
  have "agree (set (bt_changes b)) s (decided_run s b app)"
    using parts(3) agree_roots by (simp add: decided_run_def split: option.splits)
  then show "covers (saved_keys (decided_run s b app) (Some (bt_changes b))) (run_entries s) (decided_run s b app)"
    by (rule agree_covers)
  show "rn_run_id (decided_run s b app) = rn_run_id s" "rn_revision (decided_run s b app) = rn_revision s + 1"
    using parts(2) by (simp_all add: decided_run_def run_le_def split: option.splits)
qed

text \<open>A receipt once written is the one found for its command.\<close>

lemma receipt_kept: "db_later db t \<Longrightarrow> find_receipt i c db = Some r \<Longrightarrow> find_receipt i c t = Some r"
  by (auto simp: db_later_def tail_later_def find_receipt_def prefix_def sql_find_append)

lemma write_receipt_Inr:
  assumes "write_receipt i c fp s db = Inr (u, t)"
  shows "find_receipt i c db = None"
    and "find_receipt i c t = Some \<lparr>cr_run = i, cr_command = c, cr_digest = fp, cr_response = (rn_run_id s, rn_revision s)\<rparr>"
proof -
  let ?r = "\<lparr>cr_run = i, cr_command = c, cr_digest = fp, cr_response = (rn_run_id s, rn_revision s)\<rparr>"
  have none: "find_receipt i c db = None" and t: "t = db\<lparr>ob_commands := ob_commands db @ [?r]\<rparr>"
    using assms by (auto simp: write_receipt_def sql_insert_def find_receipt_def split: if_splits)
  then show "find_receipt i c db = None" "find_receipt i c t = Some ?r"
    by (simp_all add: find_receipt_def sql_find_append) (simp add: sql_find_def)
qed

text \<open>The steps of a decision that came to its end.\<close>

lemma decide_body_Inr:
  assumes "decide_body i c fp q ops app db = Inr (r, t)"
  obtains s b d1 d2 d3 d4 d5 d6 where "load i db = Inr (s, db)" and "check_decision s (dr_expected_revision q) (dr_expected_generation q) db = Inr ((), db)"
    and "advance_subscription i q db = Inr ((), d1)"
    and "apply_all (rn_generation s) ops \<lparr>bt_run = s, bt_intents = [], bt_registrations = [], bt_changes = []\<rparr> d1 = Inr (b, d2)"
    and "register_executions (case app of None \<Rightarrow> bt_run b | Some v \<Rightarrow> (bt_run b)\<lparr>rn_application_state := v\<rparr>) (bt_registrations b) d2 = Inr ((), d3)"
    and "insert_messages i c (List.map (\<lambda>i. i\<lparr>it_generation := rn_generation s\<rparr>) (bt_intents b)) d3 = Inr ((), d4)"
    and "save r (Some (bt_changes b)) d4 = Inr ((), d5)" and "r = decided_run s b app"
    and "append_run_event r ''application.decided'' (decision_dict q ops app) d5 = Inr ((), d6)"
    and "write_receipt i c fp r d6 = Inr ((), t)"
proof -
  have same: "load i db = Inr (s, d) \<Longrightarrow> d = db" for s d
    by (auto simp: load_def require_run_def assert_not_disposed_def bind_Inr)
  have check: "check_decision s n g db = Inr (u, d) \<Longrightarrow> d = db" for s n g u d
    by (auto simp: check_decision_def bind_Inr)
  from assms obtain s b d0 d1 d2 d3 d4 d5 d6 where
    "load i db = Inr (s, db)" "check_decision s (dr_expected_revision q) (dr_expected_generation q) db = Inr ((), d0)"
    "advance_subscription i q d0 = Inr ((), d1)"
    "apply_all (rn_generation s) ops \<lparr>bt_run = s, bt_intents = [], bt_registrations = [], bt_changes = []\<rparr> d1 = Inr (b, d2)"
    "register_executions (case app of None \<Rightarrow> bt_run b | Some v \<Rightarrow> (bt_run b)\<lparr>rn_application_state := v\<rparr>) (bt_registrations b) d2 = Inr ((), d3)"
    "insert_messages i c (List.map (\<lambda>i. i\<lparr>it_generation := rn_generation s\<rparr>) (bt_intents b)) d3 = Inr ((), d4)"
    "save (decided_run s b app) (Some (bt_changes b)) d4 = Inr ((), d5)" "r = decided_run s b app"
    "append_run_event (decided_run s b app) ''application.decided'' (decision_dict q ops app) d5 = Inr ((), d6)"
    "write_receipt i c fp (decided_run s b app) d6 = Inr ((), t)"
    unfolding decide_body_def Let_def bind_Inr get_Inr check_Inr ret_Inr decided_run_def
    by - (elim exE conjE, frule same, simp)
  then show ?thesis using that check by blast
qed

text \<open>
  The common shape of the transactions on an existing Run: quiet steps, the save of its next
  version, quiet steps.
\<close>

lemma quietD: "runs quiet m \<Longrightarrow> m db = Inr (a, t) \<Longrightarrow> quiet db t"
  by (auto simp: runs_def)

lemma version_step:
  assumes ok: "ledger_ok db" and s: "current_run db s" and before: "quiet db d1"
    and run: "save n changes d1 = Inr (u, d2)" and after: "quiet d2 t"
    and n: "rn_run_id n = rn_run_id s" "rn_revision n = rn_revision s + 1" "run_ok n" "run_later s n"
    and keys: "roots_ok changes" "covers (saved_keys n changes) (run_entries s) n"
  shows "ledger_ok t" and "db_later db t" and "current_run t n" and "committed t v \<longleftrightarrow> v = n \<or> committed db v"
proof -
  have b1: "same_base db d1" and b2: "same_base d2 t" using before after by (simp_all add: quiet_def)
  have ok1: "ledger_ok d1" and s1: "current_run d1 s"
    using ok s by (simp_all add: same_base_ledger[OF b1] same_base_current[OF b1])
  note c = save_next[OF ok1 s1 run n keys]
  show "ledger_ok t" using c(1) by (simp add: same_base_ledger[OF b2])
  show "current_run t n" using c(3) by (simp add: same_base_current[OF b2])
  show "committed t v \<longleftrightarrow> v = n \<or> committed db v"
    using c(4)[of v] by (simp add: same_base_committed[OF b2] same_base_committed[OF b1])
  show "db_later db t"
    using quiet_later[OF before] c(2) quiet_later[OF after] db_later_trans by blast
qed

text \<open>A decision commits the next version of its Run, and its receipt names it.\<close>

theorem decide_commits:
  assumes ok: "ledger_ok db" and run: "decide_body i c fp q ops app db = Inr (r, t)"
  obtains s where "current_run db s" and "rn_run_id s = i" and "rn_revision s = dr_expected_revision q"
    and "rn_run_id r = i" and "rn_revision r = rn_revision s + 1" and "run_later s r"
    and "ledger_ok t" and "db_later db t" and "current_run t r"
    and "\<forall>v. committed t v \<longleftrightarrow> v = r \<or> committed db v"
    and "find_receipt i c t = Some \<lparr>cr_run = i, cr_command = c, cr_digest = fp, cr_response = (i, rn_revision r)\<rparr>"
proof -
  have store: "store_ok db" using ok by (simp add: ledger_ok_def)
  obtain s b d1 d2 d3 d4 d5 d6 where load: "load i db = Inr (s, db)"
    and check: "check_decision s (dr_expected_revision q) (dr_expected_generation q) db = Inr ((), db)"
    and adv: "advance_subscription i q db = Inr ((), d1)"
    and batch: "apply_all (rn_generation s) ops \<lparr>bt_run = s, bt_intents = [], bt_registrations = [], bt_changes = []\<rparr> d1 = Inr (b, d2)"
    and reg: "register_executions (case app of None \<Rightarrow> bt_run b | Some v \<Rightarrow> (bt_run b)\<lparr>rn_application_state := v\<rparr>) (bt_registrations b) d2 = Inr ((), d3)"
    and msg: "insert_messages i c (List.map (\<lambda>i. i\<lparr>it_generation := rn_generation s\<rparr>) (bt_intents b)) d3 = Inr ((), d4)"
    and save: "save r (Some (bt_changes b)) d4 = Inr ((), d5)" and r: "r = decided_run s b app"
    and event: "append_run_event r ''application.decided'' (decision_dict q ops app) d5 = Inr ((), d6)"
    and receipt: "write_receipt i c fp r d6 = Inr ((), t)"
    by (rule decide_body_Inr[OF run])
  have cur: "current_run db s" and id: "rn_run_id s = i" and sok: "run_ok s"
    using load_Inr[OF store load] by simp_all
  have good: "good_batch s b"
    using apply_all_good[OF batch, of s] sok by (simp add: good_batch_def no_roots_def)
  note fin = decided_run_ok[OF sok good, of app, folded r]
  have q1: "quiet db d4"
    using quietD[OF quiet_advance_subscription adv] quietD[OF quiet_apply_all batch]
      quietD[OF quiet_register_executions reg] quietD[OF quiet_insert_messages msg] quiet_trans by blast
  have q2: "quiet d5 t"
    using quietD[OF quiet_append_run_event event] quietD[OF quiet_write_receipt receipt] quiet_trans by blast
  have roots: "roots_ok (Some (bt_changes b))" using good by (simp add: roots_ok_def good_batch_def)
  note v = version_step[OF ok cur q1 save q2 fin(4,5,1,2) roots fin(3)]
  have "rn_revision s = dr_expected_revision q" using check by (auto simp: check_decision_def bind_Inr)
  then show ?thesis
    using that[OF cur id _ _ _ fin(2) v(1-3)] v(4) fin(4,5) id write_receipt_Inr[OF receipt] by simp
qed

subsection \<open>The other transactions\<close>

lemma fresh_run_ok: "run_ok (fresh_run i input dfn)"
  by (simp add: fresh_run_def blank_run_def run_ok_def tasks_ok_def deps_known_def dep_rel_def acyclic_def)

lemma create_commits:
  assumes ok: "ledger_ok db" and run: "create_run_body i c fp input dfn db = Inr (r, t)"
  shows "ledger_ok t" and "db_later db t" and "current_run t r" and "committed t v \<longleftrightarrow> v = r \<or> committed db v"
    and "rn_run_id r = i" and "rn_revision r = 0" and "rn_state r = Run_Running"
    and "find_receipt i c t = Some \<lparr>cr_run = i, cr_command = c, cr_digest = fp, cr_response = (i, 0)\<rparr>"
proof -
  obtain input' dfn' d1 d2 d3 where fresh: "\<not> run_exists i db" and r: "r = fresh_run i input' dfn'"
    and ins: "insert_run i db = Inr ((), d1)" and save: "save r None d1 = Inr ((), d2)"
    and event: "append_run_event r ''run.created'' (py_dict [(''input'', input'), (''definition'', dfn')]) d2 = Inr ((), d3)"
    and receipt: "write_receipt i c fp r d3 = Inr ((), t)"
    using run by (auto simp: create_run_body_def Let_def bind_Inr)
  show id: "rn_run_id r = i" "rn_revision r = 0" "rn_state r = Run_Running"
    by (simp_all add: r fresh_run_def blank_run_def)
  have rok: "run_ok r" by (simp add: r fresh_run_ok)
  have new: "\<not> run_exists (rn_run_id r) db" and ins': "insert_run (rn_run_id r) db = Inr ((), d1)"
    using fresh ins id by simp_all
  note f = save_first[OF ok new ins' save id(2) rok]
  have q: "quiet d2 t"
    using quietD[OF quiet_append_run_event event] quietD[OF quiet_write_receipt receipt] quiet_trans by blast
  then have b: "same_base d2 t" by (simp add: quiet_def)
  show "ledger_ok t" "current_run t r" "committed t v \<longleftrightarrow> v = r \<or> committed db v"
    using f(1,3) f(4)[of v] by (simp_all add: same_base_ledger[OF b] same_base_current[OF b] same_base_committed[OF b])
  show "db_later db t" using f(2) quiet_later[OF q] db_later_trans by blast
  show "find_receipt i c t = Some \<lparr>cr_run = i, cr_command = c, cr_digest = fp, cr_response = (i, 0)\<rparr>"
    using write_receipt_Inr[OF receipt] id by simp
qed

lemma quiet_read: "runs quiet (load i)" "runs quiet (check_decision s n g)" "runs quiet (assert_not_disposed i)"
  by (auto simp: runs_def load_def require_run_def assert_not_disposed_def check_decision_def bind_Inr)

lemma acknowledge_quiet: "runs quiet (acknowledge_body i c fp n name e to g)"
  unfolding acknowledge_body_def
  by (intro quiet.rules quiet_read quiet_advance quiet_write_receipt)

lemma acknowledge_receipt:
  assumes "acknowledge_body i c fp n name e to g db = Inr (r, t)"
  shows "load i db = Inr (r, db)"
    and "find_receipt i c t = Some \<lparr>cr_run = i, cr_command = c, cr_digest = fp, cr_response = (rn_run_id r, rn_revision r)\<rparr>"
proof -
  obtain s d d1 d2 where l: "load i db = Inr (s, d)" and "r = s" and w: "write_receipt i c fp s d2 = Inr ((), t)"
    using assms by (auto simp: acknowledge_body_def bind_Inr)
  moreover have "d = db" using l by (auto simp: load_def require_run_def assert_not_disposed_def bind_Inr)
  ultimately show "load i db = Inr (r, db)"
    "find_receipt i c t = Some \<lparr>cr_run = i, cr_command = c, cr_digest = fp, cr_response = (rn_run_id r, rn_revision r)\<rparr>"
    using write_receipt_Inr[OF w] by simp_all
qed

text \<open>A version that differs from the one before in the revision alone.\<close>

lemma revised:
  assumes "run_ok s"
  shows "run_ok (s\<lparr>rn_revision := n\<rparr>)" and "rn_revision s \<le> n \<Longrightarrow> run_later s (s\<lparr>rn_revision := n\<rparr>)"
    and "covers (saved_keys (s\<lparr>rn_revision := n\<rparr>) (Some [])) (run_entries s) (s\<lparr>rn_revision := n\<rparr>)"
proof -
  show "run_ok (s\<lparr>rn_revision := n\<rparr>)" using assms by (simp add: run_ok_fields)
  show "run_later s (s\<lparr>rn_revision := n\<rparr>)" if "rn_revision s \<le> n" using that by (simp add: run_later_def)
  have "agree (set []) s (s\<lparr>rn_revision := n\<rparr>)" by (rule agree_roots) simp
  then show "covers (saved_keys (s\<lparr>rn_revision := n\<rparr>) (Some [])) (run_entries s) (s\<lparr>rn_revision := n\<rparr>)"
    by (rule agree_covers)
qed

lemma roots_ok_Nil [simp]: "roots_ok (Some [])" "roots_ok None" "roots_ok (Some [Attempt_Key k i])"
  by (simp_all add: roots_ok_def no_roots_def)

text \<open>
  Continuing a Run commits one more version of the finished Run and the first one of its
  successor.
\<close>

lemma continue_commits:
  assumes ok: "ledger_ok db" and run: "continue_run_body i j c fp n input g db = Inr (r, t)"
  obtains s where "current_run db s" and "rn_run_id s = i" and "rn_state s \<noteq> Run_Running" and "rn_run_id r = j"
    and "ledger_ok t" and "db_later db t" and "rn_revision r = 0" and "current_run t r"
    and "current_run t (s\<lparr>rn_revision := rn_revision s + 1\<rparr>)" and "i \<noteq> j"
    and "\<forall>v. committed t v \<longleftrightarrow> v = r \<or> v = s\<lparr>rn_revision := rn_revision s + 1\<rparr> \<or> committed db v"
    and "find_receipt i c t = Some \<lparr>cr_run = i, cr_command = c, cr_digest = fp, cr_response = (j, 0)\<rparr>"
proof -
  have store: "store_ok db" using ok by (simp add: ledger_ok_def)
  have same: "load i db = Inr (s, d) \<Longrightarrow> d = db" for s d
    by (auto simp: load_def require_run_def assert_not_disposed_def bind_Inr)
  have none: "assert_not_disposed k d = Inr (u, d') \<Longrightarrow> d' = d" for k d u d'
    by (auto simp: assert_not_disposed_def bind_Inr)
  have none': "check_decision s n g d = Inr (u, d') \<Longrightarrow> d' = d" for s n g d u d'
    by (auto simp: check_decision_def bind_Inr)
  obtain s x input' dfn d1 d2 d3 d4 d5 d6 where load: "load i db = Inr (s, db)" and ended: "rn_state s \<noteq> Run_Running"
    and fresh: "\<not> run_exists j db" and r: "r = fresh_run j input' dfn"
    and ins: "insert_run j db = Inr (x, d1)" and save: "save r None d1 = Inr ((), d2)"
    and link: "insert_link i j d2 = Inr ((), d3)"
    and save2: "save (s\<lparr>rn_revision := rn_revision s + 1\<rparr>) (Some []) d3 = Inr ((), d4)"
    and e1: "append_run_event (s\<lparr>rn_revision := rn_revision s + 1\<rparr>) ''run.continued''
      (py_dict [(''next_run_id'', PStr j)]) d4 = Inr ((), d5)"
    and e2: "append_run_event r ''run.created'' (py_dict [(''input'', input'), (''definition'', dfn),
      (''previous_run_id'', PStr i)]) d5 = Inr ((), d6)"
    and receipt: "write_receipt i c fp r d6 = Inr ((), t)"
    using run unfolding continue_run_body_def Let_def bind_Inr get_Inr check_Inr ret_Inr lift_Inr
    by - (elim exE conjE, frule same, frule none, frule none', simp)
  have cur: "current_run db s" and id: "rn_run_id s = i" and sok: "run_ok s"
    using load_Inr[OF store load] by simp_all
  have rid: "rn_run_id r = j" "rn_revision r = 0" and rok: "run_ok r"
    by (simp_all add: r fresh_run_ok) (simp_all add: fresh_run_def blank_run_def)
  have new: "\<not> run_exists (rn_run_id r) db" and ins': "insert_run (rn_run_id r) db = Inr (x, d1)"
    using fresh ins rid by simp_all
  note f = save_first[OF ok new ins' save rid(2) rok]
  have "run_exists i db" using find_run[OF store cur] by (simp add: run_exists_def id)
  then have ij: "i \<noteq> j" using fresh by blast
  have q1: "quiet d2 d3" by (rule quietD[OF quiet_insert_link link])
  have q2: "quiet d4 t"
    using quietD[OF quiet_append_run_event e1] quietD[OF quiet_append_run_event e2]
      quietD[OF quiet_write_receipt receipt] quiet_trans by blast
  have rev: "rn_revision s \<le> rn_revision s + 1" by simp
  have fields: "rn_run_id (s\<lparr>rn_revision := rn_revision s + 1\<rparr>) = rn_run_id s"
    "rn_revision (s\<lparr>rn_revision := rn_revision s + 1\<rparr>) = rn_revision s + 1" by simp_all
  note v = version_step[OF f(1) f(6)[OF cur] q1 save2 q2 fields revised(1)[OF sok] revised(2)[OF sok rev]
      roots_ok_Nil(1) revised(3)[OF sok]]
  obtain r' where r': "current_run t r'" "run_later r r'" using v(2) f(3) unfolding db_later_def by blast
  have "committed t r'" "rn_run_id r' = j" using r' rid by (simp_all add: current_run_def run_later_def)
  then have "committed db r' \<or> r' = r" using v(4)[of r'] f(4)[of r'] ij id by auto
  moreover have "\<not> committed db r'"
  proof
    assume "committed db r'"
    then have "(j, rn_revision r') \<in> set (ob_revisions db)" using \<open>rn_run_id r' = j\<close> by (simp add: committed_def)
    then show False using revision_run[OF store] fresh by (auto simp: run_exists_def sql_find_None)
  qed
  ultimately have cr: "current_run t r" using r'(1) by blast
  have com: "\<forall>w. committed t w \<longleftrightarrow> w = r \<or> w = s\<lparr>rn_revision := rn_revision s + 1\<rparr> \<or> committed db w"
    using v(4) f(4) by blast
  have later: "db_later db t" using f(2) v(2) db_later_trans by blast
  show ?thesis
    using that[OF cur id ended rid(1) v(1) later rid(2) cr v(3) ij com] write_receipt_Inr[OF receipt] rid by simp
qed

text \<open>A failed delivery is recorded with the message, and as the next version of its Run.\<close>

lemma delivery_failed_commits:
  assumes ok: "ledger_ok db" and run: "delivery_failed detail now m db = Inr (u, t)"
  obtains (unchanged) "quiet db t"
  | (versioned) s where "current_run db s" and "rn_run_id s = mr_run m" and "ledger_ok t" and "db_later db t"
    and "current_run t (s\<lparr>rn_revision := rn_revision s + 1\<rparr>)"
    and "\<forall>v. committed t v \<longleftrightarrow> v = s\<lparr>rn_revision := rn_revision s + 1\<rparr> \<or> committed db v"
proof -
  let ?f = "\<lambda>x q. if pending_message (mr_sequence m) q
       then q\<lparr>mr_attempts := mr_attempts q + 1, mr_last_error := Some x, mr_last_attempt := Some now\<rparr> else q"
  obtain x where x: "clone detail = Inr x"
    and rest: "t = db\<lparr>ob_outbox := List.map (?f x) (ob_outbox db)\<rparr> \<or>
      (\<exists>s d1 d2. load (mr_run m) (db\<lparr>ob_outbox := List.map (?f x) (ob_outbox db)\<rparr>) = Inr (s, d1) \<and>
         save (s\<lparr>rn_revision := rn_revision s + 1\<rparr>) (Some []) d1 = Inr ((), d2) \<and>
         append_run_event (s\<lparr>rn_revision := rn_revision s + 1\<rparr>) ''delivery.failed'' (failed_payload m x) d2 = Inr (u, t))"
    using run by (auto simp: delivery_failed_def Let_def bind_Inr split: if_splits)
  let ?d = "db\<lparr>ob_outbox := List.map (?f x) (ob_outbox db)\<rparr>"
  have q: "quiet db ?d" by (rule quiet_fields)
  from rest show ?thesis
  proof
    assume "t = ?d"
    then show ?thesis using unchanged q by simp
  next
    assume "\<exists>s d1 d2. load (mr_run m) ?d = Inr (s, d1) \<and>
         save (s\<lparr>rn_revision := rn_revision s + 1\<rparr>) (Some []) d1 = Inr ((), d2) \<and>
         append_run_event (s\<lparr>rn_revision := rn_revision s + 1\<rparr>) ''delivery.failed'' (failed_payload m x) d2 = Inr (u, t)"
    then obtain s d1 d2 where load: "load (mr_run m) ?d = Inr (s, d1)"
      and save: "save (s\<lparr>rn_revision := rn_revision s + 1\<rparr>) (Some []) d1 = Inr ((), d2)"
      and event: "append_run_event (s\<lparr>rn_revision := rn_revision s + 1\<rparr>) ''delivery.failed'' (failed_payload m x) d2 = Inr (u, t)"
      by blast
    have b: "same_base db ?d" using q by (simp add: quiet_def)
    have "store_ok ?d" using ok by (simp add: ledger_ok_def same_base_ok[OF b])
    note l = load_Inr[OF this load]
    have cur: "current_run db s" using l(1) by (simp add: same_base_current[OF b])
    have rev: "rn_revision s \<le> rn_revision s + 1" by simp
    have fields: "rn_run_id (s\<lparr>rn_revision := rn_revision s + 1\<rparr>) = rn_run_id s"
      "rn_revision (s\<lparr>rn_revision := rn_revision s + 1\<rparr>) = rn_revision s + 1" by simp_all
    have q1: "quiet db d1" using q l(4) by simp
    note v = version_step[OF ok cur q1 save quietD[OF quiet_append_run_event event] fields
        revised(1)[OF l(3)] revised(2)[OF l(3) rev] roots_ok_Nil(1) revised(3)[OF l(3)]]
    show ?thesis using versioned[OF cur l(2) v(1-3)] v(4) by blast
  qed
qed

end
