(* ===== verification/Observing.thy ===== *)
theory Observing
  imports Saves
begin

text \<open>
  The synchronisation of an execution: the snapshot the kernel reported is written into the
  last attempt of its task, which has not settled, and the Run gets its next version.
\<close>

lemma dispatched_revision:
  "state_ok a \<Longrightarrow> at_dispatched a \<Longrightarrow> at_kernel_revision a = 0 \<or> \<not> settled a \<Longrightarrow> \<not> settled a"
  by (auto simp: state_ok_def split: attempt_state.splits)

lemma update_last: "xs \<noteq> [] \<Longrightarrow> xs[length xs - 1 := a] = butlast xs @ [a]"
  by (cases xs rule: rev_cases) simp_all

lemma run_ok_attempt:
  assumes "run_ok s" and "fmlookup (rn_tasks s) k = Some x" and "i < length (tk_attempts x)"
  shows "attempt_ok (rn_tasks s) x (tk_attempts x ! i)" and "state_ok (tk_attempts x ! i)"
proof -
  have "list_all (attempt_ok (rn_tasks s) x) (tk_attempts x)"
    using run_ok_task[OF assms(1,2)] by (simp add: task_ok_def)
  then show a: "attempt_ok (rn_tasks s) x (tk_attempts x ! i)" using assms(3) by (simp add: list_all_length)
  then show "state_ok (tk_attempts x ! i)" by (simp add: attempt_ok_def)
qed

text \<open>An unsettled attempt is the last of its task, and its Run has not ended.\<close>

lemma unsettled_last:
  assumes "run_ok s" and "fmlookup (rn_tasks s) k = Some x" and "i < length (tk_attempts x)"
    and "\<not> settled (tk_attempts x ! i)"
  shows "i = length (tk_attempts x) - 1" and "rn_state s = Run_Running"
proof -
  have t: "tk_attempts x \<noteq> []" "list_all settled (butlast (tk_attempts x))"
    using run_ok_task[OF assms(1,2)] by (auto simp: task_ok_def)
  show i: "i = length (tk_attempts x) - 1"
  proof (rule ccontr)
    assume "i \<noteq> length (tk_attempts x) - 1"
    then have "i < length (butlast (tk_attempts x))" using assms(3) by simp
    then show False using t(2) assms(4) by (auto simp: list_all_length nth_butlast)
  qed
  show "rn_state s = Run_Running"
  proof (rule ccontr)
    assume "rn_state s \<noteq> Run_Running"
    then have "settled (current_attempt x)"
      using assms(1,2) by (auto simp: run_ok_def run_settled_def dest: fmpredD)
    then show False using assms(4) t(1) by (simp add: i last_conv_nth)
  qed
qed

definition observed_run :: "string \<Rightarrow> nat \<Rightarrow> Snapshots.snapshot \<Rightarrow> attempt \<Rightarrow> task \<Rightarrow> orun \<Rightarrow> orun" where
  "observed_run k i x a t s =
     (with_tasks (fmupd k (t\<lparr>tk_attempts := (tk_attempts t)[i := observed x a]\<rparr>)) s)
       \<lparr>rn_revision := rn_revision s + 1\<rparr>"

lemma observed_run_ok:
  assumes s: "run_ok s" and t: "fmlookup (rn_tasks s) k = Some t" and i: "i < length (tk_attempts t)"
    and a: "a = tk_attempts t ! i" and d: "at_dispatched a" and new: "at_kernel_revision a < s_revision x"
    and live: "at_kernel_revision a = 0 \<or> \<not> settled a"
  shows "run_ok (observed_run k i x a t s)" and "run_later s (observed_run k i x a t s)"
    and "covers (saved_keys (observed_run k i x a t s) (Some [Attempt_Key k i])) (run_entries s)
      (observed_run k i x a t s)"
    and "rn_run_id (observed_run k i x a t s) = rn_run_id s"
    and "rn_revision (observed_run k i x a t s) = rn_revision s + 1"
    and "\<not> settled a" and "i = length (tk_attempts t) - 1" and "rn_state s = Run_Running"
proof -
  have st: "state_ok a" using run_ok_attempt(2)[OF s t i] a by simp
  show unset: "\<not> settled a" by (rule dispatched_revision[OF st d live])
  then have "\<not> settled (tk_attempts t ! i)" using a by simp
  note last = unsettled_last[OF s t i this]
  show "i = length (tk_attempts t) - 1" and "rn_state s = Run_Running" by (rule last)+
  have ne: "tk_attempts t \<noteq> []" using i by auto
  have cur: "current_attempt t = a" using a last(1) ne by (simp add: last_conv_nth)
  have upd: "t\<lparr>tk_attempts := (tk_attempts t)[i := observed x a]\<rparr> = set_current t (observed x a)"
    unfolding set_current_def last(1) update_last[OF ne] by (rule refl)
  have eq: "observed_run k i x a t s =
      (with_tasks (fmupd k (set_current t (observed x a))) s)\<lparr>rn_revision := rn_revision s + 1\<rparr>"
    by (simp only: observed_run_def upd)
  have rev: "0 \<le> at_kernel_revision a" using st by (auto simp: state_ok_def split: attempt_state.splits if_splits)
  have "attempt_ok m t (observed x a)" if m: "tasks_le (rn_tasks s) m" for m
  proof -
    have "attempt_ok m t a" using attempts_ok[OF s t m] i a by (simp add: list_all_length)
    moreover have "state_ok (observed x a)" using d new rev by (simp add: state_ok_def observed_def)
    ultimately show ?thesis by (simp add: attempt_ok_def observed_def split: option.splits)
  qed
  then have ok: "run_ok (with_tasks (fmupd k (set_current t (observed x a))) s) \<and>
      run_le s (with_tasks (fmupd k (set_current t (observed x a))) s)"
    using unset d cur by (intro set_current_ok[OF s last(2) t]) (simp_all add: observed_def)
  show "run_ok (observed_run k i x a t s)" using ok by (simp add: eq run_ok_fields)
  show "run_later s (observed_run k i x a t s)"
    using run_le_later(1)[OF conjunct2[OF ok], of "rn_revision s + 1"] by (simp add: eq)
  have "agree (set [Attempt_Key k i]) s (observed_run k i x a t s)"
    unfolding eq using agree_roots(1)[OF set_current_agree[OF t ne, of "observed x a"]] by (simp add: last(1))
  then show "covers (saved_keys (observed_run k i x a t s) (Some [Attempt_Key k i])) (run_entries s)
      (observed_run k i x a t s)" by (rule agree_covers)
  show "rn_run_id (observed_run k i x a t s) = rn_run_id s"
    "rn_revision (observed_run k i x a t s) = rn_revision s + 1" by (simp_all add: observed_run_def with_tasks_def)
qed

lemma stored_attempt_of:
  assumes ok: "store_ok db" and s: "current_run db s" and a: "stored_attempt (rn_run_id s) k i db = Some a"
  obtains t where "fmlookup (rn_tasks s) k = Some t" and "i < length (tk_attempts t)" and "tk_attempts t ! i = a"
proof -
  obtain l j where f: "find_item (rn_run_id s) (Attempt_Key k i) db = Some (Attempt_Entry l j a)"
    using a by (auto simp: stored_attempt_def split: option.splits entry.splits)
  then have "entry_key (Attempt_Entry l j a) = Attempt_Key k i"
    by (auto simp: find_item_def dest!: sql_find_Some)
  then have lj: "l = k" "j = i" by simp_all
  have "keys_ok db" using ok by (simp add: store_ok_def)
  then have "Attempt_Entry k i a \<in> items (rn_run_id s) db"
    using f find_item_iff[of db "rn_run_id s" "Attempt_Entry k i a"] by (simp add: lj)
  then have "Attempt_Entry k i a \<in> run_entries s" using s by (simp add: current_run_def)
  then have "entry_of s (Attempt_Key k i) = Some (Attempt_Entry k i a)" by (simp add: run_entries_iff)
  then show ?thesis using that by (auto split: option.splits if_splits)
qed

text \<open>
  A synchronisation changes nothing, or writes the snapshot into the attempt of the
  execution: one not settled, with the last revision seen before the snapshot's.
\<close>

theorem sync_commits:
  assumes ok: "ledger_ok db" and run: "sync_body e x db = Inr (u, t)"
  obtains (same) "t = db"
  | (written) r s k a n where "find_execution e db = Some r" and "xr_command r = canon_command (s_command x)"
    and "current_run db s" and "rn_run_id s = xr_run r" and "fmlookup (rn_tasks s) (xr_task r) = Some k"
    and "xr_attempt r < length (tk_attempts k)" and "a = tk_attempts k ! xr_attempt r" and "at_dispatched a"
    and "at_kernel_revision a < s_revision x" and "\<not> settled a" and "rn_state s = Run_Running"
    and "n = observed_run (xr_task r) (xr_attempt r) x a k s"
    and "ledger_ok t" and "db_later db t" and "current_run t n" and "\<forall>v. committed t v \<longleftrightarrow> v = n \<or> committed db v"
proof (cases "t = db")
  case True
  then show ?thesis by (rule same)
next
  case False
  have store: "store_ok db" using ok by (simp add: ledger_ok_def)
  obtain r a where row: "find_execution e db = Some r" and cmd: "canon_command (s_command x) = xr_command r"
    and stored: "stored_attempt (xr_run r) (xr_task r) (xr_attempt r) db = Some a" and d: "at_dispatched a"
    and new: "at_kernel_revision a < s_revision x" and live: "at_kernel_revision a = 0 \<or> \<not> settled a"
    and w: "write_observation r x a db = Inr (u, t)"
    using run False by (auto simp: sync_body_def bind_Inr split: if_splits)
  obtain s c d1 where load: "load (xr_run r) db = Inr (s, db)"
    and put: "put_attempt (xr_task r) (xr_attempt r) (observed x a) s = Inr c"
    and save: "save (c\<lparr>rn_revision := rn_revision c + 1\<rparr>) (Some [Attempt_Key (xr_task r) (xr_attempt r)]) db = Inr ((), d1)"
    and event: "append_run_event (c\<lparr>rn_revision := rn_revision c + 1\<rparr>) ''execution.observed''
      (observed_payload r x (observed x a)) d1 = Inr (u, t)"
    using w by (auto simp: write_observation_def Let_def bind_Inr dest: load_Inr(4)[OF store])
  have cur: "current_run db s" and id: "rn_run_id s = xr_run r" and sok: "run_ok s"
    using load_Inr[OF store load] by simp_all
  obtain k where k: "fmlookup (rn_tasks s) (xr_task r) = Some k" "xr_attempt r < length (tk_attempts k)"
    "tk_attempts k ! xr_attempt r = a"
    using stored_attempt_of[OF store cur] stored id by metis
  let ?n = "observed_run (xr_task r) (xr_attempt r) x a k s"
  have n: "c\<lparr>rn_revision := rn_revision c + 1\<rparr> = ?n"
    using put k by (auto simp: put_attempt_def observed_run_def with_tasks_def split: if_splits)
  note o = observed_run_ok[OF sok k(1,2) k(3)[symmetric] d new live]
  note v = version_step[OF ok cur quiet_refl save[unfolded n] quietD[OF quiet_append_run_event event] o(4,5,1,2)
      roots_ok_Nil(3) o(3)]
  show ?thesis
    by (rule written[OF row cmd[symmetric] cur id k(1,2) k(3)[symmetric] d new o(6,8) refl v(1-3)]) (use v(4) in blast)
qed

end
