(* ===== verification/Identities.thy ===== *)
theory Identities
  imports Observing
begin

text \<open>
  The execution identities: every attempt of a current Run is registered once, under the
  execution its command names, and nothing else is registered.
\<close>

subsection \<open>The identities of a Run\<close>

definition idents :: "orun \<Rightarrow> string \<Rightarrow> (command \<times> int) list" where
  "idents s k = List.map (\<lambda>a. (at_command a, at_generation a)) (attempts_at s k)"

definition ids :: "orun \<Rightarrow> (string \<times> nat \<times> command \<times> int) set" where
  "ids s = {(k, i, c, g). i < length (idents s k) \<and> idents s k ! i = (c, g)}"

definition reg_ids :: "(string \<times> nat \<times> attempt) list \<Rightarrow> (string \<times> nat \<times> command \<times> int) set" where
  "reg_ids xs = (\<lambda>(k, i, a). (k, i, at_command a, at_generation a)) ` set xs"

lemma reg_ids_simps [simp]: "reg_ids [] = {}" "reg_ids (xs @ [(k, i, a)]) = insert (k, i, at_command a, at_generation a) (reg_ids xs)"
  by (auto simp: reg_ids_def)

lemma ids_same: "(\<And>k. idents t k = idents s k) \<Longrightarrow> ids t = ids s"
  by (simp add: ids_def)

lemma attempts_at_upd: "attempts_at (with_tasks (fmupd k u) s) l = (if l = k then tk_attempts u else attempts_at s l)"
  by (simp add: attempts_at_def with_tasks_def)

lemma idents_fields [simp]: "idents (s\<lparr>rn_revision := n\<rparr>) k = idents s k" "idents (s\<lparr>rn_application_state := v\<rparr>) k = idents s k"
  "idents (s\<lparr>rn_waits := w\<rparr>) k = idents s k" "idents (s\<lparr>rn_signals := m\<rparr>) k = idents s k" "idents (s\<lparr>rn_state := e\<rparr>) k = idents s k"
  by (simp_all add: idents_def attempts_at_def)

lemma ids_fields [simp]: "ids (s\<lparr>rn_revision := n\<rparr>) = ids s" "ids (s\<lparr>rn_application_state := v\<rparr>) = ids s"
  "ids (s\<lparr>rn_waits := w\<rparr>) = ids s" "ids (s\<lparr>rn_signals := m\<rparr>) = ids s" "ids (s\<lparr>rn_state := e\<rparr>) = ids s"
  by (simp_all add: ids_def)

lemma ids_set_current:
  assumes x: "fmlookup (rn_tasks s) k = Some x" and ne: "tk_attempts x \<noteq> []"
    and a: "at_command a = at_command (current_attempt x)" "at_generation a = at_generation (current_attempt x)"
  shows "ids (with_tasks (fmupd k (set_current x a)) s) = ids s"
proof (rule ids_same)
  fix l
  have "List.map (\<lambda>a. (at_command a, at_generation a)) (butlast (tk_attempts x) @ [a]) =
      List.map (\<lambda>a. (at_command a, at_generation a)) (tk_attempts x)"
    using ne a by (cases "tk_attempts x" rule: rev_cases) simp_all
  then show "idents (with_tasks (fmupd k (set_current x a)) s) l = idents s l"
    using x by (simp add: idents_def attempts_at_upd set_current_def)
qed

lemma ids_append:
  assumes "tk_attempts u = attempts_at s k @ [a]"
  shows "ids (with_tasks (fmupd k u) s) = insert (k, length (attempts_at s k), at_command a, at_generation a) (ids s)"
proof -
  have i: "idents (with_tasks (fmupd k u) s) l = (if l = k then idents s k @ [(at_command a, at_generation a)] else idents s l)" for l
    using assms by (simp add: idents_def attempts_at_upd)
  have n: "length (idents s k) = length (attempts_at s k)" by (simp add: idents_def)
  show ?thesis
    unfolding ids_def i n[symmetric] by (auto simp: nth_append less_Suc_eq split: if_splits)
qed

lemma ids_fresh_run [simp]: "ids (fresh_run i v d) = {}"
  by (simp add: ids_def idents_def attempts_at_def fresh_run_def blank_run_def)

lemma ids_observed:
  assumes k: "fmlookup (rn_tasks s) k = Some t" and i: "i < length (tk_attempts t)" and a: "a = tk_attempts t ! i"
  shows "ids (observed_run k i x a t s) = ids s"
proof (rule ids_same)
  fix l
  have "List.map (\<lambda>a. (at_command a, at_generation a)) ((tk_attempts t)[i := observed x a]) =
      List.map (\<lambda>a. (at_command a, at_generation a)) (tk_attempts t)"
    using i a by (simp add: map_update observed_def list_update_same_conv)
  then show "idents (observed_run k i x a t s) l = idents s l"
    using k by (simp add: observed_run_def) (simp add: idents_def attempts_at_upd)
qed

subsection \<open>Operations and the registrations they ask for\<close>

lemma reduce_ids:
  assumes red: "reduce_operation s op = Inr (is, t)" and ok: "run_ok s"
    and op: "\<forall>k c d. op \<noteq> Add_Task k c d" "\<forall>k c. op \<noteq> New_Attempt k c"
  shows "ids t = ids s"
proof (cases op)
  case (Dispatch_Task k)
  then obtain x where x: "fmlookup (rn_tasks s) k = Some x" and d: "dispatch_task s k x = Inr (is, t)"
    using red by (auto simp: reduce_operation_def on_task_Inr rbind_eq_Inr)
  have "tk_attempts x \<noteq> []" using run_ok_task[OF ok x] by (simp add: task_ok_def)
  then show ?thesis
    using d ids_set_current[OF x] by (auto simp: dispatch_task_def Let_def rbind_eq_Inr)
next
  case (Cancel_Task k r)
  then obtain x where x: "fmlookup (rn_tasks s) k = Some x" and d: "cancel_task s k x r = Inr (is, t)"
    using red by (auto simp: reduce_operation_def on_task_Inr rbind_eq_Inr)
  have "tk_attempts x \<noteq> []" using run_ok_task[OF ok x] by (simp add: task_ok_def)
  then show ?thesis
    using d ids_set_current[OF x] by (auto simp: cancel_task_def Let_def split: if_splits)
next
  case (Set_Dependencies k v)
  then obtain x where x: "fmlookup (rn_tasks s) k = Some x" and sd: "set_dependencies s k x v = Inr t"
    using red by (auto simp: reduce_operation_def silent_Inr on_task_Inr rbind_eq_Inr)
  then obtain ds where "t = with_tasks (fmupd k (x\<lparr>tk_dependencies := ds\<rparr>)) s"
    by (auto simp: set_dependencies_def rbind_eq_Inr)
  then show ?thesis using x by (intro ids_same) (simp add: idents_def attempts_at_upd)
qed (use red op in \<open>auto simp: reduce_operation_def silent_Inr rbind_eq_Inr open_wait_def release_wait_def
    send_signal_def finish_run_def split: option.splits if_splits\<close>)

lemma record_task_new:
  assumes "record_task h True k g b = Inr b'" and "fmlookup (rn_tasks (bt_run b)) k = Some u"
    and "tk_attempts u = xs @ [a]"
  shows "bt_run b' = with_tasks (fmupd k (u\<lparr>tk_attempts := xs @ [a\<lparr>at_generation := g\<rparr>]\<rparr>)) (bt_run b)"
    and "bt_registrations b' = bt_registrations b @ [(k, length xs, a\<lparr>at_generation := g\<rparr>)]"
  using assms by (auto simp: record_task_def Let_def set_generation_def)

lemma record_task_old: "record_task h False k g b = Inr b' \<Longrightarrow> bt_run b' = bt_run b \<and> bt_registrations b' = bt_registrations b"
  by (auto simp: record_task_def Let_def rbind_eq_Inr)

definition batch_ids :: "orun \<Rightarrow> batch \<Rightarrow> bool" where
  "batch_ids s b \<longleftrightarrow> ids (bt_run b) = ids s \<union> reg_ids (bt_registrations b) \<and>
     ids s \<inter> reg_ids (bt_registrations b) = {}"

lemma in_ids: "(k, i, c, g) \<in> ids s \<Longrightarrow> i < length (attempts_at s k)"
  by (simp add: ids_def idents_def)

text \<open>A batch registers exactly the attempts it adds.\<close>

lemma new_attempt_batch:
  assumes b: "batch_ids s b" and red: "attempts_at (bt_run b) k = xs"
    and t: "t = with_tasks (fmupd k u) (bt_run b)" and u: "tk_attempts u = xs @ [a]"
    and rec: "record_task h True k g (b\<lparr>bt_run := t, bt_intents := is\<rparr>) = Inr b'"
    and le: "ids s \<subseteq> ids (bt_run b)"
  shows "batch_ids s b'"
proof -
  let ?c = "b\<lparr>bt_run := t, bt_intents := is\<rparr>" and ?a = "a\<lparr>at_generation := g\<rparr>"
  have look: "fmlookup (rn_tasks (bt_run ?c)) k = Some u" by (simp add: t)
  have b': "bt_run b' = with_tasks (fmupd k (u\<lparr>tk_attempts := xs @ [?a]\<rparr>)) (bt_run b)"
    and r: "bt_registrations b' = bt_registrations b @ [(k, length xs, ?a)]"
    using record_task_new[OF rec look u] by (simp_all add: t)
  have "ids (bt_run b') = insert (k, length xs, at_command ?a, at_generation ?a) (ids (bt_run b))"
    unfolding b' using red by (subst ids_append[of _ _ _ ?a]) simp_all
  moreover have "(k, length xs, at_command ?a, at_generation ?a) \<notin> ids (bt_run b)"
    using in_ids[of k "length xs" "at_command ?a" "at_generation ?a" "bt_run b"] red by auto
  ultimately show ?thesis using b le unfolding batch_ids_def r reg_ids_simps by auto
qed

lemma apply_reduced_ids:
  assumes run: "apply_reduced g op b = Inr b'" and good: "good_batch s b" and b: "batch_ids s b"
  shows "batch_ids s b'"
proof -
  let ?s = "bt_run b"
  have ok: "run_ok ?s" using good by (simp add: good_batch_def)
  have le: "ids s \<subseteq> ids ?s" using b by (auto simp: batch_ids_def)
  obtain "is" t where red: "reduce_operation ?s op = Inr (is, t)"
    and rec: "record_change op g (b\<lparr>bt_run := t, bt_intents := bt_intents b @ is\<rparr>) = Inr b'"
    using run by (auto simp: apply_reduced_def rbind_eq_Inr)
  show ?thesis
  proof (cases "(\<exists>k c d. op = Add_Task k c d) \<or> (\<exists>k c. op = New_Attempt k c)")
    case False
    then have "ids t = ids ?s" using reduce_ids[OF red ok] by blast
    moreover have "ids (bt_run b') = ids t" "bt_registrations b' = bt_registrations b"
      using rec False by (cases op; auto dest!: record_task_old)+
    ultimately show ?thesis using b by (simp add: batch_ids_def)
  next
    case True
    then show ?thesis
    proof (elim disjE exE)
      fix k c d assume op: "op = Add_Task k c d"
      then have add: "add_task ?s k c d = Inr t"
        using red by (auto simp: reduce_operation_def silent_Inr rbind_eq_Inr)
      then obtain ds a where "fmlookup (rn_tasks ?s) k = None"
        "t = with_tasks (fmupd k \<lparr>tk_task_id = k, tk_dependencies = ds, tk_attempts = [a]\<rparr>) ?s"
        by (auto simp: add_task_def rbind_eq_Inr)
      then show ?thesis
        using new_attempt_batch[OF b _ _ _ _ le, of k "[]" t _ a True g "bt_intents b @ is" b'] rec op
        by (simp add: attempts_at_def)
    next
      fix k c assume op: "op = New_Attempt k c"
      then obtain x where x: "fmlookup (rn_tasks ?s) k = Some x" and "add_attempt ?s k x c = Inr t"
        using red by (auto simp: reduce_operation_def silent_Inr on_task_Inr rbind_eq_Inr)
      then obtain a where "t = with_tasks (fmupd k (x\<lparr>tk_attempts := tk_attempts x @ [a]\<rparr>)) ?s"
        using add_attempt_Inr by blast
      then show ?thesis
        using new_attempt_batch[OF b _ _ _ _ le, of k "tk_attempts x" t _ a False g "bt_intents b @ is" b'] rec op x
        by simp
    qed
  qed
qed

lemma apply_all_ids:
  "apply_all g ops b db = Inr (b', d) \<Longrightarrow> good_batch s b \<Longrightarrow> batch_ids s b \<Longrightarrow> batch_ids s b'"
proof (induction ops arbitrary: b db)
  case (Cons op ops)
  then obtain c e where one: "apply_one g op b db = Inr (c, e)" and rest: "apply_all g ops c e = Inr (b', d)"
    by (auto simp: bind_Inr)
  have "good_batch s c \<and> batch_ids s c"
    using one Cons.prems by (cases op) (auto simp: apply_one_def bind_Inr dest: apply_reduced_good apply_reduced_ids)
  then show ?case using rest Cons.IH by blast
qed simp

subsection \<open>The registered executions\<close>

definition row_of :: "string \<Rightarrow> string \<times> nat \<times> command \<times> int \<Rightarrow> execution_row" where
  "row_of run_id = (\<lambda>(k, i, c, g). \<lparr>xr_execution = c_execution_id c, xr_run = run_id, xr_task = k, xr_attempt = i,
     xr_generation = g, xr_command = canon_command c, xr_key = c_idempotency_key c, xr_active = False\<rparr>)"

definition rows_ok :: "execution_row list \<Rightarrow> bool" where
  "rows_ok rows \<longleftrightarrow> distinct (List.map xr_execution rows) \<and> distinct (List.map xr_key rows) \<and>
     distinct (List.map (\<lambda>r. (xr_run r, xr_task r, xr_attempt r)) rows) \<and>
     list_all (\<lambda>r. xr_execution r = c_execution_id (xr_command r) \<and> xr_key r = c_idempotency_key (xr_command r)) rows"

text \<open>The rows are those of the attempts of the current Runs.\<close>

definition current_rows :: "odb \<Rightarrow> execution_row set" where
  "current_rows db = (\<Union>s \<in> Collect (current_run db). row_of (rn_run_id s) ` ids s)"

definition registered :: "odb \<Rightarrow> bool" where
  "registered db \<longleftrightarrow> rows_ok (ob_executions db) \<and> inert ` set (ob_executions db) = current_rows db"

lemma canon_command_ids: "canon_command c = canon_command d \<Longrightarrow>
    c_execution_id c = c_execution_id d \<and> c_idempotency_key c = c_idempotency_key d"
  unfolding canon_command_def by (metis command.select_convs command.surjective command.update_convs)

lemma register_execution_rows:
  assumes run: "register_execution s (k, i, a) db = Inr (u, t)" and ok: "rows_ok (ob_executions db)"
  shows "rows_ok (ob_executions t) \<and> inert ` set (ob_executions t) =
    insert (row_of (rn_run_id s) (k, i, at_command a, at_generation a)) (inert ` set (ob_executions db))"
proof (cases "find_execution (c_execution_id (at_command a)) db")
  case None
  then have new: "c_execution_id (at_command a) \<notin> xr_execution ` set (ob_executions db)"
    by (simp add: find_execution_def sql_find_None)
  have "t = db\<lparr>ob_executions := ob_executions db @ [row_of (rn_run_id s) (k, i, at_command a, at_generation a)]\<rparr>"
    and "list_all (\<lambda>q. xr_key q \<noteq> c_idempotency_key (at_command a) \<and>
      (xr_run q, xr_task q, xr_attempt q) \<noteq> (rn_run_id s, k, i)) (ob_executions db)"
    using run None by (auto simp: register_execution_def Let_def bind_Inr insert_execution_def row_of_def list_all_iff)
  then show ?thesis
    using ok new by (auto simp: rows_ok_def row_of_def inert_def list_all_iff canon_command_def)
next
  case (Some q)
  then have q: "q \<in> set (ob_executions db)" "xr_execution q = c_execution_id (at_command a)"
    by (auto simp: find_execution_def dest!: sql_find_Some)
  have t: "t = db" and f: "xr_run q = rn_run_id s" "xr_task q = k" "xr_attempt q = i" "xr_generation q = at_generation a"
    "xr_command q = canon_command (at_command a)"
    using run Some by (auto simp: register_execution_def Let_def bind_Inr)
  have "xr_key q = c_idempotency_key (at_command a)"
    using ok q(1) f(5) by (simp add: rows_ok_def list_all_iff canon_command_def)
  then have "inert q = row_of (rn_run_id s) (k, i, at_command a, at_generation a)"
    using f q(2) by (simp add: inert_def row_of_def)
  then show ?thesis using ok t q(1) by (metis image_eqI insert_absorb)
qed

lemma register_executions_rows:
  assumes "register_executions s xs db = Inr (u, t)" and "rows_ok (ob_executions db)"
  shows "rows_ok (ob_executions t) \<and> inert ` set (ob_executions t) =
    inert ` set (ob_executions db) \<union> row_of (rn_run_id s) ` reg_ids xs"
proof -
  have "each (register_execution s) xs db = Inr (us, t) \<Longrightarrow> rows_ok (ob_executions db) \<Longrightarrow>
      rows_ok (ob_executions t) \<and> inert ` set (ob_executions t) =
      inert ` set (ob_executions db) \<union> row_of (rn_run_id s) ` reg_ids xs" for us
  proof (induction xs arbitrary: db us)
    case (Cons x xs)
    obtain k i a where x: "x = (k, i, a)" by (cases x)
    obtain d v vs where one: "register_execution s (k, i, a) db = Inr (v, d)"
      and rest: "each (register_execution s) xs d = Inr (vs, t)"
      using Cons.prems(1) by (auto simp: x bind_Inr)
    note r = register_execution_rows[OF one Cons.prems(2)]
    have "reg_ids (x # xs) = insert (k, i, at_command a, at_generation a) (reg_ids xs)" by (simp add: reg_ids_def x)
    then show ?case using Cons.IH[OF rest] r by auto
  qed (simp add: reg_ids_def)
  moreover obtain us where "each (register_execution s) xs db = Inr (us, t)"
    using assms(1) by (auto simp: register_executions_def bind_Inr)
  ultimately show ?thesis using assms(2) by blast
qed

subsection \<open>The current Runs after a transaction\<close>

lemma current_after:
  assumes ok: "store_ok db" "store_ok t" and later: "db_later db t"
    and com: "\<forall>v. committed t v \<longleftrightarrow> v \<in> N \<or> committed db v" and cur: "\<forall>n \<in> N. current_run t n"
  shows "current_run t v \<longleftrightarrow> v \<in> N \<or> (rn_run_id v \<notin> rn_run_id ` N \<and> current_run db v)"
proof -
  have kept: "current_run t w" if w: "current_run db w" "rn_run_id w \<notin> rn_run_id ` N" for w
  proof -
    obtain w' where w': "current_run t w'" "run_later w w'" using later w(1) unfolding db_later_def by blast
    have id: "rn_run_id w' = rn_run_id w" and le: "rn_revision w \<le> rn_revision w'"
      using w'(2) by (simp_all add: run_later_def)
    have "w' \<notin> N" using w(2) id by (metis imageI)
    then have c: "committed db w'" using com w'(1) committed_current by blast
    have "rn_revision w' = rn_revision w" using committed_revision(2)[OF ok(1) w(1) c id] le by simp
    then have "w' = w" using committed_unique[OF ok(1) c committed_current[OF w(1)] id] by simp
    then show ?thesis using w'(1) by simp
  qed
  show ?thesis
  proof
    assume v: "current_run t v"
    show "v \<in> N \<or> (rn_run_id v \<notin> rn_run_id ` N \<and> current_run db v)"
    proof (cases "rn_run_id v \<in> rn_run_id ` N")
      case True
      then obtain n where n: "n \<in> N" "rn_run_id v = rn_run_id n" by blast
      then have "v = n" using current_unique[OF ok(2) v] cur by blast
      then show ?thesis using n by simp
    next
      case False
      then have "v \<notin> N" by blast
      then have "committed db v" using com committed_current[OF v] by blast
      then have "rn_run_id v \<in> rr_run_id ` set (ob_runs db)"
        using revision_run[OF ok(1)] unfolding committed_def by blast
      then obtain w where w: "current_run db w" "rn_run_id w = rn_run_id v" using ok(1) by (auto simp: store_ok_def)
      then have "current_run t w" using kept False by simp
      then have "w = v" using current_unique[OF ok(2) _ v] w(2) by blast
      then show ?thesis using w(1) False by simp
    qed
  next
    assume "v \<in> N \<or> (rn_run_id v \<notin> rn_run_id ` N \<and> current_run db v)"
    then show "current_run t v" using kept cur by blast
  qed
qed

text \<open>One version more of a Run: only its identities may have changed.\<close>

lemma current_rows_after:
  assumes ok: "store_ok db" "store_ok t" and later: "db_later db t" and s: "current_run db s"
    and com: "\<forall>v. committed t v \<longleftrightarrow> v = n \<or> committed db v" and cur: "current_run t n"
    and id: "rn_run_id n = rn_run_id s" and ids: "ids n = ids s \<union> R"
  shows "current_rows t = current_rows db \<union> row_of (rn_run_id s) ` R"
proof -
  have c: "current_run t v \<longleftrightarrow> v = n \<or> (rn_run_id v \<noteq> rn_run_id s \<and> current_run db v)" for v
    using current_after[OF ok later, of "{n}" v] com cur id by auto
  have d: "current_run db v \<longleftrightarrow> v = s \<or> (rn_run_id v \<noteq> rn_run_id s \<and> current_run db v)" for v
    using current_unique[OF ok(1) _ s] s by blast
  let ?C = "{v. rn_run_id v \<noteq> rn_run_id s \<and> current_run db v}"
  have "Collect (current_run t) = insert n ?C" "Collect (current_run db) = insert s ?C"
    using c d by blast+
  then show ?thesis by (simp add: current_rows_def id ids image_Un Un_ac)
qed

subsection \<open>Every transaction keeps the executions registered\<close>

definition book_ok :: "odb \<Rightarrow> bool" where
  "book_ok db \<longleftrightarrow> ledger_ok db \<and> registered db"

definition book_step :: "odb \<Rightarrow> odb \<Rightarrow> bool" where
  "book_step db t \<longleftrightarrow> (book_ok db \<longrightarrow> book_ok t \<and> db_later db t)"

text \<open>Only the active flags of the registered executions change.\<close>

definition rows_kept :: "odb \<Rightarrow> odb \<Rightarrow> bool" where
  "rows_kept db t \<longleftrightarrow> List.map inert (ob_executions t) = List.map inert (ob_executions db)"

lemma book_step_refl [simp]: "book_step db db"
  by (simp add: book_step_def)

lemma book_step_trans: "book_step a b \<Longrightarrow> book_step b c \<Longrightarrow> book_step a c"
  unfolding book_step_def using db_later_trans by blast

interpretation book_step: progress book_step
  by unfold_locales (rule book_step_refl, rule book_step_trans)

interpretation rows_kept: progress rows_kept
  by unfold_locales (simp_all add: rows_kept_def)

lemma rows_kept_refl [simp]: "rows_kept db db"
  by (simp add: rows_kept_def)

lemma rows_ok_inert: "rows_ok (List.map inert rows) = rows_ok rows"
  by (simp add: rows_ok_def inert_def comp_def list_all_iff)

lemma registered_kept:
  assumes "rows_kept db t" and "current_rows t = current_rows db"
  shows "registered t = registered db"
proof -
  have e: "List.map inert (ob_executions t) = List.map inert (ob_executions db)" using assms(1) by (simp add: rows_kept_def)
  have "rows_ok (ob_executions t) = rows_ok (ob_executions db)" using rows_ok_inert e by metis
  moreover have "inert ` set (ob_executions t) = inert ` set (ob_executions db)" using e by (metis set_map)
  ultimately show ?thesis using assms(2) by (simp add: registered_def)
qed

lemma same_base_rows: "same_base db t \<Longrightarrow> current_rows t = current_rows db"
  by (simp add: current_rows_def same_base_current)

lemma kept_step:
  assumes q: "quiet db t" and r: "rows_kept db t"
  shows "book_step db t"
proof -
  have b: "same_base db t" using q by (simp add: quiet_def)
  have "book_ok t = book_ok db"
    using registered_kept[OF r same_base_rows[OF b]] by (simp add: book_ok_def same_base_ledger[OF b])
  then show ?thesis using quiet_later[OF q] by (simp add: book_step_def)
qed

lemma kept_runs: "runs quiet m \<Longrightarrow> runs rows_kept m \<Longrightarrow> runs book_step m"
  unfolding runs_def using kept_step by blast

text \<open>The steps that register nothing.\<close>

lemma kept_fields:
  "rows_kept db (db\<lparr>ob_watches := w\<rparr>)" "rows_kept db (db\<lparr>ob_subscriptions := s\<rparr>)"
  "rows_kept db (db\<lparr>ob_message_sequence := n, ob_outbox := m\<rparr>)" "rows_kept db (db\<lparr>ob_outbox := m\<rparr>)"
  "rows_kept db (db\<lparr>ob_commands := c\<rparr>)" "rows_kept db (db\<lparr>ob_links := l\<rparr>)" "rows_kept db (db\<lparr>ob_runs := r\<rparr>)"
  "rows_kept db (db\<lparr>ob_event_sequence := n, ob_events := e, ob_watermarks := k\<rparr>)"
  by (simp_all add: rows_kept_def)

lemma kept_append_run_event: "runs rows_kept (append_run_event s kind payload)"
  by (rule runsI) (auto simp: append_run_event_def bind_Inr Let_def kept_fields)

lemma kept_write_receipt: "runs rows_kept (write_receipt i c fp s)"
  by (rule runsI) (auto simp: write_receipt_def sql_insert_def kept_fields split: if_splits sum.splits)

lemma kept_insert_messages: "runs rows_kept (insert_messages i c xs)"
  unfolding insert_messages_def
  by (intro rows_kept.rules) (rule runsI, auto simp: insert_message_def bind_Inr Let_def kept_fields split: prod.splits)

lemma kept_advance: "runs rows_kept (advance i n e to)"
  by (rule runsI) (auto simp: advance_def event_high_water_def bind_Inr kept_fields)

lemma kept_advance_subscription: "runs rows_kept (advance_subscription i q)"
  unfolding advance_subscription_def
  by (auto split: option.splits intro!: rows_kept.ret_rule kept_advance)

lemma kept_register_watch: "runs rows_kept (register_watch s k w tg m)"
  by (rule runsI) (auto simp: register_watch_def Let_def bind_Inr kept_fields)

lemma kept_apply_all: "runs rows_kept (apply_all g ops b)"
proof (induction ops arbitrary: b)
  case (Cons op ops)
  have "runs rows_kept (apply_one g op b)"
    by (cases op) (auto simp: apply_one_def intro!: rows_kept.rules kept_register_watch)
  then show ?case using Cons by (auto intro: rows_kept.bind_rule)
qed (simp add: rows_kept.ret_rule)

lemma kept_insert_link: "runs rows_kept (insert_link i j)"
proof (rule runsI)
  fix db u t assume "insert_link i j db = Inr (u, t)"
  then have "t = db\<lparr>ob_links := ob_links db @ [(i, j)]\<rparr>" by (auto simp: insert_link_def bind_Inr)
  then show "rows_kept db t" by (simp add: kept_fields)
qed

lemma kept_mark_delivered: "runs rows_kept (mark_delivered now m)"
  by (rule runsI) (auto simp: mark_delivered_def bind_Inr kept_fields)

lemma kept_tables: "other_tables t = other_tables db \<Longrightarrow> rows_kept db t"
  using other_tables_fields(4)[of t db] by (simp add: rows_kept_def)

lemma keptD: "runs rows_kept m \<Longrightarrow> m db = Inr (a, t) \<Longrightarrow> rows_kept db t"
  by (auto simp: runs_def)

lemma kept_save: "runs rows_kept (save s changes)"
proof -
  have entry: "runs rows_kept (save_entry i n e)" for i n e
    unfolding save_entry_def
    by (intro rows_kept.rules; rule runsI)
      (auto simp: insert_history_def sql_insert_def rows_kept_def inert_activate split: sum.splits if_splits)
  have "runs rows_kept (insert_revision i n)" for i n
    by (rule runsI) (auto simp: insert_revision_def sql_insert_def rows_kept_def split: sum.splits if_splits)
  moreover have "runs rows_kept (modify (\<lambda>db. db\<lparr>ob_runs := f (ob_runs db)\<rparr>))" for f
    by (rule runsI) (auto simp: rows_kept_def)
  ultimately show ?thesis
    unfolding save_def by (intro rows_kept.bind_rule rows_kept.lift_rule rows_kept.ret_rule rows_kept.each_rule entry)
qed

lemma kept_load: "runs rows_kept (load i)" and kept_check: "runs rows_kept (check_decision s n g)"
  and kept_disposed: "runs rows_kept (assert_not_disposed i)"
  by (auto simp: runs_def load_def require_run_def assert_not_disposed_def check_decision_def bind_Inr)

lemma kept_insert_run: "runs rows_kept (insert_run i)"
  by (rule runsI) (auto simp: insert_run_def rows_kept_def)

lemmas kept_parts = kept_save kept_load kept_check kept_disposed kept_insert_run kept_append_run_event kept_write_receipt
  kept_insert_messages kept_advance kept_advance_subscription kept_apply_all kept_insert_link kept_mark_delivered

lemma kept_bodies:
  "runs rows_kept (create_run_body i c fp input dfn)" "runs rows_kept (acknowledge_body i c fp n name e to g)"
  "runs rows_kept (continue_run_body i j c fp n input g)" "runs rows_kept (sync_body x y)"
  "runs rows_kept (mark_delivered now m)"
  unfolding create_run_body_def acknowledge_body_def continue_run_body_def sync_body_def write_observation_def Let_def
  by (intro rows_kept.rules kept_parts)+

lemma kept_delivery_failed: "runs rows_kept (delivery_failed x now m)"
proof -
  have "runs rows_kept (modify (ob_outbox_update g))" for g
    by (rule runsI) (auto simp: rows_kept_def)
  then show ?thesis
    unfolding delivery_failed_def Let_def by (intro rows_kept.rules kept_parts)
qed

lemma book_next:
  assumes ok: "book_ok db" and t: "ledger_ok t" "db_later db t" and s: "current_run db s"
    and com: "\<forall>v. committed t v \<longleftrightarrow> v = n \<or> committed db v" and cur: "current_run t n"
    and id: "rn_run_id n = rn_run_id s" and ids: "ids n = ids s" and rows: "rows_kept db t"
  shows "book_ok t"
proof -
  have st: "store_ok db" "store_ok t" using ok t by (simp_all add: book_ok_def ledger_ok_def)
  have "current_rows t = current_rows db"
    using current_rows_after[OF st t(2) s com cur id, of "{}"] ids by simp
  then show ?thesis using registered_kept[OF rows] ok t(1) by (simp add: book_ok_def)
qed

lemma create_book: "runs book_step (create_run_body i c fp input dfn)"
proof (rule runsI)
  fix db r t assume run: "create_run_body i c fp input dfn db = Inr (r, t)"
  show "book_step db t"
    unfolding book_step_def
  proof
    assume ok: "book_ok db"
    then have l: "ledger_ok db" by (simp add: book_ok_def)
    note c = create_commits[OF l run]
    have st: "store_ok db" "store_ok t" using l c(1) by (simp_all add: ledger_ok_def)
    have fresh: "\<not> run_exists i db" and r: "ids r = {}"
      using run by (auto simp: create_run_body_def Let_def bind_Inr)
    have new: "rn_run_id v \<noteq> i" if "current_run db v" for v
      using find_run[OF st(1) that] fresh by (auto simp: run_exists_def)
    have "current_run t v \<longleftrightarrow> v = r \<or> current_run db v" for v
      using current_after[OF st c(2), of "{r}" v] c(3-5) new by auto
    then have "Collect (current_run t) = insert r (Collect (current_run db))" by blast
    then have "current_rows t = current_rows db" using r by (simp add: current_rows_def)
    then show "book_ok t \<and> db_later db t"
      using registered_kept[OF keptD[OF kept_bodies(1) run]] ok c(1,2) by (simp add: book_ok_def)
  qed
qed

lemma continue_book: "runs book_step (continue_run_body i j c fp n input g)"
proof (rule runsI)
  fix db r t assume run: "continue_run_body i j c fp n input g db = Inr (r, t)"
  show "book_step db t"
    unfolding book_step_def
  proof
    assume ok: "book_ok db"
    then have l: "ledger_ok db" by (simp add: book_ok_def)
    obtain s where s: "current_run db s" "rn_run_id s = i" and r: "rn_run_id r = j" and t: "ledger_ok t" "db_later db t"
      and cur: "current_run t r" "current_run t (s\<lparr>rn_revision := rn_revision s + 1\<rparr>)" and ij: "i \<noteq> j"
      and com: "\<forall>v. committed t v \<longleftrightarrow> v = r \<or> v = s\<lparr>rn_revision := rn_revision s + 1\<rparr> \<or> committed db v"
      by (rule continue_commits[OF l run])
    have st: "store_ok db" "store_ok t" using l t by (simp_all add: ledger_ok_def)
    have fresh: "\<not> run_exists j db" and e: "ids r = {}"
      using run by (auto simp: continue_run_body_def Let_def bind_Inr load_def require_run_def assert_not_disposed_def
          check_decision_def)
    have new: "rn_run_id v \<noteq> j" if "current_run db v" for v
      using find_run[OF st(1) that] fresh by (auto simp: run_exists_def)
    let ?n = "s\<lparr>rn_revision := rn_revision s + 1\<rparr>" and ?C = "{v. rn_run_id v \<noteq> i \<and> current_run db v}"
    have "current_run t v \<longleftrightarrow> v = r \<or> v = ?n \<or> (rn_run_id v \<noteq> i \<and> current_run db v)" for v
      using current_after[OF st t(2), of "{r, ?n}" v] com cur r s(2) new by auto
    then have "Collect (current_run t) = insert r (insert ?n ?C)" by blast
    moreover have "current_run db v \<longleftrightarrow> v = s \<or> (rn_run_id v \<noteq> i \<and> current_run db v)" for v
      using current_unique[OF st(1) _ s(1)] s by metis
    then have "Collect (current_run db) = insert s ?C" by blast
    ultimately have "current_rows t = current_rows db" using e by (simp add: current_rows_def)
    then show "book_ok t \<and> db_later db t"
      using registered_kept[OF keptD[OF kept_bodies(3) run]] ok t by (simp add: book_ok_def)
  qed
qed

lemma sync_book: "runs book_step (sync_body e x)"
proof (rule runsI)
  fix db u t assume run: "sync_body e x db = Inr (u, t)"
  show "book_step db t"
    unfolding book_step_def
  proof
    assume ok: "book_ok db"
    then have l: "ledger_ok db" by (simp add: book_ok_def)
    from l run show "book_ok t \<and> db_later db t"
    proof (cases rule: sync_commits)
      case (written r s k a n)
      have id: "rn_run_id n = rn_run_id s" and ids: "ids n = ids s"
        unfolding written(12) using ids_observed[OF written(5,6,7)]
        by (simp add: observed_run_def with_tasks_def, blast)
      show ?thesis
        using book_next[OF ok written(13,14,3,16,15) id ids keptD[OF kept_bodies(4) run]] written(14) by blast
    qed (use ok in simp)
  qed
qed

lemma acknowledge_book: "runs book_step (acknowledge_body i c fp n name e to g)"
  by (rule kept_runs[OF acknowledge_quiet kept_bodies(2)])

lemma mark_book: "runs book_step (mark_delivered now m)"
  by (rule kept_runs[OF quiet_mark_delivered kept_bodies(5)])

text \<open>A decision registers the attempts it adds.\<close>

lemma decide_book: "runs book_step (decide_body i c fp q ops app)"
proof (rule runsI)
  fix db r t assume run: "decide_body i c fp q ops app db = Inr (r, t)"
  show "book_step db t"
    unfolding book_step_def
  proof
    assume ok: "book_ok db"
    then have l: "ledger_ok db" by (simp add: book_ok_def)
    obtain s where s: "current_run db s" "rn_run_id s = i" and id: "rn_run_id r = i" and t: "ledger_ok t" "db_later db t"
      and cur: "current_run t r" and com: "\<forall>v. committed t v \<longleftrightarrow> v = r \<or> committed db v"
      by (rule decide_commits[OF l run])
    have st: "store_ok db" "store_ok t" using l t by (simp_all add: ledger_ok_def)
    obtain s' b d1 d2 d3 d4 d5 d6 where load: "load i db = Inr (s', db)"
      and adv: "advance_subscription i q db = Inr ((), d1)"
      and batch: "apply_all (rn_generation s') ops \<lparr>bt_run = s', bt_intents = [], bt_registrations = [], bt_changes = []\<rparr> d1 = Inr (b, d2)"
      and reg: "register_executions (case app of None \<Rightarrow> bt_run b | Some v \<Rightarrow> (bt_run b)\<lparr>rn_application_state := v\<rparr>) (bt_registrations b) d2 = Inr ((), d3)"
      and msg: "insert_messages i c (List.map (\<lambda>i. i\<lparr>it_generation := rn_generation s'\<rparr>) (bt_intents b)) d3 = Inr ((), d4)"
      and save: "save r (Some (bt_changes b)) d4 = Inr ((), d5)" and r: "r = decided_run s' b app"
      and event: "append_run_event r ''application.decided'' (decision_dict q ops app) d5 = Inr ((), d6)"
      and receipt: "write_receipt i c fp r d6 = Inr ((), t)"
      using decide_body_Inr[OF run] by metis
    have s': "s' = s" and sok: "run_ok s"
      using load_Inr[OF st(1) load] current_unique[OF st(1) _ s(1)] s(2) by auto
    have good: "good_batch s b" and ids: "batch_ids s b"
      using apply_all_good[OF batch, of s] apply_all_ids[OF batch, of s] sok
      by (simp_all add: s' good_batch_def batch_ids_def no_roots_def)
    let ?R = "reg_ids (bt_registrations b)"
    have rid: "rn_run_id (bt_run b) = i" using good s(2) by (simp add: good_batch_def run_le_def)
    have run_id: "rn_run_id (case app of None \<Rightarrow> bt_run b | Some v \<Rightarrow> (bt_run b)\<lparr>rn_application_state := v\<rparr>) = i"
      using rid by (simp split: option.splits)
    have "rows_kept db d2" using keptD[OF kept_advance_subscription adv] keptD[OF kept_apply_all batch] rows_kept.R_trans by blast
    then have d2: "List.map inert (ob_executions d2) = List.map inert (ob_executions db)" by (simp add: rows_kept_def)
    have rd2: "rows_ok (ob_executions d2)" "inert ` set (ob_executions d2) = current_rows db"
      using ok d2 rows_ok_inert[of "ob_executions d2"] rows_ok_inert[of "ob_executions db"]
      by (simp_all add: book_ok_def registered_def) (metis list.set_map)
    note d3 = register_executions_rows[OF reg rd2(1), unfolded run_id rd2(2)]
    have "rows_kept d3 t"
      using keptD[OF kept_insert_messages msg] keptD[OF kept_save save] keptD[OF kept_append_run_event event]
        keptD[OF kept_write_receipt receipt] rows_kept.R_trans by blast
    then have e: "List.map inert (ob_executions t) = List.map inert (ob_executions d3)" by (simp add: rows_kept_def)
    have "rows_ok (ob_executions t)" using d3 rows_ok_inert e by metis
    moreover have "inert ` set (ob_executions t) = current_rows db \<union> row_of i ` ?R"
      using d3 e by (metis list.set_map)
    moreover have "ids r = ids s \<union> ?R"
      using ids by (simp add: r batch_ids_def decided_run_def split: option.splits)
    then have "current_rows t = current_rows db \<union> row_of i ` ?R"
      using current_rows_after[OF st t(2) s(1) com cur, of ?R] id s(2) by simp
    ultimately show "book_ok t \<and> db_later db t" using t by (simp add: book_ok_def registered_def)
  qed
qed

lemma delivery_failed_book: "runs book_step (delivery_failed detail now m)"
proof (rule runsI)
  fix db u t assume run: "delivery_failed detail now m db = Inr (u, t)"
  note rows = keptD[OF kept_delivery_failed run]
  show "book_step db t"
    unfolding book_step_def
  proof
    assume ok: "book_ok db"
    then have l: "ledger_ok db" by (simp add: book_ok_def)
    from l run show "book_ok t \<and> db_later db t"
    proof (cases rule: delivery_failed_commits)
      case unchanged
      then show ?thesis using kept_step[OF unchanged rows] ok by (simp add: book_step_def)
    next
      case (versioned s)
      show ?thesis
        using book_next[OF ok versioned(3,4,1,6,5) _ _ rows] versioned(4) by simp
    qed
  qed
qed

end
