(* ===== verification/Replays.thy ===== *)
theory Replays
  imports Identities
begin

text \<open>
  The application's requests as a whole: each is carried out once, whatever its outcome the
  database stays well formed, and a request repeated later, under the same command identity,
  returns the state it returned the first time and changes nothing.
\<close>

datatype request =
    Create_Run string string pyval pyval
  | Apply_Operations string string decision_request
  | Acknowledge_Events string string int string int int "int option"
  | Continue_Run string string string int pyval "int option"

fun request_op :: "oconfig \<Rightarrow> request \<Rightarrow> orun dop" where
  "request_op cfg (Create_Run i c v d) = create_run cfg i c v d"
| "request_op cfg (Apply_Operations i c q) = apply_operations cfg i c q"
| "request_op cfg (Acknowledge_Events i c n name e to g) = acknowledge_events cfg i c n name e to g"
| "request_op cfg (Continue_Run i j c n v g) = continue_run cfg i j c n v g"

fun request_key :: "request \<Rightarrow> string \<times> string" where
  "request_key (Create_Run i c v d) = (i, c)"
| "request_key (Apply_Operations i c q) = (i, c)"
| "request_key (Acknowledge_Events i c n name e to g) = (i, c)"
| "request_key (Continue_Run i j c n v g) = (i, c)"

lemma replay_reads: "replay i c fp db = Inr (x, t) \<Longrightarrow> t = db"
  by (auto simp: replay_def receipt_def load_at_def assert_not_disposed_def bind_Inr split: option.splits)

lemma once_book: "runs book_step body \<Longrightarrow> runs book_step (once i c fp body)"
proof -
  assume "runs book_step body"
  moreover have "runs book_step (replay i c fp)" by (rule book_step.same) (rule replay_reads)
  ultimately show ?thesis unfolding once_def by (intro book_step.rules)
qed

lemma request_book: "runs book_step (request_op cfg r)"
proof (cases r)
  case (Create_Run i c v d)
  then show ?thesis by (simp add: create_run_def) (intro book_step.rules once_book create_book)
next
  case (Apply_Operations i c q)
  then show ?thesis by (simp add: apply_operations_def) (intro book_step.rules once_book decide_book)
next
  case (Acknowledge_Events i c n name e to g)
  then show ?thesis by (simp add: acknowledge_events_def) (intro book_step.rules once_book acknowledge_book)
next
  case (Continue_Run i j c n v g)
  then show ?thesis by (simp add: continue_run_def) (intro book_step.rules once_book continue_book)
qed

text \<open>The digest and the body a request comes down to.\<close>

definition carried_out :: "(orun dop) \<Rightarrow> string \<Rightarrow> string \<Rightarrow> string \<Rightarrow> bool" where
  "carried_out body i c fp \<longleftrightarrow> (\<forall>db r t. ledger_ok db \<longrightarrow> body db = Inr (r, t) \<longrightarrow> ledger_ok t \<and>
     find_receipt i c t = Some \<lparr>cr_run = i, cr_command = c, cr_digest = fp,
       cr_response = (rn_run_id r, rn_revision r)\<rparr> \<and> committed t r)"

lemma create_carried: "carried_out (create_run_body i c fp v d) i c fp"
  unfolding carried_out_def using create_commits committed_current by metis

lemma decide_carried: "carried_out (decide_body i c fp q ops app) i c fp"
  unfolding carried_out_def
proof (intro allI impI)
  fix db r t assume l: "ledger_ok db" and run: "decide_body i c fp q ops app db = Inr (r, t)"
  show "ledger_ok t \<and> find_receipt i c t = Some \<lparr>cr_run = i, cr_command = c, cr_digest = fp,
      cr_response = (rn_run_id r, rn_revision r)\<rparr> \<and> committed t r"
    by (rule decide_commits[OF l run]) (simp add: committed_current)
qed

lemma acknowledge_carried: "carried_out (acknowledge_body i c fp n name e to g) i c fp"
  unfolding carried_out_def
proof (intro allI impI)
  fix db r t assume l: "ledger_ok db" and run: "acknowledge_body i c fp n name e to g db = Inr (r, t)"
  have "same_base db t" using quietD[OF acknowledge_quiet run] by (simp add: quiet_def)
  moreover have "committed db r"
    using load_Inr(1)[OF _ acknowledge_receipt(1)[OF run]] l committed_current by (auto simp: ledger_ok_def)
  ultimately show "ledger_ok t \<and> find_receipt i c t = Some \<lparr>cr_run = i, cr_command = c, cr_digest = fp,
      cr_response = (rn_run_id r, rn_revision r)\<rparr> \<and> committed t r"
    using l acknowledge_receipt(2)[OF run] by (simp add: same_base_ledger same_base_committed)
qed

lemma continue_carried: "carried_out (continue_run_body i j c fp n v g) i c fp"
  unfolding carried_out_def
proof (intro allI impI)
  fix db r t assume l: "ledger_ok db" and run: "continue_run_body i j c fp n v g db = Inr (r, t)"
  show "ledger_ok t \<and> find_receipt i c t = Some \<lparr>cr_run = i, cr_command = c, cr_digest = fp,
      cr_response = (rn_run_id r, rn_revision r)\<rparr> \<and> committed t r"
    by (rule continue_commits[OF l run]) (simp add: committed_current)
qed

subsection \<open>Requests and their digests\<close>

fun request_digest :: "oconfig \<Rightarrow> request \<Rightarrow> oerr + string" where
  "request_digest cfg (Create_Run i c v d) = fingerprint cfg (create_request v d)"
| "request_digest cfg (Apply_Operations i c q) =
     rbind (validate_operations (dr_operations q)) (\<lambda>ops.
     rbind (optional_clone (dr_application_state q)) (\<lambda>app. fingerprint cfg (decision_dict q ops app)))"
| "request_digest cfg (Acknowledge_Events i c n name e to g) = fingerprint cfg (acknowledge_dict n name e to g)"
| "request_digest cfg (Continue_Run i j c n v g) = fingerprint cfg (continue_dict j n v g)"

definition request_shape :: "oerr + string \<Rightarrow> string \<times> string \<Rightarrow> orun dop \<Rightarrow> bool" where
  "request_shape digest k m \<longleftrightarrow> (\<exists>e. \<forall>db. m db = Inl e) \<or>
     (\<exists>fp body. digest = Inr fp \<and> (\<forall>db. m db = once (fst k) (snd k) fp body db) \<and> carried_out body (fst k) (snd k) fp)"

lemma shape_check: "request_shape digest k m \<Longrightarrow> request_shape digest k (bind (check b e) (\<lambda>_. m))"
  by (cases b) (auto simp: request_shape_def bind_def check_def)

lemma shape_lift: "(\<And>a. x = Inr a \<Longrightarrow> request_shape digest k (f a)) \<Longrightarrow> request_shape digest k (bind (lift x) f)"
  by (cases x) (auto simp: request_shape_def bind_def lift_def)

lemma shape_once: "digest = Inr fp \<Longrightarrow> carried_out body i c fp \<Longrightarrow> request_shape digest (i, c) (once i c fp body)"
  unfolding request_shape_def by (rule disjI2) auto

text \<open>A request is its checks, its digest, and a body carried out once.\<close>

lemma request_form: "request_shape (request_digest cfg r) (request_key r) (request_op cfg r)"
  by (cases r)
    (simp_all add: create_run_def apply_operations_def acknowledge_events_def continue_run_def,
     (intro shape_check shape_lift shape_once create_carried decide_carried acknowledge_carried continue_carried; simp)+)

text \<open>A version read back is the one that was committed.\<close>

lemma load_at_Inr:
  assumes ok: "store_ok db" and run: "load_at i n db = Inr (s, t)"
  shows "committed db s" and "rn_run_id s = i" and "rn_revision s = n" and "t = db" and "run_ok s"
proof -
  have "(i, n) \<in> set (ob_revisions db)" using run by (auto simp: load_at_def assert_not_disposed_def bind_Inr)
  then obtain v where v: "rn_run_id v = i" "rn_revision v = n" "committed db v" "run_ok v"
    using revision_committed[OF ok] by blast
  then have "s = v" "t = db" using load_at_ok[OF ok v(3)] run by simp_all
  then show "committed db s" "rn_run_id s = i" "rn_revision s = n" "t = db" "run_ok s" using v by simp_all
qed

text \<open>The receipt of a request that was carried out, or that had been before.\<close>

lemma once_receipt:
  assumes l: "ledger_ok db" and body: "carried_out body i c fp" and run: "once i c fp body db = Inr (r, t)"
  shows "find_receipt i c t = Some \<lparr>cr_run = i, cr_command = c, cr_digest = fp, cr_response = (rn_run_id r, rn_revision r)\<rparr> \<and>
    ledger_ok t \<and> committed t r"
proof -
  obtain x d where rep: "replay i c fp db = Inr (x, d)" and rest: "(case x of Some s \<Rightarrow> ret s | None \<Rightarrow> body) d = Inr (r, t)"
    using run by (auto simp: once_def bind_Inr)
  have d: "d = db" by (rule replay_reads[OF rep])
  show ?thesis
  proof (cases x)
    case None
    then show ?thesis using rest d body l unfolding carried_out_def by simp
  next
    case (Some s)
    then have t: "r = s" "t = db" using rest d by simp_all
    obtain q where q: "find_receipt i c db = Some q" "cr_digest q = fp"
      and load: "load_at (fst (cr_response q)) (snd (cr_response q)) db = Inr (s, db)"
      using rep Some by (auto simp: replay_def receipt_def assert_not_disposed_def bind_Inr d split: option.splits)
    have "cr_run q = i" "cr_command q = c" using q(1) sql_find_Some by (fastforce simp: find_receipt_def)+
    moreover have st: "store_ok db" using l by (simp add: ledger_ok_def)
    note v = load_at_Inr[OF st load]
    have "cr_response q = (rn_run_id s, rn_revision s)" using v by (simp add: prod_eq_iff)
    ultimately have "q = \<lparr>cr_run = i, cr_command = c, cr_digest = fp, cr_response = (rn_run_id r, rn_revision r)\<rparr>"
      using q(2) t by (intro command_row.equality) simp_all
    then show ?thesis using q(1) v(1) l t by simp
  qed
qed

text \<open>The same request later returns the same state; another one under its identity is refused.\<close>

lemma once_again:
  assumes l: "ledger_ok db" "ledger_ok t'" and later: "db_later t t'" and body: "carried_out body i c fp"
    and run: "once i c fp body db = Inr (r, t)"
  shows "once i c fp body' t' = Inr (r, t')" and "fp' \<noteq> fp \<Longrightarrow> once i c fp' body' t' = Inl CommandConflict"
proof -
  note t = once_receipt[OF l(1) body run]
  let ?q = "\<lparr>cr_run = i, cr_command = c, cr_digest = fp, cr_response = (rn_run_id r, rn_revision r)\<rparr>"
  have q: "find_receipt i c t' = Some ?q" using receipt_kept[OF later] t by blast
  have st: "store_ok t'" and c: "committed t' r" using l(2) later t by (simp_all add: ledger_ok_def db_later_def)
  have gone: "ob_disposed t' = []" using st by (simp add: store_ok_def)
  have load: "load_at (rn_run_id r) (rn_revision r) t' = Inr (r, t')" by (rule load_at_ok[OF st c])
  show "once i c fp body' t' = Inr (r, t')"
    by (simp add: once_def replay_def assert_not_disposed_def receipt_def bind_def get_def check_def ret_def gone q load)
  show "once i c fp' body' t' = Inl CommandConflict" if "fp' \<noteq> fp"
    using that by (simp add: once_def replay_def assert_not_disposed_def bind_def get_def check_def ret_def gone q)
qed

lemma request_again:
  assumes l: "ledger_ok db" "ledger_ok t'" and later: "db_later t t'" and run: "request_op cfg r db = Inr (s, t)"
  shows "request_op cfg r t' = Inr (s, t')"
    and "request_key r' = request_key r \<Longrightarrow> request_digest cfg r' \<noteq> request_digest cfg r \<Longrightarrow> \<exists>e. request_op cfg r' t' = Inl e"
proof -
  let ?i = "fst (request_key r)" and ?c = "snd (request_key r)"
  obtain fp body where fp: "request_digest cfg r = Inr fp" and once: "\<And>db. request_op cfg r db = once ?i ?c fp body db"
    and carried: "carried_out body ?i ?c fp"
    using request_form[of cfg r] run unfolding request_shape_def by auto
  note again = once_again[OF l later carried run[unfolded once]]
  show "request_op cfg r t' = Inr (s, t')" using again(1) once by simp
  show "\<exists>e. request_op cfg r' t' = Inl e" if k: "request_key r' = request_key r" and d: "request_digest cfg r' \<noteq> request_digest cfg r"
  proof -
    from request_form[of cfg r'] consider e where "\<And>db. request_op cfg r' db = Inl e"
      | fp' body' where "request_digest cfg r' = Inr fp'" "\<And>db. request_op cfg r' db = once ?i ?c fp' body' db"
      unfolding request_shape_def k by blast
    then show ?thesis
    proof cases
      case (2 fp' body')
      then show ?thesis using again(2)[of fp' body'] d fp by auto
    qed blast
  qed
qed

end
