(* ===== verification/Worlds.thy ===== *)
theory Worlds
  imports Replays Histories
begin

text \<open>
  The kernel and the orchestrator together: any sequence of kernel calls, readings,
  requests, synchronisations and delivery records, by any number of processes. What a Run
  records of a dispatched attempt is a snapshot the kernel gave out for the execution
  registered for it.
\<close>

subsection \<open>Snapshots the kernel gave out\<close>

definition seen :: "kernel \<Rightarrow> Snapshots.snapshot \<Rightarrow> bool" where
  "seen k s \<longleftrightarrow> (\<exists>r. snapshot r = Inr s \<and> (\<exists>q \<in> set (execs k). exec_later r q) \<and>
     (terminal (x_state r) \<longrightarrow> r \<in> set (execs k)))"

lemma seen_later:
  assumes s: "seen k s" and ok: "kernel_ok k" "kernel_ok t" and later: "later k t"
  shows "seen t s"
proof -
  obtain r q where r: "snapshot r = Inr s" "q \<in> set (execs k)" "exec_later r q"
    and fin: "terminal (x_state r) \<longrightarrow> r \<in> set (execs k)" using s by (auto simp: seen_def)
  obtain p where "p \<in> set (execs t)" "exec_later q p" using laterD(2)[OF later r(2)] by blast
  then have "\<exists>p \<in> set (execs t). exec_later r p" using exec_later_trans[OF r(3)] by blast
  moreover have "terminal (x_state r) \<longrightarrow> r \<in> set (execs t)" using fin ended_unchanged[OF ok later] by blast
  ultimately show ?thesis using r(1) unfolding seen_def by blast
qed

lemma seen_now: "get_snapshot e k = Inr (s, t) \<Longrightarrow> seen k s \<and> s_execution_id s = e"
proof -
  assume "get_snapshot e k = Inr (s, t)"
  then obtain r where f: "find_exec e k = Some r" and r: "snapshot r = Inr s"
    by (auto simp: get_snapshot_def get_row_def bind_Inr)
  have "r \<in> set (execs k)" "x_id r = e" using f by (auto simp: find_exec_def dest!: sql_find_Some)
  moreover have "s_execution_id s = x_id r" using r by (auto simp: snapshot_def rbind_eq_Inr row_snapshot_def split: if_splits)
  ultimately show ?thesis using r exec_later_refl unfolding seen_def by blast
qed

text \<open>A terminal snapshot that was given out once is what the kernel returns for good.\<close>

lemma seen_terminal:
  assumes s: "seen k s" and ok: "kernel_ok k" and fin: "terminal (s_state s)"
  shows "get_snapshot (s_execution_id s) k = Inr (s, k)"
proof -
  obtain r where r: "snapshot r = Inr s" and t: "terminal (x_state r) \<longrightarrow> r \<in> set (execs k)"
    using s by (auto simp: seen_def)
  have f: "s_execution_id s = x_id r" "s_state s = x_state r"
    using r by (auto simp: snapshot_def rbind_eq_Inr row_snapshot_def split: if_splits)
  then have "find_exec (s_execution_id s) k = Some r" using t fin kernel_find[OF ok] by simp
  then show ?thesis using r by (simp add: get_snapshot_def get_row_def bind_def get_def lift_def)
qed

subsection \<open>Attempts and what was observed of them\<close>

definition fact_of :: "kernel \<Rightarrow> attempt \<Rightarrow> bool" where
  "fact_of k a \<longleftrightarrow> (at_dispatched a \<and> at_kernel_revision a \<noteq> 0 \<longrightarrow>
     (\<exists>x. seen k x \<and> a = observed x a \<and> s_execution_id x = c_execution_id (at_command a) \<and>
        canon_command (s_command x) = canon_command (at_command a)))"

definition attempts_in :: "orun \<Rightarrow> attempt set" where
  "attempts_in s = (\<Union>k. set (attempts_at s k))"

definition facts :: "kernel \<Rightarrow> odb \<Rightarrow> bool" where
  "facts k db \<longleftrightarrow> (\<forall>s. current_run db s \<longrightarrow> (\<forall>a \<in> attempts_in s. fact_of k a))"

text \<open>An attempt that has not been observed carries no fact.\<close>

definition unobserved :: "attempt set" where
  "unobserved = {a. at_dispatched a \<longrightarrow> at_kernel_revision a = 0}"

lemma unobserved_fact: "a \<in> unobserved \<Longrightarrow> fact_of k a"
  by (auto simp: unobserved_def fact_of_def)

lemma fact_later: "fact_of k a \<Longrightarrow> kernel_ok k \<Longrightarrow> kernel_ok t \<Longrightarrow> later k t \<Longrightarrow> fact_of t a"
  unfolding fact_of_def using seen_later by blast

lemma attempts_in_fields [simp]: "attempts_in (s\<lparr>rn_revision := n\<rparr>) = attempts_in s" "attempts_in (s\<lparr>rn_application_state := v\<rparr>) = attempts_in s"
  "attempts_in (s\<lparr>rn_waits := w\<rparr>) = attempts_in s" "attempts_in (s\<lparr>rn_signals := m\<rparr>) = attempts_in s" "attempts_in (s\<lparr>rn_state := e\<rparr>) = attempts_in s"
  by (simp_all add: attempts_in_def attempts_at_def)

lemma attempts_in_upd: "attempts_in (with_tasks (fmupd k u) s) \<subseteq> attempts_in s \<union> set (tk_attempts u)"
  by (auto simp: attempts_in_def attempts_at_upd split: if_splits)

lemma attempts_in_task: "fmlookup (rn_tasks s) k = Some t \<Longrightarrow> set (tk_attempts t) \<subseteq> attempts_in s"
proof -
  assume "fmlookup (rn_tasks s) k = Some t"
  then have "set (tk_attempts t) = set (attempts_at s k)" by simp
  then show ?thesis by (auto simp: attempts_in_def)
qed

lemma attempts_in_current:
  assumes "fmlookup (rn_tasks s) k = Some x"
  shows "attempts_in (with_tasks (fmupd k (set_current x a)) s) \<subseteq> insert a (attempts_in s)"
proof -
  have "set (tk_attempts (set_current x a)) \<subseteq> insert a (set (tk_attempts x))"
    by (auto simp: set_current_def dest: in_set_butlastD)
  then show ?thesis using attempts_in_upd[of k "set_current x a" s] attempts_in_task[OF assms] by blast
qed

lemma new_attempt_unobserved: "new_attempt v = Inr a \<Longrightarrow> a\<lparr>at_generation := g\<rparr> \<in> unobserved \<and> a \<in> unobserved"
  by (auto simp: new_attempt_def rbind_eq_Inr unobserved_def)

lemma reduce_attempts:
  assumes red: "reduce_operation s op = Inr (is, t)" and ok: "run_ok s"
  shows "attempts_in t \<subseteq> attempts_in s \<union> unobserved"
proof (cases op)
  case (Add_Task k c d)
  then obtain ds a where "new_attempt c = Inr a" "t = with_tasks (fmupd k \<lparr>tk_task_id = k, tk_dependencies = ds, tk_attempts = [a]\<rparr>) s"
    using red by (auto simp: reduce_operation_def silent_Inr rbind_eq_Inr add_task_def)
  then show ?thesis using attempts_in_upd[of k "\<lparr>tk_task_id = k, tk_dependencies = ds, tk_attempts = [a]\<rparr>" s] new_attempt_unobserved by auto
next
  case (New_Attempt k c)
  then obtain x where x: "fmlookup (rn_tasks s) k = Some x" and "add_attempt s k x c = Inr t"
    using red by (auto simp: reduce_operation_def silent_Inr on_task_Inr rbind_eq_Inr)
  then obtain a where a: "new_attempt c = Inr a" and t: "t = with_tasks (fmupd k (x\<lparr>tk_attempts := tk_attempts x @ [a]\<rparr>)) s"
    using add_attempt_Inr by blast
  show ?thesis
    unfolding t using attempts_in_upd[of k "x\<lparr>tk_attempts := tk_attempts x @ [a]\<rparr>" s] attempts_in_task[OF x] new_attempt_unobserved[OF a] by auto
next
  case (Set_Dependencies k v)
  then obtain x ds where x: "fmlookup (rn_tasks s) k = Some x" and t: "t = with_tasks (fmupd k (x\<lparr>tk_dependencies := ds\<rparr>)) s"
    using red by (auto simp: reduce_operation_def silent_Inr on_task_Inr rbind_eq_Inr set_dependencies_def)
  show ?thesis unfolding t using attempts_in_upd[of k "x\<lparr>tk_dependencies := ds\<rparr>" s] attempts_in_task[OF x] by auto
next
  case (Dispatch_Task k)
  then obtain x where x: "fmlookup (rn_tasks s) k = Some x" and d: "dispatch_task s k x = Inr (is, t)"
    using red by (auto simp: reduce_operation_def on_task_Inr rbind_eq_Inr)
  have ne: "tk_attempts x \<noteq> []" using run_ok_task[OF ok x] by (simp add: task_ok_def)
  have "state_ok (current_attempt x)" using run_ok_attempt(2)[OF ok x, of "length (tk_attempts x) - 1"] ne by (simp add: last_conv_nth)
  then have new: "current_attempt x\<lparr>at_state := Pending_Dispatch, at_dispatched := True, at_dependency_attempts := v\<rparr> \<in> unobserved"
    if "at_state (current_attempt x) = Planned" for v using that by (simp add: unobserved_def state_ok_def)
  obtain v where "at_state (current_attempt x) = Planned" and t: "t = with_tasks (fmupd k (set_current x
      (current_attempt x\<lparr>at_state := Pending_Dispatch, at_dispatched := True, at_dependency_attempts := v\<rparr>))) s"
    using d by (auto simp: dispatch_task_def Let_def rbind_eq_Inr)
  then show ?thesis unfolding t using attempts_in_current[OF x] new by blast
next
  case (Cancel_Task k r)
  then obtain x where x: "fmlookup (rn_tasks s) k = Some x" and d: "cancel_task s k x r = Inr (is, t)"
    using red by (auto simp: reduce_operation_def on_task_Inr rbind_eq_Inr)
  have ne: "tk_attempts x \<noteq> []" using run_ok_task[OF ok x] by (simp add: task_ok_def)
  have "state_ok (current_attempt x)" using run_ok_attempt(2)[OF ok x, of "length (tk_attempts x) - 1"] ne by (simp add: last_conv_nth)
  then have new: "current_attempt x\<lparr>at_state := Observed Cancelled, at_cancel_reason := Some r\<rparr> \<in> unobserved"
    if "at_state (current_attempt x) = Planned" using that by (simp add: unobserved_def state_ok_def)
  have "t = s \<or> at_state (current_attempt x) = Planned \<and> t = with_tasks (fmupd k (set_current x
      (current_attempt x\<lparr>at_state := Observed Cancelled, at_cancel_reason := Some r\<rparr>))) s"
    using d by (auto simp: cancel_task_def Let_def split: if_splits)
  then show ?thesis using attempts_in_current[OF x] new by blast
qed (use red in \<open>auto simp: reduce_operation_def silent_Inr rbind_eq_Inr open_wait_def release_wait_def
    send_signal_def finish_run_def split: option.splits if_splits\<close>)

lemma apply_reduced_attempts:
  assumes run: "apply_reduced g op b = Inr b'" and ok: "run_ok (bt_run b)"
  shows "attempts_in (bt_run b') \<subseteq> attempts_in (bt_run b) \<union> unobserved"
proof -
  let ?s = "bt_run b"
  obtain "is" t where red: "reduce_operation ?s op = Inr (is, t)"
    and rec: "record_change op g (b\<lparr>bt_run := t, bt_intents := bt_intents b @ is\<rparr>) = Inr b'"
    using run by (auto simp: apply_reduced_def rbind_eq_Inr)
  show ?thesis
  proof (cases "(\<exists>k c d. op = Add_Task k c d) \<or> (\<exists>k c. op = New_Attempt k c)")
    case False
    then have "bt_run b' = t" using rec by (cases op; auto dest!: record_task_old)
    then show ?thesis using reduce_attempts[OF red ok] by simp
  next
    case True
    then show ?thesis
    proof (elim disjE exE)
      fix k c d assume op: "op = Add_Task k c d"
      then obtain ds a where a: "new_attempt c = Inr a"
        and t: "t = with_tasks (fmupd k \<lparr>tk_task_id = k, tk_dependencies = ds, tk_attempts = [a]\<rparr>) ?s"
        using red by (auto simp: reduce_operation_def silent_Inr rbind_eq_Inr add_task_def)
      let ?u = "\<lparr>tk_task_id = k, tk_dependencies = ds, tk_attempts = [a\<lparr>at_generation := g\<rparr>]\<rparr>"
      have "bt_run b' = with_tasks (fmupd k ?u) ?s"
        using record_task_new(1)[of True k g _ b' _ "[]" a] rec by (simp add: op t)
      then show ?thesis using attempts_in_upd[of k ?u ?s] new_attempt_unobserved[OF a] by auto
    next
      fix k c assume op: "op = New_Attempt k c"
      then obtain x where x: "fmlookup (rn_tasks ?s) k = Some x" and "add_attempt ?s k x c = Inr t"
        using red by (auto simp: reduce_operation_def silent_Inr on_task_Inr rbind_eq_Inr)
      then obtain a where a: "new_attempt c = Inr a" and t: "t = with_tasks (fmupd k (x\<lparr>tk_attempts := tk_attempts x @ [a]\<rparr>)) ?s"
        using add_attempt_Inr by blast
      let ?u = "x\<lparr>tk_attempts := tk_attempts x @ [a\<lparr>at_generation := g\<rparr>]\<rparr>"
      have "bt_run b' = with_tasks (fmupd k ?u) ?s"
        using record_task_new(1)[of False k g _ b' _ "tk_attempts x" a] rec by (simp add: op t)
      then show ?thesis
        using attempts_in_upd[of k ?u ?s] attempts_in_task[OF x] new_attempt_unobserved[OF a] by auto
    qed
  qed
qed

lemma apply_all_attempts:
  "apply_all g ops b db = Inr (b', d) \<Longrightarrow> good_batch s b \<Longrightarrow>
     attempts_in (bt_run b') \<subseteq> attempts_in (bt_run b) \<union> unobserved"
proof (induction ops arbitrary: b db)
  case (Cons op ops)
  then obtain c e where one: "apply_one g op b db = Inr (c, e)" and rest: "apply_all g ops c e = Inr (b', d)"
    by (auto simp: bind_Inr)
  have ok: "run_ok (bt_run b)" using Cons.prems(2) by (simp add: good_batch_def)
  have "good_batch s c" and "attempts_in (bt_run c) \<subseteq> attempts_in (bt_run b) \<union> unobserved"
    using one Cons.prems(2) ok
    by (cases op; auto simp: apply_one_def bind_Inr dest: apply_reduced_good apply_reduced_attempts)+
  then show ?case using Cons.IH[OF rest] by blast
qed simp

subsection \<open>Every transaction keeps the facts\<close>

lemma facts_next:
  assumes f: "facts k db" and st: "store_ok db" "store_ok t" and later: "db_later db t"
    and com: "\<forall>v. committed t v \<longleftrightarrow> v = n \<or> committed db v" and cur: "current_run t n"
    and new: "\<forall>a \<in> attempts_in n. fact_of k a"
  shows "facts k t"
  unfolding facts_def
proof (intro allI impI)
  fix v assume "current_run t v"
  then have "v = n \<or> current_run db v" using current_after[OF st later, of "{n}" v] com cur by auto
  then show "\<forall>a \<in> attempts_in v. fact_of k a" using f new unfolding facts_def by blast
qed

lemma facts_quiet: "quiet db t \<Longrightarrow> facts k t = facts k db"
proof -
  assume "quiet db t"
  then have "same_base db t" by (simp add: quiet_def)
  then show ?thesis by (simp add: facts_def same_base_current)
qed

lemma attempts_fresh [simp]: "attempts_in (fresh_run i v d) = {}"
  by (simp add: attempts_in_def attempts_at_def fresh_run_def blank_run_def)

lemma create_facts: "create_run_body i c fp v d db = Inr (r, t) \<Longrightarrow> ledger_ok db \<Longrightarrow> facts k db \<Longrightarrow> facts k t"
proof -
  assume run: "create_run_body i c fp v d db = Inr (r, t)" and l: "ledger_ok db" and f: "facts k db"
  note c = create_commits[OF l run]
  have "attempts_in r = {}" using run by (auto simp: create_run_body_def Let_def bind_Inr)
  then show ?thesis using facts_next[OF f _ _ c(2) _ c(3)] c(1,4) l by (simp add: ledger_ok_def)
qed

lemma decide_facts:
  assumes run: "decide_body i c fp q ops app db = Inr (r, t)" and l: "ledger_ok db" and f: "facts k db"
  shows "facts k t"
proof -
  obtain s where s: "current_run db s" "rn_run_id s = i" and t: "ledger_ok t" "db_later db t"
    and cur: "current_run t r" and com: "\<forall>v. committed t v \<longleftrightarrow> v = r \<or> committed db v"
    by (rule decide_commits[OF l run])
  have st: "store_ok db" "store_ok t" using l t by (simp_all add: ledger_ok_def)
  obtain s' b d1 d2 where load: "load i db = Inr (s', db)"
    and batch: "apply_all (rn_generation s') ops \<lparr>bt_run = s', bt_intents = [], bt_registrations = [], bt_changes = []\<rparr> d1 = Inr (b, d2)"
    and r: "r = decided_run s' b app"
    using decide_body_Inr[OF run] by metis
  have s': "s' = s" and sok: "run_ok s"
    using load_Inr[OF st(1) load] current_unique[OF st(1) _ s(1)] s(2) by auto
  have "attempts_in (bt_run b) \<subseteq> attempts_in s \<union> unobserved"
    using apply_all_attempts[OF batch, of s] sok by (simp add: s' good_batch_def no_roots_def)
  moreover have "attempts_in r = attempts_in (bt_run b)" by (simp add: r decided_run_def split: option.splits)
  ultimately have "\<forall>a \<in> attempts_in r. fact_of k a" using f s(1) unobserved_fact unfolding facts_def by blast
  then show ?thesis by (rule facts_next[OF f st t(2) com cur])
qed

lemma acknowledge_facts: "acknowledge_body i c fp n name e to g db = Inr (r, t) \<Longrightarrow> facts k db \<Longrightarrow> facts k t"
  using quietD[OF acknowledge_quiet] facts_quiet by blast

lemma continue_facts:
  assumes run: "continue_run_body i j c fp n v g db = Inr (r, t)" and l: "ledger_ok db" and f: "facts k db"
  shows "facts k t"
  unfolding facts_def
proof (intro allI impI)
  fix w assume w: "current_run t w"
  obtain s where s: "current_run db s" and t: "ledger_ok t" "db_later db t" "current_run t r"
    "current_run t (s\<lparr>rn_revision := rn_revision s + 1\<rparr>)"
    and com: "\<forall>v. committed t v \<longleftrightarrow> v = r \<or> v = s\<lparr>rn_revision := rn_revision s + 1\<rparr> \<or> committed db v"
    by (rule continue_commits[OF l run])
  have st: "store_ok db" "store_ok t" using l t by (simp_all add: ledger_ok_def)
  have "attempts_in r = {}"
    using run by (auto simp: continue_run_body_def Let_def bind_Inr)
  moreover have "w = r \<or> w = s\<lparr>rn_revision := rn_revision s + 1\<rparr> \<or> current_run db w"
    using current_after[OF st t(2), of "{r, s\<lparr>rn_revision := rn_revision s + 1\<rparr>}" w] com t w by auto
  ultimately show "\<forall>a \<in> attempts_in w. fact_of k a" using f s unfolding facts_def by fastforce
qed

lemma delivery_failed_facts:
  assumes run: "delivery_failed detail now m db = Inr (u, t)" and l: "ledger_ok db" and f: "facts k db"
  shows "facts k t"
  using l run
proof (cases rule: delivery_failed_commits)
  case unchanged
  then show ?thesis using f facts_quiet by blast
next
  case (versioned s)
  have st: "store_ok db" "store_ok t" using l versioned(3) by (simp_all add: ledger_ok_def)
  show ?thesis
    using facts_next[OF f st versioned(4,6,5)] f versioned(1) unfolding facts_def by simp
qed

lemma sync_facts:
  assumes run: "sync_body (s_execution_id x) x db = Inr (u, t)" and b: "book_ok db" and f: "facts k db" and x: "seen k x"
  shows "facts k t"
proof -
  have l: "ledger_ok db" and reg: "registered db" using b by (simp_all add: book_ok_def)
  from l run show ?thesis
  proof (cases rule: sync_commits)
    case same
    then show ?thesis using f by simp
  next
    case (written r s y a n)
    have st: "store_ok db" "store_ok t" using l written(13) by (simp_all add: ledger_ok_def)
    have row: "r \<in> set (ob_executions db)" "xr_execution r = s_execution_id x"
      using written(1) by (auto simp: find_execution_def dest!: sql_find_Some)
    then have "inert r \<in> current_rows db" using reg by (metis registered_def imageI)
    then obtain v z where v: "current_run db v" "z \<in> ids v" "inert r = row_of (rn_run_id v) z"
      by (auto simp: current_rows_def)
    obtain kk i c g where z: "z = (kk, i, c, g)" by (cases z)
    have "xr_run (inert r) = xr_run (row_of (rn_run_id v) z)" "xr_task (inert r) = xr_task (row_of (rn_run_id v) z)"
      "xr_attempt (inert r) = xr_attempt (row_of (rn_run_id v) z)" "xr_command (inert r) = xr_command (row_of (rn_run_id v) z)"
      "xr_execution (inert r) = xr_execution (row_of (rn_run_id v) z)" using v(3) by simp_all
    then have e: "xr_run r = rn_run_id v" "xr_task r = kk" "xr_attempt r = i" "xr_command r = canon_command c"
      "xr_execution r = c_execution_id c" by (simp_all add: inert_def row_of_def z)
    have "v = s" using current_unique[OF st(1) v(1) written(3)] written(4) e(1) by simp
    then have "idents s (xr_task r) ! xr_attempt r = (c, g)" using v(2) e by (simp add: z ids_def)
    then have "at_command a = c" using written(5,6,7) by (simp add: idents_def)
    then have fact: "fact_of k (observed x a)"
      using x row(2) e written(2) by (auto simp: fact_of_def observed_def)
    have "attempts_in n \<subseteq> attempts_in s \<union> {observed x a}"
    proof -
      let ?u = "y\<lparr>tk_attempts := (tk_attempts y)[xr_attempt r := observed x a]\<rparr>"
      have "attempts_in n = attempts_in (with_tasks (fmupd (xr_task r) ?u) s)"
        unfolding written(12) observed_run_def by simp
      moreover have "set (tk_attempts ?u) \<subseteq> attempts_in s \<union> {observed x a}"
        using set_update_subset_insert[of "tk_attempts y" "xr_attempt r" "observed x a"] attempts_in_task[OF written(5)] by auto
      ultimately show ?thesis using attempts_in_upd[of "xr_task r" ?u s] by blast
    qed
    then have "\<forall>a \<in> attempts_in n. fact_of k a" using f written(3) fact unfolding facts_def by blast
    then show ?thesis by (rule facts_next[OF f st written(14,16,15)])
  qed
qed

lemma once_facts:
  assumes run: "once i c fp body db = Inr (r, t)" and f: "facts k db" and body: "\<And>t. body db = Inr (r, t) \<Longrightarrow> facts k t"
  shows "facts k t"
proof -
  obtain x d where "replay i c fp db = Inr (x, d)" and rest: "(case x of Some s \<Rightarrow> ret s | None \<Rightarrow> body) d = Inr (r, t)"
    using run by (auto simp: once_def bind_Inr)
  then have "d = db" using replay_reads by blast
  then show ?thesis using rest f body by (cases x) auto
qed

lemma request_facts:
  assumes run: "request_op cfg r db = Inr (s, t)" and l: "ledger_ok db" and f: "facts k db"
  shows "facts k t"
proof (cases r)
  case (Create_Run i c v d)
  then obtain fp where "once i c fp (create_run_body i c fp v d) db = Inr (s, t)"
    using run by (auto simp: create_run_def bind_Inr)
  then show ?thesis using once_facts[OF _ f] create_facts[OF _ l f] by blast
next
  case (Apply_Operations i c q)
  then obtain fp ops app where "once i c fp (decide_body i c fp q ops app) db = Inr (s, t)"
    using run by (auto simp: apply_operations_def bind_Inr)
  then show ?thesis using once_facts[OF _ f] decide_facts[OF _ l f] by blast
next
  case (Acknowledge_Events i c n name e to g)
  then obtain fp where "once i c fp (acknowledge_body i c fp n name e to g) db = Inr (s, t)"
    using run by (auto simp: acknowledge_events_def bind_Inr)
  then show ?thesis using once_facts[OF _ f] acknowledge_facts[OF _ f] by blast
next
  case (Continue_Run i j c n v g)
  then obtain fp where "once i c fp (continue_run_body i j c fp n v g) db = Inr (s, t)"
    using run by (auto simp: continue_run_def bind_Inr)
  then show ?thesis using once_facts[OF _ f] continue_facts[OF _ l f] by blast
qed

subsection \<open>Histories of the world\<close>

definition empty_world :: world where
  "empty_world = \<lparr>w_kernel = empty_kernel, w_db = empty_odb, w_reads = [], w_ticks = 0\<rparr>"

definition stored :: "'a dop \<Rightarrow> world \<Rightarrow> world" where
  "stored body w = w\<lparr>w_db := snd (commit body (w_db w))\<rparr>"

text \<open>
  The steps of all processes: a call of the kernel by anyone, a reading of the kernel, a
  clock reading, and the orchestrator's transactions. A snapshot is synchronised at any time
  after it was read.
\<close>

inductive world_step :: "oconfig \<Rightarrow> tconfig \<Rightarrow> world \<Rightarrow> world \<Rightarrow> bool" for oc tc where
  kernel_step: "is_float wall \<Longrightarrow> call_ok c \<Longrightarrow>
    world_step oc tc w (w\<lparr>w_kernel := perform (tc_kernel tc) wall c (w_kernel w)\<rparr>)"
| read_step: "get_snapshot e (w_kernel w) = Inr (s, k) \<Longrightarrow> world_step oc tc w (w\<lparr>w_reads := s # w_reads w\<rparr>)"
| clock_step: "world_step oc tc w (w\<lparr>w_ticks := w_ticks w + 1\<rparr>)"
| request_step: "world_step oc tc w (stored (request_op oc r) w)"
| sync_step: "s \<in> set (w_reads w) \<Longrightarrow> world_step oc tc w (stored (sync_body (s_execution_id s) s) w)"
| failed_step: "world_step oc tc w (stored (delivery_failed detail now m) w)"
| delivered_step: "world_step oc tc w (stored (mark_delivered now m) w)"

inductive world_history :: "oconfig \<Rightarrow> tconfig \<Rightarrow> world \<Rightarrow> world \<Rightarrow> bool" for oc tc where
  world_none: "world_history oc tc w w"
| world_call: "world_history oc tc w v \<Longrightarrow> world_step oc tc v u \<Longrightarrow> world_history oc tc w u"

abbreviation world_reachable :: "oconfig \<Rightarrow> tconfig \<Rightarrow> world \<Rightarrow> bool" where
  "world_reachable oc tc \<equiv> world_history oc tc empty_world"

definition world_ok :: "world \<Rightarrow> bool" where
  "world_ok w \<longleftrightarrow> kernel_ok (w_kernel w) \<and> book_ok (w_db w) \<and> facts (w_kernel w) (w_db w) \<and>
     (\<forall>s \<in> set (w_reads w). seen (w_kernel w) s)"

definition world_later :: "world \<Rightarrow> world \<Rightarrow> bool" where
  "world_later w v \<longleftrightarrow> later (w_kernel w) (w_kernel v) \<and> db_later (w_db w) (w_db v)"

lemma stored_ok:
  assumes w: "world_ok w" and b: "runs book_step body"
    and f: "\<And>a t. body (w_db w) = Inr (a, t) \<Longrightarrow> facts (w_kernel w) t"
  shows "world_ok (stored body w) \<and> world_later w (stored body w)"
proof (cases "body (w_db w)")
  case (Inl e)
  then show ?thesis using w by (simp add: stored_def commit_def world_later_def later_refl)
next
  case (Inr p)
  obtain a t where p: "p = (a, t)" by (cases p)
  have "book_step (w_db w) t" using b Inr p by (auto simp: runs_def)
  then have "book_ok t \<and> db_later (w_db w) t" using w by (simp add: book_step_def world_ok_def)
  then show ?thesis using w f Inr p by (simp add: stored_def commit_def world_ok_def world_later_def later_refl)
qed

lemma world_step_ok:
  assumes step: "world_step oc tc w v" and w: "world_ok w" and cfg: "config_ok (tc_kernel tc)"
  shows "world_ok v \<and> world_later w v"
  using step
proof cases
  case (kernel_step wall c)
  have k: "kernel_ok (w_kernel w)" using w by (simp add: world_ok_def)
  let ?k = "perform (tc_kernel tc) wall c (w_kernel w)"
  have "good_step (w_kernel w) ?k" using perform_good kernel_step k cfg by blast
  then have l: "kernel_ok ?k" "later (w_kernel w) ?k" by (simp_all add: good_step_def)
  have "facts ?k (w_db w)" using w fact_later[OF _ k l] unfolding world_ok_def facts_def by blast
  moreover have "\<forall>s \<in> set (w_reads w). seen ?k s" using w seen_later[OF _ k l] unfolding world_ok_def by blast
  ultimately show ?thesis using w l unfolding kernel_step(1) by (simp add: world_ok_def world_later_def)
next
  case (read_step e s k)
  then show ?thesis using w seen_now by (simp add: world_ok_def world_later_def later_refl)
next
  case clock_step
  then show ?thesis using w by (simp add: world_ok_def world_later_def later_refl)
next
  case (request_step r)
  show ?thesis unfolding request_step
    by (rule stored_ok[OF w request_book request_facts]) (use w in \<open>auto simp: world_ok_def book_ok_def\<close>)
next
  case (sync_step s)
  show ?thesis unfolding sync_step(1)
    by (rule stored_ok[OF w sync_book sync_facts]) (use w sync_step(2) in \<open>auto simp: world_ok_def\<close>)
next
  case (failed_step detail now m)
  show ?thesis unfolding failed_step
    by (rule stored_ok[OF w delivery_failed_book delivery_failed_facts]) (use w in \<open>auto simp: world_ok_def book_ok_def\<close>)
next
  case (delivered_step now m)
  have "facts (w_kernel w) t" if "mark_delivered now m (w_db w) = Inr (a, t)" for a t
    using facts_quiet[OF quietD[OF quiet_mark_delivered that]] w by (simp add: world_ok_def)
  then show ?thesis unfolding delivered_step by (rule stored_ok[OF w mark_book])
qed

end
