(* ===== verification/Deliveries.thy ===== *)
theory Deliveries
  imports Worlds
begin

text \<open>
  The orchestrator's own programs on the world: every effect of a synchronisation, a flush or
  a forwarded resolution is a history of steps, so it keeps what every step keeps.
\<close>

lemma world_history_ok:
  "world_history oc tc w v \<Longrightarrow> world_ok w \<Longrightarrow> config_ok (tc_kernel tc) \<Longrightarrow> world_ok v"
  by (induction rule: world_history.induct) (auto dest: world_step_ok)

lemma world_later_refl [simp]: "world_later w w"
  by (simp add: world_later_def later_refl)

lemma world_later_trans: "world_later a b \<Longrightarrow> world_later b c \<Longrightarrow> world_later a c"
  unfolding world_later_def using later_trans db_later_trans by blast

lemma world_history_later:
  "world_history oc tc w v \<Longrightarrow> world_ok w \<Longrightarrow> config_ok (tc_kernel tc) \<Longrightarrow> world_later w v"
proof (induction rule: world_history.induct)
  case (world_call w v u)
  then have "world_ok v" using world_history_ok by blast
  then have "world_later v u" using world_step_ok world_call by blast
  then show ?case using world_call world_later_trans by blast
qed simp

lemma world_history_trans: "world_history oc tc w v \<Longrightarrow> world_history oc tc v u \<Longrightarrow> world_history oc tc w u"
  by (rotate_tac 1, induction rule: world_history.induct) (auto intro: world_history.intros)

lemma world_history_step: "world_step oc tc w v \<Longrightarrow> world_history oc tc w v"
  using world_history.intros by blast

lemma empty_world_ok: "world_ok empty_world"
proof -
  have none: "\<not> current_run empty_odb s" for s by (simp add: current_run_def committed_def empty_odb_def)
  have "\<not> committed empty_odb s" for s by (simp add: committed_def empty_odb_def)
  then have "ledger_ok empty_odb" using store_ok_empty by (simp add: ledger_ok_def chain_def)
  moreover have "registered empty_odb"
    using none by (simp add: registered_def rows_ok_def current_rows_def) (simp add: empty_odb_def)
  ultimately show ?thesis
    using none empty_kernel_ok by (simp add: world_ok_def empty_world_def book_ok_def facts_def)
qed

lemma reachable_world_ok: "world_reachable oc tc w \<Longrightarrow> config_ok (tc_kernel tc) \<Longrightarrow> world_ok w"
  using world_history_ok empty_world_ok by blast

subsection \<open>Programs on the world\<close>

text \<open>
  \<open>walks R m\<close>: whatever its outcome, \<open>m\<close> takes a world to one related to it. The locale has the
  rules for the ways the code puts such programs together, exception handlers included.
\<close>

definition walks :: "(world \<Rightarrow> world \<Rightarrow> bool) \<Rightarrow> 'a wop \<Rightarrow> bool" where
  "walks R m \<longleftrightarrow> (\<forall>w. R w (snd (m w)))"

locale journey =
  fixes R :: "world \<Rightarrow> world \<Rightarrow> bool"
  assumes stay: "R w w" and onwards: "R w v \<Longrightarrow> R v u \<Longrightarrow> R w u"
begin

lemma wret_rule: "walks R (wret a)" and wraise_rule: "walks R (wraise e)" and wcheck_rule: "walks R (wcheck c e)"
  by (simp_all add: walks_def wret_def wraise_def wcheck_def stay)

lemma wbind_rule:
  assumes "walks R m" and "\<And>a w v. m w = (Inr a, v) \<Longrightarrow> walks R (f a)"
  shows "walks R (wbind m f)"
  unfolding walks_def
proof
  fix w
  obtain r v where m: "m w = (r, v)" by (cases "m w")
  then have v: "R w v" using assms(1) by (metis walks_def snd_conv)
  show "R w (snd (wbind m f w))"
  proof (cases r)
    case (Inl e)
    then show ?thesis using m v by (simp add: wbind_def)
  next
    case (Inr a)
    then have "R v (snd (f a v))" using assms(2) m by (simp add: walks_def)
    then show ?thesis using m v Inr onwards by (simp add: wbind_def)
  qed
qed

lemma wcatch_rule:
  assumes "walks R m" and "\<And>e. walks R (h e)"
  shows "walks R (wcatch m h)"
  unfolding walks_def
proof
  fix w
  obtain r v where m: "m w = (r, v)" by (cases "m w")
  then have v: "R w v" using assms(1) by (metis walks_def snd_conv)
  show "R w (snd (wcatch m h w))"
  proof (cases r)
    case (Inl e)
    then show ?thesis using m v onwards[OF v] assms(2)[of e] by (simp add: wcatch_def walks_def)
  next
    case (Inr a)
    then show ?thesis using m v by (simp add: wcatch_def)
  qed
qed

lemma wif_rule: "walks R m \<Longrightarrow> walks R n \<Longrightarrow> walks R (if c then m else n)"
  by simp

lemma wfold_rule: "(\<And>x. x \<in> set xs \<Longrightarrow> walks R (f x)) \<Longrightarrow> walks R (wfold f xs)"
  by (induction xs) (auto intro!: wbind_rule wret_rule)

lemmas wrules = wbind_rule wcatch_rule wret_rule wraise_rule wcheck_rule wif_rule wfold_rule

end

interpretation history: journey "world_history oc tc" for oc tc
  by unfold_locales (rule world_none, rule world_history_trans)

definition tconfig_ok :: "tconfig \<Rightarrow> bool" where
  "tconfig_ok tc \<longleftrightarrow> config_ok (tc_kernel tc) \<and> (\<forall>n. is_float (tc_wall tc n))"

lemma walks_step: "(\<And>w. world_history oc tc w (snd (m w))) \<Longrightarrow> walks (world_history oc tc) m"
  by (simp add: walks_def)

lemma walks_kernel_get: "walks (world_history oc tc) (kernel_get e)"
  by (rule walks_step) (auto simp: kernel_get_def intro: world_none world_history_step read_step split: sum.splits)

lemma walks_clock: "walks (world_history oc tc) (clock_reading tc')"
proof (rule walks_step)
  fix w show "world_history oc tc w (snd (clock_reading tc' w))"
    using world_history_step[OF clock_step[of oc tc w]] by (simp add: clock_reading_def)
qed

lemma walks_database:
  assumes "\<And>w. world_history oc tc w (stored body w)"
  shows "walks (world_history oc tc) (database body)"
proof (rule walks_step)
  fix w
  have "snd (database body w) = stored body w"
    by (cases "commit body (w_db w)") (simp add: database_def stored_def)
  then show "world_history oc tc w (snd (database body w))" using assms by simp
qed

lemma walks_kernel_call:
  assumes tc: "tconfig_ok tc" and c: "call_ok c"
    and f: "\<And>wall k. snd (f wall k) = perform (tc_kernel tc) wall c k"
  shows "walks (world_history oc tc) (kernel_call tc f)"
proof (rule walks_step)
  fix w :: world
  let ?wall = "tc_wall tc (w_ticks w)" and ?k = "w_kernel w"
  have "is_float ?wall" using tc by (simp add: tconfig_ok_def)
  then have s: "world_step oc tc w (w\<lparr>w_kernel := perform (tc_kernel tc) ?wall c ?k\<rparr>)" using c by (rule kernel_step)
  have "snd (kernel_call tc f w) = (w\<lparr>w_kernel := perform (tc_kernel tc) ?wall c ?k\<rparr>)\<lparr>w_ticks := w_ticks w + 1\<rparr>"
    using f[of ?wall ?k] by (cases "f ?wall ?k") (simp add: kernel_call_def)
  moreover have "world_step oc tc (w\<lparr>w_kernel := perform (tc_kernel tc) ?wall c ?k\<rparr>)
      ((w\<lparr>w_kernel := perform (tc_kernel tc) ?wall c ?k\<rparr>)\<lparr>w_ticks := w_ticks w + 1\<rparr>)"
    using clock_step[of oc tc "w\<lparr>w_kernel := perform (tc_kernel tc) ?wall c ?k\<rparr>"] by simp
  ultimately show "world_history oc tc w (snd (kernel_call tc f w))"
    using s world_history.intros by metis
qed

subsection \<open>Synchronising and flushing\<close>

text \<open>A synchronisation writes the snapshot that was just read.\<close>

lemma walks_sync_execution: "walks (world_history oc tc) (sync_execution e)"
proof (rule walks_step)
  fix w
  show "world_history oc tc w (snd (sync_execution e w))"
  proof (cases "get_snapshot e (w_kernel w)")
    case (Inl x)
    then show ?thesis by (simp add: sync_execution_def wbind_def kernel_get_def world_none)
  next
    case (Inr p)
    obtain s k where p: "p = (s, k)" by (cases p)
    let ?w = "w\<lparr>w_reads := s # w_reads w\<rparr>"
    have get: "kernel_get e w = (Inr s, ?w)" using Inr p by (simp add: kernel_get_def)
    have r: "world_step oc tc w ?w" using Inr p by (simp add: read_step)
    have id: "s_execution_id s = e" using seen_now Inr p by blast
    have "world_step oc tc ?w (stored (sync_body (s_execution_id s) s) ?w)" by (rule sync_step) simp
    moreover have "snd (sync_execution e w) = stored (sync_body (s_execution_id s) s) ?w"
      using id by (cases "commit (sync_body e s) (w_db w)"; cases "fst (commit (sync_body e s) (w_db w))")
        (simp_all add: sync_execution_def wbind_def get wcheck_def wret_def database_def stored_def)
    ultimately show ?thesis using r world_history.intros by metis
  qed
qed

lemma walks_sync: "walks (world_history oc tc) sync"
proof -
  have "walks (world_history oc tc) (sync_one e)" for e
    unfolding sync_one_def by (intro history.wrules walks_sync_execution)
  then have "walks (world_history oc tc) (wfold sync_one es)" for es by (intro history.wrules)
  then show ?thesis by (simp add: walks_def sync_def)
qed

lemma delivery_command_ok: "delivery_command i w = (Inr c, v) \<Longrightarrow> command_ok c"
  by (auto simp: delivery_command_def split: sum.splits if_splits option.splits dest: command_from_dict_ok)

lemma walks_send:
  assumes tc: "tconfig_ok tc"
  shows "walks (world_history oc tc) (send tc i)"
proof -
  have get_or: "walks (world_history oc tc) m \<Longrightarrow> walks (world_history oc tc) (get_or e m)" for e m
    unfolding get_or_def by (intro history.wrules walks_kernel_get)
  have check: "walks (world_history oc tc) (check_delivery s c)" for s c
    unfolding check_delivery_def by (intro history.wrules)
  have dispatch: "walks (world_history oc tc) (send_dispatch tc c)" if c: "command_ok c" for c
    unfolding send_dispatch_def
    by (intro history.wrules get_or check walks_kernel_call[OF tc, of "Op_submit c"]) (simp_all add: c)
  have cancel: "walks (world_history oc tc) (cancel_execution tc n c r)" if c: "command_ok c" for n c r
  proof (induction n)
    case 0
    show ?case by (simp add: history.wraise_rule)
  next
    case (Suc n)
    have first: "walks (world_history oc tc) (kernel_call tc (\<lambda>wall. cancel_before_accept (tc_kernel tc) wall c r))"
      by (rule walks_kernel_call[OF tc, of "Op_cancel_before_accept c r"]) (simp_all add: c)
    have again: "walks (world_history oc tc) (kernel_call tc (\<lambda>wall. cancel (tc_kernel tc) wall e None r v))" for e v
      by (rule walks_kernel_call[OF tc, of "Op_cancel e None r v"]) simp_all
    have handler: "walks (world_history oc tc) (case x of
          Kernel_Error CASConflictError \<Rightarrow> cancel_execution tc n c r
        | Kernel_Error StaleFenceError \<Rightarrow> cancel_execution tc n c r
        | Kernel_Error (EffectRecoveryRequiredError _) \<Rightarrow> kernel_get (c_execution_id c)
        | _ \<Rightarrow> wraise x)" for x
      using Suc.IH by (auto split: oerr.splits kerr.splits intro: history.wraise_rule walks_kernel_get)
    show ?case
      unfolding cancel_execution.simps
      by (intro history.wbind_rule history.wcatch_rule history.wif_rule history.wret_rule get_or first check again handler)
  qed
  have walk: "walks (world_history oc tc) (delivery_command i)"
    by (rule walks_step) (auto simp: delivery_command_def world_none split: sum.splits option.splits)
  show ?thesis
    unfolding send_def
  proof (rule history.wbind_rule[OF walk])
    fix c w v assume "delivery_command i w = (Inr c, v)"
    then have c: "command_ok c" by (rule delivery_command_ok)
    show "walks (world_history oc tc) (case it_kind i of
       Dispatch_Intent \<Rightarrow> send_dispatch tc c
     | Cancel_Intent reason \<Rightarrow> cancel_execution tc 8 c reason)"
      using dispatch[OF c] cancel[OF c] by (simp split: intent_kind.splits)
  qed
qed

lemma walks_deliver:
  assumes tc: "tconfig_ok tc"
  shows "walks (world_history oc tc) (deliver tc m)"
proof -
  have failed: "walks (world_history oc tc) (database (delivery_failed d now m))" for d now
    by (rule walks_database) (rule world_history_step, rule failed_step)
  have done': "walks (world_history oc tc) (database (mark_delivered now m))" for now
    by (rule walks_database) (rule world_history_step, rule delivered_step)
  show ?thesis
    unfolding deliver_def deliver_sync_def
    by (intro history.wrules walks_send[OF tc] walks_sync_execution walks_clock failed done')
qed

lemma walks_flush: "tconfig_ok tc \<Longrightarrow> walks (world_history oc tc) (flush tc n)"
proof (rule walks_step)
  fix w assume "tconfig_ok tc"
  then have "walks (world_history oc tc) (wfold (deliver tc) ms)" for ms
    by (intro history.wrules walks_deliver)
  then show "world_history oc tc w (snd (flush tc n w))" by (simp add: flush_def walks_def world_none)
qed

lemma walks_forward_resolution:
  assumes tc: "tconfig_ok tc"
  shows "walks (world_history oc tc) (forward_resolution tc i d v n r)"
proof -
  have "walks (world_history oc tc) (kernel_effect i)"
    by (rule walks_step) (auto simp: kernel_effect_def world_none split: sum.splits)
  moreover have "walks (world_history oc tc) (kernel_call tc (\<lambda>wall. resolve_effect (tc_kernel tc) wall i d v n r))"
    by (rule walks_kernel_call[OF tc, of "Op_resolve_effect i d v n r"]) simp_all
  ultimately show ?thesis
    unfolding forward_resolution_def by (intro history.wrules walks_sync_execution)
qed

end
