(* ===== verification/Abstraction.thy ===== *)
theory Abstraction
  imports Deliveries
begin

text \<open>
  The database of the orchestrator as its client sees it, a map from Runs and revisions to
  states, and the decision of an application as a function on a state: the stored decision
  adds to the map exactly what the function computes.
\<close>

subsection \<open>The map of versions\<close>

definition versions :: "odb \<Rightarrow> string \<times> int \<Rightarrow> orun option" where
  "versions db = (\<lambda>(i, n). case load_at i n db of Inl _ \<Rightarrow> None | Inr (s, _) \<Rightarrow> Some s)"

lemma versions_Some:
  assumes "store_ok db"
  shows "versions db (i, n) = Some s \<longleftrightarrow> committed db s \<and> rn_run_id s = i \<and> rn_revision s = n"
proof
  assume "versions db (i, n) = Some s"
  then obtain t where "load_at i n db = Inr (s, t)" by (auto simp: versions_def split: sum.splits)
  then show "committed db s \<and> rn_run_id s = i \<and> rn_revision s = n" using load_at_Inr[OF assms] by blast
next
  assume "committed db s \<and> rn_run_id s = i \<and> rn_revision s = n"
  then show "versions db (i, n) = Some s" using load_at_ok[OF assms, of s] by (auto simp: versions_def)
qed

lemma versions_run_ok: "store_ok db \<Longrightarrow> versions db (i, n) = Some s \<Longrightarrow> run_ok s"
  using load_at_Inr(5) by (auto simp: versions_def split: sum.splits)

text \<open>The current state is the version of the highest revision, and there are no gaps below it.\<close>

lemma version_current:
  assumes ok: "store_ok db" and v: "versions db (i, n) = Some s"
  obtains c where "current_run db c" "rn_run_id c = i" "versions db (i, rn_revision c) = Some c" "0 \<le> n" "n \<le> rn_revision c"
proof -
  have s: "committed db s" "rn_run_id s = i" "rn_revision s = n" using v versions_Some[OF ok] by blast+
  then have "(i, n) \<in> set (ob_revisions db)" by (simp add: committed_def)
  then obtain q where "q \<in> set (ob_runs db)" "rr_run_id q = i" using ok by (auto simp: store_ok_def revisions_ok_def)
  then obtain c where c: "current_run db c" "rn_run_id c = i" using ok by (auto simp: store_ok_def)
  have "0 \<le> rn_revision s" "rn_revision s \<le> rn_revision c"
    using committed_revision[OF ok c(1) s(1)] s(2) c(2) by simp_all
  then show thesis using that[OF c] versions_Some[OF ok] committed_current[OF c(1)] c(2) s(3) by simp
qed

lemma version_below:
  assumes ok: "store_ok db" and v: "versions db (i, n) = Some s" and m: "0 \<le> m" "m \<le> n"
  shows "\<exists>p. versions db (i, m) = Some p"
proof -
  have "(i, n) \<in> set (ob_revisions db)" using v versions_Some[OF ok] by (auto simp: committed_def)
  then have "(i, m) \<in> set (ob_revisions db)" using ok m unfolding store_ok_def revisions_ok_def by fastforce
  then show ?thesis using revision_committed[OF ok] versions_Some[OF ok] by blast
qed

lemma versions_later:
  assumes "store_ok db" and "store_ok t" and "db_later db t" and "versions db (i, n) = Some s"
  shows "versions t (i, n) = Some s"
  using assms versions_Some by (auto simp: db_later_def)

lemma version_follows:
  assumes l: "ledger_ok db" and s: "versions db (i, n) = Some s" and p: "versions db (i, m) = Some p" and "n \<le> m"
  shows "run_later s p"
proof -
  have ok: "store_ok db" "chain db" using l by (simp_all add: ledger_ok_def)
  have "committed db s" "rn_run_id s = i" "rn_revision s = n" using s versions_Some[OF ok(1), of i n s] by simp_all
  moreover have "committed db p" "rn_run_id p = i" "rn_revision p = m" using p versions_Some[OF ok(1), of i m p] by simp_all
  ultimately show ?thesis using ok(2) assms(4) by (simp add: chain_def)
qed

subsection \<open>A decision as a function\<close>

definition stamp_task :: "int \<Rightarrow> string \<Rightarrow> orun \<Rightarrow> orun" where
  "stamp_task g k s = (case fmlookup (rn_tasks s) k of
     None \<Rightarrow> s | Some t \<Rightarrow> with_tasks (fmupd k (set_generation (length (tk_attempts t) - 1) g t)) s)"

text \<open>A new attempt bears the generation of its Run.\<close>

fun stamped :: "int \<Rightarrow> operation \<Rightarrow> orun \<Rightarrow> orun" where
  "stamped g (Add_Task t c ds) s = stamp_task g t s"
| "stamped g (New_Attempt t c) s = stamp_task g t s"
| "stamped g op s = s"

fun watching :: "operation \<Rightarrow> bool" where
  "watching (Watch_Task t w tgt limit) = True"
| "watching op = False"

fun reduce_all :: "int \<Rightarrow> operation list \<Rightarrow> orun \<Rightarrow> oerr + orun" where
  "reduce_all g [] s = Inr s"
| "reduce_all g (op # ops) s =
     (if watching op then reduce_all g ops s
      else rbind (reduce_operation s op) (\<lambda>(_, t). reduce_all g ops (stamped g op t)))"

definition reduced_decision :: "operation list \<Rightarrow> pyval option \<Rightarrow> orun \<Rightarrow> oerr + orun" where
  "reduced_decision ops app s = rbind (reduce_all (rn_generation s) ops s) (\<lambda>t.
     Inr ((case app of None \<Rightarrow> t | Some v \<Rightarrow> t\<lparr>rn_application_state := v\<rparr>)\<lparr>rn_revision := rn_revision s + 1\<rparr>))"

lemma record_task_stamps:
  "record_task h f k g b = Inr b' \<Longrightarrow> bt_run b' = (if f then stamp_task g k (bt_run b) else bt_run b)"
  by (auto simp: record_task_def stamp_task_def Let_def rbind_eq_Inr split: option.splits)

lemma record_change_stamps: "record_change op g b = Inr b' \<Longrightarrow> bt_run b' = stamped g op (bt_run b)"
  by (cases op) (auto dest: record_task_stamps)

lemma apply_all_reduces: "apply_all g ops b db = Inr (b', t) \<Longrightarrow> reduce_all g ops (bt_run b) = Inr (bt_run b')"
proof (induction ops arbitrary: b db)
  case (Cons op ops)
  obtain c d where one: "apply_one g op b db = Inr (c, d)" and rest: "apply_all g ops c d = Inr (b', t)"
    using Cons.prems by (auto simp: bind_Inr)
  note ih = Cons.IH[OF rest]
  show ?case
  proof (cases "watching op")
    case True
    then have "c = b" using one by (cases op) (auto simp: apply_one_def bind_Inr)
    then show ?thesis using ih True by simp
  next
    case False
    then have "apply_reduced g op b = Inr c" using one by (cases op) (auto simp: apply_one_def)
    then obtain ms s where red: "reduce_operation (bt_run b) op = Inr (ms, s)"
      and rec: "record_change op g (b\<lparr>bt_run := s, bt_intents := bt_intents b @ ms\<rparr>) = Inr c"
      by (auto simp: apply_reduced_def rbind_eq_Inr)
    have "bt_run c = stamped g op s" using record_change_stamps[OF rec] by simp
    then show ?thesis using ih False red by simp
  qed
qed simp

lemma decide_body_decision:
  assumes ok: "ledger_ok db" and run: "decide_body i c fp q ops app db = Inr (r, t)"
  obtains p where "current_run db p" "rn_run_id p = i" "rn_revision p = dr_expected_revision q" "reduced_decision ops app p = Inr r"
    "ledger_ok t" "current_run t r" "\<forall>v. committed t v \<longleftrightarrow> v = r \<or> committed db v" "rn_run_id r = i" "rn_revision r = rn_revision p + 1"
proof -
  have st: "store_ok db" using ok by (simp add: ledger_ok_def)
  obtain s b d1 d2 where load: "load i db = Inr (s, db)"
    and batch: "apply_all (rn_generation s) ops \<lparr>bt_run = s, bt_intents = [], bt_registrations = [], bt_changes = []\<rparr> d1 = Inr (b, d2)"
    and r: "r = decided_run s b app"
    by (rule decide_body_Inr[OF run]) blast
  obtain p where p: "current_run db p" "rn_run_id p = i" "rn_revision p = dr_expected_revision q" "rn_run_id r = i"
    "rn_revision r = rn_revision p + 1" "ledger_ok t" "current_run t r" "\<forall>v. committed t v \<longleftrightarrow> v = r \<or> committed db v"
    by (rule decide_commits[OF ok run]) blast
  have "p = s" using load_ok[OF st p(1)] load p(2) by simp
  then have "reduced_decision ops app p = Inr r" using apply_all_reduces[OF batch] by (simp add: reduced_decision_def r decided_run_def)
  then show thesis using that p by blast
qed

lemma once_first:
  assumes run: "once i c fp body db = Inr (s, t)" and none: "find_receipt i c db = None"
  shows "body db = Inr (s, t)"
proof -
  obtain x d where rep: "replay i c fp db = Inr (x, d)" and rest: "(case x of Some s \<Rightarrow> ret s | None \<Rightarrow> body) d = Inr (s, t)"
    using run unfolding once_def by (rule bindE)
  have d: "d = db" by (rule replay_reads[OF rep])
  obtain u e where "assert_not_disposed i db = Inr (u, e)" and look: "bind (get (find_receipt i c)) (\<lambda>row.
     case row of
       None \<Rightarrow> ret None
     | Some r \<Rightarrow>
         bind (check (cr_digest r = fp) CommandConflict) (\<lambda>_.
         bind (receipt (cr_response r)) (\<lambda>s. ret (Some s)))) e = Inr (x, d)"
    using rep unfolding replay_def by (rule bindE)
  then have "e = db" by (auto simp: assert_not_disposed_def bind_Inr)
  then have "x = None" using look none by (simp add: bind_Inr)
  then show ?thesis using rest d by simp
qed

subsection \<open>Attempts of later versions\<close>

lemma later_attempt:
  assumes later: "run_later s p" and x: "x < length (attempts_at s k)"
  shows "x < length (attempts_at p k)" and "at_command (attempts_at p k ! x) = at_command (attempts_at s k ! x)"
    and "at_dispatched (attempts_at s k ! x) \<Longrightarrow> at_dispatched (attempts_at p k ! x)"
    and "settled_state (at_state (attempts_at s k ! x)) \<Longrightarrow> attempts_at p k ! x = attempts_at s k ! x"
proof -
  obtain t where t: "fmlookup (rn_tasks s) k = Some t" "x < length (tk_attempts t)"
    using x by (auto simp: attempts_at_def split: option.splits)
  then obtain u where u: "fmlookup (rn_tasks p) k = Some u" "attempts_le (tk_attempts t) (tk_attempts u)"
    using later unfolding run_later_def tasks_le_def by blast
  have at: "attempts_at s k = tk_attempts t" "attempts_at p k = tk_attempts u" by (simp_all add: attempts_at_def t u)
  show "x < length (attempts_at p k)" "at_command (attempts_at p k ! x) = at_command (attempts_at s k ! x)"
    "at_dispatched (attempts_at s k ! x) \<Longrightarrow> at_dispatched (attempts_at p k ! x)"
    "settled_state (at_state (attempts_at s k ! x)) \<Longrightarrow> attempts_at p k ! x = attempts_at s k ! x"
    using t(2) u(2) unfolding at attempts_le_def by auto
qed

text \<open>The attempt of a version in the current state of its Run.\<close>

lemma version_attempt:
  assumes ok: "ledger_ok db" and v: "versions db (i, n) = Some s"
  obtains c where "current_run db c" "rn_run_id c = i" "run_ok c" "run_later s c"
proof -
  have st: "store_ok db" using ok by (simp add: ledger_ok_def)
  obtain c where c: "current_run db c" "rn_run_id c = i" "versions db (i, rn_revision c) = Some c" "n \<le> rn_revision c"
    by (rule version_current[OF st v])
  show thesis using that[OF c(1,2) versions_run_ok[OF st c(3)] version_follows[OF ok v c(3,4)]] .
qed

text \<open>The registered row of an attempt.\<close>

lemma attempt_registered:
  assumes ok: "book_ok db" and v: "versions db (i, n) = Some s" and x: "x < length (attempts_at s k)"
  obtains r where "r \<in> set (ob_executions db)" "xr_run r = i" "xr_task r = k" "xr_attempt r = x"
    "xr_execution r = c_execution_id (at_command (attempts_at s k ! x))"
    "xr_key r = c_idempotency_key (at_command (attempts_at s k ! x))"
proof -
  have l: "ledger_ok db" and reg: "inert ` set (ob_executions db) = current_rows db"
    using ok by (simp_all add: book_ok_def registered_def)
  obtain c where c: "current_run db c" "rn_run_id c = i" "run_later s c" by (rule version_attempt[OF l v])
  note later = later_attempt[OF c(3) x]
  let ?a = "attempts_at c k ! x"
  have "(k, x, at_command ?a, at_generation ?a) \<in> ids c" using later(1) by (simp add: ids_def idents_def)
  then have "row_of i (k, x, at_command ?a, at_generation ?a) \<in> current_rows db" using c(1,2) by (auto simp: current_rows_def)
  then obtain r where r: "r \<in> set (ob_executions db)" "inert r = row_of i (k, x, at_command ?a, at_generation ?a)"
    using reg by (metis imageE)
  have "xr_run r = xr_run (inert r)" "xr_task r = xr_task (inert r)" "xr_attempt r = xr_attempt (inert r)"
    "xr_execution r = xr_execution (inert r)" "xr_key r = xr_key (inert r)" by (simp_all add: inert_def)
  then show thesis using that[OF r(1)] later(2) by (simp add: r(2) row_of_def)
qed

lemma same_registered:
  assumes ok: "book_ok db" and r: "r \<in> set (ob_executions db)" "q \<in> set (ob_executions db)"
    and same: "xr_execution r = xr_execution q \<or> xr_key r = xr_key q"
  shows "r = q"
proof -
  have "distinct (List.map xr_execution (ob_executions db))" "distinct (List.map xr_key (ob_executions db))"
    using ok by (simp_all add: book_ok_def registered_def rows_ok_def)
  then have "inj_on xr_execution (set (ob_executions db))" "inj_on xr_key (set (ob_executions db))" by (simp_all add: distinct_map)
  then show ?thesis using r same by (auto dest: inj_onD)
qed

text \<open>A settled attempt that was dispatched bears a terminal snapshot of the kernel.\<close>

lemma settled_attempt_fact:
  assumes w: "world_ok w" and v: "versions (w_db w) (i, n) = Some s" and x: "x < length (attempts_at s k)"
    and a: "a = attempts_at s k ! x" "at_dispatched a" "settled_state (at_state a)"
  obtains q where "seen (w_kernel w) q" "a = observed q a" "terminal (s_state q)"
    "s_execution_id q = c_execution_id (at_command a)" "canon_command (s_command q) = canon_command (at_command a)"
proof -
  have l: "ledger_ok (w_db w)" and f: "facts (w_kernel w) (w_db w)" using w by (simp_all add: world_ok_def book_ok_def)
  obtain c where c: "current_run (w_db w) c" "run_ok c" "run_later s c" by (rule version_attempt[OF l v])
  note later = later_attempt[OF c(3) x]
  have at: "attempts_at c k ! x = a" using later(4) a by simp
  have "attempts_at c k ! x \<in> set (attempts_at c k)" using later(1) by (rule nth_mem)
  then have mem: "a \<in> attempts_in c" using at by (auto simp: attempts_in_def)
  obtain t where t: "fmlookup (rn_tasks c) k = Some t" "x < length (tk_attempts t)" "tk_attempts t ! x = a"
    using later(1) at by (auto simp: attempts_at_def split: option.splits)
  have "state_ok a" using run_ok_attempt(2)[OF c(2) t(1,2)] t(3) by simp
  then have "at_kernel_revision a \<noteq> 0" using a(2,3) by (auto simp: state_ok_def split: attempt_state.splits)
  then obtain q where q: "seen (w_kernel w) q" "a = observed q a" "s_execution_id q = c_execution_id (at_command a)"
    "canon_command (s_command q) = canon_command (at_command a)"
    using f c(1) mem a(2) unfolding facts_def fact_of_def by blast
  have "at_state (observed q a) = Observed (s_state q)" by (simp add: observed_def)
  then have "at_state a = Observed (s_state q)" using arg_cong[OF q(2), of at_state] by simp
  then show thesis using that[OF q(1,2) _ q(3,4)] a(3) by simp
qed

end
