(* ===== verification/Runs.thy ===== *)
theory Runs
  imports Abstraction Example
begin

text \<open>
  The properties of the orchestrator, in every state that the kernel, its workers, the
  application's requests and the orchestrator's own synchronisation and delivery can reach
  together, and a concrete history on which they are applied.
\<close>

subsection \<open>A concrete history\<close>

text \<open>
  A Run is created, one task is added and dispatched, the message is delivered to the kernel,
  a worker claims and completes the execution, and the result is synchronised.
\<close>

definition demo_oc :: oconfig where
  "demo_oc = \<lparr>oc_digest = (\<lambda>v. case v of PDict kvs \<Rightarrow> show_int (int (length kvs)) | _ \<Rightarrow> [])\<rparr>"

definition demo_tc :: tconfig where
  "demo_tc = \<lparr>tc_kernel = example_config, tc_wall = (\<lambda>n. 1), tc_error = (\<lambda>e. PNone)\<rparr>"

definition demo_create :: request where
  "demo_create = Create_Run ''run'' ''c1'' (PInt 1) PNone"

definition demo_request :: decision_request where
  "demo_request = \<lparr>dr_expected_revision = 0,
     dr_operations = [operation_to_dict (Add_Task ''t'' (command_to_dict sample_command) None),
       operation_to_dict (Dispatch_Task ''t'')],
     dr_application_state = Some (PInt 5), dr_subscription = None, dr_expected_cursor = None, dr_advance_to = None,
     dr_expected_generation = None\<rparr>"

definition demo_decision :: request where
  "demo_decision = Apply_Operations ''run'' ''c2'' demo_request"

definition demo_created :: world where
  "demo_created = stored (request_op demo_oc demo_create) empty_world"

definition demo_decided :: world where
  "demo_decided = stored (request_op demo_oc demo_decision) demo_created"

definition demo_result :: exec_result where
  "demo_result = example_result\<lparr>r_effect_ids := [], r_completed_at := 3\<rparr>"

definition demo_row :: exec_row where
  "demo_row = example_row\<lparr>x_state := Succeeded, x_lease_id := None, x_lease_owner := None, x_lease_expires := None,
     x_result := Some demo_result, x_revision := 4, x_updated := 3\<rparr>"

definition demo_kernel :: kernel where
  "demo_kernel = perform example_config 3 (Op_complete example_lease demo_result True Supervisor_Unknown) claimed_kernel"

definition demo_snapshot :: Snapshots.snapshot where
  "demo_snapshot = (case snapshot demo_row of Inl _ \<Rightarrow> sample_snapshot | Inr s \<Rightarrow> s)"

definition demo_settled :: world where
  "demo_settled = stored (sync_body ''e1'' demo_snapshot) (demo_decided\<lparr>w_kernel := demo_kernel, w_reads := [demo_snapshot]\<rparr>)"

lemma demo_tc_ok: "tconfig_ok demo_tc" "config_ok (tc_kernel demo_tc)"
  using example_config_ok is_float_of_int[of 1] by (simp_all add: tconfig_ok_def demo_tc_def)

lemma demo_result_ok: "result_ok demo_result"
  by code_simp

lemma demo_created_reachable: "world_reachable demo_oc demo_tc demo_created"
  unfolding demo_created_def by (rule world_history_step) (rule request_step)

lemma demo_decided_history: "world_history demo_oc demo_tc demo_created demo_decided"
  unfolding demo_decided_def by (rule world_history_step) (rule request_step)

lemma demo_snapshot_read: "get_snapshot ''e1'' demo_kernel = Inr (demo_snapshot, demo_kernel)"
proof -
  have "find_exec ''e1'' demo_kernel = Some demo_row" by code_simp
  moreover have "snapshot demo_row = Inr demo_snapshot" by code_simp
  ultimately show ?thesis by (simp add: get_snapshot_def get_row_def bind_def get_def lift_def)
qed

lemma demo_kernel_history: "world_history demo_oc demo_tc demo_decided (demo_decided\<lparr>w_kernel := demo_kernel\<rparr>)"
proof -
  have k: "w_kernel demo_decided = empty_kernel"
    by (simp add: demo_decided_def demo_created_def stored_def empty_world_def)
  have ok: "call_ok (Op_submit sample_command)" "call_ok example_claim"
    "call_ok (Op_complete example_lease demo_result True Supervisor_Unknown)"
    using demo_result_ok sample_command_ok by (simp_all add: example_claim_def)
  let ?w = "\<lambda>k. demo_decided\<lparr>w_kernel := k\<rparr>" and ?s = "perform example_config 1 (Op_submit sample_command) empty_kernel"
  have t: "tc_kernel demo_tc = example_config" by (simp add: demo_tc_def)
  have step: "world_step demo_oc demo_tc (?w a) (?w (perform example_config wall c a))" if "is_float wall" "call_ok c" for wall c a
    using kernel_step[OF that, of demo_oc demo_tc "?w a"] by (simp add: t)
  have "world_history demo_oc demo_tc (?w empty_kernel) (?w ?s)" by (rule world_history_step[OF step[OF example_times(1) ok(1)]])
  then have "world_history demo_oc demo_tc (?w empty_kernel) (?w claimed_kernel)"
    using world_call[OF _ step[OF example_times(2) ok(2), of ?s]] unfolding claimed_step by blast
  then have "world_history demo_oc demo_tc (?w empty_kernel) (?w demo_kernel)"
    using world_call[OF _ step[OF example_times(3) ok(3), of claimed_kernel]] unfolding demo_kernel_def by blast
  moreover have "?w empty_kernel = demo_decided" using k by simp
  ultimately show ?thesis by simp
qed

lemma demo_settled_history: "world_history demo_oc demo_tc (demo_decided\<lparr>w_kernel := demo_kernel\<rparr>) demo_settled"
proof -
  let ?w = "demo_decided\<lparr>w_kernel := demo_kernel\<rparr>" and ?v = "demo_decided\<lparr>w_kernel := demo_kernel, w_reads := [demo_snapshot]\<rparr>"
  have none: "w_reads demo_decided = []" by (simp add: demo_decided_def demo_created_def stored_def empty_world_def)
  have "world_step demo_oc demo_tc ?w (?w\<lparr>w_reads := demo_snapshot # w_reads ?w\<rparr>)"
    by (rule read_step[of "''e1''" _ _ demo_kernel]) (simp add: demo_snapshot_read)
  then have read: "world_step demo_oc demo_tc ?w ?v" using none by simp
  have "s_execution_id demo_snapshot = ''e1''" using seen_now[OF demo_snapshot_read] by blast
  then have "world_step demo_oc demo_tc ?v demo_settled"
    using sync_step[of demo_snapshot ?v demo_oc demo_tc] by (simp add: demo_settled_def)
  then show ?thesis using world_call[OF world_history_step[OF read]] by blast
qed

lemma demo_settled_later: "world_history demo_oc demo_tc demo_created demo_settled"
  using demo_decided_history demo_kernel_history demo_settled_history world_history_trans by blast

lemma demo_settled_reachable: "world_reachable demo_oc demo_tc demo_settled"
  using demo_created_reachable demo_settled_later world_history_trans by blast

text \<open>What the evaluation of the history gives.\<close>

definition demo_outcome :: bool where
  "demo_outcome \<longleftrightarrow>
     (case versions (w_db demo_settled) (''run'', 2) of
        None \<Rightarrow> False
      | Some s \<Rightarrow> (case attempts_at s ''t'' of
          [a] \<Rightarrow> at_dispatched a \<and> at_state a = Observed Succeeded \<and> at_command a = sample_command
        | _ \<Rightarrow> False))"

lemma demo_outcome_holds: demo_outcome
  by code_simp

lemma demo_version: "\<exists>s a. versions (w_db demo_settled) (''run'', 2) = Some s \<and> attempts_at s ''t'' = [a] \<and>
    at_dispatched a \<and> at_state a = Observed Succeeded \<and> at_command a = sample_command"
  using demo_outcome_holds unfolding demo_outcome_def by (auto split: option.splits list.splits)

definition demo_decides :: bool where
  "demo_decides \<longleftrightarrow> (case request_op demo_oc demo_decision (w_db demo_created) of Inl _ \<Rightarrow> False | Inr _ \<Rightarrow> True)"

lemma demo_request_accepted: "demo_decides"
  by code_simp

lemma demo_create_accepted: "\<not> isl (request_op demo_oc demo_create (w_db empty_world))"
  by code_simp

lemma demo_no_receipt: "find_receipt ''run'' ''c2'' (w_db demo_created) = None"
  by code_simp

subsection \<open>Versions\<close>

text \<open>
  C26. Every version of a Run that can be read, in any reachable state, is well-formed: its
  tasks depend only on tasks it has, without a cycle, every attempt but the last of a task has
  settled, a dispatched attempt was dispatched on settled attempts of its dependencies, and a
  finished Run has nothing unsettled and no open wait. The versions have no gaps, the last is
  the one \<open>load\<close> returns, and each follows the ones before it: attempts and signals are only
  added, a settled attempt and a finished Run never change.
\<close>
theorem versions_well_formed:
  assumes "world_reachable oc tc w" and "config_ok (tc_kernel tc)" and v: "versions (w_db w) (i, n) = Some s"
  shows "run_ok s \<and> rn_run_id s = i \<and> rn_revision s = n \<and> 0 \<le> n \<and>
    (\<exists>c. load i (w_db w) = Inr (c, w_db w) \<and> versions (w_db w) (i, rn_revision c) = Some c \<and> n \<le> rn_revision c) \<and>
    (\<forall>m. 0 \<le> m \<and> m \<le> n \<longrightarrow> (\<exists>p. versions (w_db w) (i, m) = Some p \<and> run_later p s))"
proof -
  have l: "ledger_ok (w_db w)" using reachable_world_ok[OF assms(1,2)] by (simp add: world_ok_def book_ok_def)
  then have st: "store_ok (w_db w)" by (simp add: ledger_ok_def)
  have s: "rn_run_id s = i" "rn_revision s = n" using v versions_Some[OF st, of i n s] by simp_all
  obtain c where c: "current_run (w_db w) c" "rn_run_id c = i" "versions (w_db w) (i, rn_revision c) = Some c" "0 \<le> n" "n \<le> rn_revision c"
    by (rule version_current[OF st v])
  have "load i (w_db w) = Inr (c, w_db w)" using load_ok[OF st c(1)] c(2) by simp
  moreover have "\<exists>p. versions (w_db w) (i, m) = Some p \<and> run_later p s" if "0 \<le> m \<and> m \<le> n" for m
    using version_below[OF st v] version_follows[OF l _ v] that by blast
  ultimately show ?thesis using versions_run_ok[OF st v] s c by blast
qed

theorem versions_well_formed_witness:
  "\<exists>s. versions (w_db demo_settled) (''run'', 2) = Some s \<and> run_ok s \<and>
    (\<exists>p. versions (w_db demo_settled) (''run'', 1) = Some p \<and> run_later p s)"
proof -
  obtain s where "versions (w_db demo_settled) (''run'', 2) = Some s" using demo_version by blast
  with versions_well_formed[OF demo_settled_reachable demo_tc_ok(2) this] show ?thesis by simp
qed



text \<open>
  C28. A stored decision refines the reducer. The first time a decision is accepted, the state
  it returns is the one the reducing function gives for the state of the expected revision;
  to the map of versions it adds exactly this state, under the next revision, which was free;
  and it is the one that is read from then on.
\<close>
theorem decision_refines_reducer:
  assumes w: "world_reachable oc tc w" and cfg: "config_ok (tc_kernel tc)"
    and run: "request_op oc (Apply_Operations i c q) (w_db w) = Inr (s, t)" and first: "find_receipt i c (w_db w) = None"
  shows "\<exists>p ops app. versions (w_db w) (i, dr_expected_revision q) = Some p \<and>
    validate_operations (dr_operations q) = Inr ops \<and> optional_clone (dr_application_state q) = Inr app \<and>
    reduced_decision ops app p = Inr s \<and> versions (w_db w) (i, dr_expected_revision q + 1) = None \<and>
    versions t = (versions (w_db w))((i, dr_expected_revision q + 1) \<mapsto> s) \<and> load i t = Inr (s, t)"
proof -
  have l: "ledger_ok (w_db w)" using reachable_world_ok[OF w cfg] by (simp add: world_ok_def book_ok_def)
  then have st: "store_ok (w_db w)" by (simp add: ledger_ok_def)
  obtain ops app fp where ops: "validate_operations (dr_operations q) = Inr ops" and app: "optional_clone (dr_application_state q) = Inr app"
    and once: "once i c fp (decide_body i c fp q ops app) (w_db w) = Inr (s, t)"
    using run by (auto simp: apply_operations_def bind_Inr)
  have body: "decide_body i c fp q ops app (w_db w) = Inr (s, t)"
    by (rule once_first[OF once first])
  obtain p where p: "current_run (w_db w) p" "rn_run_id p = i" "rn_revision p = dr_expected_revision q" "reduced_decision ops app p = Inr s"
    and t: "ledger_ok t" "current_run t s" "\<forall>v. committed t v \<longleftrightarrow> v = s \<or> committed (w_db w) v" "rn_run_id s = i"
      "rn_revision s = rn_revision p + 1" by (rule decide_body_decision[OF l body])
  have stt: "store_ok t" using t(1) by (simp add: ledger_ok_def)
  have old: "versions (w_db w) (i, dr_expected_revision q) = Some p"
    using versions_Some[OF st] committed_current[OF p(1)] p(2,3) by simp
  have new: "versions (w_db w) (i, dr_expected_revision q + 1) = None"
  proof (cases "versions (w_db w) (i, dr_expected_revision q + 1)")
    case (Some x)
    then have "committed (w_db w) x" "rn_run_id x = rn_run_id p" "rn_revision x = rn_revision p + 1"
      using versions_Some[OF st, of i _ x] p(2,3) by simp_all
    then show ?thesis using committed_revision(2)[OF st p(1)] by fastforce
  qed
  have "versions t k = ((versions (w_db w))((i, dr_expected_revision q + 1) \<mapsto> s)) k" for k
  proof -
    obtain j m where k: "k = (j, m)" by (cases k)
    have "versions t (j, m) = Some x \<longleftrightarrow> ((versions (w_db w))((i, dr_expected_revision q + 1) \<mapsto> s)) (j, m) = Some x" for x
      using versions_Some[OF stt, of j m x] versions_Some[OF st, of j m x] t(3-5) p(3) new by auto
    then show ?thesis unfolding k by (metis not_Some_eq)
  qed
  then have "versions t = (versions (w_db w))((i, dr_expected_revision q + 1) \<mapsto> s)" by blast
  moreover have "load i t = Inr (s, t)" using load_ok[OF stt t(2)] t(4) by simp
  ultimately show ?thesis using old ops app p(4) new by blast
qed

theorem decision_refines_reducer_witness:
  "\<exists>s t p. request_op demo_oc demo_decision (w_db demo_created) = Inr (s, t) \<and>
    versions (w_db demo_created) (''run'', 0) = Some p \<and> versions t = (versions (w_db demo_created))((''run'', 1) \<mapsto> s)"
proof -
  obtain s t where run: "request_op demo_oc demo_decision (w_db demo_created) = Inr (s, t)"
    using demo_request_accepted unfolding demo_decides_def by (auto split: sum.splits)
  have "dr_expected_revision demo_request = 0" by (simp add: demo_request_def)
  with decision_refines_reducer[OF demo_created_reachable demo_tc_ok(2) run[unfolded demo_decision_def] demo_no_receipt]
  show ?thesis using run by auto
qed

subsection \<open>Requests\<close>

text \<open>
  C29. A request is carried out at most once. Repeated at any later time under its command
  identity it returns the very state it returned first and changes nothing; a different
  request under the same identity is refused.
\<close>
theorem request_idempotent:
  assumes w: "world_reachable oc tc w" and cfg: "config_ok (tc_kernel tc)" and run: "request_op oc r (w_db w) = Inr (s, t)"
    and later: "world_history oc tc (stored (request_op oc r) w) v"
  shows "request_op oc r (w_db v) = Inr (s, w_db v) \<and>
    (\<forall>r'. request_key r' = request_key r \<and> request_digest oc r' \<noteq> request_digest oc r \<longrightarrow>
       (\<exists>e. request_op oc r' (w_db v) = Inl e))"
proof -
  note ok = reachable_world_ok[OF w cfg]
  have t: "w_db (stored (request_op oc r) w) = t" using run by (simp add: stored_def commit_def)
  have s: "world_ok (stored (request_op oc r) w)" using world_step_ok[OF request_step ok cfg] by blast
  have "world_ok v" "db_later t (w_db v)"
    using world_history_ok[OF later s cfg] world_history_later[OF later s cfg] t by (simp_all add: world_later_def)
  then have l: "ledger_ok (w_db w)" "ledger_ok (w_db v)" "db_later t (w_db v)" using ok by (simp_all add: world_ok_def book_ok_def)
  show ?thesis using request_again[OF l run] by blast
qed

theorem request_idempotent_witness:
  "\<exists>s. request_op demo_oc demo_create (w_db demo_settled) = Inr (s, w_db demo_settled) \<and>
    (\<exists>e. request_op demo_oc (Continue_Run ''run'' ''next'' ''c1'' 0 PNone None) (w_db demo_settled) = Inl e)"
proof -
  obtain s t where run: "request_op demo_oc demo_create (w_db empty_world) = Inr (s, t)"
    using demo_create_accepted by (cases "request_op demo_oc demo_create (w_db empty_world)") auto
  have "request_digest demo_oc (Continue_Run ''run'' ''next'' ''c1'' 0 PNone None) \<noteq> request_digest demo_oc demo_create"
    "request_key (Continue_Run ''run'' ''next'' ''c1'' 0 PNone None) = request_key demo_create" by code_simp+
  then show ?thesis
    using request_idempotent[OF world_none demo_tc_ok(2) run demo_settled_later[unfolded demo_created_def]] by blast
qed

subsection \<open>Executions\<close>

text \<open>
  C30. An execution belongs to one attempt: in all versions of all Runs, two attempts with the
  same execution id, or the same idempotency key, are the same attempt of the same task of the
  same Run.
\<close>
theorem executions_distinct:
  assumes w: "world_reachable oc tc w" and cfg: "config_ok (tc_kernel tc)"
    and s: "versions (w_db w) (i, n) = Some s" "x < length (attempts_at s k)"
    and p: "versions (w_db w) (j, m) = Some p" "y < length (attempts_at p l)"
    and same: "c_execution_id (at_command (attempts_at s k ! x)) = c_execution_id (at_command (attempts_at p l ! y)) \<or>
      c_idempotency_key (at_command (attempts_at s k ! x)) = c_idempotency_key (at_command (attempts_at p l ! y))"
  shows "(i, k, x) = (j, l, y)"
proof -
  have b: "book_ok (w_db w)" using reachable_world_ok[OF w cfg] by (simp add: world_ok_def)
  obtain r where r: "r \<in> set (ob_executions (w_db w))" "xr_run r = i" "xr_task r = k" "xr_attempt r = x"
    "xr_execution r = c_execution_id (at_command (attempts_at s k ! x))"
    "xr_key r = c_idempotency_key (at_command (attempts_at s k ! x))" by (rule attempt_registered[OF b s])
  obtain q where q: "q \<in> set (ob_executions (w_db w))" "xr_run q = j" "xr_task q = l" "xr_attempt q = y"
    "xr_execution q = c_execution_id (at_command (attempts_at p l ! y))"
    "xr_key q = c_idempotency_key (at_command (attempts_at p l ! y))" by (rule attempt_registered[OF b p])
  have "r = q" by (rule same_registered[OF b r(1) q(1)]) (use same r(5,6) q(5,6) in simp)
  then show ?thesis using r q by simp
qed

theorem executions_distinct_witness:
  "\<exists>s. versions (w_db demo_settled) (''run'', 2) = Some s \<and> attempts_at s ''t'' \<noteq> [] \<and>
    (\<forall>l y. y < length (attempts_at s l) \<and> c_execution_id (at_command (attempts_at s l ! y)) = ''e1'' \<longrightarrow> (l, y) = (''t'', 0))"
proof -
  obtain s a where s: "versions (w_db demo_settled) (''run'', 2) = Some s" "attempts_at s ''t'' = [a]" "at_command a = sample_command"
    using demo_version by blast
  have x: "0 < length (attempts_at s ''t'')" and e: "c_execution_id (at_command (attempts_at s ''t'' ! 0)) = ''e1''"
    using s(2,3) by (simp_all add: sample_command_def)
  have "(''run'', ''t'', 0) = (''run'', l, y)"
    if y: "y < length (attempts_at s l)" and same: "c_execution_id (at_command (attempts_at s l ! y)) = ''e1''" for l y
    by (rule executions_distinct[OF demo_settled_reachable demo_tc_ok(2) s(1) x s(1) y]) (use e same in simp)
  then have "\<forall>l y. y < length (attempts_at s l) \<and> c_execution_id (at_command (attempts_at s l ! y)) = ''e1'' \<longrightarrow> (l, y) = (''t'', 0)"
    by auto
  then show ?thesis using s(1,2) by auto
qed

text \<open>
  C31. A settled outcome is the kernel's, for good: an attempt that was dispatched and has
  settled in some version of a Run carries the terminal snapshot of its own command's
  execution, and this is what the kernel returns for the execution in every later state; the
  attempt itself is the same in every later version of the Run.
\<close>
theorem outcome_final:
  assumes w: "world_reachable oc tc w" and cfg: "config_ok (tc_kernel tc)"
    and s: "versions (w_db w) (i, n) = Some s" "x < length (attempts_at s k)"
    and a: "a = attempts_at s k ! x" "at_dispatched a" "settled_state (at_state a)"
  shows "\<exists>q. a = observed q a \<and> terminal (s_state q) \<and> s_execution_id q = c_execution_id (at_command a) \<and>
    canon_command (s_command q) = canon_command (at_command a) \<and>
    (\<forall>v. world_history oc tc w v \<longrightarrow> get_snapshot (s_execution_id q) (w_kernel v) = Inr (q, w_kernel v) \<and>
      (\<forall>m p. versions (w_db v) (i, m) = Some p \<and> n \<le> m \<longrightarrow> attempts_at p k ! x = a))"
proof -
  note ok = reachable_world_ok[OF w cfg]
  obtain q where q: "seen (w_kernel w) q" "a = observed q a" "terminal (s_state q)"
    "s_execution_id q = c_execution_id (at_command a)" "canon_command (s_command q) = canon_command (at_command a)"
    by (rule settled_attempt_fact[OF ok s a])
  have later: "get_snapshot (s_execution_id q) (w_kernel v) = Inr (q, w_kernel v) \<and>
      (\<forall>m p. versions (w_db v) (i, m) = Some p \<and> n \<le> m \<longrightarrow> attempts_at p k ! x = a)" if v: "world_history oc tc w v" for v
  proof -
    have okv: "world_ok v" and l: "world_later w v" using world_history_ok[OF v ok cfg] world_history_later[OF v ok cfg] by blast+
    have k: "kernel_ok (w_kernel w)" "kernel_ok (w_kernel v)" "later (w_kernel w) (w_kernel v)"
      using ok okv l by (simp_all add: world_ok_def world_later_def)
    have "get_snapshot (s_execution_id q) (w_kernel v) = Inr (q, w_kernel v)"
      by (rule seen_terminal[OF seen_later[OF q(1) k] k(2) q(3)])
    moreover have lv: "ledger_ok (w_db v)" "store_ok (w_db w)" "store_ok (w_db v)" "db_later (w_db w) (w_db v)"
      using ok okv l by (simp_all add: world_ok_def book_ok_def ledger_ok_def world_later_def)
    moreover have "versions (w_db v) (i, n) = Some s" by (rule versions_later[OF lv(2-4) s(1)])
    ultimately show ?thesis using later_attempt(4)[OF version_follows[OF lv(1)] s(2)] a by blast
  qed
  show ?thesis by (rule exI[of _ q]) (use q later in blast)
qed

theorem outcome_final_witness:
  "\<exists>q. s_execution_id q = ''e1'' \<and> terminal (s_state q) \<and> get_snapshot ''e1'' (w_kernel demo_settled) = Inr (q, w_kernel demo_settled)"
proof -
  obtain s a where s: "versions (w_db demo_settled) (''run'', 2) = Some s" "attempts_at s ''t'' = [a]" "at_dispatched a"
    "at_state a = Observed Succeeded" "at_command a = sample_command" using demo_version by blast
  have x: "0 < length (attempts_at s ''t'')" "a = attempts_at s ''t'' ! 0" "settled_state (at_state a)" using s by simp_all
  have e: "c_execution_id (at_command a) = ''e1''" using s(5) by (simp add: sample_command_def)
  from outcome_final[OF demo_settled_reachable demo_tc_ok(2) s(1) x(1,2) s(3) x(3)] show ?thesis
    using e world_none by metis
qed

subsection \<open>Programs\<close>



subsection \<open>Dependencies\<close>

text \<open>The graph after the dependencies of one task have been replaced.\<close>

definition redirected :: "(string, task) fmap \<Rightarrow> string \<Rightarrow> string list \<Rightarrow> (string \<times> string) set" where
  "redirected tasks k ds = {k} \<times> set ds \<union> {e \<in> dep_rel tasks. fst e \<noteq> k}"

lemma path_avoiding: "(v, k) \<in> R\<^sup>* \<Longrightarrow> (v, k) \<in> {e \<in> R. fst e \<noteq> k}\<^sup>*"
proof (induction rule: converse_rtrancl_induct)
  case (step a b)
  then show ?case by (cases "a = k") (auto intro: converse_rtrancl_into_rtrancl)
qed simp

text \<open>
  C33. The search for a cycle decides acyclicity: given a well-formed acyclic graph of tasks,
  a list of dependencies is accepted for a task exactly when it names known tasks, each once,
  and the graph in which they replace the task's dependencies is still acyclic.
\<close>
theorem dependencies_keep_acyclic:
  assumes "deps_known tasks" and "acyclic (dep_rel tasks)"
  shows "dependencies tasks k values = Inr ds \<longleftrightarrow>
    values = PList (List.map PStr ds) \<and> distinct ds \<and> set ds \<subseteq> fmdom' tasks \<and> acyclic (redirected tasks k ds)"
proof -
  let ?R = "{e \<in> dep_rel tasks. fst e \<noteq> k}"
  have sub: "acyclic ?R" by (rule acyclic_subset[OF assms(2)]) blast
  have "(\<forall>v \<in> set ds. (v, k) \<notin> (dep_rel tasks)\<^sup>*) \<longleftrightarrow> acyclic (redirected tasks k ds)"
  proof
    assume "\<forall>v \<in> set ds. (v, k) \<notin> (dep_rel tasks)\<^sup>*"
    then have "\<forall>v \<in> set ds. (v, k) \<notin> ?R\<^sup>*" using rtrancl_mono[of ?R "dep_rel tasks"] by blast
    then show "acyclic (redirected tasks k ds)" using acyclic_new[OF _ sub, of "set ds" k] by (simp add: redirected_def Un_commute)
  next
    assume a: "acyclic (redirected tasks k ds)"
    show "\<forall>v \<in> set ds. (v, k) \<notin> (dep_rel tasks)\<^sup>*"
    proof (intro ballI notI)
      fix v assume v: "v \<in> set ds" and "(v, k) \<in> (dep_rel tasks)\<^sup>*"
      then have "(v, k) \<in> ?R\<^sup>*" by (intro path_avoiding)
      then have "(v, k) \<in> (redirected tasks k ds)\<^sup>*" using rtrancl_mono[of ?R "redirected tasks k ds"] unfolding redirected_def by blast
      moreover have "(k, v) \<in> redirected tasks k ds" using v by (simp add: redirected_def)
      ultimately have "(k, k) \<in> (redirected tasks k ds)\<^sup>+" by (rule rtrancl_into_trancl2[rotated])
      then show False using a by (simp add: acyclic_def)
    qed
  qed
  then show ?thesis using dependencies_Inr[OF assms(1)] by simp
qed

definition demo_task :: "string \<Rightarrow> string list \<Rightarrow> task" where
  "demo_task k ds = \<lparr>tk_task_id = k, tk_dependencies = ds, tk_attempts = []\<rparr>"

definition demo_tasks :: "(string, task) fmap" where
  "demo_tasks = fmupd ''a'' (demo_task ''a'' [''b'']) (fmupd ''b'' (demo_task ''b'' []) fmempty)"

lemma demo_tasks_lookup: "fmlookup demo_tasks k = Some t \<longleftrightarrow>
    k = ''a'' \<and> t = demo_task ''a'' [''b''] \<or> k = ''b'' \<and> t = demo_task ''b'' []"
  by (auto simp: demo_tasks_def)

lemma demo_tasks_graph: "dep_rel demo_tasks = {(''a'', ''b'')}" "fmdom' demo_tasks = {''a'', ''b''}"
  by (auto simp: dep_rel_def demo_tasks_lookup demo_task_def fmdom_lookup)

theorem dependencies_keep_acyclic_witness:
  "dependencies demo_tasks ''b'' (PList [PStr ''a'']) \<noteq> Inr [''a''] \<and> \<not> acyclic (redirected demo_tasks ''b'' [''a''])"
proof -
  have "deps_known demo_tasks" by (auto simp: deps_known_def demo_tasks_lookup demo_tasks_graph demo_task_def)
  moreover have "acyclic (dep_rel demo_tasks)" unfolding demo_tasks_graph acyclic_insert by (simp add: acyclic_def)
  ultimately have ok: "deps_known demo_tasks" "acyclic (dep_rel demo_tasks)" .
  have "(''b'', ''a'') \<in> redirected demo_tasks ''b'' [''a'']" "(''a'', ''b'') \<in> redirected demo_tasks ''b'' [''a'']"
    by (simp_all add: redirected_def demo_tasks_graph)
  then have "(''b'', ''b'') \<in> (redirected demo_tasks ''b'' [''a''])\<^sup>+" by (rule trancl_into_trancl2[OF _ r_into_trancl])
  then have "\<not> acyclic (redirected demo_tasks ''b'' [''a''])" by (auto simp: acyclic_def)
  then show ?thesis using dependencies_keep_acyclic[OF ok, of "''b''" "PList [PStr ''a'']" "[''a'']"] by simp
qed

end
