(* ===== verification/Inbox.thy ===== *)
theory Inbox
  imports RunStore
begin

text \<open>
  The notification inbox (\<open>orchestrator/inbox.py\<close>): notifications are accepted once per source
  and identity, claimed under leases with fences, and consumed together with the
  application's own changes, or failed and retried up to a bound.

  The application's tables share the database: they are a component \<open>ib_app\<close> of a type of its
  own, and the mutation an application passes is a parameter, a function of the payload, the
  rows it may read and its tables; \<open>None\<close> is an exception. The authorizer of the code keeps it
  from writing the inbox. A clock reading is an argument of the operation that takes it. The
  \<open>to_dict\<close> of payload objects, the schema and the read-only advice of \<open>_delivery_ready\<close> on
  its own connection are not modelled.
\<close>

subsection \<open>Data\<close>

datatype inbox_error = Inbox_Value | Inbox_Stale | Inbox_Conflict | Inbox_Missing | Inbox_Mutation

datatype inbox_state = Inbox_Pending | Inbox_Processing | Inbox_Consumed | Inbox_Dead

record inbox_row =
  ix_source :: string
  ix_notification :: string
  ix_payload :: pyval
  ix_state :: inbox_state
  ix_attempts :: int
  ix_max_attempts :: int
  ix_lease :: "string option"
  ix_owner :: "string option"
  ix_fence :: int
  ix_expires :: "rat option"
  ix_next_attempt :: rat
  ix_last_error :: "pyval option"
  ix_settlement :: "pyval option"
  ix_revision :: int
  ix_created :: rat
  ix_updated :: rat

record inbox_lease =
  il_source :: string
  il_notification :: string
  il_lease :: string
  il_owner :: string
  il_fence :: int
  il_expires :: rat
  il_attempt :: int
  il_payload :: pyval

record 'app inbox =
  ib_rows :: "inbox_row list"
  ib_clock :: rat
  ib_uuids :: nat
  ib_app :: 'app

type_synonym 'app mutation = "pyval \<Rightarrow> inbox_row list \<Rightarrow> 'app \<Rightarrow> 'app option"

text \<open>An exception carries the clock, which its rollback keeps.\<close>

type_synonym ('app, 'a) iop = "('app inbox, inbox_error \<times> rat, 'a) op"

definition iraise :: "inbox_error \<Rightarrow> ('app, 'a) iop" where
  "iraise e = bind (get ib_clock) (\<lambda>t. raise (e, t))"

definition icheck :: "bool \<Rightarrow> inbox_error \<Rightarrow> ('app, unit) iop" where
  "icheck c e = bind (get ib_clock) (\<lambda>t. check c (e, t))"

definition ilift :: "inbox_error \<Rightarrow> 'e + 'a \<Rightarrow> ('app, 'a) iop" where
  "ilift e r = bind (get ib_clock) (\<lambda>t. lift (case r of Inl _ \<Rightarrow> Inl (e, t) | Inr a \<Rightarrow> Inr a))"

subsection \<open>Transactions\<close>

text \<open>\<open>now()\<close>: the clock never goes back.\<close>

definition inbox_now :: "rat \<Rightarrow> ('app, rat) iop" where
  "inbox_now reading =
     bind (ilift Inbox_Value (check_number (PFin reading) 0)) (\<lambda>r.
     bind (modify (\<lambda>b. b\<lparr>ib_clock := max (ib_clock b) r\<rparr>)) (\<lambda>_. get ib_clock))"

text \<open>
  A failed body rolls back to the savepoint, with the clock it had observed; a failure of the
  first reading rolls back everything.
\<close>

definition inbox_transaction :: "rat \<Rightarrow> ('app, 'a) iop \<Rightarrow> 'app inbox \<Rightarrow> (inbox_error + 'a) \<times> 'app inbox" where
  "inbox_transaction reading body b =
     (case inbox_now reading b of
        Inl (e, t) \<Rightarrow> (Inl e, b)
      | Inr (_, c) \<Rightarrow>
          (case body c of
             Inl (e, t) \<Rightarrow> (Inl e, c\<lparr>ib_clock := t\<rparr>)
           | Inr (a, d) \<Rightarrow> (Inr a, d)))"

text \<open>\<open>_future\<close>.\<close>

definition inbox_future :: "rat \<Rightarrow> rat \<Rightarrow> ('app, rat) iop" where
  "inbox_future now delay = ilift Inbox_Value
     (case fadd now delay of
        None \<Rightarrow> Inl ()
      | Some r \<Rightarrow> if 0 < delay \<and> r \<le> now then Inl () else Inr r)"

definition inbox_key :: "inbox_row \<Rightarrow> string \<times> string" where
  "inbox_key r = (ix_source r, ix_notification r)"

definition find_message :: "string \<times> string \<Rightarrow> 'app inbox \<Rightarrow> inbox_row option" where
  "find_message k b = sql_find inbox_key k (ib_rows b)"

definition inbox_message :: "string \<Rightarrow> string \<Rightarrow> ('app, inbox_row) iop" where
  "inbox_message source notification =
     bind (get (find_message (source, notification))) (\<lambda>r. ilift Inbox_Missing (expect r ()))"

text \<open>\<open>_record\<close>: the row without its settlement, the payload with a generation.\<close>

definition inbox_record :: "inbox_row \<Rightarrow> inbox_row" where
  "inbox_record r = r\<lparr>ix_payload := with_generation 0 (ix_payload r), ix_settlement := None\<rparr>"

definition write_message :: "string \<times> string \<Rightarrow> (inbox_row \<Rightarrow> inbox_row) \<Rightarrow> ('app, unit) iop" where
  "write_message k f = modify (\<lambda>b. b\<lparr>ib_rows :=
     List.map (\<lambda>r. if inbox_key r = k then f r else r) (ib_rows b)\<rparr>)"

definition lease_holds :: "inbox_row \<Rightarrow> inbox_lease \<Rightarrow> bool" where
  "lease_holds r l \<longleftrightarrow> (ix_lease r, ix_owner r, ix_fence r) = (Some (il_lease l), Some (il_owner l), il_fence l)"

definition lease_named :: "inbox_lease \<Rightarrow> bool" where
  "lease_named l \<longleftrightarrow> nonblank (il_source l) \<and> nonblank (il_notification l) \<and> nonblank (il_lease l) \<and>
     nonblank (il_owner l) \<and> 1 \<le> il_fence l"

text \<open>\<open>_active\<close>: the lease is the current one and has not expired.\<close>

definition active_message :: "inbox_lease \<Rightarrow> rat \<Rightarrow> ('app, inbox_row) iop" where
  "active_message l now =
     bind (inbox_message (il_source l) (il_notification l)) (\<lambda>r.
     bind (icheck (lease_holds r l \<and> ix_state r = Inbox_Processing \<and>
       (case ix_expires r of None \<Rightarrow> False | Some e \<Rightarrow> now < e)) Inbox_Stale) (\<lambda>_. ret r))"

subsection \<open>Accepting\<close>

definition embedded_identity :: "pyval \<Rightarrow> pyval option" where
  "embedded_identity v = (case v of PDict kvs \<Rightarrow> map_of kvs (PStr ''notification_id'') | _ \<Rightarrow> None)"

definition accepted_identity :: "pyval \<Rightarrow> string option \<Rightarrow> inbox_error + string" where
  "accepted_identity v notification =
     (case notification of
        None \<Rightarrow> (case embedded_identity v of
            Some (PStr n) \<Rightarrow> if nonblank n then Inr n else Inl Inbox_Value | _ \<Rightarrow> Inl Inbox_Value)
      | Some n \<Rightarrow>
          if embedded_identity v \<noteq> None \<and> embedded_identity v \<noteq> Some (PStr n) then Inl Inbox_Value
          else if nonblank n then Inr n else Inl Inbox_Value)"

definition insert_notification :: "inbox_row \<Rightarrow> ('app, unit) iop" where
  "insert_notification r =
     bind (get ib_rows) (\<lambda>rows.
     bind (ilift Inbox_Value (sql_insert () inbox_key r rows)) (\<lambda>rows. modify (\<lambda>b. b\<lparr>ib_rows := rows\<rparr>)))"

definition new_message :: "string \<Rightarrow> string \<Rightarrow> pyval \<Rightarrow> int \<Rightarrow> rat \<Rightarrow> inbox_row" where
  "new_message source notification payload limit now = \<lparr>ix_source = source, ix_notification = notification,
     ix_payload = payload, ix_state = Inbox_Pending, ix_attempts = 0, ix_max_attempts = limit, ix_lease = None,
     ix_owner = None, ix_fence = 0, ix_expires = None, ix_next_attempt = now, ix_last_error = None,
     ix_settlement = None, ix_revision = 1, ix_created = now, ix_updated = now\<rparr>"

text \<open>The part of an operation after its reading of the clock has the suffix \<open>_at\<close>.\<close>

definition accept_at :: "string \<Rightarrow> string \<Rightarrow> pyval \<Rightarrow> int \<Rightarrow> rat \<Rightarrow> ('app, inbox_row) iop" where
  "accept_at source notification payload limit now =
     bind (get (find_message (source, notification))) (\<lambda>found.
     case found of
       Some r \<Rightarrow> bind (icheck (ix_payload r = payload) Inbox_Conflict) (\<lambda>_. ret (inbox_record r))
     | None \<Rightarrow>
         bind (insert_notification (new_message source notification payload limit now)) (\<lambda>_.
         bind (inbox_message source notification) (\<lambda>r. ret (inbox_record r))))"

definition accept_body :: "string \<Rightarrow> string \<Rightarrow> pyval \<Rightarrow> int \<Rightarrow> rat \<Rightarrow> ('app, inbox_row) iop" where
  "accept_body source notification payload limit reading =
     bind (inbox_now reading) (accept_at source notification payload limit)"

definition inbox_accept ::
  "rat \<Rightarrow> rat \<Rightarrow> string \<Rightarrow> pyval \<Rightarrow> string option \<Rightarrow> int \<Rightarrow> 'app inbox \<Rightarrow> (inbox_error + inbox_row) \<times> 'app inbox" where
  "inbox_accept start reading source payload notification limit b =
     (if \<not> nonblank source \<or> limit < 1 then (Inl Inbox_Value, b)
      else case accepted_identity payload notification of
        Inl e \<Rightarrow> (Inl e, b)
      | Inr n \<Rightarrow>
          (case clone payload of
             Inl _ \<Rightarrow> (Inl Inbox_Value, b)
           | Inr v \<Rightarrow> inbox_transaction start (accept_body source n v limit reading) b))"

subsection \<open>Claiming\<close>

definition lease_expired_error :: pyval where
  "lease_expired_error = canon (py_dict [(''type'', PStr ''LeaseExpired''),
     (''message'', PStr ''inbox processing lease expired'')])"

definition processing_expired :: "rat \<Rightarrow> inbox_row \<Rightarrow> bool" where
  "processing_expired now r \<longleftrightarrow> ix_state r = Inbox_Processing \<and>
     (case ix_expires r of None \<Rightarrow> False | Some e \<Rightarrow> e \<le> now)"

definition expire_row :: "rat \<Rightarrow> inbox_row \<Rightarrow> inbox_row" where
  "expire_row now r = r\<lparr>ix_state := (if ix_max_attempts r \<le> ix_attempts r then Inbox_Dead else Inbox_Pending),
     ix_expires := None, ix_next_attempt := now, ix_last_error := Some lease_expired_error,
     ix_settlement := None, ix_revision := ix_revision r + 1, ix_updated := now\<rparr>"

definition expire_processing :: "rat \<Rightarrow> ('app, unit) iop" where
  "expire_processing now = modify (\<lambda>b. b\<lparr>ib_rows :=
     List.map (\<lambda>r. if processing_expired now r then expire_row now r else r) (ib_rows b)\<rparr>)"

definition claimable_message :: "rat \<Rightarrow> string option \<Rightarrow> inbox_row \<Rightarrow> bool" where
  "claimable_message now source r \<longleftrightarrow> ix_state r = Inbox_Pending \<and> ix_next_attempt r \<le> now \<and>
     (case source of None \<Rightarrow> True | Some s \<Rightarrow> ix_source r = s)"

definition message_order :: "inbox_row \<Rightarrow> rat \<times> string \<times> string" where
  "message_order r = (ix_created r, ix_source r, ix_notification r)"

definition inbox_uuid :: "(nat \<Rightarrow> string) \<Rightarrow> ('app, string) iop" where
  "inbox_uuid hexes = bind (get ib_uuids) (\<lambda>n. bind (modify (\<lambda>b. b\<lparr>ib_uuids := n + 1\<rparr>)) (\<lambda>_. ret (hexes n)))"

definition claim_row_of :: "string \<Rightarrow> string \<Rightarrow> rat \<Rightarrow> rat \<Rightarrow> inbox_row \<Rightarrow> inbox_row" where
  "claim_row_of lease owner expiry now r = r\<lparr>ix_state := Inbox_Processing, ix_attempts := ix_attempts r + 1,
     ix_fence := ix_fence r + 1, ix_lease := Some lease, ix_owner := Some owner, ix_expires := Some expiry,
     ix_settlement := None, ix_revision := ix_revision r + 1, ix_updated := now\<rparr>"

definition grant_lease ::
  "(nat \<Rightarrow> string) \<Rightarrow> string \<Rightarrow> rat \<Rightarrow> rat \<Rightarrow> inbox_row \<Rightarrow> ('app, inbox_lease) iop" where
  "grant_lease hexes owner expiry now r =
     bind (inbox_uuid hexes) (\<lambda>lease.
     bind (write_message (inbox_key r) (claim_row_of lease owner expiry now)) (\<lambda>_.
     ret \<lparr>il_source = ix_source r, il_notification = ix_notification r, il_lease = lease,
       il_owner = owner, il_fence = ix_fence r + 1, il_expires = expiry,
       il_attempt = ix_attempts r + 1, il_payload = ix_payload r\<rparr>))"

definition claim_at ::
  "(nat \<Rightarrow> string) \<Rightarrow> string \<Rightarrow> string option \<Rightarrow> rat \<Rightarrow> rat \<Rightarrow> ('app, inbox_lease option) iop" where
  "claim_at hexes owner source duration now =
     bind (inbox_future now duration) (\<lambda>expiry.
     bind (expire_processing now) (\<lambda>_.
     bind (get ib_rows) (\<lambda>rows.
     case sql_select (claimable_message now source) message_order rows of
       [] \<Rightarrow> ret None
     | r # _ \<Rightarrow> bind (grant_lease hexes owner expiry now r) (\<lambda>l. ret (Some l)))))"

definition inbox_claim_body ::
  "(nat \<Rightarrow> string) \<Rightarrow> string \<Rightarrow> string option \<Rightarrow> rat \<Rightarrow> rat \<Rightarrow> ('app, inbox_lease option) iop" where
  "inbox_claim_body hexes owner source duration reading =
     bind (inbox_now reading) (claim_at hexes owner source duration)"

definition inbox_claim ::
  "(nat \<Rightarrow> string) \<Rightarrow> rat \<Rightarrow> rat \<Rightarrow> string \<Rightarrow> string option \<Rightarrow> pyval \<Rightarrow> 'app inbox \<Rightarrow>
     (inbox_error + inbox_lease option) \<times> 'app inbox" where
  "inbox_claim hexes start reading owner source seconds b =
     (if \<not> nonblank owner \<or> \<not> optional_ok nonblank source then (Inl Inbox_Value, b)
      else case positive_duration seconds of
        Inl _ \<Rightarrow> (Inl Inbox_Value, b)
      | Inr duration \<Rightarrow> inbox_transaction start (inbox_claim_body hexes owner source duration reading) b)"

subsection \<open>Consuming and failing\<close>

definition run_mutation :: "'app mutation option \<Rightarrow> pyval \<Rightarrow> ('app, unit) iop" where
  "run_mutation m payload =
     (case m of
        None \<Rightarrow> ret ()
      | Some f \<Rightarrow>
          bind (get (\<lambda>b. f payload (ib_rows b) (ib_app b))) (\<lambda>app.
          case app of
            None \<Rightarrow> iraise Inbox_Mutation
          | Some a \<Rightarrow> modify (\<lambda>b. b\<lparr>ib_app := a\<rparr>)))"

definition consumed_settlement :: pyval where
  "consumed_settlement = canon (py_dict [(''kind'', PStr ''consumed'')])"

definition consume_row :: "rat \<Rightarrow> inbox_row \<Rightarrow> inbox_row" where
  "consume_row now r = r\<lparr>ix_state := Inbox_Consumed, ix_expires := None, ix_last_error := None,
     ix_settlement := Some consumed_settlement, ix_revision := ix_revision r + 1, ix_updated := now\<rparr>"

definition settle_consumed :: "inbox_lease \<Rightarrow> rat \<Rightarrow> ('app, inbox_row) iop" where
  "settle_consumed l now =
     bind (active_message l now) (\<lambda>_.
     bind (write_message (il_source l, il_notification l) (consume_row now)) (\<lambda>_.
     bind (inbox_message (il_source l) (il_notification l)) (\<lambda>r. ret (inbox_record r))))"

definition consume_at :: "inbox_lease \<Rightarrow> 'app mutation option \<Rightarrow> rat \<Rightarrow> rat \<Rightarrow> ('app, inbox_row) iop" where
  "consume_at l m second now =
     bind (inbox_message (il_source l) (il_notification l)) (\<lambda>r.
     if lease_holds r l \<and> ix_state r = Inbox_Consumed then ret (inbox_record r)
     else
       bind (active_message l now) (\<lambda>_.
       bind (run_mutation m (ix_payload r)) (\<lambda>_.
       bind (inbox_now second) (settle_consumed l))))"

definition consume_body :: "inbox_lease \<Rightarrow> 'app mutation option \<Rightarrow> rat \<Rightarrow> rat \<Rightarrow> ('app, inbox_row) iop" where
  "consume_body l m first second = bind (inbox_now first) (consume_at l m second)"

definition inbox_consume ::
  "rat \<Rightarrow> rat \<Rightarrow> rat \<Rightarrow> inbox_lease \<Rightarrow> 'app mutation option \<Rightarrow> 'app inbox \<Rightarrow> (inbox_error + inbox_row) \<times> 'app inbox" where
  "inbox_consume start first second l m b =
     (if \<not> lease_named l then (Inl Inbox_Value, b)
      else inbox_transaction start (consume_body l m first second) b)"

definition failed_settlement :: "pyval \<Rightarrow> rat \<Rightarrow> pyval" where
  "failed_settlement error delay = canon (py_dict [(''kind'', PStr ''failed''), (''error'', error),
     (''retry_delay'', PFin delay)])"

definition fail_row :: "pyval \<Rightarrow> rat \<Rightarrow> rat \<Rightarrow> rat \<Rightarrow> inbox_row \<Rightarrow> inbox_row" where
  "fail_row error delay next now r = r\<lparr>
     ix_state := (if ix_max_attempts r \<le> ix_attempts r then Inbox_Dead else Inbox_Pending),
     ix_expires := None, ix_next_attempt := next, ix_last_error := Some (canon error),
     ix_settlement := Some (failed_settlement error delay), ix_revision := ix_revision r + 1,
     ix_updated := now\<rparr>"

definition fail_at :: "inbox_lease \<Rightarrow> pyval \<Rightarrow> rat \<Rightarrow> rat \<Rightarrow> ('app, inbox_row) iop" where
  "fail_at l error delay now =
     bind (inbox_message (il_source l) (il_notification l)) (\<lambda>r.
     if lease_holds r l \<and> ix_state r \<in> {Inbox_Pending, Inbox_Dead} \<and> ix_settlement r \<noteq> None then
       bind (icheck (ix_settlement r = Some (failed_settlement error delay)) Inbox_Conflict) (\<lambda>_.
       ret (inbox_record r))
     else
       bind (active_message l now) (\<lambda>_.
       bind (inbox_future now delay) (\<lambda>next.
       bind (write_message (il_source l, il_notification l) (fail_row error delay next now)) (\<lambda>_.
       bind (inbox_message (il_source l) (il_notification l)) (\<lambda>r. ret (inbox_record r))))))"

definition fail_body :: "inbox_lease \<Rightarrow> pyval \<Rightarrow> rat \<Rightarrow> rat \<Rightarrow> ('app, inbox_row) iop" where
  "fail_body l error delay reading = bind (inbox_now reading) (fail_at l error delay)"

definition inbox_fail ::
  "rat \<Rightarrow> rat \<Rightarrow> inbox_lease \<Rightarrow> pyval \<Rightarrow> pyval \<Rightarrow> 'app inbox \<Rightarrow> (inbox_error + inbox_row) \<times> 'app inbox" where
  "inbox_fail start reading l error seconds b =
     (if \<not> lease_named l \<or> (case error of PDict _ \<Rightarrow> False | _ \<Rightarrow> True) then (Inl Inbox_Value, b)
      else case nonnegative_duration seconds of
        Inl _ \<Rightarrow> (Inl Inbox_Value, b)
      | Inr delay \<Rightarrow>
          if \<not> json_ok error then (Inl Inbox_Value, b)
          else inbox_transaction start (fail_body l error delay reading) b)"

subsection \<open>Reopening and reading\<close>

definition reopen_row :: "rat \<Rightarrow> inbox_row \<Rightarrow> inbox_row" where
  "reopen_row now r = r\<lparr>ix_state := Inbox_Pending, ix_attempts := 0, ix_lease := None, ix_owner := None,
     ix_expires := None, ix_next_attempt := now, ix_settlement := None, ix_revision := ix_revision r + 1,
     ix_updated := now\<rparr>"

definition retry_dead_at :: "string \<Rightarrow> string \<Rightarrow> int \<Rightarrow> rat \<Rightarrow> ('app, inbox_row) iop" where
  "retry_dead_at source notification expected_revision now =
     bind (inbox_message source notification) (\<lambda>r.
     bind (icheck (ix_revision r = expected_revision) Inbox_Stale) (\<lambda>_.
     bind (icheck (ix_state r = Inbox_Dead) Inbox_Value) (\<lambda>_.
     bind (write_message (source, notification) (reopen_row now)) (\<lambda>_.
     bind (inbox_message source notification) (\<lambda>r. ret (inbox_record r))))))"

definition retry_dead_body :: "string \<Rightarrow> string \<Rightarrow> int \<Rightarrow> rat \<Rightarrow> ('app, inbox_row) iop" where
  "retry_dead_body source notification expected_revision reading =
     bind (inbox_now reading) (retry_dead_at source notification expected_revision)"

definition retry_dead ::
  "rat \<Rightarrow> rat \<Rightarrow> string \<Rightarrow> string \<Rightarrow> int \<Rightarrow> 'app inbox \<Rightarrow> (inbox_error + inbox_row) \<times> 'app inbox" where
  "retry_dead start reading source notification expected_revision b =
     (if \<not> nonblank source \<or> \<not> nonblank notification \<or> expected_revision < 1 then (Inl Inbox_Value, b)
      else inbox_transaction start (retry_dead_body source notification expected_revision reading) b)"

definition inbox_get :: "string \<Rightarrow> string \<Rightarrow> ('app, inbox_row) iop" where
  "inbox_get source notification =
     bind (icheck (nonblank source \<and> nonblank notification) Inbox_Value) (\<lambda>_.
     bind (inbox_message source notification) (\<lambda>r. ret (inbox_record r)))"

definition list_messages :: "string option \<Rightarrow> inbox_state option \<Rightarrow> int \<Rightarrow> ('app, inbox_row list) iop" where
  "list_messages source st limit =
     bind (icheck (optional_ok nonblank source \<and> 1 \<le> limit) Inbox_Value) (\<lambda>_.
     get (\<lambda>b. List.map inbox_record (take (nat limit) (sql_select
       (\<lambda>r. (case source of None \<Rightarrow> True | Some s \<Rightarrow> ix_source r = s) \<and>
            (case st of None \<Rightarrow> True | Some x \<Rightarrow> ix_state r = x)) message_order (ib_rows b)))))"

end
