(* ===== verification/Inboxes.thy ===== *)
theory Inboxes
  imports Inbox
begin

text \<open>
  What the inbox guarantees: the bounds and leases of every reachable inbox, that a lease
  once superseded stays refused, and that a consumed message is never touched again.
\<close>

subsection \<open>The invariant and the order of inboxes\<close>

definition inbox_row_ok :: "rat \<Rightarrow> inbox_row \<Rightarrow> bool" where
  "inbox_row_ok t r \<longleftrightarrow> 0 \<le> ix_attempts r \<and> ix_attempts r \<le> ix_max_attempts r \<and> 1 \<le> ix_max_attempts r \<and>
     0 \<le> ix_fence r \<and> ix_attempts r \<le> ix_fence r \<and> 1 \<le> ix_revision r \<and> ix_created r \<le> ix_updated r \<and> ix_updated r \<le> t \<and>
     (ix_state r = Inbox_Processing \<longleftrightarrow> ix_expires r \<noteq> None) \<and>
     (ix_state r = Inbox_Pending \<longrightarrow> ix_attempts r < ix_max_attempts r) \<and>
     (ix_state r \<in> {Inbox_Processing, Inbox_Consumed} \<longrightarrow> ix_lease r \<noteq> None \<and> ix_owner r \<noteq> None \<and> 1 \<le> ix_fence r)"

definition inbox_ok :: "'app inbox \<Rightarrow> bool" where
  "inbox_ok b \<longleftrightarrow> distinct (List.map inbox_key (ib_rows b)) \<and> (\<forall>r \<in> set (ib_rows b). inbox_row_ok (ib_clock b) r) \<and>
     0 \<le> ib_clock b"

text \<open>
  A message keeps its content; its fence and revision only grow, a lease that is not in force
  never comes into force again, and a consumed message stays as it is.
\<close>

definition inbox_row_later :: "inbox_row \<Rightarrow> inbox_row \<Rightarrow> bool" where
  "inbox_row_later r q \<longleftrightarrow> q = r \<or>
     inbox_key q = inbox_key r \<and> ix_payload q = ix_payload r \<and> ix_max_attempts q = ix_max_attempts r \<and>
     ix_created q = ix_created r \<and> ix_fence r \<le> ix_fence q \<and> ix_revision r < ix_revision q \<and>
     ix_state r \<noteq> Inbox_Consumed \<and> (ix_state q = Inbox_Processing \<or> ix_state q = Inbox_Consumed \<longrightarrow>
       ix_fence r < ix_fence q \<or> ix_state r = Inbox_Processing \<and> ix_lease q = ix_lease r \<and> ix_owner q = ix_owner r)"

definition inbox_later :: "'app inbox \<Rightarrow> 'app inbox \<Rightarrow> bool" where
  "inbox_later b c \<longleftrightarrow> ib_clock b \<le> ib_clock c \<and> (\<forall>k r. find_message k b = Some r \<longrightarrow>
     (\<exists>q. find_message k c = Some q \<and> inbox_row_later r q))"

lemma inbox_row_later_refl [simp]: "inbox_row_later r r"
  by (simp add: inbox_row_later_def)

lemma inbox_row_later_trans: "inbox_row_later r q \<Longrightarrow> inbox_row_later q p \<Longrightarrow> inbox_row_later r p"
  unfolding inbox_row_later_def by (elim disjE conjE) (simp, simp, simp, rule disjI2, auto)

lemma inbox_later_refl [simp]: "inbox_later b b"
  by (simp add: inbox_later_def)

lemma inbox_later_trans: "inbox_later b c \<Longrightarrow> inbox_later c d \<Longrightarrow> inbox_later b d"
proof -
  assume b: "inbox_later b c" and c: "inbox_later c d"
  have "\<exists>q. find_message k d = Some q \<and> inbox_row_later r q" if r: "find_message k b = Some r" for k r
  proof -
    obtain p where p: "find_message k c = Some p" "inbox_row_later r p" using b r unfolding inbox_later_def by blast
    then obtain q where "find_message k d = Some q" "inbox_row_later p q" using c unfolding inbox_later_def by blast
    then show ?thesis using inbox_row_later_trans[OF p(2)] by blast
  qed
  then show ?thesis using b c by (simp add: inbox_later_def)
qed

subsection \<open>Reading and writing rows\<close>

lemma iops_Inr [simp]:
  "icheck c e b = Inr (u, t) \<longleftrightarrow> c \<and> t = b" "ilift e r b = Inr (a, t) \<longleftrightarrow> r = Inr a \<and> t = b"
  "iraise e b \<noteq> Inr z"
  by (auto simp: icheck_def ilift_def iraise_def bind_Inr split: sum.splits)

lemma inbox_now_Inr: "inbox_now w b = Inr (t, c) \<longleftrightarrow> 0 \<le> w \<and> t = max (ib_clock b) w \<and> c = b\<lparr>ib_clock := t\<rparr>"
  by (auto simp: inbox_now_def bind_Inr check_number_def)

lemma inbox_message_Inr [simp]:
  "inbox_message s n b = Inr (r, c) \<longleftrightarrow> c = b \<and> find_message (s, n) b = Some r"
  by (auto simp: inbox_message_def bind_Inr)

lemma find_message_fields [simp]: "find_message k (b\<lparr>ib_clock := t\<rparr>) = find_message k b"
  "find_message k (b\<lparr>ib_app := a\<rparr>) = find_message k b" "find_message k (b\<lparr>ib_uuids := n\<rparr>) = find_message k b"
  by (simp_all add: find_message_def)

lemma find_message_map:
  assumes "\<And>r. inbox_key (f r) = inbox_key r"
  shows "find_message k (b\<lparr>ib_rows := List.map f (ib_rows b)\<rparr>) = map_option f (find_message k b)"
proof -
  have "sql_find inbox_key k (List.map f rows) = map_option f (sql_find inbox_key k rows)" for rows
    using assms by (induction rows) (simp_all add: sql_find_def)
  then show ?thesis by (simp add: find_message_def)
qed

lemma find_message_set: "find_message k b = Some r \<Longrightarrow> r \<in> set (ib_rows b) \<and> inbox_key r = k"
  by (auto simp: find_message_def dest!: sql_find_Some)

text \<open>An update of some rows that keeps their keys.\<close>

lemma inbox_map_good:
  assumes ok: "inbox_ok b" and t: "ib_clock b \<le> t" and key: "\<And>r. inbox_key (f r) = inbox_key r"
    and row: "\<And>r. r \<in> set (ib_rows b) \<Longrightarrow> inbox_row_ok (ib_clock b) r \<Longrightarrow> inbox_row_ok t (f r) \<and> inbox_row_later r (f r)"
  shows "inbox_ok (b\<lparr>ib_rows := List.map f (ib_rows b), ib_clock := t\<rparr>)"
    and "inbox_later b (b\<lparr>ib_rows := List.map f (ib_rows b), ib_clock := t\<rparr>)"
proof -
  have "List.map inbox_key (List.map f (ib_rows b)) = List.map inbox_key (ib_rows b)" using key by simp
  then show "inbox_ok (b\<lparr>ib_rows := List.map f (ib_rows b), ib_clock := t\<rparr>)"
    using ok row t unfolding inbox_ok_def by (auto simp del: List.map_map)
  show "inbox_later b (b\<lparr>ib_rows := List.map f (ib_rows b), ib_clock := t\<rparr>)"
    unfolding inbox_later_def
  proof (intro conjI allI impI)
    show "ib_clock b \<le> ib_clock (b\<lparr>ib_rows := List.map f (ib_rows b), ib_clock := t\<rparr>)" using t by simp
    fix k r assume r: "find_message k b = Some r"
    have "r \<in> set (ib_rows b)" "find_message k (b\<lparr>ib_rows := List.map f (ib_rows b), ib_clock := t\<rparr>) = Some (f r)"
      using find_message_set[OF r] find_message_map[OF key, of k b] r by simp_all
    then show "\<exists>q. find_message k (b\<lparr>ib_rows := List.map f (ib_rows b), ib_clock := t\<rparr>) = Some q \<and> inbox_row_later r q"
      using row ok by (auto simp: inbox_ok_def)
  qed
qed

lemma inbox_map_same:
  assumes ok: "inbox_ok b" and key: "\<And>r. inbox_key (f r) = inbox_key r"
    and row: "\<And>r. r \<in> set (ib_rows b) \<Longrightarrow> inbox_row_ok (ib_clock b) r \<Longrightarrow> inbox_row_ok (ib_clock b) (f r) \<and> inbox_row_later r (f r)"
  shows "inbox_ok (b\<lparr>ib_rows := List.map f (ib_rows b)\<rparr>)" and "inbox_later b (b\<lparr>ib_rows := List.map f (ib_rows b)\<rparr>)"
proof -
  have e: "b\<lparr>ib_rows := List.map f (ib_rows b), ib_clock := ib_clock b\<rparr> = b\<lparr>ib_rows := List.map f (ib_rows b)\<rparr>"
    by (rule inbox.equality) simp_all
  show "inbox_ok (b\<lparr>ib_rows := List.map f (ib_rows b)\<rparr>)" "inbox_later b (b\<lparr>ib_rows := List.map f (ib_rows b)\<rparr>)"
    using inbox_map_good[OF ok order_refl key row] unfolding e by blast+
qed

subsection \<open>Failed calls\<close>

text \<open>No step turns the clock back, whether it returns or raises.\<close>

definition forward :: "('app, 'a) iop \<Rightarrow> bool" where
  "forward m \<longleftrightarrow> (\<forall>b. case m b of Inl (e, t) \<Rightarrow> ib_clock b \<le> t | Inr (a, c) \<Rightarrow> ib_clock b \<le> ib_clock c)"

lemma forward_bind: "forward m \<Longrightarrow> (\<And>a. forward (f a)) \<Longrightarrow> forward (bind m f)"
proof -
  assume m: "forward m" and f: "\<And>a. forward (f a)"
  show ?thesis
    unfolding forward_def
  proof
    fix b
    show "case bind m f b of Inl (e, t) \<Rightarrow> ib_clock b \<le> t | Inr (a, c) \<Rightarrow> ib_clock b \<le> ib_clock c"
    proof (cases "m b")
      case (Inl z)
      then show ?thesis using m unfolding forward_def bind_def by (metis old.sum.simps(5))
    next
      case (Inr z)
      obtain a c where z: "z = (a, c)" by (cases z)
      have "ib_clock b \<le> ib_clock c" using m Inr z unfolding forward_def by (metis (no_types, lifting) case_prod_conv old.sum.simps(6))
      moreover have "case f a c of Inl (e, t) \<Rightarrow> ib_clock c \<le> t | Inr (a, d) \<Rightarrow> ib_clock c \<le> ib_clock d"
        using f[of a] unfolding forward_def by blast
      ultimately show ?thesis using Inr z by (auto simp: bind_def split: sum.splits)
    qed
  qed
qed

lemma forward_simple: "forward (ret a)" "forward (get g)" "forward (icheck c e)" "forward (ilift e r)" "forward (iraise e)"
  by (auto simp: forward_def ret_def get_def icheck_def ilift_def iraise_def bind_def check_def lift_def raise_def split: sum.splits)

lemma forward_modify: "(\<And>b. ib_clock b \<le> ib_clock (f b)) \<Longrightarrow> forward (modify f)"
  by (simp add: forward_def modify_def)

lemma forward_now: "forward (inbox_now w)"
  unfolding inbox_now_def by (intro forward_bind forward_simple forward_modify) simp

lemma forward_case: "forward m \<Longrightarrow> (\<And>x. forward (f x)) \<Longrightarrow> forward (case z of None \<Rightarrow> m | Some x \<Rightarrow> f x)"
  by (cases z) simp_all

lemma forward_list: "forward m \<Longrightarrow> (\<And>x xs. forward (g x xs)) \<Longrightarrow> forward (case ys of [] \<Rightarrow> m | x # xs \<Rightarrow> g x xs)"
  by (cases ys) simp_all

lemma forward_if: "forward m \<Longrightarrow> forward n \<Longrightarrow> forward (if c then m else n)"
  by simp

lemma forward_bodies:
  "forward (accept_body s n v k w)" "forward (inbox_claim_body hexes ow src d w)" "forward (consume_body l m w w')"
  "forward (fail_body l v d w)" "forward (retry_dead_body s n k w)"
  unfolding accept_body_def inbox_claim_body_def consume_body_def fail_body_def retry_dead_body_def accept_at_def
    claim_at_def grant_lease_def consume_at_def fail_at_def retry_dead_at_def settle_consumed_def insert_notification_def
    inbox_message_def active_message_def run_mutation_def write_message_def inbox_future_def expire_processing_def inbox_uuid_def
  by (intro forward_bind forward_simple forward_now forward_case forward_if forward_list forward_modify; simp)+

text \<open>A call that raises changes nothing but the clock.\<close>

lemma inbox_transaction_Inl:
  assumes "inbox_transaction w body b = (Inl e, c)" and "forward body"
  shows "\<exists>t. ib_clock b \<le> t \<and> c = b\<lparr>ib_clock := t\<rparr>"
proof (cases "inbox_now w b")
  case (Inl z)
  then have "c = b" using assms(1) by (auto simp: inbox_transaction_def split: prod.splits)
  then show ?thesis by (intro exI[of _ "ib_clock b"]) simp
next
  case (Inr z)
  obtain t d where z: "z = (t, d)" by (cases z)
  have d: "ib_clock b \<le> t" "d = b\<lparr>ib_clock := t\<rparr>" using Inr by (simp_all add: z inbox_now_Inr)
  obtain t' where "body d = Inl (e, t')" and c: "c = d\<lparr>ib_clock := t'\<rparr>"
    using assms(1) Inr z by (auto simp: inbox_transaction_def split: sum.splits prod.splits)
  then have "ib_clock d \<le> t'" using assms(2) by (auto simp: forward_def dest!: spec[of _ d])
  then show ?thesis using d c by (intro exI[of _ t']) simp
qed

lemma inbox_transaction_Inr:
  "inbox_transaction w body b = (Inr a, c) \<Longrightarrow> \<exists>t. ib_clock b \<le> t \<and> body (b\<lparr>ib_clock := t\<rparr>) = Inr (a, c)"
  by (auto simp: inbox_transaction_def inbox_now_Inr split: sum.splits prod.splits
      intro!: exI[of _ "max (ib_clock b) w"])

lemma inbox_clock_good:
  assumes "inbox_ok b" and "ib_clock b \<le> t"
  shows "inbox_ok (b\<lparr>ib_clock := t\<rparr>)" and "inbox_later b (b\<lparr>ib_clock := t\<rparr>)"
proof -
  have "inbox_row_ok t r" if "inbox_row_ok (ib_clock b) r" for r using that assms(2) by (auto simp: inbox_row_ok_def)
  then show "inbox_ok (b\<lparr>ib_clock := t\<rparr>)" using assms by (auto simp: inbox_ok_def)
  show "inbox_later b (b\<lparr>ib_clock := t\<rparr>)" using assms(2) inbox_row_later_refl by (auto simp: inbox_later_def)
qed

subsection \<open>What each operation does\<close>

definition inbox_good :: "'app inbox \<Rightarrow> 'app inbox \<Rightarrow> bool" where
  "inbox_good b c \<longleftrightarrow> (inbox_ok b \<longrightarrow> inbox_ok c \<and> inbox_later b c)"

lemma inbox_good_refl [simp]: "inbox_good b b"
  by (simp add: inbox_good_def)

lemma inbox_good_trans: "inbox_good b c \<Longrightarrow> inbox_good c d \<Longrightarrow> inbox_good b d"
  unfolding inbox_good_def using inbox_later_trans by blast

interpretation inbox_good: progress inbox_good
  by unfold_locales (rule inbox_good_refl, rule inbox_good_trans)

lemma good_now: "runs inbox_good (inbox_now w)"
  by (rule runsI) (auto simp: inbox_now_Inr inbox_good_def inbox_clock_good)

text \<open>A row written under the key of one that was read, at the current clock.\<close>

lemma write_good:
  assumes ok: "inbox_ok b" and r: "find_message k b = Some r" and key: "\<And>q. inbox_key (f q) = inbox_key q"
    and row: "inbox_row_ok (ib_clock b) (f r)" "inbox_row_later r (f r)"
    and run: "write_message k f b = Inr (u, c)"
  shows "inbox_ok c" and "inbox_later b c" and "find_message k c = Some (f r)"
proof -
  let ?g = "\<lambda>q. if inbox_key q = k then f q else q"
  have c: "c = b\<lparr>ib_rows := List.map ?g (ib_rows b)\<rparr>" using run by (simp add: write_message_def)
  have rk: "r \<in> set (ib_rows b)" "inbox_key r = k" using find_message_set[OF r] by simp_all
  have only: "q = r" if "q \<in> set (ib_rows b)" "inbox_key q = k" for q
    using ok that rk unfolding inbox_ok_def distinct_map inj_on_def by metis
  have g: "inbox_key (?g q) = inbox_key q" for q using key by simp
  have each: "inbox_row_ok (ib_clock b) (?g q) \<and> inbox_row_later q (?g q)"
    if "q \<in> set (ib_rows b)" "inbox_row_ok (ib_clock b) q" for q
    using that only row by (cases "inbox_key q = k") auto
  show "inbox_ok c" unfolding c by (rule inbox_map_same(1)[OF ok g each])
  show "inbox_later b c" unfolding c by (rule inbox_map_same(2)[OF ok g each])
  show "find_message k c = Some (f r)" using find_message_map[of ?g k b] key r rk by (simp add: c)
qed

lemma row_laterI:
  "inbox_key q = inbox_key r \<Longrightarrow> ix_payload q = ix_payload r \<Longrightarrow> ix_max_attempts q = ix_max_attempts r \<Longrightarrow>
   ix_created q = ix_created r \<Longrightarrow> ix_fence r \<le> ix_fence q \<Longrightarrow> ix_revision r < ix_revision q \<Longrightarrow>
   ix_state r \<noteq> Inbox_Consumed \<Longrightarrow> (ix_state q = Inbox_Processing \<or> ix_state q = Inbox_Consumed \<longrightarrow>
     ix_fence r < ix_fence q \<or> ix_state r = Inbox_Processing \<and> ix_lease q = ix_lease r \<and> ix_owner q = ix_owner r) \<Longrightarrow>
   inbox_row_later r q"
  unfolding inbox_row_later_def by (rule disjI2) (intro conjI)

lemma expire_row_good: "inbox_row_ok t r \<Longrightarrow> processing_expired t r \<Longrightarrow>
    inbox_row_ok t (expire_row t r) \<and> inbox_row_later r (expire_row t r)"
  by (rule conjI, simp add: inbox_row_ok_def expire_row_def, rule row_laterI)
    (simp_all add: expire_row_def processing_expired_def inbox_key_def)

lemma claim_row_good: "inbox_row_ok t r \<Longrightarrow> ix_state r = Inbox_Pending \<Longrightarrow>
    inbox_row_ok t (claim_row_of i ow e t r) \<and> inbox_row_later r (claim_row_of i ow e t r)"
  by (rule conjI, simp add: inbox_row_ok_def claim_row_of_def, rule row_laterI)
    (simp_all add: claim_row_of_def inbox_key_def)

lemma consume_row_good: "inbox_row_ok t r \<Longrightarrow> ix_state r = Inbox_Processing \<Longrightarrow>
    inbox_row_ok t (consume_row t r) \<and> inbox_row_later r (consume_row t r)"
  by (rule conjI, simp add: inbox_row_ok_def consume_row_def, rule row_laterI)
    (simp_all add: consume_row_def inbox_key_def)

lemma fail_row_good: "inbox_row_ok t r \<Longrightarrow> ix_state r = Inbox_Processing \<Longrightarrow>
    inbox_row_ok t (fail_row e d n t r) \<and> inbox_row_later r (fail_row e d n t r)"
  by (rule conjI, simp add: inbox_row_ok_def fail_row_def, rule row_laterI)
    (simp_all add: fail_row_def inbox_key_def)

lemma reopen_row_good: "inbox_row_ok t r \<Longrightarrow> ix_state r = Inbox_Dead \<Longrightarrow>
    inbox_row_ok t (reopen_row t r) \<and> inbox_row_later r (reopen_row t r)"
  by (rule conjI, simp add: inbox_row_ok_def reopen_row_def, rule row_laterI)
    (simp_all add: reopen_row_def inbox_key_def)

lemma row_keys [simp]: "inbox_key (expire_row t r) = inbox_key r" "inbox_key (claim_row_of i ow e t r) = inbox_key r"
  "inbox_key (consume_row t r) = inbox_key r" "inbox_key (fail_row v d n t r) = inbox_key r" "inbox_key (reopen_row t r) = inbox_key r"
  by (simp_all add: expire_row_def claim_row_of_def consume_row_def fail_row_def reopen_row_def inbox_key_def)

lemma good_expire:
  assumes ok: "inbox_ok b" and run: "expire_processing (ib_clock b) b = Inr (u, c)"
  shows "inbox_ok c" and "inbox_later b c" and "ib_clock c = ib_clock b" and "ib_app c = ib_app b"
proof -
  let ?g = "\<lambda>r. if processing_expired (ib_clock b) r then expire_row (ib_clock b) r else r"
  have c: "c = b\<lparr>ib_rows := List.map ?g (ib_rows b)\<rparr>" using run by (simp add: expire_processing_def)
  have g: "inbox_key (?g q) = inbox_key q" for q by simp
  have each: "inbox_row_ok (ib_clock b) (?g q) \<and> inbox_row_later q (?g q)"
    if "q \<in> set (ib_rows b)" "inbox_row_ok (ib_clock b) q" for q
  proof (cases "processing_expired (ib_clock b) q")
    case True
    then show ?thesis using expire_row_good[OF that(2)] by simp
  qed (use that(2) in simp)
  show "inbox_ok c" unfolding c by (rule inbox_map_same(1)[OF ok g each])
  show "inbox_later b c" unfolding c by (rule inbox_map_same(2)[OF ok g each])
  show "ib_clock c = ib_clock b" "ib_app c = ib_app b" by (simp_all add: c)
qed

lemma good_accept: "1 \<le> k \<Longrightarrow> runs inbox_good (accept_body s n v k w)"
proof (rule runsI)
  fix b c :: "'app inbox" and x assume k: "1 \<le> k" and run: "accept_body s n v k w b = Inr (x, c)"
  obtain t d where now: "inbox_now w b = Inr (t, d)" and rest: "accept_at s n v k t d = Inr (x, c)"
    using run unfolding accept_body_def by (rule bindE)
  have t: "t = ib_clock d" using now by (simp add: inbox_now_Inr)
  have bd: "inbox_good b d" using good_now now by (auto simp: runs_def)
  moreover have "inbox_good d c"
  proof (cases "find_message (s, n) d")
    case (Some r)
    then have "c = d" using rest by (auto simp: accept_at_def bind_Inr)
    then show ?thesis by simp
  next
    case None
    let ?r = "new_message s n v k t"
    have c: "c = d\<lparr>ib_rows := ib_rows d @ [?r]\<rparr>"
      using rest None by (auto simp: accept_at_def bind_Inr insert_notification_def sql_insert_def split: if_splits)
    have r: "inbox_key ?r = (s, n)" "inbox_row_ok t ?r" using k by (simp_all add: new_message_def inbox_key_def inbox_row_ok_def)
    have new: "(s, n) \<notin> inbox_key ` set (ib_rows d)" using None by (simp add: find_message_def sql_find_None)
    have kept: "find_message key c = Some q" if "find_message key d = Some q" for key q
      using that by (simp add: c find_message_def sql_find_append)
    show ?thesis
      unfolding inbox_good_def
    proof
      assume ok: "inbox_ok d"
      then have "inbox_ok c" using new r t by (auto simp: c inbox_ok_def)
      moreover have "ib_clock c = ib_clock d" by (simp add: c)
      then have "inbox_later d c" unfolding inbox_later_def using kept inbox_row_later_refl by simp
      ultimately show "inbox_ok c \<and> inbox_later d c" by simp
    qed
  qed
  ultimately show "inbox_good b c" by (rule inbox_good_trans)
qed

text \<open>The lease a claim returns is the one in force, with a fence no earlier lease of the message has.\<close>

definition in_force :: "inbox_lease \<Rightarrow> 'app inbox \<Rightarrow> bool" where
  "in_force l b \<longleftrightarrow> (\<exists>r. find_message (il_source l, il_notification l) b = Some r \<and> lease_holds r l \<and>
     ix_state r = Inbox_Processing)"

lemma find_expired:
  "expire_processing t b = Inr (u, c) \<Longrightarrow> find_message k c =
     map_option (\<lambda>r. if processing_expired t r then expire_row t r else r) (find_message k b)"
  using find_message_map[of "\<lambda>r. if processing_expired t r then expire_row t r else r" k b]
  by (auto simp: expire_processing_def)

lemma inbox_future_Inr: "inbox_future t d b = Inr (e, c) \<longleftrightarrow> c = b \<and> fadd t d = Some e \<and> (0 < d \<longrightarrow> t < e)"
  by (auto simp: inbox_future_def split: option.splits if_splits)

definition granted :: "inbox_lease \<Rightarrow> inbox_row \<Rightarrow> 'app inbox \<Rightarrow> bool" where
  "granted l r c \<longleftrightarrow> (\<exists>q. find_message (il_source l, il_notification l) c = Some q \<and> lease_holds q l \<and>
     ix_state q = Inbox_Processing \<and> ix_expires q = Some (il_expires l) \<and> il_fence l = ix_fence r + 1 \<and>
     il_attempt l = ix_attempts q \<and> il_payload l = ix_payload q)"

lemma grant_lease_Inr:
  assumes ok: "inbox_ok b" and r: "r \<in> set (ib_rows b)" "ix_state r = Inbox_Pending"
    and run: "grant_lease hexes ow e (ib_clock b) r b = Inr (l, c)"
  shows "inbox_ok c" and "inbox_later b c" and "ib_app c = ib_app b" and "granted l r c"
    and "il_expires l = e" and "(il_source l, il_notification l) = inbox_key r" and "il_owner l = ow"
proof -
  obtain lease d u where uuid: "inbox_uuid hexes b = Inr (lease, d)"
    and w: "write_message (inbox_key r) (claim_row_of lease ow e (ib_clock b)) d = Inr (u, c)"
    and l: "l = \<lparr>il_source = ix_source r, il_notification = ix_notification r, il_lease = lease,
       il_owner = ow, il_fence = ix_fence r + 1, il_expires = e,
       il_attempt = ix_attempts r + 1, il_payload = ix_payload r\<rparr>"
    using run by (auto simp: grant_lease_def bind_Inr)
  have d: "d = b\<lparr>ib_uuids := ib_uuids b + 1\<rparr>" using uuid by (auto simp: inbox_uuid_def bind_Inr)
  have okd: "inbox_ok d" using ok by (simp add: d inbox_ok_def)
  have bd: "inbox_later b d" using inbox_row_later_refl by (simp add: d inbox_later_def)
  have clk: "ib_clock d = ib_clock b" by (simp add: d)
  have dist: "distinct (List.map inbox_key (ib_rows b))" and rok: "inbox_row_ok (ib_clock b) r"
    using ok r by (simp_all add: inbox_ok_def)
  have "find_message (inbox_key r) b = Some r"
  proof (cases "find_message (inbox_key r) b")
    case None
    then show ?thesis using r(1) by (auto simp: find_message_def sql_find_None)
  next
    case (Some q)
    then have "q = r" using find_message_set[OF Some] dist r(1) unfolding distinct_map inj_on_def by blast
    then show ?thesis using Some by simp
  qed
  then have f: "find_message (inbox_key r) d = Some r" by (simp add: d)
  have good: "inbox_row_ok (ib_clock d) (claim_row_of lease ow e (ib_clock b) r)" "inbox_row_later r (claim_row_of lease ow e (ib_clock b) r)"
    using claim_row_good[OF rok r(2)] unfolding clk by blast+
  note c = write_good[OF okd f row_keys(2) good w]
  show "inbox_ok c" by (rule c)
  show "inbox_later b c" using bd c(2) by (rule inbox_later_trans)
  show "ib_app c = ib_app b" using w d by (auto simp: write_message_def)
  show "il_expires l = e" "(il_source l, il_notification l) = inbox_key r" "il_owner l = ow" by (simp_all add: l inbox_key_def)
  show "granted l r c"
    unfolding granted_def using c(3) by (simp add: l inbox_key_def claim_row_of_def lease_holds_def)
qed

lemma claim_at_Inr:
  assumes ok: "inbox_ok b" and run: "claim_at hexes ow src d (ib_clock b) b = Inr (x, c)"
  shows "inbox_ok c" and "inbox_later b c" and "ib_app c = ib_app b"
    and "x = Some l \<Longrightarrow> \<exists>r. find_message (il_source l, il_notification l) b = Some r \<and> granted l r c \<and>
      il_owner l = ow \<and> (0 < d \<longrightarrow> ib_clock b < il_expires l)"
proof -
  obtain e b1 u where e: "inbox_future (ib_clock b) d b = Inr (e, b)" and exp: "expire_processing (ib_clock b) b = Inr (u, b1)"
    and sel: "(case sql_select (claimable_message (ib_clock b) src) message_order (ib_rows b1) of
       [] \<Rightarrow> ret None
     | r # _ \<Rightarrow> bind (grant_lease hexes ow e (ib_clock b) r) (\<lambda>l. ret (Some l))) b1 = Inr (x, c)"
    using run unfolding claim_at_def bind_Inr[of "inbox_future (ib_clock b) d"] bind_Inr[of "expire_processing (ib_clock b)"]
      bind_Inr[of "get ib_rows"] inbox_future_Inr get_Inr by blast
  note b1 = good_expire[OF ok exp]
  have all: "inbox_ok c \<and> inbox_later b c \<and> ib_app c = ib_app b \<and> (\<forall>l. x = Some l \<longrightarrow>
      (\<exists>r. find_message (il_source l, il_notification l) b = Some r \<and> granted l r c \<and>
      il_owner l = ow \<and> (0 < d \<longrightarrow> ib_clock b < il_expires l)))"
  proof (cases "sql_select (claimable_message (ib_clock b) src) message_order (ib_rows b1)")
    case Nil
    then show ?thesis using sel b1 by simp
  next
    case (Cons r rs)
    then obtain g where g: "grant_lease hexes ow e (ib_clock b1) r b1 = Inr (g, c)" and x: "x = Some g"
      using sel b1(3) by (auto simp: bind_Inr)
    have r: "r \<in> set (ib_rows b1)" "ix_state r = Inbox_Pending"
      using sql_select_first[OF Cons] by (simp_all add: claimable_message_def)
    note gr = grant_lease_Inr[OF b1(1) r g]
    obtain r0 where r0: "r0 \<in> set (ib_rows b)" "r = (if processing_expired (ib_clock b) r0 then expire_row (ib_clock b) r0 else r0)"
      using r(1) exp by (auto simp: expire_processing_def)
    have k: "inbox_key r = inbox_key r0" "ix_fence r = ix_fence r0" using r0(2) by (simp_all add: expire_row_def inbox_key_def)
    have "find_message (inbox_key r0) b \<noteq> None" using r0(1) by (auto simp: find_message_def sql_find_None)
    then obtain p where p: "find_message (inbox_key r0) b = Some p" by blast
    have "p = r0" using find_message_set[OF p] r0(1) ok unfolding inbox_ok_def distinct_map inj_on_def by blast
    then have "find_message (il_source g, il_notification g) b = Some r0" using p gr(6) k(1) by simp
    moreover have "granted g r0 c" using gr(4) k(2) by (simp add: granted_def)
    moreover have "0 < d \<longrightarrow> ib_clock b < il_expires g" using e gr(5) by (simp add: inbox_future_Inr)
    ultimately show ?thesis using gr(1-3,7) b1(2,4) inbox_later_trans x by auto
  qed
  then show "inbox_ok c" "inbox_later b c" "ib_app c = ib_app b" by blast+
  show "x = Some l \<Longrightarrow> \<exists>r. find_message (il_source l, il_notification l) b = Some r \<and> granted l r c \<and>
      il_owner l = ow \<and> (0 < d \<longrightarrow> ib_clock b < il_expires l)" using all by blast
qed

lemma active_message_Inr:
  "active_message l t b = Inr (r, c) \<longleftrightarrow> c = b \<and> find_message (il_source l, il_notification l) b = Some r \<and>
     lease_holds r l \<and> ix_state r = Inbox_Processing \<and> (\<exists>e. ix_expires r = Some e \<and> t < e)"
  by (auto simp: active_message_def bind_Inr split: option.splits)

text \<open>A row read and written by an operation that then answers with its record.\<close>

lemma settle_Inr:
  assumes ok: "inbox_ok b" and r: "find_message (s, n) b = Some r"
    and key: "\<And>q. inbox_key (f q) = inbox_key q" and row: "inbox_row_ok (ib_clock b) (f r) \<and> inbox_row_later r (f r)"
    and run: "bind (write_message (s, n) f) (\<lambda>_. bind (inbox_message s n) (\<lambda>r. ret (inbox_record r))) b = Inr (x, c)"
  shows "inbox_ok c" and "inbox_later b c" and "find_message (s, n) c = Some (f r)" and "x = inbox_record (f r)"
    and "ib_app c = ib_app b"
proof -
  obtain u where w: "write_message (s, n) f b = Inr (u, c)" and m: "find_message (s, n) c = Some q \<Longrightarrow> x = inbox_record q" for q
    using run by (auto simp: bind_Inr)
  note c = write_good[OF ok r key conjunct1[OF row] conjunct2[OF row] w]
  show "inbox_ok c" "inbox_later b c" "find_message (s, n) c = Some (f r)" by (rule c)+
  then show "x = inbox_record (f r)" using m by blast
  show "ib_app c = ib_app b" using w by (auto simp: write_message_def)
qed

lemma row_of_inbox: "inbox_ok b \<Longrightarrow> find_message k b = Some r \<Longrightarrow> inbox_row_ok (ib_clock b) r"
  using find_message_set by (fastforce simp: inbox_ok_def)

text \<open>
  Consuming: a message already consumed under the lease is answered as it is; otherwise the
  lease is in force, and the application's change and the mark are made together.
\<close>

lemma consume_at_Inr:
  assumes ok: "inbox_ok b" and run: "consume_at l m w (ib_clock b) b = Inr (x, c)"
  shows "inbox_ok c" and "inbox_later b c"
    and "\<exists>r. find_message (il_source l, il_notification l) b = Some r \<and> lease_holds r l \<and>
      (ix_state r = Inbox_Consumed \<and> c = b \<and> x = inbox_record r \<or>
       ix_state r = Inbox_Processing \<and> (\<exists>e t. ix_expires r = Some e \<and> ib_clock b < e \<and> ib_clock b \<le> t \<and> t < e \<and>
         find_message (il_source l, il_notification l) c = Some (consume_row t r) \<and> x = inbox_record (consume_row t r)) \<and>
       (case m of None \<Rightarrow> ib_app c = ib_app b | Some f \<Rightarrow> f (ix_payload r) (ib_rows b) (ib_app b) = Some (ib_app c)))"
proof -
  let ?k = "(il_source l, il_notification l)"
  obtain r where r: "find_message ?k b = Some r" and rest: "(if lease_holds r l \<and> ix_state r = Inbox_Consumed then ret (inbox_record r)
     else
       bind (active_message l (ib_clock b)) (\<lambda>_.
       bind (run_mutation m (ix_payload r)) (\<lambda>_.
       bind (inbox_now w) (settle_consumed l)))) b = Inr (x, c)"
    using run unfolding consume_at_def bind_Inr[of "inbox_message (il_source l) (il_notification l)"] inbox_message_Inr by blast
  have "inbox_ok c \<and> inbox_later b c \<and> lease_holds r l \<and>
      (ix_state r = Inbox_Consumed \<and> c = b \<and> x = inbox_record r \<or>
       ix_state r = Inbox_Processing \<and> (\<exists>e t. ix_expires r = Some e \<and> ib_clock b < e \<and> ib_clock b \<le> t \<and> t < e \<and>
         find_message ?k c = Some (consume_row t r) \<and> x = inbox_record (consume_row t r)) \<and>
       (case m of None \<Rightarrow> ib_app c = ib_app b | Some f \<Rightarrow> f (ix_payload r) (ib_rows b) (ib_app b) = Some (ib_app c)))"
  proof (cases "lease_holds r l \<and> ix_state r = Inbox_Consumed")
    case True
    then show ?thesis using rest ok by simp
  next
    case False
    obtain u v d t d2 e where act: "active_message l (ib_clock b) b = Inr (u, b)" and mut: "run_mutation m (ix_payload r) b = Inr (v, d)"
      and now: "inbox_now w d = Inr (t, d2)" and settle: "settle_consumed l t d2 = Inr (x, c)"
      and e: "ix_expires r = Some e" "ib_clock b < e" "lease_holds r l" "ix_state r = Inbox_Processing"
      using rest False r by (auto simp: bind_Inr active_message_Inr)
    have d: "\<exists>a. d = b\<lparr>ib_app := a\<rparr> \<and> (case m of None \<Rightarrow> a = ib_app b | Some f \<Rightarrow> f (ix_payload r) (ib_rows b) (ib_app b) = Some a)"
      using mut by (cases m) (auto simp: run_mutation_def bind_Inr split: option.splits intro!: exI[of _ "ib_app b"])
    then obtain a where a: "d = b\<lparr>ib_app := a\<rparr>" "case m of None \<Rightarrow> a = ib_app b | Some f \<Rightarrow> f (ix_payload r) (ib_rows b) (ib_app b) = Some a"
      by blast
    have d2: "d2 = b\<lparr>ib_app := a, ib_clock := t\<rparr>" and t: "ib_clock b \<le> t"
      using now a by (simp_all add: inbox_now_Inr)
    have clk: "ib_clock d2 = t" by (simp add: d2)
    have okd: "inbox_ok d" "inbox_later b d" using ok inbox_row_later_refl by (simp_all add: a(1) inbox_ok_def inbox_later_def)
    have "ib_clock d \<le> t" using t by (simp add: a(1))
    note c2 = inbox_clock_good[OF okd(1) this]
    have okd2: "inbox_ok d2" "inbox_later b d2"
      using c2 okd(2) inbox_later_trans by (simp_all add: d2 a(1)) blast
    have f: "find_message ?k d2 = Some r" using r by (simp add: d2)
    have fut: "t < e" and w2: "bind (write_message ?k (consume_row t)) (\<lambda>_. bind (inbox_message (il_source l) (il_notification l)) (\<lambda>r. ret (inbox_record r))) d2 = Inr (x, c)"
      using settle f e(1) unfolding settle_consumed_def bind_Inr[of "active_message l t"] active_message_Inr by auto
    have row: "inbox_row_ok (ib_clock d2) (consume_row t r) \<and> inbox_row_later r (consume_row t r)"
      unfolding clk by (rule consume_row_good) (use row_of_inbox[OF okd2(1) f] clk e(4) in simp_all)
    note s = settle_Inr[OF okd2(1) f row_keys(3) row w2]
    have "ib_app c = a" using s(5) by (simp add: d2)
    then show ?thesis using s(1-4) okd2(2) inbox_later_trans e fut t a(2) by (cases m) auto
  qed
  then show "inbox_ok c" "inbox_later b c" and "\<exists>r. find_message ?k b = Some r \<and> lease_holds r l \<and>
      (ix_state r = Inbox_Consumed \<and> c = b \<and> x = inbox_record r \<or>
       ix_state r = Inbox_Processing \<and> (\<exists>e t. ix_expires r = Some e \<and> ib_clock b < e \<and> ib_clock b \<le> t \<and> t < e \<and>
         find_message ?k c = Some (consume_row t r) \<and> x = inbox_record (consume_row t r)) \<and>
       (case m of None \<Rightarrow> ib_app c = ib_app b | Some f \<Rightarrow> f (ix_payload r) (ib_rows b) (ib_app b) = Some (ib_app c)))"
    using r by blast+
qed

lemma fail_at_Inr:
  assumes ok: "inbox_ok b" and run: "fail_at l v d (ib_clock b) b = Inr (x, c)"
  shows "inbox_ok c" and "inbox_later b c" and "ib_app c = ib_app b"
    and "\<exists>r. find_message (il_source l, il_notification l) b = Some r \<and> lease_holds r l \<and>
      (ix_state r \<in> {Inbox_Pending, Inbox_Dead} \<and> ix_settlement r = Some (failed_settlement v d) \<and> c = b \<and> x = inbox_record r \<or>
       ix_state r = Inbox_Processing \<and> (\<exists>n. fadd (ib_clock b) d = Some n \<and>
         find_message (il_source l, il_notification l) c = Some (fail_row v d n (ib_clock b) r) \<and>
         x = inbox_record (fail_row v d n (ib_clock b) r)))"
proof -
  let ?k = "(il_source l, il_notification l)"
  obtain r where r: "find_message ?k b = Some r" and rest: "(if lease_holds r l \<and> ix_state r \<in> {Inbox_Pending, Inbox_Dead} \<and> ix_settlement r \<noteq> None then
       bind (icheck (ix_settlement r = Some (failed_settlement v d)) Inbox_Conflict) (\<lambda>_. ret (inbox_record r))
     else
       bind (active_message l (ib_clock b)) (\<lambda>_.
       bind (inbox_future (ib_clock b) d) (\<lambda>next.
       bind (write_message ?k (fail_row v d next (ib_clock b))) (\<lambda>_.
       bind (inbox_message (il_source l) (il_notification l)) (\<lambda>r. ret (inbox_record r)))))) b = Inr (x, c)"
    using run unfolding fail_at_def bind_Inr[of "inbox_message (il_source l) (il_notification l)"] inbox_message_Inr by blast
  have "inbox_ok c \<and> inbox_later b c \<and> ib_app c = ib_app b \<and> lease_holds r l \<and>
      (ix_state r \<in> {Inbox_Pending, Inbox_Dead} \<and> ix_settlement r = Some (failed_settlement v d) \<and> c = b \<and> x = inbox_record r \<or>
       ix_state r = Inbox_Processing \<and> (\<exists>n. fadd (ib_clock b) d = Some n \<and>
         find_message ?k c = Some (fail_row v d n (ib_clock b) r) \<and> x = inbox_record (fail_row v d n (ib_clock b) r)))"
  proof (cases "lease_holds r l \<and> ix_state r \<in> {Inbox_Pending, Inbox_Dead} \<and> ix_settlement r \<noteq> None")
    case True
    then show ?thesis using rest ok by (auto simp: bind_Inr)
  next
    case False
    obtain n where act: "lease_holds r l" "ix_state r = Inbox_Processing" and n: "fadd (ib_clock b) d = Some n"
      and w: "bind (write_message ?k (fail_row v d n (ib_clock b))) (\<lambda>_.
         bind (inbox_message (il_source l) (il_notification l)) (\<lambda>r. ret (inbox_record r))) b = Inr (x, c)"
      using rest r unfolding if_not_P[OF False] bind_Inr[of "active_message l (ib_clock b)"] active_message_Inr
        bind_Inr[of "inbox_future (ib_clock b) d"] inbox_future_Inr by auto
    note s = settle_Inr[OF ok r row_keys(4) fail_row_good[OF row_of_inbox[OF ok r] act(2)] w]
    show ?thesis using s act n by auto
  qed
  then show "inbox_ok c" "inbox_later b c" "ib_app c = ib_app b" and "\<exists>r. find_message ?k b = Some r \<and> lease_holds r l \<and>
      (ix_state r \<in> {Inbox_Pending, Inbox_Dead} \<and> ix_settlement r = Some (failed_settlement v d) \<and> c = b \<and> x = inbox_record r \<or>
       ix_state r = Inbox_Processing \<and> (\<exists>n. fadd (ib_clock b) d = Some n \<and>
         find_message ?k c = Some (fail_row v d n (ib_clock b) r) \<and> x = inbox_record (fail_row v d n (ib_clock b) r)))"
    using r by blast+
qed

lemma retry_dead_at_Inr:
  assumes ok: "inbox_ok b" and run: "retry_dead_at s n k (ib_clock b) b = Inr (x, c)"
  shows "inbox_ok c" and "inbox_later b c" and "ib_app c = ib_app b"
proof -
  obtain r where r: "find_message (s, n) b = Some r" "ix_state r = Inbox_Dead"
    and w: "bind (write_message (s, n) (reopen_row (ib_clock b))) (\<lambda>_. bind (inbox_message s n) (\<lambda>r. ret (inbox_record r))) b = Inr (x, c)"
    using run unfolding retry_dead_at_def bind_Inr[of "inbox_message s n"] bind_Inr[of "icheck _ _"] inbox_message_Inr iops_Inr
    by auto
  note s = settle_Inr[OF ok r(1) row_keys(5) reopen_row_good[OF row_of_inbox[OF ok r(1)] r(2)] w]
  show "inbox_ok c" "inbox_later b c" "ib_app c = ib_app b" by (rule s)+
qed

end
