(* ===== verification/Messages.thy ===== *)
theory Messages
  imports Inboxes
begin

text \<open>
  Histories of an inbox, and what holds through all of them: its rows stay well-formed, a
  superseded lease is refused for ever, and a message is consumed once, together with the
  application's change.
\<close>

subsection \<open>Histories\<close>

inductive inbox_step :: "(nat \<Rightarrow> string) \<Rightarrow> 'app inbox \<Rightarrow> 'app inbox \<Rightarrow> bool" for hexes where
  accept_step: "inbox_accept w w' source payload notification limit b = (x, c) \<Longrightarrow> inbox_step hexes b c"
| claim_step: "inbox_claim hexes w w' owner source seconds b = (y, c) \<Longrightarrow> inbox_step hexes b c"
| consume_step: "inbox_consume w w' w'' l m b = (x, c) \<Longrightarrow> inbox_step hexes b c"
| fail_step: "inbox_fail w w' l error seconds b = (x, c) \<Longrightarrow> inbox_step hexes b c"
| retry_step: "retry_dead w w' source identity revision b = (x, c) \<Longrightarrow> inbox_step hexes b c"
| app_step: "inbox_step hexes b (b\<lparr>ib_app := a\<rparr>)"

inductive inbox_history :: "(nat \<Rightarrow> string) \<Rightarrow> 'app inbox \<Rightarrow> 'app inbox \<Rightarrow> bool" for hexes where
  inbox_none: "inbox_history hexes b b"
| inbox_call: "inbox_history hexes b c \<Longrightarrow> inbox_step hexes c d \<Longrightarrow> inbox_history hexes b d"

definition empty_inbox :: "'app \<Rightarrow> 'app inbox" where
  "empty_inbox a = \<lparr>ib_rows = [], ib_clock = 0, ib_uuids = 0, ib_app = a\<rparr>"

subsection \<open>Every step keeps the invariant and the order\<close>

text \<open>A transaction whose body starts with a reading of the clock.\<close>

lemma inbox_read_Inr:
  assumes ok: "inbox_ok b" and run: "bind (inbox_now w) body b = Inr (x, c)"
  obtains d where "inbox_ok d" "inbox_later b d" "\<exists>t. d = b\<lparr>ib_clock := t\<rparr>" "body (ib_clock d) d = Inr (x, c)"
proof -
  obtain t d where now: "inbox_now w b = Inr (t, d)" and rest: "body t d = Inr (x, c)" using run by (rule bindE)
  have t: "t = ib_clock d" and d: "d = b\<lparr>ib_clock := t\<rparr>" "ib_clock b \<le> t" using now by (auto simp: inbox_now_Inr)
  have "inbox_ok d" "inbox_later b d" unfolding d(1) by (rule inbox_clock_good[OF ok d(2)])+
  then show thesis using that rest t d by blast
qed

lemma inbox_transaction_at:
  assumes ok: "inbox_ok b" and run: "inbox_transaction w (bind (inbox_now w') body) b = (Inr x, c)"
  obtains d where "inbox_ok d" "inbox_later b d" "\<exists>t. d = b\<lparr>ib_clock := t\<rparr>" "body (ib_clock d) d = Inr (x, c)"
proof -
  obtain t where t: "ib_clock b \<le> t" and run: "bind (inbox_now w') body (b\<lparr>ib_clock := t\<rparr>) = Inr (x, c)"
    using inbox_transaction_Inr[OF run] by blast
  note g = inbox_clock_good[OF ok t]
  obtain d where "inbox_ok d" "inbox_later (b\<lparr>ib_clock := t\<rparr>) d" "\<exists>t'. d = b\<lparr>ib_clock := t, ib_clock := t'\<rparr>"
    "body (ib_clock d) d = Inr (x, c)" by (rule inbox_read_Inr[OF g(1) run]) (blast intro: that)
  then show thesis using that inbox_later_trans[OF g(2)] by auto
qed

lemma inbox_runs_at:
  assumes "\<And>x d c. inbox_ok d \<Longrightarrow> body (ib_clock d) d = Inr (x, c) \<Longrightarrow> inbox_ok c \<and> inbox_later d c"
  shows "runs inbox_good (bind (inbox_now w) body)"
proof (rule runsI)
  fix b c :: "'b inbox" and x assume run: "bind (inbox_now w) body b = Inr (x, c)"
  show "inbox_good b c"
    unfolding inbox_good_def
  proof
    assume ok: "inbox_ok b"
    obtain d where d: "inbox_ok d" "inbox_later b d" "body (ib_clock d) d = Inr (x, c)"
      by (rule inbox_read_Inr[OF ok run]) (blast intro: that)
    show "inbox_ok c \<and> inbox_later b c" using assms[OF d(1,3)] inbox_later_trans[OF d(2)] by blast
  qed
qed

lemma inbox_transaction_good:
  assumes ok: "inbox_ok b" and "forward body" and "inbox_transaction w body b = (r, c)" and good: "runs inbox_good body"
  shows "inbox_ok c \<and> inbox_later b c"
proof (cases r)
  case (Inl e)
  obtain t where t: "ib_clock b \<le> t" "c = b\<lparr>ib_clock := t\<rparr>"
    using inbox_transaction_Inl[OF assms(3)[unfolded Inl] assms(2)] by blast
  show ?thesis using inbox_clock_good[OF ok t(1)] by (simp add: t(2))
next
  case (Inr x)
  obtain t where t: "ib_clock b \<le> t" and ran: "body (b\<lparr>ib_clock := t\<rparr>) = Inr (x, c)"
    using inbox_transaction_Inr[OF assms(3)[unfolded Inr]] by blast
  note g = inbox_clock_good[OF ok t]
  have "inbox_good (b\<lparr>ib_clock := t\<rparr>) c" using good ran by (auto simp: runs_def)
  then show ?thesis using g inbox_later_trans[OF g(2)] by (simp add: inbox_good_def)
qed

lemma good_bodies:
  "runs inbox_good (inbox_claim_body hexes ow src d w)" "runs inbox_good (consume_body l m w w')"
  "runs inbox_good (fail_body l v d' w)" "runs inbox_good (retry_dead_body s n k w)"
  unfolding inbox_claim_body_def consume_body_def fail_body_def retry_dead_body_def
  by (rule inbox_runs_at, rule conjI, erule (1) claim_at_Inr(1), erule (1) claim_at_Inr(2))
    (rule inbox_runs_at, rule conjI, erule (1) consume_at_Inr(1), erule (1) consume_at_Inr(2),
     rule inbox_runs_at, rule conjI, erule (1) fail_at_Inr(1), erule (1) fail_at_Inr(2),
     rule inbox_runs_at, rule conjI, erule (1) retry_dead_at_Inr(1), erule (1) retry_dead_at_Inr(2))

lemma inbox_accept_good: "inbox_accept w w' s v n k b = (r, c) \<Longrightarrow> inbox_ok b \<Longrightarrow> inbox_ok c \<and> inbox_later b c"
  by (auto simp: inbox_accept_def not_less split: if_splits sum.splits
      dest: inbox_transaction_good[OF _ forward_bodies(1) _ good_accept])

lemma inbox_claim_good: "inbox_claim hexes w w' ow src d b = (r, c) \<Longrightarrow> inbox_ok b \<Longrightarrow> inbox_ok c \<and> inbox_later b c"
  by (auto simp: inbox_claim_def split: if_splits sum.splits
      dest: inbox_transaction_good[OF _ forward_bodies(2) _ good_bodies(1)])

lemma inbox_consume_good: "inbox_consume w w' w'' l m b = (r, c) \<Longrightarrow> inbox_ok b \<Longrightarrow> inbox_ok c \<and> inbox_later b c"
  by (auto simp: inbox_consume_def split: if_splits
      dest: inbox_transaction_good[OF _ forward_bodies(3) _ good_bodies(2)])

lemma inbox_fail_good: "inbox_fail w w' l v d b = (r, c) \<Longrightarrow> inbox_ok b \<Longrightarrow> inbox_ok c \<and> inbox_later b c"
  by (auto simp: inbox_fail_def split: if_splits sum.splits
      dest: inbox_transaction_good[OF _ forward_bodies(4) _ good_bodies(3)])

lemma retry_dead_good: "retry_dead w w' s n k b = (r, c) \<Longrightarrow> inbox_ok b \<Longrightarrow> inbox_ok c \<and> inbox_later b c"
  by (auto simp: retry_dead_def split: if_splits
      dest: inbox_transaction_good[OF _ forward_bodies(5) _ good_bodies(4)])

lemma inbox_step_good: "inbox_step hexes b c \<Longrightarrow> inbox_ok b \<Longrightarrow> inbox_ok c \<and> inbox_later b c"
proof (induction rule: inbox_step.induct)
  case (app_step b a)
  then show ?case using inbox_row_later_refl by (simp add: inbox_ok_def inbox_later_def)
qed (erule (1) inbox_accept_good inbox_claim_good inbox_consume_good inbox_fail_good retry_dead_good)+

lemma inbox_history_good: "inbox_history hexes b c \<Longrightarrow> inbox_ok b \<Longrightarrow> inbox_ok c \<and> inbox_later b c"
  by (induction rule: inbox_history.induct) (use inbox_step_good inbox_later_trans in \<open>simp, blast\<close>)

lemma empty_inbox_ok: "inbox_ok (empty_inbox a)"
  by (simp add: inbox_ok_def empty_inbox_def)

lemma inbox_reachable_ok: "inbox_history hexes (empty_inbox a) b \<Longrightarrow> inbox_ok b"
  by (drule inbox_history_good) (simp_all add: empty_inbox_ok)

subsection \<open>What a call that returned has done\<close>

lemma inbox_claim_Some:
  assumes ok: "inbox_ok b" and run: "inbox_claim hexes w w' ow src d b = (Inr (Some l), c)"
  shows "\<exists>r. find_message (il_source l, il_notification l) b = Some r \<and> granted l r c"
proof -
  obtain s where run: "inbox_transaction w (bind (inbox_now w') (claim_at hexes ow src s)) b = (Inr (Some l), c)"
    using run by (auto simp: inbox_claim_def inbox_claim_body_def split: if_splits sum.splits)
  obtain t where d: "inbox_ok (b\<lparr>ib_clock := t\<rparr>)"
    and at: "claim_at hexes ow src s (ib_clock (b\<lparr>ib_clock := t\<rparr>)) (b\<lparr>ib_clock := t\<rparr>) = Inr (Some l, c)"
    by (rule inbox_transaction_at[OF ok run]) (blast intro: that)
  obtain r where "find_message (il_source l, il_notification l) (b\<lparr>ib_clock := t\<rparr>) = Some r" "granted l r c"
    using claim_at_Inr(4)[OF d at refl] by blast
  then show ?thesis by auto
qed

lemma inbox_later_fence:
  "inbox_later b c \<Longrightarrow> find_message k b = Some r \<Longrightarrow> \<exists>q. find_message k c = Some q \<and> ix_fence r \<le> ix_fence q"
  unfolding inbox_later_def inbox_row_later_def by fastforce

lemma inbox_later_consumed:
  "inbox_later b c \<Longrightarrow> find_message k b = Some r \<Longrightarrow> ix_state r = Inbox_Consumed \<Longrightarrow> find_message k c = Some r"
  unfolding inbox_later_def inbox_row_later_def by fastforce

text \<open>A message consumed by this very call, in one step with the application's change.\<close>

definition consumed_by :: "inbox_lease \<Rightarrow> 'app mutation option \<Rightarrow> 'app inbox \<Rightarrow> inbox_row \<Rightarrow> inbox_row \<Rightarrow> 'app inbox \<Rightarrow> bool" where
  "consumed_by l m b r x c \<longleftrightarrow> ix_state r = Inbox_Processing \<and> (\<exists>t e. ix_expires r = Some e \<and> t < e \<and>
       find_message (il_source l, il_notification l) c = Some (consume_row t r) \<and> x = inbox_record (consume_row t r)) \<and>
     (case m of None \<Rightarrow> ib_app c = ib_app b | Some f \<Rightarrow> f (ix_payload r) (ib_rows b) (ib_app b) = Some (ib_app c))"

lemma consumed_byI: "ix_state r = Inbox_Processing \<Longrightarrow> ix_expires r = Some e \<Longrightarrow> t < e \<Longrightarrow>
    find_message (il_source l, il_notification l) c = Some (consume_row t r) \<Longrightarrow> x = inbox_record (consume_row t r) \<Longrightarrow>
    (case m of None \<Rightarrow> ib_app c = ib_app b | Some f \<Rightarrow> f (ix_payload r) (ib_rows b) (ib_app b) = Some (ib_app c)) \<Longrightarrow>
    consumed_by l m b r x c"
  unfolding consumed_by_def by blast

lemma consumed_by_clock: "consumed_by l m (b\<lparr>ib_clock := t\<rparr>) r x c = consumed_by l m b r x c"
  by (cases m) (simp_all add: consumed_by_def)

lemma inbox_consume_Inr:
  assumes ok: "inbox_ok b" and run: "inbox_consume w w' w'' l m b = (Inr x, c)"
  shows "\<exists>r. find_message (il_source l, il_notification l) b = Some r \<and> lease_holds r l \<and>
      (ix_state r = Inbox_Consumed \<and> (\<exists>t. c = b\<lparr>ib_clock := t\<rparr>) \<and> x = inbox_record r \<or> consumed_by l m b r x c)"
proof -
  have tr: "inbox_transaction w (bind (inbox_now w') (consume_at l m w'')) b = (Inr x, c)"
    using run by (simp add: inbox_consume_def consume_body_def split: if_splits)
  obtain t where d: "inbox_ok (b\<lparr>ib_clock := t\<rparr>)"
    and at: "consume_at l m w'' (ib_clock (b\<lparr>ib_clock := t\<rparr>)) (b\<lparr>ib_clock := t\<rparr>) = Inr (x, c)"
    by (rule inbox_transaction_at[OF ok tr]) (blast intro: that)
  obtain r where r: "find_message (il_source l, il_notification l) b = Some r" "lease_holds r l"
    and alt: "ix_state r = Inbox_Consumed \<and> c = b\<lparr>ib_clock := t\<rparr> \<and> x = inbox_record r \<or> consumed_by l m b r x c"
    using consume_at_Inr(3)[OF d at] unfolding find_message_fields
    by (elim exE conjE disjE) (rule that, assumption, assumption, simp, rule that, assumption, assumption,
      rule disjI2, subst consumed_by_clock[where t = t, symmetric], erule (5) consumed_byI)
  show ?thesis
  proof (intro exI conjI)
    show "ix_state r = Inbox_Consumed \<and> (\<exists>t. c = b\<lparr>ib_clock := t\<rparr>) \<and> x = inbox_record r \<or> consumed_by l m b r x c"
      using alt by (elim disjE conjE) (rule disjI1, intro conjI exI, assumption+, rule disjI2, assumption)
  qed (fact r)+
qed

lemma inbox_fail_Inr:
  assumes ok: "inbox_ok b" and run: "inbox_fail w w' l v d b = (Inr x, c)"
  shows "\<exists>r. find_message (il_source l, il_notification l) b = Some r \<and> lease_holds r l \<and> ix_state r \<noteq> Inbox_Consumed"
proof -
  obtain s where tr: "inbox_transaction w (bind (inbox_now w') (fail_at l v s)) b = (Inr x, c)"
    using run by (auto simp: inbox_fail_def fail_body_def split: if_splits sum.splits)
  obtain t where d: "inbox_ok (b\<lparr>ib_clock := t\<rparr>)"
    and at: "fail_at l v s (ib_clock (b\<lparr>ib_clock := t\<rparr>)) (b\<lparr>ib_clock := t\<rparr>) = Inr (x, c)"
    by (rule inbox_transaction_at[OF ok tr]) (blast intro: that)
  show ?thesis using fail_at_Inr(4)[OF d at] by auto
qed

text \<open>A call that raised has changed at most the clock.\<close>

lemma same_clock: "\<exists>t. b = b\<lparr>ib_clock := t\<rparr>"
  by (rule exI[of _ "ib_clock b"]) simp

lemma inbox_consume_Inl: "inbox_consume w w' w'' l m b = (Inl e, c) \<Longrightarrow> \<exists>t. c = b\<lparr>ib_clock := t\<rparr>"
  using inbox_transaction_Inl[OF _ forward_bodies(3), of w l m w' w'' b e c] same_clock[of b]
  by (auto simp: inbox_consume_def split: if_splits)

lemma inbox_fail_Inl: "inbox_fail w w' l v d b = (Inl e, c) \<Longrightarrow> \<exists>t. c = b\<lparr>ib_clock := t\<rparr>"
  using inbox_transaction_Inl[OF _ forward_bodies(4), of w l v _ w' b e c] same_clock[of b]
  by (auto simp: inbox_fail_def split: if_splits sum.splits)

text \<open>The calls of a lease that the message does not bear any more.\<close>

lemma not_held_refused:
  assumes ok: "inbox_ok b" and r: "find_message (il_source l, il_notification l) b = Some r" "\<not> lease_holds r l"
  shows "\<exists>e t. inbox_consume w w' w'' l m b = (Inl e, b\<lparr>ib_clock := t\<rparr>)"
    and "\<exists>e t. inbox_fail w w' l v d b = (Inl e, b\<lparr>ib_clock := t\<rparr>)"
proof -
  have "fst (inbox_consume w w' w'' l m b) \<noteq> Inr x" for x
    using inbox_consume_Inr[OF ok, of w w' w'' l m x "snd (inbox_consume w w' w'' l m b)"] r by (auto simp: prod_eq_iff)
  then obtain e where "inbox_consume w w' w'' l m b = (Inl e, snd (inbox_consume w w' w'' l m b))"
    by (metis old.sum.exhaust prod.collapse)
  then show "\<exists>e t. inbox_consume w w' w'' l m b = (Inl e, b\<lparr>ib_clock := t\<rparr>)" using inbox_consume_Inl by metis
  have "fst (inbox_fail w w' l v d b) \<noteq> Inr x" for x
    using inbox_fail_Inr[OF ok, of w w' l v d x "snd (inbox_fail w w' l v d b)"] r by (auto simp: prod_eq_iff)
  then obtain e where "inbox_fail w w' l v d b = (Inl e, snd (inbox_fail w w' l v d b))"
    by (metis old.sum.exhaust prod.collapse)
  then show "\<exists>e t. inbox_fail w w' l v d b = (Inl e, b\<lparr>ib_clock := t\<rparr>)" using inbox_fail_Inl by metis
qed

lemma inbox_consume_again:
  assumes "find_message (il_source l, il_notification l) b = Some r" and "lease_holds r l" and "ix_state r = Inbox_Consumed"
    and "lease_named l" and "0 \<le> w" and "0 \<le> w'"
  shows "\<exists>t. inbox_consume w w' w'' l m b = (Inr (inbox_record r), b\<lparr>ib_clock := t\<rparr>)"
proof -
  let ?t = "max (ib_clock b) w" and ?u = "max (max (ib_clock b) w) w'"
  have n1: "inbox_now w b = Inr (?t, b\<lparr>ib_clock := ?t\<rparr>)"
    and n2: "inbox_now w' (b\<lparr>ib_clock := ?t\<rparr>) = Inr (?u, b\<lparr>ib_clock := ?u\<rparr>)"
    using assms(5,6) by (simp_all add: inbox_now_Inr)
  have m: "inbox_message (il_source l) (il_notification l) (b\<lparr>ib_clock := ?u\<rparr>) = Inr (r, b\<lparr>ib_clock := ?u\<rparr>)"
    using assms(1) by simp
  have "consume_at l m w'' ?u (b\<lparr>ib_clock := ?u\<rparr>) = Inr (inbox_record r, b\<lparr>ib_clock := ?u\<rparr>)"
    unfolding consume_at_def bind_def m using assms(2,3) by (simp add: ret_def)
  then have "consume_body l m w' w'' (b\<lparr>ib_clock := ?t\<rparr>) = Inr (inbox_record r, b\<lparr>ib_clock := ?u\<rparr>)"
    unfolding consume_body_def bind_def n2 by simp
  then have "inbox_transaction w (consume_body l m w' w'') b = (Inr (inbox_record r), b\<lparr>ib_clock := ?u\<rparr>)"
    unfolding inbox_transaction_def n1 by simp
  then show ?thesis using assms(4) by (auto simp: inbox_consume_def)
qed

lemma inbox_consume_settled:
  assumes ok: "inbox_ok b" and run: "inbox_consume w w' w'' l m b = (Inr x, c)"
  obtains q p where "find_message (il_source l, il_notification l) b = Some q"
    and "find_message (il_source l, il_notification l) c = Some p" and "ix_state p = Inbox_Consumed"
    and "lease_holds p l" and "x = inbox_record p"
    and "ix_state q = Inbox_Consumed \<and> (\<exists>t. c = b\<lparr>ib_clock := t\<rparr>) \<or>
       ix_state q = Inbox_Processing \<and> ix_payload p = ix_payload q \<and>
         ib_app c = (case m of None \<Rightarrow> ib_app b | Some f \<Rightarrow> the (f (ix_payload q) (ib_rows b) (ib_app b)))"
proof -
  let ?k = "(il_source l, il_notification l)"
  obtain q where q: "find_message ?k b = Some q" "lease_holds q l" and alt: "ix_state q = Inbox_Consumed \<and>
      (\<exists>t. c = b\<lparr>ib_clock := t\<rparr>) \<and> x = inbox_record q \<or> consumed_by l m b q x c"
    using inbox_consume_Inr[OF ok run] by blast
  from alt show thesis
  proof
    assume old: "ix_state q = Inbox_Consumed \<and> (\<exists>t. c = b\<lparr>ib_clock := t\<rparr>) \<and> x = inbox_record q"
    then have "find_message ?k c = Some q" using q(1) by (elim conjE exE) simp
    then show thesis using that[OF q(1)] old q(2) by blast
  next
    assume new: "consumed_by l m b q x c"
    then obtain t where f: "find_message ?k c = Some (consume_row t q)" and x: "x = inbox_record (consume_row t q)"
      and st: "ix_state q = Inbox_Processing"
      and m: "case m of None \<Rightarrow> ib_app c = ib_app b | Some f \<Rightarrow> f (ix_payload q) (ib_rows b) (ib_app b) = Some (ib_app c)"
      unfolding consumed_by_def by blast
    have "ix_state (consume_row t q) = Inbox_Consumed" "ix_payload (consume_row t q) = ix_payload q"
      and "lease_holds (consume_row t q) l" using q(2) by (simp_all add: consume_row_def lease_holds_def)
    moreover have "ib_app c = (case m of None \<Rightarrow> ib_app b | Some f \<Rightarrow> the (f (ix_payload q) (ib_rows b) (ib_app b)))"
      using m by (cases m) simp_all
    ultimately show thesis using that[OF q(1) f _ _ x] st by blast
  qed
qed

text \<open>A consumed message is never failed.\<close>

lemma consumed_not_failed:
  assumes ok: "inbox_ok b" and r: "find_message (il_source l, il_notification l) b = Some r" "ix_state r = Inbox_Consumed"
  shows "\<exists>e t. inbox_fail w w' l v d b = (Inl e, b\<lparr>ib_clock := t\<rparr>)"
proof -
  have "fst (inbox_fail w w' l v d b) \<noteq> Inr x" for x
    using inbox_fail_Inr[OF ok, of w w' l v d x "snd (inbox_fail w w' l v d b)"] r by (auto simp: prod_eq_iff)
  then obtain e where "inbox_fail w w' l v d b = (Inl e, snd (inbox_fail w w' l v d b))"
    by (metis old.sum.exhaust prod.collapse)
  then show ?thesis using inbox_fail_Inl by metis
qed

end
