(* ===== verification/Reception.thy ===== *)
theory Reception
  imports Messages Example
begin

text \<open>
  The properties of the notification inbox, with a concrete history that shows each of them
  at work.
\<close>

subsection \<open>A concrete history\<close>

text \<open>One notification, leased twice; the application counts what it has consumed.\<close>

definition demo_lease_id :: "nat \<Rightarrow> string" where
  "demo_lease_id n = (if n = 0 then ''first'' else ''second'')"

definition demo_payload :: pyval where
  "demo_payload = PDict [(PStr ''value'', PInt 7)]"

definition demo_inbox :: "inbox_row \<Rightarrow> rat \<Rightarrow> nat \<Rightarrow> nat \<Rightarrow> nat inbox" where
  "demo_inbox r t u n = \<lparr>ib_rows = [r], ib_clock = t, ib_uuids = u, ib_app = n\<rparr>"

definition demo_row :: inbox_row where
  "demo_row = new_message ''run'' ''n1'' demo_payload 3 1"

definition demo_leased_row :: inbox_row where
  "demo_leased_row = claim_row_of ''first'' ''worker'' 7 2 demo_row"

definition demo_leased_again_row :: inbox_row where
  "demo_leased_again_row = claim_row_of ''second'' ''worker'' 14 9 (expire_row 9 demo_leased_row)"

definition demo_lease :: "string \<Rightarrow> int \<Rightarrow> inbox_lease" where
  "demo_lease i n = \<lparr>il_source = ''run'', il_notification = ''n1'', il_lease = i, il_owner = ''worker'', il_fence = n,
     il_expires = (if n = 1 then 7 else 14), il_attempt = n, il_payload = demo_payload\<rparr>"

definition count_payload :: "nat mutation" where
  "count_payload v rows n = Some (n + 1)"

lemma demo_accepts:
  "inbox_accept 1 1 ''run'' demo_payload (Some ''n1'') 3 (empty_inbox 0) = (Inr (inbox_record demo_row), demo_inbox demo_row 1 0 0)"
  by code_simp

lemma demo_claims: "inbox_claim demo_lease_id 2 2 ''worker'' None (PInt 5) (demo_inbox demo_row 1 0 0) =
    (Inr (Some (demo_lease ''first'' 1)), demo_inbox demo_leased_row 2 1 0)"
  by code_simp

lemma demo_claims_again: "inbox_claim demo_lease_id 9 9 ''worker'' None (PInt 5) (demo_inbox demo_leased_row 2 1 0) =
    (Inr (Some (demo_lease ''second'' 2)), demo_inbox demo_leased_again_row 9 2 0)"
  by code_simp

lemma demo_consumes: "inbox_consume 10 10 11 (demo_lease ''second'' 2) (Some count_payload) (demo_inbox demo_leased_again_row 9 2 0) =
    (Inr (inbox_record (consume_row 11 demo_leased_again_row)), demo_inbox (consume_row 11 demo_leased_again_row) 11 2 1)"
  by code_simp

lemma demo_history:
  "inbox_history demo_lease_id (empty_inbox 0) (demo_inbox demo_row 1 0 0)"
  "inbox_history demo_lease_id (empty_inbox 0) (demo_inbox demo_leased_row 2 1 0)"
  "inbox_history demo_lease_id (empty_inbox 0) (demo_inbox demo_leased_again_row 9 2 0)"
  using inbox_call[OF inbox_none accept_step[OF demo_accepts]]
    inbox_call[OF inbox_call[OF inbox_none accept_step[OF demo_accepts]] claim_step[OF demo_claims]]
    inbox_call[OF inbox_call[OF inbox_call[OF inbox_none accept_step[OF demo_accepts]] claim_step[OF demo_claims]]
      claim_step[OF demo_claims_again]]
  by blast+

subsection \<open>The properties\<close>

text \<open>
  C34. A worker whose lease was taken over cannot settle the message: once a later claim has
  granted the message again, both \<open>consume\<close> and \<open>fail\<close> with the earlier lease raise, in
  whatever state the inbox is by then and whatever their arguments, and neither the messages
  nor the application's tables change.
\<close>
theorem superseded_lease_refused:
  assumes b: "inbox_history hexes (empty_inbox a) b"
    and first: "inbox_claim hexes w1 w2 owner source d b = (Inr (Some l), b1)"
    and between: "inbox_history hexes b1 b2"
    and second: "inbox_claim hexes w3 w4 owner' source' d' b2 = (Inr (Some l'), b3)"
    and same: "il_source l' = il_source l" "il_notification l' = il_notification l"
    and later: "inbox_history hexes b3 c"
  shows "il_fence l < il_fence l' \<and>
    (\<exists>e t. inbox_consume u1 u2 u3 l m c = (Inl e, c\<lparr>ib_clock := t\<rparr>)) \<and>
    (\<exists>e t. inbox_fail u1 u2 l v s c = (Inl e, c\<lparr>ib_clock := t\<rparr>))"
proof -
  let ?k = "(il_source l, il_notification l)"
  note b = inbox_reachable_ok[OF b]
  note b1 = inbox_claim_good[OF first b] and g1 = inbox_claim_Some[OF b first]
  note b2 = inbox_history_good[OF between conjunct1[OF b1]]
  note b3 = inbox_claim_good[OF second conjunct1[OF b2]] and g2 = inbox_claim_Some[OF conjunct1[OF b2] second]
  note c = inbox_history_good[OF later conjunct1[OF b3]]
  obtain q where q: "find_message ?k b1 = Some q" "ix_fence q = il_fence l"
    using g1 by (auto simp: granted_def lease_holds_def)
  obtain r where r: "find_message ?k b2 = Some r" "ix_fence q \<le> ix_fence r"
    using inbox_later_fence[OF conjunct2[OF b2] q(1)] by blast
  obtain r' where r': "find_message ?k b3 = Some r'" "ix_fence r' = il_fence l'" "il_fence l' = ix_fence r + 1"
    using g2 r(1) by (auto simp: granted_def lease_holds_def same)
  obtain p where p: "find_message ?k c = Some p" "ix_fence r' \<le> ix_fence p"
    using inbox_later_fence[OF conjunct2[OF c] r'(1)] by blast
  have f: "il_fence l < il_fence l'" "il_fence l < ix_fence p" using q r r' p by simp_all
  then have "\<not> lease_holds p l" by (simp add: lease_holds_def)
  then show ?thesis using not_held_refused[OF conjunct1[OF c] p(1)] f(1) by blast
qed

theorem superseded_lease_refused_witness:
  "\<exists>e t. inbox_consume 10 10 11 (demo_lease ''first'' 1) (Some count_payload) (demo_inbox demo_leased_again_row 9 2 0) =
    (Inl e, (demo_inbox demo_leased_again_row 9 2 0)\<lparr>ib_clock := t\<rparr>)"
proof -
  have "il_source (demo_lease ''second'' 2) = il_source (demo_lease ''first'' 1)"
    "il_notification (demo_lease ''second'' 2) = il_notification (demo_lease ''first'' 1)" by (simp_all add: demo_lease_def)
  note s = superseded_lease_refused[OF demo_history(1) demo_claims inbox_none demo_claims_again this inbox_none]
  then show ?thesis by blast
qed

text \<open>
  C35. Consuming is atomic and happens once. A \<open>consume\<close> that raises has changed neither the
  messages nor the application's tables. One that returns either found the message already
  consumed under this very lease, and changed nothing, or held the lease in force and marked
  the message consumed together with exactly the application's change; then, however the
  inbox goes on, the message stays consumed as it is, another \<open>consume\<close> with the lease gives
  the same record without running the mutation, and every \<open>fail\<close> raises.
\<close>
theorem consumed_once:
  assumes b: "inbox_history hexes (empty_inbox a) b" and run: "inbox_consume w1 w2 w3 l m b = (r, c)"
  shows "case r of
      Inl e \<Rightarrow> \<exists>t. c = b\<lparr>ib_clock := t\<rparr>
    | Inr x \<Rightarrow>
        \<exists>q p. find_message (il_source l, il_notification l) b = Some q \<and>
          find_message (il_source l, il_notification l) c = Some p \<and>
          ix_state p = Inbox_Consumed \<and> x = inbox_record p \<and>
          (ix_state q = Inbox_Consumed \<and> (\<exists>t. c = b\<lparr>ib_clock := t\<rparr>) \<or>
           ix_state q = Inbox_Processing \<and> ix_payload p = ix_payload q \<and>
             ib_app c = (case m of None \<Rightarrow> ib_app b | Some f \<Rightarrow> the (f (ix_payload q) (ib_rows b) (ib_app b)))) \<and>
          (\<forall>d. inbox_history hexes c d \<longrightarrow>
             find_message (il_source l, il_notification l) d = Some p \<and>
             (\<forall>u1 u2 u3 m'. 0 \<le> u1 \<longrightarrow> 0 \<le> u2 \<longrightarrow>
               (\<exists>t. inbox_consume u1 u2 u3 l m' d = (Inr x, d\<lparr>ib_clock := t\<rparr>))) \<and>
             (\<forall>u1 u2 v s. \<exists>e t. inbox_fail u1 u2 l v s d = (Inl e, d\<lparr>ib_clock := t\<rparr>)))"
proof (cases r)
  case (Inl e)
  then show ?thesis using inbox_consume_Inl run by simp
next
  case (Inr x)
  let ?k = "(il_source l, il_notification l)"
  note ok = inbox_reachable_ok[OF b]
  note c = inbox_consume_good[OF run ok]
  obtain q p where q: "find_message ?k b = Some q" and p: "find_message ?k c = Some p" "ix_state p = Inbox_Consumed"
      "lease_holds p l" "x = inbox_record p"
    and alt: "ix_state q = Inbox_Consumed \<and> (\<exists>t. c = b\<lparr>ib_clock := t\<rparr>) \<or>
       ix_state q = Inbox_Processing \<and> ix_payload p = ix_payload q \<and>
         ib_app c = (case m of None \<Rightarrow> ib_app b | Some f \<Rightarrow> the (f (ix_payload q) (ib_rows b) (ib_app b)))"
    by (rule inbox_consume_settled[OF ok run[unfolded Inr]])
  have nm: "lease_named l" using run Inr by (auto simp: inbox_consume_def split: if_splits)
  have stays: "\<forall>d. inbox_history hexes c d \<longrightarrow>
             find_message ?k d = Some p \<and>
             (\<forall>u1 u2 u3 m'. 0 \<le> u1 \<longrightarrow> 0 \<le> u2 \<longrightarrow>
               (\<exists>t. inbox_consume u1 u2 u3 l m' d = (Inr x, d\<lparr>ib_clock := t\<rparr>))) \<and>
             (\<forall>u1 u2 v s. \<exists>e t. inbox_fail u1 u2 l v s d = (Inl e, d\<lparr>ib_clock := t\<rparr>))"
  proof (intro allI impI)
    fix d assume "inbox_history hexes c d"
    note d = inbox_history_good[OF this conjunct1[OF c]]
    have f: "find_message ?k d = Some p" by (rule inbox_later_consumed[OF conjunct2[OF d] p(1,2)])
    show "find_message ?k d = Some p \<and>
        (\<forall>u1 u2 u3 m'. 0 \<le> u1 \<longrightarrow> 0 \<le> u2 \<longrightarrow> (\<exists>t. inbox_consume u1 u2 u3 l m' d = (Inr x, d\<lparr>ib_clock := t\<rparr>))) \<and>
        (\<forall>u1 u2 v s. \<exists>e t. inbox_fail u1 u2 l v s d = (Inl e, d\<lparr>ib_clock := t\<rparr>))"
      unfolding p(4) by (intro conjI allI impI f inbox_consume_again[OF f p(3,2) nm] consumed_not_failed[OF conjunct1[OF d] f p(2)])
  qed
  show ?thesis
    unfolding Inr sum.case
    by (rule exI[of _ q], rule exI[of _ p], rule conjI[OF q conjI[OF p(1) conjI[OF p(2) conjI[OF p(4) conjI[OF alt stays]]]]])
qed

theorem consumed_once_witness:
  "\<exists>t. inbox_consume 20 20 21 (demo_lease ''second'' 2) None (demo_inbox (consume_row 11 demo_leased_again_row) 11 2 1) =
    (Inr (inbox_record (consume_row 11 demo_leased_again_row)),
     (demo_inbox (consume_row 11 demo_leased_again_row) 11 2 1)\<lparr>ib_clock := t\<rparr>)"
proof -
  let ?c = "demo_inbox (consume_row 11 demo_leased_again_row) 11 2 1" and ?l = "demo_lease ''second'' 2"
  have "\<forall>u1 u2 u3 m'. 0 \<le> u1 \<longrightarrow> 0 \<le> u2 \<longrightarrow>
      (\<exists>t. inbox_consume u1 u2 u3 ?l m' ?c = (Inr (inbox_record (consume_row 11 demo_leased_again_row)), ?c\<lparr>ib_clock := t\<rparr>))"
    using consumed_once[OF demo_history(3) demo_consumes] unfolding sum.case
    by (elim exE conjE) (drule spec[of _ ?c], drule mp, rule inbox_none, elim conjE, assumption)
  from this[rule_format, of 20 20] show ?thesis by simp
qed

end
