(* ===== verification/Budget.thy ===== *)
theory Budget
  imports Contracts
begin

text \<open>
  Deadlines and clock continuity (\<open>execution_kernel/budget.py\<close>): a budget envelope carries
  deadline constraints and a checkpoint of the clock; it is observed through a later sample of
  the same clock domain, moved to a new checkpoint, and narrowed by further constraints.

  Times are the rationals of finite non-negative floats. The sample of the clock that an
  operation takes is its argument; \<open>sample_clock\<close>, the boot identifiers of the platforms and
  the mapping to a local timer (\<open>deadline_monotonic\<close>) are not modelled. \<open>math.fsum\<close> is the
  correctly rounded exact sum.
\<close>

datatype budget_error = Budget_Value | Clock_Unknown

definition budget_number :: "pyval \<Rightarrow> budget_error + rat" where
  "budget_number v = (case finite_value v of
     None \<Rightarrow> Inl Budget_Value | Some r \<Rightarrow> if r < 0 then Inl Budget_Value else Inr r)"

definition budget_positive :: "pyval \<Rightarrow> budget_error + rat" where
  "budget_positive v = rbind (budget_number v) (\<lambda>r. if r = 0 then Inl Budget_Value else Inr r)"

definition optional_number :: "pyval \<Rightarrow> budget_error + rat option" where
  "optional_number v = (if v = PNone then Inr None else rbind (budget_number v) (\<lambda>r. Inr (Some r)))"

definition budget_identifier :: "pyval \<Rightarrow> budget_error + string" where
  "budget_identifier v = (case v of
     PStr s \<Rightarrow> if nonblank s then Inr s else Inl Budget_Value | _ \<Rightarrow> Inl Budget_Value)"

definition budget_optional_identifier :: "pyval \<Rightarrow> budget_error + string option" where
  "budget_optional_identifier v =
     (if v = PNone then Inr None else rbind (budget_identifier v) (\<lambda>s. Inr (Some s)))"

definition budget_fields :: "string list \<Rightarrow> pyval \<Rightarrow> budget_error + (string \<Rightarrow> pyval)" where
  "budget_fields names v = (case exact_fields 1 (''schema_version'' # names) v of
     Inl _ \<Rightarrow> Inl Budget_Value | Inr f \<Rightarrow> Inr f)"

text \<open>The difference of two non-negative floats, which is finite.\<close>

definition fdiff :: "rat \<Rightarrow> rat \<Rightarrow> rat" where
  "fdiff a b = fround_val (a - b)"

subsection \<open>ClockCheckpoint\<close>

datatype clock_scope = Scope_Boot | Scope_Process | Scope_Unknown

fun scope_name :: "clock_scope \<Rightarrow> string" where
  "scope_name Scope_Boot = ''boot''"
| "scope_name Scope_Process = ''process''"
| "scope_name Scope_Unknown = ''unknown''"

definition parse_scope :: "pyval \<Rightarrow> budget_error + clock_scope" where
  "parse_scope v = (if v = PStr ''boot'' then Inr Scope_Boot else if v = PStr ''process'' then Inr Scope_Process
     else if v = PStr ''unknown'' then Inr Scope_Unknown else Inl Budget_Value)"

record checkpoint =
  ck_wall :: rat
  ck_elapsed :: rat
  ck_domain :: "string option"
  ck_scope :: clock_scope
  ck_reason :: "string option"

definition checkpoint_ok :: "checkpoint \<Rightarrow> bool" where
  "checkpoint_ok c \<longleftrightarrow> 0 \<le> ck_wall c \<and> 0 \<le> ck_elapsed c \<and> optional_ok nonblank (ck_domain c) \<and>
     (ck_scope c = Scope_Unknown \<longleftrightarrow> ck_domain c = None) \<and> optional_ok nonblank (ck_reason c)"

definition mk_checkpoint :: "pyval \<Rightarrow> pyval \<Rightarrow> pyval \<Rightarrow> pyval \<Rightarrow> pyval \<Rightarrow> budget_error + checkpoint" where
  "mk_checkpoint wall elapsed domain scope reason =
     rbind (budget_number wall) (\<lambda>w.
     rbind (budget_number elapsed) (\<lambda>e.
     rbind (parse_scope scope) (\<lambda>s.
     rbind (budget_optional_identifier domain) (\<lambda>d.
     rbind (require ((s = Scope_Unknown) = (d = None)) Budget_Value) (\<lambda>_.
     rbind (budget_optional_identifier reason) (\<lambda>r.
     Inr \<lparr>ck_wall = w, ck_elapsed = e, ck_domain = d, ck_scope = s, ck_reason = r\<rparr>))))))"

definition effective_time :: "checkpoint \<Rightarrow> checkpoint \<Rightarrow> rat option" where
  "effective_time c sample =
     (if ck_domain c = None \<or> ck_domain c \<noteq> ck_domain sample \<or> ck_scope c \<noteq> ck_scope sample \<or>
         ck_elapsed sample < ck_elapsed c then None
      else case fround (ck_elapsed sample - ck_elapsed c + ck_wall c) of
        None \<Rightarrow> None
      | Some r \<Rightarrow> Some (max (ck_wall sample) r))"

definition checkpoint_to_dict :: "checkpoint \<Rightarrow> pyval" where
  "checkpoint_to_dict c = py_dict [(''schema_version'', PInt 1), (''wall_at'', PFin (ck_wall c)),
     (''elapsed_at'', PFin (ck_elapsed c)), (''domain_id'', py_optional PStr (ck_domain c)),
     (''domain_scope'', PStr (scope_name (ck_scope c))), (''unknown_reason'', py_optional PStr (ck_reason c))]"

definition checkpoint_from_dict :: "pyval \<Rightarrow> budget_error + checkpoint" where
  "checkpoint_from_dict v =
     rbind (budget_fields [''wall_at'', ''elapsed_at'', ''domain_id'', ''domain_scope'', ''unknown_reason''] v) (\<lambda>f.
     mk_checkpoint (f ''wall_at'') (f ''elapsed_at'') (f ''domain_id'') (f ''domain_scope'') (f ''unknown_reason''))"

subsection \<open>DeadlineConstraint\<close>

datatype deadline_source = From_Run | From_Execution | From_Parent | From_Tool

fun source_name :: "deadline_source \<Rightarrow> string" where
  "source_name From_Run = ''run''"
| "source_name From_Execution = ''execution''"
| "source_name From_Parent = ''parent''"
| "source_name From_Tool = ''tool''"

definition parse_source :: "pyval \<Rightarrow> budget_error + deadline_source" where
  "parse_source v = (if v = PStr ''run'' then Inr From_Run else if v = PStr ''execution'' then Inr From_Execution
     else if v = PStr ''parent'' then Inr From_Parent else if v = PStr ''tool'' then Inr From_Tool
     else Inl Budget_Value)"

record deadline =
  dl_origin :: string
  dl_source :: deadline_source
  dl_deadline :: rat
  dl_reserve :: rat

definition deadline_ok :: "deadline \<Rightarrow> bool" where
  "deadline_ok d \<longleftrightarrow> nonblank (dl_origin d) \<and> 0 < dl_deadline d \<and> 0 \<le> dl_reserve d \<and> dl_reserve d \<le> dl_deadline d"

definition mk_deadline :: "pyval \<Rightarrow> pyval \<Rightarrow> pyval \<Rightarrow> pyval \<Rightarrow> budget_error + deadline" where
  "mk_deadline origin source when reserve =
     rbind (budget_identifier origin) (\<lambda>i.
     rbind (parse_source source) (\<lambda>s.
     rbind (budget_positive when) (\<lambda>d.
     rbind (budget_number reserve) (\<lambda>r.
     rbind (require (\<not> d < r) Budget_Value) (\<lambda>_.
     Inr \<lparr>dl_origin = i, dl_source = s, dl_deadline = d, dl_reserve = r\<rparr>)))))"

definition work_deadline :: "deadline \<Rightarrow> rat" where
  "work_deadline d = fdiff (dl_deadline d) (dl_reserve d)"

definition deadline_to_dict :: "deadline \<Rightarrow> pyval" where
  "deadline_to_dict d = py_dict [(''schema_version'', PInt 1), (''origin_id'', PStr (dl_origin d)),
     (''source'', PStr (source_name (dl_source d))), (''deadline_at'', PFin (dl_deadline d)),
     (''reserve_seconds'', PFin (dl_reserve d))]"

definition deadline_from_dict :: "pyval \<Rightarrow> budget_error + deadline" where
  "deadline_from_dict v =
     rbind (budget_fields [''origin_id'', ''source'', ''deadline_at'', ''reserve_seconds''] v) (\<lambda>f.
     mk_deadline (f ''origin_id'') (f ''source'') (f ''deadline_at'') (f ''reserve_seconds''))"

text \<open>\<open>_constraints\<close>: one constraint for each origin, in the order of their first mention.\<close>

fun merge_constraints :: "deadline list \<Rightarrow> deadline list \<Rightarrow> budget_error + deadline list" where
  "merge_constraints acc [] = Inr acc"
| "merge_constraints acc (c # cs) =
     (case sql_find dl_origin (dl_origin c) acc of
        None \<Rightarrow> merge_constraints (acc @ [c]) cs
      | Some d \<Rightarrow> if d \<noteq> c then Inl Budget_Value else merge_constraints acc cs)"

definition constraints :: "deadline list \<Rightarrow> budget_error + deadline list" where
  "constraints cs = merge_constraints [] cs"

text \<open>\<open>min(\<dots>, key=\<dots>, default=None)\<close>: the first of the least elements.\<close>

fun first_min :: "('a \<Rightarrow> rat) \<Rightarrow> 'a list \<Rightarrow> 'a option" where
  "first_min key [] = None"
| "first_min key (x # xs) = Some (foldl (\<lambda>m y. if key y < key m then y else m) x xs)"

definition limiting_work :: "deadline list \<Rightarrow> deadline option" where
  "limiting_work = first_min work_deadline"

definition limiting_hard :: "deadline list \<Rightarrow> deadline option" where
  "limiting_hard = first_min dl_deadline"

subsection \<open>ExecutionBudget\<close>

record execution_budget =
  eb_started :: "rat option"
  eb_constraints :: "deadline list"
  eb_observed :: "rat option"
  eb_work_deadline :: "rat option"
  eb_hard_deadline :: "rat option"
  eb_work_source :: "deadline_source option"
  eb_hard_source :: "deadline_source option"
  eb_work_remaining :: "rat option"
  eb_hard_remaining :: "rat option"
  eb_trusted :: bool
  eb_reason :: "string option"

definition remaining_time :: "rat option \<Rightarrow> rat \<Rightarrow> rat option" where
  "remaining_time deadline now = map_option (\<lambda>d. max 0 (fdiff d now)) deadline"

definition mk_execution_budget :: "execution_budget \<Rightarrow> budget_error + execution_budget" where
  "mk_execution_budget b =
     rbind (constraints (eb_constraints b)) (\<lambda>cs.
     rbind (require (list_all (optional_ok (\<lambda>r. 0 \<le> r)) [eb_started b, eb_observed b, eb_work_deadline b,
       eb_hard_deadline b, eb_work_remaining b, eb_hard_remaining b]) Budget_Value) (\<lambda>_.
     rbind (require (optional_ok nonblank (eb_reason b)) Budget_Value) (\<lambda>_.
     rbind (require (eb_trusted b \<or> eb_observed b = None \<and> eb_work_remaining b = None \<and>
       eb_hard_remaining b = None) Budget_Value) (\<lambda>_.
     rbind (require (\<not> eb_trusted b \<or> eb_observed b \<noteq> None) Budget_Value) (\<lambda>_.
     rbind (require ((map_option work_deadline (limiting_work cs), map_option dl_deadline (limiting_hard cs),
         map_option dl_source (limiting_work cs), map_option dl_source (limiting_hard cs)) =
       (eb_work_deadline b, eb_hard_deadline b, eb_work_source b, eb_hard_source b)) Budget_Value) (\<lambda>_.
     rbind (require (case eb_observed b of
         None \<Rightarrow> True
       | Some now \<Rightarrow> eb_trusted b \<longrightarrow> remaining_time (eb_work_deadline b) now = eb_work_remaining b \<and>
           remaining_time (eb_hard_deadline b) now = eb_hard_remaining b) Budget_Value) (\<lambda>_.
     Inr (b\<lparr>eb_constraints := cs\<rparr>))))))))"

subsection \<open>BudgetEnvelope\<close>

record envelope =
  be_constraints :: "deadline list"
  be_checkpoint :: checkpoint
  be_started :: "rat option"

definition mk_envelope :: "deadline list \<Rightarrow> checkpoint \<Rightarrow> pyval \<Rightarrow> budget_error + envelope" where
  "mk_envelope cs c started =
     rbind (constraints cs) (\<lambda>ds.
     rbind (optional_number started) (\<lambda>s.
     Inr \<lparr>be_constraints = ds, be_checkpoint = c, be_started = s\<rparr>))"

definition continuity_unproven :: string where
  "continuity_unproven = ''clock_domain_continuity_unproven''"

definition budget_view :: "checkpoint \<Rightarrow> envelope \<Rightarrow> budget_error + execution_budget" where
  "budget_view sample e =
     (let now = effective_time (be_checkpoint e) sample;
          work = limiting_work (be_constraints e); hard = limiting_hard (be_constraints e) in
      mk_execution_budget \<lparr>eb_started = be_started e, eb_constraints = be_constraints e, eb_observed = now,
        eb_work_deadline = map_option work_deadline work, eb_hard_deadline = map_option dl_deadline hard,
        eb_work_source = map_option dl_source work, eb_hard_source = map_option dl_source hard,
        eb_work_remaining = (case now of None \<Rightarrow> None | Some t \<Rightarrow> remaining_time (map_option work_deadline work) t),
        eb_hard_remaining = (case now of None \<Rightarrow> None | Some t \<Rightarrow> remaining_time (map_option dl_deadline hard) t),
        eb_trusted = (now \<noteq> None),
        eb_reason = (if now = None then Some continuity_unproven else None)\<rparr>)"

text \<open>The exact elapsed time, rounded up when the nearest float is below it.\<close>

definition round_up :: "rat \<Rightarrow> budget_error + rat" where
  "round_up exact =
     (let near = fround_val exact in
      if near < exact then (case fnext near of None \<Rightarrow> Inl Clock_Unknown | Some r \<Rightarrow> Inr r) else Inr near)"

definition recheckpoint :: "checkpoint \<Rightarrow> envelope \<Rightarrow> budget_error + envelope" where
  "recheckpoint sample e =
     (let c = be_checkpoint e in
      case effective_time c sample of
        None \<Rightarrow> Inl Clock_Unknown
      | Some _ \<Rightarrow>
          rbind (round_up (max (ck_wall sample) (ck_wall c + ck_elapsed sample - ck_elapsed c))) (\<lambda>wall.
          mk_envelope (be_constraints e) (sample\<lparr>ck_wall := wall\<rparr>) (py_optional PFin (be_started e))))"

definition with_clock_floor :: "checkpoint \<Rightarrow> envelope \<Rightarrow> budget_error + envelope" where
  "with_clock_floor other e =
     (if ck_elapsed (be_checkpoint e) \<le> ck_elapsed other then recheckpoint other e
      else rbind (mk_envelope (be_constraints e) other (py_optional PFin (be_started e)))
        (recheckpoint (be_checkpoint e)))"

text \<open>A deadline in the future of a floor; the sum may be infinite.\<close>

definition deadline_after :: "rat \<Rightarrow> rat \<Rightarrow> pyval" where
  "deadline_after wall timeout = (case fadd wall timeout of None \<Rightarrow> PFloat PosInf | Some r \<Rightarrow> PFin r)"

definition enter_handler :: "pyval \<Rightarrow> pyval \<Rightarrow> pyval \<Rightarrow> checkpoint \<Rightarrow> envelope \<Rightarrow> budget_error + envelope" where
  "enter_handler timeout origin reserve sample e =
     rbind (recheckpoint sample e) (\<lambda>resumed.
     rbind (budget_positive timeout) (\<lambda>seconds.
     rbind (budget_number reserve) (\<lambda>res.
     rbind (budget_identifier origin) (\<lambda>i.
     let wall = ck_wall (be_checkpoint resumed) in
     case sql_find dl_origin i (be_constraints e) of
       Some d \<Rightarrow>
         rbind (require (dl_source d = From_Execution \<and> dl_reserve d = res) Budget_Value) (\<lambda>_.
         mk_envelope (be_constraints resumed) (be_checkpoint resumed) (PFin wall))
     | None \<Rightarrow>
         rbind (mk_deadline (PStr i) (PStr ''execution'') (deadline_after wall seconds) (PFin res)) (\<lambda>d.
         mk_envelope (be_constraints resumed @ [d]) (be_checkpoint resumed) (PFin wall))))))"

definition with_started_at :: "pyval \<Rightarrow> envelope \<Rightarrow> budget_error + envelope" where
  "with_started_at started e = mk_envelope (be_constraints e) (be_checkpoint e) started"

definition derive_budget ::
  "pyval \<Rightarrow> pyval \<Rightarrow> pyval \<Rightarrow> pyval \<Rightarrow> pyval \<Rightarrow> checkpoint \<Rightarrow> envelope \<Rightarrow> budget_error + envelope" where
  "derive_budget source origin timeout deadline_at reserve sample e =
     rbind (require ((timeout = PNone) \<noteq> (deadline_at = PNone)) Budget_Value) (\<lambda>_.
     rbind (recheckpoint sample e) (\<lambda>resumed.
     rbind (if timeout \<noteq> PNone
            then rbind (budget_positive timeout) (\<lambda>s. Inr (deadline_after (ck_wall (be_checkpoint resumed)) s))
            else Inr deadline_at) (\<lambda>when.
     rbind (mk_deadline origin source when reserve) (\<lambda>d.
     rbind (constraints (be_constraints resumed @ [d])) (\<lambda>cs.
     mk_envelope cs (be_checkpoint resumed) (py_optional PFin (be_started resumed)))))))"

definition envelope_to_dict :: "envelope \<Rightarrow> pyval" where
  "envelope_to_dict e = py_dict [(''schema_version'', PInt 1),
     (''constraints'', PList (List.map deadline_to_dict (be_constraints e))),
     (''checkpoint'', checkpoint_to_dict (be_checkpoint e)), (''started_at'', py_optional PFin (be_started e))]"

fun deadlines_from :: "pyval list \<Rightarrow> budget_error + deadline list" where
  "deadlines_from [] = Inr []"
| "deadlines_from (v # vs) = rbind (deadline_from_dict v) (\<lambda>d. rbind (deadlines_from vs) (\<lambda>ds. Inr (d # ds)))"

definition envelope_from_dict :: "pyval \<Rightarrow> budget_error + envelope" where
  "envelope_from_dict v =
     rbind (budget_fields [''constraints'', ''checkpoint'', ''started_at''] v) (\<lambda>f.
     case f ''constraints'' of
       PList vs \<Rightarrow>
         rbind (deadlines_from vs) (\<lambda>cs.
         rbind (checkpoint_from_dict (f ''checkpoint'')) (\<lambda>c. mk_envelope cs c (f ''started_at'')))
     | _ \<Rightarrow> Inl Budget_Value)"

end
