(* ===== verification/Budgets.thy ===== *)
theory Budgets
  imports Budget Example
begin

text \<open>
  What a budget guarantees: it can always be observed, it survives its own record format, and
  no operation on it ever gives its holder more time.
\<close>

subsection \<open>Constraints\<close>

definition constraints_ok :: "deadline list \<Rightarrow> bool" where
  "constraints_ok cs \<longleftrightarrow> distinct (List.map dl_origin cs) \<and> (\<forall>d \<in> set cs. deadline_ok d)"

lemma merge_distinct: "distinct (List.map dl_origin (acc @ cs)) \<Longrightarrow> merge_constraints acc cs = Inr (acc @ cs)"
proof (induction cs arbitrary: acc)
  case (Cons c cs)
  then have "sql_find dl_origin (dl_origin c) acc = None" by (auto simp: sql_find_None)
  then show ?case using Cons by simp
qed simp

lemma constraints_distinct: "distinct (List.map dl_origin cs) \<Longrightarrow> constraints cs = Inr cs"
  using merge_distinct[of "[]" cs] by (simp add: constraints_def)

lemma merge_Inr:
  "merge_constraints acc cs = Inr ds \<Longrightarrow> distinct (List.map dl_origin acc) \<Longrightarrow>
     distinct (List.map dl_origin ds) \<and> set ds = set acc \<union> set cs"
proof (induction cs arbitrary: acc)
  case (Cons c cs)
  show ?case
  proof (cases "sql_find dl_origin (dl_origin c) acc")
    case None
    then have "dl_origin c \<notin> dl_origin ` set acc" by (simp add: sql_find_None)
    then have "distinct (List.map dl_origin ds) \<and> set ds = set (acc @ [c]) \<union> set cs"
      using Cons None by simp
    then show ?thesis by auto
  next
    case (Some d)
    then have "d = c" "merge_constraints acc cs = Inr ds" using Cons(2) by (auto split: if_splits)
    moreover have "d \<in> set acc" using Some by (auto dest: sql_find_Some)
    ultimately show ?thesis using Cons(1)[OF _ Cons(3)] by auto
  qed
qed simp

lemma constraints_Inr:
  "constraints cs = Inr ds \<Longrightarrow> distinct (List.map dl_origin ds) \<and> set ds = set cs"
  using merge_Inr[of "[]" cs ds] by (simp add: constraints_def)

lemma first_min_fold:
  "foldl (\<lambda>m y. if key y < key m then y else m) x xs \<in> insert x (set xs) \<and>
   (\<forall>y \<in> insert x (set xs). key (foldl (\<lambda>m y. if key y < key m then y else m) x xs) \<le> (key y :: rat))"
proof (induction xs arbitrary: x)
  case (Cons z zs)
  show ?case using Cons[of "if key z < key x then z else x"] by (auto split: if_splits)
qed simp

text \<open>The reference: an element of the list whose key is the least.\<close>

lemma first_min_Some: "first_min key xs = Some x \<Longrightarrow> x \<in> set xs \<and> (\<forall>y \<in> set xs. key x \<le> key y)"
  using first_min_fold[of key] by (cases xs) fastforce+

lemma first_min_None [simp]: "first_min key xs = None \<longleftrightarrow> xs = []"
  by (cases xs) simp_all

text \<open>A bound that is absent is infinite.\<close>

fun at_most :: "rat option \<Rightarrow> rat option \<Rightarrow> bool" where
  "at_most a None = True"
| "at_most None (Some b) = False"
| "at_most (Some a) (Some b) = (a \<le> b)"

lemma at_most_refl [simp]: "at_most a a"
  by (cases a) simp_all

lemma at_most_trans: "at_most a b \<Longrightarrow> at_most b c \<Longrightarrow> at_most a c"
  by (cases a; cases b; cases c) auto

lemma first_min_subset:
  assumes "set xs \<subseteq> set ys"
  shows "at_most (map_option key (first_min key ys)) (map_option key (first_min key xs))"
proof (cases "first_min key xs")
  case (Some x)
  then have x: "x \<in> set ys" using first_min_Some[OF Some] assms by blast
  then obtain y where y: "first_min key ys = Some y" by (cases ys) auto
  have "key y \<le> key x" using first_min_Some[OF y] x by blast
  then show ?thesis by (simp add: Some y)
qed simp

subsection \<open>Rounding\<close>

lemma fdiff_nonneg: "b \<le> a \<Longrightarrow> 0 \<le> fdiff a b"
  using fround_val_mono[of 0 "a - b"] by (simp add: fdiff_def fround_val_def)

lemma fdiff_mono: "a \<le> a' \<Longrightarrow> b' \<le> b \<Longrightarrow> fdiff a b \<le> fdiff a' b'"
  unfolding fdiff_def by (rule fround_val_mono) simp

lemma work_deadline_nonneg: "deadline_ok d \<Longrightarrow> 0 \<le> work_deadline d"
  by (simp add: work_deadline_def deadline_ok_def fdiff_nonneg)

lemma fdiff_max: "a \<le> a' \<Longrightarrow> b' \<le> b \<Longrightarrow> max 0 (fdiff a b) \<le> max 0 (fdiff a' b')"
  by (rule max.mono) (simp_all add: fdiff_mono)

lemma remaining_mono:
  "at_most d' d \<Longrightarrow> t \<le> t' \<Longrightarrow> at_most (remaining_time d' t') (remaining_time d t)"
  by (cases d; cases d') (simp_all add: remaining_time_def fdiff_max del: max.bounded_iff)

text \<open>The next float after a value that was rounded down is above the exact value.\<close>

lemma fround_pos_next:
  assumes x: "0 < x" and below: "fround_pos x < x" and n: "fnext (fround_pos x) = Some y"
  shows "x \<le> y"
proof -
  let ?e = "fexp x" let ?q = "x / 2 powi ?e" let ?m = "rne ?q"
  have p: "0 < (2::rat) powi ?e" by simp
  have fp: "fround_pos x = of_int ?m * 2 powi ?e" by (simp add: fround_pos_def)
  have close: "?q \<le> of_int ?m + 1 / 2" using rne_close[of ?q] unfolding abs_le_iff by linarith
  have xq: "x = ?q * 2 powi ?e" using p by simp
  have up: "x \<le> fround_pos x + 2 powi ?e"
  proof -
    have "?q * 2 powi ?e \<le> (of_int ?m + 1) * 2 powi ?e" using close p by (intro mult_right_mono) auto
    then show ?thesis using xq by (simp add: fp distrib_right)
  qed
  show ?thesis
  proof (cases "fround_pos x = 0")
    case True
    then have m: "?m = 0" using fp p by simp
    have "?e = - 1074"
    proof (rule ccontr)
      assume "?e \<noteq> - 1074"
      then have e: "?e = flog2 x - 52" using fexp_ge[of x] by (simp add: fexp_def)
      have "2 powi flog2 x / 2 powi ?e \<le> ?q" using flog2_bounds(1)[OF x] p by (intro divide_right_mono) auto
      then have "2 powi 52 \<le> ?q" by (simp add: powi_diff[symmetric] e)
      moreover have "(1::rat) \<le> 2 powi 52" using powi_mono[of 0 52] by simp
      ultimately show False using close m by linarith
    qed
    then show ?thesis using up n True by (simp add: fnext_def Let_def split: if_splits)
  next
    case False
    have pos: "0 < fround_pos x" using False fround_pos_nonneg[OF x] by simp
    have "?e \<le> fexp (fround_pos x)"
    proof (cases "?e = - 1074")
      case True
      then show ?thesis using fexp_ge by simp
    next
      case big: False
      then have e: "?e = flog2 x - 52" using fexp_ge[of x] by (simp add: fexp_def)
      have "2 powi flog2 x = of_int (2 ^ 52) * (2::rat) powi ?e"
        by (simp only: powi_53(2)[symmetric] powi_add[symmetric]) (simp add: e)
      then have "fround_pos (2 powi flog2 x) = 2 powi flog2 x"
        using fround_pos_grid_le[of "2 ^ 52" ?e] fexp_ge[of x] by simp
      moreover have "fround_pos (2 powi flog2 x) \<le> fround_pos x"
        using fround_pos_mono[of "2 powi flog2 x" x] flog2_bounds(1)[OF x] by simp
      ultimately have "2 powi flog2 x \<le> fround_pos x" by simp
      then have "flog2 x \<le> flog2 (fround_pos x)"
        using flog2_mono[of "2 powi flog2 x" "fround_pos x"] flog2_unique[of "flog2 x" "2 powi flog2 x"] powi_less[of "flog2 x" "flog2 x + 1"]
        by simp
      then show ?thesis using e by (simp add: fexp_def)
    qed
    then have "2 powi ?e \<le> (2::rat) powi fexp (fround_pos x)" by (rule powi_mono)
    then show ?thesis using up n False by (simp add: fnext_def Let_def split: if_splits)
  qed
qed

lemma round_up_ge: "round_up x = Inr y \<Longrightarrow> 0 \<le> x \<Longrightarrow> x \<le> y"
  using fround_pos_next[of x y]
  by (auto simp: round_up_def Let_def fround_val_def not_less split: if_splits option.splits)

subsection \<open>Observing a budget\<close>

definition envelope_ok :: "envelope \<Rightarrow> bool" where
  "envelope_ok e \<longleftrightarrow> constraints_ok (be_constraints e) \<and> checkpoint_ok (be_checkpoint e) \<and>
     optional_ok (\<lambda>r. 0 \<le> r) (be_started e)"

lemma effective_ge: "effective_time c s = Some t \<Longrightarrow> ck_wall s \<le> t"
  by (auto simp: effective_time_def split: if_splits option.splits)

lemma remaining_nonneg: "optional_ok (\<lambda>r. 0 \<le> r) (remaining_time d t)"
  by (cases d) (simp_all add: remaining_time_def)

lemma limiting_ok:
  assumes "constraints_ok cs"
  shows "optional_ok (\<lambda>r. 0 \<le> r) (map_option work_deadline (limiting_work cs))"
    and "optional_ok (\<lambda>r. 0 \<le> r) (map_option dl_deadline (limiting_hard cs))"
proof -
  show "optional_ok (\<lambda>r. 0 \<le> r) (map_option work_deadline (limiting_work cs))"
    using first_min_Some[of work_deadline cs] work_deadline_nonneg assms
    by (cases "limiting_work cs") (auto simp: limiting_work_def constraints_ok_def)
  show "optional_ok (\<lambda>r. 0 \<le> r) (map_option dl_deadline (limiting_hard cs))"
    using first_min_Some[of dl_deadline cs] assms
    by (cases "limiting_hard cs") (auto simp: limiting_hard_def constraints_ok_def deadline_ok_def intro: less_imp_le)
qed

lemma continuity_nonblank: "nonblank continuity_unproven"
  by (simp add: continuity_unproven_def nonblank_def is_space_def)

definition view_of :: "checkpoint \<Rightarrow> envelope \<Rightarrow> execution_budget" where
  "view_of sample e =
     (let now = effective_time (be_checkpoint e) sample;
          work = limiting_work (be_constraints e); hard = limiting_hard (be_constraints e) in
      \<lparr>eb_started = be_started e, eb_constraints = be_constraints e, eb_observed = now,
        eb_work_deadline = map_option work_deadline work, eb_hard_deadline = map_option dl_deadline hard,
        eb_work_source = map_option dl_source work, eb_hard_source = map_option dl_source hard,
        eb_work_remaining = (case now of None \<Rightarrow> None | Some t \<Rightarrow> remaining_time (map_option work_deadline work) t),
        eb_hard_remaining = (case now of None \<Rightarrow> None | Some t \<Rightarrow> remaining_time (map_option dl_deadline hard) t),
        eb_trusted = (now \<noteq> None),
        eb_reason = (if now = None then Some continuity_unproven else None)\<rparr>)"

text \<open>The checks of the record always pass on what the envelope reports.\<close>

lemma budget_view_total:
  assumes "envelope_ok e" and "0 \<le> ck_wall s"
  shows "budget_view s e = Inr (view_of s e)"
proof -
  have cs: "constraints (be_constraints e) = Inr (be_constraints e)"
    using assms(1) by (simp add: envelope_ok_def constraints_ok_def constraints_distinct)
  have st: "optional_ok (\<lambda>r. 0 \<le> r) (be_started e)" and co: "constraints_ok (be_constraints e)"
    using assms(1) by (simp_all add: envelope_ok_def)
  show ?thesis
  proof (cases "effective_time (be_checkpoint e) s")
    case None
    then show ?thesis using cs st limiting_ok[OF co] continuity_nonblank
      by (simp add: budget_view_def view_of_def Let_def mk_execution_budget_def)
  next
    case (Some t)
    then have "0 \<le> t" using effective_ge assms(2) by fastforce
    then show ?thesis using Some cs st limiting_ok[OF co] remaining_nonneg
      by (simp add: budget_view_def view_of_def Let_def mk_execution_budget_def)
  qed
qed

subsection \<open>Moving a checkpoint\<close>

text \<open>Through the later checkpoint no sample is read as an earlier time.\<close>

definition moved :: "checkpoint \<Rightarrow> checkpoint \<Rightarrow> bool" where
  "moved c c' \<longleftrightarrow> (\<forall>u t'. effective_time c' u = Some t' \<longrightarrow> (\<exists>t. effective_time c u = Some t \<and> t \<le> t'))"

lemma fround_smaller: "fround b = Some y \<Longrightarrow> 0 \<le> a \<Longrightarrow> a \<le> b \<Longrightarrow> \<exists>x. fround a = Some x \<and> x \<le> y"
  using fround_val_mono[of a b] fround_val_mono[of 0 a] unfolding fround_Some
  by (intro exI[of _ "fround_val a"]) (auto simp: fround_val_def[of 0] simp del: power_numeral)

lemma moved_floor:
  assumes "ck_domain c' = ck_domain c" "ck_scope c' = ck_scope c" "ck_elapsed c \<le> ck_elapsed c'" "0 \<le> ck_wall c"
    and "ck_wall c + ck_elapsed c' - ck_elapsed c \<le> ck_wall c'"
  shows "moved c c'"
  unfolding moved_def
proof (intro allI impI)
  fix u t' assume u: "effective_time c' u = Some t'"
  then obtain r' where r': "fround (ck_elapsed u - ck_elapsed c' + ck_wall c') = Some r'" "t' = max (ck_wall u) r'"
    and d: "ck_domain c' \<noteq> None" "ck_domain c' = ck_domain u" "ck_scope c' = ck_scope u" "ck_elapsed c' \<le> ck_elapsed u"
    by (auto simp: effective_time_def split: if_splits option.splits)
  have "0 \<le> ck_elapsed u - ck_elapsed c + ck_wall c"
    "ck_elapsed u - ck_elapsed c + ck_wall c \<le> ck_elapsed u - ck_elapsed c' + ck_wall c'"
    using assms(3-5) d(4) by linarith+
  then obtain r where r: "fround (ck_elapsed u - ck_elapsed c + ck_wall c) = Some r" "r \<le> r'"
    using fround_smaller[OF r'(1)] by blast
  then have "effective_time c u = Some (max (ck_wall u) r)" using d assms(1-3) by (simp add: effective_time_def)
  moreover have "max (ck_wall u) r \<le> t'" using r(2) by (simp add: r'(2) max.coboundedI2)
  ultimately show "\<exists>t. effective_time c u = Some t \<and> t \<le> t'" by blast
qed

lemma optional_number_py [simp]: "optional_ok (\<lambda>r. 0 \<le> r) x \<Longrightarrow> optional_number (py_optional PFin x) = Inr x"
  by (cases x) (simp_all add: optional_number_def budget_number_def)

lemma optional_number_Inr: "optional_number v = Inr x \<Longrightarrow> optional_ok (\<lambda>r. 0 \<le> r) x"
  by (cases x) (auto simp: optional_number_def budget_number_def rbind_eq_Inr split: if_splits option.splits)

lemma mk_envelope_Inr:
  assumes "mk_envelope cs c v = Inr e" and "\<forall>d \<in> set cs. deadline_ok d" and "checkpoint_ok c"
  shows "envelope_ok e" and "set (be_constraints e) = set cs" and "be_checkpoint e = c"
  using assms constraints_Inr[of cs] optional_number_Inr[of v]
  by (auto simp: mk_envelope_def envelope_ok_def constraints_ok_def rbind_eq_Inr)

lemma recheckpoint_Inr:
  assumes e: "envelope_ok e" and s: "checkpoint_ok s" and run: "recheckpoint s e = Inr e'"
  obtains w where "be_checkpoint e' = s\<lparr>ck_wall := w\<rparr>" "be_constraints e' = be_constraints e" "be_started e' = be_started e"
    "ck_wall s \<le> w" "ck_wall (be_checkpoint e) + ck_elapsed s - ck_elapsed (be_checkpoint e) \<le> w"
    "ck_domain s = ck_domain (be_checkpoint e)" "ck_scope s = ck_scope (be_checkpoint e)"
    "ck_elapsed (be_checkpoint e) \<le> ck_elapsed s"
proof -
  let ?c = "be_checkpoint e" let ?x = "max (ck_wall s) (ck_wall ?c + ck_elapsed s - ck_elapsed ?c)"
  obtain t w where t: "effective_time ?c s = Some t" and w: "round_up ?x = Inr w"
    and m: "mk_envelope (be_constraints e) (s\<lparr>ck_wall := w\<rparr>) (py_optional PFin (be_started e)) = Inr e'"
    using run by (auto simp: recheckpoint_def Let_def rbind_eq_Inr split: option.splits)
  have dom: "ck_domain s = ck_domain ?c" "ck_scope s = ck_scope ?c" "ck_elapsed ?c \<le> ck_elapsed s"
    using t by (auto simp: effective_time_def split: if_splits)
  have "0 \<le> ?x" using s by (simp add: checkpoint_ok_def max.coboundedI1)
  then have "?x \<le> w" by (rule round_up_ge[OF w])
  then have x: "ck_wall s \<le> w" "ck_wall ?c + ck_elapsed s - ck_elapsed ?c \<le> w" by simp_all
  have "e' = \<lparr>be_constraints = be_constraints e, be_checkpoint = s\<lparr>ck_wall := w\<rparr>, be_started = be_started e\<rparr>"
    using m e by (auto simp: mk_envelope_def envelope_ok_def constraints_ok_def constraints_distinct)
  then show thesis using that x dom by simp
qed

text \<open>An envelope with at least the same constraints and a later floor.\<close>

definition tighter :: "envelope \<Rightarrow> envelope \<Rightarrow> bool" where
  "tighter e e' \<longleftrightarrow> envelope_ok e' \<and> set (be_constraints e) \<subseteq> set (be_constraints e') \<and>
     moved (be_checkpoint e) (be_checkpoint e')"

lemma recheckpoint_tighter:
  assumes e: "envelope_ok e" and s: "checkpoint_ok s" and run: "recheckpoint s e = Inr e'"
  shows "tighter e e'" and "checkpoint_ok (be_checkpoint e')" and "be_constraints e' = be_constraints e"
proof -
  obtain w where w: "be_checkpoint e' = s\<lparr>ck_wall := w\<rparr>" "be_constraints e' = be_constraints e" "be_started e' = be_started e"
    "ck_wall s \<le> w" "ck_wall (be_checkpoint e) + ck_elapsed s - ck_elapsed (be_checkpoint e) \<le> w"
    "ck_domain s = ck_domain (be_checkpoint e)" "ck_scope s = ck_scope (be_checkpoint e)"
    "ck_elapsed (be_checkpoint e) \<le> ck_elapsed s" by (rule recheckpoint_Inr[OF assms])
  show c: "checkpoint_ok (be_checkpoint e')" using s w(1,4) by (simp add: checkpoint_ok_def)
  have "moved (be_checkpoint e) (be_checkpoint e')"
    by (rule moved_floor) (use w e in \<open>simp_all add: envelope_ok_def checkpoint_ok_def\<close>)
  then show "tighter e e'" using c w(2,3) e by (simp add: tighter_def envelope_ok_def)
  show "be_constraints e' = be_constraints e" by (rule w)
qed

text \<open>Every operation of the envelope.\<close>

datatype budget_move = Recheckpoint checkpoint | Clock_Floor checkpoint | Enter_Handler pyval pyval pyval checkpoint |
  Started_At pyval | Derive pyval pyval pyval pyval pyval checkpoint

fun move_budget :: "budget_move \<Rightarrow> envelope \<Rightarrow> budget_error + envelope" where
  "move_budget (Recheckpoint s) e = recheckpoint s e"
| "move_budget (Clock_Floor c) e = with_clock_floor c e"
| "move_budget (Enter_Handler timeout origin reserve s) e = enter_handler timeout origin reserve s e"
| "move_budget (Started_At t) e = with_started_at t e"
| "move_budget (Derive source origin timeout dl reserve s) e = derive_budget source origin timeout dl reserve s e"

fun move_sample :: "budget_move \<Rightarrow> checkpoint option" where
  "move_sample (Recheckpoint s) = Some s"
| "move_sample (Clock_Floor c) = Some c"
| "move_sample (Enter_Handler timeout origin reserve s) = Some s"
| "move_sample (Started_At t) = None"
| "move_sample (Derive source origin timeout dl reserve s) = Some s"

lemma moved_refl [simp]: "moved c c"
  by (simp add: moved_def)

lemma mk_deadline_Inr: "mk_deadline i s d r = Inr x \<Longrightarrow> deadline_ok x"
  by (auto simp: mk_deadline_def deadline_ok_def rbind_eq_Inr budget_identifier_def budget_positive_def budget_number_def
      split: if_splits option.splits pyval.splits)

text \<open>A further envelope at the same checkpoint, with more constraints.\<close>

lemma extended_tighter:
  assumes t: "tighter e r" and m: "mk_envelope cs (be_checkpoint r) v = Inr e'"
    and cs: "set (be_constraints r) \<subseteq> set cs" "\<forall>d \<in> set cs. deadline_ok d"
  shows "tighter e e'"
proof -
  have "checkpoint_ok (be_checkpoint r)" using t by (simp add: tighter_def envelope_ok_def)
  from mk_envelope_Inr[OF m cs(2) this] show ?thesis using t cs(1) by (auto simp: tighter_def)
qed

lemma tighter_ok: "tighter e r \<Longrightarrow> \<forall>d \<in> set (be_constraints r). deadline_ok d"
  by (simp add: tighter_def envelope_ok_def constraints_ok_def)

lemma with_clock_floor_tighter:
  assumes e: "envelope_ok e" and s: "checkpoint_ok s" and run: "with_clock_floor s e = Inr e'"
  shows "tighter e e'"
proof (cases "ck_elapsed (be_checkpoint e) \<le> ck_elapsed s")
  case True
  then show ?thesis using recheckpoint_tighter(1)[OF e s] run by (simp add: with_clock_floor_def)
next
  case False
  obtain r where m: "mk_envelope (be_constraints e) s (py_optional PFin (be_started e)) = Inr r"
    and re: "recheckpoint (be_checkpoint e) r = Inr e'"
    using run False by (auto simp: with_clock_floor_def rbind_eq_Inr)
  have ok: "\<forall>d \<in> set (be_constraints e). deadline_ok d" "checkpoint_ok (be_checkpoint e)"
    using e by (simp_all add: envelope_ok_def constraints_ok_def)
  note r = mk_envelope_Inr[OF m ok(1) s]
  obtain w where w: "be_checkpoint e' = (be_checkpoint e)\<lparr>ck_wall := w\<rparr>" "be_constraints e' = be_constraints r"
    "ck_wall (be_checkpoint e) \<le> w" by (rule recheckpoint_Inr[OF r(1) ok(2) re])
  have "moved (be_checkpoint e) (be_checkpoint e')"
    by (rule moved_floor) (use w ok(2) in \<open>simp_all add: checkpoint_ok_def\<close>)
  moreover have "envelope_ok e'" using recheckpoint_tighter(1)[OF r(1) ok(2) re] by (simp add: tighter_def)
  ultimately show ?thesis using w(2) r(2) by (simp add: tighter_def)
qed

lemma enter_handler_tighter:
  assumes e: "envelope_ok e" and s: "checkpoint_ok s" and run: "enter_handler t i v s e = Inr e'"
  shows "tighter e e'"
proof -
  obtain r seconds res n where r: "recheckpoint s e = Inr r" and rest: "(case sql_find dl_origin n (be_constraints e) of
       Some d \<Rightarrow>
         rbind (require (dl_source d = From_Execution \<and> dl_reserve d = res) Budget_Value) (\<lambda>_.
         mk_envelope (be_constraints r) (be_checkpoint r) (PFin (ck_wall (be_checkpoint r))))
     | None \<Rightarrow>
         rbind (mk_deadline (PStr n) (PStr ''execution'') (deadline_after (ck_wall (be_checkpoint r)) seconds) (PFin res)) (\<lambda>d.
         mk_envelope (be_constraints r @ [d]) (be_checkpoint r) (PFin (ck_wall (be_checkpoint r))))) = Inr e'"
    using run by (auto simp: enter_handler_def Let_def rbind_eq_Inr)
  note t = recheckpoint_tighter(1)[OF e s r]
  show ?thesis
  proof (cases "sql_find dl_origin n (be_constraints e)")
    case (Some d)
    then show ?thesis using rest by (auto simp: rbind_eq_Inr intro: extended_tighter[OF t _ subset_refl tighter_ok[OF t]])
  next
    case None
    then obtain d where d: "deadline_ok d" and m: "mk_envelope (be_constraints r @ [d]) (be_checkpoint r) (PFin (ck_wall (be_checkpoint r))) = Inr e'"
      using rest by (auto simp: rbind_eq_Inr dest: mk_deadline_Inr)
    show ?thesis by (rule extended_tighter[OF t m]) (use d tighter_ok[OF t] in auto)
  qed
qed

lemma derive_tighter:
  assumes e: "envelope_ok e" and s: "checkpoint_ok s" and run: "derive_budget src i t dl v s e = Inr e'"
  shows "tighter e e'"
proof -
  obtain r d cs where r: "recheckpoint s e = Inr r" and d: "deadline_ok d" and cs: "constraints (be_constraints r @ [d]) = Inr cs"
    and m: "mk_envelope cs (be_checkpoint r) (py_optional PFin (be_started r)) = Inr e'"
    using run by (auto simp: derive_budget_def rbind_eq_Inr dest: mk_deadline_Inr split: if_splits)
  note t = recheckpoint_tighter(1)[OF e s r]
  show ?thesis by (rule extended_tighter[OF t m]) (use constraints_Inr[OF cs] d tighter_ok[OF t] in auto)
qed

lemma move_tighter:
  assumes e: "envelope_ok e" and s: "\<And>s. move_sample m = Some s \<Longrightarrow> checkpoint_ok s" and run: "move_budget m e = Inr e'"
  shows "tighter e e'"
proof (cases m)
  case (Started_At t)
  have "tighter e e" using e by (simp add: tighter_def)
  from extended_tighter[OF this _ subset_refl tighter_ok[OF this]] show ?thesis
    using run Started_At by (simp add: with_started_at_def)
qed (use run s recheckpoint_tighter(1)[OF e] with_clock_floor_tighter[OF e] enter_handler_tighter[OF e] derive_tighter[OF e] in auto)

lemma tighter_view:
  assumes e: "envelope_ok e" and t: "tighter e e'" and u: "0 \<le> ck_wall u" and trusted: "eb_trusted (view_of u e')"
  shows "eb_trusted (view_of u e)" and "at_most (eb_hard_deadline (view_of u e')) (eb_hard_deadline (view_of u e))"
    and "at_most (eb_work_deadline (view_of u e')) (eb_work_deadline (view_of u e))"
    and "at_most (eb_hard_remaining (view_of u e')) (eb_hard_remaining (view_of u e))"
    and "at_most (eb_work_remaining (view_of u e')) (eb_work_remaining (view_of u e))"
proof -
  have sub: "set (be_constraints e) \<subseteq> set (be_constraints e')" using t by (simp add: tighter_def)
  obtain q' where q': "effective_time (be_checkpoint e') u = Some q'"
    using trusted by (cases "effective_time (be_checkpoint e') u") (auto simp: view_of_def Let_def)
  then obtain q where q: "effective_time (be_checkpoint e) u = Some q" "q \<le> q'"
    using t unfolding tighter_def moved_def by blast
  note h = first_min_subset[OF sub, of dl_deadline] and w = first_min_subset[OF sub, of work_deadline]
  show "eb_trusted (view_of u e)" using q by (simp add: view_of_def Let_def)
  show "at_most (eb_hard_deadline (view_of u e')) (eb_hard_deadline (view_of u e))"
    "at_most (eb_work_deadline (view_of u e')) (eb_work_deadline (view_of u e))"
    using h w by (simp_all add: view_of_def Let_def limiting_hard_def limiting_work_def)
  show "at_most (eb_hard_remaining (view_of u e')) (eb_hard_remaining (view_of u e))"
    "at_most (eb_work_remaining (view_of u e')) (eb_work_remaining (view_of u e))"
    using remaining_mono[OF h q(2)] remaining_mono[OF w q(2)]
    by (simp_all add: view_of_def Let_def limiting_hard_def limiting_work_def q q')
qed

subsection \<open>The record format\<close>

lemma checkpoint_roundtrip: "checkpoint_ok c \<Longrightarrow> checkpoint_from_dict (checkpoint_to_dict c) = Inr c"
  by (cases "ck_scope c"; cases "ck_domain c"; cases "ck_reason c")
    (simp_all add: checkpoint_from_dict_def checkpoint_to_dict_def budget_fields_def exact_fields_py_dict mk_checkpoint_def
      checkpoint_ok_def budget_number_def budget_optional_identifier_def budget_identifier_def parse_scope_def)

lemma deadline_roundtrip: "deadline_ok d \<Longrightarrow> deadline_from_dict (deadline_to_dict d) = Inr d"
  by (cases "dl_source d")
    (simp_all add: deadline_from_dict_def deadline_to_dict_def budget_fields_def exact_fields_py_dict mk_deadline_def
      deadline_ok_def budget_number_def budget_positive_def budget_identifier_def parse_source_def)

lemma deadlines_roundtrip: "\<forall>d \<in> set ds. deadline_ok d \<Longrightarrow> deadlines_from (List.map deadline_to_dict ds) = Inr ds"
  by (induction ds) (simp_all add: deadline_roundtrip)

lemma envelope_roundtrip: "envelope_ok e \<Longrightarrow> envelope_from_dict (envelope_to_dict e) = Inr e"
  by (simp add: envelope_from_dict_def envelope_to_dict_def budget_fields_def exact_fields_py_dict envelope_ok_def
      constraints_ok_def deadlines_roundtrip checkpoint_roundtrip mk_envelope_def constraints_distinct)

subsection \<open>The properties\<close>

text \<open>
  C36. A budget can always be observed, and what it reports is right: the effective deadlines
  are those of constraints of the envelope, no constraint has an earlier one, and the time
  remaining is the rounded distance to them from the time the sample shows, never negative;
  when the clock's continuity is not established, nothing is reported as remaining.
\<close>
theorem budget_view_reports:
  assumes "envelope_ok e" and "checkpoint_ok u"
  shows "\<exists>v. budget_view u e = Inr v \<and> eb_observed v = effective_time (be_checkpoint e) u \<and>
    (eb_trusted v \<longleftrightarrow> eb_observed v \<noteq> None) \<and>
    (be_constraints e = [] \<longrightarrow> eb_hard_deadline v = None \<and> eb_work_deadline v = None) \<and>
    (be_constraints e \<noteq> [] \<longrightarrow>
      (\<exists>d \<in> set (be_constraints e). eb_hard_deadline v = Some (dl_deadline d) \<and> eb_hard_source v = Some (dl_source d) \<and>
        (\<forall>c \<in> set (be_constraints e). dl_deadline d \<le> dl_deadline c)) \<and>
      (\<exists>d \<in> set (be_constraints e). eb_work_deadline v = Some (work_deadline d) \<and> eb_work_source v = Some (dl_source d) \<and>
        (\<forall>c \<in> set (be_constraints e). work_deadline d \<le> work_deadline c))) \<and>
    eb_hard_remaining v = (case (eb_observed v, eb_hard_deadline v) of
      (Some now, Some d) \<Rightarrow> Some (max 0 (fdiff d now)) | _ \<Rightarrow> None) \<and>
    eb_work_remaining v = (case (eb_observed v, eb_work_deadline v) of
      (Some now, Some d) \<Rightarrow> Some (max 0 (fdiff d now)) | _ \<Rightarrow> None)"
proof -
  have v: "budget_view u e = Inr (view_of u e)" using assms by (simp add: budget_view_total checkpoint_ok_def)
  have least: "be_constraints e \<noteq> [] \<Longrightarrow> \<exists>d \<in> set (be_constraints e). first_min key (be_constraints e) = Some d \<and>
      (\<forall>c \<in> set (be_constraints e). key d \<le> (key c :: rat))" for key
    using first_min_Some[of key "be_constraints e"] by (cases "first_min key (be_constraints e)") auto
  show ?thesis
  proof (rule exI[of _ "view_of u e"], intro conjI v)
    show "be_constraints e \<noteq> [] \<longrightarrow>
      (\<exists>d \<in> set (be_constraints e). eb_hard_deadline (view_of u e) = Some (dl_deadline d) \<and> eb_hard_source (view_of u e) = Some (dl_source d) \<and>
        (\<forall>c \<in> set (be_constraints e). dl_deadline d \<le> dl_deadline c)) \<and>
      (\<exists>d \<in> set (be_constraints e). eb_work_deadline (view_of u e) = Some (work_deadline d) \<and> eb_work_source (view_of u e) = Some (dl_source d) \<and>
        (\<forall>c \<in> set (be_constraints e). work_deadline d \<le> work_deadline c))"
      using least[of dl_deadline] least[of work_deadline]
      by (auto simp: view_of_def Let_def limiting_hard_def limiting_work_def)
  qed (auto simp: view_of_def Let_def limiting_hard_def limiting_work_def remaining_time_def split: option.splits)
qed

definition demo_checkpoint :: "rat \<Rightarrow> rat \<Rightarrow> checkpoint" where
  "demo_checkpoint wall elapsed = \<lparr>ck_wall = wall, ck_elapsed = elapsed, ck_domain = Some ''linux-boot:1'',
     ck_scope = Scope_Boot, ck_reason = None\<rparr>"

definition demo_envelope :: envelope where
  "demo_envelope = \<lparr>be_constraints = [\<lparr>dl_origin = ''run'', dl_source = From_Run, dl_deadline = 100, dl_reserve = 10\<rparr>],
     be_checkpoint = demo_checkpoint 50 7, be_started = None\<rparr>"

lemma demo_envelope_ok: "envelope_ok demo_envelope" "checkpoint_ok (demo_checkpoint 60 20)" "checkpoint_ok (demo_checkpoint 70 30)"
  by (simp_all add: envelope_ok_def demo_envelope_def demo_checkpoint_def constraints_ok_def deadline_ok_def checkpoint_ok_def
      nonblank_def is_space_def)

theorem budget_view_reports_witness:
  "\<exists>v. budget_view (demo_checkpoint 60 20) demo_envelope = Inr v \<and> eb_hard_deadline v = Some 100"
  using budget_view_reports[OF demo_envelope_ok(1,2)] by (auto simp: demo_envelope_def)

text \<open>
  C37. No operation on a budget gives its holder more time. Whatever envelope a checkpoint, a
  merged clock floor, the entry of a handler, a new start or a derived constraint makes, it is
  well-formed, and every later observation through it shows deadlines no later and remaining
  times no longer than the same observation through the envelope it was made from. Rounding
  included: the floor is rounded up.
\<close>
theorem budget_never_grows:
  assumes e: "envelope_ok e" and s: "\<And>s. move_sample m = Some s \<Longrightarrow> checkpoint_ok s"
    and run: "move_budget m e = Inr e'"
  shows "envelope_ok e' \<and> set (be_constraints e) \<subseteq> set (be_constraints e') \<and>
    (\<forall>u. checkpoint_ok u \<longrightarrow> (\<exists>v v'. budget_view u e = Inr v \<and> budget_view u e' = Inr v' \<and>
      (eb_trusted v' \<longrightarrow> eb_trusted v \<and> at_most (eb_hard_deadline v') (eb_hard_deadline v) \<and>
        at_most (eb_work_deadline v') (eb_work_deadline v) \<and>
        at_most (eb_hard_remaining v') (eb_hard_remaining v) \<and>
        at_most (eb_work_remaining v') (eb_work_remaining v))))"
proof -
  note t = move_tighter[OF assms]
  then have e': "envelope_ok e'" "set (be_constraints e) \<subseteq> set (be_constraints e')" by (simp_all add: tighter_def)
  have "budget_view u e = Inr (view_of u e) \<and> budget_view u e' = Inr (view_of u e')" if "checkpoint_ok u" for u
    using that e e'(1) by (simp add: budget_view_total checkpoint_ok_def)
  moreover have "0 \<le> ck_wall u" if "checkpoint_ok u" for u using that by (simp add: checkpoint_ok_def)
  ultimately show ?thesis using tighter_view[OF e t] e' by blast
qed

theorem budget_never_grows_witness:
  "\<exists>e'. move_budget (Enter_Handler (PInt 15) (PStr ''tool'') (PInt 5) (demo_checkpoint 60 20)) demo_envelope = Inr e' \<and>
    envelope_ok e' \<and> length (be_constraints e') = 2"
proof -
  let ?m = "Enter_Handler (PInt 15) (PStr ''tool'') (PInt 5) (demo_checkpoint 60 20)"
  have ok: "case move_budget ?m demo_envelope of Inl _ \<Rightarrow> False | Inr e' \<Rightarrow> length (be_constraints e') = 2" by code_simp
  then obtain e' where e': "move_budget ?m demo_envelope = Inr e'" "length (be_constraints e') = 2"
    by (cases "move_budget ?m demo_envelope") simp_all
  have "checkpoint_ok s" if "move_sample ?m = Some s" for s using that demo_envelope_ok(2) by simp
  from budget_never_grows[OF demo_envelope_ok(1) this e'(1)] show ?thesis using e' by blast
qed

end
