(* ===== verification/Content.thy ===== *)
theory Content
  imports PyVal "HOL-Library.Multiset"
begin

text \<open>
  Content-addressed storage of JSON values (\<open>content.py\<close>): large nodes of a value become rows
  of a table under the SHA-256 digest of their text, and the value's column keeps the root
  with references to them. The encoder, the decoder with its limits, and the size of the JSON
  text of a value, on which the limits are set.

  A text column holds the canonical text of a value or some other text. The digest and the
  shortest decimal text of a float are parameters. A value is a tree here, so the encoder's
  check for cycles in memory has no counterpart.
\<close>

datatype content_error = Content_Value | Content_Integrity | Content_Limit

subsection \<open>The text of a JSON value\<close>

record codec =
  cd_digest :: "pyval \<Rightarrow> string"
  cd_float :: "rat \<Rightarrow> string"

definition hex_digit :: "nat \<Rightarrow> char" where
  "hex_digit n = (if n < 10 then char_of (48 + n) else char_of (87 + n))"

text \<open>\<open>json.dumps\<close> without \<open>ensure_ascii\<close>: quotes, backslashes and control characters are escaped.\<close>

definition backslash :: char where
  "backslash = char_of (92 :: nat)"

definition escape_char :: "char \<Rightarrow> string" where
  "escape_char c =
     (let n = of_char c :: nat in
      if n = 34 \<or> n = 92 then [backslash, c]
      else if n = 8 then backslash # ''b'' else if n = 9 then backslash # ''t''
      else if n = 10 then backslash # ''n'' else if n = 12 then backslash # ''f''
      else if n = 13 then backslash # ''r''
      else if n < 32 then backslash # ''u00'' @ [hex_digit (n div 16), hex_digit (n mod 16)]
      else [c])"

definition json_string :: "string \<Rightarrow> string" where
  "json_string s = char_of (34 :: nat) # concat (List.map escape_char s) @ [char_of (34 :: nat)]"

fun join_with :: "string \<Rightarrow> string list \<Rightarrow> string" where
  "join_with sep [] = []"
| "join_with sep [s] = s"
| "join_with sep (s # t # ts) = s @ sep @ join_with sep (t # ts)"

fun json_text :: "codec \<Rightarrow> pyval \<Rightarrow> string" where
  "json_text cd PNone = ''null''"
| "json_text cd (PBool b) = (if b then ''true'' else ''false'')"
| "json_text cd (PInt i) = show_int i"
| "json_text cd (PFloat f) = (case f of Fin r \<Rightarrow> cd_float cd r | _ \<Rightarrow> [])"
| "json_text cd (PStr s) = json_string s"
| "json_text cd (PList xs) = ''['' @ join_with '','' (List.map (json_text cd) xs) @ '']''"
| "json_text cd (PDict kvs) = ''{'' @
     join_with '','' (List.map (\<lambda>kv. json_string (pystr (fst kv)) @ '':'' @ json_text cd (snd kv)) kvs) @ ''}''"
| "json_text cd POther = []"

definition utf8_bytes :: "string \<Rightarrow> int" where
  "utf8_bytes s = sum_list (List.map (\<lambda>c. if (of_char c :: nat) < 128 then 1 else 2) s)"

text \<open>\<open>_canonical_bytes\<close> of a value that is strict JSON.\<close>

definition canonical_bytes :: "codec \<Rightarrow> pyval \<Rightarrow> int" where
  "canonical_bytes cd v = utf8_bytes (json_text cd (canon v))"

subsection \<open>Limits\<close>

record limits =
  lm_threshold :: int
  lm_logical :: int
  lm_encoded :: int
  lm_depth :: int

definition encoded_limit :: "limits \<Rightarrow> int" where
  "encoded_limit lm = min (lm_encoded lm) (max 4096 (lm_logical lm * 128 + 1024))"

definition limits_positive :: "limits \<Rightarrow> bool" where
  "limits_positive lm \<longleftrightarrow> 0 < lm_logical lm \<and> 0 < lm_encoded lm \<and> 0 < lm_depth lm"

definition default_limits :: limits where
  "default_limits = \<lparr>lm_threshold = 64 * 1024, lm_logical = 128 * 1024 * 1024,
     lm_encoded = 256 * 1024 * 1024, lm_depth = 100\<rparr>"

subsection \<open>The table\<close>

datatype stored_text = Json_Text pyval | Raw_Text string

definition stored_bytes :: "codec \<Rightarrow> stored_text \<Rightarrow> int" where
  "stored_bytes cd t = (case t of Json_Text v \<Rightarrow> canonical_bytes cd v | Raw_Text s \<Rightarrow> utf8_bytes s)"

record content_row =
  co_digest :: string
  co_encoded :: stored_text
  co_bytes :: int

definition find_object :: "string \<Rightarrow> content_row list \<Rightarrow> content_row option" where
  "find_object D rows = find (\<lambda>r. co_digest r = D) rows"

definition node_of :: "string \<Rightarrow> pyval list \<Rightarrow> pyval" where
  "node_of tag rest = PList (PStr tag # rest)"

definition ref_node :: "string \<Rightarrow> int \<Rightarrow> pyval" where
  "ref_node D n = node_of ''ref'' [PStr D, PInt n]"

subsection \<open>Encoding\<close>

type_synonym objects = "(string \<times> pyval \<times> int) list"

text \<open>The end of \<open>build\<close>: a node of at least the threshold's size becomes an object.\<close>

definition place :: "codec \<Rightarrow> limits \<Rightarrow> nat \<Rightarrow> pyval \<Rightarrow> int \<Rightarrow> objects \<Rightarrow> content_error + pyval \<times> int \<times> objects" where
  "place cd lm d node n objs =
     (if lm_logical lm < n then Inl Content_Value
      else if lm_threshold lm \<le> n \<and> int d < lm_depth lm then
        if encoded_limit lm < canonical_bytes cd node then Inl Content_Value
        else let D = cd_digest cd node in
          case map_of objs D of
            Some rec \<Rightarrow> if rec \<noteq> (node, n) then Inl Content_Integrity else Inr (ref_node D n, n, objs)
          | None \<Rightarrow> Inr (ref_node D n, n, objs @ [(D, node, n)])
      else Inr (node, n, objs))"

definition separator :: "bool \<Rightarrow> int" where
  "separator first = (if first then 0 else 1)"

definition sorted_entries :: "(pyval \<times> pyval) list \<Rightarrow> (pyval \<times> pyval) list" where
  "sorted_entries kvs = sort_key (\<lambda>kv. pystr (fst kv)) kvs"

lemma set_sorted_entries [simp]: "set (sorted_entries kvs) = set kvs"
  by (simp add: sorted_entries_def)

lemma size_sorted_entries [termination_simp]:
  "size_list (size_prod size size) (sorted_entries kvs) = size_list (size_prod size size) kvs"
proof -
  have "mset (List.map (size_prod size size) (sorted_entries kvs)) = mset (List.map (size_prod size size) kvs)"
    by (simp add: sorted_entries_def)
  then have "sum_list (List.map (size_prod size size) (sorted_entries kvs)) = sum_list (List.map (size_prod size size) kvs)"
    by (metis sum_mset_sum_list)
  then show ?thesis by (simp add: size_list_conv_sum_list sorted_entries_def)
qed

function build :: "codec \<Rightarrow> limits \<Rightarrow> nat \<Rightarrow> pyval \<Rightarrow> objects \<Rightarrow> content_error + pyval \<times> int \<times> objects"
and build_list :: "codec \<Rightarrow> limits \<Rightarrow> nat \<Rightarrow> pyval list \<Rightarrow> bool \<Rightarrow> int \<Rightarrow> objects \<Rightarrow>
    content_error + pyval list \<times> int \<times> objects"
and build_entries :: "codec \<Rightarrow> limits \<Rightarrow> nat \<Rightarrow> (pyval \<times> pyval) list \<Rightarrow> bool \<Rightarrow> int \<Rightarrow> objects \<Rightarrow>
    content_error + pyval list \<times> int \<times> objects" where
  "build cd lm d v objs =
     (if lm_depth lm < int d then Inl Content_Value
      else case v of
        PNone \<Rightarrow> place cd lm d (node_of ''null'' []) 4 objs
      | PBool b \<Rightarrow> place cd lm d (node_of ''bool'' [v]) (if b then 4 else 5) objs
      | PInt i \<Rightarrow> place cd lm d (node_of ''int'' [v]) (canonical_bytes cd v) objs
      | PFloat f \<Rightarrow> (case f of
            Fin r \<Rightarrow> place cd lm d (node_of ''float'' [v]) (canonical_bytes cd v) objs
          | _ \<Rightarrow> Inl Content_Value)
      | PStr s \<Rightarrow> place cd lm d (node_of ''string'' [v]) (canonical_bytes cd v) objs
      | PList xs \<Rightarrow> rbind (build_list cd lm (Suc d) xs True 2 objs) (\<lambda>(cs, n, objs').
          place cd lm d (node_of ''list'' [PList cs]) n objs')
      | PDict kvs \<Rightarrow>
          if list_all (\<lambda>kv. is_PStr (fst kv)) kvs then
            rbind (build_entries cd lm (Suc d) (sorted_entries kvs) True 2 objs) (\<lambda>(es, n, objs').
            place cd lm d (node_of ''dict'' [PList es]) n objs')
          else Inl Content_Value
      | POther \<Rightarrow> Inl Content_Value)"
| "build_list cd lm d [] first acc objs = Inr ([], acc, objs)"
| "build_list cd lm d (x # xs) first acc objs =
     rbind (build cd lm d x objs) (\<lambda>(c, n, objs').
       if lm_logical lm < acc + n + separator first then Inl Content_Value
       else rbind (build_list cd lm d xs False (acc + n + separator first) objs') (\<lambda>(cs, t, objs'').
         Inr (c # cs, t, objs'')))"
| "build_entries cd lm d [] first acc objs = Inr ([], acc, objs)"
| "build_entries cd lm d ((k, x) # kvs) first acc objs =
     rbind (build cd lm d x objs) (\<lambda>(c, n, objs').
       let t = acc + canonical_bytes cd k + 1 + n + separator first in
       if lm_logical lm < t then Inl Content_Value
       else rbind (build_entries cd lm d kvs False t objs') (\<lambda>(es, t', objs'').
         Inr (PList [k, c] # es, t', objs'')))"
  by pat_completeness auto

termination build
  by (relation "measure (\<lambda>z. case z of
      Inl (cd, lm, d, v, objs) \<Rightarrow> size v
    | Inr (Inl (cd, lm, d, xs, first, acc, objs)) \<Rightarrow> size_list size xs
    | Inr (Inr (cd, lm, d, kvs, first, acc, objs)) \<Rightarrow> size_list (size_prod size size) kvs)")
    (simp_all add: size_sorted_entries)

declare build.simps [simp del]

text \<open>\<open>_insert_objects\<close>: a row that is there already must be the same.\<close>

fun insert_objects :: "objects \<Rightarrow> content_row list \<Rightarrow> content_error + content_row list" where
  "insert_objects [] rows = Inr rows"
| "insert_objects ((D, node, n) # objs) rows =
     (let r = \<lparr>co_digest = D, co_encoded = Json_Text node, co_bytes = n\<rparr> in
      case find_object D rows of
        None \<Rightarrow> insert_objects objs (rows @ [r])
      | Some q \<Rightarrow> if q \<noteq> r then Inl Content_Integrity else insert_objects objs rows)"

text \<open>
  A column: the prefix and a root, or plain JSON text of an older version, with the value that
  is read from it, if it is JSON, and its number of bytes.
\<close>

datatype content_column = Coded stored_text | Plain "pyval option" int

definition prefix_bytes :: int where
  "prefix_bytes = 15"

definition encode_value :: "codec \<Rightarrow> limits \<Rightarrow> pyval \<Rightarrow> content_row list \<Rightarrow> content_error + content_column \<times> content_row list" where
  "encode_value cd lm v rows =
     (if \<not> limits_positive lm \<or> lm_threshold lm \<le> 0 then Inl Content_Value
      else rbind (build cd lm 0 v []) (\<lambda>(root, n, objs).
        if encoded_limit lm < prefix_bytes + canonical_bytes cd root then Inl Content_Value
        else rbind (insert_objects objs rows) (\<lambda>rows'. Inr (Coded (Json_Text root), rows'))))"

subsection \<open>Measuring a node\<close>

definition digest_char :: "char \<Rightarrow> bool" where
  "digest_char c \<longleftrightarrow> CHR ''0'' \<le> c \<and> c \<le> CHR ''9'' \<or> CHR ''a'' \<le> c \<and> c \<le> CHR ''f''"

definition digest_ok :: "string \<Rightarrow> bool" where
  "digest_ok D \<longleftrightarrow> length D = 64 \<and> list_all digest_char D"

definition reference_fields :: "pyval list \<Rightarrow> content_error + string \<times> int" where
  "reference_fields rest =
     (case rest of
        [PStr D, PInt n] \<Rightarrow> if digest_ok D \<and> 0 \<le> n then Inr (D, n) else Inl Content_Integrity
      | _ \<Rightarrow> Inl Content_Integrity)"

function measure_node :: "codec \<Rightarrow> limits \<Rightarrow> nat \<Rightarrow> pyval \<Rightarrow> content_error + int"
and measure_list :: "codec \<Rightarrow> limits \<Rightarrow> nat \<Rightarrow> pyval list \<Rightarrow> bool \<Rightarrow> int \<Rightarrow> content_error + int"
and measure_entries :: "codec \<Rightarrow> limits \<Rightarrow> nat \<Rightarrow> pyval list \<Rightarrow> string option \<Rightarrow> int \<Rightarrow> content_error + int" where
  "measure_node cd lm d node =
     (if lm_depth lm < int d then Inl Content_Integrity
      else case node of
        PList (PStr tag # rest) \<Rightarrow>
          if tag = ''ref'' then rbind (reference_fields rest) (\<lambda>(D, n). Inr n)
          else if tag = ''null'' then if rest = [] then Inr 4 else Inl Content_Integrity
          else (case rest of
            [x] \<Rightarrow>
              if tag = ''list'' then
                (case x of PList cs \<Rightarrow> measure_list cd lm (Suc d) cs True 2 | _ \<Rightarrow> Inl Content_Integrity)
              else if tag = ''dict'' then
                (case x of PList es \<Rightarrow> measure_entries cd lm (Suc d) es None 2 | _ \<Rightarrow> Inl Content_Integrity)
              else if tag = ''bool'' then
                (case x of PBool b \<Rightarrow> Inr (if b then 4 else 5) | _ \<Rightarrow> Inl Content_Integrity)
              else if tag = ''int'' then
                (case x of PInt i \<Rightarrow> Inr (canonical_bytes cd x) | _ \<Rightarrow> Inl Content_Integrity)
              else if tag = ''float'' then
                (case x of PFloat (Fin r) \<Rightarrow> Inr (canonical_bytes cd x) | _ \<Rightarrow> Inl Content_Integrity)
              else if tag = ''string'' then
                (case x of PStr s \<Rightarrow> Inr (canonical_bytes cd x) | _ \<Rightarrow> Inl Content_Integrity)
              else Inl Content_Integrity
          | _ \<Rightarrow> Inl Content_Integrity)
      | _ \<Rightarrow> Inl Content_Integrity)"
| "measure_list cd lm d [] first acc = Inr acc"
| "measure_list cd lm d (c # cs) first acc =
     (case c of
        PList _ \<Rightarrow> rbind (measure_node cd lm d c) (\<lambda>n.
          if lm_logical lm < acc + n + separator first then Inl Content_Limit
          else measure_list cd lm d cs False (acc + n + separator first))
      | _ \<Rightarrow> Inl Content_Integrity)"
| "measure_entries cd lm d [] previous acc = Inr acc"
| "measure_entries cd lm d (e # es) previous acc =
     (case e of
        PList [PStr k, PList c] \<Rightarrow>
          if (case previous of None \<Rightarrow> False | Some p \<Rightarrow> k \<le> p) then Inl Content_Integrity
          else rbind (measure_node cd lm d (PList c)) (\<lambda>n.
            let t = acc + canonical_bytes cd (PStr k) + 1 + n + separator (previous = None) in
            if lm_logical lm < t then Inl Content_Limit
            else measure_entries cd lm d es (Some k) t)
      | _ \<Rightarrow> Inl Content_Integrity)"
  by pat_completeness auto

termination measure_node
  by (relation "measure (\<lambda>z. case z of
      Inl (cd, lm, d, v) \<Rightarrow> size v
    | Inr (Inl (cd, lm, d, xs, first, acc)) \<Rightarrow> size_list size xs
    | Inr (Inr (cd, lm, d, xs, previous, acc)) \<Rightarrow> size_list size xs)") simp_all

declare measure_node.simps [simp del]

subsection \<open>Decoding\<close>

text \<open>The objects that have been verified, and the cumulative allowance of bytes, if there is one.\<close>

record decoding =
  dg_verified :: objects
  dg_budget :: "int option"

definition consume_bytes :: "int \<Rightarrow> decoding \<Rightarrow> content_error + decoding" where
  "consume_bytes n st =
     (case dg_budget st of
        None \<Rightarrow> Inr st
      | Some b \<Rightarrow> if b < n then Inl Content_Limit else Inr (st\<lparr>dg_budget := Some (b - n)\<rparr>))"

text \<open>\<open>parse\<close>: the text is the canonical text of a list.\<close>

definition parse_node :: "codec \<Rightarrow> limits \<Rightarrow> stored_text \<Rightarrow> content_error + pyval" where
  "parse_node cd lm t =
     (if encoded_limit lm < stored_bytes cd t then Inl Content_Limit
      else case t of
        Raw_Text s \<Rightarrow> Inl Content_Integrity
      | Json_Text v \<Rightarrow> (case canon v of
          PList xs \<Rightarrow> if json_ok v then Inr (PList xs) else Inl Content_Integrity
        | _ \<Rightarrow> Inl Content_Integrity))"

text \<open>The object of a reference: from the cache, or read and verified.\<close>

definition fetch_object ::
  "codec \<Rightarrow> limits \<Rightarrow> content_row list \<Rightarrow> nat \<Rightarrow> string \<Rightarrow> int \<Rightarrow> decoding \<Rightarrow> content_error + pyval \<times> decoding" where
  "fetch_object cd lm rows d D n st =
     (case map_of (dg_verified st) D of
        Some (node, m) \<Rightarrow> if m \<noteq> n then Inl Content_Integrity else Inr (node, st)
      | None \<Rightarrow>
          rbind (expect (find_object D rows) Content_Integrity) (\<lambda>r.
          rbind (require (0 \<le> co_bytes r) Content_Integrity) (\<lambda>_.
          rbind (require (co_bytes r = n) Content_Integrity) (\<lambda>_.
          rbind (require (stored_bytes cd (co_encoded r) \<le> encoded_limit lm) Content_Limit) (\<lambda>_.
          rbind (consume_bytes (stored_bytes cd (co_encoded r)) st) (\<lambda>st.
          rbind (parse_node cd lm (co_encoded r)) (\<lambda>node.
          rbind (require (cd_digest cd node = D) Content_Integrity) (\<lambda>_.
          rbind (measure_node cd lm d node) (\<lambda>m.
          rbind (require (m = n) Content_Integrity) (\<lambda>_.
          Inr (node, st\<lparr>dg_verified := (D, node, n) # dg_verified st\<rparr>)))))))))))"

function decode_node ::
  "codec \<Rightarrow> limits \<Rightarrow> content_row list \<Rightarrow> nat \<Rightarrow> string list \<Rightarrow> pyval \<Rightarrow> decoding \<Rightarrow> content_error + pyval \<times> decoding"
and decode_list ::
  "codec \<Rightarrow> limits \<Rightarrow> content_row list \<Rightarrow> nat \<Rightarrow> string list \<Rightarrow> pyval list \<Rightarrow> decoding \<Rightarrow>
    content_error + pyval list \<times> decoding"
and decode_entries ::
  "codec \<Rightarrow> limits \<Rightarrow> content_row list \<Rightarrow> nat \<Rightarrow> string list \<Rightarrow> pyval list \<Rightarrow> decoding \<Rightarrow>
    content_error + (pyval \<times> pyval) list \<times> decoding" where
  "decode_node cd lm rows d active node st =
     rbind (measure_node cd lm d node) (\<lambda>n.
     if lm_logical lm < n then Inl Content_Limit
     else case node of
       PList (PStr tag # rest) \<Rightarrow>
         if tag = ''null'' then Inr (PNone, st)
         else if tag = ''ref'' then
           rbind (reference_fields rest) (\<lambda>(D, expected).
           if lm_logical lm < expected then Inl Content_Limit
           else if D \<in> set active then Inl Content_Integrity
           else if lm_depth lm \<le> int (length active) then Inl Content_Integrity
           else rbind (fetch_object cd lm rows d D expected st) (\<lambda>(object, st').
             decode_node cd lm rows d (D # active) object st'))
         else (case rest of
           [x] \<Rightarrow>
             if tag = ''list'' then
               (case x of
                  PList cs \<Rightarrow> rbind (decode_list cd lm rows (Suc d) active cs st) (\<lambda>(vs, st'). Inr (PList vs, st'))
                | _ \<Rightarrow> Inl Content_Integrity)
             else if tag = ''dict'' then
               (case x of
                  PList es \<Rightarrow> rbind (decode_entries cd lm rows (Suc d) active es st) (\<lambda>(kvs, st'). Inr (PDict kvs, st'))
                | _ \<Rightarrow> Inl Content_Integrity)
             else Inr (x, st)
         | _ \<Rightarrow> Inl Content_Integrity)
     | _ \<Rightarrow> Inl Content_Integrity)"
| "decode_list cd lm rows d active [] st = Inr ([], st)"
| "decode_list cd lm rows d active (c # cs) st =
     rbind (decode_node cd lm rows d active c st) (\<lambda>(v, st').
     rbind (decode_list cd lm rows d active cs st') (\<lambda>(vs, st''). Inr (v # vs, st'')))"
| "decode_entries cd lm rows d active [] st = Inr ([], st)"
| "decode_entries cd lm rows d active (e # es) st =
     (case e of
        PList [k, c] \<Rightarrow>
          rbind (decode_node cd lm rows d active c st) (\<lambda>(v, st').
          rbind (decode_entries cd lm rows d active es st') (\<lambda>(kvs, st''). Inr ((k, v) # kvs, st'')))
      | _ \<Rightarrow> Inl Content_Integrity)"
  by pat_completeness auto

text \<open>The chain of references is bounded; between two of them the node gets smaller.\<close>

termination decode_node
  by (relation "measures [\<lambda>z. case z of
      Inl (cd, lm, rows, d, active, node, st) \<Rightarrow> nat (lm_depth lm - int (length active))
    | Inr (Inl (cd, lm, rows, d, active, cs, st)) \<Rightarrow> nat (lm_depth lm - int (length active))
    | Inr (Inr (cd, lm, rows, d, active, es, st)) \<Rightarrow> nat (lm_depth lm - int (length active)),
    \<lambda>z. case z of
      Inl (cd, lm, rows, d, active, node, st) \<Rightarrow> size node
    | Inr (Inl (cd, lm, rows, d, active, cs, st)) \<Rightarrow> size_list size cs
    | Inr (Inr (cd, lm, rows, d, active, es, st)) \<Rightarrow> size_list size es]") auto

declare decode_node.simps [simp del]

subsection \<open>Plain JSON of an older version\<close>

text \<open>The loops stop as soon as the bound is passed; the caller raises then.\<close>

function legacy_measure :: "codec \<Rightarrow> limits \<Rightarrow> nat \<Rightarrow> pyval \<Rightarrow> content_error + int"
and legacy_list :: "codec \<Rightarrow> limits \<Rightarrow> nat \<Rightarrow> pyval list \<Rightarrow> bool \<Rightarrow> int \<Rightarrow> content_error + int"
and legacy_entries :: "codec \<Rightarrow> limits \<Rightarrow> nat \<Rightarrow> (pyval \<times> pyval) list \<Rightarrow> bool \<Rightarrow> int \<Rightarrow> content_error + int" where
  "legacy_measure cd lm d v =
     (if lm_depth lm < int d then Inl Content_Integrity
      else rbind (case v of
          PNone \<Rightarrow> Inr 4
        | PBool b \<Rightarrow> Inr (if b then 4 else 5)
        | PInt i \<Rightarrow> Inr (canonical_bytes cd v)
        | PFloat f \<Rightarrow> (case f of Fin r \<Rightarrow> Inr (canonical_bytes cd v) | _ \<Rightarrow> Inl Content_Integrity)
        | PStr s \<Rightarrow> Inr (canonical_bytes cd v)
        | PList xs \<Rightarrow> legacy_list cd lm (Suc d) xs True 2
        | PDict kvs \<Rightarrow>
            if list_all (\<lambda>kv. is_PStr (fst kv)) kvs then legacy_entries cd lm (Suc d) (sorted_entries kvs) True 2
            else Inl Content_Integrity
        | POther \<Rightarrow> Inl Content_Integrity)
        (\<lambda>n. if lm_logical lm < n then Inl Content_Limit else Inr n))"
| "legacy_list cd lm d [] first acc = Inr acc"
| "legacy_list cd lm d (x # xs) first acc =
     rbind (legacy_measure cd lm d x) (\<lambda>n.
       if lm_logical lm < acc + n + separator first then Inr (acc + n + separator first)
       else legacy_list cd lm d xs False (acc + n + separator first))"
| "legacy_entries cd lm d [] first acc = Inr acc"
| "legacy_entries cd lm d ((k, x) # kvs) first acc =
     rbind (legacy_measure cd lm d x) (\<lambda>n.
       let t = acc + canonical_bytes cd k + 1 + n + separator first in
       if lm_logical lm < t then Inr t else legacy_entries cd lm d kvs False t)"
  by pat_completeness auto

termination legacy_measure
  by (relation "measure (\<lambda>z. case z of
      Inl (cd, lm, d, v) \<Rightarrow> size v
    | Inr (Inl (cd, lm, d, xs, first, acc)) \<Rightarrow> size_list size xs
    | Inr (Inr (cd, lm, d, kvs, first, acc)) \<Rightarrow> size_list (size_prod size size) kvs)")
    (simp_all add: size_sorted_entries)

declare legacy_measure.simps [simp del]

subsection \<open>Reading a column\<close>

definition column_bytes :: "codec \<Rightarrow> content_column \<Rightarrow> int" where
  "column_bytes cd c = (case c of Coded t \<Rightarrow> prefix_bytes + stored_bytes cd t | Plain v n \<Rightarrow> n)"

text \<open>The value and what is left of the allowance.\<close>

definition decode_value ::
  "codec \<Rightarrow> limits \<Rightarrow> int option \<Rightarrow> content_column \<Rightarrow> content_row list \<Rightarrow> content_error + pyval \<times> int option" where
  "decode_value cd lm budget c rows =
     (if \<not> limits_positive lm then Inl Content_Value
      else rbind (consume_bytes (column_bytes cd c) \<lparr>dg_verified = [], dg_budget = budget\<rparr>) (\<lambda>st.
        if encoded_limit lm < column_bytes cd c then Inl Content_Limit
        else case c of
          Plain v n \<Rightarrow>
            rbind (expect v Content_Integrity) (\<lambda>v.
            rbind (legacy_measure cd lm 0 v) (\<lambda>_. Inr (v, dg_budget st)))
        | Coded t \<Rightarrow>
            rbind (parse_node cd lm t) (\<lambda>root.
            rbind (measure_node cd lm 0 root) (\<lambda>n.
            rbind (require (n \<le> lm_logical lm) Content_Limit) (\<lambda>_.
            rbind (decode_node cd lm rows 0 [] root st) (\<lambda>(v, st'). Inr (v, dg_budget st')))))))"

end
