(* ===== verification/Contents.thy ===== *)
theory Contents
  imports Content
begin

text \<open>
  What the content store guarantees: reading a column back gives the value that was written,
  in every later state of the table; a value that is read is within the limits, which are on
  its own JSON text; and what a column denotes does not depend on the table, as long as no two
  objects have the same digest.
\<close>

subsection \<open>The size of texts\<close>

lemma utf8_bytes_append [simp]: "utf8_bytes (s @ t) = utf8_bytes s + utf8_bytes t"
  by (simp add: utf8_bytes_def)

lemma utf8_bytes_Nil [simp]: "utf8_bytes [] = 0"
  by (simp add: utf8_bytes_def)

lemma utf8_bytes_Cons [simp]: "utf8_bytes (c # s) = (if (of_char c :: nat) < 128 then 1 else 2) + utf8_bytes s"
  by (simp add: utf8_bytes_def)

lemma utf8_bytes_nonneg [simp]: "0 \<le> utf8_bytes s"
  unfolding utf8_bytes_def by (rule sum_list_nonneg) auto

definition gaps :: "bool \<Rightarrow> nat \<Rightarrow> int" where
  "gaps first n = (if first then int (n - 1) else int n)"

lemma gaps_Suc: "gaps first (Suc n) = separator first + gaps False n"
  by (simp add: gaps_def separator_def)

lemma join_bytes: "utf8_bytes (join_with '','' ss) = sum_list (List.map utf8_bytes ss) + gaps True (length ss)"
  by (induction "'',''" ss rule: join_with.induct) (auto simp: gaps_def)

lemma canonical_bytes_nonneg [simp]: "0 \<le> canonical_bytes cd v"
  by (simp add: canonical_bytes_def)

lemma canonical_bytes_list:
  "canonical_bytes cd (PList xs) = 2 + sum_list (List.map (canonical_bytes cd) xs) + gaps True (length xs)"
  by (simp add: canonical_bytes_def [abs_def] join_bytes comp_def)

definition entry_bytes :: "codec \<Rightarrow> pyval \<times> pyval \<Rightarrow> int" where
  "entry_bytes cd kv = canonical_bytes cd (fst kv) + 1 + canonical_bytes cd (snd kv)"

definition canonical_entries :: "(pyval \<times> pyval) list \<Rightarrow> bool" where
  "canonical_entries kvs \<longleftrightarrow> list_all (\<lambda>kv. is_PStr (fst kv) \<and> canon (snd kv) = snd kv) kvs \<and>
     sorted (List.map (\<lambda>kv. pystr (fst kv)) kvs)"

lemma canon_dict: "canonical_entries kvs \<Longrightarrow> canon (PDict kvs) = PDict kvs"
proof -
  assume c: "canonical_entries kvs"
  then have "List.map (\<lambda>kv. (fst kv, canon (snd kv))) kvs = kvs"
    by (intro map_idI) (auto simp: canonical_entries_def list_all_iff)
  with c show ?thesis by (simp add: canonical_entries_def sort_key_id_if_sorted)
qed

lemma canonical_bytes_dict:
  assumes "canonical_entries kvs"
  shows "canonical_bytes cd (PDict kvs) = 2 + sum_list (List.map (entry_bytes cd) kvs) + gaps True (length kvs)"
proof -
  have "utf8_bytes (json_string (pystr (fst kv)) @ '':'' @ json_text cd (snd kv)) = entry_bytes cd kv" if "kv \<in> set kvs" for kv
  proof -
    have "is_PStr (fst kv)" "canon (snd kv) = snd kv" using assms that by (simp_all add: canonical_entries_def list_all_iff)
    then show ?thesis
      by (cases "fst kv") (simp_all add: entry_bytes_def canonical_bytes_def)
  qed
  then have "List.map (\<lambda>kv. utf8_bytes (json_string (pystr (fst kv)) @ '':'' @ json_text cd (snd kv))) kvs = List.map (entry_bytes cd) kvs"
    by simp
  then have "utf8_bytes (json_text cd (PDict kvs)) = 2 + sum_list (List.map (entry_bytes cd) kvs) + gaps True (length kvs)"
    by (simp add: join_bytes comp_def cong: map_cong)
  then show ?thesis using canon_dict[OF assms] by (simp only: canonical_bytes_def)
qed

subsection \<open>Decoding as a relation\<close>

fun leaf_ok :: "string \<Rightarrow> pyval \<Rightarrow> bool" where
  "leaf_ok tag (PBool b) = (tag = ''bool'')"
| "leaf_ok tag (PInt i) = (tag = ''int'')"
| "leaf_ok tag (PFloat (Fin r)) = (tag = ''float'')"
| "leaf_ok tag (PStr s) = (tag = ''string'')"
| "leaf_ok tag _ = False"

lemma leaf_values: "leaf_ok tag x \<Longrightarrow> json_ok x \<and> canon x = x"
  by (cases "(tag, x)" rule: leaf_ok.cases) auto

lemma bool_bytes: "canonical_bytes cd (PBool b) = (if b then 4 else 5)" "canonical_bytes cd PNone = 4"
  by (simp_all add: canonical_bytes_def)

lemma measure_cases:
  assumes "measure_node cd lm d node = Inr n"
  obtains "int d \<le> lm_depth lm" "node = node_of ''null'' []" "n = 4"
    | tag x where "int d \<le> lm_depth lm" "node = node_of tag [x]" "leaf_ok tag x" "n = canonical_bytes cd x"
    | D where "int d \<le> lm_depth lm" "node = ref_node D n" "digest_ok D" "0 \<le> n"
    | cs where "int d \<le> lm_depth lm" "node = node_of ''list'' [PList cs]" "measure_list cd lm (Suc d) cs True 2 = Inr n"
    | es where "int d \<le> lm_depth lm" "node = node_of ''dict'' [PList es]" "measure_entries cd lm (Suc d) es None 2 = Inr n"
  using assms unfolding measure_node.simps[of cd lm d node] reference_fields_def
  by (auto simp: node_of_def ref_node_def bool_bytes rbind_eq_Inr split: if_splits pyval.splits list.splits pyfloat.splits)

text \<open>The successful runs of the decoder, by what they read.\<close>

inductive decodes and decodes_list and decodes_entries for cd lm rows where
  decodes_null: "measure_node cd lm d (node_of ''null'' []) = Inr 4 \<Longrightarrow> 4 \<le> lm_logical lm \<Longrightarrow>
    decodes cd lm rows d A (node_of ''null'' []) st PNone st"
| decodes_leaf: "measure_node cd lm d (node_of tag [x]) = Inr (canonical_bytes cd x) \<Longrightarrow> leaf_ok tag x \<Longrightarrow>
    canonical_bytes cd x \<le> lm_logical lm \<Longrightarrow> decodes cd lm rows d A (node_of tag [x]) st x st"
| decodes_ref: "measure_node cd lm d (ref_node D n) = Inr n \<Longrightarrow> n \<le> lm_logical lm \<Longrightarrow> D \<notin> set A \<Longrightarrow>
    int (length A) < lm_depth lm \<Longrightarrow> fetch_object cd lm rows d D n st = Inr (object, st') \<Longrightarrow>
    decodes cd lm rows d (D # A) object st' v st'' \<Longrightarrow> decodes cd lm rows d A (ref_node D n) st v st''"
| decodes_of_list: "measure_node cd lm d (node_of ''list'' [PList cs]) = Inr n \<Longrightarrow> n \<le> lm_logical lm \<Longrightarrow>
    decodes_list cd lm rows (Suc d) A cs st vs st' \<Longrightarrow>
    decodes cd lm rows d A (node_of ''list'' [PList cs]) st (PList vs) st'"
| decodes_of_dict: "measure_node cd lm d (node_of ''dict'' [PList es]) = Inr n \<Longrightarrow> n \<le> lm_logical lm \<Longrightarrow>
    decodes_entries cd lm rows (Suc d) A es st kvs st' \<Longrightarrow>
    decodes cd lm rows d A (node_of ''dict'' [PList es]) st (PDict kvs) st'"
| decodes_list_Nil: "decodes_list cd lm rows d A [] st [] st"
| decodes_list_Cons: "decodes cd lm rows d A c st v st' \<Longrightarrow> decodes_list cd lm rows d A cs st' vs st'' \<Longrightarrow>
    decodes_list cd lm rows d A (c # cs) st (v # vs) st''"
| decodes_entries_Nil: "decodes_entries cd lm rows d A [] st [] st"
| decodes_entries_Cons: "decodes cd lm rows d A c st v st' \<Longrightarrow> decodes_entries cd lm rows d A es st' kvs st'' \<Longrightarrow>
    decodes_entries cd lm rows d A (PList [k, c] # es) st ((k, v) # kvs) st''"

lemma leaf_tags: "leaf_ok tag x \<Longrightarrow> tag \<in> {''bool'', ''int'', ''float'', ''string''}"
  by (cases "(tag, x)" rule: leaf_ok.cases) auto

lemma decode_decodes:
  "decode_node cd lm rows d A node st = Inr r \<Longrightarrow> decodes cd lm rows d A node st (fst r) (snd r)"
  "decode_list cd lm rows d A cs st = Inr rs \<Longrightarrow> decodes_list cd lm rows d A cs st (fst rs) (snd rs)"
  "decode_entries cd lm rows d A es st = Inr re \<Longrightarrow> decodes_entries cd lm rows d A es st (fst re) (snd re)"
proof (induction cd lm rows d A node st and cd lm rows d A cs st and cd lm rows d A es st
    arbitrary: r and rs and re rule: decode_node_decode_list_decode_entries.induct)
  case (1 cd lm rows d A node st)
  obtain n where n: "measure_node cd lm d node = Inr n" "n \<le> lm_logical lm"
    using "1.prems" by (auto simp: decode_node.simps[of cd lm rows d A node] rbind_eq_Inr split: if_splits)
  note run = "1.prems"[unfolded decode_node.simps[of cd lm rows d A node] n(1) rbind_Inr]
  from n(1) show ?case
  proof (cases rule: measure_cases)
    case 1
    then show ?thesis using run n by (auto simp: node_of_def intro!: decodes_null[unfolded node_of_def])
  next
    case (2 tag x)
    then have "r = (x, st)" using run leaf_tags[OF 2(3)] by (auto simp: node_of_def split: if_splits)
    then show ?thesis using 2 n by (auto intro: decodes_leaf)
  next
    case (3 D)
    from run n have "n \<le> lm_logical lm" by simp
    then obtain ob st' where f: "D \<notin> set A" "int (length A) < lm_depth lm" "fetch_object cd lm rows d D n st = Inr (ob, st')"
      and rest: "decode_node cd lm rows d (D # A) ob st' = Inr r"
      using run 3 by (auto simp: ref_node_def node_of_def reference_fields_def rbind_eq_Inr split: if_splits)
    have "decodes cd lm rows d (D # A) ob st' (fst r) (snd r)"
      using "1.IH"(1)[OF n(1), of "[PStr ''ref'', PStr D, PInt n]" "PStr ''ref''" "[PStr D, PInt n]" "''ref''" "(D, n)" D n
        "(ob, st')" ob st' r] n 3 f rest
      by (simp add: ref_node_def node_of_def reference_fields_def)
    then show ?thesis using 3 n f by (auto intro: decodes_ref)
  next
    case (4 cs)
    then obtain rs where rs: "decode_list cd lm rows (Suc d) A cs st = Inr rs" "r = (PList (fst rs), snd rs)"
      using run n by (auto simp: node_of_def rbind_eq_Inr)
    then have "decodes_list cd lm rows (Suc d) A cs st (fst rs) (snd rs)"
      using "1.IH"(2)[OF n(1), of "[PStr ''list'', PList cs]" "PStr ''list''" "[PList cs]" "''list''" "PList cs" "[]" cs rs] n 4
      by (simp add: node_of_def)
    then show ?thesis using 4 n rs(2) by (auto intro: decodes_of_list)
  next
    case (5 es)
    then obtain re where re: "decode_entries cd lm rows (Suc d) A es st = Inr re" "r = (PDict (fst re), snd re)"
      using run n by (auto simp: node_of_def rbind_eq_Inr)
    then have "decodes_entries cd lm rows (Suc d) A es st (fst re) (snd re)"
      using "1.IH"(3)[OF n(1), of "[PStr ''dict'', PList es]" "PStr ''dict''" "[PList es]" "''dict''" "PList es" "[]" es re] n 5
      by (simp add: node_of_def)
    then show ?thesis using 5 n re(2) by (auto intro: decodes_of_dict)
  qed
next
  case (3 cd lm rows d A c cs st)
  then obtain r1 r2 where r: "decode_node cd lm rows d A c st = Inr r1" "decode_list cd lm rows d A cs (snd r1) = Inr r2"
    "rs = (fst r1 # fst r2, snd r2)" by (auto simp: rbind_eq_Inr)
  then show ?case using "3.IH"(1)[OF r(1)] "3.IH"(2)[OF r(1), of "fst r1" "snd r1" r2]
    by (auto intro: decodes_list_Cons)
next
  case (5 cd lm rows d A e es st)
  then obtain k c r1 r2 where r: "e = PList [k, c]" "decode_node cd lm rows d A c st = Inr r1"
    "decode_entries cd lm rows d A es (snd r1) = Inr r2" "re = ((k, fst r1) # fst r2, snd r2)"
    by (auto simp: rbind_eq_Inr split: pyval.splits list.splits)
  then show ?case using "5.IH"(1)[of "[k, c]" k "[c]" c "[]" r1] "5.IH"(2)[of "[k, c]" k "[c]" c "[]" r1 "fst r1" "snd r1" r2]
    by (auto intro: decodes_entries_Cons)
qed (auto intro: decodes_list_Nil decodes_entries_Nil)

subsection \<open>What a node measures\<close>

lemma measure_list_Cons:
  "measure_list cd lm d (c # cs) first acc = Inr t \<longleftrightarrow> (\<exists>xs n. c = PList xs \<and> measure_node cd lm d c = Inr n \<and>
     acc + n + separator first \<le> lm_logical lm \<and> measure_list cd lm d cs False (acc + n + separator first) = Inr t)"
  by (cases c) (force simp: rbind_eq_Inr not_less split: if_splits)+

lemma measure_entries_Cons:
  "measure_entries cd lm d (e # es) p acc = Inr t \<longleftrightarrow> (\<exists>k c n. e = PList [PStr k, PList c] \<and>
     (\<forall>q. p = Some q \<longrightarrow> q < k) \<and> measure_node cd lm d (PList c) = Inr n \<and>
     acc + canonical_bytes cd (PStr k) + 1 + n + separator (p = None) \<le> lm_logical lm \<and>
     measure_entries cd lm d es (Some k) (acc + canonical_bytes cd (PStr k) + 1 + n + separator (p = None)) = Inr t)"
  by (simp add: rbind_eq_Inr Let_def split: pyval.splits list.splits option.splits if_splits) (force simp: not_less not_le)

declare measure_list.simps(2) [simp del] measure_entries.simps(2) [simp del]

text \<open>The size does not depend on the depth the node stands at.\<close>

lemma measure_depth:
  "measure_node cd lm d node = Inr a \<Longrightarrow> measure_node cd lm d' node = Inr b \<Longrightarrow> a = b"
  "measure_list cd lm d cs first acc = Inr a \<Longrightarrow> measure_list cd lm d' cs first acc = Inr b \<Longrightarrow> a = b"
  "measure_entries cd lm d es p acc = Inr a \<Longrightarrow> measure_entries cd lm d' es p acc = Inr b \<Longrightarrow> a = b"
proof (induction cd lm d node and cd lm d cs first acc and cd lm d es p acc
    arbitrary: d' a b and d' a b and d' a b rule: measure_node_measure_list_measure_entries.induct)
  case (1 cd lm d node)
  from "1.prems"(1) show ?case
  proof (cases rule: measure_cases)
    case (2 tag x)
    from "1.prems"(2) show ?thesis
      by (rule measure_cases) (use 2 in \<open>auto simp: node_of_def ref_node_def dest: leaf_tags\<close>)
  next
    case (4 cs)
    from "1.prems"(2) have "measure_list cd lm (Suc d') cs True 2 = Inr b"
      by (rule measure_cases) (use 4 in \<open>auto simp: node_of_def ref_node_def dest: leaf_tags\<close>)
    then show ?thesis using "1.IH"(1)[of "[PStr ''list'', PList cs]" "PStr ''list''" "[PList cs]" "''list''" "PList cs" "[]" cs a "Suc d'" b] 4 by (simp add: node_of_def)
  next
    case (5 es)
    from "1.prems"(2) have "measure_entries cd lm (Suc d') es None 2 = Inr b"
      by (rule measure_cases) (use 5 in \<open>auto simp: node_of_def ref_node_def dest: leaf_tags\<close>)
    then show ?thesis using "1.IH"(2)[of "[PStr ''dict'', PList es]" "PStr ''dict''" "[PList es]" "''dict''" "PList es" "[]" es a "Suc d'" b] 5 by (simp add: node_of_def)
  qed (use "1.prems"(2) in \<open>auto simp: measure_node.simps reference_fields_def node_of_def ref_node_def split: if_splits\<close>)
next
  case (3 cd lm d c cs first acc)
  obtain xs n where c: "c = PList xs" and n: "measure_node cd lm d c = Inr n" "acc + n + separator first \<le> lm_logical lm"
      "measure_list cd lm d cs False (acc + n + separator first) = Inr a"
    using "3.prems"(1) unfolding measure_list_Cons by blast
  obtain m where m: "measure_node cd lm d' c = Inr m" "measure_list cd lm d' cs False (acc + m + separator first) = Inr b"
    using "3.prems"(2) unfolding measure_list_Cons by blast
  have "n = m" by (rule "3.IH"(1)[OF c n(1) m(1)])
  then show ?case using "3.IH"(2)[OF c n(1) _ n(3)] n(2) m(2) by simp
next
  case (5 cd lm d e es p acc)
  obtain k xs n where e: "e = PList [PStr k, PList xs]" and k: "\<forall>q. p = Some q \<longrightarrow> q < k"
      and n: "measure_node cd lm d (PList xs) = Inr n"
      "acc + canonical_bytes cd (PStr k) + 1 + n + separator (p = None) \<le> lm_logical lm"
      "measure_entries cd lm d es (Some k) (acc + canonical_bytes cd (PStr k) + 1 + n + separator (p = None)) = Inr a"
    using "5.prems"(1) unfolding measure_entries_Cons by blast
  obtain m where m: "measure_node cd lm d' (PList xs) = Inr m"
      "measure_entries cd lm d' es (Some k) (acc + canonical_bytes cd (PStr k) + 1 + m + separator (p = None)) = Inr b"
    using "5.prems"(2) unfolding measure_entries_Cons e by auto
  have later: "\<not> (case p of None \<Rightarrow> False | Some q \<Rightarrow> k \<le> q)" using k by (auto simp: not_le split: option.splits)
  have "n = m" by (rule "5.IH"(1)[OF e refl refl refl refl refl later n(1) m(1)])
  then show ?case using "5.IH"(2)[OF e refl refl refl refl refl later n(1) refl _ n(3)] n(2) m(2) by simp
qed simp_all

subsection \<open>What is read is within the limits\<close>

fun nested_within :: "int \<Rightarrow> pyval \<Rightarrow> bool" where
  "nested_within k (PList xs) = (0 \<le> k \<and> list_all (nested_within (k - 1)) xs)"
| "nested_within k (PDict kvs) = (0 \<le> k \<and> list_all (\<lambda>kv. nested_within (k - 1) (snd kv)) kvs)"
| "nested_within k v = (0 \<le> k)"

text \<open>The cache holds verified objects of the table.\<close>

definition verified :: "codec \<Rightarrow> limits \<Rightarrow> content_row list \<Rightarrow> string \<Rightarrow> pyval \<Rightarrow> int \<Rightarrow> bool" where
  "verified cd lm rows D node n \<longleftrightarrow> (\<exists>d. measure_node cd lm d node = Inr n) \<and> cd_digest cd node = D \<and>
     (\<exists>r. find_object D rows = Some r \<and> parse_node cd lm (co_encoded r) = Inr node \<and> co_bytes r = n)"

definition cache_ok :: "codec \<Rightarrow> limits \<Rightarrow> content_row list \<Rightarrow> decoding \<Rightarrow> bool" where
  "cache_ok cd lm rows st \<longleftrightarrow> (\<forall>D node n. map_of (dg_verified st) D = Some (node, n) \<longrightarrow> verified cd lm rows D node n)"

lemma consume_bytes_verified: "consume_bytes n st = Inr st' \<Longrightarrow> dg_verified st' = dg_verified st"
  by (auto simp: consume_bytes_def split: option.splits if_splits)

lemma fetch_object_verified:
  assumes "fetch_object cd lm rows d D n st = Inr (node, st')" and "cache_ok cd lm rows st"
  shows "verified cd lm rows D node n \<and> cache_ok cd lm rows st'"
proof (cases "map_of (dg_verified st) D")
  case None
  then show ?thesis using assms
    by (auto simp: fetch_object_def rbind_eq_Inr expect_def cache_ok_def verified_def dest!: consume_bytes_verified split: option.splits if_splits)
next
  case (Some x)
  then show ?thesis using assms by (cases x) (auto simp: fetch_object_def cache_ok_def split: if_splits)
qed

lemma within_leaf: "leaf_ok tag x \<Longrightarrow> 0 \<le> k \<Longrightarrow> nested_within k x"
  by (cases "(tag, x)" rule: leaf_ok.cases) auto

lemma measure_within: "measure_node cd lm d node = Inr n \<Longrightarrow> 0 \<le> lm_depth lm - int d"
  by (auto simp: measure_node.simps split: if_splits)

text \<open>A value, and what its text measures.\<close>

definition reads_as :: "codec \<Rightarrow> int \<Rightarrow> pyval \<Rightarrow> int \<Rightarrow> bool" where
  "reads_as cd k v n \<longleftrightarrow> json_ok v \<and> canon v = v \<and> canonical_bytes cd v = n \<and> nested_within k v"

lemma decodes_measured: "decodes cd lm rows d A node st v st' \<Longrightarrow> \<exists>n. measure_node cd lm d node = Inr n \<and> n \<le> lm_logical lm"
  by (erule decodes.cases) auto

lemma canonical_reads: "list_all (\<lambda>kv. is_PStr (fst kv) \<and> reads_as cd k (snd kv) (canonical_bytes cd (snd kv))) kvs \<Longrightarrow>
    sorted_wrt (<) (List.map (\<lambda>kv. pystr (fst kv)) kvs) \<Longrightarrow> canonical_entries kvs"
  unfolding canonical_entries_def using strict_sorted_imp_sorted by (auto simp: list_all_iff reads_as_def)

lemma decodes_reads:
  "decodes cd lm rows d A node st v st' \<Longrightarrow> cache_ok cd lm rows st \<longrightarrow> cache_ok cd lm rows st' \<and>
     (\<forall>n. measure_node cd lm d node = Inr n \<longrightarrow> reads_as cd (lm_depth lm - int d) v n)"
  "decodes_list cd lm rows d A cs st vs st' \<Longrightarrow> cache_ok cd lm rows st \<longrightarrow> cache_ok cd lm rows st' \<and>
     (\<forall>first acc n. measure_list cd lm d cs first acc = Inr n \<longrightarrow>
        list_all (\<lambda>v. reads_as cd (lm_depth lm - int d) v (canonical_bytes cd v)) vs \<and>
        n = acc + sum_list (List.map (canonical_bytes cd) vs) + gaps first (length vs))"
  "decodes_entries cd lm rows d A es st kvs st' \<Longrightarrow> cache_ok cd lm rows st \<longrightarrow> cache_ok cd lm rows st' \<and>
     (\<forall>p acc n. measure_entries cd lm d es p acc = Inr n \<longrightarrow>
        list_all (\<lambda>kv. is_PStr (fst kv) \<and> reads_as cd (lm_depth lm - int d) (snd kv) (canonical_bytes cd (snd kv))) kvs \<and>
        sorted_wrt (<) (List.map (\<lambda>kv. pystr (fst kv)) kvs) \<and> (\<forall>q. p = Some q \<longrightarrow> list_all (\<lambda>kv. q < pystr (fst kv)) kvs) \<and>
        n = acc + sum_list (List.map (entry_bytes cd) kvs) + gaps (p = None) (length kvs))"
proof (induction rule: decodes_decodes_list_decodes_entries.inducts)
  case (decodes_null d A st)
  then show ?case using measure_within[of cd lm d] by (auto simp: reads_as_def bool_bytes)
next
  case (decodes_leaf d tag x A st)
  then show ?case using measure_within[of cd lm d] leaf_values within_leaf by (auto simp: reads_as_def)
next
  case (decodes_ref d D n A st ob st' v st'')
  show ?case
  proof (intro impI conjI allI)
    assume c: "cache_ok cd lm rows st"
    note f = fetch_object_verified[OF \<open>fetch_object cd lm rows d D n st = Inr (ob, st')\<close> c]
    then show "cache_ok cd lm rows st''" using decodes_ref.IH(6) by blast
    fix m assume "measure_node cd lm d (ref_node D n) = Inr m"
    then have m: "m = n" using \<open>measure_node cd lm d (ref_node D n) = Inr n\<close> by simp
    obtain k where k: "measure_node cd lm d ob = Inr k" using decodes_measured[OF \<open>decodes cd lm rows d (D # A) ob st' v st''\<close>] by blast
    obtain d0 where "measure_node cd lm d0 ob = Inr n" using f by (auto simp: verified_def)
    then have "k = n" using measure_depth(1)[OF k] by blast
    then show "reads_as cd (lm_depth lm - int d) v m" using decodes_ref.IH(6) f k m by blast
  qed
next
  case (decodes_of_list d cs n A st vs st')
  show ?case
  proof (intro impI)
    assume c: "cache_ok cd lm rows st"
    have m: "measure_list cd lm (Suc d) cs True 2 = Inr n"
      using \<open>measure_node cd lm d (node_of ''list'' [PList cs]) = Inr n\<close> by (rule measure_cases) (auto simp: node_of_def ref_node_def dest: leaf_tags)
    have "reads_as cd (lm_depth lm - int d) (PList vs) n"
    proof -
      have vs: "list_all (\<lambda>v. reads_as cd (lm_depth lm - int (Suc d)) v (canonical_bytes cd v)) vs"
        and n: "n = 2 + sum_list (List.map (canonical_bytes cd) vs) + gaps True (length vs)"
        using decodes_of_list.IH(4) c m by blast+
      have "List.map canon vs = vs" using vs by (intro map_idI) (auto simp: list_all_iff reads_as_def)
      then show ?thesis
        using vs n measure_within[OF \<open>measure_node cd lm d (node_of ''list'' [PList cs]) = Inr n\<close>] by (auto simp: reads_as_def canonical_bytes_list list_all_iff algebra_simps)
    qed
    then show "cache_ok cd lm rows st' \<and> (\<forall>m. measure_node cd lm d (node_of ''list'' [PList cs]) = Inr m \<longrightarrow>
        reads_as cd (lm_depth lm - int d) (PList vs) m)"
      using decodes_of_list.IH(4) c \<open>measure_node cd lm d (node_of ''list'' [PList cs]) = Inr n\<close> by simp
  qed
next
  case (decodes_of_dict d es n A st kvs st')
  show ?case
  proof (intro impI)
    assume c: "cache_ok cd lm rows st"
    have m: "measure_entries cd lm (Suc d) es None 2 = Inr n"
      using \<open>measure_node cd lm d (node_of ''dict'' [PList es]) = Inr n\<close> by (rule measure_cases) (auto simp: node_of_def ref_node_def dest: leaf_tags)
    have "reads_as cd (lm_depth lm - int d) (PDict kvs) n"
    proof -
      note r = mp[OF spec[OF spec[OF spec[OF conjunct2[OF mp[OF decodes_of_dict.IH(4) c]], of None], of 2], of n] m]
      have kvs: "list_all (\<lambda>kv. is_PStr (fst kv) \<and> reads_as cd (lm_depth lm - int (Suc d)) (snd kv) (canonical_bytes cd (snd kv))) kvs"
        and s: "sorted_wrt (<) (List.map (\<lambda>kv. pystr (fst kv)) kvs)"
        and n: "n = 2 + sum_list (List.map (entry_bytes cd) kvs) + gaps True (length kvs)"
        using r by simp_all
      have e: "canonical_entries kvs" by (rule canonical_reads[OF kvs s])
      have "json_ok (PDict kvs)" using kvs by (simp add: reads_as_def list_all_iff)
      moreover have "nested_within (lm_depth lm - int d) (PDict kvs)"
        using kvs measure_within[OF \<open>measure_node cd lm d (node_of ''dict'' [PList es]) = Inr n\<close>]
        by (simp add: reads_as_def list_all_iff diff_diff_eq add.commute)
      ultimately show ?thesis
        unfolding reads_as_def canonical_bytes_dict[OF e] canon_dict[OF e] using n by blast
    qed
    then show "cache_ok cd lm rows st' \<and> (\<forall>m. measure_node cd lm d (node_of ''dict'' [PList es]) = Inr m \<longrightarrow>
        reads_as cd (lm_depth lm - int d) (PDict kvs) m)"
      using decodes_of_dict.IH(4) c \<open>measure_node cd lm d (node_of ''dict'' [PList es]) = Inr n\<close> by simp
  qed
next
  case (decodes_list_Nil d A st)
  then show ?case by (simp add: gaps_def)
next
  case (decodes_list_Cons d A c st v st' cs vs st'')
  show ?case
  proof (intro impI conjI allI)
    assume c: "cache_ok cd lm rows st"
    then show "cache_ok cd lm rows st''" using decodes_list_Cons.IH(2,4) by blast
    fix first acc n assume "measure_list cd lm d (c # cs) first acc = Inr n"
    then obtain m where m: "measure_node cd lm d c = Inr m" "measure_list cd lm d cs False (acc + m + separator first) = Inr n"
      unfolding measure_list_Cons by blast
    have v: "reads_as cd (lm_depth lm - int d) v m" using decodes_list_Cons.IH(2) c m(1) by blast
    then have b: "m = canonical_bytes cd v" by (simp add: reads_as_def)
    have c': "cache_ok cd lm rows st'" using decodes_list_Cons.IH(2) c by blast
    note rest = mp[OF spec[OF spec[OF spec[OF conjunct2[OF mp[OF decodes_list_Cons.IH(4) c']], of False], of "acc + m + separator first"], of n] m(2)]
    show "list_all (\<lambda>v. reads_as cd (lm_depth lm - int d) v (canonical_bytes cd v)) (v # vs)"
      using rest v b by simp
    show "n = acc + sum_list (List.map (canonical_bytes cd) (v # vs)) + gaps first (length (v # vs))"
      using conjunct2[OF rest] b by (simp add: gaps_Suc)
  qed
next
  case (decodes_entries_Nil d A st)
  then show ?case by (simp add: gaps_def)
next
  case (decodes_entries_Cons d A c st v st' es kvs st'' k)
  show ?case
  proof (intro impI conjI allI)
    assume c: "cache_ok cd lm rows st"
    then show "cache_ok cd lm rows st''" using decodes_entries_Cons.IH(2,4) by blast
    fix p acc n assume "measure_entries cd lm d (PList [k, c] # es) p acc = Inr n"
    then obtain key m where m: "k = PStr key" "\<forall>q. p = Some q \<longrightarrow> q < key" "measure_node cd lm d c = Inr m"
      "measure_entries cd lm d es (Some key) (acc + canonical_bytes cd k + 1 + m + separator (p = None)) = Inr n"
      unfolding measure_entries_Cons by blast
    have v: "reads_as cd (lm_depth lm - int d) v m" using decodes_entries_Cons.IH(2) c m(3) by blast
    then have b: "m = canonical_bytes cd v" by (simp add: reads_as_def)
    have c': "cache_ok cd lm rows st'" using decodes_entries_Cons.IH(2) c by blast
    note rest = mp[OF spec[OF spec[OF spec[OF conjunct2[OF mp[OF decodes_entries_Cons.IH(4) c']], of "Some key"],
      of "acc + canonical_bytes cd k + 1 + m + separator (p = None)"], of n] m(4)]
    show "list_all (\<lambda>kv. is_PStr (fst kv) \<and> reads_as cd (lm_depth lm - int d) (snd kv) (canonical_bytes cd (snd kv))) ((k, v) # kvs)"
      using rest v b m(1) by simp
    have above: "list_all (\<lambda>kv. key < pystr (fst kv)) kvs" using rest by simp
    then show "sorted_wrt (<) (List.map (\<lambda>kv. pystr (fst kv)) ((k, v) # kvs))"
      using rest m(1) by (simp add: list_all_iff)
    show "n = acc + sum_list (List.map (entry_bytes cd) ((k, v) # kvs)) + gaps (p = None) (length ((k, v) # kvs))"
      using rest b by (simp add: gaps_Suc entry_bytes_def [of cd "(k, v)"])
    fix q assume "p = Some q"
    then have "q < key" using m(2) by blast
    then show "list_all (\<lambda>kv. q < pystr (fst kv)) ((k, v) # kvs)"
      using above m(1) by (auto simp: list_all_iff)
  qed
qed

text \<open>Reading a column that was written by the codec.\<close>

lemma decode_coded:
  assumes "decode_value cd lm budget (Coded t) rows = Inr (v, rest)"
  obtains root n st st' where "parse_node cd lm t = Inr root" "measure_node cd lm 0 root = Inr n" "n \<le> lm_logical lm"
    "dg_verified st = []" "decodes cd lm rows 0 [] root st v st'" "limits_positive lm"
proof -
  from assms obtain st root n x where x: "consume_bytes (column_bytes cd (Coded t)) \<lparr>dg_verified = [], dg_budget = budget\<rparr> = Inr st"
      "parse_node cd lm t = Inr root" "measure_node cd lm 0 root = Inr n" "n \<le> lm_logical lm"
      "decode_node cd lm rows 0 [] root st = Inr x" "v = fst x" "limits_positive lm"
    by (auto simp: decode_value_def rbind_eq_Inr split: if_splits)
  then have "decodes cd lm rows 0 [] root st v (snd x)" using decode_decodes(1) by blast
  moreover have "dg_verified st = []" using consume_bytes_verified[OF x(1)] by simp
  ultimately show thesis using x that by blast
qed

lemma decode_reads:
  assumes "decode_value cd lm budget (Coded t) rows = Inr (v, rest)"
  shows "json_ok v \<and> canon v = v \<and> canonical_bytes cd v \<le> lm_logical lm \<and> nested_within (lm_depth lm) v"
proof -
  from assms obtain root n st st' where r: "measure_node cd lm 0 root = Inr n" "n \<le> lm_logical lm"
      "dg_verified st = []" "decodes cd lm rows 0 [] root st v st'" by (rule decode_coded)
  have "cache_ok cd lm rows st" using r(3) by (simp add: cache_ok_def)
  then have "reads_as cd (lm_depth lm) v n" using decodes_reads(1)[OF r(4)] r(1) by simp
  then show ?thesis using r(2) by (auto simp: reads_as_def)
qed

subsection \<open>What a column denotes\<close>

text \<open>No two different objects of the two tables have one digest.\<close>

definition object_nodes :: "content_row list \<Rightarrow> pyval set" where
  "object_nodes rows = {canon v | v r. r \<in> set rows \<and> co_encoded r = Json_Text v}"

definition collision_free :: "codec \<Rightarrow> content_row list \<Rightarrow> content_row list \<Rightarrow> bool" where
  "collision_free cd rows rows' \<longleftrightarrow> inj_on (cd_digest cd) (object_nodes rows \<union> object_nodes rows')"

lemma parse_node_Inr: "parse_node cd lm t = Inr node \<longleftrightarrow> stored_bytes cd t \<le> encoded_limit lm \<and>
    (\<exists>v xs. t = Json_Text v \<and> json_ok v \<and> canon v = node \<and> node = PList xs)"
  by (auto simp: parse_node_def split: stored_text.splits pyval.splits)

lemma find_object_Some: "find_object D rows = Some r \<Longrightarrow> r \<in> set rows \<and> co_digest r = D"
  by (auto simp: find_object_def find_Some_iff)

lemma verified_node: "verified cd lm rows D node n \<Longrightarrow> node \<in> object_nodes rows \<and> cd_digest cd node = D"
  unfolding verified_def parse_node_Inr object_nodes_def by (blast dest: find_object_Some)

lemma verified_unique:
  "collision_free cd rows rows' \<Longrightarrow> verified cd lm rows D node n \<Longrightarrow> verified cd lm' rows' D node' n' \<Longrightarrow> node = node'"
  unfolding collision_free_def by (drule verified_node, drule verified_node) (auto dest: inj_onD)

inductive_cases decodes_list_NilE: "decodes_list cd lm rows d A [] st vs st'"
inductive_cases decodes_list_ConsE: "decodes_list cd lm rows d A (c # cs) st vs st'"
inductive_cases decodes_entries_NilE: "decodes_entries cd lm rows d A [] st kvs st'"
inductive_cases decodes_entries_ConsE: "decodes_entries cd lm rows d A (PList [k, c] # es) st kvs st'"

lemma decodes_cache: "decodes cd lm rows d A node st v st' \<Longrightarrow> cache_ok cd lm rows st \<Longrightarrow> cache_ok cd lm rows st'"
  using decodes_reads(1) by blast

lemma decodes_same:
  assumes free: "collision_free cd rows rows'"
  shows "decodes cd lm rows d A node st v st' \<Longrightarrow> cache_ok cd lm rows st \<Longrightarrow>
     decodes cd lm' rows' d' B node su w su' \<Longrightarrow> cache_ok cd lm' rows' su \<Longrightarrow> v = w"
    and "decodes_list cd lm rows d A cs st vs st' \<Longrightarrow> cache_ok cd lm rows st \<Longrightarrow>
     decodes_list cd lm' rows' d' B cs su ws su' \<Longrightarrow> cache_ok cd lm' rows' su \<Longrightarrow> vs = ws"
    and "decodes_entries cd lm rows d A es st kvs st' \<Longrightarrow> cache_ok cd lm rows st \<Longrightarrow>
     decodes_entries cd lm' rows' d' B es su kws su' \<Longrightarrow> cache_ok cd lm' rows' su \<Longrightarrow> kvs = kws"
proof (induction arbitrary: d' B su w su' and d' B su ws su' and d' B su kws su'
    rule: decodes_decodes_list_decodes_entries.inducts)
  case (decodes_null d A st)
  from \<open>decodes cd lm' rows' d' B (node_of ''null'' []) su w su'\<close> show ?case
    by cases (auto simp: node_of_def ref_node_def)
next
  case (decodes_leaf d tag x A st)
  from \<open>decodes cd lm' rows' d' B (node_of tag [x]) su w su'\<close> show ?case
    by cases (use leaf_tags[OF \<open>leaf_ok tag x\<close>] in \<open>auto simp: node_of_def ref_node_def\<close>)
next
  case (decodes_ref d D n A st ob st' v st'')
  from \<open>decodes cd lm' rows' d' B (ref_node D n) su w su'\<close> show ?case
  proof cases
    case (decodes_ref D' n' ob' su1)
    then have e: "D' = D" "n' = n" by (simp_all add: ref_node_def node_of_def)
    note f = fetch_object_verified[OF \<open>fetch_object cd lm rows d D n st = Inr (ob, st')\<close> \<open>cache_ok cd lm rows st\<close>]
    note g = fetch_object_verified[OF decodes_ref(6)[unfolded e] \<open>cache_ok cd lm' rows' su\<close>]
    have "ob = ob'" using verified_unique[OF free] f g by blast
    then show ?thesis using decodes_ref.IH(6) f g decodes_ref(7) by blast
  qed (auto simp: node_of_def ref_node_def dest: leaf_tags)
next
  case (decodes_of_list d cs n A st vs st')
  note ih = decodes_of_list.IH(4)[OF \<open>cache_ok cd lm rows st\<close> _ \<open>cache_ok cd lm' rows' su\<close>]
  from \<open>decodes cd lm' rows' d' B (node_of ''list'' [PList cs]) su w su'\<close> show ?case
  proof cases
    case (decodes_of_list cs' n' ws)
    then have "decodes_list cd lm' rows' (Suc d') B cs su ws su'" by (simp add: node_of_def)
    then show ?thesis using ih decodes_of_list(2) by blast
  qed (auto simp: node_of_def ref_node_def dest: leaf_tags)
next
  case (decodes_of_dict d es n A st kvs st')
  note ih = decodes_of_dict.IH(4)[OF \<open>cache_ok cd lm rows st\<close> _ \<open>cache_ok cd lm' rows' su\<close>]
  from \<open>decodes cd lm' rows' d' B (node_of ''dict'' [PList es]) su w su'\<close> show ?case
  proof cases
    case (decodes_of_dict es' n' kws)
    then have "decodes_entries cd lm' rows' (Suc d') B es su kws su'" by (simp add: node_of_def)
    then show ?thesis using ih decodes_of_dict(2) by blast
  qed (auto simp: node_of_def ref_node_def dest: leaf_tags)
next
  case (decodes_list_Nil d A st)
  then show ?case by (blast elim: decodes_list_NilE)
next
  case (decodes_list_Cons d A c st v st' cs vs st'')
  from \<open>decodes_list cd lm' rows' d' B (c # cs) su ws su'\<close> show ?case
    by (rule decodes_list_ConsE) (use decodes_list_Cons decodes_cache in blast)
next
  case (decodes_entries_Nil d A st)
  then show ?case by (blast elim: decodes_entries_NilE)
next
  case (decodes_entries_Cons d A c st v st' es kvs st'' k)
  from \<open>decodes_entries cd lm' rows' d' B (PList [k, c] # es) su kws su'\<close> show ?case
    by (rule decodes_entries_ConsE) (use decodes_entries_Cons decodes_cache in blast)
qed

subsection \<open>Reading back what was written\<close>

fun keys_distinct :: "pyval \<Rightarrow> bool" where
  "keys_distinct (PList xs) = list_all keys_distinct xs"
| "keys_distinct (PDict kvs) = (distinct (List.map fst kvs) \<and> list_all (\<lambda>kv. keys_distinct (snd kv)) kvs)"
| "keys_distinct v = True"

definition node_fine :: "pyval \<Rightarrow> bool" where
  "node_fine node \<longleftrightarrow> json_ok node \<and> canon node = node \<and> (\<exists>xs. node = PList xs)"

lemma node_fine_of: "node_fine (node_of tag rest) \<longleftrightarrow> list_all (\<lambda>x. json_ok x \<and> canon x = x) rest"
  by (induction rest) (auto simp: node_fine_def node_of_def)

lemma node_fine_list: "list_all node_fine cs \<Longrightarrow> node_fine (node_of tag [PList cs])"
proof -
  assume c: "list_all node_fine cs"
  then have "List.map canon cs = cs" by (intro map_idI) (simp add: list_all_iff node_fine_def)
  with c show ?thesis unfolding node_fine_of by (simp add: list_all_iff node_fine_def)
qed

text \<open>The table holds the objects; the cache holds rows of the table.\<close>

definition holds :: "content_row list \<Rightarrow> objects \<Rightarrow> bool" where
  "holds rows objs \<longleftrightarrow> (\<forall>(D, node, n) \<in> set objs.
     find_object D rows = Some \<lparr>co_digest = D, co_encoded = Json_Text node, co_bytes = n\<rparr>)"

definition cached :: "content_row list \<Rightarrow> decoding \<Rightarrow> bool" where
  "cached rows st \<longleftrightarrow> dg_budget st = None \<and> (\<forall>D node n. map_of (dg_verified st) D = Some (node, n) \<longrightarrow>
     find_object D rows = Some \<lparr>co_digest = D, co_encoded = Json_Text node, co_bytes = n\<rparr>)"

definition larger :: "content_row list \<Rightarrow> int \<Rightarrow> string list \<Rightarrow> bool" where
  "larger rows n A \<longleftrightarrow> (\<forall>a \<in> set A. \<exists>r. find_object a rows = Some r \<and> n < co_bytes r)"

lemma larger_mono: "larger rows n A \<Longrightarrow> m \<le> n \<Longrightarrow> larger rows m A"
  unfolding larger_def by fastforce

lemma holds_append [simp]: "holds rows (objs @ new) \<longleftrightarrow> holds rows objs \<and> holds rows new"
  by (simp add: holds_def ball_Un)

lemma fetch_held:
  assumes "find_object D rows = Some \<lparr>co_digest = D, co_encoded = Json_Text node, co_bytes = n\<rparr>" and "cached rows st"
    and "node_fine node" "cd_digest cd node = D" "canonical_bytes cd node \<le> encoded_limit lm" "measure_node cd lm d node = Inr n" "0 \<le> n"
  shows "\<exists>st'. fetch_object cd lm rows d D n st = Inr (node, st') \<and> cached rows st'"
proof (cases "map_of (dg_verified st) D")
  case None
  have p: "parse_node cd lm (Json_Text node) = Inr node"
    using assms(3,5) by (auto simp: parse_node_Inr node_fine_def stored_bytes_def)
  show ?thesis
    using None assms p by (auto simp: fetch_object_def cached_def consume_bytes_def stored_bytes_def)
next
  case (Some x)
  then have "x = (node, n)" using assms(1,2) by (cases x) (auto simp: cached_def)
  then show ?thesis using Some assms(2) by (auto simp: fetch_object_def)
qed

text \<open>The decoder succeeds on a node, whatever references are being followed, if they are larger.\<close>

definition readable :: "codec \<Rightarrow> limits \<Rightarrow> nat \<Rightarrow> pyval \<Rightarrow> pyval \<Rightarrow> int \<Rightarrow> nat \<Rightarrow> objects \<Rightarrow> bool" where
  "readable cd lm d node v n k objs \<longleftrightarrow> (\<forall>rows A st. holds rows objs \<and> larger rows n A \<and> length A \<le> k \<and> cached rows st \<longrightarrow>
     (\<exists>st'. decode_node cd lm rows d A node st = Inr (v, st') \<and> cached rows st'))"

text \<open>A digest is 64 hexadecimal digits, as \<open>hexdigest\<close> of SHA-256 documents it.\<close>

definition digests_ok :: "codec \<Rightarrow> bool" where
  "digests_ok cd \<longleftrightarrow> (\<forall>x. digest_ok (cd_digest cd x))"

lemma place_Inr:
  assumes "place cd lm d node n objs = Inr (node', n', objs')"
  shows "n' = n \<and> n \<le> lm_logical lm \<and> (node' = node \<and> objs' = objs \<or>
    node' = ref_node (cd_digest cd node) n \<and> int d < lm_depth lm \<and> canonical_bytes cd node \<le> encoded_limit lm \<and>
    (cd_digest cd node, node, n) \<in> set objs' \<and> (\<exists>new. objs' = objs @ new))"
  using assms by (auto simp: place_def Let_def split: if_splits option.splits dest: map_of_SomeD)

lemma place_readable:
  assumes p: "place cd lm d node n objs = Inr (node', n', objs')" and dg: "digests_ok cd"
    and m: "measure_node cd lm d node = Inr n" and fine: "node_fine node" "0 \<le> n"
    and r: "readable cd lm d node v (n - 1) (Suc d) objs"
  shows "measure_node cd lm d node' = Inr n' \<and> node_fine node' \<and> n' = n \<and> n \<le> lm_logical lm \<and> (\<exists>new. objs' = objs @ new) \<and>
    readable cd lm d node' v n d objs'"
proof (cases "node' = node \<and> objs' = objs")
  case True
  have "readable cd lm d node v n d objs"
    using r larger_mono[of _ n _ "n - 1"] unfolding readable_def by (meson le_SucI diff_le_self order.trans zle_diff1_eq order_refl less_imp_le)
  then show ?thesis using place_Inr[OF p] True m fine by auto
next
  case False
  let ?D = "cd_digest cd node"
  from place_Inr[OF p] False have x: "n' = n" "n \<le> lm_logical lm" "node' = ref_node ?D n" "int d < lm_depth lm"
    "canonical_bytes cd node \<le> encoded_limit lm" "(?D, node, n) \<in> set objs'" "\<exists>new. objs' = objs @ new" by auto
  have mr: "measure_node cd lm d (ref_node ?D n) = Inr n"
    using x(4) dg fine(2) by (simp add: digests_ok_def measure_node.simps ref_node_def node_of_def reference_fields_def)
  have "readable cd lm d (ref_node ?D n) v n d objs'"
    unfolding readable_def
  proof (intro allI impI, elim conjE)
    fix rows A st assume h: "holds rows objs'" "larger rows n A" "length A \<le> d" "cached rows st"
    have found: "find_object ?D rows = Some \<lparr>co_digest = ?D, co_encoded = Json_Text node, co_bytes = n\<rparr>"
      using h(1) x(6) by (auto simp: holds_def)
    obtain st' where f: "fetch_object cd lm rows d ?D n st = Inr (node, st')" "cached rows st'"
      using fetch_held[OF found h(4) fine(1) refl x(5) m fine(2)] by blast
    have out: "?D \<notin> set A" using h(2) found by (auto simp: larger_def)
    have "larger rows (n - 1) (?D # A)" using h(2) found by (auto simp: larger_def)
    moreover have "holds rows objs" using h(1) x(7) by auto
    ultimately obtain st'' where "decode_node cd lm rows d (?D # A) node st' = Inr (v, st'')" "cached rows st''"
      using r f(2) h(3) unfolding readable_def by fastforce
    then show "\<exists>st'. decode_node cd lm rows d A (ref_node ?D n) st = Inr (v, st') \<and> cached rows st'"
      using mr f out x(2,4) h(3) dg fine(2)
      by (subst decode_node.simps) (simp add: digests_ok_def ref_node_def node_of_def reference_fields_def)
  qed
  then show ?thesis using x mr fine(2) by (simp add: ref_node_def node_fine_of)
qed

lemma leaf_measure: "int d \<le> lm_depth lm \<Longrightarrow> leaf_ok tag x \<Longrightarrow> measure_node cd lm d (node_of tag [x]) = Inr (canonical_bytes cd x)"
  by (cases "(tag, x)" rule: leaf_ok.cases) (auto simp: measure_node.simps node_of_def bool_bytes)

lemma leaf_readable:
  assumes "int d \<le> lm_depth lm" "leaf_ok tag x" "canonical_bytes cd x \<le> lm_logical lm"
  shows "readable cd lm d (node_of tag [x]) x n k objs"
  using assms leaf_measure[OF assms(1,2), of cd] leaf_tags[OF assms(2)]
  unfolding readable_def by (subst decode_node.simps) (auto simp: node_of_def)

lemma place_leaf:
  assumes "place cd lm d (node_of tag [x]) (canonical_bytes cd x) objs = Inr (node, n, objs')" "digests_ok cd"
    and "leaf_ok tag x" "int d \<le> lm_depth lm"
  shows "measure_node cd lm d node = Inr n \<and> node_fine node \<and> 0 \<le> n \<and> n \<le> lm_logical lm \<and> (\<exists>new. objs' = objs @ new) \<and>
    readable cd lm d node (canon x) n d objs'"
proof -
  have le: "canonical_bytes cd x \<le> lm_logical lm" using place_Inr[OF assms(1)] by simp
  have "node_fine (node_of tag [x])" using leaf_values[OF assms(3)] by (simp add: node_fine_of)
  from place_readable[OF assms(1,2) leaf_measure[OF assms(4,3)] this canonical_bytes_nonneg leaf_readable[OF assms(4,3) le]]
  show ?thesis using leaf_values[OF assms(3)] by auto
qed

lemma readable_list:
  assumes "measure_node cd lm d (node_of ''list'' [PList cs]) = Inr n" "n \<le> lm_logical lm"
    and "\<forall>rows A st. holds rows objs \<and> larger rows (n - 2) A \<and> length A \<le> Suc d \<and> cached rows st \<longrightarrow>
      (\<exists>st'. decode_list cd lm rows (Suc d) A cs st = Inr (vs, st') \<and> cached rows st')"
  shows "readable cd lm d (node_of ''list'' [PList cs]) (PList vs) (n - 1) (Suc d) objs"
  unfolding readable_def
proof (intro allI impI)
  fix rows A st assume h: "holds rows objs \<and> larger rows (n - 1) A \<and> length A \<le> Suc d \<and> cached rows st"
  then have "larger rows (n - 2) A" using larger_mono[of rows "n - 1" A "n - 2"] by simp
  then obtain st' where "decode_list cd lm rows (Suc d) A cs st = Inr (vs, st')" "cached rows st'" using assms(3) h by blast
  then show "\<exists>st'. decode_node cd lm rows d A (node_of ''list'' [PList cs]) st = Inr (PList vs, st') \<and> cached rows st'"
    using assms(1,2) by (subst decode_node.simps) (simp add: node_of_def)
qed

lemma readable_dict:
  assumes "measure_node cd lm d (node_of ''dict'' [PList es]) = Inr n" "n \<le> lm_logical lm"
    and "\<forall>rows A st. holds rows objs \<and> larger rows (n - 2) A \<and> length A \<le> Suc d \<and> cached rows st \<longrightarrow>
      (\<exists>st'. decode_entries cd lm rows (Suc d) A es st = Inr (kvs, st') \<and> cached rows st')"
  shows "readable cd lm d (node_of ''dict'' [PList es]) (PDict kvs) (n - 1) (Suc d) objs"
  unfolding readable_def
proof (intro allI impI)
  fix rows A st assume h: "holds rows objs \<and> larger rows (n - 1) A \<and> length A \<le> Suc d \<and> cached rows st"
  then have "larger rows (n - 2) A" using larger_mono[of rows "n - 1" A "n - 2"] by simp
  then obtain st' where "decode_entries cd lm rows (Suc d) A es st = Inr (kvs, st')" "cached rows st'" using assms(3) h by blast
  then show "\<exists>st'. decode_node cd lm rows d A (node_of ''dict'' [PList es]) st = Inr (PDict kvs, st') \<and> cached rows st'"
    using assms(1,2) by (subst decode_node.simps) (simp add: node_of_def)
qed

lemma insort_key_map: "(\<And>x. f (g x) = f x) \<Longrightarrow> insort_key f (g x) (List.map g xs) = List.map g (insort_key f x xs)"
  by (induction xs) auto

lemma canon_sorted_entries:
  "canon (PDict kvs) = PDict (List.map (\<lambda>kv. (fst kv, canon (snd kv))) (sorted_entries kvs))"
proof -
  have "sort_key (\<lambda>kv. pystr (fst kv)) (List.map (\<lambda>kv. (fst kv, canon (snd kv))) kvs) =
      List.map (\<lambda>kv. (fst kv, canon (snd kv))) (sort_key (\<lambda>kv. pystr (fst kv)) kvs)"
    by (induction kvs) (simp_all add: insort_key_map [of "\<lambda>kv. pystr (fst kv)" "\<lambda>kv. (fst kv, canon (snd kv))"])
  then show ?thesis by (simp add: sorted_entries_def)
qed

lemma sorted_entries_strict:
  assumes "distinct (List.map fst kvs)" "list_all (\<lambda>kv. is_PStr (fst kv)) kvs"
  shows "sorted_wrt (<) (List.map (\<lambda>kv. pystr (fst kv)) (sorted_entries kvs))"
proof -
  have "\<exists>s. fst kv = PStr s" if "kv \<in> set kvs" for kv
    using assms(2) that by (auto simp: list_all_iff elim: is_PStr.elims)
  then have "\<forall>k \<in> set (List.map fst kvs). \<exists>s. k = PStr s" by auto
  then have "inj_on pystr (set (List.map fst kvs))" unfolding inj_on_def by (metis pystr.simps(1))
  then have "distinct (List.map (\<lambda>kv. pystr (fst kv)) kvs)"
    using assms(1) distinct_map[of pystr "List.map fst kvs"] by (simp add: comp_def)
  moreover have "distinct (List.map (\<lambda>kv. pystr (fst kv)) (sorted_entries kvs)) = distinct (List.map (\<lambda>kv. pystr (fst kv)) kvs)"
    unfolding sorted_entries_def by (metis mset_map mset_sort mset_eq_imp_distinct_iff)
  ultimately show ?thesis by (simp add: strict_sorted_iff sorted_entries_def)
qed

lemma build_reads_back:
  "digests_ok cd \<Longrightarrow> build cd lm d v objs = Inr (node, n, objs') \<Longrightarrow> keys_distinct v \<Longrightarrow>
      measure_node cd lm d node = Inr n \<and> node_fine node \<and> 0 \<le> n \<and> n \<le> lm_logical lm \<and> (\<exists>new. objs' = objs @ new) \<and>
      readable cd lm d node (canon v) n d objs'"
  "digests_ok cd \<Longrightarrow> build_list cd lm d xs first acc objs = Inr (cs, t, objs') \<Longrightarrow> list_all keys_distinct xs \<Longrightarrow>
      measure_list cd lm d cs first acc = Inr t \<and> list_all node_fine cs \<and> acc \<le> t \<and>
      (\<exists>new. objs' = objs @ new) \<and>
      (\<forall>rows A st. holds rows objs' \<and> larger rows (t - acc) A \<and> length A \<le> d \<and> cached rows st \<longrightarrow>
        (\<exists>st'. decode_list cd lm rows d A cs st = Inr (List.map canon xs, st') \<and> cached rows st'))"
  "digests_ok cd \<Longrightarrow> build_entries cd lm d kvs first acc objs = Inr (es, t, objs') \<Longrightarrow>
      list_all (\<lambda>kv. is_PStr (fst kv) \<and> keys_distinct (snd kv)) kvs \<Longrightarrow> sorted_wrt (<) (List.map (\<lambda>kv. pystr (fst kv)) kvs) \<Longrightarrow>
      \<forall>p. first = (p = None) \<and> (\<forall>q. p = Some q \<longrightarrow> list_all (\<lambda>kv. q < pystr (fst kv)) kvs) \<longrightarrow>
        measure_entries cd lm d es p acc = Inr t \<and> list_all node_fine es \<and> acc \<le> t \<and>
        (\<exists>new. objs' = objs @ new) \<and>
        (\<forall>rows A st. holds rows objs' \<and> larger rows (t - acc) A \<and> length A \<le> d \<and> cached rows st \<longrightarrow>
          (\<exists>st'. decode_entries cd lm rows d A es st = Inr (List.map (\<lambda>kv. (fst kv, canon (snd kv))) kvs, st') \<and> cached rows st'))"
proof (induction cd lm d v objs and cd lm d xs first acc objs and cd lm d kvs first acc objs
    arbitrary: node n objs' and cs t objs' and es t objs' rule: build_build_list_build_entries.induct)
  case (1 cd lm d v objs)
  note dg = "1.prems"(1)
  have d: "\<not> lm_depth lm < int d" "int d \<le> lm_depth lm" using "1.prems"(2) by (auto simp: build.simps[of cd lm d v] split: if_splits)
  note run = "1.prems"(2)[unfolded build.simps[of cd lm d v]]
  show ?case
  proof (cases v)
    case PNone
    have m: "measure_node cd lm d (node_of ''null'' []) = Inr 4" using d by (simp add: measure_node.simps node_of_def)
    have p: "place cd lm d (node_of ''null'' []) 4 objs = Inr (node, n, objs')" using run d PNone by simp
    have "4 \<le> lm_logical lm" using place_Inr[OF p] by simp
    then have "readable cd lm d (node_of ''null'' []) PNone (4 - 1) (Suc d) objs"
      using m unfolding readable_def by (subst decode_node.simps) (simp add: node_of_def)
    from place_readable[OF p dg m _ _ this] show ?thesis using PNone by (auto simp: node_fine_of)
  next
    case (PBool b)
    have b: "(if b then 4 else 5) = canonical_bytes cd v" by (simp add: PBool bool_bytes)
    show ?thesis by (rule place_leaf[OF _ dg]) (use run d PBool b in auto)
  next
    case (PInt i)
    show ?thesis by (rule place_leaf[OF _ dg]) (use run d PInt in auto)
  next
    case (PFloat f)
    show ?thesis by (rule place_leaf[OF _ dg]) (use run d PFloat in \<open>auto split: pyfloat.splits\<close>)
  next
    case (PStr i)
    show ?thesis by (rule place_leaf[OF _ dg]) (use run d PStr in auto)
  next
    case (PList xs)
    then obtain cs t objs1 where b: "build_list cd lm (Suc d) xs True 2 objs = Inr (cs, t, objs1)"
      and p: "place cd lm d (node_of ''list'' [PList cs]) t objs1 = Inr (node, n, objs')"
      using run d by (auto simp: rbind_eq_Inr)
    note r = "1.IH"(1)[OF d(1) PList dg b] 
    have k: "list_all keys_distinct xs" using "1.prems"(3) PList by simp
    have m: "measure_node cd lm d (node_of ''list'' [PList cs]) = Inr t"
      using r[OF k] d by (simp add: measure_node.simps node_of_def)
    have read: "readable cd lm d (node_of ''list'' [PList cs]) (PList (List.map canon xs)) (t - 1) (Suc d) objs1"
      by (rule readable_list[OF m]) (use place_Inr[OF p] r[OF k] in auto)
    have fine: "node_fine (node_of ''list'' [PList cs])" "0 \<le> t" using r[OF k] by (simp_all add: node_fine_list)
    from place_readable[OF p dg m fine read] show ?thesis using r[OF k] PList by auto
  next
    case (PDict kvs)
    let ?s = "sorted_entries kvs"
    have strings: "list_all (\<lambda>kv. is_PStr (fst kv)) kvs" using run d PDict by (auto split: if_splits)
    with PDict run d obtain es t objs1 where b: "build_entries cd lm (Suc d) ?s True 2 objs = Inr (es, t, objs1)"
      and p: "place cd lm d (node_of ''dict'' [PList es]) t objs1 = Inr (node, n, objs')"
      by (auto simp: rbind_eq_Inr)
    have k: "list_all (\<lambda>kv. is_PStr (fst kv) \<and> keys_distinct (snd kv)) ?s" "sorted_wrt (<) (List.map (\<lambda>kv. pystr (fst kv)) ?s)"
      using "1.prems"(3) PDict strings sorted_entries_strict[of kvs] by (auto simp: list_all_iff)
    note r = mp[OF spec[OF "1.IH"(2)[OF d(1) PDict strings dg b k], of None]]
    have m: "measure_node cd lm d (node_of ''dict'' [PList es]) = Inr t"
      using r d by (simp add: measure_node.simps node_of_def)
    have read: "readable cd lm d (node_of ''dict'' [PList es]) (canon v) (t - 1) (Suc d) objs1"
      unfolding PDict canon_sorted_entries by (rule readable_dict[OF m]) (use place_Inr[OF p] r in auto)
    have fine: "node_fine (node_of ''dict'' [PList es])" "0 \<le> t" using r by (simp_all add: node_fine_list)
    from place_readable[OF p dg m fine read] show ?thesis using r PDict by auto
  next
    case POther
    then show ?thesis using run d by simp
  qed
next
  case (3 cd lm d x xs first acc objs)
  then obtain c n objs1 cs' where b: "build cd lm d x objs = Inr (c, n, objs1)" "\<not> lm_logical lm < acc + n + separator first"
      "build_list cd lm d xs False (acc + n + separator first) objs1 = Inr (cs', t, objs')" "cs = c # cs'"
    by (auto simp: rbind_eq_Inr split: if_splits)
  have k: "keys_distinct x" "list_all keys_distinct xs" using "3.prems"(3) by simp_all
  note r1 = "3.IH"(1)[OF "3.prems"(1) b(1) k(1)] and r2 = "3.IH"(2)[OF b(1) refl refl b(2) "3.prems"(1) b(3) k(2)]
  let ?t = "acc + n + separator first"
  have m: "measure_list cd lm d cs first acc = Inr t" "list_all node_fine cs" "acc \<le> t" "\<exists>new. objs' = objs @ new" "n \<le> t - acc" "t - ?t \<le> t - acc"
  proof -
    have "0 \<le> separator first" by (simp add: separator_def)
    moreover obtain ys where "c = PList ys" using r1 by (auto simp: node_fine_def)
    ultimately show "measure_list cd lm d cs first acc = Inr t" "list_all node_fine cs" "acc \<le> t" "\<exists>new. objs' = objs @ new"
      "n \<le> t - acc" "t - ?t \<le> t - acc" unfolding b(4) measure_list_Cons using r1 r2 b(2) by auto
  qed
  have "\<exists>st'. decode_list cd lm rows d A cs st = Inr (List.map canon (x # xs), st') \<and> cached rows st'"
    if h: "holds rows objs' \<and> larger rows (t - acc) A \<and> length A \<le> d \<and> cached rows st" for rows A st
  proof -
    have h1: "holds rows objs1" using h r2 by auto
    have "larger rows n A" "larger rows (t - ?t) A" using h larger_mono[of rows "t - acc" A] m(5,6) by blast+
    then obtain st1 where s1: "decode_node cd lm rows d A c st = Inr (canon x, st1)" "cached rows st1"
      using r1 h h1 unfolding readable_def by blast
    then obtain st2 where "decode_list cd lm rows d A cs' st1 = Inr (List.map canon xs, st2)" "cached rows st2"
      using r2 h \<open>larger rows (t - ?t) A\<close> by blast
    then show ?thesis using s1 b(4) by simp
  qed
  then show ?case using m by blast
next
  case (5 cd lm d k x kvs first acc objs)
  let ?t = "\<lambda>n. acc + canonical_bytes cd k + 1 + n + separator first"
  from 5 obtain c n objs1 es' where b: "build cd lm d x objs = Inr (c, n, objs1)" "\<not> lm_logical lm < ?t n"
      "build_entries cd lm d kvs False (?t n) objs1 = Inr (es', t, objs')" "es = PList [k, c] # es'"
    by (auto simp: rbind_eq_Inr Let_def split: if_splits)
  obtain key where key: "k = PStr key" using "5.prems"(3) by (auto elim: is_PStr.elims)
  have k: "keys_distinct x" "list_all (\<lambda>kv. is_PStr (fst kv) \<and> keys_distinct (snd kv)) kvs"
      "sorted_wrt (<) (List.map (\<lambda>kv. pystr (fst kv)) kvs)" "list_all (\<lambda>kv. key < pystr (fst kv)) kvs"
    using "5.prems"(3,4) key by (simp_all add: list_all_iff)
  note r1 = "5.IH"(1)[OF "5.prems"(1) b(1) k(1)]
  have r2: "measure_entries cd lm d es' (Some key) (?t n) = Inr t \<and> list_all node_fine es' \<and> ?t n \<le> t \<and> (\<exists>new. objs' = objs1 @ new) \<and>
      (\<forall>rows A st. holds rows objs' \<and> larger rows (t - ?t n) A \<and> length A \<le> d \<and> cached rows st \<longrightarrow>
          (\<exists>st'. decode_entries cd lm rows d A es' st = Inr (List.map (\<lambda>kv. (fst kv, canon (snd kv))) kvs, st') \<and> cached rows st'))"
    using spec[OF "5.IH"(2)[OF b(1) refl refl refl b(2) "5.prems"(1) b(3) k(2,3)], of "Some key"] k(4) by simp
  show ?case
  proof (intro allI impI)
    fix p assume p: "first = (p = None) \<and> (\<forall>q. p = Some q \<longrightarrow> list_all (\<lambda>kv. q < pystr (fst kv)) ((k, x) # kvs))"
    have fine: "node_fine (PList [k, c])" using r1 key by (auto simp: node_fine_def)
    obtain ys where c: "c = PList ys" using r1 by (auto simp: node_fine_def)
    have "0 \<le> separator first" by (simp add: separator_def)
    then have "acc + n \<le> ?t n" using canonical_bytes_nonneg[of cd k] by linarith
    then have m: "measure_entries cd lm d es p acc = Inr t" "list_all node_fine es" "acc \<le> t" "\<exists>new. objs' = objs @ new"
        "n \<le> t - acc" "t - ?t n \<le> t - acc"
      unfolding b(4) measure_entries_Cons using r1 r2 b(2) p key fine c by auto
    have "\<exists>st'. decode_entries cd lm rows d A es st = Inr (List.map (\<lambda>kv. (fst kv, canon (snd kv))) ((k, x) # kvs), st') \<and> cached rows st'"
      if h: "holds rows objs' \<and> larger rows (t - acc) A \<and> length A \<le> d \<and> cached rows st" for rows A st
    proof -
      have h1: "holds rows objs1" using h r2 by auto
      have "larger rows n A" "larger rows (t - ?t n) A" using h larger_mono[of rows "t - acc" A] m(5,6) by blast+
      then obtain st1 where s1: "decode_node cd lm rows d A c st = Inr (canon x, st1)" "cached rows st1"
        using r1 h h1 unfolding readable_def by blast
      then obtain st2 where "decode_entries cd lm rows d A es' st1 = Inr (List.map (\<lambda>kv. (fst kv, canon (snd kv))) kvs, st2)" "cached rows st2"
        using r2 h \<open>larger rows (t - ?t n) A\<close> by blast
      then show ?thesis using s1 b(4) by simp
    qed
    then show "measure_entries cd lm d es p acc = Inr t \<and> list_all node_fine es \<and> acc \<le> t \<and> (\<exists>new. objs' = objs @ new) \<and>
        (\<forall>rows A st. holds rows objs' \<and> larger rows (t - acc) A \<and> length A \<le> d \<and> cached rows st \<longrightarrow>
          (\<exists>st'. decode_entries cd lm rows d A es st = Inr (List.map (\<lambda>kv. (fst kv, canon (snd kv))) ((k, x) # kvs), st') \<and> cached rows st'))"
      using m by blast
  qed
qed (auto simp: gaps_def)

subsection \<open>The table and the allowance\<close>

definition objects_kept :: "content_row list \<Rightarrow> content_row list \<Rightarrow> bool" where
  "objects_kept rows rows' \<longleftrightarrow> (\<forall>D r. find_object D rows = Some r \<longrightarrow> find_object D rows' = Some r)"

lemma objects_kept_append: "objects_kept rows (rows @ new)"
proof -
  have "find P (rows @ new) = (case find P rows of None \<Rightarrow> find P new | Some r \<Rightarrow> Some r)" for P :: "content_row \<Rightarrow> bool"
    by (induction rows) auto
  then show ?thesis by (simp add: objects_kept_def find_object_def)
qed

lemma objects_kept_trans: "objects_kept a b \<Longrightarrow> objects_kept b c \<Longrightarrow> objects_kept a c"
  by (simp add: objects_kept_def)

lemma find_object_new: "find_object D rows = None \<Longrightarrow> find_object D (rows @ [r]) = (if co_digest r = D then Some r else None)"
  by (induction rows) (auto simp: find_object_def)

lemma insert_objects_kept:
  "insert_objects objs rows = Inr rows' \<Longrightarrow> objects_kept rows rows' \<and> holds rows' objs"
proof (induction objs rows rule: insert_objects.induct)
  case (2 D node n objs rows)
  let ?r = "\<lparr>co_digest = D, co_encoded = Json_Text node, co_bytes = n\<rparr>"
  show ?case
  proof (cases "find_object D rows")
    case None
    then have rest: "insert_objects objs (rows @ [?r]) = Inr rows'" using "2.prems" by (simp add: Let_def)
    note r = "2.IH"(1)[OF refl None rest]
    have "find_object D (rows @ [?r]) = Some ?r" using find_object_new[OF None] by simp
    then have "find_object D rows' = Some ?r" using r by (simp add: objects_kept_def)
    then show ?thesis using r objects_kept_trans[OF objects_kept_append conjunct1[OF r]] by (simp add: holds_def)
  next
    case (Some q)
    then have rest: "q = ?r" "insert_objects objs rows = Inr rows'" using "2.prems" by (auto simp: Let_def split: if_splits)
    then have r: "objects_kept rows rows' \<and> holds rows' objs" using "2.IH"(2)[OF refl Some _ rest(2)] by simp
    then have "find_object D rows' = Some ?r" using Some rest(1) by (simp add: objects_kept_def)
    then show ?thesis using r by (simp add: holds_def)
  qed
qed (simp add: objects_kept_def holds_def)

definition allowance_ok :: "decoding \<Rightarrow> decoding \<Rightarrow> bool" where
  "allowance_ok st st' \<longleftrightarrow> (case dg_budget st of None \<Rightarrow> dg_budget st' = None
     | Some b \<Rightarrow> 0 \<le> b \<longrightarrow> (\<exists>c. dg_budget st' = Some c \<and> 0 \<le> c \<and> c \<le> b))"

lemma allowance_trans: "allowance_ok a b \<Longrightarrow> allowance_ok b c \<Longrightarrow> allowance_ok a c"
  by (auto simp: allowance_ok_def split: option.splits)

lemma allowance_refl [simp]: "allowance_ok a a"
  by (simp add: allowance_ok_def split: option.splits)

lemma stored_bytes_nonneg [simp]: "0 \<le> stored_bytes cd t"
  by (simp add: stored_bytes_def split: stored_text.splits)

lemma consume_allowance: "consume_bytes n st = Inr st' \<Longrightarrow> 0 \<le> n \<Longrightarrow> allowance_ok st st'"
  by (auto simp: consume_bytes_def allowance_ok_def split: option.splits if_splits)

lemma fetch_allowance: "fetch_object cd lm rows d D n st = Inr (node, st') \<Longrightarrow> allowance_ok st st'"
  by (auto simp: fetch_object_def rbind_eq_Inr allowance_ok_def dest!: consume_allowance split: option.splits if_splits)

lemma decodes_allowance:
  "decodes cd lm rows d A node st v st' \<Longrightarrow> allowance_ok st st'"
  "decodes_list cd lm rows d A cs st vs st' \<Longrightarrow> allowance_ok st st'"
  "decodes_entries cd lm rows d A es st kvs st' \<Longrightarrow> allowance_ok st st'"
  by (induction rule: decodes_decodes_list_decodes_entries.inducts) (blast intro: allowance_refl fetch_allowance allowance_trans)+

subsection \<open>Plain JSON\<close>

lemma legacy_reads:
  "legacy_measure cd lm d v = Inr n \<Longrightarrow> keys_distinct v \<Longrightarrow>
     n \<le> lm_logical lm \<and> json_ok v \<and> canonical_bytes cd v = n \<and> nested_within (lm_depth lm - int d) v"
  "legacy_list cd lm d xs first acc = Inr n \<Longrightarrow> n \<le> lm_logical lm \<Longrightarrow> list_all keys_distinct xs \<Longrightarrow>
     list_all (\<lambda>v. json_ok v \<and> nested_within (lm_depth lm - int d) v) xs \<and>
     n = acc + sum_list (List.map (canonical_bytes cd) xs) + gaps first (length xs)"
  "legacy_entries cd lm d kvs first acc = Inr n \<Longrightarrow> n \<le> lm_logical lm \<Longrightarrow> list_all (\<lambda>kv. keys_distinct (snd kv)) kvs \<Longrightarrow>
     list_all (\<lambda>kv. json_ok (snd kv) \<and> nested_within (lm_depth lm - int d) (snd kv)) kvs \<and>
     n = acc + sum_list (List.map (entry_bytes cd) kvs) + gaps first (length kvs)"
proof (induction cd lm d v and cd lm d xs first acc and cd lm d kvs first acc
    arbitrary: n and n and n rule: legacy_measure_legacy_list_legacy_entries.induct)
  case (1 cd lm d v)
  have d: "\<not> lm_depth lm < int d" "int d \<le> lm_depth lm" using "1.prems"(1) by (auto simp: legacy_measure.simps[of cd lm d v] split: if_splits)
  note run = "1.prems"(1)[unfolded legacy_measure.simps[of cd lm d v]]
  show ?case
  proof (cases v)
    case (PList xs)
    then have l: "legacy_list cd lm (Suc d) xs True 2 = Inr n" "n \<le> lm_logical lm"
      using run d by (auto simp: rbind_eq_Inr split: if_splits)
    have "list_all keys_distinct xs" using "1.prems"(2) PList by simp
    from "1.IH"(1)[OF d(1) PList l this] show ?thesis
      using PList d l(2) by (simp add: canonical_bytes_list list_all_iff diff_diff_eq add.commute)
  next
    case (PDict kvs)
    let ?s = "sorted_entries kvs" and ?f = "\<lambda>kv :: pyval \<times> pyval. (fst kv, canon (snd kv))"
    have strings: "list_all (\<lambda>kv. is_PStr (fst kv)) kvs" and l: "legacy_entries cd lm (Suc d) ?s True 2 = Inr n" "n \<le> lm_logical lm"
      using run d PDict by (auto simp: rbind_eq_Inr split: if_splits)
    have "list_all (\<lambda>kv. keys_distinct (snd kv)) ?s" using "1.prems"(2) PDict by (simp add: list_all_iff)
    note r = "1.IH"(2)[OF d(1) PDict strings l this]
    have "canonical_entries (List.map ?f ?s)"
      using strings by (simp add: canonical_entries_def list_all_iff comp_def sorted_entries_def)
    moreover have "canonical_bytes cd (PDict kvs) = canonical_bytes cd (PDict (List.map ?f ?s))"
      unfolding canonical_bytes_def using canon_sorted_entries[of kvs] by (metis canon_idem)
    moreover have "List.map (entry_bytes cd \<circ> ?f) ?s = List.map (entry_bytes cd) ?s"
      by (simp add: entry_bytes_def canonical_bytes_def)
    ultimately have "canonical_bytes cd (PDict kvs) = n" using r by (simp add: canonical_bytes_dict)
    then show ?thesis using PDict d l(2) r strings by (simp add: list_all_iff diff_diff_eq add.commute)
  qed (use run d in \<open>auto simp: rbind_eq_Inr bool_bytes split: if_splits pyfloat.splits\<close>)
next
  case (3 cd lm d x xs first acc)
  obtain m where m: "legacy_measure cd lm d x = Inr m" using "3.prems"(1) by (auto simp: rbind_eq_Inr)
  let ?t = "acc + m + separator first"
  have t: "\<not> lm_logical lm < ?t" "legacy_list cd lm d xs False ?t = Inr n"
    using "3.prems"(1,2) m by (auto split: if_splits)
  show ?case using "3.IH"(1)[OF m] "3.IH"(2)[OF m t "3.prems"(2)] "3.prems"(3) by (simp add: gaps_Suc)
next
  case (5 cd lm d k x kvs first acc)
  obtain m where m: "legacy_measure cd lm d x = Inr m" using "5.prems"(1) by (auto simp: rbind_eq_Inr)
  let ?t = "acc + canonical_bytes cd k + 1 + m + separator first"
  have t: "\<not> lm_logical lm < ?t" "legacy_entries cd lm d kvs False ?t = Inr n"
    using "5.prems"(1,2) m by (auto simp: Let_def split: if_splits)
  show ?case using "5.IH"(1)[OF m] "5.IH"(2)[OF m refl t "5.prems"(2)] "5.prems"(3)
    by (simp add: gaps_Suc entry_bytes_def [of cd "(k, x)"])
qed (simp_all add: gaps_def)

subsection \<open>An example\<close>

text \<open>A digest by the kind of the node, and a value one of whose parts becomes an object of its own.\<close>

definition demo_digest :: "pyval \<Rightarrow> string" where
  "demo_digest v = replicate 64 (case v of PList (PStr s # _) \<Rightarrow> if s = ''dict'' then CHR ''d'' else CHR ''e'' | _ \<Rightarrow> CHR ''0'')"

definition demo_codec :: codec where
  "demo_codec = \<lparr>cd_digest = demo_digest, cd_float = (\<lambda>r. ''1.0'')\<rparr>"

definition demo_limits :: limits where
  "demo_limits = \<lparr>lm_threshold = 8, lm_logical = 100, lm_encoded = 5000, lm_depth = 5\<rparr>"

definition demo_content :: pyval where
  "demo_content = PDict [(PStr ''b'', PStr ''aaaaaaaa''), (PStr ''a'', PList [PInt 1])]"

definition demo_encoded :: "content_column \<times> content_row list" where
  "demo_encoded =
     (Coded (Json_Text (ref_node (replicate 64 CHR ''d'') 24)),
      [\<lparr>co_digest = replicate 64 CHR ''e'', co_encoded = Json_Text (node_of ''string'' [PStr ''aaaaaaaa'']), co_bytes = 10\<rparr>,
       \<lparr>co_digest = replicate 64 CHR ''d'',
         co_encoded = Json_Text (node_of ''dict'' [PList
           [PList [PStr ''a'', node_of ''list'' [PList [node_of ''int'' [PInt 1]]]],
            PList [PStr ''b'', ref_node (replicate 64 CHR ''e'') 10]]]),
         co_bytes = 24\<rparr>])"

lemma demo_codec_ok: "digests_ok demo_codec"
  by (auto simp: digests_ok_def digest_ok_def demo_codec_def demo_digest_def list_all_iff digest_char_def
    split: pyval.splits list.splits if_splits)

lemma demo_encodes: "encode_value demo_codec demo_limits demo_content [] = Inr demo_encoded"
  by code_simp

definition extra_object :: content_row where
  "extra_object = \<lparr>co_digest = ''other'', co_encoded = Raw_Text ''lost'', co_bytes = 4\<rparr>"

definition demo_nodes :: "pyval list" where
  "demo_nodes = List.map (\<lambda>r. case co_encoded r of Json_Text v \<Rightarrow> canon v | Raw_Text s \<Rightarrow> PNone) (snd demo_encoded)"

lemma demo_nodes_ok: "list_all (\<lambda>r. case co_encoded r of Json_Text v \<Rightarrow> True | Raw_Text s \<Rightarrow> False) (snd demo_encoded)"
  "distinct (List.map (cd_digest demo_codec) demo_nodes)"
  by code_simp+

lemma demo_free: "collision_free demo_codec (snd demo_encoded) (snd demo_encoded @ [extra_object])"
proof -
  have "object_nodes (snd demo_encoded) \<subseteq> set demo_nodes"
    by (force simp: demo_nodes_def object_nodes_def image_iff)
  moreover have "inj_on (cd_digest demo_codec) (set demo_nodes)"
    using demo_nodes_ok(2) by (simp only: distinct_map)
  moreover have "object_nodes (snd demo_encoded @ [extra_object]) = object_nodes (snd demo_encoded)"
    by (auto simp: object_nodes_def extra_object_def)
  ultimately show ?thesis by (auto simp: collision_free_def intro: inj_on_subset)
qed

definition unspent :: "content_error + pyval \<times> int option \<Rightarrow> bool" where
  "unspent r = (case r of Inl _ \<Rightarrow> False | Inr x \<Rightarrow> snd x = None)"

lemma unspentD: "unspent r \<Longrightarrow> \<exists>v. r = Inr (v, None)"
  by (auto simp: unspent_def split: sum.splits)

lemma demo_coded: "\<exists>t. fst demo_encoded = Coded t"
proof -
  have "\<not> (case fst demo_encoded of Plain _ _ \<Rightarrow> True | Coded _ \<Rightarrow> False)" by code_simp
  then show ?thesis by (cases "fst demo_encoded") auto
qed

lemma demo_reads_some: "\<not> isl (decode_value demo_codec demo_limits (Some 500) (fst demo_encoded) (snd demo_encoded))"
  by code_simp

lemma demo_reads: "unspent (decode_value demo_codec demo_limits None (fst demo_encoded) (snd demo_encoded))"
  by code_simp

lemma demo_reads_extra:
  "unspent (decode_value demo_codec (demo_limits\<lparr>lm_logical := 50\<rparr>) None (fst demo_encoded) (snd demo_encoded @ [extra_object]))"
  by code_simp

subsection \<open>Properties\<close>

text \<open>
  C38. Content survives. A value that was encoded is read back as itself, with the keys of its
  objects sorted, from every later state of the table, as long as the objects that were there
  stay; encoding itself removes and changes nothing. It needs no assumption on the digest: a
  collision makes the encoder raise.
\<close>
theorem content_roundtrip:
  assumes dg: "digests_ok cd" and v: "keys_distinct v" and run: "encode_value cd lm v rows = Inr (c, rows')"
    and kept: "objects_kept rows' later"
  shows "decode_value cd lm None c later = Inr (canon v, None) \<and> objects_kept rows rows' \<and>
    json_ok v \<and> canonical_bytes cd v \<le> lm_logical lm"
proof -
  from run obtain root n objs where b: "build cd lm 0 v [] = Inr (root, n, objs)" and ins: "insert_objects objs rows = Inr rows'"
    and c: "c = Coded (Json_Text root)" "limits_positive lm" "\<not> encoded_limit lm < prefix_bytes + canonical_bytes cd root"
    by (auto simp: encode_value_def rbind_eq_Inr split: if_splits)
  note r = build_reads_back(1)[OF dg b v] and t = insert_objects_kept[OF ins]
  let ?st = "\<lparr>dg_verified = [], dg_budget = None\<rparr>"
  have h: "holds later objs" using t kept by (auto simp: holds_def objects_kept_def)
  have "larger later n []" "cached later ?st" by (simp_all add: larger_def cached_def)
  with h obtain st' where d: "decode_node cd lm later 0 [] root ?st = Inr (canon v, st')" "cached later st'"
    using r unfolding readable_def by fastforce
  have p: "parse_node cd lm (Json_Text root) = Inr root"
    using r c(3) by (auto simp: parse_node_Inr node_fine_def stored_bytes_def prefix_bytes_def)
  have "decode_value cd lm None c later = Inr (canon v, None)"
    using c d p r by (simp add: decode_value_def consume_bytes_def column_bytes_def stored_bytes_def cached_def node_fine_def)
  moreover from decode_reads[OF this[unfolded c(1)]] have "json_ok v" "canonical_bytes cd v \<le> lm_logical lm"
    by (simp_all add: canonical_bytes_def)
  ultimately show ?thesis using t by blast
qed

theorem content_roundtrip_witness:
  "decode_value demo_codec demo_limits None (fst demo_encoded) (snd demo_encoded @ [extra_object]) = Inr (canon demo_content, None)"
proof -
  have "keys_distinct demo_content" by code_simp
  moreover have "encode_value demo_codec demo_limits demo_content [] = Inr (fst demo_encoded, snd demo_encoded)"
    using demo_encodes by simp
  ultimately show ?thesis using content_roundtrip[OF demo_codec_ok _ _ objects_kept_append] by blast
qed

text \<open>
  C39. Reading is bounded, whatever the table holds. A value that \<open>decode_value\<close> returns, from
  references or from plain text, is strict JSON whose own text is within the logical limit and
  whose nesting is within the depth limit, although a node may be referred to many times; and
  an allowance of encoded bytes is never overdrawn and pays at least for the column.
\<close>
theorem content_within_limits:
  assumes run: "decode_value cd lm budget c rows = Inr (v, rest)" and plain: "\<forall>u n. c = Plain (Some u) n \<longrightarrow> keys_distinct u \<and> 0 \<le> n"
  shows "json_ok v \<and> canonical_bytes cd v \<le> lm_logical lm \<and> nested_within (lm_depth lm) v \<and>
    (\<forall>b. budget = Some b \<and> 0 \<le> b \<longrightarrow> (\<exists>r. rest = Some r \<and> 0 \<le> r \<and> r \<le> b - column_bytes cd c))"
proof -
  let ?st = "\<lparr>dg_verified = [], dg_budget = budget\<rparr>"
  from run obtain st where st: "consume_bytes (column_bytes cd c) ?st = Inr st" by (auto simp: decode_value_def rbind_eq_Inr split: if_splits)
  have left: "dg_budget st = Some (b - column_bytes cd c) \<and> 0 \<le> b - column_bytes cd c" if "budget = Some b" for b
    using st that by (auto simp: consume_bytes_def split: if_splits)
  show ?thesis
  proof (cases c)
    case (Coded t)
    from run Coded st obtain root st' where d: "decode_node cd lm rows 0 [] root st = Inr (v, st')" "rest = dg_budget st'"
      by (auto simp: decode_value_def rbind_eq_Inr split: if_splits)
    have "allowance_ok st st'" using decodes_allowance(1)[OF decode_decodes(1)[OF d(1)]] by simp
    then have "\<exists>r. rest = Some r \<and> 0 \<le> r \<and> r \<le> b - column_bytes cd c" if "budget = Some b" for b
      using left[OF that] d(2) by (auto simp: allowance_ok_def)
    then show ?thesis using decode_reads[OF run[unfolded Coded]] by blast
  next
    case (Plain u n)
    with run st obtain m where "u = Some v" "legacy_measure cd lm 0 v = Inr m" "rest = dg_budget st"
      by (auto simp: decode_value_def rbind_eq_Inr expect_def split: if_splits option.splits)
    then show ?thesis using legacy_reads(1)[of cd lm 0 v m] plain Plain left by auto
  qed
qed

theorem content_within_limits_witness:
  "\<exists>v r. decode_value demo_codec demo_limits (Some 500) (fst demo_encoded) (snd demo_encoded) = Inr (v, Some r) \<and>
    canonical_bytes demo_codec v \<le> 100 \<and> 0 \<le> r"
proof -
  obtain x where x: "decode_value demo_codec demo_limits (Some 500) (fst demo_encoded) (snd demo_encoded) = Inr x"
    using demo_reads_some by (cases "decode_value demo_codec demo_limits (Some 500) (fst demo_encoded) (snd demo_encoded)") auto
  then have run: "decode_value demo_codec demo_limits (Some 500) (fst demo_encoded) (snd demo_encoded) = Inr (fst x, snd x)"
    by simp
  have "\<forall>u n. fst demo_encoded = Plain (Some u) n \<longrightarrow> keys_distinct u \<and> 0 \<le> n" using demo_coded by auto
  note bounds = content_within_limits[OF run this]
  then obtain r where "snd x = Some r" "0 \<le> r" by auto
  moreover have "lm_logical demo_limits = 100" by (simp add: demo_limits_def)
  ultimately show ?thesis using run bounds by metis
qed

text \<open>
  C40. A column means one value: read from any two states of the table, with any limits and
  allowances, it gives the same value whenever both readings succeed, as long as no two of
  their objects collide. Removed, changed or foreign objects can make a reading fail, but never
  return something else.
\<close>
theorem content_means_one_value:
  assumes "collision_free cd rows rows'" and "decode_value cd lm budget (Coded t) rows = Inr (v, rest)"
    and "decode_value cd lm' budget' (Coded t) rows' = Inr (w, rest')"
  shows "v = w"
proof -
  from assms(2) obtain root n st st' where r: "parse_node cd lm t = Inr root" "dg_verified st = []"
      "decodes cd lm rows 0 [] root st v st'" by (rule decode_coded)
  from assms(3) obtain root' m su su' where q: "parse_node cd lm' t = Inr root'" "dg_verified su = []"
      "decodes cd lm' rows' 0 [] root' su w su'" by (rule decode_coded)
  have "root' = root" using r(1) q(1) by (auto simp: parse_node_Inr)
  then show ?thesis using decodes_same(1)[OF assms(1) r(3)] r(2) q by (simp add: cache_ok_def)
qed

theorem content_means_one_value_witness:
  "\<exists>v w. decode_value demo_codec demo_limits None (fst demo_encoded) (snd demo_encoded) = Inr (v, None) \<and>
    decode_value demo_codec (demo_limits\<lparr>lm_logical := 50\<rparr>) None (fst demo_encoded) (snd demo_encoded @ [extra_object]) = Inr (w, None) \<and> v = w"
proof -
  obtain t where t: "fst demo_encoded = Coded t" using demo_coded by blast
  obtain v where v: "decode_value demo_codec demo_limits None (fst demo_encoded) (snd demo_encoded) = Inr (v, None)"
    using unspentD[OF demo_reads] by blast
  obtain w where w: "decode_value demo_codec (demo_limits\<lparr>lm_logical := 50\<rparr>) None (fst demo_encoded) (snd demo_encoded @ [extra_object]) = Inr (w, None)"
    using unspentD[OF demo_reads_extra] by blast
  have "v = w" using content_means_one_value[OF demo_free] v w unfolding t by blast
  then show ?thesis using v w by blast
qed

end
