(* ===== verification/Spec2Isabelle.thy ===== *)
theory Spec2Isabelle
  imports Results Runs Reception Budgets Contents
begin

text \<open>
  A verification library for dispatcher-sdk (\<open>src/src/dispatcher_sdk\<close>): the execution kernel,
  the orchestrator on top of it, the notification inbox, the budget envelopes and the content
  store.

  The program. The execution kernel (\<open>execution_kernel/\<close>) keeps commands, attempts, leases,
  external effects and the deliveries of results in one SQLite file. Clients submit commands;
  workers claim an execution under a lease with a fencing number, start it, journal the
  external effects it performs and complete it; a reaper requeues what an expired lease left
  behind; effects whose outcome is unknown park their execution until somebody decides. The
  result of every ended execution is delivered through an outbox. The orchestrator
  (\<open>orchestrator/\<close>) keeps Runs: tasks with dependencies and attempts, waits and signals. An
  application reads a Run and sends a batch of operations for the revision it read; the
  orchestrator checks them, stores the next version, and later sends the messages of the
  batch (dispatch, cancel) to the kernel and writes what the kernel reports into the Run. The
  notification inbox hands notifications to workers under leases and marks each consumed
  together with the application's own change. A budget envelope carries deadlines across
  processes whose clocks differ. The content store keeps the large parts of a JSON value once,
  as objects named by their digest.

  Model and code. Every operation is a function on an explicit state that returns the new
  state and a value, or the exception (a constructor of a sum type); a database is a record of
  tables, a table a list of rows with the keys the schema declares; a transaction returns the
  old state on an exception. All definitions evaluate.

  \<^item> \<open>Prelude\<close>: sums as fallible computations, state operations, tables and their locale
    \<open>table\<close>, the locale \<open>progress\<close> for relations that every step keeps, blank strings.
  \<^item> \<open>Floats\<close>: finite binary64 values as rational numbers, rounding to nearest even, sums,
    differences, successors. \<open>PyVal\<close>: Python values, strict JSON, the field checks of
    \<open>contracts.py\<close>, canonical encoding, the exceptions of \<open>errors.py\<close>.
  \<^item> \<open>Transitions\<close> (\<open>transitions.py\<close>), \<open>Contracts\<close> (commands, retry policies, errors, leases of
    \<open>contracts.py\<close>), \<open>Snapshots\<close> (results, snapshots, effect records; \<open>event.py\<close>).
  \<^item> \<open>Store\<close> (\<open>_sqlite_base.py\<close>, tables of \<open>_sqlite_schema.py\<close>): the record \<open>kernel\<close>, the clock,
    transactions, the lease check, the event log. \<open>RunControl\<close>, \<open>Effects\<close>, \<open>Outbox\<close>,
    \<open>Completion\<close>, \<open>Recovery\<close>, \<open>Execution\<close>: the operations of the files
    \<open>_sqlite_execution.py\<close>, \<open>_sqlite_effects.py\<close>, \<open>_sqlite_outbox.py\<close>,
    \<open>_sqlite_completion.py\<close>, \<open>_sqlite_recovery.py\<close> and \<open>claiming.py\<close>.
  \<^item> \<open>Tasks\<close> and \<open>Reducer\<close> (\<open>orchestrator/contracts.py\<close>, \<open>reducer.py\<close>): the record \<open>orun\<close> of a Run
    and the reduction of one operation. \<open>RunStore\<close> (\<open>store.py\<close>): the record \<open>odb\<close> of the
    orchestrator's tables; loading, saving, receipts, events, registrations. \<open>Engine\<close>
    (\<open>engine.py\<close>, \<open>runs.py\<close>): the requests and readings of a client. \<open>Transport\<close>
    (\<open>transport.py\<close>): programs over a \<open>world\<close>, the kernel and the orchestrator's database.
  \<^item> \<open>Inbox\<close> (\<open>orchestrator/inbox.py\<close>), \<open>Budget\<close> (\<open>execution_kernel/budget.py\<close>), \<open>Content\<close>
    (\<open>content.py\<close>).
\<close>

text \<open>
  What the theorems show. The kernel: \<open>Invariants\<close> states the invariant \<open>kernel_ok\<close>;
  \<open>Parking\<close>, \<open>Ending\<close>, \<open>Soundness\<close>, \<open>Frames\<close>, \<open>Claims\<close>, \<open>Submitting\<close>, \<open>Working\<close> and \<open>Delivery\<close>
  prove it, group by group, of every operation body, \<open>Growth\<close> that history is only added to,
  and \<open>Operations\<close> and \<open>Histories\<close> lift both to transactions and to arbitrary sequences of
  calls with arbitrary clock readings. The properties are in \<open>Safety\<close> (what all reachable
  stores satisfy), \<open>Workers\<close> (leases and fences), \<open>Outcomes\<close> (effects and commands once),
  \<open>Scheduling\<close> (the claim order, the reaper's termination) and \<open>Results\<close> (how executions end and
  results are delivered); \<open>Example\<close> evaluates one run of the kernel for the witnesses.

  The orchestrator: abstractly a Run is the list of the states committed for it. \<open>Versions\<close>,
  \<open>Commits\<close>, \<open>Decisions\<close>, \<open>Ledger\<close>, \<open>Saves\<close>, \<open>Observing\<close> and \<open>Identities\<close> show that the item and
  history tables represent these states and that every transaction commits one more;
  \<open>Replays\<close> that a request is carried out once; \<open>Worlds\<close> puts the kernel and the orchestrator
  together as a step relation with any number of interleaved processes, where each kernel
  call, reading and transaction is one step; \<open>Deliveries\<close> shows that the orchestrator's
  programs - with their retries and error handlers - consist of such steps; \<open>Abstraction\<close> reads
  the database as a map from Runs and revisions to states. \<open>Runs\<close> states the properties: well
  formed versions, immutable history, the refinement of the reducer, idempotent requests,
  one attempt per execution, final outcomes, and the decision of acyclicity.

  \<open>Inboxes\<close>, \<open>Messages\<close> and \<open>Reception\<close> do the same for the inbox, \<open>Budgets\<close> for the budgets.
  \<open>Contents\<close> shows that encoded content is read back, within the limits, as the same value.

  Interfaces. \<open>table\<close> is interpreted on every table of the kernel; \<open>progress\<close> - what a
  reflexive and transitive relation between the state before and after gives for composed
  operations - on each relation the preservation proofs use: the kernel's invariant with its
  frame and growth conditions, the orchestrator's, and the inbox's; \<open>journey\<close> on the histories
  of worlds, for the programs of \<open>Transport\<close>.

  Bounds and fuel. The reaper's loop takes the number of batches as fuel; it ends after at
  most as many as the expired leases fill (\<open>Scheduling.reap_terminates\<close>). The cancel loop has
  the eight rounds of the code. The search for a dependency cycle is total, by the tasks not
  yet seen. The decoder of content is total, by the bounded chain of references and the size of the
  node. Python's recursion limit and its limit on digits of integers have no counterpart.
\<close>

text \<open>
  Conventions and what is not modelled.

  Values: strings are lists of characters, read as code points below 256; a time is the
  rational number of a finite float (zero unsigned); a column of JSON text holds the canonical
  value, so the parsing of text by the json library is left out; text that is not strict JSON
  is the exception of the encoder; a missing effect response is \<open>PNone\<close>. Arguments of
  operations have their annotated types. \<open>uuid4\<close> is a supply of names with a counter, the
  wall clock of each call an argument or a sequence, C's \<open>pow\<close> (the backoff) and SHA-256 (the
  digest of a request) are parameters; so are the texts of exceptions in delivery records.

  Kernel: the store is one without host-protected runs, children, budget samples, pause
  receipts and lifecycle reservations, whose operations need an external authority; opening
  files, lock timeouts, the schema validator and the reading of effect events are left out, as
  are the processes and threads of the runtime around the store.

  Orchestrator: a column of a Run holds its value, and the content store that may encode it is
  verified on its own; streamed application states, retention and disposal of Runs, the permits
  and redaction of managed Runs, the recovery of Runs and the listings are not modelled; the
  lists of managed, recovering and disposed Runs are only read. The runtime that may stand in
  for the kernel is left out. A state that \<open>finish\<close> cannot hash is the Python type
  error it is in the code.

  Inbox: the tables of the application are one value and its mutation a function that may
  raise; the schema checks, the SQLite authorizer and the advisory \<open>_delivery_ready\<close> are left
  out. Budget: the sample of the clock is an argument, \<open>math.fsum\<close> the correctly rounded exact
  sum; sampling, boot identities and \<open>deadline_monotonic\<close> are left out.

  Content: SHA-256 and the shortest text of a float are parameters; a value is a tree, so the
  encoder's check for cycles in memory has no counterpart; what is left of a byte allowance
  after an exception is not kept.

  Observability, maintenance and migration of files, the adapters and the managed
  administration are not modelled: they move files, processes and reports around these parts.
\<close>

end
